(* ===== verification/Prelude.thy ===== *)
theory Prelude
  imports Main "HOL-Library.Word" "HOL-Library.Multiset"
begin

text \<open>
  Shared vocabulary of the development: bytes and machine integers, Go strings as byte
  sequences, error values, the bind of the error sum, and the generic list, map and word
  lemmas the components use.

  A Go \<open>error\<close> return is the left summand of a sum; a Go \<open>panic\<close> (an explicit one, a failed
  \<open>lo.Assert\<close>, a nil dereference or an index out of range) is the constructor \<open>Panic\<close> of the
  same type, so that no panic of the code is hidden by a totalised HOL function.
\<close>

type_synonym byte = "8 word"
type_synonym bytes = "byte list"
type_synonym u32 = "32 word"
type_synonym u64 = "64 word"

datatype go_error =
    Panic string
  | InsufficientBytes
  | ElementNotFound
  | EmptyKey
  | InvalidDepth
  | MissingType
  | MissingKey
  | CannotCast byte
  | NoDocuments
  | Err string

definition is_panic :: "go_error \<Rightarrow> bool" where
  "is_panic e = (case e of Panic _ \<Rightarrow> True | _ \<Rightarrow> False)"

lemma is_panic_simps [simp]:
  "is_panic (Panic s)" "\<not> is_panic InsufficientBytes" "\<not> is_panic ElementNotFound"
  "\<not> is_panic EmptyKey" "\<not> is_panic InvalidDepth" "\<not> is_panic MissingType"
  "\<not> is_panic MissingKey" "\<not> is_panic (CannotCast b)" "\<not> is_panic NoDocuments"
  "\<not> is_panic (Err m)"
  by (simp_all add: is_panic_def)

subsection \<open>Error propagation\<close>

definition rbind :: "'e + 'a \<Rightarrow> ('a \<Rightarrow> 'e + 'b) \<Rightarrow> 'e + 'b" where
  "rbind m f = (case m of Inl e \<Rightarrow> Inl e | Inr x \<Rightarrow> f x)"

lemma rbind_simps [simp]: "rbind (Inl e) f = Inl e" "rbind (Inr x) f = f x"
  by (simp_all add: rbind_def)

lemma rbind_eq_Inr: "rbind m f = Inr y \<longleftrightarrow> (\<exists>x. m = Inr x \<and> f x = Inr y)"
  by (cases m) auto

lemma rbind_eq_Inl: "rbind m f = Inl e \<longleftrightarrow> m = Inl e \<or> (\<exists>x. m = Inr x \<and> f x = Inl e)"
  by (cases m) auto

lemma rbind_cong [fundef_cong]:
  "m = m' \<Longrightarrow> (\<And>x. m' = Inr x \<Longrightarrow> f x = g x) \<Longrightarrow> rbind m f = rbind m' g"
  by (cases m') auto

definition is_ok :: "'e + 'a \<Rightarrow> bool" where
  "is_ok r = (case r of Inl _ \<Rightarrow> False | Inr _ \<Rightarrow> True)"

lemma is_ok_simps [simp]: "is_ok (Inr x)" "\<not> is_ok (Inl e)"
  by (simp_all add: is_ok_def)

text \<open>A Go loop whose body may return an error: the first error ends it.\<close>

fun rfold :: "('s \<Rightarrow> 'x \<Rightarrow> 'e + 's) \<Rightarrow> 's \<Rightarrow> 'x list \<Rightarrow> 'e + 's" where
  "rfold f s [] = Inr s"
| "rfold f s (x # xs) = rbind (f s x) (\<lambda>s'. rfold f s' xs)"

lemma rfold_append: "rfold f s (xs @ ys) = rbind (rfold f s xs) (\<lambda>s'. rfold f s' ys)"
proof (induction xs arbitrary: s)
  case (Cons x xs)
  then show ?case by (cases "f s x") auto
qed simp

lemma rfold_inv:
  assumes "rfold f s xs = Inr s'" and "P s"
    and "\<And>s x s'. P s \<Longrightarrow> x \<in> set xs \<Longrightarrow> f s x = Inr s' \<Longrightarrow> P s'"
  shows "P s'"
  using assms
proof (induction xs arbitrary: s)
  case (Cons x xs)
  from Cons.prems(1) obtain s1 where s1: "f s x = Inr s1" "rfold f s1 xs = Inr s'"
    by (auto simp: rbind_eq_Inr)
  have "P s1" by (rule Cons.prems(3) [OF Cons.prems(2) _ s1(1)]) simp
  show ?case
  proof (rule Cons.IH [OF s1(2) \<open>P s1\<close>])
    show "P t'" if "P t" "y \<in> set xs" "f t y = Inr t'" for t y t'
      using that by (intro Cons.prems(3) [of t y t']) simp_all
  qed
qed simp

lemma rfold_total:
  assumes "P s" and "\<And>s x. P s \<Longrightarrow> x \<in> set xs \<Longrightarrow> \<exists>s'. f s x = Inr s' \<and> P s'"
  shows "\<exists>s'. rfold f s xs = Inr s' \<and> P s'"
  using assms
proof (induction xs arbitrary: s)
  case (Cons x xs)
  from Cons.prems(2) [OF Cons.prems(1), of x] obtain s1 where s1: "f s x = Inr s1" "P s1" by auto
  from s1(2) have "\<exists>s'. rfold f s1 xs = Inr s' \<and> P s'"
    by (rule Cons.IH) (simp add: Cons.prems(2))
  with s1(1) show ?case by simp
qed simp

subsection \<open>Go strings and bytes\<close>

text \<open>A Go string is a byte sequence; HOL characters are exactly the 256 byte values.\<close>

definition str_bytes :: "string \<Rightarrow> bytes" where
  "str_bytes s = map (\<lambda>c. of_char c) s"

definition bytes_str :: "bytes \<Rightarrow> string" where
  "bytes_str bs = map (\<lambda>b. char_of (unat b)) bs"

lemma of_char_word_nat: "(of_char c :: byte) = word_of_nat (of_char c)"
  by (cases c) (simp add: of_char_def)

lemma unat_of_char: "unat (of_char c :: byte) = of_char c"
  by (simp add: of_char_word_nat unat_of_nat take_bit_nat_eq_self)

lemma of_char_char_of_unat: "(of_char (char_of (unat (b :: byte)) :: char) :: byte) = b"
proof -
  have "unat b < 256" by (rule unsigned_less [of b, THEN order_less_le_trans]) simp
  then have "of_char (char_of (unat b) :: char) = unat b" by simp
  then show ?thesis by (simp add: of_char_word_nat)
qed

lemma bytes_str_str_bytes [simp]: "bytes_str (str_bytes s) = s"
  by (induction s) (simp_all add: str_bytes_def bytes_str_def unat_of_char)

lemma str_bytes_bytes_str [simp]: "str_bytes (bytes_str bs) = bs"
  by (induction bs) (simp_all add: str_bytes_def bytes_str_def of_char_char_of_unat)

lemma str_bytes_inject [simp]: "str_bytes s = str_bytes t \<longleftrightarrow> s = t"
  by (metis bytes_str_str_bytes)

lemma length_str_bytes [simp]: "length (str_bytes s) = length s"
  by (simp add: str_bytes_def)

lemma length_bytes_str [simp]: "length (bytes_str s) = length s"
  by (simp add: bytes_str_def)

lemma str_bytes_append [simp]: "str_bytes (s @ t) = str_bytes s @ str_bytes t"
  by (simp add: str_bytes_def)

lemma str_bytes_Nil [simp]: "str_bytes [] = []"
  by (simp add: str_bytes_def)

lemma of_char_eq_0_iff: "(of_char c :: byte) = 0 \<longleftrightarrow> c = CHR 0x00"
proof
  assume "(of_char c :: byte) = 0"
  then have "(of_char c :: nat) = 0" by (metis unat_of_char unsigned_0)
  moreover have "(of_char (CHR 0x00) :: nat) = 0" by simp
  ultimately show "c = CHR 0x00" by (metis of_char_eq_iff)
next
  assume "c = CHR 0x00" then show "(of_char c :: byte) = 0" by simp
qed

lemma zero_in_str_bytes: "0 \<in> set (str_bytes s) \<longleftrightarrow> CHR 0x00 \<in> set s"
  by (force simp: str_bytes_def of_char_eq_0_iff dest: sym)

end
