(* ===== verification/Containers.thy ===== *)
theory Containers
  imports Prelude
begin

text \<open>
  The small data structures of the repository: the slice helpers (\<open>mslices/slices.go\<close>), the
  TTL history (\<open>history/history.go\<close>), the ring queue (\<open>mring/mring.go\<close>), the write-once
  \<open>Eventual\<close> (\<open>internal/util/eventual.go\<close>), the mutex-guarded \<open>DataGuard\<close>
  (\<open>msync/dataguard.go\<close>) and the namespace map (\<open>internal/verifier/nsmap.go\<close>).
  Mutexes serialise the operations, so each operation is one atomic state transformer; the
  clock readings (\<open>time.Now\<close>, in nanoseconds) are arguments.
\<close>

section \<open>Slice helpers\<close>

fun find_first_dupe :: "'a list \<Rightarrow> 'a option" where
  "find_first_dupe [] = None"
| "find_first_dupe (x # xs) = (if x \<in> set xs then Some x else find_first_dupe xs)"

lemma find_first_dupe_None_iff: "find_first_dupe xs = None \<longleftrightarrow> distinct xs"
  by (induction xs) auto

lemma find_first_dupe_Some:
  "find_first_dupe xs = Some x \<Longrightarrow>
     \<exists>as bs. xs = as @ x # bs \<and> x \<in> set bs \<and> distinct as \<and> set as \<inter> set (x # bs) = {}"
proof (induction xs)
  case (Cons y ys)
  show ?case
  proof (cases "y \<in> set ys")
    case True
    with Cons.prems have "y = x" by simp
    with True show ?thesis by (intro exI [of _ "[]"] exI [of _ ys]) simp
  next
    case False
    with Cons obtain as bs where
      "ys = as @ x # bs" "x \<in> set bs" "distinct as" "set as \<inter> set (x # bs) = {}" by auto
    with False show ?thesis by (intro exI [of _ "y # as"] exI [of _ bs]) auto
  qed
qed simp

definition to_map :: "('e \<Rightarrow> 'k) \<Rightarrow> 'e list \<Rightarrow> ('k \<rightharpoonup> 'e)" where
  "to_map cb s = foldl (\<lambda>m el. m(cb el \<mapsto> el)) Map.empty s"

lemma foldl_upd_lookup:
  "foldl (\<lambda>m el. m(cb el \<mapsto> el)) m s k =
     (case filter (\<lambda>el. cb el = k) s of [] \<Rightarrow> m k | es \<Rightarrow> Some (last es))"
  by (induction s rule: rev_induct) (auto split: list.splits)

lemma to_map_last_wins:
  "to_map cb s k = (case filter (\<lambda>el. cb el = k) s of [] \<Rightarrow> None | es \<Rightarrow> Some (last es))"
  by (simp add: to_map_def foldl_upd_lookup)

fun compact :: "('a \<Rightarrow> bool) \<Rightarrow> 'a list \<Rightarrow> 'a list" where
  "compact is_zero [] = []"
| "compact is_zero (el # slc) =
     (if \<not> is_zero el then el # compact is_zero slc else compact is_zero slc)"

lemma compact_filter [simp]: "compact is_zero slc = filter (\<lambda>el. \<not> is_zero el) slc"
  by (induction slc) auto

text \<open>
  \<open>lo.Slice\<close> clamps both bounds into the slice. \<open>Chunk\<close> advances by the length of the chunk
  it yielded, so with a size below 1 it never advances: the iterator of a non-empty slice
  does not end, which the model shows as \<open>None\<close>.
\<close>

definition lo_slice :: "'a list \<Rightarrow> int \<Rightarrow> int \<Rightarrow> 'a list" where
  "lo_slice c start end =
     (if start \<ge> end then []
      else let n = int (length c);
               s = max 0 (min start n);
               e = max 0 (min end n)
           in take (nat (e - s)) (drop (nat s) c))"

partial_function (option) chunk_from :: "'a list \<Rightarrow> int \<Rightarrow> int \<Rightarrow> 'a list list option" where
  "chunk_from c sz i =
     (if i < int (length c)
      then let ch = lo_slice c i (i + sz)
           in Option.bind (chunk_from c sz (i + int (length ch))) (\<lambda>rest. Some (ch # rest))
      else Some [])"

definition chunk :: "'a list \<Rightarrow> int \<Rightarrow> 'a list list option" where
  "chunk c sz = chunk_from c sz 0"

lemma lo_slice_inside:
  assumes "0 \<le> i" "i < int (length c)" "0 < sz"
  shows "lo_slice c i (i + sz) = take (nat sz) (drop (nat i) c)"
proof -
  have "nat (min (i + sz) (int (length c)) - i) = min (nat sz) (length c - nat i)"
    using assms by linarith
  with assms show ?thesis
    by (auto simp: lo_slice_def min_def max_def Let_def split: if_splits)
qed

fun chunks_of :: "nat \<Rightarrow> 'a list \<Rightarrow> 'a list list" where
  "chunks_of n [] = []"
| "chunks_of n (x # xs) = (if n = 0 then [] else take n (x # xs) # chunks_of n (drop (n - 1) xs))"

lemma chunk_from_chunks_of:
  assumes "0 < sz" "0 \<le> i" "i \<le> int (length c)"
  shows "chunk_from c sz i = Some (chunks_of (nat sz) (drop (nat i) c))"
  using assms
proof (induction "length c - nat i" arbitrary: i rule: less_induct)
  case less
  show ?case
  proof (cases "i < int (length c)")
    case False
    with less.prems show ?thesis by (subst chunk_from.simps) simp
  next
    case True
    let ?ch = "take (nat sz) (drop (nat i) c)"
    let ?i = "i + int (length ?ch)"
    have ch: "lo_slice c i (i + sz) = ?ch"
      using less.prems True by (intro lo_slice_inside)
    have pos: "0 < length ?ch" using less.prems True by simp
    have "length ?ch \<le> length c - nat i" by simp
    with less.prems True have le: "?i \<le> int (length c)" by linarith
    have IH: "chunk_from c sz ?i = Some (chunks_of (nat sz) (drop (nat ?i) c))"
      using pos le less.prems True by (intro less.hyps) linarith+
    obtain x xs where x: "drop (nat i) c = x # xs"
      using True less.prems by (cases "drop (nat i) c") auto
    have "drop (nat ?i) c = drop (nat sz) (drop (nat i) c)"
      using less.prems by (simp add: nat_add_distrib min_def add.commute)
    also have "\<dots> = drop (nat sz - 1) xs"
      using less.prems by (simp add: x drop_Cons')
    finally show ?thesis
      using True IH less.prems by (subst chunk_from.simps) (simp add: ch x Let_def)
  qed
qed

lemma concat_chunks_of: "0 < n \<Longrightarrow> concat (chunks_of n xs) = xs"
proof (induction n xs rule: chunks_of.induct)
  case (2 n x xs)
  then show ?case using append_take_drop_id [of n "x # xs"] by (simp add: drop_Cons')
qed simp

lemma chunks_of_sizes: "0 < n \<Longrightarrow> ch \<in> set (chunks_of n xs) \<Longrightarrow> 0 < length ch \<and> length ch \<le> n"
  by (induction n xs rule: chunks_of.induct) (auto simp: min_def)

section \<open>TTL history\<close>

record 'a history =
  ttl :: int
  logs :: "(int \<times> 'a) list"

definition hist_new :: "int \<Rightarrow> 'a history" where
  "hist_new t = \<lparr>ttl = t, logs = []\<rparr>"

fun first_valid_idx :: "int \<Rightarrow> (int \<times> 'a) list \<Rightarrow> nat" where
  "first_valid_idx cutoff [] = 0"
| "first_valid_idx cutoff ((at, d) # ls) =
     (if at < cutoff then Suc (first_valid_idx cutoff ls) else 0)"

definition get_first_valid_idx :: "'a history \<Rightarrow> int \<Rightarrow> nat" where
  "get_first_valid_idx h now = first_valid_idx (now - ttl h) (logs h)"

definition hist_reap :: "'a history \<Rightarrow> int \<Rightarrow> 'a history" where
  "hist_reap h now = h\<lparr>logs := drop (get_first_valid_idx h now) (logs h)\<rparr>"

definition hist_get :: "'a history \<Rightarrow> int \<Rightarrow> (int \<times> 'a) list" where
  "hist_get h now = drop (get_first_valid_idx h now) (logs h)"

definition hist_add :: "'a history \<Rightarrow> int \<Rightarrow> 'a \<Rightarrow> 'a history \<times> nat" where
  "hist_add h now datum =
     (let h1 = hist_reap h now;
          h2 = h1\<lparr>logs := logs h1 @ [(now, datum)]\<rparr>
      in (h2, length (logs h2)))"

definition sum_logs :: "(int \<times> 'a::comm_monoid_add) list \<Rightarrow> 'a" where
  "sum_logs l = foldl (\<lambda>acc lg. acc + snd lg) 0 l"

definition hist_ok :: "'a history \<Rightarrow> int \<Rightarrow> bool" where
  "hist_ok h now \<longleftrightarrow> sorted (map fst (logs h)) \<and> (\<forall>l \<in> set (logs h). fst l \<le> now)"

lemma drop_first_valid_idx:
  "drop (first_valid_idx cutoff ls) ls = dropWhile (\<lambda>l. fst l < cutoff) ls"
  by (induction cutoff ls rule: first_valid_idx.induct) auto

lemma sorted_dropWhile_filter:
  "sorted (map fst ls) \<Longrightarrow> dropWhile (\<lambda>l. fst l < (c::int)) ls = filter (\<lambda>l. c \<le> fst l) ls"
proof (induction ls)
  case (Cons l ls)
  then show ?case by (cases "fst l < c") (force intro: filter_True [symmetric])+
qed simp

lemma hist_get_filter:
  "hist_ok h now \<Longrightarrow> hist_get h now' = filter (\<lambda>l. now' - ttl h \<le> fst l) (logs h)"
  by (simp add: hist_get_def get_first_valid_idx_def drop_first_valid_idx
      sorted_dropWhile_filter hist_ok_def)

lemma hist_add_ok:
  assumes "hist_ok h t" and "t \<le> now"
  shows "hist_ok (fst (hist_add h now d)) now"
proof -
  have "sorted (map fst (drop i (logs h)))" for i
    using assms(1) by (metis drop_map sorted_wrt_drop hist_ok_def)
  moreover have "\<forall>l \<in> set (drop i (logs h)). fst l \<le> now" for i
    using assms by (metis hist_ok_def in_set_dropD order_trans)
  ultimately show ?thesis
    by (simp add: hist_ok_def hist_add_def hist_reap_def sorted_append Let_def)
qed

section \<open>Ring queue\<close>

text \<open>
  A \<open>container/ring\<close> is a cycle; the list holds its slots from the current pointer on, so
  \<open>r = r.Next()\<close> is a rotation. \<open>ring.New\<close> of a capacity below 1 is nil, and pushing to it
  dereferences nil.
\<close>

record 'a ring_queue =
  rq_size :: int
  rq_slots :: "'a option list"

definition ring_new :: "int \<Rightarrow> 'a ring_queue" where
  "ring_new capacity = \<lparr>rq_size = capacity, rq_slots = replicate (nat capacity) None\<rparr>"

definition ring_push :: "'a ring_queue \<Rightarrow> 'a \<Rightarrow> go_error + 'a ring_queue" where
  "ring_push q v = (case rq_slots q of
       [] \<Rightarrow> Inl (Panic ''nil ring'')
     | _ # rest \<Rightarrow> Inr (q\<lparr>rq_slots := rest @ [Some v]\<rparr>))"

definition ring_get :: "'a ring_queue \<Rightarrow> go_error + 'a list" where
  "ring_get q =
     (if rq_size q < 0 then Inl (Panic ''makeslice: cap out of range'')
      else Inr (List.map_filter id (rq_slots q)))"

definition last_n :: "nat \<Rightarrow> 'a list \<Rightarrow> 'a list" where
  "last_n n xs = drop (length xs - n) xs"

lemma last_n_snoc: "last_n n (last_n n xs @ [x]) = last_n n (xs @ [x])"
  by (cases "length xs < n") (auto simp: last_n_def Suc_diff_le)

lemma length_last_n [simp]: "length (last_n n xs) = min n (length xs)"
  by (simp add: last_n_def)

text \<open>
  The contract the verifier relies on for its list of recent recheck durations: pushes never
  fail and a read gives the last \<open>cap\<close> pushed values, oldest first.
\<close>

locale recent_log =
  fixes empty :: 'q
    and push :: "'q \<Rightarrow> 'a \<Rightarrow> go_error + 'q"
    and get :: "'q \<Rightarrow> go_error + 'a list"
    and cap :: nat
    and inv :: "'q \<Rightarrow> bool"
  assumes inv_empty: "inv empty"
    and get_empty: "get empty = Inr []"
    and get_total: "inv q \<Longrightarrow> \<exists>xs. get q = Inr xs"
    and push_get: "inv q \<Longrightarrow> get q = Inr xs \<Longrightarrow>
      \<exists>q'. push q v = Inr q' \<and> inv q' \<and> get q' = Inr (last_n cap (xs @ [v]))"
begin

lemma pushes_get: "\<exists>q. rfold push empty xs = Inr q \<and> inv q \<and> get q = Inr (last_n cap xs)"
proof (induction xs rule: rev_induct)
  case Nil
  show ?case by (simp add: inv_empty get_empty last_n_def)
next
  case (snoc x xs)
  then obtain q where q: "rfold push empty xs = Inr q" "inv q" "get q = Inr (last_n cap xs)"
    by blast
  with push_get [of q "last_n cap xs" x] show ?case
    by (auto simp: rfold_append last_n_snoc)
qed

end

definition ring_inv :: "nat \<Rightarrow> 'a ring_queue \<Rightarrow> bool" where
  "ring_inv n q \<longleftrightarrow> rq_size q = int n \<and>
     (\<exists>xs. length xs \<le> n \<and> rq_slots q = replicate (n - length xs) None @ map Some xs)"

lemma map_filter_id_Some [simp]: "List.map_filter id (map Some xs) = xs"
  by (induction xs) (simp_all add: List.map_filter_simps)

lemma map_filter_id_Some_snoc [simp]: "List.map_filter id (map Some xs @ [Some v]) = xs @ [v]"
  using map_filter_id_Some [of "xs @ [v]"] by simp

lemma map_filter_id_None [simp]: "List.map_filter id (replicate n None @ ys) = List.map_filter id ys"
  by (induction n) (simp_all add: List.map_filter_simps)

lemma ring_push_get:
  assumes "0 < n" "ring_inv n q" "ring_get q = Inr xs"
  shows "\<exists>q'. ring_push q v = Inr q' \<and> ring_inv n q' \<and> ring_get q' = Inr (last_n n (xs @ [v]))"
proof -
  from assms have xs: "length xs \<le> n" "rq_slots q = replicate (n - length xs) None @ map Some xs"
    and sz: "rq_size q = int n" by (auto simp: ring_inv_def ring_get_def)
  show ?thesis
  proof (cases "length xs < n")
    case True
    then obtain m where "n - length xs = Suc m" by (metis Suc_diff_Suc)
    with True xs sz show ?thesis
      by (auto simp: ring_push_def ring_inv_def ring_get_def last_n_def intro!: exI [of _ "xs @ [v]"])
  next
    case False
    with xs(1) assms(1) obtain y ys where "xs = y # ys" by (cases xs) auto
    with False xs sz show ?thesis
      by (auto simp: ring_push_def ring_inv_def ring_get_def last_n_def List.map_filter_simps
          intro!: exI [of _ "ys @ [v]"])
  qed
qed

text \<open>The ring of \<open>RecentRecheckDurations\<close> is made with a positive constant; any will do.\<close>

interpretation ring10: recent_log "ring_new 10" ring_push ring_get 10 "ring_inv 10"
proof unfold_locales
  show "ring_inv 10 (ring_new 10)" by (simp add: ring_inv_def ring_new_def exI [of _ "[]"])
  show "ring_get (ring_new 10) = Inr []"
    using map_filter_id_None [of 10 "[]"] by (simp add: ring_get_def ring_new_def List.map_filter_simps)
  show "\<exists>xs. ring_get q = Inr xs" if "ring_inv 10 q" for q :: "'a ring_queue"
    using that by (simp add: ring_inv_def ring_get_def)
  show "\<exists>q'. ring_push q v = Inr q' \<and> ring_inv 10 q' \<and> ring_get q' = Inr (last_n 10 (xs @ [v]))"
    if "ring_inv 10 q" "ring_get q = Inr xs" for q :: "'a ring_queue" and xs v
    using ring_push_get [of 10 q xs v] that by simp
qed

section \<open>Eventual\<close>

record 'a eventual =
  ev_closed :: bool
  ev_val :: "'a option"

definition new_eventual :: "'a eventual" where
  "new_eventual = \<lparr>ev_closed = False, ev_val = None\<rparr>"

text \<open>The zero value before \<open>Set\<close> is \<open>None\<close>; \<open>Get\<close> never returns it.\<close>

definition eventual_ready :: "'a eventual \<Rightarrow> bool" where
  "eventual_ready e = ev_closed e"

definition eventual_get :: "'a eventual \<Rightarrow> go_error + 'a" where
  "eventual_get e =
     (if ev_closed e
      then (case ev_val e of Some v \<Rightarrow> Inr v | None \<Rightarrow> Inl (Panic ''no value''))
      else Inl (Panic ''Eventual's Get() called before value was ready.''))"

definition eventual_set :: "'a eventual \<Rightarrow> 'a \<Rightarrow> go_error + 'a eventual" where
  "eventual_set e v =
     (if ev_closed e then Inl (Panic ''Tried to set an eventual twice!'')
      else Inr (e\<lparr>ev_val := Some v, ev_closed := True\<rparr>))"

lemma eventual_set_once:
  assumes "rfold eventual_set new_eventual vs = Inr e"
  shows "(vs = [] \<and> \<not> eventual_ready e) \<or> (\<exists>v. vs = [v] \<and> eventual_ready e \<and> eventual_get e = Inr v)"
proof (cases vs)
  case Nil
  with assms show ?thesis by (auto simp: new_eventual_def eventual_ready_def)
next
  case (Cons v rest)
  with assms show ?thesis
    by (cases rest) (auto simp: new_eventual_def eventual_set_def eventual_ready_def eventual_get_def)
qed

section \<open>Guarded data\<close>

definition dg_store :: "'a \<Rightarrow> ('a \<Rightarrow> 'a) \<Rightarrow> 'a" where
  "dg_store value cb = cb value"

definition dg_load :: "'a \<Rightarrow> ('a \<Rightarrow> 'b) \<Rightarrow> 'b" where
  "dg_load value cb = cb value"

section \<open>Namespace map\<close>

text \<open>Go's maps as association lists: the code only adds absent keys, so a key occurs once.\<close>

record nsmap =
  src_dst :: "(string \<times> string) list"
  dst_src :: "(string \<times> string) list"

definition new_nsmap :: nsmap where
  "new_nsmap = \<lparr>src_dst = [], dst_src = []\<rparr>"

definition populate_step :: "nsmap \<Rightarrow> string \<times> string \<Rightarrow> go_error + nsmap" where
  "populate_step m p = (case p of (srcNs, dstNs) \<Rightarrow>
     (if map_of (src_dst m) srcNs \<noteq> None
      then Inl (Panic (''another mapping already exists for source namespace '' @ srcNs))
      else if map_of (dst_src m) dstNs \<noteq> None
      then Inl (Panic (''another mapping already exists for destination namespace '' @ dstNs))
      else Inr (m\<lparr>src_dst := (srcNs, dstNs) # src_dst m,
                  dst_src := (dstNs, srcNs) # dst_src m\<rparr>)))"

definition populate_with_namespaces :: "nsmap \<Rightarrow> string list \<Rightarrow> string list \<Rightarrow> go_error + nsmap" where
  "populate_with_namespaces m srcs dsts =
     (if length srcs \<noteq> length dsts
      then Inl (Panic ''source and destination namespaces are not the same length'')
      else rfold populate_step m (zip srcs dsts))"

definition nsmap_len :: "nsmap \<Rightarrow> go_error + nat" where
  "nsmap_len m =
     (if length (src_dst m) \<noteq> length (dst_src m)
      then Inl (Panic ''source and destination namespaces are not the same length'')
      else Inr (length (src_dst m)))"

definition get_dst_namespace :: "nsmap \<Rightarrow> string \<Rightarrow> string option" where
  "get_dst_namespace m srcNs = map_of (src_dst m) srcNs"

definition get_src_namespace :: "nsmap \<Rightarrow> string \<Rightarrow> string option" where
  "get_src_namespace m dstNs = map_of (dst_src m) dstNs"

definition nsmap_inv :: "nsmap \<Rightarrow> bool" where
  "nsmap_inv m \<longleftrightarrow> distinct (map fst (src_dst m)) \<and> distinct (map snd (src_dst m)) \<and>
     dst_src m = map prod.swap (src_dst m)"

lemma map_fst_swap [simp]: "map (fst \<circ> prod.swap) xs = map snd xs" "fst \<circ> prod.swap = snd"
    "fst ` prod.swap ` S = snd ` S"
  by (auto simp: fun_eq_iff image_comp)

lemma map_of_swap_None_iff: "map_of (map prod.swap xs) d = None \<longleftrightarrow> d \<notin> snd ` set xs"
  by (induction xs) auto

lemma nsmap_inv_new [simp]: "nsmap_inv new_nsmap"
  by (simp add: nsmap_inv_def new_nsmap_def)

lemma populate_step_inv: "nsmap_inv m \<Longrightarrow> populate_step m p = Inr m' \<Longrightarrow> nsmap_inv m'"
  by (auto simp: populate_step_def nsmap_inv_def map_of_eq_None_iff map_of_swap_None_iff
      split: prod.splits if_splits)

lemma populate_inv:
  assumes "populate_with_namespaces m srcs dsts = Inr m'" and "nsmap_inv m"
  shows "nsmap_inv m'"
  using assms
  by (auto simp: populate_with_namespaces_def split: if_splits
      intro: rfold_inv [of populate_step m _ m' nsmap_inv] populate_step_inv)

lemma nsmap_inv_inverse:
  assumes "nsmap_inv m"
  shows "get_dst_namespace m s = Some d \<longleftrightarrow> get_src_namespace m d = Some s"
proof -
  from assms have "map_of (src_dst m) s = Some d \<longleftrightarrow> (s, d) \<in> set (src_dst m)"
    and "map_of (dst_src m) d = Some s \<longleftrightarrow> (d, s) \<in> set (dst_src m)"
    by (simp_all add: nsmap_inv_def del: set_map)
  with assms show ?thesis by (force simp: nsmap_inv_def get_dst_namespace_def get_src_namespace_def)
qed

lemma nsmap_inv_len: "nsmap_inv m \<Longrightarrow> nsmap_len m = Inr (length (src_dst m))"
  by (auto simp: nsmap_inv_def nsmap_len_def)

text \<open>
  The contract the change persistor relies on: the two directions are inverse to each other
  and asking for the size never panics.
\<close>

locale two_way_map =
  fixes inv :: "'m \<Rightarrow> bool"
    and fwd :: "'m \<Rightarrow> 'a \<Rightarrow> 'b option"
    and bwd :: "'m \<Rightarrow> 'b \<Rightarrow> 'a option"
    and size_of :: "'m \<Rightarrow> go_error + nat"
  assumes inverse: "inv m \<Longrightarrow> fwd m a = Some b \<longleftrightarrow> bwd m b = Some a"
    and size_total: "inv m \<Longrightarrow> is_ok (size_of m)"
begin

lemma fwd_inj: "inv m \<Longrightarrow> fwd m a = Some b \<Longrightarrow> fwd m a' = Some b \<Longrightarrow> a = a'"
  using inverse [of m a b] inverse [of m a' b] by simp

lemma bwd_inj: "inv m \<Longrightarrow> bwd m b = Some a \<Longrightarrow> bwd m b' = Some a \<Longrightarrow> b = b'"
  using inverse [of m a b] inverse [of m a b'] by simp

lemma roundtrip: "inv m \<Longrightarrow> fwd m a = Some b \<Longrightarrow> Option.bind (bwd m b) (fwd m) = Some b"
  using inverse [of m a b] by simp

end

interpretation ns: two_way_map nsmap_inv get_dst_namespace get_src_namespace nsmap_len
  by unfold_locales (auto simp: nsmap_inv_inverse nsmap_inv_len)

text \<open>Population succeeds exactly on equally long lists without repetition.\<close>

lemma rfold_populate_keys:
  "rfold populate_step m ps = Inr m' \<Longrightarrow> src_dst m' = rev ps @ src_dst m"
  by (induction ps arbitrary: m)
    (auto simp: rbind_eq_Inr populate_step_def split: prod.splits if_splits)

lemma rfold_populate_ok_iff:
  "nsmap_inv m \<Longrightarrow> is_ok (rfold populate_step m ps) \<longleftrightarrow>
     distinct (map fst ps) \<and> distinct (map snd ps) \<and>
     fst ` set ps \<inter> fst ` set (src_dst m) = {} \<and> snd ` set ps \<inter> snd ` set (src_dst m) = {}"
proof (induction ps arbitrary: m)
  case (Cons p ps)
  obtain s d where p: "p = (s, d)" by (cases p)
  have dom: "map_of (dst_src m) d = None \<longleftrightarrow> d \<notin> snd ` set (src_dst m)"
    using Cons.prems by (simp add: nsmap_inv_def map_of_swap_None_iff)
  show ?case
  proof (cases "populate_step m p")
    case (Inl e)
    then have "s \<in> fst ` set (src_dst m) \<or> d \<in> snd ` set (src_dst m)"
      unfolding p populate_step_def by (simp add: dom map_of_eq_None_iff [of "src_dst m"] split: if_splits)
    with Inl show ?thesis by (auto simp: p)
  next
    case (Inr m1)
    then have "nsmap_inv m1" by (rule populate_step_inv [OF Cons.prems])
    note IH = Cons.IH [OF this]
    from Inr have m1: "s \<notin> fst ` set (src_dst m)" "d \<notin> snd ` set (src_dst m)"
        "src_dst m1 = (s, d) # src_dst m"
      unfolding p populate_step_def
      by (simp_all add: dom map_of_eq_None_iff [of "src_dst m"] split: if_splits) force
    from IH Inr m1(1,2) show ?thesis by (simp add: p m1(3)) blast
  qed
qed simp

end
