(* ===== verification/Bson_Core.thy ===== *)
theory Bson_Core
  imports Prelude
begin

unbundle bit_operations_syntax

text \<open>
  BSON at the byte level, as the vendored driver reads and writes it
  (\<open>vendor/go.mongodb.org/mongo-driver/v2/x/bsonx/bsoncore\<close>, \<open>internal/binaryutil\<close>,
  \<open>bson/raw_value.go\<close> and \<open>vendor/github.com/mongodb-labs/migration-tools/bsontools/raw.go\<close>):
  little-endian integers, the length of a value by its type, elements, documents and field
  lookup. Lengths are int32 with their wrap-around, so a slice bound that turns negative is the
  panic it is in Go. A document is a byte list; the encoder \<open>enc_doc\<close> and the lemmas on it say
  what the readers return on well-formed input.
\<close>

section \<open>Types and values\<close>

abbreviation TypeDouble :: byte where "TypeDouble \<equiv> 0x01"
abbreviation TypeString :: byte where "TypeString \<equiv> 0x02"
abbreviation TypeEmbeddedDocument :: byte where "TypeEmbeddedDocument \<equiv> 0x03"
abbreviation TypeArray :: byte where "TypeArray \<equiv> 0x04"
abbreviation TypeBinary :: byte where "TypeBinary \<equiv> 0x05"
abbreviation TypeUndefined :: byte where "TypeUndefined \<equiv> 0x06"
abbreviation TypeObjectID :: byte where "TypeObjectID \<equiv> 0x07"
abbreviation TypeBoolean :: byte where "TypeBoolean \<equiv> 0x08"
abbreviation TypeDateTime :: byte where "TypeDateTime \<equiv> 0x09"
abbreviation TypeNull :: byte where "TypeNull \<equiv> 0x0A"
abbreviation TypeRegex :: byte where "TypeRegex \<equiv> 0x0B"
abbreviation TypeDBPointer :: byte where "TypeDBPointer \<equiv> 0x0C"
abbreviation TypeJavaScript :: byte where "TypeJavaScript \<equiv> 0x0D"
abbreviation TypeSymbol :: byte where "TypeSymbol \<equiv> 0x0E"
abbreviation TypeCodeWithScope :: byte where "TypeCodeWithScope \<equiv> 0x0F"
abbreviation TypeInt32 :: byte where "TypeInt32 \<equiv> 0x10"
abbreviation TypeTimestamp :: byte where "TypeTimestamp \<equiv> 0x11"
abbreviation TypeInt64 :: byte where "TypeInt64 \<equiv> 0x12"
abbreviation TypeDecimal128 :: byte where "TypeDecimal128 \<equiv> 0x13"
abbreviation TypeMaxKey :: byte where "TypeMaxKey \<equiv> 0x7F"
abbreviation TypeMinKey :: byte where "TypeMinKey \<equiv> 0xFF"

record raw_value =
  rv_type :: byte
  rv_value :: bytes

definition rv_zero :: raw_value where
  "rv_zero = \<lparr>rv_type = 0, rv_value = []\<rparr>"

definition rv_is_zero :: "raw_value \<Rightarrow> bool" where
  "rv_is_zero rv \<longleftrightarrow> rv_type rv = 0 \<and> length (rv_value rv) = 0"

definition rv_equal :: "raw_value \<Rightarrow> raw_value \<Rightarrow> bool" where
  "rv_equal rv rv2 =
     (if rv_type rv \<noteq> rv_type rv2 then False
      else if rv_value rv \<noteq> rv_value rv2 then False else True)"

lemma rv_equal_iff [simp]: "rv_equal a b \<longleftrightarrow> a = b"
  by (cases a; cases b) (simp add: rv_equal_def)

record timestamp =
  ts_T :: u32
  ts_I :: u32

definition ts_zero :: timestamp where
  "ts_zero = \<lparr>ts_T = 0, ts_I = 0\<rparr>"

definition ts_after :: "timestamp \<Rightarrow> timestamp \<Rightarrow> bool" where
  "ts_after a b \<longleftrightarrow> ts_T a > ts_T b \<or> (ts_T a = ts_T b \<and> ts_I a > ts_I b)"

lemma ts_after_irrefl [simp]: "\<not> ts_after a a"
  by (simp add: ts_after_def)

lemma ts_after_trans: "ts_after a b \<Longrightarrow> ts_after b c \<Longrightarrow> ts_after a c"
  by (auto simp: ts_after_def)

lemma ts_after_total: "ts_after a b \<or> a = b \<or> ts_after b a"
  by (cases a; cases b) (auto simp: ts_after_def)

lemma ts_after_zero [simp]: "\<not> ts_after ts_zero a"
  by (simp add: ts_after_def ts_zero_def)

section \<open>Little-endian integers\<close>

definition append32 :: "u32 \<Rightarrow> bytes" where
  "append32 v = [ucast v, ucast (drop_bit 8 v), ucast (drop_bit 16 v), ucast (drop_bit 24 v)]"

definition append64 :: "u64 \<Rightarrow> bytes" where
  "append64 v = [ucast v, ucast (drop_bit 8 v), ucast (drop_bit 16 v), ucast (drop_bit 24 v),
     ucast (drop_bit 32 v), ucast (drop_bit 40 v), ucast (drop_bit 48 v), ucast (drop_bit 56 v)]"

fun read_u32 :: "bytes \<Rightarrow> (u32 \<times> bytes) option" where
  "read_u32 (a # b # c # d # src) =
     Some (ucast a OR push_bit 8 (ucast b) OR push_bit 16 (ucast c) OR push_bit 24 (ucast d), src)"
| "read_u32 src = None"

fun read_u64 :: "bytes \<Rightarrow> (u64 \<times> bytes) option" where
  "read_u64 (a # b # c # d # e # f # g # h # src) =
     Some (ucast a OR push_bit 8 (ucast b) OR push_bit 16 (ucast c) OR push_bit 24 (ucast d) OR
       push_bit 32 (ucast e) OR push_bit 40 (ucast f) OR push_bit 48 (ucast g) OR
       push_bit 56 (ucast h), src)"
| "read_u64 src = None"

lemma length_append32 [simp]: "length (append32 v) = 4"
  by (simp add: append32_def)

lemma length_append64 [simp]: "length (append64 v) = 8"
  by (simp add: append64_def)

lemma split32: "ucast (ucast v :: byte) OR push_bit 8 (ucast (ucast (drop_bit 8 v) :: byte)) OR
      push_bit 16 (ucast (ucast (drop_bit 16 v) :: byte)) OR
      push_bit 24 (ucast (ucast (drop_bit 24 v) :: byte)) = (v :: u32)" (is "?l = v")
proof (rule bit_word_eqI)
  fix n assume n: "n < LENGTH(32)"
  define k m where "k = n div 8" and "m = n mod 8"
  have nkm: "n = 8 * k + m" "m < 8" by (simp_all add: k_def m_def)
  have "k < 4" using n by (simp add: k_def)
  then consider "k = 0" | "k = 1" | "k = 2" | "k = 3" by linarith
  then show "bit ?l n = bit v n"
    using nkm(2) by cases (simp_all add: nkm(1) bit_simps)
qed

lemma split64: "ucast (ucast v :: byte) OR push_bit 8 (ucast (ucast (drop_bit 8 v) :: byte)) OR
      push_bit 16 (ucast (ucast (drop_bit 16 v) :: byte)) OR
      push_bit 24 (ucast (ucast (drop_bit 24 v) :: byte)) OR
      push_bit 32 (ucast (ucast (drop_bit 32 v) :: byte)) OR
      push_bit 40 (ucast (ucast (drop_bit 40 v) :: byte)) OR
      push_bit 48 (ucast (ucast (drop_bit 48 v) :: byte)) OR
      push_bit 56 (ucast (ucast (drop_bit 56 v) :: byte)) = (v :: u64)" (is "?l = v")
proof (rule bit_word_eqI)
  fix n assume n: "n < LENGTH(64)"
  define k m where "k = n div 8" and "m = n mod 8"
  have nkm: "n = 8 * k + m" "m < 8" by (simp_all add: k_def m_def)
  have "k < 8" using n by (simp add: k_def)
  then consider "k = 0" | "k = 1" | "k = 2" | "k = 3" | "k = 4" | "k = 5" | "k = 6" | "k = 7" by linarith
  then show "bit ?l n = bit v n"
    using nkm(2) by cases (simp_all add: nkm(1) bit_simps)
qed
lemma read_u32_append32 [simp]: "read_u32 (append32 v @ src) = Some (v, src)"
  by (simp add: append32_def split32)

lemma read_u64_append64 [simp]: "read_u64 (append64 v @ src) = Some (v, src)"
  by (simp add: append64_def split64)

lemma read_u32_None_iff: "read_u32 src = None \<longleftrightarrow> length src < 4"
  by (cases src rule: read_u32.cases) auto

lemma read_u32_Some: "read_u32 src = Some (v, rem) \<Longrightarrow> \<exists>hd. length hd = 4 \<and> src = hd @ rem"
  by (cases src rule: read_u32.cases) (auto intro: exI [of _ "[_, _, _, _]"])

lemma read_u32_app: "read_u32 src = Some (v, rem) \<Longrightarrow> read_u32 (src @ ys) = Some (v, rem @ ys)"
  by (cases src rule: read_u32.cases) auto

lemma read_u64_append64_Nil [simp]: "read_u64 (append64 v) = Some (v, [])"
  using read_u64_append64 [of v "[]"] by simp

lemma read_u32_append32_Nil [simp]: "read_u32 (append32 v) = Some (v, [])"
  using read_u32_append32 [of v "[]"] by simp

section \<open>Lengths, values and elements\<close>

definition wrap32 :: "int \<Rightarrow> int" where
  "wrap32 i = signed_take_bit 31 i"

lemma wrap32_id: "- (2 ^ 31) \<le> i \<Longrightarrow> i < 2 ^ 31 \<Longrightarrow> wrap32 i = i"
  by (simp add: wrap32_def signed_take_bit_int_eq_self)

definition read_length :: "bytes \<Rightarrow> (int \<times> bytes) option" where
  "read_length src = (case read_u32 src of
       None \<Rightarrow> None
     | Some (w, rem) \<Rightarrow> if sint w < 0 then None else Some (sint w, rem))"

fun index_byte :: "bytes \<Rightarrow> nat option" where
  "index_byte [] = None"
| "index_byte (b # bs) = (if b = 0 then Some 0 else map_option Suc (index_byte bs))"

lemma index_byte_app: "index_byte xs = Some i \<Longrightarrow> index_byte (xs @ ys) = Some i"
  by (induction xs arbitrary: i) (auto split: if_splits)

lemma index_byte_zero: "0 \<notin> set xs \<Longrightarrow> index_byte (xs @ 0 # ys) = Some (length xs)"
  by (induction xs) auto

lemma index_byte_less: "index_byte xs = Some i \<Longrightarrow> i < length xs"
  by (induction xs arbitrary: i) (auto split: if_splits)

text \<open>
  The bytes a value takes: fixed by its type, or an int32 length prefix plus what the prefix does
  not count (itself, a binary's subtype, a DBPointer's object id), or for a regex two C strings.
\<close>

definition fixed_length :: "byte \<Rightarrow> int option" where
  "fixed_length t =
     (if t = TypeBoolean then Some 1
      else if t = TypeDateTime \<or> t = TypeDouble \<or> t = TypeInt64 \<or> t = TypeTimestamp then Some 8
      else if t = TypeDecimal128 then Some 16
      else if t = TypeInt32 then Some 4
      else if t = TypeMaxKey \<or> t = TypeMinKey \<or> t = TypeNull \<or> t = TypeUndefined then Some 0
      else if t = TypeObjectID then Some 12
      else None)"

definition prefix_extra :: "byte \<Rightarrow> int option" where
  "prefix_extra t =
     (if t = TypeArray \<or> t = TypeEmbeddedDocument \<or> t = TypeCodeWithScope then Some 0
      else if t = TypeBinary then Some (4 + 1)
      else if t = TypeDBPointer then Some (4 + 12)
      else if t = TypeJavaScript \<or> t = TypeString \<or> t = TypeSymbol then Some 4
      else None)"

definition regex_length :: "bytes \<Rightarrow> int option" where
  "regex_length src = (case index_byte src of
       None \<Rightarrow> None
     | Some regex \<Rightarrow> (case index_byte (drop (regex + 1) src) of
           None \<Rightarrow> None
         | Some pat \<Rightarrow> Some (wrap32 (int regex + 1 + int pat + 1))))"

definition value_length :: "bytes \<Rightarrow> byte \<Rightarrow> int option" where
  "value_length src t = (case fixed_length t of
       Some n \<Rightarrow> Some n
     | None \<Rightarrow> (case prefix_extra t of
           Some extra \<Rightarrow> map_option (\<lambda>(l, _). wrap32 (l + extra)) (read_length src)
         | None \<Rightarrow> if t = TypeRegex then regex_length src else None))"

lemma read_length_app:
  assumes "read_length src = Some (l, rem)"
  shows "read_length (src @ ys) = Some (l, rem @ ys)"
proof -
  from assms obtain w where "read_u32 src = Some (w, rem)" "l = sint w" "\<not> sint w < 0"
    by (auto simp: read_length_def split: option.splits if_splits)
  then show ?thesis by (simp add: read_length_def read_u32_app)
qed

lemma regex_length_app: "regex_length src = Some l \<Longrightarrow> regex_length (src @ ys) = Some l"
proof -
  assume "regex_length src = Some l"
  then obtain i k where ik: "index_byte src = Some i" "index_byte (drop (i + 1) src) = Some k"
    "l = wrap32 (int i + 1 + int k + 1)" by (auto simp: regex_length_def split: option.splits)
  from ik(1) have "i + 1 \<le> length src" using index_byte_less by fastforce
  with ik show ?thesis by (simp add: regex_length_def index_byte_app)
qed

lemma value_length_app: "value_length src t = Some l \<Longrightarrow> value_length (src @ ys) t = Some l"
  by (auto simp: value_length_def regex_length_app read_length_app
      split: option.splits if_splits)

text \<open>
  \<open>read_value\<close> and \<open>read_element\<close>: \<open>Inl InsufficientBytes\<close> is the result \<open>ok = false\<close>. A length
  that wrapped to a negative number is not caught by the bounds test; slicing with it panics.
\<close>

definition read_value :: "bytes \<Rightarrow> byte \<Rightarrow> go_error + bytes \<times> bytes" where
  "read_value src t = (case value_length src t of
       None \<Rightarrow> Inl InsufficientBytes
     | Some l \<Rightarrow>
         if l > int (length src) then Inl InsufficientBytes
         else if l < 0 then Inl (Panic ''slice bounds out of range'')
         else Inr (take (nat l) src, drop (nat l) src))"

definition read_element :: "bytes \<Rightarrow> go_error + bytes \<times> bytes" where
  "read_element src = (case src of
       [] \<Rightarrow> Inl InsufficientBytes
     | t # rest \<Rightarrow> (case index_byte rest of
           None \<Rightarrow> Inl InsufficientBytes
         | Some i \<Rightarrow>
             (case value_length (drop (i + 1) rest) t of
                None \<Rightarrow> Inl InsufficientBytes
              | Some l \<Rightarrow>
                  let elemLength = int (i + 2) + l
                  in if elemLength > int (length src) then Inl InsufficientBytes
                     else if l < 0 then Inl (Panic ''slice bounds out of range'')
                     else Inr (take (nat elemLength) src, drop (nat elemLength) src))))"

lemma read_element_Inr:
  assumes "read_element src = Inr (el, rem)"
  shows "src = el @ rem" and "length rem < length src" and "2 \<le> length el"
  using assms
  by (auto simp: read_element_def Let_def split: list.splits option.splits if_splits)

definition key_bytes_err :: "bytes \<Rightarrow> go_error + bytes" where
  "key_bytes_err e = (case e of
       [] \<Rightarrow> Inl MissingType
     | _ # rest \<Rightarrow> (case index_byte rest of None \<Rightarrow> Inl MissingKey | Some i \<Rightarrow> Inr (take i rest)))"

definition value_err :: "bytes \<Rightarrow> go_error + raw_value" where
  "value_err e = (case e of
       [] \<Rightarrow> Inl MissingType
     | t # rest \<Rightarrow> (case index_byte rest of
           None \<Rightarrow> Inl MissingKey
         | Some i \<Rightarrow> rbind (read_value (drop (i + 1) rest) t)
             (\<lambda>(data, _). Inr \<lparr>rv_type = t, rv_value = data\<rparr>)))"

definition elem_validate :: "bytes \<Rightarrow> go_error + unit" where
  "elem_validate e = (case e of
       [] \<Rightarrow> Inl MissingType
     | t # rest \<Rightarrow> (case index_byte rest of
           None \<Rightarrow> Inl MissingKey
         | Some i \<Rightarrow> rbind (read_value (drop (i + 1) rest) t) (\<lambda>_. Inr ())))"

text \<open>\<open>Element.Key\<close> and \<open>Element.Value\<close> drop the error: "" and the zero value then.\<close>

definition elem_key :: "bytes \<Rightarrow> string" where
  "elem_key e = (case key_bytes_err e of Inl _ \<Rightarrow> [] | Inr k \<Rightarrow> bytes_str k)"

definition elem_value :: "bytes \<Rightarrow> go_error + raw_value" where
  "elem_value e = (case value_err e of
       Inr v \<Rightarrow> Inr v
     | Inl err \<Rightarrow> if is_panic err then Inl err else Inr rv_zero)"

section \<open>Documents\<close>

text \<open>
  \<open>Document.Elements\<close> counts the declared length down and does not bound the buffer by it.
  On an error the elements read so far are returned with it; every caller drops them.
\<close>

function doc_elements_loop :: "int \<Rightarrow> bytes \<Rightarrow> go_error + bytes list" where
  "doc_elements_loop len rem =
     (if len > 1
      then (case read_element rem of
              Inl e \<Rightarrow> Inl e
            | Inr (el, rem') \<Rightarrow> rbind (elem_validate el) (\<lambda>_.
                rbind (doc_elements_loop (len - int (length el)) rem') (\<lambda>es. Inr (el # es))))
      else Inr [])"
  by pat_completeness auto
termination
  by (relation "measure (\<lambda>(len, rem). length rem)") (auto dest: read_element_Inr)

declare doc_elements_loop.simps [simp del]

definition doc_elements :: "bytes \<Rightarrow> go_error + bytes list" where
  "doc_elements d = (case read_length d of
       None \<Rightarrow> Inl InsufficientBytes
     | Some (len, rem) \<Rightarrow> doc_elements_loop (len - 4) rem)"

text \<open>
  \<open>bsontools.RawElements\<close> yields elements until the first error, so it is the list of the good
  elements and the error that ended it, if one did. An empty buffer is an empty document.
\<close>

function raw_elements_loop :: "bytes \<Rightarrow> bytes list \<times> go_error option" where
  "raw_elements_loop remaining =
     (if remaining = [] then ([], None)
      else (case read_element remaining of
              Inl e \<Rightarrow> ([], Some e)
            | Inr (el, remaining') \<Rightarrow>
                (case elem_validate el of
                   Inl e \<Rightarrow> ([], Some e)
                 | Inr _ \<Rightarrow> (case raw_elements_loop remaining' of (es, err) \<Rightarrow> (el # es, err)))))"
  by pat_completeness auto
termination
  by (relation "measure length") (auto dest: read_element_Inr)

declare raw_elements_loop.simps [simp del]

definition raw_elements :: "bytes \<Rightarrow> bytes list \<times> go_error option" where
  "raw_elements doc =
     (if doc = [] then ([], None)
      else (case read_length doc of
              None \<Rightarrow> ([], Some InsufficientBytes)
            | Some (len, _) \<Rightarrow>
                if len < 5 then ([], Some (Err ''below BSON minimum''))
                else if len \<noteq> int (length doc) then ([], Some (Err ''length mismatch''))
                else if last doc \<noteq> 0 then ([], Some (Err ''missing NUL terminator''))
                else raw_elements_loop (drop 4 (butlast doc))))"

definition read_length_bytes :: "bytes \<Rightarrow> (bytes \<times> bytes) option" where
  "read_length_bytes src = (case read_length src of
       None \<Rightarrow> None
     | Some (l, _) \<Rightarrow>
         if l < 4 then None
         else if int (length src) < l then None
         else Some (take (nat l) src, drop (nat l) src))"

definition rv_document_ok :: "raw_value \<Rightarrow> bytes option" where
  "rv_document_ok v =
     (if rv_type v \<noteq> TypeEmbeddedDocument then None
      else map_option fst (read_length_bytes (rv_value v)))"

definition rv_array_ok :: "raw_value \<Rightarrow> bytes option" where
  "rv_array_ok v =
     (if rv_type v \<noteq> TypeArray then None
      else map_option fst (read_length_bytes (rv_value v)))"

definition rv_document :: "raw_value \<Rightarrow> go_error + bytes" where
  "rv_document v = (case rv_document_ok v of
       None \<Rightarrow> Inl (Panic ''bsoncore.Value.Document'') | Some d \<Rightarrow> Inr d)"

definition rv_array :: "raw_value \<Rightarrow> go_error + bytes" where
  "rv_array v = (case rv_array_ok v of
       None \<Rightarrow> Inl (Panic ''bsoncore.Value.Array'') | Some d \<Rightarrow> Inr d)"

text \<open>
  \<open>Document.LookupErr\<close>: the first element with the key; a longer path descends into a
  document or an array and fails with an invalid-depth error at any other value.
\<close>

function lookup_loop :: "int \<Rightarrow> bytes \<Rightarrow> string \<Rightarrow> go_error + bytes" where
  "lookup_loop len rem key =
     (if len > 1
      then (case read_element rem of
              Inl e \<Rightarrow> Inl e
            | Inr (el, rem') \<Rightarrow>
                if elem_key el \<noteq> key then lookup_loop (len - int (length el)) rem' key
                else Inr el)
      else Inl ElementNotFound)"
  by pat_completeness auto
termination
  by (relation "measure (\<lambda>(len, rem, key). length rem)") (auto dest: read_element_Inr)

declare lookup_loop.simps [simp del]

fun lookup_err :: "bytes \<Rightarrow> string list \<Rightarrow> go_error + raw_value" where
  "lookup_err d [] = Inl EmptyKey"
| "lookup_err d (key # keys) = (case read_length d of
       None \<Rightarrow> Inl InsufficientBytes
     | Some (len, rem) \<Rightarrow>
         rbind (lookup_loop (len - 4) rem key) (\<lambda>el.
           if keys = [] then value_err el
           else if hd el = TypeEmbeddedDocument
           then rbind (rbind (elem_value el) rv_document) (\<lambda>sub. lookup_err sub keys)
           else if hd el = TypeArray
           then rbind (rbind (elem_value el) rv_array) (\<lambda>sub. lookup_err sub keys)
           else Inl InvalidDepth))"

section \<open>Encoding\<close>

text \<open>
  \<open>append_header\<close>, \<open>append_value_element\<close> and the other \<open>Append*Element\<close> functions return what
  they append; a NUL in the key panics. \<open>enc_doc\<close> is the document of a list of encoded elements.
\<close>

definition valid_cstring :: "string \<Rightarrow> bool" where
  "valid_cstring s \<longleftrightarrow> CHR 0x00 \<notin> set s"

definition enc_elem :: "string \<Rightarrow> raw_value \<Rightarrow> bytes" where
  "enc_elem key v = rv_type v # str_bytes key @ 0 # rv_value v"

definition append_value_element :: "string \<Rightarrow> raw_value \<Rightarrow> go_error + bytes" where
  "append_value_element key v =
     (if \<not> valid_cstring key then Inl (Panic ''invalid key'') else Inr (enc_elem key v))"

definition string_value :: "string \<Rightarrow> raw_value" where
  "string_value s = \<lparr>rv_type = TypeString,
     rv_value = append32 (word_of_nat (length s + 1)) @ str_bytes s @ [0]\<rparr>"

definition int32_value :: "u32 \<Rightarrow> raw_value" where
  "int32_value i = \<lparr>rv_type = TypeInt32, rv_value = append32 i\<rparr>"

definition int64_value :: "u64 \<Rightarrow> raw_value" where
  "int64_value i = \<lparr>rv_type = TypeInt64, rv_value = append64 i\<rparr>"

definition datetime_value :: "u64 \<Rightarrow> raw_value" where
  "datetime_value i = \<lparr>rv_type = TypeDateTime, rv_value = append64 i\<rparr>"

definition timestamp_value :: "timestamp \<Rightarrow> raw_value" where
  "timestamp_value t = \<lparr>rv_type = TypeTimestamp, rv_value = append32 (ts_I t) @ append32 (ts_T t)\<rparr>"

definition boolean_value :: "bool \<Rightarrow> raw_value" where
  "boolean_value b = \<lparr>rv_type = TypeBoolean, rv_value = [if b then 1 else 0]\<rparr>"

definition document_value :: "bytes \<Rightarrow> raw_value" where
  "document_value d = \<lparr>rv_type = TypeEmbeddedDocument, rv_value = d\<rparr>"

definition array_value :: "bytes \<Rightarrow> raw_value" where
  "array_value d = \<lparr>rv_type = TypeArray, rv_value = d\<rparr>"

definition enc_doc :: "(string \<times> raw_value) list \<Rightarrow> bytes" where
  "enc_doc kvs = (let body = concat (map (\<lambda>(k, v). enc_elem k v) kvs)
                  in append32 (word_of_nat (length body + 5)) @ body @ [0])"

lemma length_enc_elem: "length (enc_elem k v) = 2 + length k + length (rv_value v)"
  by (simp add: enc_elem_def)

definition body_len :: "(string \<times> raw_value) list \<Rightarrow> nat" where
  "body_len kvs = (\<Sum>(k, v) \<leftarrow> kvs. 2 + length k + length (rv_value v))"

lemma body_len_simps [simp]:
  "body_len [] = 0" "body_len ((k, v) # kvs) = 2 + length k + length (rv_value v) + body_len kvs"
  "body_len (xs @ ys) = body_len xs + body_len ys"
  by (simp_all add: body_len_def)

lemma length_concat_enc: "length (concat (map (\<lambda>(k, v). enc_elem k v) kvs)) = body_len kvs"
  by (induction kvs) (auto simp: length_enc_elem)

lemma length_enc_doc: "length (enc_doc kvs) = body_len kvs + 5"
  by (simp add: enc_doc_def length_concat_enc [simplified] Let_def)

section \<open>Reading what was encoded\<close>

definition wf_value :: "raw_value \<Rightarrow> bool" where
  "wf_value v \<longleftrightarrow> value_length (rv_value v) (rv_type v) = Some (int (length (rv_value v)))"

definition wf_kv :: "string \<times> raw_value \<Rightarrow> bool" where
  "wf_kv kv \<longleftrightarrow> valid_cstring (fst kv) \<and> wf_value (snd kv)"

definition small :: "(string \<times> raw_value) list \<Rightarrow> bool" where
  "small kvs \<longleftrightarrow> body_len kvs + 5 < 2 ^ 31"

lemma key_no_nul: "valid_cstring k \<Longrightarrow> 0 \<notin> set (str_bytes k)"
  by (simp add: valid_cstring_def zero_in_str_bytes)

lemma index_byte_key:
  "valid_cstring k \<Longrightarrow> index_byte (str_bytes k @ 0 # ys) = Some (length k)"
  using index_byte_zero [OF key_no_nul, of k ys] by simp

lemma read_value_wf: "wf_value v \<Longrightarrow> read_value (rv_value v @ ys) (rv_type v) = Inr (rv_value v, ys)"
  by (simp add: read_value_def wf_value_def value_length_app)

lemma read_element_enc:
  assumes "valid_cstring k" "wf_value v"
  shows "read_element (enc_elem k v @ ys) = Inr (enc_elem k v, ys)"
proof -
  have vl: "value_length (rv_value v @ ys) (rv_type v) = Some (int (length (rv_value v)))"
    using assms(2) by (simp add: wf_value_def value_length_app)
  have "nat (2 + int (length k) + int (length (rv_value v))) = Suc (Suc (length k + length (rv_value v)))"
    by simp
  then show ?thesis using assms(1) vl
    by (simp add: read_element_def enc_elem_def index_byte_key Let_def)
qed

lemma elem_key_enc [simp]: "valid_cstring k \<Longrightarrow> elem_key (enc_elem k v) = k"
  by (simp add: elem_key_def key_bytes_err_def enc_elem_def index_byte_key)

lemma key_bytes_enc [simp]: "valid_cstring k \<Longrightarrow> key_bytes_err (enc_elem k v) = Inr (str_bytes k)"
  by (simp add: key_bytes_err_def enc_elem_def index_byte_key)

lemma value_err_enc [simp]: "valid_cstring k \<Longrightarrow> wf_value v \<Longrightarrow> value_err (enc_elem k v) = Inr v"
  using read_value_wf [of v "[]"]
  by (simp add: value_err_def enc_elem_def index_byte_key)

lemma elem_value_enc [simp]: "valid_cstring k \<Longrightarrow> wf_value v \<Longrightarrow> elem_value (enc_elem k v) = Inr v"
  by (simp add: elem_value_def)

lemma elem_validate_enc [simp]: "valid_cstring k \<Longrightarrow> wf_value v \<Longrightarrow> elem_validate (enc_elem k v) = Inr ()"
  using read_value_wf [of v "[]"]
  by (simp add: elem_validate_def enc_elem_def index_byte_key)

lemma hd_enc_elem [simp]: "hd (enc_elem k v) = rv_type v"
  by (simp add: enc_elem_def)

lemma enc_elem_not_Nil [simp]: "enc_elem k v \<noteq> []" "[] \<noteq> enc_elem k v"
  by (simp_all add: enc_elem_def)

lemma raw_elements_loop_enc:
  "list_all wf_kv kvs \<Longrightarrow>
     raw_elements_loop (concat (map (\<lambda>(k, v). enc_elem k v) kvs)) = (map (\<lambda>(k, v). enc_elem k v) kvs, None)"
  by (induction kvs)
    (auto simp: raw_elements_loop.simps [of "_ @ _"] raw_elements_loop.simps [of "[]"] wf_kv_def read_element_enc)

lemma sint_of_nat32: "n < 2 ^ 31 \<Longrightarrow> sint (word_of_nat n :: u32) = int n"
  by (simp add: signed_of_nat signed_take_bit_int_eq_self)

lemma read_length_append32:
  "n < 2 ^ 31 \<Longrightarrow> read_length (append32 (word_of_nat n) @ ys) = Some (int n, ys)"
  by (simp add: read_length_def sint_of_nat32)

lemma read_length_enc_doc:
  assumes "small kvs"
  shows "read_length (enc_doc kvs) =
    Some (int (body_len kvs + 5), concat (map (\<lambda>(k, v). enc_elem k v) kvs) @ [0])"
  using assms read_length_append32 [of "body_len kvs + 5"]
  by (simp add: enc_doc_def small_def Let_def length_concat_enc [simplified] add.commute)

lemma raw_elements_enc_doc:
  assumes "list_all wf_kv kvs" "small kvs"
  shows "raw_elements (enc_doc kvs) = (map (\<lambda>(k, v). enc_elem k v) kvs, None)"
proof -
  let ?body = "concat (map (\<lambda>(k, v). enc_elem k v) kvs)"
  have ne: "enc_doc kvs \<noteq> []" using length_enc_doc [of kvs] by auto
  have l: "last (enc_doc kvs) = 0" by (simp add: enc_doc_def Let_def)
  have d: "drop 4 (butlast (enc_doc kvs)) = ?body"
    by (simp add: enc_doc_def Let_def butlast_append)
  show ?thesis
    using assms ne l d
    by (simp add: raw_elements_def read_length_enc_doc length_enc_doc raw_elements_loop_enc)
qed

lemma doc_elements_loop_enc:
  "list_all wf_kv kvs \<Longrightarrow>
     doc_elements_loop (1 + int (body_len kvs)) (concat (map (\<lambda>(k, v). enc_elem k v) kvs) @ ys)
       = Inr (map (\<lambda>(k, v). enc_elem k v) kvs)"
proof (induction kvs)
  case Nil
  show ?case by (simp add: doc_elements_loop.simps)
next
  case (Cons kv kvs)
  obtain k v where kv: "kv = (k, v)" by (cases kv)
  with Cons.prems have "valid_cstring k" "wf_value v" by (auto simp: wf_kv_def)
  with Cons show ?case
    by (subst doc_elements_loop.simps) (simp add: kv read_element_enc length_enc_elem)
qed

lemma doc_elements_enc_doc:
  "list_all wf_kv kvs \<Longrightarrow> small kvs \<Longrightarrow> doc_elements (enc_doc kvs) = Inr (map (\<lambda>(k, v). enc_elem k v) kvs)"
  using doc_elements_loop_enc [of kvs "[0]"] by (simp add: doc_elements_def read_length_enc_doc)

lemma lookup_loop_enc:
  "list_all wf_kv kvs \<Longrightarrow>
     lookup_loop (1 + int (body_len kvs)) (concat (map (\<lambda>(k, v). enc_elem k v) kvs) @ ys) key
       = (case map_of kvs key of None \<Rightarrow> Inl ElementNotFound | Some v \<Rightarrow> Inr (enc_elem key v))"
proof (induction kvs)
  case Nil
  show ?case by (simp add: lookup_loop.simps)
next
  case (Cons kv kvs)
  obtain k v where kv: "kv = (k, v)" by (cases kv)
  with Cons.prems have "valid_cstring k" "wf_value v" by (auto simp: wf_kv_def)
  with Cons show ?case
    by (subst lookup_loop.simps) (simp add: kv read_element_enc length_enc_elem)
qed

lemma map_of_wf: "list_all wf_kv kvs \<Longrightarrow> map_of kvs k = Some v \<Longrightarrow> valid_cstring k \<and> wf_value v"
  by (induction kvs) (auto simp: wf_kv_def split: if_splits)

lemma lookup_enc_doc:
  assumes "list_all wf_kv kvs" "small kvs"
  shows "lookup_err (enc_doc kvs) [k] =
    (case map_of kvs k of None \<Rightarrow> Inl ElementNotFound | Some v \<Rightarrow> Inr v)"
  using assms lookup_loop_enc [of kvs "[0]" k] map_of_wf [of kvs k]
  by (auto simp: read_length_enc_doc split: option.splits)

declare lookup_err.simps [simp del]

subsection \<open>Well-formedness of the values the program writes\<close>

lemma value_length_simps [simp]:
  "value_length bs TypeInt32 = Some 4" "value_length bs TypeInt64 = Some 8"
  "value_length bs TypeDateTime = Some 8" "value_length bs TypeTimestamp = Some 8"
  "value_length bs TypeBoolean = Some 1" "value_length bs TypeNull = Some 0"
  "value_length bs TypeObjectID = Some 12" "value_length bs TypeDouble = Some 8"
  "value_length bs TypeMinKey = Some 0" "value_length bs TypeMaxKey = Some 0"
  "value_length bs TypeString = map_option (\<lambda>(l, _). wrap32 (l + 4)) (read_length bs)"
  "value_length bs TypeEmbeddedDocument = map_option (\<lambda>(l, _). wrap32 l) (read_length bs)"
  "value_length bs TypeArray = map_option (\<lambda>(l, _). wrap32 l) (read_length bs)"
  by (simp_all add: value_length_def fixed_length_def prefix_extra_def)

lemma wf_fixed_values [simp]:
  "wf_value (int32_value i)" "wf_value (int64_value j)" "wf_value (datetime_value j)"
  "wf_value (timestamp_value t)" "wf_value (boolean_value b)"
  by (simp_all add: wf_value_def int32_value_def int64_value_def datetime_value_def
      timestamp_value_def boolean_value_def)

lemma wf_string_value: "length s + 5 < 2 ^ 31 \<Longrightarrow> wf_value (string_value s)"
  using read_length_append32 [of "length s + 1" "str_bytes s @ [0]"]
  by (simp add: wf_value_def string_value_def wrap32_id)

lemma wf_document_value: "small kvs \<Longrightarrow> wf_value (document_value (enc_doc kvs))"
  by (simp add: wf_value_def document_value_def read_length_enc_doc length_enc_doc small_def wrap32_id)

lemma wf_array_value: "small kvs \<Longrightarrow> wf_value (array_value (enc_doc kvs))"
  by (simp add: wf_value_def array_value_def read_length_enc_doc length_enc_doc small_def wrap32_id)

lemma rv_document_enc: "small kvs \<Longrightarrow> rv_document_ok (document_value (enc_doc kvs)) = Some (enc_doc kvs)"
  by (simp add: rv_document_ok_def document_value_def read_length_bytes_def read_length_enc_doc
      length_enc_doc small_def)

lemma rv_array_enc: "small kvs \<Longrightarrow> rv_array_ok (array_value (enc_doc kvs)) = Some (enc_doc kvs)"
  by (simp add: rv_array_ok_def array_value_def read_length_bytes_def read_length_enc_doc
      length_enc_doc small_def)

lemma length_values [simp]:
  "length (rv_value (int32_value i)) = 4" "length (rv_value (int64_value j)) = 8"
  "length (rv_value (datetime_value j)) = 8" "length (rv_value (timestamp_value t)) = 8"
  "length (rv_value (boolean_value b)) = 1" "length (rv_value (string_value s)) = 5 + length s"
  "rv_value (document_value d) = d" "rv_value (array_value d) = d"
  by (simp_all add: int32_value_def int64_value_def datetime_value_def timestamp_value_def
      boolean_value_def string_value_def document_value_def array_value_def)

lemma rv_type_values [simp]:
  "rv_type (int32_value i) = TypeInt32" "rv_type (int64_value j) = TypeInt64"
  "rv_type (datetime_value j) = TypeDateTime" "rv_type (timestamp_value t) = TypeTimestamp"
  "rv_type (boolean_value b) = TypeBoolean" "rv_type (string_value s) = TypeString"
  "rv_type (document_value d) = TypeEmbeddedDocument" "rv_type (array_value d) = TypeArray"
  by (simp_all add: int32_value_def int64_value_def datetime_value_def timestamp_value_def
      boolean_value_def string_value_def document_value_def array_value_def)

end
