(* ===== verification/Mbson.thy ===== *)
theory Mbson
  imports Bson_Core
begin

text \<open>
  \<open>mbson/raw_value.go\<close> (checked casts of raw values), \<open>mbson/array.go\<close> (the size of an array
  before it is built), \<open>mbson/bson_raw.go\<close> and \<open>internal/util/bson.go\<close> (the running size of an
  array under construction and the split of a list by it).
\<close>

section \<open>Casts\<close>

text \<open>
  \<open>CastRawValue[T]\<close>, one definition for each recipient type the code uses. An int64 or DateTime is
  the 64-bit word, an int32 the 32-bit word.
\<close>

definition cast_raw :: "raw_value \<Rightarrow> go_error + bytes" where
  "cast_raw v = (case rv_document_ok v of Some d \<Rightarrow> Inr d | None \<Rightarrow> Inl (CannotCast (rv_type v)))"

definition cast_raw_array :: "raw_value \<Rightarrow> go_error + bytes" where
  "cast_raw_array v = (case rv_array_ok v of Some d \<Rightarrow> Inr d | None \<Rightarrow> Inl (CannotCast (rv_type v)))"

definition cast_timestamp :: "raw_value \<Rightarrow> go_error + timestamp" where
  "cast_timestamp v =
     (if rv_type v \<noteq> TypeTimestamp then Inl (CannotCast (rv_type v))
      else (case read_u32 (rv_value v) of
              None \<Rightarrow> Inl (CannotCast (rv_type v))
            | Some (i, rem) \<Rightarrow> (case read_u32 rem of
                  None \<Rightarrow> Inl (CannotCast (rv_type v))
                | Some (t, _) \<Rightarrow> Inr \<lparr>ts_T = t, ts_I = i\<rparr>)))"

definition cast_object_id :: "raw_value \<Rightarrow> go_error + bytes" where
  "cast_object_id v =
     (if rv_type v \<noteq> TypeObjectID \<or> length (rv_value v) < 12 then Inl (CannotCast (rv_type v))
      else Inr (take 12 (rv_value v)))"

definition cast_w64 :: "byte \<Rightarrow> raw_value \<Rightarrow> go_error + u64" where
  "cast_w64 t v =
     (if rv_type v \<noteq> t then Inl (CannotCast (rv_type v))
      else (case read_u64 (rv_value v) of
              None \<Rightarrow> Inl (CannotCast (rv_type v)) | Some (i, _) \<Rightarrow> Inr i))"

definition cast_datetime :: "raw_value \<Rightarrow> go_error + u64" where
  "cast_datetime v = cast_w64 TypeDateTime v"

definition cast_int64 :: "raw_value \<Rightarrow> go_error + u64" where
  "cast_int64 v = cast_w64 TypeInt64 v"

definition cast_float64_bits :: "raw_value \<Rightarrow> go_error + u64" where
  "cast_float64_bits v = cast_w64 TypeDouble v"

definition cast_int32 :: "raw_value \<Rightarrow> go_error + u32" where
  "cast_int32 v =
     (if rv_type v \<noteq> TypeInt32 then Inl (CannotCast (rv_type v))
      else (case read_u32 (rv_value v) of
              None \<Rightarrow> Inl (CannotCast (rv_type v)) | Some (i, _) \<Rightarrow> Inr i))"

definition cast_bool :: "raw_value \<Rightarrow> go_error + bool" where
  "cast_bool v =
     (if rv_type v \<noteq> TypeBoolean \<or> rv_value v = [] then Inl (CannotCast (rv_type v))
      else Inr (hd (rv_value v) = 1))"

definition cast_string :: "raw_value \<Rightarrow> go_error + string" where
  "cast_string v =
     (if rv_type v \<noteq> TypeString then Inl (CannotCast (rv_type v))
      else (case read_length (rv_value v) of
              None \<Rightarrow> Inl (CannotCast (rv_type v))
            | Some (l, rem) \<Rightarrow>
                if int (length rem) < l \<or> l = 0 then Inl (CannotCast (rv_type v))
                else Inr (bytes_str (take (nat (l - 1)) rem))))"

definition unmarshal_element_value :: "(raw_value \<Rightarrow> go_error + 'a) \<Rightarrow> bytes \<Rightarrow> go_error + 'a" where
  "unmarshal_element_value cast el = rbind (value_err el) cast"

definition lookup_cast :: "(raw_value \<Rightarrow> go_error + 'a) \<Rightarrow> bytes \<Rightarrow> string list \<Rightarrow> go_error + 'a" where
  "lookup_cast cast doc pointer = rbind (lookup_err doc pointer) cast"

text \<open>\<open>RawLookup\<close>: a missing element is not an error.\<close>

definition raw_lookup :: "(raw_value \<Rightarrow> go_error + 'a) \<Rightarrow> bytes \<Rightarrow> string list \<Rightarrow> go_error + 'a option" where
  "raw_lookup unmarshal doc keys = (case lookup_err doc keys of
       Inr v \<Rightarrow> rbind (unmarshal v) (\<lambda>x. Inr (Some x))
     | Inl ElementNotFound \<Rightarrow> Inr None
     | Inl e \<Rightarrow> Inl e)"

lemma cast_values [simp]:
  "cast_timestamp (timestamp_value t) = Inr t"
  "cast_datetime (datetime_value i) = Inr i"
  "cast_int64 (int64_value i) = Inr i"
  "cast_int32 (int32_value j) = Inr j"
  "cast_bool (boolean_value b) = Inr b"
  by (simp_all add: cast_timestamp_def timestamp_value_def cast_datetime_def cast_int64_def
      cast_w64_def datetime_value_def int64_value_def cast_int32_def int32_value_def
      cast_bool_def boolean_value_def)

lemma cast_string_value: "length s + 5 < 2 ^ 31 \<Longrightarrow> cast_string (string_value s) = Inr s"
  using read_length_append32 [of "length s + 1" "str_bytes s @ [0]"]
  by (simp add: cast_string_def string_value_def)

lemma cast_raw_enc: "small kvs \<Longrightarrow> cast_raw (document_value (enc_doc kvs)) = Inr (enc_doc kvs)"
  by (simp add: cast_raw_def rv_document_enc)

lemma unmarshal_element_enc [simp]:
  "valid_cstring k \<Longrightarrow> wf_value v \<Longrightarrow> unmarshal_element_value cast (enc_elem k v) = cast v"
  by (simp add: unmarshal_element_value_def)

text \<open>\<open>ToRawValue\<close> of an \<open>int\<close> narrows to int32 when it fits.\<close>

definition i32_to_raw_value :: "int \<Rightarrow> raw_value" where
  "i32_to_raw_value i = int32_value (word_of_int i)"

definition i64_to_raw_value :: "int \<Rightarrow> raw_value" where
  "i64_to_raw_value i = int64_value (word_of_int i)"

definition int_to_raw_value :: "int \<Rightarrow> raw_value" where
  "int_to_raw_value i =
     (if i < - (2 ^ 31) \<or> i > 2 ^ 31 - 1 then i64_to_raw_value i else i32_to_raw_value i)"

lemma sint_word64: "- (2 ^ 63) \<le> i \<Longrightarrow> i < 2 ^ 63 \<Longrightarrow> sint (word_of_int i :: u64) = i"
  by (simp add: signed_of_int signed_take_bit_int_eq_self)

lemma sint_word32: "- (2 ^ 31) \<le> i \<Longrightarrow> i < 2 ^ 31 \<Longrightarrow> sint (word_of_int i :: u32) = i"
  by (simp add: signed_of_int signed_take_bit_int_eq_self)

lemma int_to_raw_value_roundtrip:
  assumes "- (2 ^ 63) \<le> i" "i < 2 ^ 63"
  shows "(cast_int32 (int_to_raw_value i) = Inr (word_of_int i) \<and> sint (word_of_int i :: u32) = i) \<or>
    (cast_int64 (int_to_raw_value i) = Inr (word_of_int i) \<and> sint (word_of_int i :: u64) = i)"
  using assms sint_word32 [of i] sint_word64 [of i]
  by (auto simp: int_to_raw_value_def i32_to_raw_value_def i64_to_raw_value_def)

section \<open>Array sizes\<close>

fun itoa :: "nat \<Rightarrow> string" where
  "itoa n = (if n < 10 then [char_of (48 + n)] else itoa (n div 10) @ [char_of (48 + n mod 10)])"

declare itoa.simps [simp del]

lemma char_of_digit: "m < 10 \<Longrightarrow> char_of (48 + m) \<noteq> CHR 0x00" for m :: nat
proof
  assume "m < 10" "char_of (48 + m) = CHR 0x00"
  then have "(of_char (char_of (48 + m) :: char) :: nat) = of_char (CHR 0x00)" by simp
  then have "(48 + m) mod 256 = 0" by (simp only: of_char_of) simp
  with \<open>m < 10\<close> show False by simp
qed

lemma valid_cstring_itoa: "valid_cstring (itoa n)"
proof (induction n rule: itoa.induct)
  case (1 n)
  show ?case
  proof (cases "n < 10")
    case True
    then show ?thesis using char_of_digit [of n]
      by (simp only: itoa.simps [of n] valid_cstring_def) auto
  next
    case False
    with 1 char_of_digit [of "n mod 10"] show ?thesis
      by (simp only: itoa.simps [of n] valid_cstring_def) auto
  qed
qed

definition array_field_names_size :: "nat \<Rightarrow> go_error + nat" where
  "array_field_names_size n =
     (if n < 10 then Inr n
      else if n < 100 then Inr (10 + 2 * (n - 10))
      else if n < 1000 then Inr (10 + 90 * 2 + 3 * (n - 100))
      else if n < 10000 then Inr (10 + 90 * 2 + 900 * 3 + 4 * (n - 1000))
      else if n < 100000 then Inr (10 + 90 * 2 + 900 * 3 + 9000 * 4 + 5 * (n - 10000))
      else if n < 1000000
      then Inr (10 + 90 * 2 + 900 * 3 + 9000 * 4 + 90000 * 5 + 6 * (n - 100000))
      else Inl (Panic ''Unexpectedly high array length''))"

definition get_bson_array_size :: "bytes list \<Rightarrow> go_error + nat" where
  "get_bson_array_size els =
     rbind (array_field_names_size (length els)) (\<lambda>names.
       Inr (4 + names + 2 * length els + sum_list (map length els) + 1))"

definition enc_array :: "byte \<Rightarrow> bytes list \<Rightarrow> bytes" where
  "enc_array t els = enc_doc (map (\<lambda>(i, d). (itoa i, \<lparr>rv_type = t, rv_value = d\<rparr>)) (enumerate 0 els))"

lemma length_itoa: "0 < k \<Longrightarrow> 10 ^ k \<le> 10 * n \<Longrightarrow> n < 10 ^ k \<Longrightarrow> length (itoa n) = k \<or> (n = 0 \<and> k = 1)"
proof (induction k arbitrary: n)
  case (Suc k)
  show ?case
  proof (cases "k = 0")
    case True
    with Suc.prems show ?thesis by (subst itoa.simps) simp
  next
    case False
    then obtain j where j: "k = Suc j" by (cases k) auto
    have ge: "10 ^ k \<le> n" and lt: "n < 10 ^ k * 10" using Suc.prems by simp_all
    have n10: "\<not> n < 10" using ge j by (metis le_trans mult_le_mono1 one_le_numeral one_le_power
          power_Suc2 mult_1 not_less)
    have "10 ^ k \<le> 10 * (n div 10)"
    proof -
      have "10 ^ j \<le> n div 10" using ge j by (simp add: less_eq_div_iff_mult_less_eq mult.commute)
      then show ?thesis using j by simp
    qed
    moreover have "n div 10 < 10 ^ k" using lt by (simp add: less_mult_imp_div_less)
    ultimately have "length (itoa (n div 10)) = k \<or> (n div 10 = 0 \<and> k = 1)"
      using Suc.IH [of "n div 10"] False by simp
    moreover have "n div 10 \<noteq> 0" using n10 by simp
    ultimately show ?thesis using n10 by (subst itoa.simps) simp
  qed
qed simp

definition names_size :: "nat \<Rightarrow> nat" where
  "names_size n = (\<Sum>i \<leftarrow> [0..<n]. length (itoa i))"

lemma names_size_0 [simp]: "names_size 0 = 0"
  by (simp add: names_size_def)

lemma names_size_Suc [simp]: "names_size (Suc n) = names_size n + length (itoa n)"
  by (simp add: names_size_def)

lemma names_size_block:
  assumes "0 < k" "10 ^ k \<le> 10 * a" "a \<le> b" "b \<le> 10 ^ k"
  shows "names_size b = names_size a + k * (b - a)"
  using assms(3,4)
proof (induction b rule: dec_induct)
  case (step n)
  have "10 ^ k \<le> 10 * n" "n < 10 ^ k" using assms(2) step by simp_all
  moreover have "n \<noteq> 0" using assms(2) step by (metis gr_zeroI le_zero_eq mult_0_right power_not_zero zero_neq_numeral)
  ultimately have "length (itoa n) = k" using length_itoa [of k n] assms(1) by simp
  with step show ?case by (simp add: Suc_diff_le)
qed simp

lemma names_size_small: "n \<le> 10 \<Longrightarrow> names_size n = n"
proof (induction n)
  case (Suc n)
  then show ?case by (subst names_size_Suc) (simp add: itoa.simps [of n])
qed simp

lemmas names_size_steps =
  names_size_small [of 10, simplified]
  names_size_block [of 2 10, simplified] names_size_block [of 3 100, simplified]
  names_size_block [of 4 1000, simplified] names_size_block [of 5 10000, simplified]
  names_size_block [of 6 100000, simplified]

lemma array_field_names_size_eq:
  "n < 1000000 \<Longrightarrow> array_field_names_size n = Inr (names_size n)"
  using names_size_small [of n] names_size_steps(2) [of n] names_size_steps(3) [of n]
    names_size_steps(4) [of n] names_size_steps(5) [of n] names_size_steps(6) [of n]
    names_size_steps(1) names_size_steps(2) [of 100] names_size_steps(3) [of 1000]
    names_size_steps(4) [of 10000] names_size_steps(5) [of 100000]
  by (simp add: array_field_names_size_def)

lemma body_len_array:
  "body_len (map (\<lambda>(i, d). (itoa i, \<lparr>rv_type = t, rv_value = d\<rparr>)) (enumerate 0 els)) =
     names_size (length els) + 2 * length els + sum_list (map length els)"
  by (induction els rule: rev_induct) (simp_all add: enumerate_append_eq)

lemma length_enc_array:
  "length (enc_array t els) = 5 + names_size (length els) + 2 * length els + sum_list (map length els)"
  by (simp add: enc_array_def length_enc_doc body_len_array)

lemma get_bson_array_size_correct:
  "length els < 1000000 \<Longrightarrow> get_bson_array_size els = Inr (length (enc_array t els))"
  by (simp add: get_bson_array_size_def array_field_names_size_eq length_enc_array)

text \<open>\<open>util.BSONArraySizer\<close>.\<close>

record array_sizer =
  elems_size :: nat
  sz_count :: nat

definition new_sizer :: array_sizer where
  "new_sizer = \<lparr>elems_size = 0, sz_count = 0\<rparr>"

definition sizer_add :: "array_sizer \<Rightarrow> raw_value \<Rightarrow> array_sizer" where
  "sizer_add b el = b\<lparr>
     elems_size := elems_size b + (1 + length (itoa (sz_count b)) + 1 + length (rv_value el)),
     sz_count := sz_count b + 1\<rparr>"

definition sizer_len :: "array_sizer \<Rightarrow> nat" where
  "sizer_len b = 5 + elems_size b"

definition enc_array_values :: "raw_value list \<Rightarrow> bytes" where
  "enc_array_values vs = enc_doc (map (\<lambda>(i, v). (itoa i, v)) (enumerate 0 vs))"

lemma foldl_sizer_add:
  "foldl sizer_add new_sizer vs =
     \<lparr>elems_size = body_len (map (\<lambda>(i, v). (itoa i, v)) (enumerate 0 vs)), sz_count = length vs\<rparr>"
  by (induction vs rule: rev_induct) (simp_all add: new_sizer_def sizer_add_def enumerate_append_eq)

lemma sizer_len_correct:
  "sizer_len (foldl sizer_add new_sizer vs) = length (enc_array_values vs)"
  by (simp add: foldl_sizer_add sizer_len_def enc_array_values_def length_enc_doc)

lemma sizer_len_mono: "sizer_len b < sizer_len (sizer_add b v)"
  by (simp add: sizer_len_def sizer_add_def)

text \<open>
  \<open>SplitArrayByBSONMaxSize\<close>; \<open>conv\<close> is the driver's \<open>bson.MarshalValue\<close> behind
  \<open>ConvertToRawValue\<close>. The accumulator is the groups, the sizer and the current group.
\<close>

fun split_array_loop ::
  "('a \<Rightarrow> go_error + raw_value) \<Rightarrow> nat \<Rightarrow> 'a list list \<Rightarrow> array_sizer \<Rightarrow> 'a list \<Rightarrow> 'a list
     \<Rightarrow> go_error + 'a list list" where
  "split_array_loop conv soft groups sizer cur [] =
     Inr (if length cur > 0 then groups @ [cur] else groups)"
| "split_array_loop conv soft groups sizer cur (x # ids) =
     rbind (conv x) (\<lambda>rv.
       let cur' = cur @ [x]; sizer' = sizer_add sizer rv
       in if sizer_len sizer' \<ge> soft
          then split_array_loop conv soft (groups @ [cur']) new_sizer [] ids
          else split_array_loop conv soft groups sizer' cur' ids)"

definition split_array :: "('a \<Rightarrow> go_error + raw_value) \<Rightarrow> 'a list \<Rightarrow> nat \<Rightarrow> go_error + 'a list list" where
  "split_array conv ids soft = split_array_loop conv soft [] new_sizer [] ids"

lemma split_array_loop_concat:
  "split_array_loop conv soft groups sizer cur ids = Inr gs \<Longrightarrow> concat gs = concat groups @ cur @ ids"
proof (induction ids arbitrary: groups sizer cur)
  case (Cons x ids)
  then show ?case by (auto simp: rbind_eq_Inr Let_def split: if_splits dest!: Cons.IH)
qed (auto split: if_splits)

definition group_size :: "('a \<Rightarrow> go_error + raw_value) \<Rightarrow> 'a list \<Rightarrow> nat" where
  "group_size conv g = length (enc_array_values (map (\<lambda>x. projr (conv x)) g))"

text \<open>Every group but the last meets the limit, and only with its final member.\<close>

definition tight_group :: "('a \<Rightarrow> go_error + raw_value) \<Rightarrow> nat \<Rightarrow> 'a list \<Rightarrow> bool" where
  "tight_group conv soft g \<longleftrightarrow> g \<noteq> [] \<and> soft \<le> group_size conv g \<and>
     (butlast g \<noteq> [] \<longrightarrow> group_size conv (butlast g) < soft)"

definition open_group :: "('a \<Rightarrow> go_error + raw_value) \<Rightarrow> nat \<Rightarrow> array_sizer \<Rightarrow> 'a list \<Rightarrow> bool" where
  "open_group conv soft sizer cur \<longleftrightarrow>
     sizer = foldl sizer_add new_sizer (map (\<lambda>x. projr (conv x)) cur) \<and>
     (cur \<noteq> [] \<longrightarrow> group_size conv cur < soft)"

lemma split_array_loop_groups:
  assumes "split_array_loop conv soft groups sizer cur ids = Inr gs"
    and "open_group conv soft sizer cur" and "\<forall>g \<in> set groups. tight_group conv soft g"
  shows "\<exists>full rest. gs = full @ rest \<and> (\<forall>g \<in> set full. tight_group conv soft g) \<and>
    (rest = [] \<or> (\<exists>g. rest = [g] \<and> g \<noteq> [] \<and> group_size conv g < soft))"
  using assms
proof (induction ids arbitrary: groups sizer cur)
  case Nil
  then show ?case by (auto simp: open_group_def split: if_splits)
next
  case (Cons x ids)
  from Cons.prems(1) obtain rv where rv: "conv x = Inr rv" by (auto simp: rbind_eq_Inr)
  let ?cur = "cur @ [x]" and ?sizer = "sizer_add sizer rv"
  have sz: "?sizer = foldl sizer_add new_sizer (map (\<lambda>x. projr (conv x)) ?cur)"
    using Cons.prems(2) rv by (simp add: open_group_def)
  then have len: "sizer_len ?sizer = group_size conv ?cur"
    by (simp only: group_size_def sizer_len_correct)
  show ?case
  proof (cases "soft \<le> sizer_len ?sizer")
    case True
    have "tight_group conv soft ?cur"
      using True len Cons.prems(2) by (simp add: tight_group_def open_group_def)
    moreover have "open_group conv soft new_sizer []" by (simp add: open_group_def)
    ultimately show ?thesis
      using Cons.prems True rv by (intro Cons.IH [of "groups @ [?cur]" new_sizer "[]"]) auto
  next
    case False
    then have "open_group conv soft ?sizer ?cur" using sz len by (simp add: open_group_def)
    then show ?thesis
      using Cons.prems False rv by (intro Cons.IH [of groups ?sizer ?cur]) auto
  qed
qed

end
