(* ===== verification/Doc_Key.thy ===== *)
theory Doc_Key
  imports Mbson Containers
begin

text \<open>
  Document keys: \<open>dockey/raw.go\<close>, the key flds of a task (\<open>tasks/query_filter.go\<close>), the map key
  the comparator pairs documents by (\<open>compare_key.go\<close>, \<open>getMapKey\<close> in \<open>compare.go\<close>) and the
  comparison methods' access to id, key and size (\<open>compare/method.go\<close>).
\<close>

section \<open>Key extraction\<close>

fun split_dot :: "string \<Rightarrow> string list" where
  "split_dot [] = [[]]"
| "split_dot (c # cs) =
     (if c = CHR ''.'' then [] # split_dot cs
      else (case split_dot cs of [] \<Rightarrow> [[c]] | p # ps \<Rightarrow> (c # p) # ps))"

lemma split_dot_not_Nil [simp]: "split_dot s \<noteq> []"
  by (cases s) (auto split: list.splits)

lemma split_dot_plain: "CHR ''.'' \<notin> set s \<Longrightarrow> split_dot s = [s]"
  by (induction s) auto

definition null_value :: raw_value where
  "null_value = \<lparr>rv_type = TypeNull, rv_value = []\<rparr>"

lemma wf_null_value [simp]: "wf_value null_value"
  by (simp add: wf_value_def null_value_def)

definition doc_key_field :: "bytes \<Rightarrow> string \<Rightarrow> go_error + raw_value" where
  "doc_key_field doc field = (case lookup_err doc (split_dot field) of
       Inr v \<Rightarrow> Inr v
     | Inl e \<Rightarrow> if e = ElementNotFound \<or> e = InvalidDepth then Inr null_value else Inl e)"

fun append_doc_key_fields :: "raw_value list \<Rightarrow> bytes \<Rightarrow> string list \<Rightarrow> go_error + raw_value list" where
  "append_doc_key_fields inp doc [] = Inr inp"
| "append_doc_key_fields inp doc (field # fieldNames) =
     rbind (doc_key_field doc field) (\<lambda>v. append_doc_key_fields (inp @ [v]) doc fieldNames)"

definition assert_field_name_uniqueness :: "string list \<Rightarrow> go_error + unit" where
  "assert_field_name_uniqueness fieldNames =
     (if find_first_dupe fieldNames \<noteq> None then Inl (Panic ''Duplicate field names'') else Inr ())"

definition extract_true_doc_key_from_doc :: "string list \<Rightarrow> bytes \<Rightarrow> go_error + bytes" where
  "extract_true_doc_key_from_doc fieldNames doc =
     rbind (assert_field_name_uniqueness fieldNames) (\<lambda>_.
     rbind (append_doc_key_fields [] doc fieldNames) (\<lambda>vals.
       if list_all valid_cstring fieldNames then Inr (enc_doc (zip fieldNames vals))
       else Inl (Panic ''BSON element keys cannot contain null bytes'')))"

lemma append_doc_key_fields_Inr:
  "append_doc_key_fields inp doc flds = Inr out \<longleftrightarrow>
     (\<exists>vs. out = inp @ vs \<and> list_all2 (\<lambda>f v. doc_key_field doc f = Inr v) flds vs)"
proof (induction flds arbitrary: inp out)
  case (Cons f flds)
  show ?case
  proof
    assume "append_doc_key_fields inp doc (f # flds) = Inr out"
    then obtain v where v: "doc_key_field doc f = Inr v"
        and out: "append_doc_key_fields (inp @ [v]) doc flds = Inr out"
      by (auto simp: rbind_eq_Inr)
    from out obtain vs where "out = (inp @ [v]) @ vs"
        "list_all2 (\<lambda>f v. doc_key_field doc f = Inr v) flds vs"
      unfolding Cons.IH by blast
    with v show "\<exists>vs. out = inp @ vs \<and> list_all2 (\<lambda>f v. doc_key_field doc f = Inr v) (f # flds) vs"
      by (intro exI [of _ "v # vs"]) simp
  next
    assume "\<exists>vs. out = inp @ vs \<and> list_all2 (\<lambda>f v. doc_key_field doc f = Inr v) (f # flds) vs"
    then obtain z zs where z: "out = inp @ z # zs" "doc_key_field doc f = Inr z"
        and zs: "list_all2 (\<lambda>f v. doc_key_field doc f = Inr v) flds zs"
      by (auto simp: list_all2_Cons1)
    from zs have "append_doc_key_fields (inp @ [z]) doc flds = Inr ((inp @ [z]) @ zs)"
      unfolding Cons.IH by blast
    with z show "append_doc_key_fields inp doc (f # flds) = Inr out" by simp
  qed
qed auto

lemma doc_key_field_plain:
  assumes "CHR ''.'' \<notin> set f" "list_all wf_kv kvs" "small kvs"
  shows "doc_key_field (enc_doc kvs) f =
    Inr (case map_of kvs f of None \<Rightarrow> null_value | Some v \<Rightarrow> v)"
  using assms by (simp add: doc_key_field_def split_dot_plain lookup_enc_doc split: option.splits)

lemma append_doc_key_fields_plain:
  assumes "list_all (\<lambda>f. CHR ''.'' \<notin> set f) flds" "list_all wf_kv kvs" "small kvs"
  shows "append_doc_key_fields inp (enc_doc kvs) flds =
    Inr (inp @ map (\<lambda>f. case map_of kvs f of None \<Rightarrow> null_value | Some v \<Rightarrow> v) flds)"
  using assms by (induction flds arbitrary: inp) (simp_all add: doc_key_field_plain)

section \<open>Task key flds and the map key\<close>

definition get_doc_key_fields :: "string list \<Rightarrow> string list" where
  "get_doc_key_fields shardKeys =
     (if ''_id'' \<in> set shardKeys then shardKeys else ''_id'' # shardKeys)"

definition dst_namespace :: "string \<Rightarrow> string \<Rightarrow> string" where
  "dst_namespace to namespace = (if to \<noteq> [] then to else namespace)"

definition rv_to_map_key :: "bytes \<Rightarrow> raw_value \<Rightarrow> bytes" where
  "rv_to_map_key buf rv = buf @ [rv_type rv] @ rv_value rv"

definition get_map_key :: "bytes \<Rightarrow> raw_value list \<Rightarrow> bytes" where
  "get_map_key buf docKeyValues = foldl rv_to_map_key buf docKeyValues"

lemma get_map_key_concat:
  "get_map_key buf vs = buf @ concat (map (\<lambda>v. rv_type v # rv_value v) vs)"
  by (induction vs arbitrary: buf) (simp_all add: get_map_key_def rv_to_map_key_def)

text \<open>
  A value's bytes are delimited by its type and its own prefix, so the concatenation without
  separators still determines the values.
\<close>

lemma wf_value_prefix_unique:
  assumes "wf_value v" "wf_value w" "rv_type v = rv_type w" "rv_value v @ xs = rv_value w @ ys"
  shows "v = w \<and> xs = ys"
proof -
  have "value_length (rv_value v @ xs) (rv_type v) = Some (int (length (rv_value v)))"
    using assms(1) by (simp add: wf_value_def value_length_app)
  moreover have "value_length (rv_value w @ ys) (rv_type w) = Some (int (length (rv_value w)))"
    using assms(2) by (simp add: wf_value_def value_length_app)
  ultimately have "length (rv_value v) = length (rv_value w)" using assms(3,4) by simp
  with assms(3,4) show ?thesis by (cases v; cases w) simp
qed

lemma map_key_values_inj:
  "list_all wf_value vs \<Longrightarrow> list_all wf_value ws \<Longrightarrow>
     concat (map (\<lambda>v. rv_type v # rv_value v) vs) = concat (map (\<lambda>v. rv_type v # rv_value v) ws)
     \<Longrightarrow> vs = ws"
proof (induction vs arbitrary: ws)
  case Nil
  then show ?case by (cases ws) auto
next
  case (Cons v vs)
  then obtain w ws' where ws: "ws = w # ws'" by (cases ws) auto
  with Cons.prems have "v = w \<and> concat (map (\<lambda>v. rv_type v # rv_value v) vs) =
      concat (map (\<lambda>v. rv_type v # rv_value v) ws')"
    by (intro wf_value_prefix_unique) auto
  with Cons ws show ?case by simp
qed

lemma get_map_key_inj:
  "list_all wf_value vs \<Longrightarrow> list_all wf_value ws \<Longrightarrow>
     get_map_key buf vs = get_map_key buf ws \<longleftrightarrow> vs = ws"
  using map_key_values_inj by (auto simp: get_map_key_concat)

section \<open>Comparison methods\<close>

datatype cmp_method = Binary | IgnoreOrder | ToHashedIndexKey | UnknownMethod string

definition docKeyInHashedCompare :: string where "docKeyInHashedCompare = ''k''"
definition docSizeInHashedCompare :: string where "docSizeInHashedCompare = ''s''"

definition should_ignore_field_order :: "cmp_method \<Rightarrow> bool" where
  "should_ignore_field_order m \<longleftrightarrow> m = IgnoreOrder"

definition compares_full_documents :: "cmp_method \<Rightarrow> bool" where
  "compares_full_documents m \<longleftrightarrow> m = Binary \<or> m = IgnoreOrder"

text \<open>
  \<open>int64(f)\<close> of a double given by its bits: truncation towards zero, and outside the int64 range
  (as for NaN) the minimal int64, as on amd64.
\<close>

definition f64_to_i64 :: "u64 \<Rightarrow> u64" where
  "f64_to_i64 w =
     (let e = unat (take_bit 11 (drop_bit 52 w));
          m = 2 ^ 52 + unat (take_bit 52 w);
          mag = (if e < 1023 then 0 else if e \<ge> 1075 then m * 2 ^ (e - 1075) else m div 2 ^ (1075 - e))
      in if e \<ge> 1086 then 0x8000000000000000
         else if bit w 63 then - word_of_nat mag else word_of_nat mag)"

definition as_int64_ok :: "raw_value \<Rightarrow> u64 option" where
  "as_int64_ok v =
     (if rv_type v = TypeDouble then map_option (\<lambda>(w, _). f64_to_i64 w) (read_u64 (rv_value v))
      else if rv_type v = TypeInt32 then map_option (\<lambda>(w, _). scast w) (read_u32 (rv_value v))
      else if rv_type v = TypeInt64 then map_option fst (read_u64 (rv_value v))
      else None)"

definition doc_size :: "cmp_method \<Rightarrow> bytes \<Rightarrow> go_error + u64" where
  "doc_size m doc =
     (if compares_full_documents m then Inr (word_of_nat (length doc))
      else (case lookup_err doc [docSizeInHashedCompare] of
              Inl _ \<Rightarrow> Inl (Panic ''hashed comparison requires doc size'')
            | Inr v \<Rightarrow> (case as_int64_ok v of
                  None \<Rightarrow> Inl (Panic ''bsoncore.Value.AsInt64'') | Some i \<Rightarrow> Inr i)))"

fun raw_doc_id_for_comparison :: "cmp_method \<Rightarrow> bytes \<Rightarrow> go_error + raw_value" where
  "raw_doc_id_for_comparison Binary doc = lookup_err doc [''_id'']"
| "raw_doc_id_for_comparison IgnoreOrder doc = lookup_err doc [''_id'']"
| "raw_doc_id_for_comparison ToHashedIndexKey doc = lookup_err doc [docKeyInHashedCompare, ''_id'']"
| "raw_doc_id_for_comparison (UnknownMethod m) doc = Inl (Err ''unknown doc compare method'')"

text \<open>The clone protects the id from the buffer pool; as a value it is the id.\<close>

definition cloned_doc_id_for_comparison :: "cmp_method \<Rightarrow> bytes \<Rightarrow> go_error + raw_value" where
  "cloned_doc_id_for_comparison m doc = raw_doc_id_for_comparison m doc"

fun append_elem_values :: "raw_value list \<Rightarrow> bytes list \<Rightarrow> go_error + raw_value list" where
  "append_elem_values inp [] = Inr inp"
| "append_elem_values inp (el # els) = rbind (value_err el) (\<lambda>v. append_elem_values (inp @ [v]) els)"

definition get_doc_key_values ::
  "cmp_method \<Rightarrow> raw_value list \<Rightarrow> bytes \<Rightarrow> string list \<Rightarrow> go_error + raw_value list" where
  "get_doc_key_values m inp doc fieldNames =
     (if m = Binary \<or> m = IgnoreOrder then append_doc_key_fields inp doc fieldNames
      else rbind
        (if m = ToHashedIndexKey
         then rbind (lookup_err doc [docKeyInHashedCompare]) (\<lambda>v.
                case rv_document_ok v of
                  None \<Rightarrow> Inl (Err ''doc key should be an embedded document'')
                | Some d \<Rightarrow> Inr d)
         else Inr [])
        (\<lambda>docKey. rbind (doc_elements docKey) (append_elem_values inp)))"

lemma append_elem_values_enc:
  "list_all wf_kv kvs \<Longrightarrow>
     append_elem_values inp (map (\<lambda>(k, v). enc_elem k v) kvs) = Inr (inp @ map snd kvs)"
  by (induction kvs arbitrary: inp) (auto simp: wf_kv_def)

text \<open>
  The hashed projection carries the key under \<open>k\<close>. If that document is the true document key of a
  document, the hashed method reads the same key values as the full comparison of the document.
\<close>

lemma get_doc_key_values_hashed:
  assumes "map_of outer docKeyInHashedCompare = Some (document_value (enc_doc keys))"
    and "list_all wf_kv outer" "small outer" "list_all wf_kv keys" "small keys"
  shows "get_doc_key_values ToHashedIndexKey inp (enc_doc outer) flds = Inr (inp @ map snd keys)"
  using assms
  by (simp add: get_doc_key_values_def lookup_enc_doc rv_document_enc doc_elements_enc_doc
      append_elem_values_enc)

end
