(* ===== verification/Bson_Compare.thy ===== *)
theory Bson_Compare
  imports Mbson "HOL-Library.AList" "HOL-Library.List_Lexorder" "HOL-Library.Char_ord"
begin

text \<open>
  The comparison of two documents that ignores field order (\<open>internal/verifier/bson_compare.go\<close>),
  on bytes and through the driver's readers, and its specification on document trees.

  Go iterates a map in an unspecified order: \<open>ord\<close> is the order in which \<open>range srcMap\<close> visits the
  keys. Nested comparisons recurse on the bytes of a value; the recursion is well founded because an
  element's value is shorter than the document it came from.
\<close>

section \<open>The comparison\<close>

record mismatch_details =
  missingFieldOnSrc :: "string list"
  missingFieldOnDst :: "string list"
  fieldContentsDiffer :: "string list"

definition no_details :: mismatch_details where
  "no_details = \<lparr>missingFieldOnSrc = [], missingFieldOnDst = [], fieldContentsDiffer = []\<rparr>"

definition parse_documents :: "bytes \<Rightarrow> bytes \<Rightarrow> go_error + bytes list \<times> bytes list" where
  "parse_documents srcRaw dstRaw = (case doc_elements srcRaw of
       Inl e \<Rightarrow> if is_panic e then Inl e else Inl (Err ''Error parsing source document for compare'')
     | Inr srcElements \<Rightarrow> (case doc_elements dstRaw of
           Inl e \<Rightarrow> if is_panic e then Inl e else Inl (Err ''Error parsing dest document for compare'')
         | Inr dstElements \<Rightarrow> Inr (srcElements, dstElements)))"

definition build_src_map :: "bytes list \<Rightarrow> go_error + (string \<times> raw_value) list" where
  "build_src_map srcElements =
     rfold (\<lambda>m e. rbind (elem_value e) (\<lambda>v. Inr (AList.update (elem_key e) v m))) [] srcElements"

type_synonym value_cmp = "raw_value \<Rightarrow> raw_value \<Rightarrow> go_error + bool"

text \<open>The loop over the destination's elements: details, used keys, and whether it returned early.\<close>

fun dst_loop ::
  "value_cmp \<Rightarrow> (string \<times> raw_value) list \<Rightarrow> bool \<Rightarrow> mismatch_details \<times> string list \<times> bool \<Rightarrow> bytes list
     \<Rightarrow> go_error + bool \<times> mismatch_details \<times> string list \<times> bool" where
  "dst_loop cv m stop (md, used, anyMm) [] = Inr (False, md, used, anyMm)"
| "dst_loop cv m stop (md, used, anyMm) (e # es) =
     rbind (elem_value e) (\<lambda>dstValue.
     rbind (case map_of m (elem_key e) of
              None \<Rightarrow>
                Inr (md\<lparr>missingFieldOnSrc := missingFieldOnSrc md @ [elem_key e]\<rparr>, used, True)
            | Some srcValue \<Rightarrow>
                rbind (cv srcValue dstValue) (\<lambda>result.
                  Inr (if \<not> result
                       then (md\<lparr>fieldContentsDiffer := fieldContentsDiffer md @ [elem_key e]\<rparr>,
                             List.insert (elem_key e) used, True)
                       else (md, List.insert (elem_key e) used, anyMm))))
       (\<lambda>(md', used', any').
          if stop \<and> any' then Inr (True, md', used', any')
          else dst_loop cv m stop (md', used', any') es))"

fun src_loop :: "string list \<Rightarrow> bool \<Rightarrow> mismatch_details \<Rightarrow> bool \<Rightarrow> string list
     \<Rightarrow> bool \<times> mismatch_details \<times> bool" where
  "src_loop used stop md anyMm [] = (False, md, anyMm)"
| "src_loop used stop md anyMm (key # keys) =
     (if key \<notin> set used
      then let md' = md\<lparr>missingFieldOnDst := missingFieldOnDst md @ [key]\<rparr>
           in if stop then (True, md', True) else src_loop used stop md' True keys
      else src_loop used stop md anyMm keys)"

definition compare_raw_elements ::
  "(string list \<Rightarrow> string list) \<Rightarrow> value_cmp \<Rightarrow> bytes list \<Rightarrow> bytes list \<Rightarrow> bool
     \<Rightarrow> go_error + mismatch_details option" where
  "compare_raw_elements ord cv srcElements dstElements stop =
     rbind (build_src_map srcElements) (\<lambda>srcMap.
     rbind (dst_loop cv srcMap stop (no_details, [], False) dstElements) (\<lambda>(early, md, used, anyMm).
       if early then Inr (Some md)
       else case (if length srcMap \<noteq> length used
                  then src_loop used stop md anyMm (ord (map fst srcMap))
                  else (False, md, anyMm)) of
              (early', md', any') \<Rightarrow> Inr (if early' \<or> any' then Some md' else None)))"

definition compare_raw_document ::
  "(string list \<Rightarrow> string list) \<Rightarrow> value_cmp \<Rightarrow> bytes \<Rightarrow> bytes \<Rightarrow> go_error + bool" where
  "compare_raw_document ord cv srcRaw dstRaw =
     rbind (parse_documents srcRaw dstRaw) (\<lambda>(srcElements, dstElements).
     rbind (compare_raw_elements ord cv srcElements dstElements True) (\<lambda>result.
       Inr (result = None)))"

fun array_loop :: "value_cmp \<Rightarrow> bytes list \<Rightarrow> bytes list \<Rightarrow> go_error + bool" where
  "array_loop cv (s # srcs) (d # dsts) =
     (if elem_key s \<noteq> elem_key d then Inl (Err ''array keys differ'')
      else rbind (elem_value s) (\<lambda>sv. rbind (elem_value d) (\<lambda>dv.
             rbind (cv sv dv) (\<lambda>matches.
               if \<not> matches then Inr False else array_loop cv srcs dsts))))"
| "array_loop cv _ _ = Inr True"

definition compare_raw_array :: "value_cmp \<Rightarrow> bytes \<Rightarrow> bytes \<Rightarrow> go_error + bool" where
  "compare_raw_array cv srcRaw dstRaw =
     rbind (parse_documents srcRaw dstRaw) (\<lambda>(srcElements, dstElements).
       if length srcElements \<noteq> length dstElements then Inr False
       else array_loop cv srcElements dstElements)"

subsection \<open>The recursion descends\<close>

lemma doc_elements_loop_lengths:
  "doc_elements_loop len rem = Inr es \<Longrightarrow> e \<in> set es \<Longrightarrow> length e \<le> length rem"
proof (induction len rem arbitrary: es rule: doc_elements_loop.induct)
  case (1 len rem)
  show ?case
  proof (cases "len > 1")
    case False
    with "1.prems" show ?thesis by (simp add: doc_elements_loop.simps [of len rem])
  next
    case True
    with "1.prems"(1) obtain el rem' es' where
      re: "read_element rem = Inr (el, rem')" and v: "elem_validate el = Inr ()"
      and r: "doc_elements_loop (len - int (length el)) rem' = Inr es'" and es: "es = el # es'"
      by (subst (asm) doc_elements_loop.simps) (auto simp: rbind_eq_Inr split: sum.splits)
    from read_element_Inr(1) [OF re] have "length el \<le> length rem" "length rem' \<le> length rem"
      by auto
    with es "1.IH" [OF True re refl v r] "1.prems"(2) show ?thesis by auto
  qed
qed

lemma doc_elements_lengths: "doc_elements d = Inr es \<Longrightarrow> e \<in> set es \<Longrightarrow> length e < length d"
proof -
  assume "doc_elements d = Inr es" "e \<in> set es"
  then obtain len rem where "read_length d = Some (len, rem)" "doc_elements_loop (len - 4) rem = Inr es"
    by (auto simp: doc_elements_def split: option.splits)
  moreover from this(1) have "length rem < length d"
    by (auto simp: read_length_def dest!: read_u32_Some split: option.splits if_splits)
  ultimately show ?thesis using doc_elements_loop_lengths [of "len - 4" rem es e] \<open>e \<in> set es\<close> by simp
qed

lemma elem_value_length: "elem_value e = Inr v \<Longrightarrow> length (rv_value v) \<le> length e"
  by (auto simp: elem_value_def value_err_def rbind_eq_Inr read_value_def rv_zero_def
      split: list.splits option.splits sum.splits if_splits)

lemma parse_documents_Inr:
  "parse_documents a b = Inr (se, de) \<longleftrightarrow> doc_elements a = Inr se \<and> doc_elements b = Inr de"
  by (auto simp: parse_documents_def split: sum.splits)

lemma update_member: "x \<in> set (AList.update k v al) \<Longrightarrow> x = (k, v) \<or> x \<in> set al"
  by (induction al) (auto split: if_splits)

lemma build_src_map_values:
  assumes "build_src_map es = Inr m" and "(k, v) \<in> set m"
  shows "\<exists>e \<in> set es. elem_value e = Inr v"
proof -
  have "rfold (\<lambda>m e. rbind (elem_value e) (\<lambda>v. Inr (AList.update (elem_key e) v m))) m0 es = Inr m \<Longrightarrow>
      (k, v) \<in> set m0 \<or> (\<exists>e \<in> set es. elem_value e = Inr v)" for m0
  proof (induction es arbitrary: m0)
    case Nil
    with assms(2) show ?case by simp
  next
    case (Cons e es)
    from Cons.prems obtain w where w: "elem_value e = Inr w"
      and r: "rfold (\<lambda>m e. rbind (elem_value e) (\<lambda>v. Inr (AList.update (elem_key e) v m)))
                (AList.update (elem_key e) w m0) es = Inr m"
      by (auto simp: rbind_eq_Inr)
    from Cons.IH [OF r] update_member [of "(k, v)" "elem_key e" w m0] w show ?case by auto
  qed
  with assms(1) show ?thesis by (fastforce simp: build_src_map_def)
qed

lemma dst_loop_cong:
  assumes "\<And>e v w. e \<in> set es \<Longrightarrow> elem_value e = Inr w \<Longrightarrow> map_of m (elem_key e) = Some v \<Longrightarrow> cv v w = cv' v w"
  shows "dst_loop cv m stop st es = dst_loop cv' m stop st es"
  using assms
proof (induction es arbitrary: st)
  case Nil
  then show ?case by (cases st) simp
next
  case (Cons e es)
  obtain md used anyMm where st: "st = (md, used, anyMm)" by (cases st)
  have IH: "dst_loop cv m stop st' es = dst_loop cv' m stop st' es" for st'
    using Cons.prems by (intro Cons.IH) auto
  have cv: "cv v w = cv' v w" if "elem_value e = Inr w" "map_of m (elem_key e) = Some v" for v w
    using Cons.prems [of e w v] that by simp
  show ?case
  proof (cases "elem_value e")
    case w: (Inr w)
    show ?thesis
    proof (cases "map_of m (elem_key e)")
      case (Some v)
      with cv [OF w Some] IH show ?thesis
        by (cases "cv' v w"; cases stop) (simp_all add: st w)
    next
      case None
      with IH show ?thesis by (cases stop) (simp_all add: st w)
    qed
  qed (simp add: st)
qed

lemma compare_raw_document_cong [fundef_cong]:
  assumes "a = a'" "b = b'" "ord = ord'"
    and "\<And>v w. length (rv_value v) < length a' \<Longrightarrow> length (rv_value w) < length b' \<Longrightarrow> cv v w = cv' v w"
  shows "compare_raw_document ord cv a b = compare_raw_document ord' cv' a' b'"
proof (cases "parse_documents a' b'")
  case (Inr p)
  obtain se de where p: "p = (se, de)" by (cases p)
  from Inr p have se: "doc_elements a' = Inr se" and de: "doc_elements b' = Inr de"
    by (simp_all add: parse_documents_Inr)
  have "compare_raw_elements ord cv se de True = compare_raw_elements ord cv' se de True"
  proof (cases "build_src_map se")
    case (Inr m)
    have "dst_loop cv m True st de = dst_loop cv' m True st de" for st
    proof (rule dst_loop_cong)
      fix e v w assume e: "e \<in> set de" "elem_value e = Inr w" and v: "map_of m (elem_key e) = Some v"
      from build_src_map_values [OF Inr map_of_SomeD [OF v]] obtain e' where
        "e' \<in> set se" "elem_value e' = Inr v" by blast
      then show "cv v w = cv' v w"
        using e doc_elements_lengths [OF se] doc_elements_lengths [OF de] elem_value_length
        by (intro assms(4)) (meson le_less_trans)+
    qed
    with Inr show ?thesis by (simp add: compare_raw_elements_def)
  qed (simp add: compare_raw_elements_def)
  with Inr p assms(1-3) show ?thesis by (simp add: compare_raw_document_def)
qed (simp add: compare_raw_document_def assms(1-3))

lemma array_loop_cong:
  assumes "\<And>e f v w. e \<in> set es \<Longrightarrow> f \<in> set fs \<Longrightarrow> elem_value e = Inr v \<Longrightarrow> elem_value f = Inr w \<Longrightarrow> cv v w = cv' v w"
  shows "array_loop cv es fs = array_loop cv' es fs"
  using assms
proof (induction cv es fs rule: array_loop.induct)
  case (1 cv s srcs d dsts)
  have IH: "array_loop cv srcs dsts = array_loop cv' srcs dsts"
    if "elem_key s = elem_key d" "elem_value s = Inr v" "elem_value d = Inr w" "cv v w = Inr True" for v w
    by (rule "1.IH" [of v w True]) (use that "1.prems" in auto)
  have cv: "cv v w = cv' v w" if "elem_value s = Inr v" "elem_value d = Inr w" for v w
    using "1.prems" [of s d v w] that by simp
  show ?case
  proof (cases "elem_value s")
    case sv: (Inr v)
    show ?thesis
    proof (cases "elem_value d")
      case dv: (Inr w)
      from cv [OF sv dv] IH [OF _ sv dv] show ?thesis
        by (cases "cv' v w") (auto simp: sv dv)
    qed (simp add: sv)
  qed simp
qed simp_all

lemma compare_raw_array_cong [fundef_cong]:
  assumes "a = a'" "b = b'"
    and "\<And>v w. length (rv_value v) < length a' \<Longrightarrow> length (rv_value w) < length b' \<Longrightarrow> cv v w = cv' v w"
  shows "compare_raw_array cv a b = compare_raw_array cv' a' b'"
proof (cases "parse_documents a' b'")
  case (Inr p)
  obtain se de where p: "p = (se, de)" by (cases p)
  from Inr p have se: "doc_elements a' = Inr se" and de: "doc_elements b' = Inr de"
    by (simp_all add: parse_documents_Inr)
  have "array_loop cv se de = array_loop cv' se de"
    using doc_elements_lengths [OF se] doc_elements_lengths [OF de] elem_value_length
    by (intro array_loop_cong assms(3)) (meson le_less_trans)+
  with Inr p assms(1,2) show ?thesis by (simp add: compare_raw_array_def)
qed (simp add: compare_raw_array_def assms(1,2))

lemma rv_nested_length:
  "rv_array v = Inr a \<Longrightarrow> length a \<le> length (rv_value v)"
  "rv_document v = Inr a \<Longrightarrow> length a \<le> length (rv_value v)"
  by (auto simp: rv_array_def rv_document_def rv_array_ok_def rv_document_ok_def read_length_bytes_def
      split: if_splits option.splits)

subsection \<open>Values, and the two entry points\<close>

function compare_raw_value ::
  "(string list \<Rightarrow> string list) \<Rightarrow> raw_value \<Rightarrow> raw_value \<Rightarrow> go_error + bool" where
  "compare_raw_value ord src dst =
     (if rv_type src \<noteq> rv_type dst then Inr False
      else if rv_type src = TypeArray then
        (case rv_array src of Inl e \<Rightarrow> Inl e
         | Inr a \<Rightarrow> (case rv_array dst of Inl e \<Rightarrow> Inl e
             | Inr b \<Rightarrow> compare_raw_array (compare_raw_value ord) a b))
      else if rv_type src = TypeEmbeddedDocument then
        (case rv_document src of Inl e \<Rightarrow> Inl e
         | Inr a \<Rightarrow> (case rv_document dst of Inl e \<Rightarrow> Inl e
             | Inr b \<Rightarrow> compare_raw_document ord (compare_raw_value ord) a b))
      else Inr (rv_equal src dst))"
  by pat_completeness auto
termination
  by (relation "measure (\<lambda>(ord, src, dst). length (rv_value src))") (auto dest!: rv_nested_length)

declare compare_raw_value.simps [simp del]

definition BsonUnorderedCompareRawDocument ::
  "(string list \<Rightarrow> string list) \<Rightarrow> bytes \<Rightarrow> bytes \<Rightarrow> go_error + bool" where
  "BsonUnorderedCompareRawDocument ord = compare_raw_document ord (compare_raw_value ord)"

definition BsonUnorderedCompareRawDocumentWithDetails ::
  "(string list \<Rightarrow> string list) \<Rightarrow> bytes \<Rightarrow> bytes \<Rightarrow> go_error + mismatch_details option" where
  "BsonUnorderedCompareRawDocumentWithDetails ord srcRaw dstRaw =
     rbind (parse_documents srcRaw dstRaw) (\<lambda>(srcElements, dstElements).
       compare_raw_elements ord (compare_raw_value ord) srcElements dstElements False)"

section \<open>What the comparison decides\<close>

subsection \<open>The maps and loops on encoded elements\<close>

abbreviation enc_elems :: "(string \<times> raw_value) list \<Rightarrow> bytes list" where
  "enc_elems kvs \<equiv> map (\<lambda>(k, v). enc_elem k v) kvs"

lemma build_src_map_enc:
  assumes "list_all wf_kv kvs"
  shows "\<exists>m. build_src_map (enc_elems kvs) = Inr m \<and> map_of m = map_of (rev kvs) \<and> distinct (map fst m)"
proof -
  have "\<exists>m. rfold (\<lambda>m e. rbind (elem_value e) (\<lambda>v. Inr (AList.update (elem_key e) v m))) m0 (enc_elems kvs)
      = Inr m \<and> map_of m = map_of m0 ++ map_of (rev kvs) \<and> distinct (map fst m)"
    if "distinct (map fst m0)" for m0
    using assms that
  proof (induction kvs arbitrary: m0)
    case Nil
    then show ?case by simp
  next
    case (Cons kv kvs)
    obtain k v where kv: "kv = (k, v)" by (cases kv)
    with Cons.prems have wf: "valid_cstring k" "wf_value v" "list_all wf_kv kvs"
      by (simp_all add: wf_kv_def [of "(k, v)"])
    have d: "distinct (map fst (AList.update k v m0))"
      using Cons.prems(2) by (rule distinct_update)
    have "map_of (AList.update k v m0) ++ map_of (rev kvs) = map_of m0 ++ map_of (rev (kv # kvs))"
      by (auto simp: kv update_conv' map_add_def fun_eq_iff split: option.splits)
    with Cons.IH [OF wf(3) d] show ?case by (simp add: kv wf)
  qed
  from this [of "[]"] show ?thesis by (simp add: build_src_map_def)
qed

definition field_ok :: "value_cmp \<Rightarrow> (string \<times> raw_value) list \<Rightarrow> string \<times> raw_value \<Rightarrow> bool" where
  "field_ok cv m kw = (case map_of m (fst kw) of None \<Rightarrow> False | Some v \<Rightarrow> cv v (snd kw) = Inr True)"

definition cv_total :: "value_cmp \<Rightarrow> (string \<times> raw_value) list \<Rightarrow> (string \<times> raw_value) list \<Rightarrow> bool" where
  "cv_total cv m kvs = (\<forall>(k, w) \<in> set kvs. \<forall>v. map_of m k = Some v \<longrightarrow> is_ok (cv v w))"

lemma dst_loop_stop:
  assumes "list_all wf_kv kvs" "cv_total cv m kvs" "distinct used"
  shows "\<exists>early md' used' any'. dst_loop cv m True (md, used, False) (enc_elems kvs) = Inr (early, md', used', any')
    \<and> (early \<longleftrightarrow> (\<exists>kw \<in> set kvs. \<not> field_ok cv m kw))
    \<and> (\<not> early \<longrightarrow> md' = md \<and> \<not> any' \<and> distinct used' \<and> set used' = set used \<union> fst ` set kvs)"
  using assms
proof (induction kvs arbitrary: used)
  case Nil
  then show ?case by (intro exI [of _ False]) auto
next
  case (Cons kv kvs)
  obtain k w where kv: "kv = (k, w)" by (cases kv)
  with Cons.prems have wf: "valid_cstring k" "wf_value w" "list_all wf_kv kvs"
    and ct: "cv_total cv m kvs" by (simp_all add: wf_kv_def [of "(k, w)"] cv_total_def)
  show ?case
  proof (cases "field_ok cv m (k, w)")
    case True
    then obtain v where "map_of m k = Some v" "cv v w = Inr True"
      by (auto simp: field_ok_def split: option.splits)
    with wf True Cons.IH [OF wf(3) ct, of "List.insert k used"] Cons.prems(3) show ?thesis
      by (auto simp: kv distinct_insert)
  next
    case False
    with Cons.prems(2) wf show ?thesis
      by (auto simp: kv cv_total_def field_ok_def is_ok_def split: option.splits sum.splits)
  qed
qed

text \<open>Without the early stop, the loop collects every mismatch.\<close>

definition missing_src :: "(string \<times> raw_value) list \<Rightarrow> (string \<times> raw_value) list \<Rightarrow> string list" where
  "missing_src m kvs = map fst (filter (\<lambda>kw. map_of m (fst kw) = None) kvs)"

definition differing :: "value_cmp \<Rightarrow> (string \<times> raw_value) list \<Rightarrow> (string \<times> raw_value) list \<Rightarrow> string list" where
  "differing cv m kvs =
     map fst (filter (\<lambda>kw. map_of m (fst kw) \<noteq> None \<and> \<not> field_ok cv m kw) kvs)"

lemma dst_loop_all:
  assumes "list_all wf_kv kvs" "cv_total cv m kvs" "distinct used"
  shows "\<exists>used' any'. dst_loop cv m False (md, used, any) (enc_elems kvs) =
      Inr (False, \<lparr>missingFieldOnSrc = missingFieldOnSrc md @ missing_src m kvs,
                   missingFieldOnDst = missingFieldOnDst md,
                   fieldContentsDiffer = fieldContentsDiffer md @ differing cv m kvs\<rparr>, used', any')
    \<and> distinct used' \<and> set used' = set used \<union> {k \<in> fst ` set kvs. map_of m k \<noteq> None}
    \<and> (any' \<longleftrightarrow> any \<or> (\<exists>kw \<in> set kvs. \<not> field_ok cv m kw))"
  using assms
proof (induction kvs arbitrary: used md any)
  case Nil
  then show ?case by (simp add: missing_src_def differing_def)
next
  case (Cons kv kvs)
  obtain k w where kv: "kv = (k, w)" by (cases kv)
  with Cons.prems have wf: "valid_cstring k" "wf_value w" "list_all wf_kv kvs"
    and ct: "cv_total cv m kvs" by (simp_all add: wf_kv_def [of "(k, w)"] cv_total_def)
  show ?case
  proof (cases "map_of m k")
    case None
    from Cons.IH [OF wf(3) ct Cons.prems(3), of "md\<lparr>missingFieldOnSrc := missingFieldOnSrc md @ [k]\<rparr>" True] None wf
    show ?thesis by (auto simp: kv missing_src_def differing_def field_ok_def intro!: exI [of _ True])
  next
    case (Some v)
    with Cons.prems(2) obtain b where b: "cv v w = Inr b"
      by (auto simp: kv cv_total_def is_ok_def split: sum.splits)
    from Cons.prems(3) have d: "distinct (List.insert k used)" by (simp add: distinct_insert)
    let ?md = "if b then md else md\<lparr>fieldContentsDiffer := fieldContentsDiffer md @ [k]\<rparr>"
    note * = Cons.IH [OF wf(3) ct d, of ?md "any \<or> \<not> b"]
    show ?thesis
    proof (cases b)
      case False
      with * Some b wf show ?thesis
        by (auto simp: kv missing_src_def differing_def field_ok_def intro!: exI [of _ True])
    qed (use * Some b wf in \<open>auto simp: kv missing_src_def differing_def field_ok_def\<close>)
  qed
qed

lemma src_loop_stop: "src_loop used True md False keys = (early, md', any') \<Longrightarrow>
    (early \<longleftrightarrow> (\<exists>k \<in> set keys. k \<notin> set used)) \<and> (any' \<longleftrightarrow> early)"
  by (induction keys) (auto simp: Let_def split: if_splits)

lemma src_loop_all: "src_loop used False md any keys =
    (False, md\<lparr>missingFieldOnDst := missingFieldOnDst md @ filter (\<lambda>k. k \<notin> set used) keys\<rparr>,
     any \<or> (\<exists>k \<in> set keys. k \<notin> set used))"
  by (induction keys arbitrary: md any) (auto simp: Let_def)

text \<open>The order in which a Go map is ranged over: some permutation of its keys.\<close>

definition range_order :: "(string list \<Rightarrow> string list) \<Rightarrow> bool" where
  "range_order ord \<longleftrightarrow> (\<forall>ks. mset (ord ks) = mset ks)"

lemma range_order_set: "range_order ord \<Longrightarrow> set (ord ks) = set ks"
  by (metis range_order_def set_mset_mset)

lemma range_order_id [simp]: "range_order id" "range_order (\<lambda>ks. ks)" "range_order rev"
  by (simp_all add: range_order_def)

lemma length_distinct_eq:
  assumes "distinct xs" "distinct ys" "set ys \<subseteq> set xs"
  shows "length xs = length ys \<longleftrightarrow> set xs = set ys"
  using assms by (metis List.finite_set card_subset_eq distinct_card)

text \<open>
  Two element lists match exactly when they have the same keys and each element of the destination
  matches the source's last element of that key.
\<close>

definition fields_match ::
  "value_cmp \<Rightarrow> (string \<times> raw_value) list \<Rightarrow> (string \<times> raw_value) list \<Rightarrow> bool" where
  "fields_match cv a b \<longleftrightarrow> fst ` set a = fst ` set b \<and> (\<forall>kw \<in> set b. field_ok cv (rev a) kw)"

lemma field_ok_dom: "\<forall>kw \<in> set b. field_ok cv m kw \<Longrightarrow> fst ` set b \<subseteq> fst ` set m"
  by (force simp: field_ok_def dest!: map_of_SomeD split: option.splits)

lemma map_of_eq_cong:
  assumes "map_of m = map_of m'"
  shows "field_ok cv m = field_ok cv m'" "cv_total cv m = cv_total cv m'"
    "missing_src m = missing_src m'" "differing cv m = differing cv m'"
  using assms by (simp_all add: fun_eq_iff field_ok_def cv_total_def missing_src_def differing_def)

lemma compare_raw_elements_stop:
  assumes "list_all wf_kv a" "list_all wf_kv b" "range_order ord" "cv_total cv (rev a) b"
  shows "\<exists>r. compare_raw_elements ord cv (enc_elems a) (enc_elems b) True = Inr r
    \<and> (r = None \<longleftrightarrow> fields_match cv a b)"
proof -
  from build_src_map_enc [OF assms(1)] obtain m where
    m: "build_src_map (enc_elems a) = Inr m" "map_of m = map_of (rev a)" "distinct (map fst m)" by blast
  have keys: "fst ` set m = fst ` set a"
    using m(2) by (metis dom_map_of_conv_image_fst set_rev)
  note eqs = map_of_eq_cong [OF m(2)]
  have ct: "cv_total cv m b" using assms(4) by (simp add: eqs)
  have dnil: "distinct ([] :: string list)" by simp
  from dst_loop_stop [OF assms(2) ct dnil, of no_details] obtain early md' used' any' where
    d: "dst_loop cv m True (no_details, [], False) (enc_elems b) = Inr (early, md', used', any')"
    and e: "early \<longleftrightarrow> (\<exists>kw \<in> set b. \<not> field_ok cv m kw)"
    and u': "\<not> early \<longrightarrow> md' = no_details \<and> \<not> any' \<and> distinct used' \<and> set used' = set [] \<union> fst ` set b"
    by blast
  have u: "md' = no_details \<and> \<not> any' \<and> distinct used' \<and> set used' = fst ` set b" if "\<not> early"
    using u' that by simp
  show ?thesis
  proof (cases early)
    case True
    with m(1) d e show ?thesis by (auto simp: compare_raw_elements_def fields_match_def eqs)
  next
    case False
    with e have ok: "\<forall>kw \<in> set b. field_ok cv m kw" by simp
    from u [OF False] field_ok_dom [OF ok] m(3) have
      len: "length m = length used' \<longleftrightarrow> fst ` set m = fst ` set b"
      using length_distinct_eq [of "map fst m" used'] by simp
    obtain e2 md2 any2 where s: "src_loop used' True md' False (ord (map fst m)) = (e2, md2, any2)"
      by (metis prod_cases3)
    from src_loop_stop [OF s] range_order_set [OF assms(3)] u [OF False]
    have e2: "(e2 \<longleftrightarrow> \<not> fst ` set m \<subseteq> fst ` set b) \<and> (any2 \<longleftrightarrow> e2)" by auto
    from m(1) d False u [OF False] s e2 len ok field_ok_dom [OF ok] show ?thesis
      by (auto simp: compare_raw_elements_def fields_match_def eqs keys)
  qed
qed

lemma compare_raw_elements_all:
  assumes "list_all wf_kv a" "list_all wf_kv b" "range_order ord" "cv_total cv (rev a) b"
  shows "\<exists>r. compare_raw_elements ord cv (enc_elems a) (enc_elems b) False = Inr r
    \<and> (r = None \<longleftrightarrow> fields_match cv a b)
    \<and> (\<forall>md. r = Some md \<longrightarrow>
          missingFieldOnSrc md = missing_src (rev a) b
        \<and> fieldContentsDiffer md = differing cv (rev a) b
        \<and> distinct (missingFieldOnDst md)
        \<and> set (missingFieldOnDst md) = fst ` set a - fst ` set b)"
proof -
  from build_src_map_enc [OF assms(1)] obtain m where
    m: "build_src_map (enc_elems a) = Inr m" "map_of m = map_of (rev a)" "distinct (map fst m)" by blast
  have keys: "fst ` set m = fst ` set a"
    using m(2) by (metis dom_map_of_conv_image_fst set_rev)
  have dom: "map_of (rev a) k \<noteq> None \<longleftrightarrow> k \<in> fst ` set a" for k
    by (metis domIff dom_map_of_conv_image_fst set_rev)
  note eqs = map_of_eq_cong [OF m(2)]
  have ct: "cv_total cv m b" using assms(4) by (simp add: eqs)
  have dnil: "distinct ([] :: string list)" by simp
  let ?md = "\<lparr>missingFieldOnSrc = missing_src m b, missingFieldOnDst = [],
               fieldContentsDiffer = differing cv m b\<rparr>"
  from dst_loop_all [OF assms(2) ct dnil, of no_details False] obtain used' any' where
    d: "dst_loop cv m False (no_details, [], False) (enc_elems b) = Inr (False, ?md, used', any')"
    and du: "distinct used'" and su: "set used' = {k \<in> fst ` set b. map_of m k \<noteq> None}"
    and any': "any' \<longleftrightarrow> (\<exists>kw \<in> set b. \<not> field_ok cv m kw)"
    by (auto simp: no_details_def)
  have su': "set used' = fst ` set b \<inter> fst ` set m"
    using su dom by (auto simp: m(2) keys)
  have len: "length m = length used' \<longleftrightarrow> fst ` set m \<subseteq> fst ` set b"
    using length_distinct_eq [of "map fst m" used'] m(3) du su' by auto
  have ord: "distinct (ord (map fst m))" "set (ord (map fst m)) = fst ` set m"
    using assms(3) m(3) range_order_set [OF assms(3)]
    by (simp_all add: range_order_def) (metis mset_eq_imp_distinct_iff)
  have fm: "fields_match cv a b \<longleftrightarrow> fst ` set m \<subseteq> fst ` set b \<and> \<not> any'"
    using any' field_ok_dom [of b cv "rev a"] by (auto simp: fields_match_def eqs keys)
  show ?thesis
  proof (cases "fst ` set m \<subseteq> fst ` set b")
    case True
    with m(1) d len fm show ?thesis
      by (auto simp: compare_raw_elements_def eqs keys)
  next
    case False
    with su' have ex: "\<exists>k \<in> fst ` set m. k \<notin> set used'" by auto
    from False m(1) d len fm ex ord su' show ?thesis
      by (auto simp: compare_raw_elements_def eqs keys src_loop_all)
  qed
qed

section \<open>Refinement of the order-free equality of document trees\<close>

datatype bval =
    Scalar raw_value
  | BDoc "(string \<times> bval) list"
  | BArr "bval list"

primrec enc_bval :: "bval \<Rightarrow> raw_value" where
  "enc_bval (Scalar v) = v"
| "enc_bval (BDoc kvs) = document_value (enc_doc (map (map_prod id enc_bval) kvs))"
| "enc_bval (BArr xs) = array_value (enc_array_values (map enc_bval xs))"

primrec wf_bval :: "bval \<Rightarrow> bool" where
  "wf_bval (Scalar v) \<longleftrightarrow> wf_value v \<and> rv_type v \<noteq> TypeArray \<and> rv_type v \<noteq> TypeEmbeddedDocument"
| "wf_bval (BDoc kvs) \<longleftrightarrow> list_all (\<lambda>kv. valid_cstring (fst kv)) kvs \<and> list_all snd (map (map_prod id wf_bval) kvs)
     \<and> distinct (map fst kvs) \<and> small (map (map_prod id enc_bval) kvs)"
| "wf_bval (BArr xs) \<longleftrightarrow> list_all id (map wf_bval xs)
     \<and> small (map (\<lambda>(i, v). (itoa i, v)) (enumerate 0 (map enc_bval xs)))"

text \<open>The normal form: every document's fields sorted by their names.\<close>

primrec norm_bval :: "bval \<Rightarrow> bval" where
  "norm_bval (Scalar v) = Scalar v"
| "norm_bval (BDoc kvs) = BDoc (sort_key fst (map (map_prod id norm_bval) kvs))"
| "norm_bval (BArr xs) = BArr (map norm_bval xs)"

lemma wf_value_enc_bval: "wf_bval x \<Longrightarrow> wf_value (enc_bval x)"
  by (cases x) (auto simp: wf_document_value wf_array_value enc_array_values_def)

lemma wf_fields:
  assumes "wf_bval (BDoc kvs)"
  shows "list_all wf_kv (map (map_prod id enc_bval) kvs)"
    and "\<And>k x. (k, x) \<in> set kvs \<Longrightarrow> wf_bval x"
  using assms by (fastforce simp: list_all_iff wf_kv_def wf_value_enc_bval)+

lemma sorted_fields_eq_iff:
  fixes a b :: "('k :: linorder \<times> 'v) list"
  assumes "distinct (map fst a)" "distinct (map fst b)"
  shows "sort_key fst a = sort_key fst b \<longleftrightarrow> set a = set b"
proof
  assume "sort_key fst a = sort_key fst b"
  then show "set a = set b" by (metis set_sort)
next
  assume eq: "set a = set b"
  have d: "distinct (map fst (sort_key fst xs))" if "distinct (map fst xs)" for xs :: "('k \<times> 'v) list"
    using that by (metis distinct_map distinct_sort set_sort)
  from eq assms show "sort_key fst a = sort_key fst b"
    by (intro map_sorted_distinct_set_unique [of fst]) (auto simp: d distinct_map)
qed

abbreviation map_vals :: "('a \<Rightarrow> 'b) \<Rightarrow> (string \<times> 'a) list \<Rightarrow> (string \<times> 'b) list" where
  "map_vals f \<equiv> map (map_prod id f)"

lemma map_vals_member: "(k, v) \<in> set (map_vals f kvs) \<longleftrightarrow> (\<exists>x. (k, x) \<in> set kvs \<and> v = f x)"
  by (induction kvs) auto

lemma map_vals_keys: "fst ` set (map_vals f kvs) = fst ` set kvs" "map fst (map_vals f kvs) = map fst kvs"
  by (induction kvs) auto

lemma map_of_rev_map_vals:
  assumes "distinct (map fst kvs)"
  shows "map_of (rev (map_vals f kvs)) k = Some v \<longleftrightarrow> (\<exists>x. (k, x) \<in> set kvs \<and> v = f x)"
proof -
  have d: "distinct (map fst (rev (map_vals f kvs)))"
    using assms map_vals_keys(2) [of f kvs] by (simp only: distinct_rev flip: rev_map)
  have "map_of (rev (map_vals f kvs)) k = Some v \<longleftrightarrow> (k, v) \<in> set (rev (map_vals f kvs))"
    using d by (rule map_of_eq_Some_iff)
  also have "\<dots> \<longleftrightarrow> (\<exists>x. (k, x) \<in> set kvs \<and> v = f x)"
    by (simp only: set_rev map_vals_member)
  finally show ?thesis .
qed

lemma map_vals_set_eq:
  assumes "distinct (map fst a)"
  shows "set (map_vals f a) = set (map_vals f b) \<longleftrightarrow>
    fst ` set a = fst ` set b \<and> (\<forall>(k, y) \<in> set b. \<exists>x. (k, x) \<in> set a \<and> f x = f y)" (is "_ \<longleftrightarrow> ?r")
proof
  assume l: ?r
  have "(k, v) \<in> set (map_vals f a)" if "(k, v) \<in> set (map_vals f b)" for k v
    using that l unfolding map_vals_member by fastforce
  moreover have "(k, v) \<in> set (map_vals f b)" if "(k, v) \<in> set (map_vals f a)" for k v
  proof -
    from that obtain x where x: "(k, x) \<in> set a" "v = f x" unfolding map_vals_member by blast
    then have "k \<in> fst ` set a" by (metis fst_conv imageI)
    with l have "k \<in> fst ` set b" by simp
    then obtain y where y: "(k, y) \<in> set b" by auto
    with l obtain x' where x': "(k, x') \<in> set a" "f x' = f y" by blast
    from eq_key_imp_eq_value [OF assms x(1) x'(1)] x'(2) y x(2) show ?thesis
      unfolding map_vals_member by metis
  qed
  ultimately show "set (map_vals f a) = set (map_vals f b)" by (metis prod.exhaust subset_antisym subsetI)
next
  assume r: "set (map_vals f a) = set (map_vals f b)"
  then have "fst ` set a = fst ` set b" by (metis map_vals_keys(1))
  moreover have "\<exists>x. (k, x) \<in> set a \<and> f x = f y" if "(k, y) \<in> set b" for k y
  proof -
    have "(k, f y) \<in> set (map_vals f a)" unfolding r map_vals_member using that by blast
    then show ?thesis unfolding map_vals_member by metis
  qed
  ultimately show ?r by blast
qed

lemma field_ok_bval:
  assumes "distinct (map fst a)" "(k, y) \<in> set b"
    and cv: "\<And>k x y. (k, x) \<in> set a \<Longrightarrow> (k, y) \<in> set b \<Longrightarrow>
          cv (enc_bval x) (enc_bval y) = Inr (norm_bval x = norm_bval y)"
  shows "field_ok cv (rev (map_vals enc_bval a)) (k, enc_bval y)
    \<longleftrightarrow> (\<exists>x. (k, x) \<in> set a \<and> norm_bval x = norm_bval y)"
proof (cases "map_of (rev (map_vals enc_bval a)) k")
  case None
  then have "\<not> (\<exists>x. (k, x) \<in> set a)"
    using map_of_rev_map_vals [OF assms(1), of enc_bval k] by (metis option.distinct(1))
  with None show ?thesis by (simp add: field_ok_def)
next
  case (Some v)
  then obtain x where x: "(k, x) \<in> set a" "v = enc_bval x"
    using map_of_rev_map_vals [OF assms(1), of enc_bval k] by blast
  have "(\<exists>x'. (k, x') \<in> set a \<and> norm_bval x' = norm_bval y) \<longleftrightarrow> norm_bval x = norm_bval y"
    using x(1) eq_key_imp_eq_value [OF assms(1) x(1)] by metis
  with cv [OF x(1) assms(2)] show ?thesis by (simp add: field_ok_def Some x(2))
qed

lemma fields_match_bval:
  assumes "distinct (map fst a)" "distinct (map fst b)"
    and cv: "\<And>k x y. (k, x) \<in> set a \<Longrightarrow> (k, y) \<in> set b \<Longrightarrow>
          cv (enc_bval x) (enc_bval y) = Inr (norm_bval x = norm_bval y)"
  shows "fields_match cv (map_vals enc_bval a) (map_vals enc_bval b)
    \<longleftrightarrow> norm_bval (BDoc a) = norm_bval (BDoc b)"
    and "cv_total cv (rev (map_vals enc_bval a)) (map_vals enc_bval b)"
proof -
  show "cv_total cv (rev (map_vals enc_bval a)) (map_vals enc_bval b)"
    unfolding cv_total_def
    by (auto simp: map_of_rev_map_vals [OF assms(1)] cv is_ok_def simp del: set_map dest!: map_vals_member [THEN iffD1])
  have "(\<forall>kw \<in> set (map_vals enc_bval b). field_ok cv (rev (map_vals enc_bval a)) kw) \<longleftrightarrow>
      (\<forall>(k, y) \<in> set b. field_ok cv (rev (map_vals enc_bval a)) (k, enc_bval y))" by auto
  also have "\<dots> \<longleftrightarrow> (\<forall>(k, y) \<in> set b. \<exists>x. (k, x) \<in> set a \<and> norm_bval x = norm_bval y)"
  proof (rule ball_cong [OF refl], clarify)
    fix k y assume "(k, y) \<in> set b"
    then show "field_ok cv (rev (map_vals enc_bval a)) (k, enc_bval y)
        \<longleftrightarrow> (\<exists>x. (k, x) \<in> set a \<and> norm_bval x = norm_bval y)"
      by (rule field_ok_bval [OF assms(1)]) (rule cv)
  qed
  finally have "fields_match cv (map_vals enc_bval a) (map_vals enc_bval b)
      \<longleftrightarrow> set (map_vals norm_bval a) = set (map_vals norm_bval b)"
    by (simp only: fields_match_def map_vals_keys map_vals_set_eq [OF assms(1)])
  also have "\<dots> \<longleftrightarrow> sort_key fst (map_vals norm_bval a) = sort_key fst (map_vals norm_bval b)"
    using assms(1,2) by (intro sorted_fields_eq_iff [symmetric]) (simp_all only: map_vals_keys)
  also have "\<dots> \<longleftrightarrow> norm_bval (BDoc a) = norm_bval (BDoc b)"
    by (simp only: norm_bval.simps bval.inject)
  finally show "fields_match cv (map_vals enc_bval a) (map_vals enc_bval b)
    \<longleftrightarrow> norm_bval (BDoc a) = norm_bval (BDoc b)" .
qed

lemma enc_bval_type:
  "wf_bval x \<Longrightarrow> rv_type (enc_bval x) = TypeArray \<longleftrightarrow> (\<exists>xs. x = BArr xs)"
  "wf_bval x \<Longrightarrow> rv_type (enc_bval x) = TypeEmbeddedDocument \<longleftrightarrow> (\<exists>kvs. x = BDoc kvs)"
  by (cases x; simp add: document_value_def array_value_def)+

lemma rv_enc_bval:
  "wf_bval (BDoc kvs) \<Longrightarrow> rv_document (enc_bval (BDoc kvs)) = Inr (enc_doc (map (map_prod id enc_bval) kvs))"
  "wf_bval (BArr xs) \<Longrightarrow> rv_array (enc_bval (BArr xs)) = Inr (enc_array_values (map enc_bval xs))"
  by (simp_all add: rv_document_def rv_document_enc rv_array_def rv_array_enc enc_array_values_def)

lemma doc_elements_bval:
  "wf_bval (BDoc kvs) \<Longrightarrow> doc_elements (enc_doc (map (map_prod id enc_bval) kvs)) =
     Inr (enc_elems (map (map_prod id enc_bval) kvs))"
  using doc_elements_enc_doc [OF wf_fields(1) [of kvs]] by simp

lemma array_loop_enc:
  assumes "length xs = length ys" "\<And>x. x \<in> set xs \<union> set ys \<Longrightarrow> wf_bval x"
    and "\<And>x y. x \<in> set xs \<Longrightarrow> y \<in> set ys \<Longrightarrow> cv (enc_bval x) (enc_bval y) = Inr (norm_bval x = norm_bval y)"
  shows "array_loop cv (enc_elems (map (\<lambda>(i, v). (itoa i, v)) (enumerate n (map enc_bval xs))))
      (enc_elems (map (\<lambda>(i, v). (itoa i, v)) (enumerate n (map enc_bval ys))))
    = Inr (map norm_bval xs = map norm_bval ys)"
  using assms
proof (induction xs ys arbitrary: n rule: list_induct2)
  case (Cons x xs y ys)
  from Cons.prems Cons.IH [of "Suc n"] show ?case
    by (auto simp: valid_cstring_itoa wf_value_enc_bval)
qed simp

lemma doc_elements_array:
  assumes "wf_bval (BArr xs)"
  shows "doc_elements (enc_array_values (map enc_bval xs)) =
    Inr (enc_elems (map (\<lambda>(i, v). (itoa i, v)) (enumerate 0 (map enc_bval xs))))"
proof -
  have "list_all wf_kv (map (\<lambda>(i, v). (itoa i, v)) (enumerate 0 (map enc_bval xs)))"
    using assms by (auto simp: list_all_iff wf_kv_def valid_cstring_itoa wf_value_enc_bval
        dest!: in_set_enumerate_eq [THEN iffD1])
  with assms show ?thesis by (simp add: enc_array_values_def doc_elements_enc_doc)
qed

lemma compare_raw_document_bval:
  assumes wf: "wf_bval (BDoc a)" "wf_bval (BDoc b)" and ord: "range_order ord"
    and cv: "\<And>k x y. (k, x) \<in> set a \<Longrightarrow> (k, y) \<in> set b \<Longrightarrow>
          cv (enc_bval x) (enc_bval y) = Inr (norm_bval x = norm_bval y)"
  shows "compare_raw_document ord cv (enc_doc (map (map_prod id enc_bval) a)) (enc_doc (map (map_prod id enc_bval) b))
    = Inr (norm_bval (BDoc a) = norm_bval (BDoc b))"
proof -
  from wf have d: "distinct (map fst a)" "distinct (map fst b)" by simp_all
  have ct: "cv_total cv (rev (map (map_prod id enc_bval) a)) (map (map_prod id enc_bval) b)"
    by (rule fields_match_bval(2) [OF d]) (rule cv)
  have fm: "fields_match cv (map (map_prod id enc_bval) a) (map (map_prod id enc_bval) b)
      \<longleftrightarrow> norm_bval (BDoc a) = norm_bval (BDoc b)"
    by (rule fields_match_bval(1) [OF d]) (rule cv)
  from compare_raw_elements_stop [OF wf_fields(1) [OF wf(1)] wf_fields(1) [OF wf(2)] ord ct]
  show ?thesis
    by (auto simp only: compare_raw_document_def parse_documents_def doc_elements_bval [OF wf(1)]
        doc_elements_bval [OF wf(2)] fm sum.case prod.case rbind_simps)
qed

lemma compare_raw_value_enc:
  assumes "range_order ord"
  shows "wf_bval x \<Longrightarrow> wf_bval y \<Longrightarrow>
    compare_raw_value ord (enc_bval x) (enc_bval y) = Inr (norm_bval x = norm_bval y)"
proof (induction x arbitrary: y)
  case (Scalar v)
  show ?case
  proof (cases y)
    case (Scalar w)
    with Scalar.prems show ?thesis by (auto simp: compare_raw_value.simps [of ord v])
  next
    case (BDoc b)
    with Scalar.prems show ?thesis by (simp add: compare_raw_value.simps [of ord v] document_value_def)
  next
    case (BArr b)
    with Scalar.prems show ?thesis by (simp add: compare_raw_value.simps [of ord v] array_value_def)
  qed
next
  case (BDoc a)
  show ?case
  proof (cases "\<exists>b. y = BDoc b")
    case True
    then obtain b where y: "y = BDoc b" by blast
    have IH: "compare_raw_value ord (enc_bval u) (enc_bval w) = Inr (norm_bval u = norm_bval w)"
      if "(k, u) \<in> set a" "(k, w) \<in> set b" for k u w
      using BDoc.IH [of "(k, u)" u w] that wf_fields(2) [OF BDoc.prems(1)]
        wf_fields(2) [OF BDoc.prems(2) [unfolded y]] by (auto simp: snds.simps)
    have t: "rv_type (enc_bval (BDoc c)) = TypeEmbeddedDocument" for c by (simp add: document_value_def)
    show ?thesis
      using compare_raw_document_bval [OF BDoc.prems(1) BDoc.prems(2) [unfolded y] assms IH]
        rv_enc_bval(1) [OF BDoc.prems(1)] rv_enc_bval(1) [OF BDoc.prems(2) [unfolded y]]
      by (subst compare_raw_value.simps) (simp add: t y del: enc_bval.simps norm_bval.simps)
  next
    case False
    with enc_bval_type(2) [OF BDoc.prems(2)] have "rv_type (enc_bval y) \<noteq> TypeEmbeddedDocument"
      "norm_bval (BDoc a) \<noteq> norm_bval y" by (cases y; simp)+
    then show ?thesis
      by (subst compare_raw_value.simps) (simp add: document_value_def del: norm_bval.simps)
  qed
next
  case (BArr xs)
  show ?case
  proof (cases "\<exists>b. y = BArr b")
    case True
    then obtain ys where y: "y = BArr ys" by blast
    have IH: "compare_raw_value ord (enc_bval u) (enc_bval w) = Inr (norm_bval u = norm_bval w)"
      if "u \<in> set xs" "w \<in> set ys" for u w
      using BArr.IH [OF that(1), of w] that BArr.prems by (auto simp: y list_all_iff)
    have wf: "\<And>x. x \<in> set xs \<union> set ys \<Longrightarrow> wf_bval x"
      using BArr.prems by (auto simp: y list_all_iff)
    have t: "rv_type (enc_bval (BArr c)) = TypeArray" for c by (simp add: array_value_def)
    have "compare_raw_array (compare_raw_value ord) (enc_array_values (map enc_bval xs))
        (enc_array_values (map enc_bval ys)) = Inr (map norm_bval xs = map norm_bval ys)"
      using array_loop_enc [OF _ wf IH, where n = 0] doc_elements_array [OF BArr.prems(1)]
        doc_elements_array [OF BArr.prems(2) [unfolded y]] map_eq_imp_length_eq [of norm_bval xs norm_bval ys]
      by (auto simp: compare_raw_array_def parse_documents_def)
    then show ?thesis
      using rv_enc_bval(2) [OF BArr.prems(1)] rv_enc_bval(2) [OF BArr.prems(2) [unfolded y]]
      by (subst compare_raw_value.simps) (simp add: t y del: enc_bval.simps)
  next
    case False
    with enc_bval_type(1) [OF BArr.prems(2)] have "rv_type (enc_bval y) \<noteq> TypeArray"
      "norm_bval (BArr xs) \<noteq> norm_bval y" by (cases y; simp)+
    then show ?thesis
      by (subst compare_raw_value.simps) (simp add: array_value_def del: norm_bval.simps)
  qed
qed

lemma enc_bval_doc: "enc_bval (BDoc kvs) = document_value (enc_doc (map_vals enc_bval kvs))"
  by simp

text \<open>C7: The unordered comparison of two encoded documents decides the equality of their normal
  forms (fields sorted by name, at every depth): it never fails on well-formed documents and does
  not depend on the order in which Go ranges over the map.\<close>

theorem unordered_compare_refines:
  assumes "wf_bval (BDoc a)" "wf_bval (BDoc b)" "range_order ord"
  shows "BsonUnorderedCompareRawDocument ord (rv_value (enc_bval (BDoc a))) (rv_value (enc_bval (BDoc b)))
    = Inr (norm_bval (BDoc a) = norm_bval (BDoc b))"
proof -
  have cv: "compare_raw_value ord (enc_bval x) (enc_bval y) = Inr (norm_bval x = norm_bval y)"
    if "(k, x) \<in> set a" "(k, y) \<in> set b" for k x y
    using compare_raw_value_enc [OF assms(3)] wf_fields(2) [OF assms(1) that(1)]
      wf_fields(2) [OF assms(2) that(2)] by blast
  have "compare_raw_document ord (compare_raw_value ord) (enc_doc (map_vals enc_bval a))
      (enc_doc (map_vals enc_bval b)) = Inr (norm_bval (BDoc a) = norm_bval (BDoc b))"
    by (rule compare_raw_document_bval [OF assms]) (rule cv)
  then show ?thesis by (simp only: BsonUnorderedCompareRawDocument_def enc_bval_doc length_values)
qed

definition doc_ab :: "(string \<times> bval) list" where
  "doc_ab = [(''_id'', Scalar (int32_value 1)), (''a'', Scalar (boolean_value True)),
             (''b'', BArr [BDoc [(''x'', Scalar (int32_value 5)), (''y'', Scalar (int32_value 6))]])]"

definition doc_ba :: "(string \<times> bval) list" where
  "doc_ba = [(''b'', BArr [BDoc [(''y'', Scalar (int32_value 6)), (''x'', Scalar (int32_value 5))]]),
             (''a'', Scalar (boolean_value True)), (''_id'', Scalar (int32_value 1))]"

definition doc_bc :: "(string \<times> bval) list" where
  "doc_bc = [(''a'', Scalar (boolean_value False)), (''c'', Scalar (int32_value 9)),
             (''_id'', Scalar (int32_value 1))]"

lemma itoa_digit: "n < 10 \<Longrightarrow> itoa n = [char_of (48 + n)]"
  by (simp add: itoa.simps)

lemma wf_example_docs: "wf_bval (BDoc doc_ab)" "wf_bval (BDoc doc_ba)" "wf_bval (BDoc doc_bc)"
  by (simp_all add: doc_ab_def doc_ba_def doc_bc_def valid_cstring_def small_def length_enc_doc
      enc_array_values_def itoa_digit)

lemma norm_example_docs: "norm_bval (BDoc doc_ab) = norm_bval (BDoc doc_ba)"
  by (simp add: doc_ab_def doc_ba_def insort_key_def less_char_def)

theorem unordered_compare_refines_witness:
  "BsonUnorderedCompareRawDocument rev (rv_value (enc_bval (BDoc doc_ab))) (rv_value (enc_bval (BDoc doc_ba)))
    = Inr True"
  using unordered_compare_refines [OF wf_example_docs(1,2) range_order_id(3)] norm_example_docs by simp

lemma details_of_trees:
  assumes "wf_bval (BDoc a)" "wf_bval (BDoc b)" "range_order ord"
  shows "\<exists>r. BsonUnorderedCompareRawDocumentWithDetails ord
        (rv_value (enc_bval (BDoc a))) (rv_value (enc_bval (BDoc b))) = Inr r
    \<and> (r = None \<longleftrightarrow> norm_bval (BDoc a) = norm_bval (BDoc b))
    \<and> (\<forall>md. r = Some md \<longrightarrow>
          missingFieldOnSrc md = filter (\<lambda>k. k \<notin> fst ` set a) (map fst b)
        \<and> fieldContentsDiffer md = filter (\<lambda>k. k \<in> fst ` set a
              \<and> map_option norm_bval (map_of a k) \<noteq> map_option norm_bval (map_of b k)) (map fst b)
        \<and> distinct (missingFieldOnDst md)
        \<and> set (missingFieldOnDst md) = fst ` set a - fst ` set b)"
proof -
  let ?cv = "compare_raw_value ord" and ?A = "map_vals enc_bval a" and ?B = "map_vals enc_bval b"
  have d: "distinct (map fst a)" "distinct (map fst b)" using assms(1,2) by simp_all
  have cv: "?cv (enc_bval x) (enc_bval y) = Inr (norm_bval x = norm_bval y)"
    if "(k, x) \<in> set a" "(k, y) \<in> set b" for k x y
    using compare_raw_value_enc [OF assms(3)] wf_fields(2) [OF assms(1) that(1)]
      wf_fields(2) [OF assms(2) that(2)] by blast
  have ct: "cv_total ?cv (rev ?A) ?B"
    by (rule fields_match_bval(2) [OF d]) (rule cv)
  have fm: "fields_match ?cv ?A ?B \<longleftrightarrow> norm_bval (BDoc a) = norm_bval (BDoc b)"
    by (rule fields_match_bval(1) [OF d]) (rule cv)
  have dom: "map_of (rev ?A) k = None \<longleftrightarrow> k \<notin> fst ` set a" for k
    by (metis map_of_eq_None_iff map_vals_keys(1) set_rev)
  have ms: "missing_src (rev ?A) ?B = filter (\<lambda>k. k \<notin> fst ` set a) (map fst b)"
    by (simp add: missing_src_def dom filter_map o_def)
  have df: "differing ?cv (rev ?A) ?B = filter (\<lambda>k. k \<in> fst ` set a
      \<and> map_option norm_bval (map_of a k) \<noteq> map_option norm_bval (map_of b k)) (map fst b)"
  proof -
    have "(map_of (rev ?A) k \<noteq> None \<and> \<not> field_ok ?cv (rev ?A) (k, enc_bval y)) \<longleftrightarrow>
        k \<in> fst ` set a \<and> map_option norm_bval (map_of a k) \<noteq> map_option norm_bval (map_of b k)"
      if y: "(k, y) \<in> set b" for k y
    proof (cases "map_of a k")
      case None
      then have "k \<notin> fst ` set a" by (simp add: map_of_eq_None_iff)
      then show ?thesis by (simp only: dom) simp
    next
      case (Some x)
      from map_of_SomeD [OF Some] have x: "(k, x) \<in> set a" .
      have "map_of b k = Some y" using y d(2) by simp
      moreover have "(\<exists>x'. (k, x') \<in> set a \<and> norm_bval x' = norm_bval y) \<longleftrightarrow> norm_bval x = norm_bval y"
        using x eq_key_imp_eq_value [OF d(1) x] by metis
      moreover have "k \<in> fst ` set a" using x by force
      ultimately show ?thesis
        using field_ok_bval [OF d(1) y cv] Some by (simp add: dom)
    qed
    note field = this
    have "filter (\<lambda>kw. map_of (rev ?A) (fst kw) \<noteq> None \<and> \<not> field_ok ?cv (rev ?A) (map_prod id enc_bval kw)) b
        = filter (\<lambda>kw. fst kw \<in> fst ` set a
            \<and> map_option norm_bval (map_of a (fst kw)) \<noteq> map_option norm_bval (map_of b (fst kw))) b"
    proof (intro filter_cong refl)
      fix kw assume "kw \<in> set b"
      then show "(map_of (rev ?A) (fst kw) \<noteq> None \<and> \<not> field_ok ?cv (rev ?A) (map_prod id enc_bval kw)) \<longleftrightarrow>
          fst kw \<in> fst ` set a
            \<and> map_option norm_bval (map_of a (fst kw)) \<noteq> map_option norm_bval (map_of b (fst kw))"
        using field [of "fst kw" "snd kw"] by (cases kw rule: prod.exhaust) (simp only: fst_conv snd_conv map_prod_simp id_apply)
    qed
    then show ?thesis
      by (simp only: differing_def filter_map o_def map_map fst_map_prod id_apply)
  qed
  have "BsonUnorderedCompareRawDocumentWithDetails ord (rv_value (enc_bval (BDoc a))) (rv_value (enc_bval (BDoc b)))
      = compare_raw_elements ord ?cv (enc_elems ?A) (enc_elems ?B) False"
    by (simp only: BsonUnorderedCompareRawDocumentWithDetails_def parse_documents_def enc_bval_doc
        length_values doc_elements_bval [OF assms(1)] doc_elements_bval [OF assms(2)] sum.case
        rbind_simps prod.case)
  with compare_raw_elements_all [OF wf_fields(1) [OF assms(1)] wf_fields(1) [OF assms(2)] assms(3) ct]
  show ?thesis by (simp only: fm ms df map_vals_keys)
qed

lemma details_not_empty:
  assumes "wf_bval (BDoc a)" "wf_bval (BDoc b)" "range_order ord"
    and "BsonUnorderedCompareRawDocumentWithDetails ord
        (rv_value (enc_bval (BDoc a))) (rv_value (enc_bval (BDoc b))) = Inr (Some md)"
  shows "missingFieldOnSrc md @ missingFieldOnDst md @ fieldContentsDiffer md \<noteq> []"
proof
  assume e: "missingFieldOnSrc md @ missingFieldOnDst md @ fieldContentsDiffer md = []"
  from details_of_trees [OF assms(1-3)] assms(4)
  have ne: "norm_bval (BDoc a) \<noteq> norm_bval (BDoc b)"
    and ms: "missingFieldOnSrc md = filter (\<lambda>k. k \<notin> fst ` set a) (map fst b)"
    and df: "fieldContentsDiffer md = filter (\<lambda>k. k \<in> fst ` set a
              \<and> map_option norm_bval (map_of a k) \<noteq> map_option norm_bval (map_of b k)) (map fst b)"
    and md: "set (missingFieldOnDst md) = fst ` set a - fst ` set b" by auto
  have d: "distinct (map fst a)" "distinct (map fst b)" using assms(1,2) by simp_all
  from ms e have "\<forall>k \<in> set (map fst b). k \<in> fst ` set a" by (simp add: filter_empty_conv)
  with md e have k: "fst ` set a = fst ` set b" by auto
  from df e have q: "\<forall>k \<in> fst ` set b. map_option norm_bval (map_of a k) = map_option norm_bval (map_of b k)"
    using k by (auto simp: filter_empty_conv)
  have "\<exists>x. (k, x) \<in> set a \<and> norm_bval x = norm_bval y" if "(k, y) \<in> set b" for k y
  proof -
    from that d(2) have "map_of b k = Some y" by simp
    moreover from that have "k \<in> fst ` set b" by force
    ultimately obtain x where "map_of a k = Some x" "norm_bval x = norm_bval y" using q by fastforce
    then show ?thesis by (blast dest: map_of_SomeD)
  qed
  with k have "set (map_vals norm_bval a) = set (map_vals norm_bval b)"
    by (subst map_vals_set_eq [OF d(1)]) blast
  then have "sort_key fst (map_vals norm_bval a) = sort_key fst (map_vals norm_bval b)"
    using d by (intro sorted_fields_eq_iff [THEN iffD2]) (simp_all only: map_vals_keys)
  with ne show False by simp
qed

text \<open>With details, the comparison returns none exactly when the documents are equal up to field
  order; otherwise it names the destination's fields the source lacks, in the destination's order,
  the common fields whose values differ, and each field the destination lacks once.\<close>

theorem unordered_details_exact:
  assumes "wf_bval (BDoc a)" "wf_bval (BDoc b)" "range_order ord"
  shows "\<exists>r. BsonUnorderedCompareRawDocumentWithDetails ord
        (rv_value (enc_bval (BDoc a))) (rv_value (enc_bval (BDoc b))) = Inr r
    \<and> (r = None \<longleftrightarrow> norm_bval (BDoc a) = norm_bval (BDoc b))
    \<and> (\<forall>md. r = Some md \<longrightarrow>
          missingFieldOnSrc md = filter (\<lambda>k. k \<notin> fst ` set a) (map fst b)
        \<and> fieldContentsDiffer md = filter (\<lambda>k. k \<in> fst ` set a
              \<and> map_option norm_bval (map_of a k) \<noteq> map_option norm_bval (map_of b k)) (map fst b)
        \<and> distinct (missingFieldOnDst md)
        \<and> set (missingFieldOnDst md) = fst ` set a - fst ` set b)"
  using assms by (rule details_of_trees)

theorem unordered_details_exact_witness:
  "\<exists>md. BsonUnorderedCompareRawDocumentWithDetails rev
        (rv_value (enc_bval (BDoc doc_ab))) (rv_value (enc_bval (BDoc doc_bc))) = Inr (Some md)
    \<and> missingFieldOnSrc md = [''c''] \<and> fieldContentsDiffer md = [''a'']
    \<and> set (missingFieldOnDst md) = {''b''}"
proof -
  have ne: "norm_bval (BDoc doc_ab) \<noteq> norm_bval (BDoc doc_bc)"
    by (simp add: doc_ab_def doc_bc_def insort_key_def less_char_def)
  from unordered_details_exact [OF wf_example_docs(1,3) range_order_id(3)] ne show ?thesis
    by (auto simp: doc_ab_def doc_bc_def boolean_value_def)
qed

end
