(* ===== verification/Recheck_Doc.thy ===== *)
theory Recheck_Doc
  imports Mbson
begin

text \<open>
  The documents of the recheck queue (\<open>internal/verifier/recheck/recheck.go\<close>): their hand-written
  marshalling, which computes its length in advance and panics when it was wrong, and their
  unmarshalling field by field. A failed unmarshalling leaves the receiver half written; no caller
  uses it then, so the model returns the error alone.
\<close>

section \<open>Reading a document field by field\<close>

definition unmarshal_fields :: "('s \<Rightarrow> string \<Rightarrow> bytes \<Rightarrow> go_error + 's) \<Rightarrow> 's \<Rightarrow> bytes \<Rightarrow> go_error + 's" where
  "unmarshal_fields field s doc = (case raw_elements doc of (els, err) \<Rightarrow>
     rbind (rfold (\<lambda>s el. rbind (key_bytes_err el) (\<lambda>key. field s (bytes_str key) el)) s els)
       (\<lambda>s'. case err of None \<Rightarrow> Inr s' | Some e \<Rightarrow> Inl e))"

lemma unmarshal_fields_enc:
  assumes "list_all wf_kv kvs" "small kvs"
  shows "unmarshal_fields field s (enc_doc kvs) = rfold (\<lambda>s (k, v). field s k (enc_elem k v)) s kvs"
proof -
  have "rfold (\<lambda>s el. rbind (key_bytes_err el) (\<lambda>key. field s (bytes_str key) el)) s
      (map (\<lambda>(k, v). enc_elem k v) kvs) = rfold (\<lambda>s (k, v). field s k (enc_elem k v)) s kvs"
    using assms(1)
  proof (induction kvs arbitrary: s)
    case (Cons kv kvs)
    then show ?case by (cases kv) (auto simp: wf_kv_def intro: rbind_cong)
  qed simp
  then show ?thesis using assms by (simp add: unmarshal_fields_def raw_elements_enc_doc rbind_def split: sum.splits)
qed

section \<open>Primary keys\<close>

record primary_key =
  SrcDatabaseName :: string
  SrcCollectionName :: string
  DocumentID :: raw_value
  Rand :: u32

definition zero_key :: primary_key where
  "zero_key = \<lparr>SrcDatabaseName = [], SrcCollectionName = [], DocumentID = rv_zero, Rand = 0\<rparr>"

definition pk_fields :: "primary_key \<Rightarrow> (string \<times> raw_value) list" where
  "pk_fields pk = [(''db'', string_value (SrcDatabaseName pk)), (''coll'', string_value (SrcCollectionName pk)),
     (''docID'', DocumentID pk), (''rand'', int32_value (Rand pk))]"

definition marshal_primary_key :: "primary_key \<Rightarrow> go_error + bytes" where
  "marshal_primary_key pk =
     (let variableSize = length (SrcDatabaseName pk) + length (SrcCollectionName pk)
                         + length (rv_value (DocumentID pk));
          expectedLen = 42 + variableSize;
          doc = enc_doc (pk_fields pk)
      in if length doc \<noteq> expectedLen then Inl (Panic ''Unexpected BSON size'') else Inr doc)"

definition unmarshal_primary_key :: "primary_key \<Rightarrow> bytes \<Rightarrow> go_error + primary_key" where
  "unmarshal_primary_key = unmarshal_fields (\<lambda>pk key el.
     if key = ''db'' then
       rbind (unmarshal_element_value cast_string el) (\<lambda>s. Inr (pk\<lparr>SrcDatabaseName := s\<rparr>))
     else if key = ''coll'' then
       rbind (unmarshal_element_value cast_string el) (\<lambda>s. Inr (pk\<lparr>SrcCollectionName := s\<rparr>))
     else if key = ''docID'' then
       rbind (value_err el) (\<lambda>rv. Inr (pk\<lparr>DocumentID := rv\<rparr>))
     else if key = ''rand'' then
       rbind (unmarshal_element_value cast_int32 el) (\<lambda>i. Inr (pk\<lparr>Rand := i\<rparr>))
     else Inr pk)"

definition wf_key :: "primary_key \<Rightarrow> bool" where
  "wf_key pk \<longleftrightarrow> wf_value (DocumentID pk)
     \<and> 42 + length (SrcDatabaseName pk) + length (SrcCollectionName pk)
         + length (rv_value (DocumentID pk)) + 100 < 2 ^ 31"

lemma length_pk_fields:
  "length (enc_doc (pk_fields pk)) =
     42 + length (SrcDatabaseName pk) + length (SrcCollectionName pk) + length (rv_value (DocumentID pk))"
  by (simp add: length_enc_doc pk_fields_def)

lemma marshal_primary_key_eq: "marshal_primary_key pk = Inr (enc_doc (pk_fields pk))"
  by (simp add: marshal_primary_key_def length_pk_fields)

lemma wf_pk_fields: "wf_key pk \<Longrightarrow> list_all wf_kv (pk_fields pk) \<and> small (pk_fields pk)"
  by (simp add: wf_key_def pk_fields_def wf_kv_def valid_cstring_def wf_string_value small_def)

lemma unmarshal_marshal_key:
  assumes "wf_key pk"
  shows "unmarshal_primary_key pk0 (enc_doc (pk_fields pk)) = Inr pk"
proof -
  have "length (SrcDatabaseName pk) + 5 < 2 ^ 31" "length (SrcCollectionName pk) + 5 < 2 ^ 31"
    "wf_value (DocumentID pk)" using assms by (simp_all add: wf_key_def)
  then show ?thesis using wf_pk_fields [OF assms]
    by (simp add: unmarshal_primary_key_def unmarshal_fields_enc pk_fields_def valid_cstring_def
        wf_string_value cast_string_value)
qed

section \<open>Mismatch histories\<close>

record mismatch_history =
  First :: u64
  DurationMS :: u64

definition zero_history :: mismatch_history where
  "zero_history = \<lparr>First = 0, DurationMS = 0\<rparr>"

definition history_fields :: "mismatch_history \<Rightarrow> (string \<times> raw_value) list" where
  "history_fields mt = [(''first'', datetime_value (First mt)), (''durationMS'', int64_value (DurationMS mt))]"

definition marshal_mismatch_history :: "mismatch_history \<Rightarrow> go_error + bytes" where
  "marshal_mismatch_history mt =
     (let expectedLen = 4 + 1 + 5 + 1 + 8 + 1 + 10 + 1 + 8 + 1;
          doc = enc_doc (history_fields mt)
      in if length doc \<noteq> expectedLen then Inl (Panic ''Unexpected BSON size'') else Inr doc)"

definition MismatchHistoryBSONLength :: nat where
  "MismatchHistoryBSONLength =
     (case marshal_mismatch_history zero_history of Inl _ \<Rightarrow> 0 | Inr d \<Rightarrow> length d)"

definition unmarshal_mismatch_history :: "mismatch_history \<Rightarrow> bytes \<Rightarrow> go_error + mismatch_history" where
  "unmarshal_mismatch_history = unmarshal_fields (\<lambda>mt key el.
     if key = ''first'' then
       rbind (unmarshal_element_value cast_datetime el) (\<lambda>d. Inr (mt\<lparr>First := d\<rparr>))
     else if key = ''durationMS'' then
       rbind (unmarshal_element_value cast_int64 el) (\<lambda>i. Inr (mt\<lparr>DurationMS := i\<rparr>))
     else Inl (Err ''unknown BSON field''))"

lemma marshal_mismatch_history_eq: "marshal_mismatch_history mt = Inr (enc_doc (history_fields mt))"
  by (simp add: marshal_mismatch_history_def length_enc_doc history_fields_def Let_def)

lemma length_history: "length (enc_doc (history_fields mt)) = MismatchHistoryBSONLength"
  by (simp add: MismatchHistoryBSONLength_def marshal_mismatch_history_eq length_enc_doc history_fields_def)

lemma wf_history_fields: "list_all wf_kv (history_fields mt) \<and> small (history_fields mt)"
  by (simp add: history_fields_def wf_kv_def valid_cstring_def small_def)

lemma unmarshal_marshal_history: "unmarshal_mismatch_history mt0 (enc_doc (history_fields mt)) = Inr mt"
  using wf_history_fields [of mt]
  by (simp add: unmarshal_mismatch_history_def unmarshal_fields_enc history_fields_def valid_cstring_def)

section \<open>Recheck documents\<close>

record recheck_doc =
  PrimaryKey :: primary_key
  DataSize :: u32
  ChangeOpTime :: "timestamp option"
  FromDst :: bool
  FirstMismatchTime :: "u64 option"

definition zero_doc :: recheck_doc where
  "zero_doc = \<lparr>PrimaryKey = zero_key, DataSize = 0, ChangeOpTime = None, FromDst = False,
     FirstMismatchTime = None\<rparr>"

definition doc_fields :: "recheck_doc \<Rightarrow> bytes \<Rightarrow> (string \<times> raw_value) list" where
  "doc_fields rd keyRaw =
     [(''_id'', document_value keyRaw), (''dataSize'', int32_value (DataSize rd))]
     @ (case ChangeOpTime rd of None \<Rightarrow> [] | Some cot \<Rightarrow> [(''changeOpTime'', timestamp_value cot)])
     @ (if FromDst rd then [(''fromDst'', boolean_value (FromDst rd))] else [])
     @ (case FirstMismatchTime rd of None \<Rightarrow> [] | Some fmt \<Rightarrow> [(''firstMismatchTime'', datetime_value fmt)])"

definition marshal_doc :: "recheck_doc \<Rightarrow> go_error + bytes" where
  "marshal_doc rd = rbind (marshal_primary_key (PrimaryKey rd)) (\<lambda>keyRaw.
     if ChangeOpTime rd = None \<and> FromDst rd
     then Inl (Panic ''Cannot be from destination without an optime'')
     else let expectedLen = 24 + length keyRaw
                + (if ChangeOpTime rd \<noteq> None then 1 + length ''changeOpTime'' + 1 + 8 else 0)
                + (if FromDst rd then 1 + length ''fromDst'' + 1 + 1 else 0)
                + (if FirstMismatchTime rd \<noteq> None then 1 + length ''firstMismatchTime'' + 1 + 8 else 0);
              doc = enc_doc (doc_fields rd keyRaw)
          in if length doc \<noteq> expectedLen then Inl (Panic ''Unexpected BSON size'') else Inr doc)"

definition unmarshal_doc :: "recheck_doc \<Rightarrow> bytes \<Rightarrow> go_error + recheck_doc" where
  "unmarshal_doc = unmarshal_fields (\<lambda>rd key el.
     if key = ''_id'' then
       rbind (unmarshal_element_value cast_raw el) (\<lambda>rvDoc.
       rbind (unmarshal_primary_key (PrimaryKey rd) rvDoc) (\<lambda>pk. Inr (rd\<lparr>PrimaryKey := pk\<rparr>)))
     else if key = ''dataSize'' then
       rbind (unmarshal_element_value cast_int32 el) (\<lambda>i. Inr (rd\<lparr>DataSize := i\<rparr>))
     else if key = ''changeOpTime'' then
       rbind (unmarshal_element_value cast_timestamp el) (\<lambda>ts. Inr (rd\<lparr>ChangeOpTime := Some ts\<rparr>))
     else if key = ''fromDst'' then
       rbind (unmarshal_element_value cast_bool el) (\<lambda>b. Inr (rd\<lparr>FromDst := b\<rparr>))
     else if key = ''firstMismatchTime'' then
       rbind (unmarshal_element_value cast_datetime el) (\<lambda>d. Inr (rd\<lparr>FirstMismatchTime := Some d\<rparr>))
     else Inl (Err ''unrecognized BSON field name''))"

lemma marshal_doc_eq:
  "marshal_doc rd =
     (if ChangeOpTime rd = None \<and> FromDst rd
      then Inl (Panic ''Cannot be from destination without an optime'')
      else Inr (enc_doc (doc_fields rd (enc_doc (pk_fields (PrimaryKey rd))))))"
proof -
  have "length (enc_doc (doc_fields rd d)) = 24 + length d
      + (if ChangeOpTime rd \<noteq> None then 22 else 0) + (if FromDst rd then 10 else 0)
      + (if FirstMismatchTime rd \<noteq> None then 27 else 0)" for d
    by (cases "ChangeOpTime rd"; cases "FirstMismatchTime rd") (auto simp: length_enc_doc doc_fields_def)
  then show ?thesis
    by (cases "ChangeOpTime rd"; cases "FirstMismatchTime rd")
      (simp_all add: marshal_doc_def marshal_primary_key_eq Let_def)
qed

lemma wf_doc_fields:
  assumes "wf_key (PrimaryKey rd)"
  shows "list_all wf_kv (doc_fields rd (enc_doc (pk_fields (PrimaryKey rd))))"
    and "small (doc_fields rd (enc_doc (pk_fields (PrimaryKey rd))))"
proof -
  show "list_all wf_kv (doc_fields rd (enc_doc (pk_fields (PrimaryKey rd))))"
    using wf_document_value [of "pk_fields (PrimaryKey rd)"] wf_pk_fields [OF assms]
    by (auto simp: doc_fields_def wf_kv_def valid_cstring_def split: option.splits)
  show "small (doc_fields rd (enc_doc (pk_fields (PrimaryKey rd))))"
    using assms by (auto simp: small_def doc_fields_def length_pk_fields wf_key_def split: option.splits)
qed

lemma marshal_unmarshal_doc:
  assumes "wf_key (PrimaryKey rd)" "FromDst rd \<longrightarrow> ChangeOpTime rd \<noteq> None"
  shows "\<exists>d. marshal_doc rd = Inr d \<and> unmarshal_doc zero_doc d = Inr rd"
proof -
  note wf = wf_doc_fields [OF assms(1)]
  have k: "small (pk_fields (PrimaryKey rd))" using wf_pk_fields [OF assms(1)] by simp
  have "unmarshal_doc zero_doc (enc_doc (doc_fields rd (enc_doc (pk_fields (PrimaryKey rd))))) = Inr rd"
    using wf(1) cast_raw_enc [OF k] unmarshal_marshal_key [OF assms(1), of zero_key]
    unfolding unmarshal_doc_def unmarshal_fields_enc [OF wf]
    by (cases rd; cases "ChangeOpTime rd"; cases "FirstMismatchTime rd"; cases "FromDst rd")
      (simp_all add: doc_fields_def wf_kv_def zero_doc_def)
  with assms(2) show ?thesis by (auto simp: marshal_doc_eq)
qed

text \<open>C33: A recheck document survives marshalling: for every document but the one the code refuses
  (from the destination without an optime), marshalling succeeds with the length it computed in
  advance and unmarshalling the bytes gives the document back.\<close>

theorem recheck_doc_roundtrip:
  assumes "wf_key (PrimaryKey rd)" "FromDst rd \<longrightarrow> ChangeOpTime rd \<noteq> None"
  shows "\<exists>d. marshal_doc rd = Inr d \<and> unmarshal_doc zero_doc d = Inr rd"
  using assms by (rule marshal_unmarshal_doc)

definition sample_doc :: recheck_doc where
  "sample_doc = \<lparr>PrimaryKey = \<lparr>SrcDatabaseName = ''db'', SrcCollectionName = ''c'',
       DocumentID = string_value ''k'', Rand = 7\<rparr>,
     DataSize = 12, ChangeOpTime = Some \<lparr>ts_T = 5, ts_I = 1\<rparr>, FromDst = True, FirstMismatchTime = Some 9\<rparr>"

theorem recheck_doc_roundtrip_witness:
  "\<exists>d. marshal_doc sample_doc = Inr d \<and> unmarshal_doc zero_doc d = Inr sample_doc"
  by (rule recheck_doc_roundtrip) (simp_all add: sample_doc_def wf_key_def wf_string_value)

text \<open>Marshalling a recheck document panics exactly for a document from the destination that has
  no optime, and otherwise its length is the one computed in advance: 24 bytes, the key, and the
  optional fields' bytes.\<close>

theorem recheck_doc_marshal_total:
  "case marshal_doc rd of
     Inl e \<Rightarrow> is_panic e \<and> FromDst rd \<and> ChangeOpTime rd = None
   | Inr d \<Rightarrow> \<not> (FromDst rd \<and> ChangeOpTime rd = None)
       \<and> length d = 66 + length (SrcDatabaseName (PrimaryKey rd)) + length (SrcCollectionName (PrimaryKey rd))
           + length (rv_value (DocumentID (PrimaryKey rd)))
           + (if ChangeOpTime rd = None then 0 else 22) + (if FromDst rd then 10 else 0)
           + (if FirstMismatchTime rd = None then 0 else 27)"
  by (cases "ChangeOpTime rd"; cases "FirstMismatchTime rd"; cases "FromDst rd")
    (simp_all add: marshal_doc_eq is_panic_def length_enc_doc doc_fields_def length_pk_fields [simplified length_enc_doc])

end
