(* ===== verification/Compare_Result.thy ===== *)
theory Compare_Result
  imports Recheck_Doc Bson_Compare Doc_Key
begin

text \<open>
  The result of a comparison (\<open>internal/verifier/compare/result.go\<close>), its marshalling and what the
  API shows of it; the comparison of one pair of documents (\<open>compareOneDocument\<close> in
  \<open>internal/verifier/compare.go\<close>) and the translation of mismatch details into results
  (\<open>internal/verifier/migration_verifier.go\<close>).
\<close>

section \<open>Results\<close>

record result =
  res_ID :: raw_value
  res_Field :: string
  res_Details :: string
  res_Cluster :: string
  res_NameSpace :: string
  res_MismatchHistory :: mismatch_history
  res_DataSize :: u32
  res_SrcTimestamp :: "timestamp option"
  res_DstTimestamp :: "timestamp option"

definition Missing :: string where "Missing = ''Missing''"
definition Mismatch :: string where "Mismatch = ''Mismatch''"
definition ClusterTarget :: string where "ClusterTarget = ''dstClient''"
definition ClusterSource :: string where "ClusterSource = ''srcClient''"

definition zero_result :: result where
  "zero_result = \<lparr>res_ID = rv_zero, res_Field = [], res_Details = [], res_Cluster = [], res_NameSpace = [],
     res_MismatchHistory = zero_history, res_DataSize = 0, res_SrcTimestamp = None, res_DstTimestamp = None\<rparr>"

definition DocumentIsMissing :: "result \<Rightarrow> bool" where
  "DocumentIsMissing vr \<longleftrightarrow> res_Details vr = Missing \<and> res_Field vr = []"

datatype mismatch_type = MismatchExtra | MismatchMissing | MismatchContent

datatype ns_aspect = AspectExist | AspectType | AspectIndex | AspectSpec | AspectShardKey | AspectReadOnly

record ns_mismatch_info =
  nsm_Type :: mismatch_type
  nsm_Namespace :: string
  nsm_Aspect :: ns_aspect
  nsm_Component :: "string option"
  nsm_Detail :: "string option"

record doc_mismatch_info =
  dm_Type :: mismatch_type
  dm_Namespace :: string
  dm_ID :: raw_value
  dm_Field :: "string option"
  dm_Detail :: "string option"
  dm_DurationMS :: u64

definition if_not_zero :: "string \<Rightarrow> string option" where
  "if_not_zero s = (if s = [] then None else Some s)"

definition missing_type :: "result \<Rightarrow> mismatch_type" where
  "missing_type vr = (if res_Cluster vr = ClusterSource then MismatchExtra else MismatchMissing)"

text \<open>A failed assertion is a panic.\<close>

definition APINSMismatchInfo :: "result \<Rightarrow> go_error + ns_mismatch_info" where
  "APINSMismatchInfo vr =
     (let missing = res_Details vr = Missing;
          info = (\<lambda>aspect component.
            \<lparr>nsm_Type = (if missing then missing_type vr else MismatchContent),
             nsm_Namespace = res_NameSpace vr, nsm_Aspect = aspect, nsm_Component = component,
             nsm_Detail = (if missing then None else if_not_zero (res_Details vr))\<rparr>)
      in if rv_equal (res_ID vr) (string_value ''spec'') then Inr (info AspectSpec (Some (res_Field vr)))
         else if res_Field vr = [] then
           (if missing then Inr (info AspectExist None)
            else Inl (Panic ''exist ns mismatch but have details''))
         else if res_Field vr = ''type'' then Inr (info AspectType None)
         else if res_Field vr = ''shard key'' then Inr (info AspectShardKey None)
         else if res_Field vr = ''index'' then
           (case cast_string (res_ID vr) of
              Inl _ \<Rightarrow> Inl (Panic ''extracting _id'')
            | Inr indexName \<Rightarrow> Inr (info AspectIndex (Some indexName)))
         else if res_Field vr = ''readOnly'' then Inr (info AspectReadOnly None)
         else Inl (Panic ''unexpected mismatch field''))"

definition APIDocMismatchInfo :: "result \<Rightarrow> doc_mismatch_info" where
  "APIDocMismatchInfo vr =
     \<lparr>dm_Type = (if DocumentIsMissing vr then missing_type vr else MismatchContent),
      dm_Namespace = res_NameSpace vr, dm_ID = res_ID vr, dm_Field = if_not_zero (res_Field vr),
      dm_Detail = (if DocumentIsMissing vr then None else Some (res_Details vr)),
      dm_DurationMS = DurationMS (res_MismatchHistory vr)\<rparr>"

section \<open>Marshalling\<close>

definition result_fields :: "result \<Rightarrow> bytes \<Rightarrow> (string \<times> raw_value) list" where
  "result_fields vr history =
     (if \<not> rv_is_zero (res_ID vr) then [(''id'', res_ID vr)] else [])
     @ [(''field'', string_value (res_Field vr)), (''details'', string_value (res_Details vr)),
        (''cluster'', string_value (res_Cluster vr)), (''namespace'', string_value (res_NameSpace vr)),
        (''mismatchHistory'', document_value history)]
     @ (case res_SrcTimestamp vr of None \<Rightarrow> [] | Some ts \<Rightarrow> [(''srctimestamp'', timestamp_value ts)])
     @ (case res_DstTimestamp vr of None \<Rightarrow> [] | Some ts \<Rightarrow> [(''dsttimestamp'', timestamp_value ts)])"

definition result_bson_len :: "result \<Rightarrow> nat" where
  "result_bson_len vr =
     4 + (1 + 5 + 1 + 4 + 1) + (1 + 7 + 1 + 4 + 1) + (1 + 7 + 1 + 4 + 1) + (1 + 9 + 1 + 4 + 1)
     + (1 + 15 + 1 + MismatchHistoryBSONLength) + 1
     + length (res_Field vr) + length (res_Details vr) + length (res_Cluster vr) + length (res_NameSpace vr)
     + (if \<not> rv_is_zero (res_ID vr) then 1 + 2 + 1 + length (rv_value (res_ID vr)) else 0)
     + (if res_SrcTimestamp vr \<noteq> None then 1 + 12 + 1 + 8 else 0)
     + (if res_DstTimestamp vr \<noteq> None then 1 + 12 + 1 + 8 else 0)"

definition marshal_result :: "result \<Rightarrow> go_error + bytes" where
  "marshal_result vr = rbind (marshal_mismatch_history (res_MismatchHistory vr)) (\<lambda>history.
     let body = concat (map (\<lambda>(k, v). enc_elem k v) (result_fields vr history));
         buf = append32 (word_of_nat (result_bson_len vr)) @ body @ [0]
     in if length buf \<noteq> result_bson_len vr then Inl (Panic ''unexpected BSON length'') else Inr buf)"

lemma length_result_fields:
  "body_len (result_fields vr (enc_doc (history_fields h))) + 5 = result_bson_len vr"
  by (cases "res_SrcTimestamp vr"; cases "res_DstTimestamp vr")
    (simp_all add: result_fields_def result_bson_len_def length_history)

lemma marshal_result_eq:
  "marshal_result vr = Inr (enc_doc (result_fields vr (enc_doc (history_fields (res_MismatchHistory vr)))))"
proof -
  let ?f = "result_fields vr (enc_doc (history_fields (res_MismatchHistory vr)))"
  have L: "length (concat (map (\<lambda>(k, v). enc_elem k v) ?f)) + 5 = result_bson_len vr"
    by (simp only: length_concat_enc length_result_fields)
  have "append32 (word_of_nat (result_bson_len vr)) @ concat (map (\<lambda>(k, v). enc_elem k v) ?f) @ [0] = enc_doc ?f"
    by (simp only: enc_doc_def [of ?f] Let_def L)
  moreover have "length (enc_doc ?f) = result_bson_len vr"
    by (simp only: length_enc_doc length_result_fields)
  ultimately show ?thesis
    by (simp only: marshal_result_def marshal_mismatch_history_eq rbind_simps Let_def) simp
qed

section \<open>Comparing one pair of documents\<close>

definition type_name :: "byte \<Rightarrow> string" where
  "type_name t =
     (if t = 0x01 then ''double'' else if t = 0x02 then ''string'' else if t = 0x03 then ''embedded document''
      else if t = 0x04 then ''array'' else if t = 0x05 then ''binary'' else if t = 0x06 then ''undefined''
      else if t = 0x07 then ''objectID'' else if t = 0x08 then ''boolean'' else if t = 0x09 then ''UTC datetime''
      else if t = 0x0A then ''null'' else if t = 0x0B then ''regex'' else if t = 0x0C then ''dbPointer''
      else if t = 0x0D then ''javascript'' else if t = 0x0E then ''symbol'' else if t = 0x0F then ''code with scope''
      else if t = 0x10 then ''32-bit integer'' else if t = 0x11 then ''timestamp''
      else if t = 0x12 then ''64-bit integer'' else if t = 0x13 then ''128-bit decimal''
      else if t = 0x7F then ''max key'' else if t = 0xFF then ''min key'' else ''invalid'')"

text \<open>\<open>Raw.Lookup\<close> gives the zero value for what is not there.\<close>

definition raw_lookup_zero :: "bytes \<Rightarrow> string \<Rightarrow> go_error + raw_value" where
  "raw_lookup_zero doc key = (case lookup_err doc [key] of
       Inr v \<Rightarrow> Inr v | Inl e \<Rightarrow> if is_panic e then Inl e else Inr rv_zero)"

definition missing_field_result :: "string \<Rightarrow> string \<Rightarrow> raw_value \<Rightarrow> string \<Rightarrow> string \<Rightarrow> result" where
  "missing_field_result cluster namespace docID fieldPrefix field =
     zero_result\<lparr>res_Field := fieldPrefix @ field, res_Details := Missing, res_Cluster := cluster,
       res_NameSpace := namespace, res_ID := docID\<rparr>"

definition differing_field_result ::
  "bytes \<Rightarrow> bytes \<Rightarrow> string \<Rightarrow> raw_value \<Rightarrow> string \<Rightarrow> string \<Rightarrow> go_error + result" where
  "differing_field_result src dst namespace docID fieldPrefix field =
     rbind (raw_lookup_zero src field) (\<lambda>sv. rbind (raw_lookup_zero dst field) (\<lambda>dv.
       Inr (zero_result\<lparr>res_Field := fieldPrefix @ field,
         res_Details :=
           (if rv_type sv \<noteq> rv_type dv
            then Mismatch @ '' : type mismatch: src='' @ type_name (rv_type sv) @ '', dst='' @ type_name (rv_type dv)
            else Mismatch),
         res_Cluster := ClusterTarget, res_NameSpace := namespace, res_ID := docID\<rparr>)))"

text \<open>
  \<open>DocumentIsMissing\<close> reads an empty \<open>Field\<close> as the absence of the whole document, so a document that
  only lacks a field named by the empty string is reported as missing.
\<close>

lemma empty_field_reads_as_missing_document:
  "DocumentIsMissing (missing_field_result cluster ns docID [] field) \<longleftrightarrow> field = []"
  by (simp add: DocumentIsMissing_def missing_field_result_def zero_result_def)

fun map_results :: "('a \<Rightarrow> go_error + 'b) \<Rightarrow> 'a list \<Rightarrow> go_error + 'b list" where
  "map_results f [] = Inr []"
| "map_results f (x # xs) = rbind (f x) (\<lambda>y. rbind (map_results f xs) (\<lambda>ys. Inr (y # ys)))"

definition mismatch_results ::
  "mismatch_details \<Rightarrow> bytes \<Rightarrow> bytes \<Rightarrow> string \<Rightarrow> raw_value \<Rightarrow> string \<Rightarrow> go_error + result list" where
  "mismatch_results mismatch src dst namespace docID fieldPrefix =
     rbind (map_results (differing_field_result src dst namespace docID fieldPrefix) (fieldContentsDiffer mismatch))
       (\<lambda>differing. Inr (
          map (missing_field_result ClusterSource namespace docID fieldPrefix) (missingFieldOnSrc mismatch)
        @ map (missing_field_result ClusterTarget namespace docID fieldPrefix) (missingFieldOnDst mismatch)
        @ differing))"

definition compare_one_document ::
  "(string list \<Rightarrow> string list) \<Rightarrow> cmp_method \<Rightarrow> bytes \<Rightarrow> bytes \<Rightarrow> string \<Rightarrow> go_error + result list" where
  "compare_one_document ord m src dst namespace =
     (if src = dst then Inr []
      else rbind (cloned_doc_id_for_comparison m src) (\<lambda>docID.
        if m = ToHashedIndexKey
        then Inr [zero_result\<lparr>res_ID := docID, res_Details := Mismatch, res_Cluster := ClusterTarget,
                    res_NameSpace := namespace\<rparr>]
        else rbind (BsonUnorderedCompareRawDocumentWithDetails ord src dst) (\<lambda>mismatch.
          case mismatch of
            None \<Rightarrow>
              if should_ignore_field_order m then Inr []
              else Inr [zero_result\<lparr>res_ID := docID, res_Details := Mismatch @ '' : only field order differs'',
                          res_Cluster := ClusterTarget, res_NameSpace := namespace,
                          res_DataSize := word_of_nat (max (length src) (length dst))\<rparr>]
          | Some md \<Rightarrow> mismatch_results md src dst namespace docID [])))"

lemma map_results_total:
  assumes "\<And>x. x \<in> set xs \<Longrightarrow> \<exists>y. f x = Inr y \<and> P x y"
  shows "\<exists>ys. map_results f xs = Inr ys \<and> list_all2 P xs ys"
  using assms
proof (induction xs)
  case (Cons x xs)
  from Cons.prems [of x] obtain y where "f x = Inr y" "P x y" by auto
  moreover from Cons obtain ys where "map_results f xs = Inr ys" "list_all2 P xs ys" by auto
  ultimately show ?case by simp
qed simp

lemma lookup_zero_enc:
  "list_all wf_kv kvs \<Longrightarrow> small kvs \<Longrightarrow> \<exists>v. raw_lookup_zero (enc_doc kvs) k = Inr v"
  by (simp add: raw_lookup_zero_def lookup_enc_doc split: option.splits)

definition tree_bytes :: "(string \<times> bval) list \<Rightarrow> bytes" where
  "tree_bytes kvs = rv_value (enc_bval (BDoc kvs))"

lemma tree_bytes_eq: "tree_bytes kvs = enc_doc (map_vals enc_bval kvs)"
  by (simp add: tree_bytes_def)

lemma lookup_tree:
  assumes "wf_bval (BDoc kvs)"
  shows "lookup_err (tree_bytes kvs) [k] =
    (case map_of kvs k of None \<Rightarrow> Inl ElementNotFound | Some x \<Rightarrow> Inr (enc_bval x))"
proof -
  have "map_of (map_vals enc_bval kvs) k = map_option enc_bval (map_of kvs k)"
    by (induction kvs) auto
  with lookup_enc_doc [OF wf_fields(1) [OF assms], of k] assms show ?thesis
    by (simp add: tree_bytes_eq split: option.splits)
qed

lemma append_Nil_id: "(@) [] = id"
  by auto

lemma lookup_zero_tree: "wf_bval (BDoc kvs) \<Longrightarrow> \<exists>v. raw_lookup_zero (tree_bytes kvs) k = Inr v"
  by (simp add: raw_lookup_zero_def lookup_tree split: option.splits)

lemma mismatch_results_fields:
  assumes "wf_bval (BDoc a)" "wf_bval (BDoc b)"
  shows "\<exists>rs. mismatch_results md (tree_bytes a) (tree_bytes b) ns docID pre = Inr rs
    \<and> map res_Field rs = map ((@) pre) (missingFieldOnSrc md @ missingFieldOnDst md @ fieldContentsDiffer md)
    \<and> (\<forall>r \<in> set rs. res_ID r = docID \<and> res_NameSpace r = ns)"
proof -
  have "\<exists>r. differing_field_result (tree_bytes a) (tree_bytes b) ns docID pre f = Inr r
      \<and> (res_Field r = pre @ f \<and> res_ID r = docID \<and> res_NameSpace r = ns)" for f
    using lookup_zero_tree [OF assms(1), of f] lookup_zero_tree [OF assms(2), of f]
    by (auto simp: differing_field_result_def)
  then obtain ys where ys: "map_results (differing_field_result (tree_bytes a) (tree_bytes b) ns docID pre)
        (fieldContentsDiffer md) = Inr ys"
    "list_all2 (\<lambda>f r. res_Field r = pre @ f \<and> res_ID r = docID \<and> res_NameSpace r = ns) (fieldContentsDiffer md) ys"
    using map_results_total [of "fieldContentsDiffer md" _
        "\<lambda>f r. res_Field r = pre @ f \<and> res_ID r = docID \<and> res_NameSpace r = ns"] by blast
  from ys(2) have "map res_Field ys = map ((@) pre) (fieldContentsDiffer md)
      \<and> (\<forall>r \<in> set ys. res_ID r = docID \<and> res_NameSpace r = ns)"
    by (induction rule: list_all2_induct) auto
  then show ?thesis
    by (auto simp: mismatch_results_def ys(1) missing_field_result_def zero_result_def)
qed

lemma compare_one_document_trees:
  assumes "wf_bval (BDoc a)" "wf_bval (BDoc b)" "range_order ord"
    and "map_of a ''_id'' = Some i" "compares_full_documents m"
  shows "\<exists>rs. compare_one_document ord m (tree_bytes a) (tree_bytes b) ns = Inr rs
    \<and> (rs = [] \<longleftrightarrow> tree_bytes a = tree_bytes b \<or>
          should_ignore_field_order m \<and> norm_bval (BDoc a) = norm_bval (BDoc b))
    \<and> (\<forall>r \<in> set rs. res_ID r = enc_bval i \<and> res_NameSpace r = ns)
    \<and> (norm_bval (BDoc a) \<noteq> norm_bval (BDoc b) \<longrightarrow> res_Field ` set rs \<subseteq> fst ` set a \<union> fst ` set b)"
proof (cases "tree_bytes a = tree_bytes b")
  case True
  then show ?thesis by (simp add: compare_one_document_def)
next
  case False
  from assms(1,4,5) have docid: "cloned_doc_id_for_comparison m (tree_bytes a) = Inr (enc_bval i)"
    and m: "m \<noteq> ToHashedIndexKey"
    by (auto simp: cloned_doc_id_for_comparison_def compares_full_documents_def lookup_tree)
  from details_of_trees [OF assms(1-3), folded tree_bytes_def] obtain r where
    r: "BsonUnorderedCompareRawDocumentWithDetails ord (tree_bytes a) (tree_bytes b) = Inr r"
    and none: "r = None \<longleftrightarrow> norm_bval (BDoc a) = norm_bval (BDoc b)"
    and det: "\<And>md. r = Some md \<Longrightarrow> missingFieldOnSrc md = filter (\<lambda>k. k \<notin> fst ` set a) (map fst b)
        \<and> fieldContentsDiffer md = filter (\<lambda>k. k \<in> fst ` set a
              \<and> map_option norm_bval (map_of a k) \<noteq> map_option norm_bval (map_of b k)) (map fst b)
        \<and> distinct (missingFieldOnDst md) \<and> set (missingFieldOnDst md) = fst ` set a - fst ` set b"
    by (elim exE conjE) (rule that, blast+)
  have some: "set (missingFieldOnSrc md @ missingFieldOnDst md @ fieldContentsDiffer md)
        \<subseteq> fst ` set a \<union> fst ` set b" if "r = Some md" for md
    using det [OF that] by auto
  show ?thesis
  proof (cases r)
    case None
    with False docid m r none show ?thesis
      by (simp add: compare_one_document_def zero_result_def del: norm_bval.simps)
  next
    case (Some md)
    from mismatch_results_fields [OF assms(1,2), of md ns "enc_bval i" "[]"] obtain rs where
      rs: "mismatch_results md (tree_bytes a) (tree_bytes b) ns (enc_bval i) [] = Inr rs"
        "map res_Field rs = missingFieldOnSrc md @ missingFieldOnDst md @ fieldContentsDiffer md"
        "\<forall>r \<in> set rs. res_ID r = enc_bval i \<and> res_NameSpace r = ns"
      by (auto simp: append_Nil_id)
    have "missingFieldOnSrc md @ missingFieldOnDst md @ fieldContentsDiffer md \<noteq> []"
      by (rule details_not_empty [OF assms(1-3), folded tree_bytes_def]) (simp only: r Some)
    with rs(2) have "rs \<noteq> []" by force
    moreover have "res_Field ` set rs \<subseteq> fst ` set a \<union> fst ` set b"
      using some [OF Some] unfolding rs(2) [symmetric] set_map .
    ultimately show ?thesis using False docid m r none Some rs
      by (simp add: compare_one_document_def del: norm_bval.simps)
  qed
qed

text \<open>The verdict on one pair of documents under a full comparison: no result exactly when the
  bytes are equal or, when field order is ignored, when the documents are equal up to field order;
  every result carries the source document's _id and the namespace; and the results name only fields,
  unless nothing but the field order differs.\<close>

theorem compare_one_document_verdict:
  assumes "wf_bval (BDoc a)" "wf_bval (BDoc b)" "range_order ord"
    and "map_of a ''_id'' = Some i" "compares_full_documents m"
  shows "\<exists>rs. compare_one_document ord m (tree_bytes a) (tree_bytes b) ns = Inr rs
    \<and> (rs = [] \<longleftrightarrow> tree_bytes a = tree_bytes b \<or>
          should_ignore_field_order m \<and> norm_bval (BDoc a) = norm_bval (BDoc b))
    \<and> (\<forall>r \<in> set rs. res_ID r = enc_bval i \<and> res_NameSpace r = ns)
    \<and> (norm_bval (BDoc a) \<noteq> norm_bval (BDoc b) \<longrightarrow> res_Field ` set rs \<subseteq> fst ` set a \<union> fst ` set b)"
  using assms by (rule compare_one_document_trees)

theorem compare_one_document_verdict_witness:
  "compare_one_document rev IgnoreOrder (tree_bytes doc_ab) (tree_bytes doc_ba) ''db.c'' = Inr []"
  using compare_one_document_verdict [OF wf_example_docs(1,2) range_order_id(3), of "Scalar (int32_value 1)" IgnoreOrder "''db.c''"]
    norm_example_docs
  by (auto simp: compares_full_documents_def should_ignore_field_order_def doc_ab_def)

text \<open>Marshalling a comparison result never trips its length assertion, and the data size is the one
  field it leaves out: two results that differ only there have the same bytes.\<close>

theorem marshal_result_total:
  "\<exists>d. marshal_result vr = Inr d \<and> length d = result_bson_len vr
     \<and> (\<forall>n. marshal_result (vr\<lparr>res_DataSize := n\<rparr>) = Inr d)"
proof -
  have "result_fields (vr\<lparr>res_DataSize := n\<rparr>) h = result_fields vr h" for n h
    by (simp add: result_fields_def)
  moreover have "res_MismatchHistory (vr\<lparr>res_DataSize := n\<rparr>) = res_MismatchHistory vr" for n by simp
  moreover have "length (enc_doc (result_fields vr (enc_doc (history_fields h)))) = result_bson_len vr" for h
    by (simp only: length_enc_doc length_result_fields)
  ultimately show ?thesis by (simp only: marshal_result_eq) blast
qed

end
