(* ===== verification/Comparator.thy ===== *)
theory Comparator
  imports Compare_Result "HOL-Library.Multiset"
begin

text \<open>
  The comparator of one task (\<open>internal/verifier/comparator.go\<close>, \<open>compare_lookup.go\<close>,
  \<open>compare_key.go\<close> and \<open>run\<close> in \<open>compare.go\<close>): it reads batches from a source and a destination
  channel, pairs the documents by their keys through two caches, and flushes mismatches into
  reports. A channel is the finite list of the messages sent before it is closed; stalls and
  cancellation, which end the run with an error, are not modelled. Reports sent are collected in
  the state. Everything the code takes from outside (the order of map iteration, the clock, the
  task) is a parameter record.
\<close>

section \<open>State and environment\<close>

record doc_with_ts =
  dwt_Doc :: bytes
  dwt_TS :: timestamp
  fromPool :: bool

definition put_in_pool :: "doc_with_ts \<Rightarrow> go_error + unit" where
  "put_in_pool d = (if fromPool d then Inr () else Inl (Panic ''BackToPool() called on non-pool''))"

record to_comparator_msg =
  DocsWithTS :: "doc_with_ts list"
  msg_type :: byte

abbreviation MsgTypeDocs :: byte where "MsgTypeDocs \<equiv> 0"
abbreviation MsgTypePadding :: byte where "MsgTypePadding \<equiv> 1"
abbreviation MsgTypeCursorDone :: byte where "MsgTypeCursorDone \<equiv> 2"

definition ToComparatorBatchSize :: nat where "ToComparatorBatchSize = 100"
definition ToComparatorByteLimit :: nat where "ToComparatorByteLimit = 32 * 2 ^ 20"
definition comparatorMaxProblemsLen :: nat where "comparatorMaxProblemsLen = 100000"
definition comparatorMaxVariableBytes :: u64 where "comparatorMaxVariableBytes = 30 * 2 ^ 20"
definition comparisonHistoryThreshold :: u64 where "comparisonHistoryThreshold = 500"

record comparator_env =
  env_method :: cmp_method
  env_namespace :: string
  env_keyFields :: "string list"
  env_Ids :: "raw_value list"
  env_FirstMismatchTime :: "u32 \<Rightarrow> u64"
  env_now :: int
  env_fieldOrder :: "string list \<Rightarrow> string list"
  env_cacheOrder :: "doc_with_ts list \<Rightarrow> doc_with_ts list"

record doc_compare_report =
  rep_Problems :: "result list"
  rep_DocCount :: u64
  rep_ByteCount :: u64

record comparator =
  srcClosed :: bool
  dstClosed :: bool
  srcCache :: "(bytes \<times> doc_with_ts) list"
  dstCache :: "(bytes \<times> doc_with_ts) list"
  problems :: "result list"
  srcDocCount :: u64
  srcByteCount :: u64
  curHistoryDocCount :: u64
  curHistoryByteCount :: u64
  cachedVariableBytes :: u64
  docsComparedHistory :: "u64 list"
  bytesComparedHistory :: "u64 list"
  reports :: "doc_compare_report list"

definition new_comparator :: comparator where
  "new_comparator = \<lparr>srcClosed = False, dstClosed = False, srcCache = [], dstCache = [], problems = [],
     srcDocCount = 0, srcByteCount = 0, curHistoryDocCount = 0, curHistoryByteCount = 0,
     cachedVariableBytes = 0, docsComparedHistory = [], bytesComparedHistory = [], reports = []\<rparr>"

definition still_reading :: "comparator \<Rightarrow> bool" where
  "still_reading c \<longleftrightarrow> \<not> srcClosed c \<or> \<not> dstClosed c"

section \<open>First-mismatch times\<close>

definition create_id_to_first_mismatch_time :: "comparator_env \<Rightarrow> (bytes \<times> u64) list" where
  "create_id_to_first_mismatch_time env =
     foldl (\<lambda>m (i, docID). let firstTime = env_FirstMismatchTime env (word_of_nat i)
                        in if firstTime \<noteq> 0 then AList.update (rv_to_map_key [] docID) firstTime m else m)
       [] (enumerate 0 (env_Ids env))"

definition first_mismatch_time :: "comparator_env \<Rightarrow> bytes \<Rightarrow> go_error + u64 option" where
  "first_mismatch_time env doc = (case raw_doc_id_for_comparison (env_method env) doc of
       Inl e \<Rightarrow> Inl (Panic ''RawDocIDForComparison'')
     | Inr docID \<Rightarrow> Inr (case map_of (create_id_to_first_mismatch_time env) (rv_to_map_key [] docID) of
           None \<Rightarrow> None | Some t \<Rightarrow> if t = 0 then None else Some t))"

text \<open>
  \<open>time.Since\<close> saturates at the int64 range of nanoseconds and \<open>Milliseconds\<close> truncates towards
  zero. The clock is read once per run here.
\<close>

definition trunc_div :: "int \<Rightarrow> int \<Rightarrow> int" where
  "trunc_div a b = (if a < 0 then - ((- a) div b) else a div b)"

definition create_mismatch_times :: "int \<Rightarrow> u64 option \<Rightarrow> mismatch_history" where
  "create_mismatch_times now firstDateTime = (case firstDateTime of
       Some fdt \<Rightarrow>
         (let since = max (- (2 ^ 63)) (min (2 ^ 63 - 1) (now - sint fdt * 1000000))
          in \<lparr>First = fdt, DurationMS = word_of_int (trunc_div since 1000000)\<rparr>)
     | None \<Rightarrow> \<lparr>First = word_of_int (now div 1000000), DurationMS = 0\<rparr>)"

section \<open>Metrics\<close>

definition publish_history_counts :: "comparator \<Rightarrow> comparator" where
  "publish_history_counts c = c\<lparr>docsComparedHistory := docsComparedHistory c @ [curHistoryDocCount c],
     bytesComparedHistory := bytesComparedHistory c @ [curHistoryByteCount c],
     curHistoryDocCount := 0, curHistoryByteCount := 0\<rparr>"

definition record_src_doc :: "comparator_env \<Rightarrow> comparator \<Rightarrow> doc_with_ts \<Rightarrow> go_error + comparator" where
  "record_src_doc env c d = rbind (doc_size (env_method env) (dwt_Doc d)) (\<lambda>docSize.
     let c' = c\<lparr>srcByteCount := srcByteCount c + docSize,
                curHistoryByteCount := curHistoryByteCount c + docSize\<rparr>
     in Inr (if curHistoryDocCount c' \<ge> comparisonHistoryThreshold then publish_history_counts c' else c'))"

definition record_src_metrics :: "comparator_env \<Rightarrow> comparator \<Rightarrow> doc_with_ts list \<Rightarrow> go_error + comparator" where
  "record_src_metrics env c docs =
     rfold (record_src_doc env)
       (c\<lparr>srcDocCount := srcDocCount c + word_of_nat (length docs),
          curHistoryDocCount := curHistoryDocCount c + word_of_nat (length docs)\<rparr>) docs"

section \<open>Reading the channels\<close>

text \<open>The goroutine that reads the source: one message, or the discovery that the channel is closed.\<close>

fun read_src :: "comparator_env \<Rightarrow> comparator \<Rightarrow> to_comparator_msg list
     \<Rightarrow> go_error + comparator \<times> doc_with_ts list \<times> to_comparator_msg list" where
  "read_src env c [] = Inr (c\<lparr>srcClosed := True\<rparr>, [], [])"
| "read_src env c (m # ms) =
     (if msg_type m \<noteq> MsgTypeDocs then Inl (Panic ''source reader must send only docs'')
      else if length (DocsWithTS m) > ToComparatorBatchSize then Inl (Panic ''src reader sent too many docs'')
      else rbind (record_src_metrics env c (DocsWithTS m)) (\<lambda>c'. Inr (c', DocsWithTS m, ms)))"

text \<open>The destination's goroutine reads on after a cursor-done message.\<close>

fun read_dst :: "comparator \<Rightarrow> bool \<Rightarrow> to_comparator_msg list
     \<Rightarrow> go_error + comparator \<times> doc_with_ts list \<times> bool \<times> to_comparator_msg list" where
  "read_dst c cursorDone [] = Inr (c\<lparr>dstClosed := True\<rparr>, [], cursorDone, [])"
| "read_dst c cursorDone (m # ms) =
     (if msg_type m = MsgTypePadding then
        (if DocsWithTS m \<noteq> [] then Inl (Panic ''expect no documents'') else Inr (c, [], cursorDone, ms))
      else if msg_type m = MsgTypeDocs then
        (if length (DocsWithTS m) > ToComparatorBatchSize then Inl (Panic ''dst reader sent too many docs'')
         else Inr (c, DocsWithTS m, cursorDone, ms))
      else if msg_type m = MsgTypeCursorDone then
        (if DocsWithTS m \<noteq> [] then Inl (Panic ''expect no documents'') else read_dst c True ms)
      else Inl (Panic ''unknown msg type''))"

definition read_batches :: "comparator_env \<Rightarrow> comparator \<Rightarrow> to_comparator_msg list \<Rightarrow> to_comparator_msg list
     \<Rightarrow> go_error + comparator \<times> doc_with_ts list \<times> doc_with_ts list \<times> bool
                    \<times> to_comparator_msg list \<times> to_comparator_msg list" where
  "read_batches env c srcs dsts =
     rbind (if \<not> srcClosed c then read_src env c srcs else Inr (c, [], srcs)) (\<lambda>(c', srcBatch, srcs').
     rbind (if \<not> dstClosed c then read_dst c' False dsts else Inr (c', [], False, dsts))
       (\<lambda>(c'', dstBatch, dstCursorDone, dsts'). Inr (c'', srcBatch, dstBatch, dstCursorDone, srcs', dsts')))"

section \<open>Pairing documents\<close>

definition doc_map_key :: "comparator_env \<Rightarrow> doc_with_ts \<Rightarrow> go_error + bytes" where
  "doc_map_key env d = (case get_doc_key_values (env_method env) [] (dwt_Doc d) (env_keyFields env) of
       Inl e \<Rightarrow> Inl e | Inr vs \<Rightarrow> Inr (get_map_key [] vs))"

text \<open>The mismatches of a pair, stamped with their times; none is looked up when there is none.\<close>

definition pair_problems :: "comparator_env \<Rightarrow> doc_with_ts \<Rightarrow> doc_with_ts \<Rightarrow> go_error + result list" where
  "pair_problems env srcDoc dstDoc =
     rbind (compare_one_document (env_fieldOrder env) (env_method env) (dwt_Doc srcDoc) (dwt_Doc dstDoc)
              (env_namespace env)) (\<lambda>mismatches.
       if mismatches = [] then Inr []
       else rbind (first_mismatch_time env (dwt_Doc srcDoc)) (\<lambda>fmt.
         Inr (map (\<lambda>r. r\<lparr>res_MismatchHistory := create_mismatch_times (env_now env) fmt,
                         res_SrcTimestamp := Some (dwt_TS srcDoc),
                         res_DstTimestamp := Some (dwt_TS dstDoc)\<rparr>) mismatches)))"

text \<open>Both documents go back to the pool however the comparison ends; that panics before any error shows.\<close>

definition with_pools :: "doc_with_ts \<Rightarrow> doc_with_ts \<Rightarrow> go_error + 'a \<Rightarrow> go_error + 'a" where
  "with_pools cur their r =
     rbind (put_in_pool their) (\<lambda>_. rbind (put_in_pool cur) (\<lambda>_. r))"

definition process_single_doc :: "comparator_env \<Rightarrow> comparator \<Rightarrow> bool \<times> doc_with_ts \<Rightarrow> go_error + comparator" where
  "process_single_doc env c = (\<lambda>(isSrc, cur).
     rbind (doc_map_key env cur) (\<lambda>mapKey.
       case map_of (if isSrc then dstCache c else srcCache c) mapKey of
         None \<Rightarrow>
           Inr ((if isSrc then c\<lparr>srcCache := AList.update mapKey cur (srcCache c)\<rparr>
                 else c\<lparr>dstCache := AList.update mapKey cur (dstCache c)\<rparr>)
                \<lparr>cachedVariableBytes := cachedVariableBytes c + word_of_nat (length mapKey + length (dwt_Doc cur))\<rparr>)
       | Some their \<Rightarrow>
           with_pools cur their
             (let c' = (if isSrc then c\<lparr>dstCache := AList.delete mapKey (dstCache c)\<rparr>
                        else c\<lparr>srcCache := AList.delete mapKey (srcCache c)\<rparr>)
                       \<lparr>cachedVariableBytes :=
                          cachedVariableBytes c - word_of_nat (length mapKey + length (dwt_Doc their))\<rparr>
              in rbind (if isSrc then pair_problems env cur their else pair_problems env their cur) (\<lambda>mismatches.
                   Inr (c'\<lparr>problems := problems c' @ mismatches,
                          cachedVariableBytes := cachedVariableBytes c'
                            + sum_list (map (\<lambda>r. word_of_nat (length (rv_value (res_ID r)))) mismatches)\<rparr>)))))"

text \<open>The interleaving of the two batches, one document of each in turn.\<close>

function process_batches :: "comparator_env \<Rightarrow> comparator \<Rightarrow> doc_with_ts list \<Rightarrow> doc_with_ts list
     \<Rightarrow> go_error + comparator" where
  "process_batches env c srcBatch dstBatch =
     (if length srcBatch + length dstBatch > 0
      then rbind (case srcBatch of [] \<Rightarrow> Inr c | d # _ \<Rightarrow> process_single_doc env c (True, d)) (\<lambda>c'.
           rbind (case dstBatch of [] \<Rightarrow> Inr c' | d # _ \<Rightarrow> process_single_doc env c' (False, d)) (\<lambda>c''.
             process_batches env c'' (tl srcBatch) (tl dstBatch)))
      else Inr c)"
  by pat_completeness auto
termination
  by (relation "measure (\<lambda>(env, c, s, d). length s + length d)") (auto simp: neq_Nil_conv)

declare process_batches.simps [simp del]

section \<open>Flushing\<close>

definition missing_doc_result :: "comparator_env \<Rightarrow> bool \<Rightarrow> doc_with_ts \<Rightarrow> go_error + result" where
  "missing_doc_result env isSrc d =
     rbind (first_mismatch_time env (dwt_Doc d)) (\<lambda>fmt.
       case cloned_doc_id_for_comparison (env_method env) (dwt_Doc d) of
         Inl e \<Rightarrow> Inl (Panic ''ClonedDocIDForComparison'')
       | Inr docID \<Rightarrow>
           rbind (put_in_pool d) (\<lambda>_.
             Inr (zero_result\<lparr>res_ID := docID, res_Details := Missing,
                  res_Cluster := (if isSrc then ClusterTarget else ClusterSource),
                  res_NameSpace := env_namespace env, res_DataSize := word_of_nat (length (dwt_Doc d)),
                  res_SrcTimestamp := (if isSrc then Some (dwt_TS d) else None),
                  res_DstTimestamp := (if isSrc then None else Some (dwt_TS d)),
                  res_MismatchHistory := create_mismatch_times (env_now env) fmt\<rparr>)))"

definition count_unpaired_docs :: "comparator \<Rightarrow> nat" where
  "count_unpaired_docs c = length (srcCache c) + length (dstCache c)"

definition sweep_missing_docs :: "comparator_env \<Rightarrow> comparator \<Rightarrow> go_error + comparator" where
  "sweep_missing_docs env c =
     rbind (map_results (missing_doc_result env True) (env_cacheOrder env (map snd (srcCache c)))) (\<lambda>srcMissing.
     rbind (map_results (missing_doc_result env False) (env_cacheOrder env (map snd (dstCache c)))) (\<lambda>dstMissing.
       Inr (c\<lparr>problems := problems c @ srcMissing @ dstMissing\<rparr>)))"

definition flush :: "comparator_env \<Rightarrow> comparator \<Rightarrow> go_error + comparator" where
  "flush env c = rbind (sweep_missing_docs env c) (\<lambda>c'.
     Inr (publish_history_counts
       (c'\<lparr>reports := reports c' @ [\<lparr>rep_Problems = problems c', rep_DocCount = srcDocCount c',
                                      rep_ByteCount = srcByteCount c'\<rparr>],
           problems := [], srcCache := [], dstCache := [], srcDocCount := 0, srcByteCount := 0,
           cachedVariableBytes := 0\<rparr>)))"

definition why_flush :: "comparator \<Rightarrow> string option" where
  "why_flush c =
     (if count_unpaired_docs c + length (problems c) \<ge> comparatorMaxProblemsLen then Some ''problems count''
      else if cachedVariableBytes c \<ge> comparatorMaxVariableBytes then Some ''memory usage''
      else None)"

definition flush_if_needed :: "comparator_env \<Rightarrow> comparator \<Rightarrow> go_error + comparator" where
  "flush_if_needed env c = (if why_flush c = None then Inr c else flush env c)"

subsection \<open>What the steps leave alone\<close>

lemma publish_closed [simp]:
  "srcClosed (publish_history_counts c) = srcClosed c" "dstClosed (publish_history_counts c) = dstClosed c"
  by (simp_all add: publish_history_counts_def)

lemma record_src_metrics_closed:
  "record_src_metrics env c docs = Inr c' \<Longrightarrow> srcClosed c' = srcClosed c \<and> dstClosed c' = dstClosed c"
  unfolding record_src_metrics_def
  by (erule rfold_inv [where P = "\<lambda>c'. srcClosed c' = srcClosed c \<and> dstClosed c' = dstClosed c"])
    (auto simp: record_src_doc_def rbind_eq_Inr Let_def split: if_splits)

lemma with_pools_Inr: "with_pools a b r = Inr x \<longleftrightarrow> fromPool a \<and> fromPool b \<and> r = Inr x"
  by (auto simp: with_pools_def put_in_pool_def)

lemma process_single_doc_closed:
  "process_single_doc env c d = Inr c' \<Longrightarrow> srcClosed c' = srcClosed c \<and> dstClosed c' = dstClosed c"
  by (auto simp: process_single_doc_def rbind_eq_Inr with_pools_Inr Let_def split: option.splits prod.splits if_splits)

lemma process_batches_closed:
  "process_batches env c s d = Inr c' \<Longrightarrow> srcClosed c' = srcClosed c \<and> dstClosed c' = dstClosed c"
proof (induction env c s d rule: process_batches.induct)
  case (1 env c s d)
  show ?case
  proof (cases "length s + length d > 0")
    case True
    with "1.prems" obtain c1 c2 where
      c1: "(case s of [] \<Rightarrow> Inr c | d # _ \<Rightarrow> process_single_doc env c (True, d)) = Inr c1" and
      c2: "(case d of [] \<Rightarrow> Inr c1 | d # _ \<Rightarrow> process_single_doc env c1 (False, d)) = Inr c2" and
      r: "process_batches env c2 (tl s) (tl d) = Inr c'"
      by (subst (asm) process_batches.simps) (auto simp: rbind_eq_Inr)
    have "srcClosed c1 = srcClosed c \<and> dstClosed c1 = dstClosed c"
      using c1 by (cases s) (auto dest: process_single_doc_closed)
    moreover have "srcClosed c2 = srcClosed c1 \<and> dstClosed c2 = dstClosed c1"
      using c2 by (cases d) (auto dest: process_single_doc_closed)
    ultimately show ?thesis using "1.IH" [OF True c1 c2 r] by simp
  next
    case False
    with "1.prems" show ?thesis by (subst (asm) process_batches.simps) simp
  qed
qed

lemma flush_closed: "flush env c = Inr c' \<Longrightarrow> srcClosed c' = srcClosed c \<and> dstClosed c' = dstClosed c"
  by (auto simp: flush_def sweep_missing_docs_def rbind_eq_Inr)

lemma flush_if_needed_closed:
  "flush_if_needed env c = Inr c' \<Longrightarrow> srcClosed c' = srcClosed c \<and> dstClosed c' = dstClosed c"
  by (auto simp: flush_if_needed_def dest: flush_closed split: if_splits)

section \<open>The run\<close>

text \<open>
  Every pass over the loop consumes a message of an open channel or learns that it is closed.
\<close>

definition pending :: "comparator \<Rightarrow> to_comparator_msg list \<Rightarrow> to_comparator_msg list \<Rightarrow> nat" where
  "pending c srcs dsts = (if srcClosed c then 0 else 1 + length srcs) + (if dstClosed c then 0 else 1 + length dsts)"

lemma read_src_pending:
  assumes "read_src env c srcs = Inr (c', docs, srcs')" "\<not> srcClosed c"
  shows "dstClosed c' = dstClosed c \<and>
    (if srcClosed c' then 0 else 1 + length srcs') < 1 + length srcs"
  using assms by (cases srcs) (auto simp: rbind_eq_Inr dest!: record_src_metrics_closed split: if_splits)

lemma read_dst_pending:
  "read_dst c done dsts = Inr (c', docs, done', dsts') \<Longrightarrow> \<not> dstClosed c \<Longrightarrow>
     srcClosed c' = srcClosed c \<and> (if dstClosed c' then 0 else 1 + length dsts') < 1 + length dsts"
  by (induction c "done" dsts rule: read_dst.induct) (auto split: if_splits)

lemma read_batches_pending:
  assumes "still_reading c" "read_batches env c srcs dsts = Inr (c', sb, db, done, srcs', dsts')"
  shows "pending c' srcs' dsts' < pending c srcs dsts"
proof -
  from assms(2) obtain c1 where
    s: "(if \<not> srcClosed c then read_src env c srcs else Inr (c, [], srcs)) = Inr (c1, sb, srcs')" and
    d: "(if \<not> dstClosed c then read_dst c1 False dsts else Inr (c1, [], False, dsts)) = Inr (c', db, done, dsts')"
    by (auto simp: read_batches_def rbind_eq_Inr)
  show ?thesis
  proof (cases "srcClosed c")
    case True
    with s have "c1 = c" "srcs' = srcs" by simp_all
    with True assms(1) d read_dst_pending [of c False dsts c' db "done" dsts'] show ?thesis
      by (auto simp: pending_def still_reading_def)
  next
    case False
    with s read_src_pending [of env c srcs c1 sb srcs'] have
      *: "dstClosed c1 = dstClosed c" "(if srcClosed c1 then 0 else 1 + length srcs') < 1 + length srcs" by simp_all
    with False d read_dst_pending [of c1 False dsts c' db "done" dsts'] show ?thesis
      by (cases "dstClosed c") (auto simp: pending_def split: if_splits)
  qed
qed

function run_loop :: "comparator_env \<Rightarrow> comparator \<Rightarrow> to_comparator_msg list \<Rightarrow> to_comparator_msg list
     \<Rightarrow> go_error + comparator" where
  "run_loop env c srcs dsts =
     (if still_reading c
      then (case read_batches env c srcs dsts of
              Inl e \<Rightarrow> Inl e
            | Inr (c1, srcBatch, dstBatch, dstCursorDone, srcs', dsts') \<Rightarrow>
                (case rbind (if dstCursorDone then flush_if_needed env c1 else Inr c1)
                        (\<lambda>c2. process_batches env c2 srcBatch dstBatch) of
                   Inl e \<Rightarrow> Inl e
                 | Inr c3 \<Rightarrow> run_loop env c3 srcs' dsts'))
      else flush env c)"
  by pat_completeness auto
termination
proof (relation "measure (\<lambda>(env, c, srcs, dsts). pending c srcs dsts)")
  fix env c srcs dsts x1 c1 y srcBatch z dstBatch w dstCursorDone v srcs' dsts' c3
  assume a: "still_reading c" "read_batches env c srcs dsts = Inr x1" "(c1, y) = x1" "(srcBatch, z) = y"
    "(dstBatch, w) = z" "(dstCursorDone, v) = w" "(srcs', dsts') = v"
    and b: "rbind (if dstCursorDone then flush_if_needed env c1 else Inr c1)
        (\<lambda>c2. process_batches env c2 srcBatch dstBatch) = Inr c3"
  from a have "pending c1 srcs' dsts' < pending c srcs dsts" by (intro read_batches_pending) auto
  moreover from b have "srcClosed c3 = srcClosed c1 \<and> dstClosed c3 = dstClosed c1"
    by (auto simp: rbind_eq_Inr dest!: process_batches_closed flush_if_needed_closed split: if_splits)
  ultimately show "((env, c3, srcs', dsts'), env, c, srcs, dsts)
      \<in> measure (\<lambda>(env, c, srcs, dsts). pending c srcs dsts)"
    by (simp add: pending_def)
qed simp

declare run_loop.simps [simp del]

definition run :: "comparator_env \<Rightarrow> to_comparator_msg list \<Rightarrow> to_comparator_msg list \<Rightarrow> go_error + comparator" where
  "run env srcs dsts =
     run_loop env (new_comparator\<lparr>docsComparedHistory := [0], bytesComparedHistory := [0]\<rparr>) srcs dsts"

section \<open>What a run reports\<close>

definition key_of :: "comparator_env \<Rightarrow> doc_with_ts \<Rightarrow> bytes" where
  "key_of env d = projr (doc_map_key env d)"

definition pair_results :: "comparator_env \<Rightarrow> doc_with_ts \<Rightarrow> doc_with_ts \<Rightarrow> result multiset" where
  "pair_results env s d = (if key_of env s = key_of env d then mset (projr (pair_problems env s d)) else {#})"

definition all_pairs :: "comparator_env \<Rightarrow> doc_with_ts list \<Rightarrow> doc_with_ts list \<Rightarrow> result multiset" where
  "all_pairs env S D = (\<Sum>s \<leftarrow> S. \<Sum>d \<leftarrow> D. pair_results env s d)"

definition unmatched :: "comparator_env \<Rightarrow> doc_with_ts list \<Rightarrow> doc_with_ts list \<Rightarrow> doc_with_ts list" where
  "unmatched env D S = filter (\<lambda>s. key_of env s \<notin> key_of env ` set D) S"

text \<open>
  The problems of two sets of documents: each pair with the same key compared once, and every
  document without a peer reported as missing on the other side.
\<close>

definition expected_problems :: "comparator_env \<Rightarrow> doc_with_ts list \<Rightarrow> doc_with_ts list \<Rightarrow> result multiset" where
  "expected_problems env S D = all_pairs env S D
     + mset (map (\<lambda>d. projr (missing_doc_result env True d)) (unmatched env D S))
     + mset (map (\<lambda>d. projr (missing_doc_result env False d)) (unmatched env S D))"

text \<open>
  Documents the comparator can work with: distinct keys on each side, keys and ids that can be read,
  buffers from the pool, and pairs whose comparison does not fail.
\<close>

definition comparable :: "comparator_env \<Rightarrow> doc_with_ts list \<Rightarrow> doc_with_ts list \<Rightarrow> bool" where
  "comparable env S D \<longleftrightarrow>
     distinct (map (key_of env) S) \<and> distinct (map (key_of env) D)
     \<and> (\<forall>d \<in> set S \<union> set D. is_ok (doc_map_key env d) \<and> fromPool d
          \<and> is_ok (raw_doc_id_for_comparison (env_method env) (dwt_Doc d)))
     \<and> (\<forall>s \<in> set S. is_ok (doc_size (env_method env) (dwt_Doc s)))
     \<and> (\<forall>s \<in> set S. \<forall>d \<in> set D. key_of env s = key_of env d \<longrightarrow>
          is_ok (compare_one_document (env_fieldOrder env) (env_method env) (dwt_Doc s) (dwt_Doc d) (env_namespace env)))"

lemma is_ok_Inr: "is_ok r \<longleftrightarrow> r = Inr (projr r)"
  by (cases r) (auto simp: is_ok_def)

lemma comparable_sublists:
  "comparable env S D \<Longrightarrow> set S' \<subseteq> set S \<Longrightarrow> set D' \<subseteq> set D \<Longrightarrow> distinct (map (key_of env) S')
     \<Longrightarrow> distinct (map (key_of env) D') \<Longrightarrow> comparable env S' D'"
  unfolding comparable_def by blast

lemma first_mismatch_time_ok:
  "is_ok (raw_doc_id_for_comparison (env_method env) doc) \<Longrightarrow> \<exists>t. first_mismatch_time env doc = Inr t"
  by (auto simp: first_mismatch_time_def is_ok_def split: sum.splits)

lemma pair_problems_ok:
  assumes "comparable env S D" "s \<in> set S" "d \<in> set D" "key_of env s = key_of env d"
  shows "pair_problems env s d = Inr (projr (pair_problems env s d))"
proof -
  from assms have "is_ok (compare_one_document (env_fieldOrder env) (env_method env) (dwt_Doc s) (dwt_Doc d) (env_namespace env))"
    and "is_ok (raw_doc_id_for_comparison (env_method env) (dwt_Doc s))" by (auto simp: comparable_def)
  with first_mismatch_time_ok [of env "dwt_Doc s"] show ?thesis
    by (auto simp: pair_problems_def is_ok_def split: sum.splits)
qed

lemma missing_doc_result_ok:
  assumes "comparable env S D" "d \<in> set S \<union> set D"
  shows "missing_doc_result env b d = Inr (projr (missing_doc_result env b d))"
proof -
  from assms have "is_ok (raw_doc_id_for_comparison (env_method env) (dwt_Doc d))" "fromPool d"
    by (auto simp: comparable_def)
  with first_mismatch_time_ok [of env "dwt_Doc d"] show ?thesis
    by (auto simp: missing_doc_result_def is_ok_def cloned_doc_id_for_comparison_def put_in_pool_def
        split: sum.splits)
qed

subsection \<open>The caches\<close>

definition cache_of :: "comparator_env \<Rightarrow> doc_with_ts list \<Rightarrow> doc_with_ts list \<Rightarrow> (bytes \<times> doc_with_ts) list" where
  "cache_of env D S = map (\<lambda>s. (key_of env s, s)) (unmatched env D S)"

lemma cache_of_Nil [simp]: "cache_of env D [] = []"
  by (simp add: cache_of_def unmatched_def)

lemma update_absent: "k \<notin> fst ` set al \<Longrightarrow> AList.update k v al = al @ [(k, v)]"
  by (induction al) auto

lemma cache_of_new:
  assumes "key_of env s \<notin> key_of env ` set S" "key_of env s \<notin> key_of env ` set D"
  shows "cache_of env D (S @ [s]) = AList.update (key_of env s) s (cache_of env D S)"
proof -
  have "key_of env s \<notin> fst ` set (cache_of env D S)"
    using assms(1) by (auto simp: cache_of_def unmatched_def)
  with assms show ?thesis by (simp add: update_absent) (simp add: cache_of_def unmatched_def)
qed

lemma cache_of_matched: "key_of env s \<in> key_of env ` set D \<Longrightarrow> cache_of env D (S @ [s]) = cache_of env D S"
  by (simp add: cache_of_def unmatched_def)

lemma cache_of_other: "cache_of env (S @ [s]) D = AList.delete (key_of env s) (cache_of env S D)"
  by (induction D) (auto simp: cache_of_def unmatched_def)

lemma delete_absent: "k \<notin> fst ` set al \<Longrightarrow> AList.delete k al = al"
  by (induction al) auto

lemma cache_of_lookup:
  assumes "distinct (map (key_of env) D)"
  shows "map_of (cache_of env S D) k = Some d \<longleftrightarrow> d \<in> set D \<and> key_of env d = k \<and> k \<notin> key_of env ` set S"
proof -
  have "map fst (cache_of env S D) = map (key_of env) (unmatched env S D)" by (simp add: cache_of_def)
  moreover have "distinct (map (key_of env) (unmatched env S D))"
    using assms by (simp add: unmatched_def distinct_map_filter)
  ultimately have "distinct (map fst (cache_of env S D))" by simp
  then have "map_of (cache_of env S D) k = Some d \<longleftrightarrow> (k, d) \<in> set (cache_of env S D)"
    by (rule map_of_eq_Some_iff)
  then show ?thesis by (auto simp: cache_of_def unmatched_def)
qed

subsection \<open>Sums over pairs\<close>

lemma sum_list_none:
  fixes g :: "'a \<Rightarrow> 'b :: comm_monoid_add"
  assumes "k \<notin> key ` set D"
  shows "(\<Sum>d' \<leftarrow> D. if k = key d' then g d' else 0) = 0"
  using assms by (induction D) auto

lemma sum_list_single:
  fixes g :: "'a \<Rightarrow> 'b :: comm_monoid_add"
  assumes "distinct (map key D)" "d \<in> set D" "key d = k"
  shows "(\<Sum>d' \<leftarrow> D. if k = key d' then g d' else 0) = g d"
  using assms
proof (induction D)
  case (Cons e D)
  show ?case
  proof (cases "d = e")
    case True
    with Cons.prems show ?thesis by (simp add: sum_list_none)
  next
    case False
    with Cons have "key e \<noteq> k" by force
    with Cons False show ?thesis by simp
  qed
qed simp

lemma all_pairs_src: "all_pairs env (S @ [s]) D = all_pairs env S D + (\<Sum>d \<leftarrow> D. pair_results env s d)"
  by (simp add: all_pairs_def)

lemma all_pairs_dst: "all_pairs env S (D @ [d]) = all_pairs env S D + (\<Sum>s \<leftarrow> S. pair_results env s d)"
  by (simp add: all_pairs_def sum_list_addf)

lemma all_pairs_src_step:
  assumes "distinct (map (key_of env) D)"
  shows "d \<in> set D \<Longrightarrow> key_of env d = key_of env s \<Longrightarrow>
      all_pairs env (S @ [s]) D = all_pairs env S D + mset (projr (pair_problems env s d))"
    and "key_of env s \<notin> key_of env ` set D \<Longrightarrow> all_pairs env (S @ [s]) D = all_pairs env S D"
  using sum_list_single [of "key_of env" D d "key_of env s" "\<lambda>d. mset (projr (pair_problems env s d))"]
    sum_list_none [of "key_of env s" "key_of env" D "\<lambda>d. mset (projr (pair_problems env s d))"] assms
  by (simp_all add: all_pairs_src pair_results_def)

lemma pair_results_dst:
  "pair_results env s d = (if key_of env d = key_of env s then mset (projr (pair_problems env s d)) else {#})"
  by (auto simp: pair_results_def)

lemma all_pairs_dst_step:
  assumes "distinct (map (key_of env) S)"
  shows "s \<in> set S \<Longrightarrow> key_of env s = key_of env d \<Longrightarrow>
      all_pairs env S (D @ [d]) = all_pairs env S D + mset (projr (pair_problems env s d))"
    and "key_of env d \<notin> key_of env ` set S \<Longrightarrow> all_pairs env S (D @ [d]) = all_pairs env S D"
  using sum_list_single [of "key_of env" S s "key_of env d" "\<lambda>s. mset (projr (pair_problems env s d))"]
    sum_list_none [of "key_of env d" "key_of env" S "\<lambda>s. mset (projr (pair_problems env s d))"] assms
  by (simp_all add: all_pairs_dst pair_results_dst)

subsection \<open>The invariant of the pairing\<close>

definition cache_bytes :: "(bytes \<times> doc_with_ts) list \<Rightarrow> u64" where
  "cache_bytes al = (\<Sum>(k, d) \<leftarrow> al. word_of_nat (length k + length (dwt_Doc d)))"

definition id_bytes :: "result list \<Rightarrow> u64" where
  "id_bytes rs = (\<Sum>r \<leftarrow> rs. word_of_nat (length (rv_value (res_ID r))))"

definition pairing_inv :: "comparator_env \<Rightarrow> doc_with_ts list \<Rightarrow> doc_with_ts list \<Rightarrow> comparator \<Rightarrow> bool" where
  "pairing_inv env S D c \<longleftrightarrow>
     srcCache c = cache_of env D S \<and> dstCache c = cache_of env S D
     \<and> mset (problems c) = all_pairs env S D
     \<and> cachedVariableBytes c = cache_bytes (srcCache c) + cache_bytes (dstCache c) + id_bytes (problems c)"

definition frame :: "comparator \<Rightarrow> doc_compare_report list \<times> u64 \<times> u64 \<times> bool \<times> bool" where
  "frame c = (reports c, srcDocCount c, srcByteCount c, srcClosed c, dstClosed c)"

lemma cache_bytes_simps [simp]:
  "cache_bytes [] = 0" "cache_bytes ((k, d) # al) = word_of_nat (length k + length (dwt_Doc d)) + cache_bytes al"
  "cache_bytes (xs @ ys) = cache_bytes xs + cache_bytes ys"
  by (simp_all add: cache_bytes_def)

lemma id_bytes_simps [simp]:
  "id_bytes [] = 0" "id_bytes (xs @ ys) = id_bytes xs + id_bytes ys"
  by (simp_all add: id_bytes_def)

lemma cache_bytes_delete:
  assumes "distinct (map fst al)" "map_of al k = Some d"
  shows "cache_bytes (AList.delete k al) = cache_bytes al - word_of_nat (length k + length (dwt_Doc d))"
  using assms
proof (induction al)
  case (Cons kv al)
  obtain k' d' where kv: "kv = (k', d')" by (cases kv)
  show ?case
  proof (cases "k = k'")
    case True
    with Cons.prems have "k \<notin> fst ` set al" by (simp add: kv)
    with Cons.prems True show ?thesis by (simp add: kv delete_absent)
  next
    case False
    with Cons show ?thesis by (simp add: kv)
  qed
qed simp

lemma cache_of_distinct: "distinct (map (key_of env) S) \<Longrightarrow> distinct (map fst (cache_of env D S))"
  by (simp add: cache_of_def unmatched_def distinct_map_filter o_def)

lemma cache_bytes_new:
  "key_of env s \<notin> key_of env ` set S \<Longrightarrow>
     cache_bytes (AList.update (key_of env s) s (cache_of env D S))
       = cache_bytes (cache_of env D S) + word_of_nat (length (key_of env s) + length (dwt_Doc s))"
  by (subst update_absent) (auto simp: cache_of_def unmatched_def)

lemma cache_of_other_absent:
  "key_of env s \<notin> key_of env ` set D \<Longrightarrow> cache_of env (S @ [s]) D = cache_of env S D"
  by (subst cache_of_other) (auto simp: cache_of_def unmatched_def intro!: delete_absent)

lemma doc_map_key_ok: "is_ok (doc_map_key env d) \<Longrightarrow> doc_map_key env d = Inr (key_of env d)"
  by (simp add: key_of_def is_ok_Inr)

lemma process_src_doc:
  assumes cmp: "comparable env (S @ [s]) D" and inv: "pairing_inv env S D c"
  shows "\<exists>c'. process_single_doc env c (True, s) = Inr c' \<and> pairing_inv env (S @ [s]) D c' \<and> frame c' = frame c"
proof -
  from cmp have key: "doc_map_key env s = Inr (key_of env s)" and pool: "fromPool s"
    and new: "key_of env s \<notin> key_of env ` set S" and dD: "distinct (map (key_of env) D)"
    and dS: "distinct (map (key_of env) S)"
    by (auto simp: comparable_def doc_map_key_ok)
  note look = cache_of_lookup [OF dD, of S "key_of env s"]
  show ?thesis
  proof (cases "key_of env s \<in> key_of env ` set D")
    case False
    then have "map_of (dstCache c) (key_of env s) = None"
      using look inv by (metis image_eqI not_None_eq pairing_inv_def)
    with inv False new key all_pairs_src_step(2) [OF dD False] show ?thesis
      by (auto simp: process_single_doc_def pairing_inv_def frame_def cache_of_new cache_of_other_absent
          cache_bytes_new)
  next
    case True
    then obtain d where d: "d \<in> set D" "key_of env d = key_of env s" by auto
    have l: "map_of (dstCache c) (key_of env s) = Some d"
      using look d new inv by (simp add: pairing_inv_def)
    have pd: "fromPool d" using cmp d(1) by (auto simp: comparable_def)
    obtain rs where p: "pair_problems env s d = Inr rs"
      using pair_problems_ok [OF cmp _ d(1), of s] d(2) by auto
    have cb: "cache_bytes (cache_of env (S @ [s]) D) = cache_bytes (cache_of env S D)
        - word_of_nat (length (key_of env s) + length (dwt_Doc d))"
      using cache_bytes_delete [OF cache_of_distinct [OF dD]] l inv
      by (simp add: pairing_inv_def cache_of_other)
    from inv True key pool pd l p cb all_pairs_src_step(1) [OF dD d] show ?thesis
      by (simp add: process_single_doc_def with_pools_def put_in_pool_def pairing_inv_def frame_def
          cache_of_matched cache_of_other [symmetric] id_bytes_def)
  qed
qed

lemma process_dst_doc:
  assumes cmp: "comparable env S (D @ [d])" and inv: "pairing_inv env S D c"
  shows "\<exists>c'. process_single_doc env c (False, d) = Inr c' \<and> pairing_inv env S (D @ [d]) c' \<and> frame c' = frame c"
proof -
  from cmp have key: "doc_map_key env d = Inr (key_of env d)" and pool: "fromPool d"
    and new: "key_of env d \<notin> key_of env ` set D" and dS: "distinct (map (key_of env) S)"
    by (auto simp: comparable_def doc_map_key_ok)
  note look = cache_of_lookup [OF dS, of D "key_of env d"]
  show ?thesis
  proof (cases "key_of env d \<in> key_of env ` set S")
    case False
    then have "map_of (srcCache c) (key_of env d) = None"
      using look inv by (metis image_eqI not_None_eq pairing_inv_def)
    with inv False new key all_pairs_dst_step(2) [OF dS False] show ?thesis
      by (auto simp: process_single_doc_def pairing_inv_def frame_def cache_of_new cache_of_other_absent
          cache_bytes_new)
  next
    case True
    then obtain s where s: "s \<in> set S" "key_of env s = key_of env d" by auto
    have l: "map_of (srcCache c) (key_of env d) = Some s"
      using look s new inv by (simp add: pairing_inv_def)
    have ps: "fromPool s" using cmp s(1) by (auto simp: comparable_def)
    obtain rs where p: "pair_problems env s d = Inr rs"
      using pair_problems_ok [OF cmp s(1), of d] s(2) by auto
    have cb: "cache_bytes (cache_of env (D @ [d]) S) = cache_bytes (cache_of env D S)
        - word_of_nat (length (key_of env d) + length (dwt_Doc s))"
      using cache_bytes_delete [OF cache_of_distinct [OF dS]] l inv
      by (simp add: pairing_inv_def cache_of_other)
    from inv True key pool ps l p cb all_pairs_dst_step(1) [OF dS s] show ?thesis
      by (simp add: process_single_doc_def with_pools_def put_in_pool_def pairing_inv_def frame_def
          cache_of_matched cache_of_other [symmetric] id_bytes_def)
  qed
qed

lemma comparable_prefix:
  assumes "comparable env (A @ B) (C @ E)"
  shows "comparable env A C"
  by (rule comparable_sublists [OF assms]) (use assms in \<open>auto simp: comparable_def\<close>)

lemma process_batches_inv:
  assumes "comparable env (S @ sb) (D @ db)" "pairing_inv env S D c"
  shows "\<exists>c'. process_batches env c sb db = Inr c' \<and> pairing_inv env (S @ sb) (D @ db) c' \<and> frame c' = frame c"
  using assms
proof (induction "length sb + length db" arbitrary: sb db S D c rule: less_induct)
  case less
  show ?case
  proof (cases "length sb + length db > 0")
    case False
    with less.prems show ?thesis by (subst process_batches.simps) simp
  next
    case True
    let ?S = "S @ take 1 sb" and ?D = "D @ take 1 db"
    have split: "?S @ tl sb = S @ sb" "?D @ tl db = D @ db" by (cases sb; cases db; simp)+
    have cmp: "comparable env (?S @ tl sb) (?D @ tl db)" unfolding split by (rule less.prems(1))
    from less.prems(1) have cmp1: "comparable env ?S D"
      using comparable_prefix [of env ?S "tl sb" D db] by (simp only: split)
    have cmp2: "comparable env ?S ?D" by (rule comparable_prefix [OF cmp])
    obtain c1 where c1: "(case sb of [] \<Rightarrow> Inr c | d # _ \<Rightarrow> process_single_doc env c (True, d)) = Inr c1"
      "pairing_inv env ?S D c1" "frame c1 = frame c"
      using process_src_doc [of env S "hd sb" D c] cmp1 less.prems(2) by (cases sb) auto
    obtain c2 where c2: "(case db of [] \<Rightarrow> Inr c1 | d # _ \<Rightarrow> process_single_doc env c1 (False, d)) = Inr c2"
      "pairing_inv env ?S ?D c2" "frame c2 = frame c1"
      using process_dst_doc [of env ?S D "hd db" c1] cmp2 c1(2) by (cases db) auto
    have "length (tl sb) + length (tl db) < length sb + length db"
      using True by (cases sb; cases db) auto
    from less.hyps [OF this cmp c2(2)] obtain c' where "process_batches env c2 (tl sb) (tl db) = Inr c'"
      "pairing_inv env (S @ sb) (D @ db) c'" "frame c' = frame c2" by (auto simp only: split)
    with c1 c2 True show ?thesis
      by (subst process_batches.simps) (simp only: if_True rbind_simps, simp)
  qed
qed

subsection \<open>Flushing and reading under the invariant\<close>

lemma map_results_map: "(\<And>x. x \<in> set xs \<Longrightarrow> f x = Inr (g x)) \<Longrightarrow> map_results f xs = Inr (map g xs)"
  by (induction xs) auto

definition cache_order_ok :: "comparator_env \<Rightarrow> bool" where
  "cache_order_ok env \<longleftrightarrow> (\<forall>xs. mset (env_cacheOrder env xs) = mset xs)"

lemma flush_inv:
  assumes cmp: "comparable env S D" and inv: "pairing_inv env S D c" and ord: "cache_order_ok env"
  shows "\<exists>c' r. flush env c = Inr c' \<and> reports c' = reports c @ [r] \<and> pairing_inv env [] [] c'
    \<and> mset (rep_Problems r) = expected_problems env S D
    \<and> length (rep_Problems r) = length (problems c) + count_unpaired_docs c
    \<and> rep_DocCount r = srcDocCount c \<and> rep_ByteCount r = srcByteCount c
    \<and> srcDocCount c' = 0 \<and> srcByteCount c' = 0 \<and> srcClosed c' = srcClosed c \<and> dstClosed c' = dstClosed c"
proof -
  have mem: "set (env_cacheOrder env xs) = set xs" "length (env_cacheOrder env xs) = length xs" for xs
    using ord by (metis cache_order_ok_def set_mset_mset, metis cache_order_ok_def size_mset)
  let ?src = "env_cacheOrder env (map snd (srcCache c))" and ?dst = "env_cacheOrder env (map snd (dstCache c))"
  have caches: "map snd (srcCache c) = unmatched env D S" "map snd (dstCache c) = unmatched env S D"
    using inv by (simp_all add: pairing_inv_def cache_of_def o_def)
  have s: "map_results (missing_doc_result env True) ?src = Inr (map (\<lambda>d. projr (missing_doc_result env True d)) ?src)"
    by (rule map_results_map, rule missing_doc_result_ok [OF cmp]) (auto simp: mem caches unmatched_def)
  have d: "map_results (missing_doc_result env False) ?dst = Inr (map (\<lambda>d. projr (missing_doc_result env False d)) ?dst)"
    by (rule map_results_map, rule missing_doc_result_ok [OF cmp]) (auto simp: mem caches unmatched_def)
  have m: "mset (map f (env_cacheOrder env xs)) = mset (map f xs)" for f :: "doc_with_ts \<Rightarrow> result" and xs
    using ord by (simp add: cache_order_ok_def)
  have e: "mset (problems c @ map (\<lambda>d. projr (missing_doc_result env True d)) ?src
        @ map (\<lambda>d. projr (missing_doc_result env False d)) ?dst) = expected_problems env S D"
    unfolding mset_append m caches expected_problems_def using inv by (simp add: pairing_inv_def)
  from s d e show ?thesis
    by (simp add: flush_def sweep_missing_docs_def pairing_inv_def all_pairs_def count_unpaired_docs_def mem
        publish_history_counts_def cache_of_def unmatched_def)
qed

lemma flush_if_needed_inv:
  assumes cmp: "comparable env S D" and inv: "pairing_inv env S D c" and ord: "cache_order_ok env"
  shows "flush_if_needed env c = Inr c \<or>
    (\<exists>c' r. flush_if_needed env c = Inr c' \<and> reports c' = reports c @ [r] \<and> pairing_inv env [] [] c'
    \<and> mset (rep_Problems r) = expected_problems env S D \<and> rep_Problems r \<noteq> []
    \<and> rep_DocCount r = srcDocCount c \<and> rep_ByteCount r = srcByteCount c
    \<and> srcDocCount c' = 0 \<and> srcByteCount c' = 0 \<and> srcClosed c' = srcClosed c \<and> dstClosed c' = dstClosed c)"
proof (cases "why_flush c = None")
  case True
  then show ?thesis by (simp add: flush_if_needed_def)
next
  case False
  have "length (problems c) + count_unpaired_docs c \<noteq> 0"
  proof
    assume z: "length (problems c) + count_unpaired_docs c = 0"
    then have "cachedVariableBytes c = 0" using inv by (simp add: pairing_inv_def count_unpaired_docs_def)
    with False z show False
      by (simp add: why_flush_def comparatorMaxProblemsLen_def comparatorMaxVariableBytes_def split: if_splits)
  qed
  with False flush_inv [OF assms] show ?thesis unfolding flush_if_needed_def by fastforce
qed

definition docs_of :: "to_comparator_msg list \<Rightarrow> doc_with_ts list" where
  "docs_of ms = concat (map DocsWithTS ms)"

lemma docs_of_simps [simp]: "docs_of [] = []" "docs_of (m # ms) = DocsWithTS m @ docs_of ms"
  by (simp_all add: docs_of_def)

text \<open>What the readers promise about their messages.\<close>

definition src_msg_ok :: "to_comparator_msg \<Rightarrow> bool" where
  "src_msg_ok m \<longleftrightarrow> msg_type m = MsgTypeDocs \<and> length (DocsWithTS m) \<le> ToComparatorBatchSize"

definition dst_msg_ok :: "to_comparator_msg \<Rightarrow> bool" where
  "dst_msg_ok m \<longleftrightarrow> msg_type m = MsgTypeDocs \<and> length (DocsWithTS m) \<le> ToComparatorBatchSize
     \<or> msg_type m = MsgTypePadding \<and> DocsWithTS m = []
     \<or> msg_type m = MsgTypeCursorDone \<and> DocsWithTS m = []"

definition docs_bytes :: "comparator_env \<Rightarrow> doc_with_ts list \<Rightarrow> u64" where
  "docs_bytes env S = (\<Sum>s \<leftarrow> S. projr (doc_size (env_method env) (dwt_Doc s)))"

lemma docs_bytes_simps [simp]:
  "docs_bytes env [] = 0" "docs_bytes env (xs @ ys) = docs_bytes env xs + docs_bytes env ys"
  by (simp_all add: docs_bytes_def)

lemma record_src_docs:
  assumes "\<forall>s \<in> set docs. is_ok (doc_size (env_method env) (dwt_Doc s))"
  shows "\<exists>c'. rfold (record_src_doc env) c docs = Inr c' \<and> srcByteCount c' = srcByteCount c + docs_bytes env docs
    \<and> srcDocCount c' = srcDocCount c \<and> reports c' = reports c \<and> srcClosed c' = srcClosed c \<and> dstClosed c' = dstClosed c
    \<and> srcCache c' = srcCache c \<and> dstCache c' = dstCache c \<and> problems c' = problems c
    \<and> cachedVariableBytes c' = cachedVariableBytes c"
  using assms
proof (induction docs arbitrary: c)
  case (Cons d docs)
  then obtain n where n: "doc_size (env_method env) (dwt_Doc d) = Inr n" by (auto simp: is_ok_def split: sum.splits)
  have "\<exists>c1. record_src_doc env c d = Inr c1 \<and> srcByteCount c1 = srcByteCount c + n
    \<and> srcDocCount c1 = srcDocCount c \<and> reports c1 = reports c \<and> srcClosed c1 = srcClosed c \<and> dstClosed c1 = dstClosed c
    \<and> srcCache c1 = srcCache c \<and> dstCache c1 = dstCache c \<and> problems c1 = problems c
    \<and> cachedVariableBytes c1 = cachedVariableBytes c"
    by (simp add: record_src_doc_def n Let_def publish_history_counts_def)
  then obtain c1 where c1: "record_src_doc env c d = Inr c1" "srcByteCount c1 = srcByteCount c + n"
    "srcDocCount c1 = srcDocCount c" "reports c1 = reports c" "srcClosed c1 = srcClosed c" "dstClosed c1 = dstClosed c"
    "srcCache c1 = srcCache c" "dstCache c1 = dstCache c" "problems c1 = problems c"
    "cachedVariableBytes c1 = cachedVariableBytes c" by blast
  from Cons.prems have "\<forall>s \<in> set docs. is_ok (doc_size (env_method env) (dwt_Doc s))" by simp
  from Cons.IH [OF this, of c1] c1 n show ?case by (auto simp: docs_bytes_def)
qed simp

lemma read_src_inv:
  assumes "\<forall>m \<in> set srcs. src_msg_ok m" "\<forall>s \<in> set (docs_of srcs). is_ok (doc_size (env_method env) (dwt_Doc s))"
    and inv: "pairing_inv env S D c"
  shows "\<exists>c' docs srcs'. read_src env c srcs = Inr (c', docs, srcs') \<and> docs @ docs_of srcs' = docs_of srcs
    \<and> set srcs' \<subseteq> set srcs \<and> (srcClosed c' \<longrightarrow> srcs' = [] \<or> srcClosed c) \<and> dstClosed c' = dstClosed c
    \<and> pairing_inv env S D c' \<and> reports c' = reports c
    \<and> srcDocCount c' = srcDocCount c + word_of_nat (length docs)
    \<and> srcByteCount c' = srcByteCount c + docs_bytes env docs"
proof (cases srcs)
  case Nil
  with inv show ?thesis by (simp add: pairing_inv_def)
next
  case (Cons m ms)
  with assms(2) have "\<forall>s \<in> set (DocsWithTS m). is_ok (doc_size (env_method env) (dwt_Doc s))" by simp
  from record_src_docs [OF this, of "c\<lparr>srcDocCount := srcDocCount c + word_of_nat (length (DocsWithTS m)),
          curHistoryDocCount := curHistoryDocCount c + word_of_nat (length (DocsWithTS m))\<rparr>"] assms(1) Cons inv
  show ?thesis by (auto simp: src_msg_ok_def record_src_metrics_def pairing_inv_def)
qed

lemma read_dst_inv:
  "\<forall>m \<in> set dsts. dst_msg_ok m \<Longrightarrow>
   \<exists>c' docs done' dsts'. read_dst c done0 dsts = Inr (c', docs, done', dsts') \<and> docs @ docs_of dsts' = docs_of dsts
    \<and> set dsts' \<subseteq> set dsts \<and> (c' = c \<or> c' = c\<lparr>dstClosed := True\<rparr> \<and> dsts' = [])
    \<and> ((\<forall>m \<in> set dsts. msg_type m \<noteq> MsgTypeCursorDone) \<longrightarrow> done' = done0)"
proof (induction dsts arbitrary: done0)
  case (Cons m ms)
  show ?case
  proof (cases "msg_type m = MsgTypeCursorDone")
    case True
    with Cons.prems Cons.IH [of True] show ?thesis by (fastforce simp: dst_msg_ok_def)
  next
    case False
    with Cons.prems show ?thesis by (auto simp: dst_msg_ok_def)
  qed
qed simp

lemma read_batches_inv:
  assumes ok: "\<forall>m \<in> set srcs. src_msg_ok m" "\<forall>m \<in> set dsts. dst_msg_ok m"
    and closed: "srcClosed c \<longrightarrow> srcs = []" "dstClosed c \<longrightarrow> dsts = []"
    and cmp: "comparable env (S @ docs_of srcs) (D @ docs_of dsts)" and inv: "pairing_inv env S D c"
  shows "\<exists>c' sb db done srcs' dsts'. read_batches env c srcs dsts = Inr (c', sb, db, done, srcs', dsts')
    \<and> sb @ docs_of srcs' = docs_of srcs \<and> db @ docs_of dsts' = docs_of dsts
    \<and> set srcs' \<subseteq> set srcs \<and> set dsts' \<subseteq> set dsts
    \<and> (srcClosed c' \<longrightarrow> srcs' = []) \<and> (dstClosed c' \<longrightarrow> dsts' = [])
    \<and> pairing_inv env S D c' \<and> reports c' = reports c
    \<and> srcDocCount c' = srcDocCount c + word_of_nat (length sb)
    \<and> srcByteCount c' = srcByteCount c + docs_bytes env sb
    \<and> ((\<forall>m \<in> set dsts. msg_type m \<noteq> MsgTypeCursorDone) \<longrightarrow> \<not> done)"
proof -
  have size: "\<forall>s \<in> set (docs_of srcs). is_ok (doc_size (env_method env) (dwt_Doc s))"
    using cmp by (auto simp: comparable_def)
  obtain c1 sb srcs' where s: "(if \<not> srcClosed c then read_src env c srcs else Inr (c, [], srcs)) = Inr (c1, sb, srcs')"
    "sb @ docs_of srcs' = docs_of srcs" "set srcs' \<subseteq> set srcs" "srcClosed c1 \<longrightarrow> srcs' = []"
    "dstClosed c1 = dstClosed c" "pairing_inv env S D c1" "reports c1 = reports c"
    "srcDocCount c1 = srcDocCount c + word_of_nat (length sb)" "srcByteCount c1 = srcByteCount c + docs_bytes env sb"
  proof (cases "srcClosed c")
    case True
    with closed inv show ?thesis by (intro that [of c "[]" srcs]) auto
  next
    case False
    with read_src_inv [OF ok(1) size inv] show ?thesis by (fastforce intro: that)
  qed
  obtain c2 db "done" dsts' where d: "(if \<not> dstClosed c then read_dst c1 False dsts else Inr (c1, [], False, dsts)) = Inr (c2, db, done, dsts')"
    "db @ docs_of dsts' = docs_of dsts" "set dsts' \<subseteq> set dsts" "dstClosed c2 \<longrightarrow> dsts' = []"
    "c2 = c1 \<or> c2 = c1\<lparr>dstClosed := True\<rparr>"
    "(\<forall>m \<in> set dsts. msg_type m \<noteq> MsgTypeCursorDone) \<longrightarrow> \<not> done"
  proof (cases "dstClosed c")
    case True
    with closed show ?thesis by (intro that [of c1 "[]" False dsts]) auto
  next
    case False
    obtain c' docs done' dsts' where "read_dst c1 False dsts = Inr (c', docs, done', dsts')"
      "docs @ docs_of dsts' = docs_of dsts" "set dsts' \<subseteq> set dsts"
      "c' = c1 \<or> c' = c1\<lparr>dstClosed := True\<rparr> \<and> dsts' = []"
      "(\<forall>m \<in> set dsts. msg_type m \<noteq> MsgTypeCursorDone) \<longrightarrow> done' = False"
      using read_dst_inv [OF ok(2), of c1 False] by blast
    with False s(5) show ?thesis by (intro that [of c' docs done' dsts']) auto
  qed
  from d(5) s have "pairing_inv env S D c2 \<and> reports c2 = reports c \<and> srcClosed c2 = srcClosed c1
      \<and> srcDocCount c2 = srcDocCount c1 \<and> srcByteCount c2 = srcByteCount c1"
    by (auto simp: pairing_inv_def)
  with s d show ?thesis by (simp add: read_batches_def)
qed

subsection \<open>The epochs of a run\<close>

text \<open>
  A run divides the documents of both sides into epochs, one for each report: what was compared
  between one flush and the next.
\<close>

definition epochs_reported :: "comparator_env \<Rightarrow> (doc_with_ts list \<times> doc_with_ts list) list
     \<Rightarrow> doc_compare_report list \<Rightarrow> bool" where
  "epochs_reported env epochs rs \<longleftrightarrow>
     list_all2 (\<lambda>(S, D) r. mset (rep_Problems r) = expected_problems env S D) epochs rs"

lemma comparable_epoch:
  assumes "comparable env (A @ S) (B @ D)"
  shows "comparable env S D"
  by (rule comparable_sublists [OF assms]) (use assms in \<open>auto simp: comparable_def\<close>)

definition run_result :: "comparator_env \<Rightarrow> comparator \<Rightarrow> doc_with_ts list \<Rightarrow> doc_with_ts list
     \<Rightarrow> doc_with_ts list \<Rightarrow> bool \<Rightarrow> go_error + comparator \<Rightarrow> bool" where
  "run_result env c S D S' noDone res \<longleftrightarrow>
     (\<exists>c' rs epochs. res = Inr c' \<and> reports c' = reports c @ rs \<and> rs \<noteq> []
        \<and> concat (map fst epochs) = S \<and> concat (map snd epochs) = D \<and> epochs_reported env epochs rs
        \<and> (\<forall>r \<in> set (butlast rs). rep_Problems r \<noteq> [])
        \<and> (\<Sum>r \<leftarrow> rs. rep_DocCount r) = srcDocCount c + word_of_nat (length S')
        \<and> (\<Sum>r \<leftarrow> rs. rep_ByteCount r) = srcByteCount c + docs_bytes env S'
        \<and> (noDone \<longrightarrow> length rs = 1))"

lemma run_result_flush:
  assumes "comparable env S D" "pairing_inv env S D c" "cache_order_ok env"
  shows "run_result env c S D [] noDone (flush env c)"
proof -
  from flush_inv [OF assms] obtain c' r where f: "flush env c = Inr c'" "reports c' = reports c @ [r]"
    "mset (rep_Problems r) = expected_problems env S D" "rep_DocCount r = srcDocCount c"
    "rep_ByteCount r = srcByteCount c" by blast
  then show ?thesis unfolding run_result_def
    by (intro exI [of _ c'] exI [of _ "[r]"] exI [of _ "[(S, D)]"]) (simp add: epochs_reported_def)
qed

text \<open>A report put in front of the rest of a run, and a batch whose documents were counted before.\<close>

lemma run_result_report:
  assumes "run_result env c2 S2 D2 S' False res" "reports c2 = reports c @ [r]"
    "mset (rep_Problems r) = expected_problems env S D" "rep_Problems r \<noteq> []"
    "rep_DocCount r = srcDocCount c" "rep_ByteCount r = srcByteCount c"
    "srcDocCount c2 = 0" "srcByteCount c2 = 0"
  shows "run_result env c (S @ S2) (D @ D2) S' False res"
proof -
  from assms(1) obtain c' rs epochs where r: "res = Inr c'" "reports c' = reports c2 @ rs" "rs \<noteq> []"
    "concat (map fst epochs) = S2" "concat (map snd epochs) = D2" "epochs_reported env epochs rs"
    "\<forall>r \<in> set (butlast rs). rep_Problems r \<noteq> []"
    "(\<Sum>r \<leftarrow> rs. rep_DocCount r) = srcDocCount c2 + word_of_nat (length S')"
    "(\<Sum>r \<leftarrow> rs. rep_ByteCount r) = srcByteCount c2 + docs_bytes env S'"
    unfolding run_result_def by blast
  then show ?thesis unfolding run_result_def using assms
    by (intro exI [of _ c'] exI [of _ "r # rs"] exI [of _ "(S, D) # epochs"]) (simp add: epochs_reported_def)
qed

lemma run_result_counted:
  assumes "run_result env c2 S D S' noDone res" "reports c2 = reports c"
    "srcDocCount c2 = srcDocCount c + word_of_nat (length sb)" "srcByteCount c2 = srcByteCount c + docs_bytes env sb"
  shows "run_result env c S D (sb @ S') noDone res"
proof -
  from assms(1) obtain c' rs epochs where r: "res = Inr c'" "reports c' = reports c2 @ rs" "rs \<noteq> []"
    "concat (map fst epochs) = S" "concat (map snd epochs) = D" "epochs_reported env epochs rs"
    "\<forall>r \<in> set (butlast rs). rep_Problems r \<noteq> []"
    "(\<Sum>r \<leftarrow> rs. rep_DocCount r) = srcDocCount c2 + word_of_nat (length S')"
    "(\<Sum>r \<leftarrow> rs. rep_ByteCount r) = srcByteCount c2 + docs_bytes env S'" "noDone \<longrightarrow> length rs = 1"
    unfolding run_result_def by blast
  then show ?thesis unfolding run_result_def using assms(2-4)
    by (intro exI [of _ c'] exI [of _ rs] exI [of _ epochs]) (simp add: add.assoc)
qed

lemma run_result_frame:
  assumes "run_result env c2 S D S' noDone res" "frame c2 = frame c"
  shows "run_result env c S D S' noDone res"
  using run_result_counted [of env c2 S D S' noDone res c "[]"] assms by (simp add: frame_def)

lemma run_result_weaken: "run_result env c S D S' noDone res \<Longrightarrow> run_result env c S D S' False res"
  unfolding run_result_def by blast

definition no_done :: "to_comparator_msg list \<Rightarrow> bool" where
  "no_done dsts \<longleftrightarrow> (\<forall>m \<in> set dsts. msg_type m \<noteq> MsgTypeCursorDone)"

lemma run_loop_epochs:
  assumes "cache_order_ok env"
    and "\<forall>m \<in> set srcs. src_msg_ok m" "\<forall>m \<in> set dsts. dst_msg_ok m"
    and "srcClosed c \<longrightarrow> srcs = []" "dstClosed c \<longrightarrow> dsts = []"
    and "comparable env (S @ docs_of srcs) (D @ docs_of dsts)" "pairing_inv env S D c"
  shows "run_result env c (S @ docs_of srcs) (D @ docs_of dsts) (docs_of srcs) (no_done dsts) (run_loop env c srcs dsts)"
  using assms(2-7)
proof (induction "pending c srcs dsts" arbitrary: c srcs dsts S D rule: less_induct)
  case less
  show ?case
  proof (cases "still_reading c")
    case False
    with less.prems have e: "srcs = []" "dsts = []" by (simp_all add: still_reading_def)
    with less.prems run_result_flush [of env S D c] assms(1) False show ?thesis
      by (subst run_loop.simps) simp
  next
    case True
    from read_batches_inv [OF less.prems] obtain c1 sb db "done" srcs' dsts' where
      rd: "read_batches env c srcs dsts = Inr (c1, sb, db, done, srcs', dsts')"
      and eq: "docs_of srcs = sb @ docs_of srcs'" "docs_of dsts = db @ docs_of dsts'"
      and sub: "set srcs' \<subseteq> set srcs" "set dsts' \<subseteq> set dsts"
      and cl: "srcClosed c1 \<longrightarrow> srcs' = []" "dstClosed c1 \<longrightarrow> dsts' = []"
      and inv1: "pairing_inv env S D c1" and rep1: "reports c1 = reports c"
      and cnt1: "srcDocCount c1 = srcDocCount c + word_of_nat (length sb)"
        "srcByteCount c1 = srcByteCount c + docs_bytes env sb"
      and nd: "no_done dsts \<longrightarrow> \<not> done" unfolding no_done_def by metis
    note dec = read_batches_pending [OF True rd]
    have ok': "\<forall>m \<in> set srcs'. src_msg_ok m" "\<forall>m \<in> set dsts'. dst_msg_ok m" "no_done dsts \<longrightarrow> no_done dsts'"
      using less.prems(1,2) sub by (auto simp: no_done_def)
    have rest: "run_result env c2 (S' @ docs_of srcs) (D' @ docs_of dsts) (docs_of srcs') (no_done dsts')
        (case process_batches env c2 sb db of Inl e \<Rightarrow> Inl e | Inr c3 \<Rightarrow> run_loop env c3 srcs' dsts')"
      if c2: "pairing_inv env S' D' c2" "comparable env (S' @ docs_of srcs) (D' @ docs_of dsts)"
        "srcClosed c2 = srcClosed c1" "dstClosed c2 = dstClosed c1" for c2 S' D'
    proof -
      have cmp: "comparable env ((S' @ sb) @ docs_of srcs') ((D' @ db) @ docs_of dsts')"
        using c2(2) by (simp add: eq)
      from process_batches_inv [OF comparable_prefix [OF cmp] c2(1)] obtain c3 where
        c3: "process_batches env c2 sb db = Inr c3" "pairing_inv env (S' @ sb) (D' @ db) c3" "frame c3 = frame c2"
        by blast
      from c3(3) c2(3,4) have cl3: "srcClosed c3 = srcClosed c1" "dstClosed c3 = dstClosed c1"
        by (auto simp: frame_def)
      with dec have "pending c3 srcs' dsts' < pending c srcs dsts" by (simp add: pending_def)
      from less.hyps [OF this ok'(1,2) _ _ cmp c3(2)] cl cl3
      have "run_result env c3 ((S' @ sb) @ docs_of srcs') ((D' @ db) @ docs_of dsts') (docs_of srcs') (no_done dsts')
          (run_loop env c3 srcs' dsts')" by simp
      from run_result_frame [OF this c3(3)] show ?thesis by (simp add: c3(1) eq)
    qed
    have cmp0: "comparable env S D" by (rule comparable_prefix [OF less.prems(5)])
    have run: "run_loop env c srcs dsts = (case rbind (if done then flush_if_needed env c1 else Inr c1)
          (\<lambda>c2. process_batches env c2 sb db) of Inl e \<Rightarrow> Inl e | Inr c3 \<Rightarrow> run_loop env c3 srcs' dsts')"
      using True rd by (subst run_loop.simps) simp
    show ?thesis
    proof (cases "done \<and> flush_if_needed env c1 \<noteq> Inr c1")
      case False
      then have "run_loop env c srcs dsts =
          (case process_batches env c1 sb db of Inl e \<Rightarrow> Inl e | Inr c3 \<Rightarrow> run_loop env c3 srcs' dsts')"
        unfolding run by (cases "done") auto
      with run_result_counted [OF rest [OF inv1 less.prems(5) refl refl] rep1 cnt1] ok'(3) show ?thesis
        by (cases "no_done dsts") (auto simp: eq(1) [symmetric] dest: run_result_weaken)
    next
      case True
      with flush_if_needed_inv [OF cmp0 inv1 assms(1)] obtain c2 r where
        f: "flush_if_needed env c1 = Inr c2" "reports c2 = reports c1 @ [r]" "pairing_inv env [] [] c2"
          "mset (rep_Problems r) = expected_problems env S D" "rep_Problems r \<noteq> []"
          "rep_DocCount r = srcDocCount c1" "rep_ByteCount r = srcByteCount c1"
          "srcDocCount c2 = 0" "srcByteCount c2 = 0" "srcClosed c2 = srcClosed c1" "dstClosed c2 = dstClosed c1"
        by blast
      have "comparable env ([] @ docs_of srcs) ([] @ docs_of dsts)"
        using comparable_epoch [OF less.prems(5)] by simp
      from run_result_weaken [OF rest [OF f(3) this f(10,11)]]
      have "run_result env c2 (docs_of srcs) (docs_of dsts) (docs_of srcs') False (run_loop env c srcs dsts)"
        using True f(1) by (simp add: run)
      from run_result_report [OF this f(2,4-9)]
      have "run_result env c1 (S @ docs_of srcs) (D @ docs_of dsts) (docs_of srcs') False (run_loop env c srcs dsts)" .
      from run_result_counted [OF this rep1 cnt1] nd True show ?thesis by (auto simp: eq(1) [symmetric])
    qed
  qed
qed

section \<open>Well-formed documents are comparable\<close>

definition key_value :: "(string \<times> bval) list \<Rightarrow> string \<Rightarrow> raw_value" where
  "key_value t f = (case map_of t f of None \<Rightarrow> null_value | Some x \<Rightarrow> enc_bval x)"

definition is_tree_doc :: "doc_with_ts \<Rightarrow> (string \<times> bval) list \<Rightarrow> bool" where
  "is_tree_doc d t \<longleftrightarrow> dwt_Doc d = tree_bytes t \<and> wf_bval (BDoc t) \<and> map_of t ''_id'' \<noteq> None \<and> fromPool d"

definition full_env :: "comparator_env \<Rightarrow> bool" where
  "full_env env \<longleftrightarrow> compares_full_documents (env_method env) \<and> range_order (env_fieldOrder env)
     \<and> list_all (\<lambda>f. CHR ''.'' \<notin> set f) (env_keyFields env)"

lemma tree_doc_key:
  assumes "full_env env" "is_tree_doc d t"
  shows "doc_map_key env d = Inr (get_map_key [] (map (key_value t) (env_keyFields env)))"
proof -
  from assms(2) have wf: "wf_bval (BDoc t)" and d: "dwt_Doc d = enc_doc (map_vals enc_bval t)"
    by (simp_all add: is_tree_doc_def tree_bytes_eq)
  have m: "map_of (map_vals enc_bval t) k = map_option enc_bval (map_of t k)" for k
    by (induction t) auto
  have kv: "(case map_of (map_vals enc_bval t) f of None \<Rightarrow> null_value | Some v \<Rightarrow> v) = key_value t f" for f
    by (cases "map_of t f") (simp_all add: m key_value_def)
  have "append_doc_key_fields [] (dwt_Doc d) (env_keyFields env) = Inr (map (key_value t) (env_keyFields env))"
    using append_doc_key_fields_plain [OF _ wf_fields(1) [OF wf], of "env_keyFields env" "[]"] wf assms(1)
    unfolding d kv by (simp add: full_env_def)
  with assms(1) show ?thesis
    by (auto simp: doc_map_key_def get_doc_key_values_def full_env_def compares_full_documents_def)
qed

lemma comparable_trees:
  assumes env: "full_env env" and trees: "\<forall>d \<in> set S \<union> set D. \<exists>t. is_tree_doc d t"
    and "distinct (map (key_of env) S)" "distinct (map (key_of env) D)"
  shows "comparable env S D"
proof -
  have m: "compares_full_documents (env_method env)" using env by (simp add: full_env_def)
  have one: "is_ok (doc_map_key env d) \<and> fromPool d \<and> is_ok (doc_size (env_method env) (dwt_Doc d))
      \<and> is_ok (raw_doc_id_for_comparison (env_method env) (dwt_Doc d))" if d: "d \<in> set S \<union> set D" for d
  proof -
    from trees d obtain t where t: "is_tree_doc d t" by blast
    then have "lookup_err (dwt_Doc d) [''_id''] = Inr (enc_bval (the (map_of t ''_id'')))"
      by (auto simp: is_tree_doc_def lookup_tree)
    with m t tree_doc_key [OF env t] show ?thesis
      by (auto simp: is_ok_def doc_size_def compares_full_documents_def is_tree_doc_def)
  qed
  have "is_ok (compare_one_document (env_fieldOrder env) (env_method env) (dwt_Doc s) (dwt_Doc d) (env_namespace env))"
    if "s \<in> set S" "d \<in> set D" for s d
  proof -
    from trees that obtain t u where t: "is_tree_doc s t" "is_tree_doc d u" by blast
    then obtain i where "map_of t ''_id'' = Some i" by (auto simp: is_tree_doc_def)
    with compare_one_document_trees [of t u "env_fieldOrder env" i "env_method env" "env_namespace env"] t env
    show ?thesis by (auto simp: is_tree_doc_def full_env_def is_ok_def)
  qed
  with one assms(3,4) show ?thesis by (auto simp: comparable_def)
qed

section \<open>Properties\<close>

definition readers_ok :: "comparator_env \<Rightarrow> to_comparator_msg list \<Rightarrow> to_comparator_msg list \<Rightarrow> bool" where
  "readers_ok env srcs dsts \<longleftrightarrow> cache_order_ok env
     \<and> (\<forall>m \<in> set srcs. src_msg_ok m) \<and> (\<forall>m \<in> set dsts. dst_msg_ok m)
     \<and> comparable env (docs_of srcs) (docs_of dsts)"

lemma run_epochs:
  assumes "readers_ok env srcs dsts"
  shows "run_result env new_comparator (docs_of srcs) (docs_of dsts) (docs_of srcs) (no_done dsts) (run env srcs dsts)"
proof -
  let ?c = "new_comparator\<lparr>docsComparedHistory := [0], bytesComparedHistory := [0]\<rparr>"
  have "run_result env ?c ([] @ docs_of srcs) ([] @ docs_of dsts) (docs_of srcs) (no_done dsts) (run env srcs dsts)"
    unfolding run_def using assms
    by (intro run_loop_epochs)
      (auto simp: readers_ok_def new_comparator_def pairing_inv_def cache_of_def unmatched_def all_pairs_def)
  then show ?thesis by (simp add: run_result_def new_comparator_def)
qed

text \<open>C5: When the destination is read through one cursor, a run sends exactly one report, and it is
  right whatever the batches and their interleaving: each pair of documents with the same key is
  compared once, each document without a peer is reported missing once, and the counts are those of
  the source.\<close>

theorem comparator_reports_every_document:
  assumes "readers_ok env srcs dsts" "no_done dsts"
  shows "\<exists>c r. run env srcs dsts = Inr c \<and> reports c = [r]
    \<and> mset (rep_Problems r) = expected_problems env (docs_of srcs) (docs_of dsts)
    \<and> rep_DocCount r = word_of_nat (length (docs_of srcs))
    \<and> rep_ByteCount r = docs_bytes env (docs_of srcs)"
proof -
  from run_epochs [OF assms(1)] assms(2) obtain c rs epochs where
    r: "run env srcs dsts = Inr c" "reports c = rs" "length rs = 1"
      "concat (map fst epochs) = docs_of srcs" "concat (map snd epochs) = docs_of dsts" "epochs_reported env epochs rs"
      "(\<Sum>r \<leftarrow> rs. rep_DocCount r) = word_of_nat (length (docs_of srcs))"
      "(\<Sum>r \<leftarrow> rs. rep_ByteCount r) = docs_bytes env (docs_of srcs)"
    by (auto simp: run_result_def new_comparator_def)
  then obtain r where "rs = [r]" by (auto simp: length_Suc_conv)
  with r show ?thesis by (auto simp: epochs_reported_def list_all2_Cons2)
qed

text \<open>When the destination's cursors end during the run, the caches may be flushed at each end. The
  reports still divide the documents: each is right for the documents between two flushes, none but
  the last is empty, and their counts add up to the source's.\<close>

theorem comparator_epochs:
  assumes "readers_ok env srcs dsts"
  shows "\<exists>c rs epochs. run env srcs dsts = Inr c \<and> reports c = rs
    \<and> concat (map fst epochs) = docs_of srcs \<and> concat (map snd epochs) = docs_of dsts
    \<and> list_all2 (\<lambda>(S, D) r. mset (rep_Problems r) = expected_problems env S D) epochs rs
    \<and> rs \<noteq> [] \<and> list_all (\<lambda>r. rep_Problems r \<noteq> []) (butlast rs)
    \<and> (\<Sum>r \<leftarrow> rs. rep_DocCount r) = word_of_nat (length (docs_of srcs))
    \<and> (\<Sum>r \<leftarrow> rs. rep_ByteCount r) = docs_bytes env (docs_of srcs)"
  using run_epochs [OF assms]
  by (fastforce simp: run_result_def new_comparator_def epochs_reported_def list_all_iff)

text \<open>The account of cached bytes is exact after any batches: the sizes of the keys and documents in
  the caches plus those of the ids in the problems, as 64-bit words; in particular it is zero when
  there is nothing to flush.\<close>

theorem cached_bytes_exact:
  assumes "comparable env sb db"
  shows "\<exists>c. process_batches env new_comparator sb db = Inr c
    \<and> cachedVariableBytes c = cache_bytes (srcCache c) + cache_bytes (dstCache c) + id_bytes (problems c)"
proof -
  have "pairing_inv env [] [] new_comparator"
    by (simp add: new_comparator_def pairing_inv_def cache_of_def unmatched_def all_pairs_def)
  with process_batches_inv [of env "[]" sb "[]" db] assms show ?thesis by (auto simp: pairing_inv_def)
qed

subsection \<open>Witnesses\<close>

definition example_env :: comparator_env where
  "example_env = \<lparr>env_method = IgnoreOrder, env_namespace = ''db.c'', env_keyFields = [''_id''],
     env_Ids = [], env_FirstMismatchTime = (\<lambda>_. 0), env_now = 0, env_fieldOrder = rev, env_cacheOrder = rev\<rparr>"

definition doc_2 :: "(string \<times> bval) list" where
  "doc_2 = [(''_id'', Scalar (int32_value 2))]"

definition pooled :: "(string \<times> bval) list \<Rightarrow> doc_with_ts" where
  "pooled t = \<lparr>dwt_Doc = tree_bytes t, dwt_TS = ts_zero, fromPool = True\<rparr>"

definition docs_msg :: "doc_with_ts list \<Rightarrow> to_comparator_msg" where
  "docs_msg ds = \<lparr>DocsWithTS = ds, msg_type = MsgTypeDocs\<rparr>"

definition done_msg :: to_comparator_msg where
  "done_msg = \<lparr>DocsWithTS = [], msg_type = MsgTypeCursorDone\<rparr>"

lemma example_trees:
  "is_tree_doc (pooled doc_ab) doc_ab" "is_tree_doc (pooled doc_ba) doc_ba" "is_tree_doc (pooled doc_2) doc_2"
proof -
  have "wf_bval (BDoc doc_2)" by (simp add: doc_2_def valid_cstring_def small_def)
  then show "is_tree_doc (pooled doc_ab) doc_ab" "is_tree_doc (pooled doc_ba) doc_ba"
    "is_tree_doc (pooled doc_2) doc_2"
    using wf_example_docs
    by (simp_all add: is_tree_doc_def pooled_def del: wf_bval.simps)
      (simp_all add: doc_ab_def doc_ba_def doc_2_def)
qed

lemma full_example_env: "full_env example_env"
  by (simp add: full_env_def example_env_def compares_full_documents_def)

lemma example_keys:
  "key_of example_env (pooled doc_ab) = rv_to_map_key [] (int32_value 1)"
  "key_of example_env (pooled doc_ba) = rv_to_map_key [] (int32_value 1)"
  "key_of example_env (pooled doc_2) = rv_to_map_key [] (int32_value 2)"
  using example_trees [THEN tree_doc_key [OF full_example_env]]
  by (simp_all add: key_of_def example_env_def get_map_key_def key_value_def)
    (simp_all add: doc_ab_def doc_ba_def doc_2_def)

lemma keys_differ: "rv_to_map_key [] (int32_value 1) \<noteq> rv_to_map_key [] (int32_value 2)"
  by (simp add: rv_to_map_key_def int32_value_def append32_def)

lemma example_comparable: "comparable example_env [pooled doc_2, pooled doc_ab] [pooled doc_ba]"
  by (rule comparable_trees [OF full_example_env]) (use example_trees example_keys keys_differ in auto)

lemma example_readers:
  "readers_ok example_env [docs_msg [pooled doc_2], docs_msg [pooled doc_ab]] [docs_msg [pooled doc_ba]]"
  "readers_ok example_env [docs_msg [pooled doc_2], docs_msg [pooled doc_ab]] [done_msg, docs_msg [pooled doc_ba], done_msg]"
  using example_comparable
  by (auto simp: readers_ok_def cache_order_ok_def src_msg_ok_def dst_msg_ok_def docs_msg_def done_msg_def
      ToComparatorBatchSize_def) (simp_all add: example_env_def)

theorem comparator_reports_every_document_witness:
  "\<exists>c r. run example_env [docs_msg [pooled doc_2], docs_msg [pooled doc_ab]] [docs_msg [pooled doc_ba]] = Inr c
    \<and> reports c = [r] \<and> rep_DocCount r = 2"
  using comparator_reports_every_document [OF example_readers(1)]
  by (auto simp: no_done_def docs_msg_def)

theorem comparator_epochs_witness:
  "\<exists>c. run example_env [docs_msg [pooled doc_2], docs_msg [pooled doc_ab]]
      [done_msg, docs_msg [pooled doc_ba], done_msg] = Inr c
    \<and> reports c \<noteq> [] \<and> (\<Sum>r \<leftarrow> reports c. rep_DocCount r) = 2"
  using comparator_epochs [OF example_readers(2)] by (auto simp: docs_msg_def)

theorem cached_bytes_exact_witness:
  "\<exists>c. process_batches example_env new_comparator [pooled doc_2, pooled doc_ab] [pooled doc_ba] = Inr c
    \<and> cachedVariableBytes c = cache_bytes (srcCache c) + cache_bytes (dstCache c) + id_bytes (problems c)"
  by (rule cached_bytes_exact [OF example_comparable])

text \<open>The cache holds one document for each key: when one side yields two documents with the same key
  before the other side yields its own, the first is dropped without a report, and its bytes stay in
  the account.\<close>

theorem duplicate_key_replaces_cached_doc:
  assumes "doc_map_key env a = Inr k" "doc_map_key env b = Inr k"
  shows "\<exists>c. process_batches env new_comparator [a, b] [] = Inr c \<and> srcCache c = [(k, b)] \<and> problems c = []
    \<and> cachedVariableBytes c = word_of_nat (length k + length (dwt_Doc a)) + word_of_nat (length k + length (dwt_Doc b))"
  using assms
  by (simp add: process_batches.simps [of env _ "_ # _"] process_batches.simps [of env _ "[]"]
      process_single_doc_def new_comparator_def)

theorem duplicate_key_replaces_cached_doc_witness:
  "\<exists>c k. process_batches example_env new_comparator [pooled doc_ab, pooled doc_ba] [] = Inr c
    \<and> srcCache c = [(k, pooled doc_ba)] \<and> problems c = []"
proof -
  have "doc_map_key example_env (pooled doc_ab) = Inr (key_of example_env (pooled doc_ab))"
    and ba: "doc_map_key example_env (pooled doc_ba) = Inr (key_of example_env (pooled doc_ba))"
    using example_trees [THEN tree_doc_key [OF full_example_env]] by (simp_all add: key_of_def)
  moreover from ba have "doc_map_key example_env (pooled doc_ba) = Inr (key_of example_env (pooled doc_ab))"
    by (simp only: example_keys)
  ultimately have "doc_map_key example_env (pooled doc_ab) = Inr (key_of example_env (pooled doc_ab))"
    "doc_map_key example_env (pooled doc_ba) = Inr (key_of example_env (pooled doc_ab))" by blast+
  from duplicate_key_replaces_cached_doc [OF this] show ?thesis by blast
qed

end
