(* ===== verification/Events.thy ===== *)
theory Events
  imports Recheck_Doc Doc_Key "HOL-Library.AList"
begin

text \<open>
  Change events as both readers hand them on (\<open>internal/verifier/parsed_event.go\<close>), namespaces
  (\<open>internal/verifier/util.go\<close>, \<open>mmongo/namespace.go\<close>) and the statistics of events
  (\<open>internal/verifier/event_recorder.go\<close>, \<open>internal/verifier/api/change_event_counts.go\<close>).
\<close>

section \<open>Namespaces and events\<close>

fun split_namespace :: "string \<Rightarrow> string \<times> string" where
  "split_namespace [] = ([], [])"
| "split_namespace (c # cs) =
     (if c = CHR ''.'' then ([], cs) else (case split_namespace cs of (db, coll) \<Rightarrow> (c # db, coll)))"

lemma split_namespace_join:
  "CHR ''.'' \<notin> set db \<Longrightarrow> split_namespace (db @ ''.'' @ coll) = (db, coll)"
  by (induction db) auto

record namespace_go =
  ns_DB :: string
  ns_Coll :: string

definition full_name :: "namespace_go \<Rightarrow> string" where
  "full_name ns = ns_DB ns @ ''.'' @ ns_Coll ns"

definition unmarshal_namespace :: "namespace_go \<Rightarrow> bytes \<Rightarrow> go_error + namespace_go" where
  "unmarshal_namespace = unmarshal_fields (\<lambda>ns key el.
     if key = ''db'' then rbind (unmarshal_element_value cast_string el) (\<lambda>s. Inr (ns\<lparr>ns_DB := s\<rparr>))
     else if key = ''coll'' then rbind (unmarshal_element_value cast_string el) (\<lambda>s. Inr (ns\<lparr>ns_Coll := s\<rparr>))
     else Inr ns)"

record parsed_event =
  pe_OpType :: string
  pe_Ns :: "namespace_go option"
  pe_DocID :: "raw_value option"
  pe_FullDocument :: "bytes option"
  pe_FullDocLen :: "u64 option"
  pe_ClusterTime :: "timestamp option"

definition zero_event :: parsed_event where
  "zero_event = \<lparr>pe_OpType = [], pe_Ns = None, pe_DocID = None, pe_FullDocument = None,
     pe_FullDocLen = None, pe_ClusterTime = None\<rparr>"

definition unmarshal_event :: "parsed_event \<Rightarrow> bytes \<Rightarrow> go_error + parsed_event" where
  "unmarshal_event = unmarshal_fields (\<lambda>pe key el.
     if key = ''operationType'' then
       rbind (unmarshal_element_value cast_string el) (\<lambda>s. Inr (pe\<lparr>pe_OpType := s\<rparr>))
     else if key = ''ns'' then
       rbind (unmarshal_element_value cast_raw el) (\<lambda>rvDoc.
       rbind (unmarshal_namespace \<lparr>ns_DB = [], ns_Coll = []\<rparr> rvDoc) (\<lambda>ns. Inr (pe\<lparr>pe_Ns := Some ns\<rparr>)))
     else if key = ''_docID'' then rbind (value_err el) (\<lambda>rv. Inr (pe\<lparr>pe_DocID := Some rv\<rparr>))
     else if key = ''fullDocument'' then
       rbind (unmarshal_element_value cast_raw el) (\<lambda>d. Inr (pe\<lparr>pe_FullDocument := Some d\<rparr>))
     else if key = ''_fullDocLen'' then
       rbind (value_err el) (\<lambda>rv.
         if rv_type rv \<noteq> TypeNull
         then (case as_int64_ok rv of
                 None \<Rightarrow> Inl (Err ''BSON type cannot be int64'')
               | Some docLen \<Rightarrow> Inr (pe\<lparr>pe_FullDocLen := Some docLen\<rparr>))
         else Inr pe)
     else if key = ''clusterTime'' then
       rbind (unmarshal_element_value cast_timestamp el) (\<lambda>ct. Inr (pe\<lparr>pe_ClusterTime := Some ct\<rparr>))
     else Inr pe)"

definition newer_timestamp :: "timestamp \<Rightarrow> timestamp \<Rightarrow> timestamp" where
  "newer_timestamp a b = (if ts_after a b then a else b)"

lemma newer_timestamp_ge: "\<not> ts_after a (newer_timestamp a b)" "\<not> ts_after b (newer_timestamp a b)"
  using ts_after_trans [of a b a] ts_after_trans [of b a b] by (auto simp: newer_timestamp_def)

subsection \<open>Events survive their encoding\<close>

definition ns_fields :: "namespace_go \<Rightarrow> (string \<times> raw_value) list" where
  "ns_fields ns = [(''db'', string_value (ns_DB ns)), (''coll'', string_value (ns_Coll ns))]"

text \<open>A data event as the change stream's projection gives it.\<close>

definition event_fields :: "string \<Rightarrow> namespace_go \<Rightarrow> raw_value \<Rightarrow> u32 \<Rightarrow> timestamp \<Rightarrow> (string \<times> raw_value) list" where
  "event_fields opType ns docID docLen ct =
     [(''operationType'', string_value opType), (''ns'', document_value (enc_doc (ns_fields ns))),
      (''_docID'', docID), (''_fullDocLen'', int32_value docLen), (''clusterTime'', timestamp_value ct)]"

lemma unmarshal_namespace_enc:
  assumes "length (ns_DB ns) + length (ns_Coll ns) + 50 < 2 ^ 31"
  shows "unmarshal_namespace ns0 (enc_doc (ns_fields ns)) = Inr ns" "small (ns_fields ns)"
proof -
  have l: "length (ns_DB ns) + 5 < 2 ^ 31" "length (ns_Coll ns) + 5 < 2 ^ 31" using assms by simp_all
  have w: "list_all wf_kv (ns_fields ns)" and s: "small (ns_fields ns)"
    using assms l by (simp_all add: ns_fields_def wf_kv_def valid_cstring_def wf_string_value small_def)
  show "unmarshal_namespace ns0 (enc_doc (ns_fields ns)) = Inr ns"
    unfolding unmarshal_namespace_def unmarshal_fields_enc [OF w s]
    using l by (simp add: ns_fields_def valid_cstring_def wf_string_value cast_string_value)
  show "small (ns_fields ns)" by (rule s)
qed

lemma as_int64_int32: "as_int64_ok (int32_value i) = Some (scast i)"
  by (simp add: as_int64_ok_def) (simp add: int32_value_def)

lemma unmarshal_event_fields:
  assumes "length opType + length (ns_DB ns) + length (ns_Coll ns) + length (rv_value docID) + 500 < 2 ^ 31"
    and "wf_value docID"
  shows "unmarshal_event zero_event (enc_doc (event_fields opType ns docID docLen ct)) =
    Inr \<lparr>pe_OpType = opType, pe_Ns = Some ns, pe_DocID = Some docID, pe_FullDocument = None,
         pe_FullDocLen = Some (scast docLen), pe_ClusterTime = Some ct\<rparr>"
proof -
  have ns: "length (ns_DB ns) + length (ns_Coll ns) + 50 < 2 ^ 31" and l: "length opType + 5 < 2 ^ 31"
    using assms(1) by simp_all
  note nsd = unmarshal_namespace_enc [OF ns]
  have wns: "wf_value (document_value (enc_doc (ns_fields ns)))" by (rule wf_document_value [OF nsd(2)])
  have len: "length (enc_doc (ns_fields ns)) = 25 + length (ns_DB ns) + length (ns_Coll ns)"
    by (simp add: length_enc_doc ns_fields_def)
  have w: "list_all wf_kv (event_fields opType ns docID docLen ct)"
    using l wns assms(2) by (simp add: event_fields_def wf_kv_def valid_cstring_def wf_string_value)
  have s: "small (event_fields opType ns docID docLen ct)"
    using assms(1) by (simp add: event_fields_def small_def len)
  show ?thesis
    unfolding unmarshal_event_def unmarshal_fields_enc [OF w s]
    using l wns assms(2) nsd
    by (simp add: event_fields_def valid_cstring_def wf_string_value cast_string_value cast_raw_enc
        as_int64_int32 zero_event_def)
qed

section \<open>The event recorder\<close>

record event_counts =
  Insert :: u64
  Update :: u64
  Replace :: u64
  Delete :: u64
  Create :: u64
  Modify :: u64
  CreateIndexes :: u64
  DropIndexes :: u64
  ShardCollection :: u64
  ReshardCollection :: u64
  RefineCollectionShardKey :: u64

definition zero_counts :: event_counts where
  "zero_counts = \<lparr>Insert = 0, Update = 0, Replace = 0, Delete = 0, Create = 0, Modify = 0, CreateIndexes = 0,
     DropIndexes = 0, ShardCollection = 0, ReshardCollection = 0, RefineCollectionShardKey = 0\<rparr>"

definition count_ddl :: "event_counts \<Rightarrow> u64" where
  "count_ddl c = Create c + Modify c + CreateIndexes c + DropIndexes c + ShardCollection c
     + ReshardCollection c + RefineCollectionShardKey c"

definition total_events :: "event_counts \<Rightarrow> u64" where
  "total_events c = Insert c + Update c + Replace c + Delete c + count_ddl c"

definition bump :: "string \<Rightarrow> event_counts \<Rightarrow> event_counts option" where
  "bump opType c =
     (if opType = ''insert'' then Some (c\<lparr>Insert := Insert c + 1\<rparr>)
      else if opType = ''update'' then Some (c\<lparr>Update := Update c + 1\<rparr>)
      else if opType = ''replace'' then Some (c\<lparr>Replace := Replace c + 1\<rparr>)
      else if opType = ''delete'' then Some (c\<lparr>Delete := Delete c + 1\<rparr>)
      else if opType = ''create'' then Some (c\<lparr>Create := Create c + 1\<rparr>)
      else if opType = ''modify'' then Some (c\<lparr>Modify := Modify c + 1\<rparr>)
      else if opType = ''createIndexes'' then Some (c\<lparr>CreateIndexes := CreateIndexes c + 1\<rparr>)
      else if opType = ''dropIndexes'' then Some (c\<lparr>DropIndexes := DropIndexes c + 1\<rparr>)
      else if opType = ''shardCollection'' then Some (c\<lparr>ShardCollection := ShardCollection c + 1\<rparr>)
      else if opType = ''reshardCollection'' then Some (c\<lparr>ReshardCollection := ReshardCollection c + 1\<rparr>)
      else if opType = ''refineCollectionShardKey''
      then Some (c\<lparr>RefineCollectionShardKey := RefineCollectionShardKey c + 1\<rparr>)
      else None)"

type_synonym recorder = "(string \<times> event_counts) list"

text \<open>
  \<open>AddEvent\<close> stores the namespace's counts also when the operation type is unknown, and reports that
  as an error: the new recorder comes with the error.
\<close>

definition add_event :: "recorder \<Rightarrow> parsed_event \<Rightarrow> recorder \<times> go_error option" where
  "add_event m ev = (case pe_Ns ev of
       None \<Rightarrow> (m, Some (Err ''Change event lacks a namespace''))
     | Some ns \<Rightarrow>
         (let nsStr = full_name ns;
              nsStats = (case map_of m nsStr of None \<Rightarrow> zero_counts | Some c \<Rightarrow> c)
          in case bump (pe_OpType ev) nsStats of
               Some nsStats' \<Rightarrow> (AList.update nsStr nsStats' m, None)
             | None \<Rightarrow> (AList.update nsStr nsStats m, Some (Err ''event with unknown optype''))))"

definition recorder_reset :: "recorder \<Rightarrow> recorder" where
  "recorder_reset m = []"

definition recorder_total :: "recorder \<Rightarrow> u64" where
  "recorder_total m = (\<Sum>(ns, c) \<leftarrow> m. total_events c)"

lemma bump_total: "bump opType c = Some c' \<Longrightarrow> total_events c' = total_events c + 1"
  by (auto simp: bump_def total_events_def count_ddl_def split: if_splits)

lemma zero_counts_total [simp]: "total_events zero_counts = 0"
  by (simp add: zero_counts_def total_events_def count_ddl_def)

lemma recorder_total_update:
  "distinct (map fst m) \<Longrightarrow>
     recorder_total (AList.update k c m)
       = recorder_total m - (case map_of m k of None \<Rightarrow> 0 | Some c0 \<Rightarrow> total_events c0) + total_events c"
  by (induction m) (auto simp: recorder_total_def split: option.splits)

text \<open>The recorder counts every event once: adding an event of a known type raises the total by one
  and leaves the other namespaces' counts alone; an event it refuses changes no count.\<close>

theorem add_event_counts:
  assumes "distinct (map fst m)" "add_event m ev = (m', err)"
  shows "distinct (map fst m') \<and>
    recorder_total m' = recorder_total m + (if err = None then 1 else 0) \<and>
    (\<forall>k. (\<forall>ns. pe_Ns ev = Some ns \<longrightarrow> k \<noteq> full_name ns) \<longrightarrow> map_of m' k = map_of m k)"
proof (cases "pe_Ns ev")
  case None
  with assms show ?thesis by (auto simp: add_event_def)
next
  case (Some ns)
  let ?s = "case map_of m (full_name ns) of None \<Rightarrow> zero_counts | Some c \<Rightarrow> c"
  let ?s' = "case bump (pe_OpType ev) ?s of None \<Rightarrow> ?s | Some c \<Rightarrow> c"
  from assms(2) Some have m': "m' = AList.update (full_name ns) ?s' m"
    and err: "err = None \<longleftrightarrow> bump (pe_OpType ev) ?s \<noteq> None"
    by (auto simp: add_event_def Let_def split: option.splits)
  have "total_events ?s' = total_events ?s + (if err = None then 1 else 0)"
    using err by (cases "bump (pe_OpType ev) ?s") (auto dest: bump_total)
  moreover have "(case map_of m (full_name ns) of None \<Rightarrow> 0 | Some c0 \<Rightarrow> total_events c0) = total_events ?s"
    by (simp split: option.splits)
  ultimately have "recorder_total m' = recorder_total m + (if err = None then 1 else 0)"
    unfolding m' recorder_total_update [OF assms(1)] by simp
  moreover have "map_of m' k = map_of m k" if "k \<noteq> full_name ns" for k
    using that by (simp add: m' update_conv')
  moreover have "distinct (map fst m')"
    using assms(1) unfolding m' by (rule distinct_update)
  ultimately show ?thesis by (auto simp: Some)
qed

theorem add_event_counts_witness:
  "\<exists>m'. add_event [] (zero_event\<lparr>pe_OpType := ''insert'', pe_Ns := Some \<lparr>ns_DB = ''d'', ns_Coll = ''c''\<rparr>\<rparr>) = (m', None)
     \<and> recorder_total m' = 1"
proof -
  let ?ev = "zero_event\<lparr>pe_OpType := ''insert'', pe_Ns := Some \<lparr>ns_DB = ''d'', ns_Coll = ''c''\<rparr>\<rparr>"
  obtain m' where m': "add_event [] ?ev = (m', None)"
    by (simp add: add_event_def bump_def Let_def)
  from add_event_counts [OF _ m'] have "recorder_total m' = 1" by (simp add: recorder_total_def)
  with m' show ?thesis by blast
qed

text \<open>A data event as the projection encodes it (operation type, namespace, document id, length,
  cluster time) is read back field for field, for any text within the size of a document.\<close>

theorem event_roundtrip:
  assumes "length opType + length (ns_DB ns) + length (ns_Coll ns) + length (rv_value docID) + 500 < 2 ^ 31"
    and "wf_value docID"
  shows "unmarshal_event zero_event (enc_doc (event_fields opType ns docID docLen ct)) =
    Inr \<lparr>pe_OpType = opType, pe_Ns = Some ns, pe_DocID = Some docID, pe_FullDocument = None,
         pe_FullDocLen = Some (scast docLen), pe_ClusterTime = Some ct\<rparr>"
  using assms by (rule unmarshal_event_fields)

theorem event_roundtrip_witness:
  "\<exists>ev. unmarshal_event zero_event (enc_doc (event_fields ''insert'' \<lparr>ns_DB = ''d'', ns_Coll = ''c''\<rparr>
      (int32_value 7) 3 \<lparr>ts_T = 1, ts_I = 2\<rparr>)) = Inr ev \<and> pe_OpType ev = ''insert''"
  by (simp add: event_roundtrip)

end
