(* ===== verification/Recheck_Queue.thy ===== *)
theory Recheck_Queue
  imports Events Containers
begin

text \<open>
  The recheck queue (\<open>internal/verifier/recheck.go\<close>, \<open>recheck_persist.go\<close>): rechecks from change
  events and mismatches are marshalled and inserted in batches; each generation's queue, read in the
  order of its keys, becomes the next generation's recheck tasks. The database is outside: an insert
  is a batch in the result, a cursor is the list of the raw documents it yields, and the random part
  of a key, the marshalled form of a task and the partition size are parameters.
\<close>

section \<open>Inserting rechecks\<close>

definition recheckBatchByteLimit :: nat where "recheckBatchByteLimit = 1024 * 1024"
definition recheckBatchCountLimit :: nat where "recheckBatchCountLimit = 1000"
definition maxTasksPerRequest :: nat where "maxTasksPerRequest = 500"
definition maxInsertSize :: nat where "maxInsertSize = 256 * 2 ^ 10"
definition maxRecheckIDsBytes :: nat where "maxRecheckIDsBytes = 1024 * 1024"
definition maxRecheckIDs :: nat where "maxRecheckIDs = 10000"

datatype whichCluster = Src | Dst

text \<open>
  The rechecks come as parallel slices; \<open>recheck_input\<close> is one index of them. The times are absent
  for the kind of recheck that has none.
\<close>

record recheck_input =
  ri_db :: string
  ri_coll :: string
  ri_docID :: raw_value
  ri_dataSize :: u32
  ri_firstMismatch :: "u64 option"
  ri_opTime :: "timestamp option"

definition recheck_of :: "whichCluster option \<Rightarrow> u32 \<Rightarrow> recheck_input \<Rightarrow> recheck_doc" where
  "recheck_of changeOrigin rand i =
     \<lparr>PrimaryKey = \<lparr>SrcDatabaseName = ri_db i, SrcCollectionName = ri_coll i, DocumentID = ri_docID i, Rand = rand\<rparr>,
      DataSize = ri_dataSize i, ChangeOpTime = ri_opTime i, FromDst = (changeOrigin = Some Dst),
      FirstMismatchTime = ri_firstMismatch i\<rparr>"

definition batch_step ::
  "bytes list list \<times> bytes list \<times> nat \<Rightarrow> bytes \<Rightarrow> bytes list list \<times> bytes list \<times> nat" where
  "batch_step = (\<lambda>(sent, curRechecks, curBatchBytes) recheckRaw.
     let cur = curRechecks @ [recheckRaw]; n = curBatchBytes + length recheckRaw
     in if n > recheckBatchByteLimit \<or> length cur \<ge> recheckBatchCountLimit
        then (sent @ [cur], [], 0) else (sent, cur, n))"

definition batch_rechecks :: "bytes list \<Rightarrow> bytes list list" where
  "batch_rechecks raws = (case foldl batch_step ([], [], 0) raws of
     (sent, curRechecks, _) \<Rightarrow> if length curRechecks > 0 then sent @ [curRechecks] else sent)"

fun marshal_rechecks :: "whichCluster option \<Rightarrow> (nat \<Rightarrow> u32) \<Rightarrow> nat \<Rightarrow> recheck_input list \<Rightarrow> go_error + bytes list" where
  "marshal_rechecks origin rnd i [] = Inr []"
| "marshal_rechecks origin rnd i (x # xs) =
     rbind (marshal_doc (recheck_of origin (rnd i) x)) (\<lambda>d.
     rbind (marshal_rechecks origin rnd (Suc i) xs) (\<lambda>ds. Inr (d # ds)))"

text \<open>
  The result is the batches handed to the insert threads. Whether times or optimes were given is the
  slices' emptiness, so inputs of one call agree on it.
\<close>

definition insert_recheck_docs ::
  "(nat \<Rightarrow> u32) \<Rightarrow> recheck_input list \<Rightarrow> bool \<Rightarrow> bool \<Rightarrow> whichCluster option \<Rightarrow> go_error + bytes list list" where
  "insert_recheck_docs rnd inputs hasMismatchTimes hasOpTimes changeOrigin =
     (if \<not> hasMismatchTimes \<longleftrightarrow> \<not> hasOpTimes
      then Inl (Panic ''Expect either mismatch times or optimes, not both/neither.'')
      else if hasOpTimes \<and> changeOrigin = None
      then Inl (Panic ''change origin must be specified if optimes are specified'')
      else rbind (marshal_rechecks changeOrigin rnd 0 inputs) (\<lambda>raws. Inr (batch_rechecks raws)))"

definition write_concern_majority :: bytes where
  "write_concern_majority = enc_doc [(''w'', string_value ''majority'')]"

definition build_request_bson :: "string \<Rightarrow> bytes list \<Rightarrow> go_error + bytes" where
  "build_request_bson collName rechecks =
     rbind (get_bson_array_size rechecks) (\<lambda>rechecksBSONSize.
     let rechecksBSON = append32 (word_of_nat rechecksBSONSize)
           @ concat (map (\<lambda>(i, d). enc_elem (itoa i) (document_value d)) (enumerate 0 rechecks)) @ [0]
     in if length rechecksBSON \<noteq> rechecksBSONSize then Inl (Panic ''rechecks BSON doc size'')
        else let orderedEl = enc_elem ''ordered'' (boolean_value False);
                 writeConcernEl = enc_elem ''writeConcern'' (document_value write_concern_majority);
                 insertBaseLen = length (enc_elem ''insert'' (string_value []));
                 documentsBaseLen = length (enc_elem ''documents'' (array_value []));
                 expectedBSONSize = 4 + insertBaseLen + length collName + documentsBaseLen + rechecksBSONSize
                   + length orderedEl + length writeConcernEl + 1;
                 body = enc_elem ''insert'' (string_value collName) @ enc_elem ''documents'' (array_value rechecksBSON)
                   @ orderedEl @ writeConcernEl @ [0]
             in if 4 + length body \<noteq> expectedBSONSize then Inl (Panic ''request BSON size'')
                else Inr (append32 (word_of_nat (4 + length body)) @ body))"

subsection \<open>The batches\<close>

definition batch_ok :: "bytes list \<Rightarrow> bool" where
  "batch_ok b \<longleftrightarrow> b \<noteq> [] \<and> length b \<le> recheckBatchCountLimit
     \<and> sum_list (map length (butlast b)) \<le> recheckBatchByteLimit"

lemma batch_step_inv:
  assumes "list_all batch_ok sent" "length cur < recheckBatchCountLimit"
    "n = sum_list (map length cur)" "n \<le> recheckBatchByteLimit"
  shows "case batch_step (sent, cur, n) r of (sent', cur', n') \<Rightarrow>
    list_all batch_ok sent' \<and> length cur' < recheckBatchCountLimit \<and> n' = sum_list (map length cur')
    \<and> n' \<le> recheckBatchByteLimit \<and> concat sent' @ cur' = concat sent @ cur @ [r]"
  using assms by (auto simp: batch_step_def Let_def batch_ok_def recheckBatchCountLimit_def)

lemma foldl_batch_step:
  assumes "list_all batch_ok sent" "length cur < recheckBatchCountLimit"
    "n = sum_list (map length cur)" "n \<le> recheckBatchByteLimit"
  shows "case foldl batch_step (sent, cur, n) rs of (sent', cur', n') \<Rightarrow>
    list_all batch_ok sent' \<and> length cur' < recheckBatchCountLimit \<and> n' = sum_list (map length cur')
    \<and> n' \<le> recheckBatchByteLimit \<and> concat sent' @ cur' = concat sent @ cur @ rs"
  using assms
proof (induction rs arbitrary: sent cur n)
  case (Cons r rs)
  obtain s1 c1 n1 where st: "batch_step (sent, cur, n) r = (s1, c1, n1)" by (metis prod_cases3)
  from batch_step_inv [OF Cons.prems, of r] st have
    i: "list_all batch_ok s1" "length c1 < recheckBatchCountLimit" "n1 = sum_list (map length c1)"
      "n1 \<le> recheckBatchByteLimit" "concat s1 @ c1 = concat sent @ cur @ [r]" by auto
  have e: "concat s1 @ c1 @ rs = concat sent @ cur @ r # rs"
    using i(5) by (metis append.assoc append_Cons append_Nil)
  from Cons.IH [OF i(1-4)] show ?case by (simp only: foldl_Cons st e)
qed simp

lemma batch_rechecks_ok:
  "concat (batch_rechecks raws) = raws \<and> list_all batch_ok (batch_rechecks raws)"
proof -
  obtain s c n where f: "foldl batch_step ([], [], 0) raws = (s, c, n)" by (metis prod_cases3)
  have i: "list_all batch_ok s" "length c < recheckBatchCountLimit" "n = sum_list (map length c)"
    "n \<le> recheckBatchByteLimit" "concat s @ c = raws"
    using foldl_batch_step [of "[]" "[]" 0 raws] f by (simp_all add: recheckBatchCountLimit_def)
  have "sum_list (map length (butlast c)) \<le> sum_list (map length c)" if "c \<noteq> []"
    using that by (metis append_butlast_last_id le_add1 map_append sum_list_append)
  with i have "c \<noteq> [] \<Longrightarrow> batch_ok c" by (simp add: batch_ok_def)
  with i show ?thesis by (cases "c = []") (simp_all add: batch_rechecks_def f)
qed

text \<open>Every recheck is inserted exactly once and in order: the batches concatenate to the marshalled
  rechecks, no batch is empty or above 1000 documents, and each stays within 1 MiB but for its last
  document. The call panics when both or neither kind of time is given, or optimes without an origin.\<close>

theorem insert_recheck_docs_batches:
  "case insert_recheck_docs rnd inputs hasMt hasOt origin of
     Inl e \<Rightarrow> is_panic e \<and> ((hasMt \<longleftrightarrow> hasOt) \<or> hasOt \<and> origin = None
        \<or> (\<exists>x \<in> set inputs. origin = Some Dst \<and> ri_opTime x = None))
   | Inr batches \<Rightarrow> (hasMt \<longleftrightarrow> \<not> hasOt)
       \<and> marshal_rechecks origin rnd 0 inputs = Inr (concat batches)
       \<and> length (concat batches) = length inputs
       \<and> list_all (\<lambda>b. b \<noteq> [] \<and> length b \<le> 1000 \<and> sum_list (map length (butlast b)) \<le> 1024 * 1024) batches"
proof -
  have m: "case marshal_rechecks origin rnd i xs of
      Inl e \<Rightarrow> is_panic e \<and> (\<exists>x \<in> set xs. origin = Some Dst \<and> ri_opTime x = None)
    | Inr ds \<Rightarrow> length ds = length xs" for i xs
  proof (induction xs arbitrary: i)
    case (Cons x xs)
    from Cons [of "Suc i"] show ?case
      by (auto simp: marshal_doc_eq recheck_of_def split: sum.splits)
  qed simp
  show ?thesis
  proof (cases "marshal_rechecks origin rnd 0 inputs")
    case (Inl e)
    with m [where i = 0 and xs = inputs] show ?thesis by (simp add: insert_recheck_docs_def)
  next
    case (Inr ds)
    with m [where i = 0 and xs = inputs] batch_rechecks_ok [of ds] show ?thesis
      by (simp add: insert_recheck_docs_def batch_ok_def [abs_def] recheckBatchCountLimit_def recheckBatchByteLimit_def)
  qed
qed

text \<open>The insert request of a batch below a million documents has exactly the length the code computes
  for it in advance, so neither of its assertions can fail; it is the encoding of the insert command
  with the documents as an array.\<close>

theorem build_request_bson_exact:
  assumes "length rechecks < 1000000"
  shows "build_request_bson collName rechecks = Inr (enc_doc
    [(''insert'', string_value collName), (''documents'', array_value (enc_array TypeEmbeddedDocument rechecks)),
     (''ordered'', boolean_value False), (''writeConcern'', document_value write_concern_majority)])"
proof -
  let ?els = "map (\<lambda>(i, d). (itoa i, \<lparr>rv_type = TypeEmbeddedDocument, rv_value = d\<rparr>)) (enumerate 0 rechecks)"
  have e: "concat (map (\<lambda>(i, d). enc_elem (itoa i) (document_value d)) (enumerate 0 rechecks))
      = concat (map (\<lambda>(k, v). enc_elem k v) ?els)"
    by (rule arg_cong [where f = concat]) (auto simp: document_value_def)
  note n = get_bson_array_size_correct [OF assms, of TypeEmbeddedDocument]
  have l: "length (enc_array TypeEmbeddedDocument rechecks) = length (concat (map (\<lambda>(k, v). enc_elem k v) ?els)) + 5"
    by (simp only: enc_array_def length_enc_doc length_concat_enc)
  have d: "append32 (word_of_nat (length (enc_array TypeEmbeddedDocument rechecks)))
      @ concat (map (\<lambda>(i, d). enc_elem (itoa i) (document_value d)) (enumerate 0 rechecks)) @ [0]
      = enc_array TypeEmbeddedDocument rechecks"
    unfolding e l by (simp only: enc_array_def enc_doc_def Let_def)
  show ?thesis
    unfolding build_request_bson_def n rbind_simps Let_def d
    by (simp add: length_enc_elem enc_doc_def [of "_ # _"] add.commute add.left_commute)
qed

theorem build_request_bson_exact_witness:
  "is_ok (build_request_bson ''recheckQueue_gen1'' [enc_doc []])"
  by (simp add: build_request_bson_exact is_ok_def)

section \<open>Rechecks from change events\<close>

definition allowedSrcDDLOpTypes :: "string list" where
  "allowedSrcDDLOpTypes = [''create'', ''modify'', ''createIndexes'', ''dropIndexes'', ''shardCollection'',
     ''reshardCollection'', ''refineCollectionShardKey'']"

definition defaultUserDocumentSize :: u32 where "defaultUserDocumentSize = 1024"

record persist_state =
  ps_counts :: event_counts
  ps_recorder :: recorder
  ps_rechecks :: "recheck_input list"

text \<open>A nil pointer that is dereferenced is a panic.\<close>

definition deref :: "'a option \<Rightarrow> go_error + 'a" where
  "deref p = (case p of None \<Rightarrow> Inl (Panic ''nil pointer dereference'') | Some x \<Rightarrow> Inr x)"

text \<open>The namespace of the source that a change event is about; \<open>Inr None\<close> skips the event.\<close>

definition source_namespace :: "whichCluster \<Rightarrow> nsmap \<Rightarrow> string \<Rightarrow> parsed_event \<Rightarrow> go_error + (string \<times> string) option" where
  "source_namespace origin m metaDB ev =
     (if origin = Dst
      then rbind (nsmap_len m) (\<lambda>len.
           rbind (deref (pe_Ns ev)) (\<lambda>ns.
             if len = 0 then Inr (Some (ns_DB ns, ns_Coll ns))
             else if ns_DB ns = metaDB then Inr None
             else (case get_src_namespace m (full_name ns) of
                     None \<Rightarrow> Inl (Err ''no source namespace matches the destination namespace'')
                   | Some srcNs \<Rightarrow> Inr (Some (split_namespace srcNs)))))
      else rbind (deref (pe_Ns ev)) (\<lambda>ns. Inr (Some (ns_DB ns, ns_Coll ns))))"

definition event_data_size :: "parsed_event \<Rightarrow> u32" where
  "event_data_size ev =
     (let len = (case pe_FullDocLen ev of None \<Rightarrow> 0 | Some n \<Rightarrow> n)
      in if len > 0 then ucast len
         else (case pe_FullDocument ev of
                 None \<Rightarrow> defaultUserDocumentSize
               | Some d \<Rightarrow> word_of_nat (length d)))"

definition persist_event :: "whichCluster \<Rightarrow> nsmap \<Rightarrow> string \<Rightarrow> persist_state \<Rightarrow> parsed_event \<Rightarrow> go_error + persist_state" where
  "persist_event origin m metaDB s ev =
     (let s' = s\<lparr>ps_counts := (case bump (pe_OpType ev) (ps_counts s) of None \<Rightarrow> ps_counts s | Some c \<Rightarrow> c)\<rparr>
      in case pe_DocID ev of
           None \<Rightarrow>
             if origin = Src \<and> pe_OpType ev \<notin> set allowedSrcDDLOpTypes
             then Inl (Panic ''non-doc event must be an allowed DDL event type'')
             else Inr s'
         | Some docID \<Rightarrow>
             rbind (source_namespace origin m metaDB ev) (\<lambda>nsOpt.
               case nsOpt of
                 None \<Rightarrow> Inr s'
               | Some (db, coll) \<Rightarrow>
                   (case add_event (ps_recorder s') ev of
                      (_, Some e) \<Rightarrow> Inl (Err ''failed to augment stats'')
                    | (recorder', None) \<Rightarrow>
                        rbind (deref (pe_ClusterTime ev)) (\<lambda>ct.
                          Inr (s'\<lparr>ps_recorder := recorder',
                                 ps_rechecks := ps_rechecks s' @
                                   [\<lparr>ri_db = db, ri_coll = coll, ri_docID = docID, ri_dataSize = event_data_size ev,
                                     ri_firstMismatch = None, ri_opTime = Some ct\<rparr>]\<rparr>)))))"

definition persist_change_events :: "whichCluster \<Rightarrow> nsmap \<Rightarrow> string \<Rightarrow> (nat \<Rightarrow> u32) \<Rightarrow> event_counts \<Rightarrow> recorder
     \<Rightarrow> parsed_event list \<Rightarrow> go_error + event_counts \<times> recorder \<times> bytes list list" where
  "persist_change_events origin m metaDB rnd counts rec events =
     rbind (rfold (persist_event origin m metaDB) \<lparr>ps_counts = counts, ps_recorder = rec, ps_rechecks = []\<rparr> events)
       (\<lambda>s. if ps_rechecks s = [] then Inr (ps_counts s, ps_recorder s, [])
            else rbind (insert_recheck_docs rnd (ps_rechecks s) False True (Some origin))
                   (\<lambda>batches. Inr (ps_counts s, ps_recorder s, batches)))"

definition event_recheck :: "whichCluster \<Rightarrow> nsmap \<Rightarrow> string \<Rightarrow> parsed_event \<Rightarrow> recheck_input list" where
  "event_recheck origin m metaDB ev = (case (pe_DocID ev, source_namespace origin m metaDB ev) of
       (Some docID, Inr (Some (db, coll))) \<Rightarrow>
         [\<lparr>ri_db = db, ri_coll = coll, ri_docID = docID, ri_dataSize = event_data_size ev,
           ri_firstMismatch = None, ri_opTime = pe_ClusterTime ev\<rparr>]
     | _ \<Rightarrow> [])"

lemma persist_event_Inr:
  assumes "persist_event origin m metaDB s ev = Inr s'"
  shows "ps_rechecks s' = ps_rechecks s @ event_recheck origin m metaDB ev
     \<and> (\<forall>r \<in> set (event_recheck origin m metaDB ev). ri_opTime r \<noteq> None)"
proof (cases "pe_DocID ev")
  case None
  with assms show ?thesis by (auto simp: persist_event_def event_recheck_def Let_def split: if_splits)
next
  case (Some docID)
  with assms obtain nsOpt where ns: "source_namespace origin m metaDB ev = Inr nsOpt"
    by (auto simp: persist_event_def Let_def rbind_eq_Inr)
  show ?thesis
  proof (cases nsOpt)
    case None
    with assms Some ns show ?thesis by (auto simp: persist_event_def event_recheck_def Let_def)
  next
    case (Some p)
    obtain db coll where p: "p = (db, coll)" by (cases p)
    obtain rec err where a: "add_event (ps_recorder s) ev = (rec, err)" by (cases "add_event (ps_recorder s) ev")
    with assms \<open>pe_DocID ev = Some docID\<close> ns Some p have "err = None"
      by (cases err) (auto simp: persist_event_def Let_def)
    with assms \<open>pe_DocID ev = Some docID\<close> ns Some p a show ?thesis
      by (cases "pe_ClusterTime ev") (auto simp: persist_event_def event_recheck_def Let_def deref_def)
  qed
qed

lemma persist_events_rechecks:
  "rfold (persist_event origin m metaDB) s events = Inr s' \<Longrightarrow>
     ps_rechecks s' = ps_rechecks s @ concat (map (event_recheck origin m metaDB) events)
     \<and> (\<forall>r \<in> set (concat (map (event_recheck origin m metaDB) events)). ri_opTime r \<noteq> None)"
proof (induction events arbitrary: s)
  case (Cons ev events)
  then obtain s1 where s1: "persist_event origin m metaDB s ev = Inr s1"
    "rfold (persist_event origin m metaDB) s1 events = Inr s'" by (auto simp: rbind_eq_Inr)
  from persist_event_Inr [OF s1(1)] Cons.IH [OF s1(2)] show ?case by auto
qed simp

lemma persist_change_events_raws:
  assumes "persist_change_events origin m metaDB rnd counts rec events = Inr (counts', rec', batches)"
  shows "\<exists>raws. concat batches = raws
    \<and> marshal_rechecks (Some origin) rnd 0 (concat (map (event_recheck origin m metaDB) events)) = Inr raws
    \<and> length raws = length (concat (map (event_recheck origin m metaDB) events))"
proof -
  let ?rs = "concat (map (event_recheck origin m metaDB) events)"
  from assms obtain s where s: "rfold (persist_event origin m metaDB)
      \<lparr>ps_counts = counts, ps_recorder = rec, ps_rechecks = []\<rparr> events = Inr s"
    and r: "(if ps_rechecks s = [] then Inr (ps_counts s, ps_recorder s, [])
            else rbind (insert_recheck_docs rnd (ps_rechecks s) False True (Some origin))
                   (\<lambda>batches. Inr (ps_counts s, ps_recorder s, batches))) = Inr (counts', rec', batches)"
    by (auto simp: persist_change_events_def rbind_eq_Inr)
  from persist_events_rechecks [OF s] have rs: "ps_rechecks s = ?rs" by simp
  have len: "marshal_rechecks origin' rnd i xs = Inr ds \<Longrightarrow> length ds = length xs" for origin' i xs ds
    by (induction xs arbitrary: i ds) (auto simp: rbind_eq_Inr)
  show ?thesis
  proof (cases "?rs = []")
    case True
    with r rs have "batches = []" by (simp del: concat_eq_Nil_conv)
    then show ?thesis by (simp only: True) simp
  next
    case False
    from r [unfolded rs if_not_P [OF False]] obtain raws where
      "marshal_rechecks (Some origin) rnd 0 ?rs = Inr raws" "batches = batch_rechecks raws"
      by (auto simp: insert_recheck_docs_def rbind_eq_Inr simp del: concat_eq_Nil_conv)
    with batch_rechecks_ok [of raws] len show ?thesis by auto
  qed
qed

text \<open>The events the handler accepts: it fails on any other.\<close>

definition event_ok :: "whichCluster \<Rightarrow> nsmap \<Rightarrow> string \<Rightarrow> parsed_event \<Rightarrow> bool" where
  "event_ok origin m metaDB ev = (case pe_DocID ev of
       None \<Rightarrow> origin = Dst \<or> pe_OpType ev \<in> set allowedSrcDDLOpTypes
     | Some _ \<Rightarrow> (case source_namespace origin m metaDB ev of
           Inl _ \<Rightarrow> False
         | Inr None \<Rightarrow> True
         | Inr (Some _) \<Rightarrow> bump (pe_OpType ev) zero_counts \<noteq> None \<and> pe_ClusterTime ev \<noteq> None))"

lemma bump_known: "bump opType c = None \<longleftrightarrow> bump opType zero_counts = None"
  by (simp add: bump_def)

lemma source_namespace_ns: "source_namespace origin m metaDB ev = Inr r \<Longrightarrow> pe_Ns ev \<noteq> None"
  by (cases "pe_Ns ev") (auto simp: source_namespace_def deref_def rbind_eq_Inr split: if_splits)

lemma add_event_err: "pe_Ns ev \<noteq> None \<Longrightarrow>
    snd (add_event rec ev) = None \<longleftrightarrow> bump (pe_OpType ev) zero_counts \<noteq> None"
proof -
  assume "pe_Ns ev \<noteq> None"
  then obtain ns where ns: "pe_Ns ev = Some ns" by auto
  let ?c = "case map_of rec (full_name ns) of None \<Rightarrow> zero_counts | Some c \<Rightarrow> c"
  have "snd (add_event rec ev) = None \<longleftrightarrow> bump (pe_OpType ev) ?c \<noteq> None"
    by (simp add: add_event_def ns Let_def split: option.split)
  also have "\<dots> \<longleftrightarrow> bump (pe_OpType ev) zero_counts \<noteq> None" by (simp only: bump_known [of "pe_OpType ev" ?c])
  finally show ?thesis .
qed

lemma persist_event_ok_iff: "is_ok (persist_event origin m metaDB s ev) \<longleftrightarrow> event_ok origin m metaDB ev"
proof (cases "pe_DocID ev")
  case None
  then show ?thesis by (cases origin) (simp_all add: persist_event_def event_ok_def Let_def)
next
  case (Some docID)
  show ?thesis
  proof (cases "source_namespace origin m metaDB ev")
    case (Inl e)
    with Some show ?thesis by (simp add: persist_event_def event_ok_def Let_def)
  next
    case (Inr r)
    note err = add_event_err [OF source_namespace_ns [OF Inr]]
    show ?thesis
      using Some Inr err [of "ps_recorder s"]
      by (cases "add_event (ps_recorder s) ev"; cases r; cases "pe_ClusterTime ev")
        (auto simp: persist_event_def event_ok_def Let_def deref_def split: option.splits)
  qed
qed

lemma persist_events_ok_iff:
  "is_ok (rfold (persist_event origin m metaDB) s events) \<longleftrightarrow> list_all (event_ok origin m metaDB) events"
proof (induction events arbitrary: s)
  case (Cons ev events)
  with persist_event_ok_iff [of origin m metaDB s ev] show ?case
    by (cases "persist_event origin m metaDB s ev") simp_all
qed simp

lemma marshal_rechecks_ok:
  "\<forall>x \<in> set xs. ri_opTime x \<noteq> None \<Longrightarrow> is_ok (marshal_rechecks origin rnd i xs)"
proof (induction xs arbitrary: i)
  case (Cons x xs)
  from Cons.prems have "is_ok (marshal_doc (recheck_of origin (rnd i) x))"
    by (simp add: marshal_doc_eq recheck_of_def)
  with Cons show ?case
    by (cases "marshal_doc (recheck_of origin (rnd i) x)"; cases "marshal_rechecks origin rnd (Suc i) xs")
      (use Cons.IH [of "Suc i"] in auto)
qed simp

lemma persist_change_events_ok_iff:
  "is_ok (persist_change_events origin m metaDB rnd counts rec events) \<longleftrightarrow> list_all (event_ok origin m metaDB) events"
proof (cases "rfold (persist_event origin m metaDB) \<lparr>ps_counts = counts, ps_recorder = rec, ps_rechecks = []\<rparr> events")
  case (Inl e)
  with persist_events_ok_iff [of origin m metaDB "\<lparr>ps_counts = counts, ps_recorder = rec, ps_rechecks = []\<rparr>" events]
  show ?thesis by (simp add: persist_change_events_def)
next
  case (Inr s)
  from persist_events_rechecks [OF Inr] have "\<forall>x \<in> set (ps_rechecks s). ri_opTime x \<noteq> None" by simp
  from marshal_rechecks_ok [OF this, of "Some origin" rnd 0]
  have "is_ok (persist_change_events origin m metaDB rnd counts rec events)"
    by (cases "marshal_rechecks (Some origin) rnd 0 (ps_rechecks s)")
      (simp_all add: persist_change_events_def Inr insert_recheck_docs_def)
  with Inr persist_events_ok_iff [of origin m metaDB "\<lparr>ps_counts = counts, ps_recorder = rec, ps_rechecks = []\<rparr>" events]
  show ?thesis by simp
qed

text \<open>A batch of change events is handled without error exactly when each event is one the handler
  accepts; then each document event outside the metadata database has become exactly one recheck, in
  order, under the source's namespace and with the event's optime, and all of them are inserted.\<close>

theorem persist_change_events_complete:
  "case persist_change_events origin m metaDB rnd counts rec events of
     Inl e \<Rightarrow> \<not> list_all (event_ok origin m metaDB) events
   | Inr (counts', rec', batches) \<Rightarrow> list_all (event_ok origin m metaDB) events
       \<and> marshal_rechecks (Some origin) rnd 0 (concat (map (event_recheck origin m metaDB) events)) = Inr (concat batches)
       \<and> length (concat batches) = length (concat (map (event_recheck origin m metaDB) events))"
proof (cases "persist_change_events origin m metaDB rnd counts rec events")
  case (Inl e)
  with persist_change_events_ok_iff [of origin m metaDB rnd counts rec events] show ?thesis by simp
next
  case (Inr r)
  obtain counts' rec' batches where r: "r = (counts', rec', batches)" by (metis prod_cases3)
  with Inr persist_change_events_ok_iff [of origin m metaDB rnd counts rec events]
    persist_change_events_raws [of origin m metaDB rnd counts rec events counts' rec' batches]
  show ?thesis by auto
qed

text \<open>An event without a cluster time, which the code means only to warn about, panics: its time is
  dereferenced a few lines on.\<close>

theorem event_without_cluster_time_panics:
  assumes "pe_DocID ev = Some docID" "pe_ClusterTime ev = None" "pe_Ns ev = Some ns" "bump (pe_OpType ev) zero_counts \<noteq> None"
  shows "persist_event Src m metaDB s ev = Inl (Panic ''nil pointer dereference'')"
proof -
  have "bump (pe_OpType ev) c \<noteq> None" for c
    using assms(4) by (auto simp: bump_def split: if_splits)
  then show ?thesis using assms
    by (auto simp: persist_event_def source_namespace_def deref_def add_event_def Let_def split: option.splits)
qed

theorem event_without_cluster_time_panics_witness:
  "persist_event Src new_nsmap ''meta'' \<lparr>ps_counts = zero_counts, ps_recorder = [], ps_rechecks = []\<rparr>
     (zero_event\<lparr>pe_OpType := ''insert'', pe_Ns := Some \<lparr>ns_DB = ''d'', ns_Coll = ''c''\<rparr>, pe_DocID := Some (int32_value 1)\<rparr>)
   = Inl (Panic ''nil pointer dereference'')"
  by (rule event_without_cluster_time_panics) (simp_all add: zero_event_def bump_def)

section \<open>The event persistor\<close>

text \<open>
  The loop of \<open>RunChangeEventPersistor\<close> over the batches its channel yields. Each batch comes with the
  time at which the persistor looks at the clock and with whether the metadata write of the token
  succeeds; a failed token write is only warned about. The context's end is not modelled.
\<close>

record event_batch =
  eb_events :: "parsed_event list"
  eb_resumeToken :: "bytes option"
  eb_now :: int
  eb_tokenWriteOk :: bool

datatype persistor_action =
    NoteBatchSize nat
  | InsertRechecks "bytes list list"
  | PersistToken bytes bool

record persistor =
  lastPersistedTime :: int
  pr_counts :: event_counts
  pr_recorder :: recorder

definition persist_token_if_needed :: "int \<Rightarrow> persistor \<Rightarrow> event_batch \<Rightarrow> persistor \<times> persistor_action list" where
  "persist_token_if_needed interval p b = (case eb_resumeToken b of
       None \<Rightarrow> (p, [])
     | Some token \<Rightarrow>
         if eb_now b - lastPersistedTime p \<ge> interval
         then (if eb_tokenWriteOk b then p\<lparr>lastPersistedTime := eb_now b\<rparr> else p, [PersistToken token (eb_tokenWriteOk b)])
         else (p, []))"

definition handle_batch :: "whichCluster \<Rightarrow> nsmap \<Rightarrow> string \<Rightarrow> (nat \<Rightarrow> u32) \<Rightarrow> int \<Rightarrow> persistor \<Rightarrow> event_batch
     \<Rightarrow> persistor_action list \<times> (go_error + persistor)" where
  "handle_batch origin m metaDB rnd interval p b =
     (if length (eb_events b) > 0
      then (case persist_change_events origin m metaDB rnd (pr_counts p) (pr_recorder p) (eb_events b) of
              Inl e \<Rightarrow> ([NoteBatchSize (length (eb_events b))], Inl e)
            | Inr (counts, rec, batches) \<Rightarrow>
                (case persist_token_if_needed interval (p\<lparr>pr_counts := counts, pr_recorder := rec\<rparr>) b of
                   (p', acts) \<Rightarrow> ([NoteBatchSize (length (eb_events b)), InsertRechecks batches] @ acts, Inr p')))
      else (case persist_token_if_needed interval p b of
              (p', acts) \<Rightarrow> (NoteBatchSize 0 # acts, Inr p')))"

fun run_persistor :: "whichCluster \<Rightarrow> nsmap \<Rightarrow> string \<Rightarrow> (nat \<Rightarrow> u32) \<Rightarrow> int \<Rightarrow> persistor \<Rightarrow> event_batch list
     \<Rightarrow> persistor_action list \<times> go_error option" where
  "run_persistor origin m metaDB rnd interval p [] = ([], None)"
| "run_persistor origin m metaDB rnd interval p (b # bs) =
     (case handle_batch origin m metaDB rnd interval p b of
        (acts, Inl e) \<Rightarrow> (acts, Some e)
      | (acts, Inr p') \<Rightarrow> (case run_persistor origin m metaDB rnd interval p' bs of
            (acts', err) \<Rightarrow> (acts @ acts', err)))"

definition inserted_rechecks :: "persistor_action list \<Rightarrow> bytes list" where
  "inserted_rechecks acts = concat (map (\<lambda>a. case a of InsertRechecks bs \<Rightarrow> concat bs | _ \<Rightarrow> []) acts)"

definition batch_rechecks_of :: "whichCluster \<Rightarrow> nsmap \<Rightarrow> string \<Rightarrow> (nat \<Rightarrow> u32) \<Rightarrow> event_batch \<Rightarrow> bytes list" where
  "batch_rechecks_of origin m metaDB rnd b =
     projr (marshal_rechecks (Some origin) rnd 0 (concat (map (event_recheck origin m metaDB) (eb_events b))))"

lemma inserted_rechecks_simps [simp]:
  "inserted_rechecks [] = []" "inserted_rechecks (NoteBatchSize n # acts) = inserted_rechecks acts"
  "inserted_rechecks (InsertRechecks bs # acts) = concat bs @ inserted_rechecks acts"
  "inserted_rechecks (PersistToken t ok # acts) = inserted_rechecks acts"
  "inserted_rechecks (xs @ ys) = inserted_rechecks xs @ inserted_rechecks ys"
  by (simp_all add: inserted_rechecks_def)

lemma persist_change_events_batches:
  "persist_change_events origin m metaDB rnd counts rec events = Inr (counts', rec', batches) \<Longrightarrow>
     concat batches = projr (marshal_rechecks (Some origin) rnd 0 (concat (map (event_recheck origin m metaDB) events)))"
  by (drule persist_change_events_raws) auto

lemma persist_token_acts:
  "persist_token_if_needed interval p b = (p', acts) \<Longrightarrow>
     acts = [] \<or> (\<exists>t ok. eb_resumeToken b = Some t \<and> acts = [PersistToken t ok])"
  by (auto simp: persist_token_if_needed_def split: option.splits if_splits)

lemma handle_batch_Inr:
  assumes "handle_batch origin m metaDB rnd interval p b = (acts, Inr p')"
  shows "inserted_rechecks acts = batch_rechecks_of origin m metaDB rnd b"
    and "acts = xs @ PersistToken t ok # us \<Longrightarrow> us = [] \<and> eb_resumeToken b = Some t \<and>
      inserted_rechecks xs = batch_rechecks_of origin m metaDB rnd b"
proof -
  obtain p1 tok pre where a: "acts = pre @ tok" "persist_token_if_needed interval p1 b = (p', tok)"
    and pre: "inserted_rechecks pre = batch_rechecks_of origin m metaDB rnd b" "\<And>t ok. PersistToken t ok \<notin> set pre"
  proof (cases "length (eb_events b) > 0")
    case True
    with assms obtain counts rec batches where
      pc: "persist_change_events origin m metaDB rnd (pr_counts p) (pr_recorder p) (eb_events b) = Inr (counts, rec, batches)"
      by (auto simp: handle_batch_def split: sum.splits)
    obtain tok where "persist_token_if_needed interval (p\<lparr>pr_counts := counts, pr_recorder := rec\<rparr>) b = (p', tok)"
      "acts = [NoteBatchSize (length (eb_events b)), InsertRechecks batches] @ tok"
      using assms True pc by (auto simp: handle_batch_def split: prod.splits)
    moreover have "concat batches = batch_rechecks_of origin m metaDB rnd b"
      using persist_change_events_batches [OF pc] by (simp add: batch_rechecks_of_def)
    ultimately show ?thesis
      by (intro that [of "[NoteBatchSize (length (eb_events b)), InsertRechecks batches]" tok]) auto
  next
    case False
    with assms obtain tok where "persist_token_if_needed interval p b = (p', tok)" "acts = [NoteBatchSize 0] @ tok"
      by (auto simp: handle_batch_def split: prod.splits)
    with False show ?thesis
      by (intro that [of "[NoteBatchSize 0]" tok]) (auto simp: batch_rechecks_of_def)
  qed
  from persist_token_acts [OF a(2)] pre a(1)
  show "inserted_rechecks acts = batch_rechecks_of origin m metaDB rnd b" by auto
  assume x: "acts = xs @ PersistToken t ok # us"
  then have "PersistToken t ok \<in> set tok" using a(1) pre(2) by (metis Un_iff in_set_conv_decomp set_append)
  with persist_token_acts [OF a(2)] have tok: "eb_resumeToken b = Some t" "tok = [PersistToken t ok]" by auto
  have "us = [] \<and> xs = pre"
  proof (cases us rule: rev_cases)
    case Nil
    with x a(1) tok show ?thesis by simp
  next
    case (snoc ys y)
    with x a(1) tok have "pre = xs @ PersistToken t ok # ys" by simp
    with pre(2) [of t ok] show ?thesis by simp
  qed
  with tok pre(1) show "us = [] \<and> eb_resumeToken b = Some t \<and>
      inserted_rechecks xs = batch_rechecks_of origin m metaDB rnd b" by simp
qed

lemma handle_batch_Inl:
  "handle_batch origin m metaDB rnd interval p b = (acts, Inl e) \<Longrightarrow> acts = [NoteBatchSize (length (eb_events b))]"
  by (auto simp: handle_batch_def split: if_splits sum.splits prod.splits)

text \<open>C23: A resume token is written only after the rechecks of its own batch and of every batch before it:
  at any such write the rechecks inserted so far are exactly those of the batches up to the token's.\<close>

theorem token_after_rechecks:
  assumes "run_persistor origin m metaDB rnd interval p bs = (pre @ PersistToken t ok # post, err)"
  shows "\<exists>k < length bs. eb_resumeToken (bs ! k) = Some t
    \<and> inserted_rechecks pre = concat (map (batch_rechecks_of origin m metaDB rnd) (take (Suc k) bs))"
  using assms
proof (induction bs arbitrary: p pre err)
  case (Cons b bs)
  show ?case
  proof (cases "handle_batch origin m metaDB rnd interval p b")
    case (Pair acts r)
    show ?thesis
    proof (cases r)
      case (Inl e)
      with Cons.prems Pair have "acts = pre @ PersistToken t ok # post" by simp
      with handle_batch_Inl [of origin m metaDB rnd interval p b acts e] Pair Inl show ?thesis
        by (cases pre) simp_all
    next
      case (Inr p')
      obtain acts' err' where rest: "run_persistor origin m metaDB rnd interval p' bs = (acts', err')"
        by (metis prod.exhaust)
      from Cons.prems Pair Inr rest have eq: "acts @ acts' = pre @ PersistToken t ok # post" by simp
      note hb = handle_batch_Inr [OF Pair [unfolded Inr]]
      from eq [unfolded append_eq_append_conv2] consider
          us where "acts = pre @ PersistToken t ok # us"
        | pre' where "pre = acts @ pre'" "acts' = pre' @ PersistToken t ok # post"
        by (auto simp: append_eq_Cons_conv)
      then show ?thesis
      proof cases
        case us: 1
        from hb(2) [OF us] show ?thesis by (intro exI [of _ 0]) simp
      next
        case pre: 2
        from Cons.IH [of p' pre' err'] rest pre obtain k where k: "k < length bs" "eb_resumeToken (bs ! k) = Some t"
          "inserted_rechecks pre' = concat (map (batch_rechecks_of origin m metaDB rnd) (take (Suc k) bs))" by auto
        with pre(1) hb(1) show ?thesis by (intro exI [of _ "Suc k"]) simp
      qed
    qed
  qed
qed simp

definition sample_event :: parsed_event where
  "sample_event = \<lparr>pe_OpType = ''insert'', pe_Ns = Some \<lparr>ns_DB = ''d'', ns_Coll = ''c''\<rparr>,
     pe_DocID = Some (int32_value 1), pe_FullDocument = None, pe_FullDocLen = Some 20,
     pe_ClusterTime = Some \<lparr>ts_T = 3, ts_I = 1\<rparr>\<rparr>"

definition sample_batch :: event_batch where
  "sample_batch = \<lparr>eb_events = [sample_event], eb_resumeToken = Some [1], eb_now = 20, eb_tokenWriteOk = True\<rparr>"

theorem token_after_rechecks_witness:
  "\<exists>pre post. fst (run_persistor Src new_nsmap ''meta'' (\<lambda>_. 0) 10
        \<lparr>lastPersistedTime = 0, pr_counts = zero_counts, pr_recorder = []\<rparr> [sample_batch])
      = pre @ PersistToken [1] True # post
    \<and> inserted_rechecks pre = batch_rechecks_of Src new_nsmap ''meta'' (\<lambda>_. 0) sample_batch"
proof -
  let ?p = "\<lparr>lastPersistedTime = 0, pr_counts = zero_counts, pr_recorder = []\<rparr>"
  have "is_ok (persist_change_events Src new_nsmap ''meta'' (\<lambda>_. 0) zero_counts [] [sample_event])"
    by (simp add: persist_change_events_ok_iff event_ok_def sample_event_def source_namespace_def deref_def bump_def)
  then obtain c r bs where
    "persist_change_events Src new_nsmap ''meta'' (\<lambda>_. 0) zero_counts [] [sample_event] = Inr (c, r, bs)"
    by (metis is_ok_simps(2) prod_cases3 sumE)
  then have run: "run_persistor Src new_nsmap ''meta'' (\<lambda>_. 0) 10 ?p [sample_batch]
      = ([NoteBatchSize 1, InsertRechecks bs] @ PersistToken [1] True # [], None)"
    by (simp add: handle_batch_def sample_batch_def persist_token_if_needed_def)
  have "inserted_rechecks [NoteBatchSize 1, InsertRechecks bs]
      = batch_rechecks_of Src new_nsmap ''meta'' (\<lambda>_. 0) sample_batch"
    using token_after_rechecks [OF run] by auto
  with run show ?thesis by (metis fst_conv)
qed

end
