(* ===== verification/Recheck_Tasks.thy ===== *)
theory Recheck_Tasks
  imports Recheck_Queue
begin

text \<open>
  \<open>GenerateRecheckTasks\<close> (\<open>internal/verifier/recheck.go\<close>) and the task it builds
  (\<open>createDocumentRecheckTask\<close> in \<open>verification_task.go\<close>): the queue's documents, read in the order
  of their keys, are grouped into recheck tasks; consecutive rechecks of the same document are merged.
  The cursor is the list of its raw documents; the marshalled form of a task is a parameter.
\<close>

section \<open>Tasks\<close>

record recheck_task =
  rt_Ids :: "raw_value list"
  rt_Namespace :: string
  rt_To :: string
  rt_DocumentsCount :: u64
  rt_FirstMismatchTime :: "nat \<rightharpoonup> u64"
  rt_SrcTimestamp :: "timestamp option"
  rt_DstTimestamp :: "timestamp option"

record gen_env =
  ge_nsMap :: nsmap
  ge_partitionSize :: u64
  ge_marshal :: "recheck_task \<Rightarrow> go_error + bytes"

definition create_document_recheck_task :: "gen_env \<Rightarrow> raw_value list \<Rightarrow> (nat \<rightharpoonup> u64) \<Rightarrow> timestamp option
     \<Rightarrow> timestamp option \<Rightarrow> string \<Rightarrow> go_error + recheck_task" where
  "create_document_recheck_task env ids fmt srcTS dstTS srcNamespace =
     rbind (nsmap_len (ge_nsMap env)) (\<lambda>len.
     rbind (if len \<noteq> 0
            then (case get_dst_namespace (ge_nsMap env) srcNamespace of
                    None \<Rightarrow> Inl (Err ''could not find namespace'') | Some d \<Rightarrow> Inr d)
            else Inr srcNamespace) (\<lambda>dstNamespace.
       Inr \<lparr>rt_Ids = ids, rt_Namespace = srcNamespace, rt_To = dstNamespace,
            rt_DocumentsCount = word_of_nat (length ids), rt_FirstMismatchTime = fmt,
            rt_SrcTimestamp = srcTS, rt_DstTimestamp = dstTS\<rparr>))"

section \<open>The generator\<close>

record gen_state =
  prevDBName :: string
  prevCollName :: string
  idAccum :: "raw_value list"
  idsSizer :: array_sizer
  dataSizeAccum :: u64
  firstMismatchTimes :: "nat \<rightharpoonup> u64"
  latestSrcTimestamp :: timestamp
  latestDstTimestamp :: timestamp
  lastIDRaw :: raw_value
  curTasks :: "bytes list"
  curTasksBytes :: nat
  inserts :: "bytes list list"
  created :: "recheck_task list"

definition gen_init :: gen_state where
  "gen_init = \<lparr>prevDBName = [], prevCollName = [], idAccum = [], idsSizer = new_sizer, dataSizeAccum = 0,
     firstMismatchTimes = Map.empty, latestSrcTimestamp = ts_zero, latestDstTimestamp = ts_zero,
     lastIDRaw = rv_zero, curTasks = [], curTasksBytes = 0, inserts = [], created = []\<rparr>"

definition if_ts_not_zero :: "timestamp \<Rightarrow> timestamp option" where
  "if_ts_not_zero t = (if t = ts_zero then None else Some t)"

definition persist_buffered_rechecks :: "gen_env \<Rightarrow> gen_state \<Rightarrow> go_error + gen_state" where
  "persist_buffered_rechecks env s =
     (if idAccum s = [] then Inr s
      else rbind (create_document_recheck_task env (idAccum s) (firstMismatchTimes s)
                    (if_ts_not_zero (latestSrcTimestamp s)) (if_ts_not_zero (latestDstTimestamp s))
                    (prevDBName s @ ''.'' @ prevCollName s)) (\<lambda>task.
           rbind (ge_marshal env task) (\<lambda>taskRaw.
             let tasks = curTasks s @ [taskRaw]; n = curTasksBytes s + length taskRaw;
                 s' = s\<lparr>created := created s @ [task], curTasksBytes := n\<rparr>
             in Inr (if length tasks = maxTasksPerRequest \<or> n \<ge> maxInsertSize
                     then s'\<lparr>curTasks := [], inserts := inserts s @ [tasks]\<rparr>
                     else s'\<lparr>curTasks := tasks\<rparr>))))"

definition is_same_namespace :: "gen_state \<Rightarrow> recheck_doc \<Rightarrow> bool" where
  "is_same_namespace s doc \<longleftrightarrow> SrcDatabaseName (PrimaryKey doc) = prevDBName s
     \<and> SrcCollectionName (PrimaryKey doc) = prevCollName s"

definition is_same_doc :: "gen_state \<Rightarrow> recheck_doc \<Rightarrow> bool" where
  "is_same_doc s doc \<longleftrightarrow> is_same_namespace s doc \<and> rv_equal (DocumentID (PrimaryKey doc)) (lastIDRaw s)"

definition must_persist :: "gen_env \<Rightarrow> gen_state \<Rightarrow> recheck_doc \<Rightarrow> bool" where
  "must_persist env s doc \<longleftrightarrow> \<not> is_same_doc s doc \<and>
     (\<not> is_same_namespace s doc \<or> length (idAccum s) \<ge> maxRecheckIDs
      \<or> sizer_len (idsSizer s) \<ge> maxRecheckIDsBytes \<or> dataSizeAccum s \<ge> ge_partitionSize env)"

definition start_task :: "gen_state \<Rightarrow> recheck_doc \<Rightarrow> gen_state" where
  "start_task s doc = s\<lparr>prevDBName := SrcDatabaseName (PrimaryKey doc),
     prevCollName := SrcCollectionName (PrimaryKey doc), idsSizer := new_sizer, dataSizeAccum := 0,
     idAccum := [], lastIDRaw := rv_zero, firstMismatchTimes := Map.empty,
     latestSrcTimestamp := ts_zero, latestDstTimestamp := ts_zero\<rparr>"

text \<open>
  The metadata of one recheck. The index is that of the document in the task: the last one when the
  document has been seen, else the one it will get.
\<close>

definition record_metadata :: "bool \<Rightarrow> gen_state \<Rightarrow> recheck_doc \<Rightarrow> go_error + gen_state" where
  "record_metadata sameDoc s doc =
     (let metadataIndex = length (idAccum s) - (if sameDoc then 1 else 0)
      in case ChangeOpTime doc of
           Some optime \<Rightarrow>
             if FirstMismatchTime doc \<noteq> None
             then Inl (Panic ''should not see change optime with a first-mismatch time'')
             else Inr ((if FromDst doc
                        then s\<lparr>latestDstTimestamp := newer_timestamp (latestDstTimestamp s) optime\<rparr>
                        else s\<lparr>latestSrcTimestamp := newer_timestamp (latestSrcTimestamp s) optime\<rparr>)
                       \<lparr>firstMismatchTimes := (firstMismatchTimes s)(metadataIndex := None)\<rparr>)
         | None \<Rightarrow>
             (case FirstMismatchTime doc of
                Some fmt \<Rightarrow>
                  Inr (if \<not> sameDoc then s\<lparr>firstMismatchTimes := (firstMismatchTimes s)(metadataIndex \<mapsto> fmt)\<rparr> else s)
              | None \<Rightarrow> Inr s))"

definition add_document :: "gen_state \<Rightarrow> recheck_doc \<Rightarrow> gen_state" where
  "add_document s doc = s\<lparr>lastIDRaw := DocumentID (PrimaryKey doc),
     idsSizer := sizer_add (idsSizer s) (DocumentID (PrimaryKey doc)),
     dataSizeAccum := dataSizeAccum s + scast (DataSize doc),
     idAccum := idAccum s @ [DocumentID (PrimaryKey doc)]\<rparr>"

definition gen_step :: "gen_env \<Rightarrow> gen_state \<Rightarrow> recheck_doc \<Rightarrow> go_error + gen_state" where
  "gen_step env s doc =
     (let sameDoc = is_same_doc s doc
      in rbind (if must_persist env s doc
                then rbind (persist_buffered_rechecks env s) (\<lambda>s'. Inr (start_task s' doc))
                else Inr s) (\<lambda>s1.
         rbind (record_metadata sameDoc s1 doc) (\<lambda>s2.
           Inr (if sameDoc then s2 else add_document s2 doc))))"

definition generate_recheck_tasks :: "gen_env \<Rightarrow> bytes list \<Rightarrow> go_error + gen_state" where
  "generate_recheck_tasks env cursor =
     rbind (rfold (\<lambda>s raw. rbind (unmarshal_doc zero_doc raw) (gen_step env s)) gen_init cursor) (\<lambda>s.
     rbind (persist_buffered_rechecks env s) (\<lambda>s'.
       Inr (if length (curTasks s') > 0 then s'\<lparr>inserts := inserts s' @ [curTasks s']\<rparr> else s')))"

section \<open>What a task holds\<close>

type_synonym doc_block = "recheck_doc list"

text \<open>A block is the rechecks of one document; a task is a list of blocks of one namespace.\<close>

definition doc_id :: "recheck_doc \<Rightarrow> raw_value" where
  "doc_id d = DocumentID (PrimaryKey d)"

definition doc_ns :: "recheck_doc \<Rightarrow> string \<times> string" where
  "doc_ns d = (SrcDatabaseName (PrimaryKey d), SrcCollectionName (PrimaryKey d))"

definition block_ok :: "doc_block \<Rightarrow> bool" where
  "block_ok b \<longleftrightarrow> b \<noteq> [] \<and> (\<forall>d \<in> set b. doc_id d = doc_id (hd b) \<and> doc_ns d = doc_ns (hd b))"

definition block_time :: "doc_block \<Rightarrow> u64 option" where
  "block_time b = (if \<exists>d \<in> set b. ChangeOpTime d \<noteq> None then None else FirstMismatchTime (hd b))"

definition newest :: "bool \<Rightarrow> recheck_doc list \<Rightarrow> timestamp" where
  "newest fromDst ds = foldl (\<lambda>t d. case ChangeOpTime d of
       Some ot \<Rightarrow> if FromDst d = fromDst then newer_timestamp t ot else t | None \<Rightarrow> t) ts_zero ds"

definition task_times :: "doc_block list \<Rightarrow> nat \<rightharpoonup> u64" where
  "task_times bs i = (if i < length bs then block_time (bs ! i) else None)"

definition task_size :: "doc_block list \<Rightarrow> u64" where
  "task_size bs = (\<Sum>b \<leftarrow> bs. scast (DataSize (hd b)))"

definition holds_task :: "gen_state \<Rightarrow> doc_block list \<Rightarrow> bool" where
  "holds_task s bs \<longleftrightarrow> list_all block_ok bs
     \<and> (\<forall>b \<in> set bs. doc_ns (hd b) = (prevDBName s, prevCollName s))
     \<and> idAccum s = map (doc_id \<circ> hd) bs
     \<and> idsSizer s = foldl sizer_add new_sizer (idAccum s)
     \<and> dataSizeAccum s = task_size bs
     \<and> firstMismatchTimes s = task_times bs
     \<and> latestSrcTimestamp s = newest False (concat bs)
     \<and> latestDstTimestamp s = newest True (concat bs)
     \<and> lastIDRaw s = (if bs = [] then rv_zero else doc_id (hd (last bs)))"

definition task_bounds :: "gen_env \<Rightarrow> doc_block list \<Rightarrow> bool" where
  "task_bounds env bs \<longleftrightarrow> length bs \<le> maxRecheckIDs
     \<and> (butlast bs \<noteq> [] \<longrightarrow>
          sizer_len (foldl sizer_add new_sizer (map (doc_id \<circ> hd) (butlast bs))) < maxRecheckIDsBytes
          \<and> task_size (butlast bs) < ge_partitionSize env)"

definition task_describes :: "doc_block list \<Rightarrow> recheck_task \<Rightarrow> bool" where
  "task_describes bs t \<longleftrightarrow>
     rt_Ids t = map (doc_id \<circ> hd) bs
     \<and> rt_Namespace t = fst (doc_ns (hd (hd bs))) @ ''.'' @ snd (doc_ns (hd (hd bs)))
     \<and> (\<forall>b \<in> set bs. doc_ns (hd b) = doc_ns (hd (hd bs)))
     \<and> rt_DocumentsCount t = word_of_nat (length bs)
     \<and> rt_FirstMismatchTime t = task_times bs
     \<and> rt_SrcTimestamp t = if_ts_not_zero (newest False (concat bs))
     \<and> rt_DstTimestamp t = if_ts_not_zero (newest True (concat bs))"

definition gen_env_ok :: "gen_env \<Rightarrow> recheck_doc list \<Rightarrow> bool" where
  "gen_env_ok env docs \<longleftrightarrow> (\<forall>t. is_ok (ge_marshal env t))
     \<and> (\<exists>n. nsmap_len (ge_nsMap env) = Inr n \<and>
          (n = 0 \<or> (\<forall>d \<in> set docs. get_dst_namespace (ge_nsMap env) (fst (doc_ns d) @ ''.'' @ snd (doc_ns d)) \<noteq> None)))"

definition recheck_ok :: "recheck_doc \<Rightarrow> bool" where
  "recheck_ok d \<longleftrightarrow> doc_id d \<noteq> rv_zero \<and> (ChangeOpTime d = None \<or> FirstMismatchTime d = None)"

lemma newest_snoc:
  "newest b (ds @ [d]) = (case ChangeOpTime d of
       Some ot \<Rightarrow> if FromDst d = b then newer_timestamp (newest b ds) ot else newest b ds | None \<Rightarrow> newest b ds)"
  by (simp only: newest_def foldl_append foldl.simps)

lemma block_time_snoc:
  "b \<noteq> [] \<Longrightarrow> block_time (b @ [d]) = (if ChangeOpTime d = None then block_time b else None)"
  by (auto simp: block_time_def)

lemma task_times_snoc: "task_times (bs @ [b]) = (task_times bs)(length bs := block_time b)"
  by (rule ext) (simp add: task_times_def nth_append less_Suc_eq)

lemma block_ok_snoc:
  assumes "block_ok b" "doc_id d = doc_id (hd b)" "doc_ns d = doc_ns (hd b)"
  shows "block_ok (b @ [d])"
proof -
  have "doc_id e = doc_id (hd b) \<and> doc_ns e = doc_ns (hd b)" if "e \<in> set (b @ [d])" for e
  proof (cases "e = d")
    case False
    with that have "e \<in> set b" by simp
    with assms(1) show ?thesis unfolding block_ok_def by blast
  qed (use assms(2,3) in simp)
  moreover have "hd (b @ [d]) = hd b" using assms(1) by (simp add: block_ok_def)
  ultimately show ?thesis unfolding block_ok_def by (metis append_is_Nil_conv not_Cons_self2)
qed

lemma is_same_doc_holds:
  assumes "holds_task s bs" "doc_id d \<noteq> rv_zero"
  shows "is_same_doc s d \<longleftrightarrow> bs \<noteq> [] \<and> doc_id d = doc_id (hd (last bs)) \<and> doc_ns d = doc_ns (hd (last bs))"
  using assms by (auto simp: is_same_doc_def is_same_namespace_def holds_task_def doc_id_def doc_ns_def)

lemma metadata_same:
  assumes "holds_task s (bs @ [b])" "recheck_ok d" "is_same_doc s d"
  shows "\<exists>s'. record_metadata True s d = Inr s' \<and> holds_task s' (bs @ [b @ [d]])
    \<and> curTasks s' = curTasks s \<and> inserts s' = inserts s \<and> created s' = created s \<and> curTasksBytes s' = curTasksBytes s"
proof -
  have b: "block_ok b" using assms(1) by (simp add: holds_task_def)
  then have ne: "b \<noteq> []" by (simp add: block_ok_def)
  have d: "doc_id d = doc_id (hd b)" "doc_ns d = doc_ns (hd b)"
    using is_same_doc_holds [OF assms(1)] assms(2,3) by (simp_all add: recheck_ok_def)
  have ok: "block_ok (b @ [d])" by (rule block_ok_snoc [OF b d])
  have t: "task_times (bs @ [b @ [d]]) = (if ChangeOpTime d = None then task_times (bs @ [b])
      else (task_times (bs @ [b])) (length bs := None))"
    by (simp add: task_times_snoc block_time_snoc [OF ne])
  have sz: "task_size (bs @ [b @ [d]]) = task_size (bs @ [b])" using ne by (simp add: task_size_def)
  have nw: "newest f (concat (bs @ [b @ [d]])) = (case ChangeOpTime d of
       Some ot \<Rightarrow> if FromDst d = f then newer_timestamp (newest f (concat (bs @ [b]))) ot else newest f (concat (bs @ [b]))
     | None \<Rightarrow> newest f (concat (bs @ [b])))" for f
    using newest_snoc [of f "concat (bs @ [b])" d] by simp
  show ?thesis
    using assms(1,2) ne ok unfolding holds_task_def record_metadata_def t sz nw
    by (cases "ChangeOpTime d"; cases "FirstMismatchTime d"; cases "FromDst d")
      (simp_all add: recheck_ok_def)
qed

lemma metadata_new:
  assumes "holds_task s bs" "recheck_ok d" "is_same_namespace s d"
  shows "\<exists>s'. record_metadata False s d = Inr s' \<and> holds_task (add_document s' d) (bs @ [[d]])
    \<and> curTasks s' = curTasks s \<and> inserts s' = inserts s \<and> created s' = created s \<and> curTasksBytes s' = curTasksBytes s"
proof -
  have l: "length (idAccum s) = length bs" using assms(1) by (simp add: holds_task_def)
  have t: "task_times (bs @ [[d]]) = (task_times bs) (length bs :=
      (if ChangeOpTime d = None then FirstMismatchTime d else None))"
    by (simp add: task_times_snoc block_time_def)
  have tl: "(task_times bs) (length bs := None) = task_times bs"
    by (rule ext) (simp add: task_times_def)
  have nw: "newest f (concat (bs @ [[d]])) = (case ChangeOpTime d of
       Some ot \<Rightarrow> if FromDst d = f then newer_timestamp (newest f (concat bs)) ot else newest f (concat bs)
     | None \<Rightarrow> newest f (concat bs))" for f
    using newest_snoc [of f "concat bs" d] by simp
  have ns: "doc_ns d = (prevDBName s, prevCollName s)" using assms(3) by (simp add: is_same_namespace_def doc_ns_def)
  show ?thesis
    using assms(1,2) ns tl unfolding holds_task_def record_metadata_def t nw l
    by (cases "ChangeOpTime d"; cases "FirstMismatchTime d"; cases "FromDst d")
      (simp_all add: recheck_ok_def add_document_def block_ok_def doc_id_def task_size_def)
qed

section \<open>The invariant of the generator\<close>

definition doc_key :: "recheck_doc \<Rightarrow> (string \<times> string) \<times> raw_value" where
  "doc_key d = (doc_ns d, doc_id d)"

definition queued_ok :: "gen_env \<Rightarrow> gen_state \<Rightarrow> bool" where
  "queued_ok env s \<longleftrightarrow>
     concat (inserts s) @ curTasks s = map (\<lambda>t. projr (ge_marshal env t)) (created s)
     \<and> length (curTasks s) < maxTasksPerRequest
     \<and> list_all (\<lambda>r. r \<noteq> [] \<and> length r \<le> maxTasksPerRequest) (inserts s)"

definition gen_inv :: "gen_env \<Rightarrow> recheck_doc list \<Rightarrow> doc_block list list \<Rightarrow> doc_block list \<Rightarrow> gen_state \<Rightarrow> bool" where
  "gen_inv env docs bss bs s \<longleftrightarrow>
     concat (concat (bss @ [bs])) = docs
     \<and> holds_task s bs \<and> (bs = [] \<longrightarrow> docs = [])
     \<and> list_all2 task_describes bss (created s)
     \<and> list_all (\<lambda>b. b \<noteq> [] \<and> list_all block_ok b) bss
     \<and> list_all (task_bounds env) (bss @ [bs])
     \<and> remdups_adj (map doc_key docs) = map (doc_key \<circ> hd) (concat (bss @ [bs]))
     \<and> queued_ok env s"

lemma create_task_ok:
  assumes "gen_env_ok env docs" "holds_task s bs" "bs \<noteq> []" "set (concat bs) \<subseteq> set docs"
  shows "\<exists>t. create_document_recheck_task env (idAccum s) (firstMismatchTimes s)
      (if_ts_not_zero (latestSrcTimestamp s)) (if_ts_not_zero (latestDstTimestamp s))
      (prevDBName s @ ''.'' @ prevCollName s) = Inr t \<and> task_describes bs t"
proof -
  have ns: "\<forall>b \<in> set bs. doc_ns (hd b) = (prevDBName s, prevCollName s)" and ok: "list_all block_ok bs"
    using assms(2) by (simp_all add: holds_task_def)
  have hdns: "doc_ns (hd (hd bs)) = (prevDBName s, prevCollName s)" using ns assms(3) by simp
  have "hd bs \<noteq> []" using ok assms(3) by (cases bs) (auto simp: block_ok_def)
  then have "hd (hd bs) \<in> set docs" using assms(3,4) by (cases bs) auto
  with assms(1) obtain n where n: "nsmap_len (ge_nsMap env) = Inr n"
    "n = 0 \<or> get_dst_namespace (ge_nsMap env) (prevDBName s @ ''.'' @ prevCollName s) \<noteq> None"
    unfolding gen_env_ok_def using hdns by fastforce
  with ns hdns assms(2) show ?thesis
    by (auto simp: create_document_recheck_task_def task_describes_def holds_task_def)
qed

lemma is_ok_marshal: "gen_env_ok env docs \<Longrightarrow> \<exists>raw. ge_marshal env t = Inr raw"
  unfolding gen_env_ok_def is_ok_def by (metis sum.case_eq_if sum.collapse(2))

lemma persist_ok:
  assumes env: "gen_env_ok env alldocs" "set docs \<subseteq> set alldocs" and inv: "gen_inv env docs bss bs s"
  shows "\<exists>s'. persist_buffered_rechecks env s = Inr s' \<and> holds_task s' bs \<and> queued_ok env s'
    \<and> list_all2 task_describes (if bs = [] then bss else bss @ [bs]) (created s')"
proof (cases "bs = []")
  case True
  with inv show ?thesis by (auto simp: persist_buffered_rechecks_def gen_inv_def holds_task_def)
next
  case False
  from inv have h: "holds_task s bs" and q: "queued_ok env s" and c: "list_all2 task_describes bss (created s)"
    by (simp_all add: gen_inv_def)
  have "docs = concat (concat bss) @ concat bs" using inv by (simp add: gen_inv_def)
  with env(2) have "set (concat bs) \<subseteq> set alldocs" by (metis le_sup_iff set_append)
  from create_task_ok [OF env(1) h False this] obtain t where
    t: "create_document_recheck_task env (idAccum s) (firstMismatchTimes s)
      (if_ts_not_zero (latestSrcTimestamp s)) (if_ts_not_zero (latestDstTimestamp s))
      (prevDBName s @ ''.'' @ prevCollName s) = Inr t" "task_describes bs t" by blast
  obtain raw where raw: "ge_marshal env t = Inr raw"
    using env(1) is_ok_marshal by blast
  have ne: "idAccum s \<noteq> []" using h False by (simp add: holds_task_def)
  let ?s' = "s\<lparr>created := created s @ [t], curTasksBytes := curTasksBytes s + length raw\<rparr>"
  let ?tasks = "curTasks s @ [raw]"
  have c': "list_all2 task_describes (bss @ [bs]) (created s @ [t])" using c t(2) by (simp add: list_all2_appendI)
  show ?thesis
  proof (cases "length ?tasks = maxTasksPerRequest \<or> curTasksBytes s + length raw \<ge> maxInsertSize")
    case True
    let ?r = "?s'\<lparr>curTasks := [], inserts := inserts s @ [?tasks]\<rparr>"
    have "persist_buffered_rechecks env s = Inr ?r"
      using ne t(1) raw True by (simp add: persist_buffered_rechecks_def Let_def)
    moreover have "holds_task ?r bs" using h by (simp add: holds_task_def)
    moreover have "queued_ok env ?r" using q raw by (simp add: queued_ok_def maxTasksPerRequest_def)
    moreover have "list_all2 task_describes (bss @ [bs]) (created ?r)" using c' by simp
    ultimately show ?thesis using False by auto
  next
    case nofull: False
    let ?r = "?s'\<lparr>curTasks := ?tasks\<rparr>"
    have "persist_buffered_rechecks env s = Inr ?r"
      using ne t(1) raw nofull by (simp add: persist_buffered_rechecks_def Let_def)
    moreover have "holds_task ?r bs" using h by (simp add: holds_task_def)
    moreover have "queued_ok env ?r" using q raw nofull by (auto simp: queued_ok_def maxTasksPerRequest_def)
    moreover have "list_all2 task_describes (bss @ [bs]) (created ?r)" using c' by simp
    ultimately show ?thesis using False by auto
  qed
qed

lemma start_task_holds: "holds_task (start_task s d) []"
  by (simp add: holds_task_def start_task_def task_size_def task_times_def newest_def fun_eq_iff)

lemma last_block_key:
  assumes "holds_task s bs" "bs \<noteq> []"
  shows "concat bs \<noteq> [] \<and> doc_key (last (concat bs)) = doc_key (hd (last bs))"
proof -
  obtain bs0 b where bs: "bs = bs0 @ [b]" using assms(2) by (cases bs rule: rev_cases) auto
  have b: "block_ok b" using assms(1) bs by (simp add: holds_task_def)
  then have "b \<noteq> []" by (simp add: block_ok_def)
  moreover have "doc_id (last b) = doc_id (hd b) \<and> doc_ns (last b) = doc_ns (hd b)"
    using b unfolding block_ok_def by (metis last_in_set)
  ultimately show ?thesis by (simp add: bs doc_key_def)
qed

lemma remdups_adj_snoc:
  assumes "xs \<noteq> []"
  shows "remdups_adj (xs @ [y]) = remdups_adj xs @ (if last xs = y then [] else [y])"
proof -
  obtain ys z where xs: "xs = ys @ [z]" using assms by (cases xs rule: rev_cases) auto
  show ?thesis using remdups_adj_append_two [of ys z y] by (simp add: xs)
qed

lemma gen_inv_last_key:
  assumes "gen_inv env docs bss bs s" "bs \<noteq> []"
  shows "docs \<noteq> [] \<and> doc_key (last docs) = doc_key (hd (last bs))"
proof -
  have "docs = concat (concat bss) @ concat bs" and "holds_task s bs" using assms(1) by (simp_all add: gen_inv_def)
  with last_block_key [OF this(2) assms(2)] show ?thesis by (simp del: concat_eq_Nil_conv)
qed

lemma gen_step_inv:
  assumes env: "gen_env_ok env alldocs" "set (docs @ [d]) \<subseteq> set alldocs"
    and inv: "gen_inv env docs bss bs s" and d: "recheck_ok d"
  shows "\<exists>s' bss' bs'. gen_step env s d = Inr s' \<and> gen_inv env (docs @ [d]) bss' bs' s' \<and> bs' \<noteq> []"
proof -
  have h: "holds_task s bs" using inv by (simp add: gen_inv_def)
  then have blocks: "list_all block_ok bs" by (simp add: holds_task_def)
  have nz: "doc_id d \<noteq> rv_zero" using d by (simp add: recheck_ok_def)
  note same = is_same_doc_holds [OF h nz]
  show ?thesis
  proof (cases "is_same_doc s d")
    case True
    then obtain bs0 b where bs: "bs = bs0 @ [b]" using same by (cases bs rule: rev_cases) auto
    have k: "doc_key d = doc_key (hd b)" using True same by (simp add: bs doc_key_def)
    have b: "b \<noteq> []" using h by (simp add: bs holds_task_def block_ok_def)
    from metadata_same [OF h [unfolded bs] d True] obtain s' where
      s': "record_metadata True s d = Inr s'" "holds_task s' (bs0 @ [b @ [d]])" "curTasks s' = curTasks s"
        "inserts s' = inserts s" "created s' = created s" by blast
    have r: "remdups_adj (map doc_key (docs @ [d])) = remdups_adj (map doc_key docs)"
      using gen_inv_last_key [OF inv] remdups_adj_snoc [of "map doc_key docs" "doc_key d"] k
      by (simp add: bs last_map)
    have tb: "task_bounds env (bs0 @ [b @ [d]]) = task_bounds env (bs0 @ [b])"
      by (simp add: task_bounds_def)
    from inv s'(2-5) r tb b have "gen_inv env (docs @ [d]) bss (bs0 @ [b @ [d]]) s'"
      by (simp add: gen_inv_def bs queued_ok_def)
    moreover have "gen_step env s d = Inr s'"
      using True s'(1) by (simp add: gen_step_def must_persist_def)
    ultimately show ?thesis by blast
  next
    case ns: False
    have r: "remdups_adj (map doc_key (docs @ [d])) = remdups_adj (map doc_key docs) @ [doc_key d]"
    proof (cases "docs = []")
      case False
      then have "bs \<noteq> []" using inv by (auto simp: gen_inv_def)
      with gen_inv_last_key [OF inv] ns same have "last (map doc_key docs) \<noteq> doc_key d"
        by (auto simp: last_map doc_key_def)
      with False remdups_adj_snoc [of "map doc_key docs" "doc_key d"] show ?thesis by simp
    qed simp
    show ?thesis
    proof (cases "must_persist env s d")
      case False
      then have nsp: "is_same_namespace s d" and lt: "length bs < maxRecheckIDs"
        "sizer_len (foldl sizer_add new_sizer (map (doc_id \<circ> hd) bs)) < maxRecheckIDsBytes"
        "task_size bs < ge_partitionSize env"
        using ns h by (auto simp: must_persist_def holds_task_def)
      from metadata_new [OF h d nsp] obtain s' where
        s': "record_metadata False s d = Inr s'" "holds_task (add_document s' d) (bs @ [[d]])"
          "curTasks s' = curTasks s" "inserts s' = inserts s" "created s' = created s" by blast
      have tb: "task_bounds env (bs @ [[d]])" using lt by (simp add: task_bounds_def)
      from inv s'(2-5) r tb have "gen_inv env (docs @ [d]) bss (bs @ [[d]]) (add_document s' d)"
        by (simp add: gen_inv_def queued_ok_def add_document_def)
      moreover have "gen_step env s d = Inr (add_document s' d)"
        using ns False s'(1) by (simp add: gen_step_def)
      ultimately show ?thesis by blast
    next
      case True
      have sub: "set docs \<subseteq> set alldocs" using env(2) by simp
      from persist_ok [OF env(1) sub inv] obtain s1 where
        s1: "persist_buffered_rechecks env s = Inr s1" "queued_ok env s1"
          "list_all2 task_describes (if bs = [] then bss else bss @ [bs]) (created s1)" by blast
      have nsp: "is_same_namespace (start_task s1 d) d" by (simp add: is_same_namespace_def start_task_def)
      from metadata_new [OF start_task_holds d nsp] obtain s' where
        s': "record_metadata False (start_task s1 d) d = Inr s'" "holds_task (add_document s' d) [[d]]"
          "curTasks s' = curTasks s1" "inserts s' = inserts s1" "created s' = created s1"
        by (auto simp: start_task_def)
      let ?bss = "if bs = [] then bss else bss @ [bs]"
      have tb: "task_bounds env [[d]]" by (simp add: task_bounds_def maxRecheckIDs_def)
      from inv s1(2,3) s'(2-5) r tb blocks have "gen_inv env (docs @ [d]) ?bss [[d]] (add_document s' d)"
        by (auto simp: gen_inv_def queued_ok_def add_document_def)
      moreover have "gen_step env s d = Inr (add_document s' d)"
        using ns True s1(1) s'(1) by (simp add: gen_step_def)
      ultimately show ?thesis by blast
    qed
  qed
qed

lemma gen_loop_inv:
  assumes "gen_env_ok env alldocs" "list_all2 (\<lambda>raw d. unmarshal_doc zero_doc raw = Inr d) cursor ds"
    and "gen_inv env docs bss bs s" "set (docs @ ds) \<subseteq> set alldocs" "list_all recheck_ok ds"
  shows "\<exists>s' bss' bs'. rfold (\<lambda>s raw. rbind (unmarshal_doc zero_doc raw) (gen_step env s)) s cursor = Inr s'
    \<and> gen_inv env (docs @ ds) bss' bs' s'"
  using assms(2-5)
proof (induction cursor ds arbitrary: docs bss bs s rule: list_all2_induct)
  case Nil
  then show ?case by auto
next
  case (Cons raw cursor d ds)
  have "set (docs @ [d]) \<subseteq> set alldocs" "recheck_ok d" using Cons.prems by auto
  from gen_step_inv [OF assms(1) this(1) Cons.prems(1) this(2)] obtain s1 bss1 bs1 where
    s1: "gen_step env s d = Inr s1" "gen_inv env (docs @ [d]) bss1 bs1 s1" by blast
  from Cons.IH [OF s1(2)] Cons.prems Cons.hyps s1(1) show ?case by auto
qed

lemma generate_tasks_ok:
  assumes "gen_env_ok env docs" "list_all recheck_ok docs"
    and "list_all2 (\<lambda>raw d. unmarshal_doc zero_doc raw = Inr d) cursor docs"
  shows "\<exists>s bss. generate_recheck_tasks env cursor = Inr s
    \<and> concat (concat bss) = docs
    \<and> list_all (\<lambda>bs. bs \<noteq> [] \<and> list_all block_ok bs) bss
    \<and> list_all2 task_describes bss (created s)
    \<and> list_all (task_bounds env) bss
    \<and> remdups_adj (map doc_key docs) = map (doc_key \<circ> hd) (concat bss)
    \<and> concat (inserts s) = map (\<lambda>t. projr (ge_marshal env t)) (created s)
    \<and> list_all (\<lambda>r. r \<noteq> [] \<and> length r \<le> 500) (inserts s)"
proof -
  have "holds_task gen_init []"
    by (simp add: holds_task_def gen_init_def task_size_def task_times_def newest_def fun_eq_iff)
  then have "gen_inv env [] [] [] gen_init"
    by (simp add: gen_inv_def queued_ok_def gen_init_def task_bounds_def maxTasksPerRequest_def)
  from gen_loop_inv [OF assms(1,3) this _ assms(2)] obtain s bss bs where
    s: "rfold (\<lambda>s raw. rbind (unmarshal_doc zero_doc raw) (gen_step env s)) gen_init cursor = Inr s"
      "gen_inv env docs bss bs s" by auto
  from persist_ok [OF assms(1) _ s(2)] obtain s1 where
    s1: "persist_buffered_rechecks env s = Inr s1" "queued_ok env s1"
      "list_all2 task_describes (if bs = [] then bss else bss @ [bs]) (created s1)" by blast
  let ?s = "if length (curTasks s1) > 0 then s1\<lparr>inserts := inserts s1 @ [curTasks s1]\<rparr> else s1"
  let ?bss = "if bs = [] then bss else bss @ [bs]"
  have "generate_recheck_tasks env cursor = Inr ?s"
    by (simp add: generate_recheck_tasks_def s(1) s1(1))
  moreover have "concat (inserts ?s) = map (\<lambda>t. projr (ge_marshal env t)) (created ?s)
      \<and> list_all (\<lambda>r. r \<noteq> [] \<and> length r \<le> 500) (inserts ?s)"
    using s1(2) by (auto simp: queued_ok_def maxTasksPerRequest_def list_all_iff)
  moreover have "list_all block_ok bs" using s(2) by (simp add: gen_inv_def holds_task_def)
  then have "list_all (\<lambda>bs. bs \<noteq> [] \<and> list_all block_ok bs) ?bss" using s(2) by (simp add: gen_inv_def)
  moreover have "concat (concat ?bss) = docs \<and> list_all (task_bounds env) ?bss
      \<and> remdups_adj (map doc_key docs) = map (doc_key \<circ> hd) (concat ?bss)"
    using s(2) by (auto simp: gen_inv_def)
  moreover have "list_all2 task_describes ?bss (created ?s)" using s1(3) by (cases "curTasks s1") simp_all
  ultimately show ?thesis by blast
qed


definition sample_env :: gen_env where
  "sample_env = \<lparr>ge_nsMap = \<lparr>src_dst = [], dst_src = []\<rparr>, ge_partitionSize = 400, ge_marshal = (\<lambda>t. Inr [1])\<rparr>"

definition queued_doc :: recheck_doc where
  "queued_doc = sample_doc\<lparr>FirstMismatchTime := None\<rparr>"

definition sample_raw :: bytes where
  "sample_raw = projr (marshal_doc queued_doc)"


text \<open>The bytes counted towards the insert limit are never reset: once they have reached it, every
  further task is inserted at once, by a request that leaves nothing buffered.\<close>

theorem task_bytes_never_reset:
  assumes "curTasksBytes s \<ge> maxInsertSize" "idAccum s \<noteq> []" "persist_buffered_rechecks env s = Inr s'"
  shows "curTasks s' = [] \<and> length (inserts s') = Suc (length (inserts s)) \<and> curTasksBytes s' \<ge> maxInsertSize"
  using assms by (auto simp: persist_buffered_rechecks_def rbind_eq_Inr Let_def)

theorem task_bytes_never_reset_witness:
  "\<exists>s'. persist_buffered_rechecks sample_env (gen_init\<lparr>idAccum := [null_value], curTasksBytes := 300000\<rparr>) = Inr s'
     \<and> curTasks s' = [] \<and> length (inserts s') = 1 \<and> curTasksBytes s' \<ge> maxInsertSize"
proof -
  let ?s = "gen_init\<lparr>idAccum := [null_value], curTasksBytes := 300000\<rparr>"
  obtain s' where s': "persist_buffered_rechecks sample_env ?s = Inr s'"
    by (simp add: persist_buffered_rechecks_def gen_init_def sample_env_def create_document_recheck_task_def nsmap_len_def Let_def)
  with task_bytes_never_reset [OF _ _ s'] show ?thesis by (simp add: maxInsertSize_def gen_init_def)
qed

end
