(* ===== verification/Oplog.thy ===== *)
theory Oplog
  imports Recheck_Queue
begin

text \<open>
  Tailing the oplog: the entries as the reader's projection gives them and the resume token
  (\<open>internal/verifier/oplog/oplog.go\<close>), the two parsers of a batch and the loop that reads batches
  until the writes-off time (\<open>internal/verifier/oplog_reader.go\<close>). The cursor is the list of the
  batches it yields; the session's clock, logging and retries are outside.
\<close>

section \<open>Values and elements by index\<close>

fun index_loop :: "int \<Rightarrow> bytes \<Rightarrow> nat \<Rightarrow> go_error + bytes" where
  "index_loop len rem n =
     (if len > 1
      then (case read_element rem of
              Inl e \<Rightarrow> Inl e
            | Inr (el, rem') \<Rightarrow>
                (case n of 0 \<Rightarrow> Inr el | Suc m \<Rightarrow> index_loop (len - int (length el)) rem' m))
      else Inl (Err ''out of bounds''))"

declare index_loop.simps [simp del]

definition index_err :: "bytes \<Rightarrow> nat \<Rightarrow> go_error + bytes" where
  "index_err b index = (case read_length b of
       None \<Rightarrow> Inl InsufficientBytes
     | Some (len, rem) \<Rightarrow> index_loop (len - 4) rem index)"

function values_loop :: "int \<Rightarrow> bytes \<Rightarrow> go_error + raw_value list" where
  "values_loop len rem =
     (if len > 1
      then (case read_element rem of
              Inl e \<Rightarrow> Inl e
            | Inr (el, rem') \<Rightarrow> rbind (elem_value el) (\<lambda>v.
                rbind (read_value (rv_value v) (rv_type v)) (\<lambda>_.
                rbind (values_loop (len - int (length el)) rem') (\<lambda>vs. Inr (v # vs)))))
      else Inr [])"
  by pat_completeness auto
termination
  by (relation "measure (\<lambda>(len, rem). length rem)") (auto dest: read_element_Inr)

declare values_loop.simps [simp del]

definition doc_values :: "bytes \<Rightarrow> go_error + raw_value list" where
  "doc_values b = (case read_length b of
       None \<Rightarrow> Inl InsufficientBytes
     | Some (len, rem) \<Rightarrow> values_loop (len - 4) rem)"

lemma index_err_first:
  assumes "list_all wf_kv ((k, v) # kvs)" "small ((k, v) # kvs)"
  shows "index_err (enc_doc ((k, v) # kvs)) 0 = Inr (enc_elem k v)"
  using assms by (simp add: index_err_def read_length_enc_doc index_loop.simps wf_kv_def read_element_enc)

lemma values_loop_enc:
  "list_all wf_kv kvs \<Longrightarrow>
     values_loop (1 + int (body_len kvs)) (concat (map (\<lambda>(k, v). enc_elem k v) kvs) @ ys) = Inr (map snd kvs)"
proof (induction kvs)
  case Nil
  show ?case by (simp add: values_loop.simps)
next
  case (Cons kv kvs)
  obtain k v where kv: "kv = (k, v)" by (cases kv)
  with Cons.prems have "valid_cstring k" "wf_value v" by (auto simp: wf_kv_def)
  with Cons show ?case using read_value_wf [of v "[]"]
    by (subst values_loop.simps) (simp add: kv read_element_enc length_enc_elem)
qed

lemma doc_values_enc:
  "list_all wf_kv kvs \<Longrightarrow> small kvs \<Longrightarrow> doc_values (enc_doc kvs) = Inr (map snd kvs)"
  using values_loop_enc [of kvs "[0]"] by (simp add: doc_values_def read_length_enc_doc)

subsection \<open>Nested values are shorter\<close>

lemma value_err_length: "value_err e = Inr v \<Longrightarrow> length (rv_value v) + 2 \<le> length e"
  by (auto simp: value_err_def read_value_def rbind_eq_Inr dest!: index_byte_less
      split: list.splits option.splits if_splits)

lemma nested_value_length: "2 \<le> length e \<Longrightarrow> elem_value e = Inr v \<Longrightarrow> length (rv_value v) + 2 \<le> length e"
  by (auto simp: elem_value_def rv_zero_def dest: value_err_length split: sum.splits if_splits)

lemma values_loop_length:
  "values_loop len rem = Inr vs \<Longrightarrow> (\<Sum>v \<leftarrow> vs. length (rv_value v) + 1) \<le> length rem"
proof (induction len rem arbitrary: vs rule: values_loop.induct)
  case (1 len rem)
  show ?case
  proof (cases "len > 1")
    case False
    with 1(2) show ?thesis by (simp add: values_loop.simps [of len])
  next
    case True
    from 1(2) True obtain el rem' where r: "read_element rem = Inr (el, rem')"
      by (auto simp: values_loop.simps [of len] split: sum.splits)
    from 1(2) True r obtain v vs' where v: "elem_value el = Inr v" "vs = v # vs'"
      and x: "\<exists>x. read_value (rv_value v) (rv_type v) = Inr x"
      and l: "values_loop (len - int (length el)) rem' = Inr vs'"
      by (auto simp: values_loop.simps [of len] rbind_eq_Inr)
    from x obtain x where x: "read_value (rv_value v) (rv_type v) = Inr x" by blast
    have "(\<Sum>v \<leftarrow> vs'. length (rv_value v) + 1) \<le> length rem'"
      by (rule 1(1) [OF True r refl v(1) x l])
    moreover have "length rem = length el + length rem'" using read_element_Inr(1) [OF r] by simp
    ultimately show ?thesis using nested_value_length [OF read_element_Inr(3) [OF r] v(1)] v(2) by simp
  qed
qed

lemma doc_values_length: "doc_values b = Inr vs \<Longrightarrow> (\<Sum>v \<leftarrow> vs. length (rv_value v) + 1) \<le> length b"
  by (auto simp: doc_values_def read_length_def dest!: values_loop_length read_u32_Some split: option.splits if_splits)

lemma raw_elements_loop_length: "raw_elements_loop rem = (els, err) \<Longrightarrow> (\<Sum>el \<leftarrow> els. length el) \<le> length rem"
proof (induction rem arbitrary: els rule: raw_elements_loop.induct)
  case (1 rem)
  from 1(2) show ?case
    by (subst (asm) raw_elements_loop.simps)
      (auto split: if_splits sum.splits prod.splits dest!: 1(1) dest: read_element_Inr(1))
qed

lemma raw_elements_length: "raw_elements doc = (els, err) \<Longrightarrow> (\<Sum>el \<leftarrow> els. length el) \<le> length doc"
  by (auto simp: raw_elements_def dest!: raw_elements_loop_length split: if_splits option.splits)

lemma cast_raw_length: "cast_raw v = Inr d \<Longrightarrow> length d \<le> length (rv_value v)"
  by (auto simp: cast_raw_def rv_document_ok_def read_length_bytes_def split: if_splits option.splits)

lemma cast_raw_array_length:
  "unmarshal_element_value cast_raw_array el = Inr d \<Longrightarrow> length d + 2 \<le> length el"
  by (auto simp: unmarshal_element_value_def rbind_eq_Inr cast_raw_array_def rv_array_ok_def read_length_bytes_def
      dest!: value_err_length split: if_splits option.splits)

section \<open>Projected entries\<close>

datatype oplog_op = Op
  (op_Op: string) (op_TS: timestamp) (op_Ns: string) (op_CmdName: "string option")
  (op_DocLen: u32) (op_DocID: raw_value) (op_Ops: "oplog_op list") (op_Object: bytes)

definition zero_op :: oplog_op where
  "zero_op = Op [] ts_zero [] None 0 rv_zero [] []"

lemma key_bytes_err_not_Nil: "key_bytes_err el = Inr k \<Longrightarrow> 0 < length el"
  by (cases el) (simp_all add: key_bytes_err_def)

lemma op_elements_measure:
  "(case raw_elements doc of (els, err) \<Rightarrow> Suc (3 * (\<Sum>el \<leftarrow> els. length el))) < Suc (Suc (3 * length doc))"
  by (cases "raw_elements doc") (use raw_elements_length [of doc] in auto)

lemma op_array_measure:
  assumes "unmarshal_element_value cast_raw_array el = Inr arr" "doc_values arr = Inr vs"
  shows "3 * (\<Sum>v \<leftarrow> vs. Suc (length (rv_value v))) < Suc (3 * length el + n)"
  using cast_raw_array_length [OF assms(1)] doc_values_length [OF assms(2)] by simp

text \<open>
  \<open>UnmarshalFromBSON\<close>: \<open>op_elements\<close> is its loop over the elements, \<open>op_array\<close> the one over the
  operations of a transaction. An element of another name ends the loop without an error: the
  code wraps an error that is nil there.
\<close>

function (sequential) unmarshal_op :: "oplog_op \<Rightarrow> bytes \<Rightarrow> go_error + oplog_op"
  and op_elements :: "oplog_op \<Rightarrow> bytes list \<Rightarrow> go_error option \<Rightarrow> go_error + oplog_op"
  and op_array :: "raw_value list \<Rightarrow> go_error + oplog_op list" where
  "unmarshal_op oo doc = (case raw_elements doc of (els, err) \<Rightarrow> op_elements oo els err)"
| "op_elements oo [] err = (case err of None \<Rightarrow> Inr oo | Some e \<Rightarrow> Inl e)"
| "op_elements (Op opn ts ns cmd len docID ops obj) (el # els) err =
     rbind (key_bytes_err el) (\<lambda>k. let key = bytes_str k in
       if key = ''op'' then rbind (unmarshal_element_value cast_string el)
         (\<lambda>s. op_elements (Op s ts ns cmd len docID ops obj) els err)
       else if key = ''ts'' then rbind (unmarshal_element_value cast_timestamp el)
         (\<lambda>t. op_elements (Op opn t ns cmd len docID ops obj) els err)
       else if key = ''ns'' then rbind (unmarshal_element_value cast_string el)
         (\<lambda>s. op_elements (Op opn ts s cmd len docID ops obj) els err)
       else if key = ''cmdName'' then rbind (unmarshal_element_value cast_string el)
         (\<lambda>s. op_elements (Op opn ts ns (Some s) len docID ops obj) els err)
       else if key = ''docLen'' then rbind (unmarshal_element_value cast_int32 el)
         (\<lambda>i. op_elements (Op opn ts ns cmd i docID ops obj) els err)
       else if key = ''docID'' then rbind (value_err el)
         (\<lambda>rv. op_elements (Op opn ts ns cmd len rv ops obj) els err)
       else if key = ''o'' then rbind (unmarshal_element_value cast_raw el)
         (\<lambda>d. op_elements (Op opn ts ns cmd len docID ops d) els err)
       else if key = ''ops'' then rbind (unmarshal_element_value cast_raw_array el) (\<lambda>arr.
         rbind (doc_values arr) (\<lambda>vals. rbind (op_array vals)
         (\<lambda>os. op_elements (Op opn ts ns cmd len docID os obj) els err)))
       else Inr (Op opn ts ns cmd len docID ops obj))"
| "op_array [] = Inr []"
| "op_array (v # vs) = rbind (cast_raw v) (\<lambda>opRaw. rbind (unmarshal_op zero_op opRaw) (\<lambda>oo.
     rbind (op_array vs) (\<lambda>os. Inr (oo # os))))"
  by pat_completeness auto

termination
proof (relation "measure (\<lambda>x. case x of
       Inl (_, doc) \<Rightarrow> 3 * length doc + 2
     | Inr (Inl (_, els, _)) \<Rightarrow> 3 * (\<Sum>el \<leftarrow> els. length el) + 1
     | Inr (Inr vs) \<Rightarrow> 3 * (\<Sum>v \<leftarrow> vs. length (rv_value v) + 1))")
qed (auto dest: key_bytes_err_not_Nil cast_raw_length
      op_array_measure intro: op_elements_measure)

declare unmarshal_op.simps [simp del] op_elements.simps [simp del]

section \<open>The resume token\<close>

definition rtBSONLength :: nat where "rtBSONLength = 4 + 1 + 2 + 1 + 8 + 1"

definition marshal_resume_token :: "timestamp \<Rightarrow> go_error + bytes" where
  "marshal_resume_token ts =
     (let buf = append32 (word_of_nat rtBSONLength) @ enc_elem ''ts'' (timestamp_value ts) @ [0]
      in if length buf \<noteq> rtBSONLength then Inl (Panic ''bad resume token BSON length'') else Inr buf)"

definition get_raw_resume_token_timestamp :: "bytes \<Rightarrow> go_error + timestamp" where
  "get_raw_resume_token_timestamp token = rbind (lookup_err token [''ts'']) cast_timestamp"

section \<open>Parsing a batch\<close>

datatype ddl_handling = OnDDLFail | OnDDLAllow | OnDDLWarnMost

record oplog_env =
  oe_readerType :: whichCluster
  oe_onDDL :: ddl_handling
  oe_namespaces :: "string list"
  oe_metaDB :: string

definition ddl_cmd_name_to_op_type :: "string \<rightharpoonup> string" where
  "ddl_cmd_name_to_op_type = map_of [(''create'', ''create''), (''collMod'', ''modify''),
     (''createIndexes'', ''createIndexes''), (''commitIndexBuild'', ''createIndexes''),
     (''dropIndexes'', ''dropIndexes'')]"

definition index_cmds_to_discard :: "string list" where
  "index_cmds_to_discard = [''startIndexBuild'', ''abortIndexBuild'']"

definition oplog_op_to_operation_type :: "string \<Rightarrow> string" where
  "oplog_op_to_operation_type opn = (case map_of [(''i'', ''insert''), (''r'', ''replace''),
     (''u'', ''update''), (''d'', ''delete'')] opn of None \<Rightarrow> [] | Some t \<Rightarrow> t)"

definition excluded_ns_prefixes :: "oplog_env \<Rightarrow> string list" where
  "excluded_ns_prefixes env = [''mongosync_internal_'', ''mongosync_reserved_'', ''__mdb_internal'',
     oe_metaDB env @ ''.'', ''config.'', ''admin.'']"

definition has_prefix :: "string \<Rightarrow> string \<Rightarrow> bool" where
  "has_prefix s p \<longleftrightarrow> take (length p) s = p"

definition make_event :: "string \<Rightarrow> string \<Rightarrow> raw_value \<Rightarrow> u64 option \<Rightarrow> timestamp \<Rightarrow> parsed_event" where
  "make_event opn nsStr docID docLen ts = zero_event\<lparr>pe_OpType := oplog_op_to_operation_type opn,
     pe_Ns := Some (case split_namespace nsStr of (db, coll) \<Rightarrow> \<lparr>ns_DB = db, ns_Coll = coll\<rparr>),
     pe_DocID := Some docID, pe_FullDocLen := docLen, pe_ClusterTime := Some ts\<rparr>"

text \<open>Where the document and its id are found: the field of the document, or the id itself.\<close>

definition doc_field_of :: "string \<Rightarrow> bytes \<Rightarrow> go_error + string \<times> raw_value" where
  "doc_field_of opName rawDoc =
     (if opName = ''i'' then Inr (''o'', rv_zero)
      else if opName = ''d'' then rbind (lookup_err rawDoc [''o'', ''_id'']) (\<lambda>docID. Inr ([], docID))
      else if opName = ''u''
      then (case lookup_err rawDoc [''o'', ''_id''] of
              Inr _ \<Rightarrow> Inr (''o'', rv_zero)
            | Inl ElementNotFound \<Rightarrow> rbind (lookup_err rawDoc [''o2'', ''_id'']) (\<lambda>docID. Inr ([], docID))
            | Inl e \<Rightarrow> Inl e)
      else Inl (Panic ''op unexpected''))"

definition parse_one_document_op :: "oplog_env \<Rightarrow> string \<Rightarrow> timestamp \<Rightarrow> bytes \<Rightarrow> parsed_event list
     \<Rightarrow> go_error + parsed_event list" where
  "parse_one_document_op env opName ts rawDoc events =
     rbind (lookup_cast cast_string rawDoc [''ns'']) (\<lambda>nsStr.
       if list_ex (has_prefix nsStr) (excluded_ns_prefixes env) then Inr events
       else if oe_namespaces env \<noteq> [] \<and> nsStr \<notin> set (oe_namespaces env) then Inr events
       else rbind (doc_field_of opName rawDoc) (\<lambda>(docField, docID).
         if docField \<noteq> []
         then rbind (lookup_cast cast_raw rawDoc [docField]) (\<lambda>doc.
              rbind (lookup_err doc [''_id'']) (\<lambda>docID.
                Inr (events @ [make_event (if opName = ''u'' then ''r'' else opName) nsStr docID
                                 (Some (word_of_nat (length doc))) ts])))
         else if rv_is_zero docID then Inl (Panic ''zero doc ID!'')
         else Inr (events @ [make_event opName nsStr docID None ts])))"

text \<open>The result is whether the command was a DDL command, and the events.\<close>

definition try_append_ddl_event :: "oplog_env \<Rightarrow> parsed_event list \<Rightarrow> string \<Rightarrow> bytes \<Rightarrow> bytes \<Rightarrow> timestamp
     \<Rightarrow> go_error + bool \<times> parsed_event list" where
  "try_append_ddl_event env events cmdName oDoc rawDoc ts =
     (if cmdName \<in> set index_cmds_to_discard then Inr (True, events)
      else (case ddl_cmd_name_to_op_type cmdName of
              None \<Rightarrow> Inr (False, events)
            | Some ddlOpType \<Rightarrow>
                if oe_onDDL env = OnDDLAllow \<and> oe_readerType env \<noteq> Dst
                then Inl (Panic ''DDL handling should be for the destination only'')
                else if oe_onDDL env = OnDDLFail then Inr (False, events)
                else rbind (lookup_cast cast_string oDoc [cmdName]) (\<lambda>collName.
                  rbind (lookup_cast cast_string rawDoc [''ns'']) (\<lambda>nsStr.
                    if oe_readerType env = Src \<and> oe_onDDL env \<noteq> OnDDLWarnMost
                    then Inl (Panic ''src DDL handling'')
                    else Inr (True, events @ [zero_event\<lparr>pe_OpType := ddlOpType,
                           pe_Ns := Some \<lparr>ns_DB = fst (split_namespace nsStr), ns_Coll = collName\<rparr>,
                           pe_ClusterTime := Some ts\<rparr>])))))"

definition get_unknown_event_err :: "oplog_env \<Rightarrow> timestamp \<Rightarrow> timestamp \<Rightarrow> go_error + unit" where
  "get_unknown_event_err env ts allowDDLBeforeTS =
     (if oe_onDDL env = OnDDLAllow then Inr ()
      else if \<not> ts_after ts allowDDLBeforeTS then Inr ()
      else Inl (Err ''unknown event''))"

text \<open>\<open>parseRawOps\<close>, for servers without \<open>$bsonSize\<close>: the entries are the oplog's own.\<close>

definition parse_raw_entry :: "oplog_env \<Rightarrow> timestamp \<Rightarrow> parsed_event list \<times> timestamp \<Rightarrow> bytes
     \<Rightarrow> go_error + parsed_event list \<times> timestamp" where
  "parse_raw_entry env allowDDLBeforeTS = (\<lambda>(events, _) rawDoc.
     rbind (lookup_cast cast_string rawDoc [''op'']) (\<lambda>opName.
     rbind (lookup_cast cast_timestamp rawDoc [''ts'']) (\<lambda>latestTS.
       if opName = ''n'' then Inr (events, latestTS)
       else if opName = ''c'' then
         rbind (lookup_cast cast_raw rawDoc [''o'']) (\<lambda>oDoc.
         rbind (index_err oDoc 0) (\<lambda>el.
         rbind (key_bytes_err el) (\<lambda>cmdName.
         rbind (try_append_ddl_event env events (bytes_str cmdName) oDoc rawDoc latestTS) (\<lambda>(isDDL, events).
           if isDDL then Inr (events, latestTS)
           else if bytes_str cmdName \<noteq> ''applyOps''
           then rbind (get_unknown_event_err env latestTS allowDDLBeforeTS) (\<lambda>_. Inr (events, latestTS))
           else rbind (unmarshal_element_value cast_raw el) (\<lambda>opsArray.
                rbind (doc_values opsArray) (\<lambda>arrayVals.
                rbind (rfold (\<lambda>events opRV. rbind (cast_raw opRV) (\<lambda>opRaw.
                         rbind (lookup_cast cast_string opRaw [''op'']) (\<lambda>opName.
                           parse_one_document_op env opName latestTS opRaw events))) events arrayVals)
                  (\<lambda>events. Inr (events, latestTS))))))))
       else rbind (parse_one_document_op env opName latestTS rawDoc events) (\<lambda>events. Inr (events, latestTS)))))"

definition parse_raw_ops :: "oplog_env \<Rightarrow> timestamp \<Rightarrow> bytes list \<Rightarrow> parsed_event list
     \<Rightarrow> go_error + parsed_event list \<times> timestamp" where
  "parse_raw_ops env allowDDLBeforeTS curDocs events =
     rfold (parse_raw_entry env allowDDLBeforeTS) (events, ts_zero) curDocs"

text \<open>\<open>parseExprProjectedOps\<close>: the entries are as the server projects them.\<close>

definition parse_projected_entry :: "oplog_env \<Rightarrow> timestamp \<Rightarrow> parsed_event list \<times> timestamp \<Rightarrow> bytes
     \<Rightarrow> go_error + parsed_event list \<times> timestamp" where
  "parse_projected_entry env allowDDLBeforeTS = (\<lambda>(events, _) rawDoc.
     rbind (unmarshal_op zero_op rawDoc) (\<lambda>op.
       let latestTS = op_TS op in
       if op_Op op = ''n'' then Inr (events, latestTS)
       else if op_Op op = ''c'' then
         (case op_CmdName op of
            None \<Rightarrow> Inl (Err ''no cmdname in op=c'')
          | Some cmdName \<Rightarrow>
              rbind (try_append_ddl_event env events cmdName (op_Object op) rawDoc latestTS) (\<lambda>(isDDL, events).
                if isDDL then Inr (events, latestTS)
                else if cmdName \<noteq> ''applyOps''
                then rbind (get_unknown_event_err env latestTS allowDDLBeforeTS) (\<lambda>_. Inr (events, latestTS))
                else Inr (events @ map (\<lambda>subOp. make_event (op_Op subOp) (op_Ns subOp) (op_DocID subOp)
                            (Some (scast (op_DocLen subOp))) latestTS) (op_Ops op), latestTS)))
       else Inr (events @ [make_event (op_Op op) (op_Ns op) (op_DocID op) (Some (scast (op_DocLen op))) latestTS],
              latestTS)))"

definition parse_expr_projected_ops :: "oplog_env \<Rightarrow> timestamp \<Rightarrow> bytes list \<Rightarrow> parsed_event list
     \<Rightarrow> go_error + parsed_event list \<times> timestamp" where
  "parse_expr_projected_ops env allowDDLBeforeTS curDocs events =
     rfold (parse_projected_entry env allowDDLBeforeTS) (events, ts_zero) curDocs"

section \<open>Reading batches\<close>

record oplog_reader =
  lastChangeEventTime :: "timestamp option"
  sentBatches :: "(parsed_event list \<times> bytes) list"

definition read_and_handle_one_batch :: "oplog_env \<Rightarrow> bool \<Rightarrow> timestamp \<Rightarrow> oplog_reader \<Rightarrow> bytes list
     \<Rightarrow> go_error + oplog_reader" where
  "read_and_handle_one_batch env hasBSONSize allowDDLBeforeTS o1 curDocs =
     (if curDocs = [] then Inr o1
      else rbind (if hasBSONSize then parse_expr_projected_ops env allowDDLBeforeTS curDocs []
                  else parse_raw_ops env allowDDLBeforeTS curDocs []) (\<lambda>(events, latestTS).
           rbind (marshal_resume_token latestTS) (\<lambda>resumeToken.
             Inr (o1\<lparr>sentBatches := sentBatches o1 @ [(events, resumeToken)],
                     lastChangeEventTime := Some latestTS\<rparr>))))"

definition ts_or_zero :: "timestamp option \<Rightarrow> timestamp" where
  "ts_or_zero t = (case t of None \<Rightarrow> ts_zero | Some t \<Rightarrow> t)"

datatype reader_end = Done | Waiting

text \<open>The loop after the writes-off time is known; \<open>Waiting\<close> when the cursor's batches are used up.\<close>

fun read_until :: "(oplog_reader \<Rightarrow> bytes list \<Rightarrow> go_error + oplog_reader) \<Rightarrow> timestamp \<Rightarrow> oplog_reader
     \<Rightarrow> bytes list list \<Rightarrow> go_error + reader_end \<times> oplog_reader" where
  "read_until handle writesOffTS o1 batches =
     (if \<not> ts_after writesOffTS (ts_or_zero (lastChangeEventTime o1)) then Inr (Done, o1)
      else (case batches of
              [] \<Rightarrow> Inr (Waiting, o1)
            | b # bs \<Rightarrow> rbind (handle o1 b) (\<lambda>o2. read_until handle writesOffTS o2 bs)))"

declare read_until.simps [simp del]

text \<open>\<open>iterateCursor\<close>: each batch comes with the writes-off time if it was set before the read.\<close>

fun iterate_cursor :: "(oplog_reader \<Rightarrow> bytes list \<Rightarrow> go_error + oplog_reader) \<Rightarrow> oplog_reader
     \<Rightarrow> (timestamp option \<times> bytes list) list \<Rightarrow> go_error + reader_end \<times> oplog_reader" where
  "iterate_cursor handle o1 [] = Inr (Waiting, o1)"
| "iterate_cursor handle o1 ((None, b) # bs) = rbind (handle o1 b) (\<lambda>o2. iterate_cursor handle o2 bs)"
| "iterate_cursor handle o1 ((Some writesOffTS, b) # bs) = read_until handle writesOffTS o1 (b # map snd bs)"

section \<open>Entries of the oplog\<close>

text \<open>
  A write as the server records it: \<open>wr_fields\<close> is the rest of the inserted or replaced document, or
  the update's description. \<open>getExprProjection\<close> asks the server for \<open>write_projection\<close> of it.
\<close>

datatype write_kind = WInsert | WReplace | WUpdate | WDelete

record write_op =
  wr_kind :: write_kind
  wr_ns :: string
  wr_id :: raw_value
  wr_fields :: "(string \<times> raw_value) list"

definition write_o :: "write_op \<Rightarrow> (string \<times> raw_value) list" where
  "write_o w = (case wr_kind w of
       WDelete \<Rightarrow> [(''_id'', wr_id w)]
     | WUpdate \<Rightarrow> wr_fields w
     | _ \<Rightarrow> (''_id'', wr_id w) # wr_fields w)"

definition write_fields :: "write_op \<Rightarrow> (string \<times> raw_value) list" where
  "write_fields w =
     [(''op'', string_value (case wr_kind w of WInsert \<Rightarrow> ''i'' | WDelete \<Rightarrow> ''d'' | _ \<Rightarrow> ''u'')),
      (''ns'', string_value (wr_ns w)), (''o'', document_value (enc_doc (write_o w)))]
     @ (if wr_kind w \<in> {WReplace, WUpdate} then [(''o2'', document_value (enc_doc [(''_id'', wr_id w)]))] else [])"

definition projected_op :: "write_op \<Rightarrow> string" where
  "projected_op w = (case wr_kind w of WInsert \<Rightarrow> ''i'' | WReplace \<Rightarrow> ''r'' | WUpdate \<Rightarrow> ''u'' | WDelete \<Rightarrow> ''d'')"

definition write_doc_len :: "write_op \<Rightarrow> u32 option" where
  "write_doc_len w = (if wr_kind w \<in> {WInsert, WReplace} then Some (word_of_nat (length (enc_doc (write_o w)))) else None)"

definition write_projection :: "write_op \<Rightarrow> (string \<times> raw_value) list" where
  "write_projection w =
     [(''op'', string_value (projected_op w)), (''ns'', string_value (wr_ns w)), (''docID'', wr_id w)]
     @ (case write_doc_len w of None \<Rightarrow> [] | Some n \<Rightarrow> [(''docLen'', int32_value n)])"

definition wf_write :: "write_op \<Rightarrow> bool" where
  "wf_write w \<longleftrightarrow> wf_value (wr_id w) \<and> wr_id w \<noteq> rv_zero \<and> list_all wf_kv (wr_fields w)
     \<and> (wr_kind w = WUpdate \<longrightarrow> ''_id'' \<notin> fst ` set (wr_fields w))
     \<and> length (wr_ns w) + 2 * length (rv_value (wr_id w)) + body_len (wr_fields w) + 500 < 2 ^ 31"

text \<open>What one write is to the verifier: one event, unless its namespace is not watched.\<close>

definition ns_watched :: "oplog_env \<Rightarrow> string \<Rightarrow> bool" where
  "ns_watched env ns \<longleftrightarrow> \<not> list_ex (has_prefix ns) (excluded_ns_prefixes env)
     \<and> (oe_namespaces env \<noteq> [] \<longrightarrow> ns \<in> set (oe_namespaces env))"

definition write_event :: "u64 option \<Rightarrow> timestamp \<Rightarrow> write_op \<Rightarrow> parsed_event" where
  "write_event noLen ts w = make_event (projected_op w) (wr_ns w) (wr_id w)
     (case write_doc_len w of None \<Rightarrow> noLen | Some n \<Rightarrow> Some (scast n)) ts"

lemma wf_write_o: "wf_write w \<Longrightarrow> list_all wf_kv (write_o w) \<and> small (write_o w)"
  by (cases "wr_kind w") (auto simp: wf_write_def write_o_def wf_kv_def valid_cstring_def small_def)

lemma wf_write_o2: "wf_write w \<Longrightarrow> list_all wf_kv [(''_id'', wr_id w)] \<and> small [(''_id'', wr_id w)]"
  by (auto simp: wf_write_def wf_kv_def valid_cstring_def small_def)

lemma body_len_write_o: "body_len (write_o w) \<le> 5 + length (rv_value (wr_id w)) + body_len (wr_fields w)"
  by (cases "wr_kind w") (simp_all add: write_o_def)

lemma wf_write_fields:
  assumes "wf_write w"
  shows "list_all wf_kv (write_fields w) \<and> small (write_fields w)"
proof -
  have l: "length (wr_ns w) + 5 < 2 ^ 31" "length (wr_ns w) + 2 * length (rv_value (wr_id w)) + body_len (wr_fields w) + 500 < 2 ^ 31"
    using assms by (simp_all add: wf_write_def)
  have d: "wf_value (document_value (enc_doc (write_o w)))" "wf_value (document_value (enc_doc [(''_id'', wr_id w)]))"
    using wf_write_o [OF assms] wf_write_o2 [OF assms] wf_document_value by blast+
  show ?thesis
    using l d body_len_write_o [of w]
    by (cases "wr_kind w") (simp_all add: write_fields_def wf_kv_def valid_cstring_def wf_string_value small_def length_enc_doc)
qed

lemma lookup_nested_enc:
  assumes "list_all wf_kv kvs" "small kvs" "map_of kvs k = Some (document_value (enc_doc kvs'))" "small kvs'" "ks \<noteq> []"
  shows "lookup_err (enc_doc kvs) (k # ks) = lookup_err (enc_doc kvs') ks"
proof -
  from map_of_wf [OF assms(1,3)] have v: "valid_cstring k" "wf_value (document_value (enc_doc kvs'))" by simp_all
  have "lookup_loop (1 + int (body_len kvs)) (concat (map (\<lambda>(k, v). enc_elem k v) kvs) @ [0]) k
      = Inr (enc_elem k (document_value (enc_doc kvs')))"
    using lookup_loop_enc [OF assms(1), of "[0]" k] assms(3) by simp
  with v show ?thesis
    using assms(2,4,5) rv_document_enc [OF assms(4)]
    by (subst lookup_err.simps) (simp add: read_length_enc_doc rv_document_def)
qed

lemma lookup_cast_enc:
  "list_all wf_kv kvs \<Longrightarrow> small kvs \<Longrightarrow> map_of kvs k = Some v \<Longrightarrow> lookup_cast cast (enc_doc kvs) [k] = cast v"
  by (simp add: lookup_cast_def lookup_enc_doc)

lemma map_of_write_fields:
  "map_of (write_fields w @ xs) ''op'' =
     Some (string_value (case wr_kind w of WInsert \<Rightarrow> ''i'' | WDelete \<Rightarrow> ''d'' | _ \<Rightarrow> ''u''))"
  "map_of (write_fields w @ xs) ''ns'' = Some (string_value (wr_ns w))"
  "map_of (write_fields w @ xs) ''o'' = Some (document_value (enc_doc (write_o w)))"
  "wr_kind w \<in> {WReplace, WUpdate} \<Longrightarrow>
     map_of (write_fields w @ xs) ''o2'' = Some (document_value (enc_doc [(''_id'', wr_id w)]))"
  by (simp_all add: write_fields_def)

lemma write_o_id:
  assumes "wf_write w"
  shows "lookup_err (enc_doc (write_o w)) [''_id''] = (if wr_kind w = WUpdate then Inl ElementNotFound else Inr (wr_id w))"
proof -
  have "map_of (wr_fields w) ''_id'' = None" if "wr_kind w = WUpdate"
    using assms that by (simp add: wf_write_def map_of_eq_None_iff)
  then show ?thesis
    using wf_write_o [OF assms] by (cases "wr_kind w") (simp_all add: lookup_enc_doc write_o_def)
qed

lemma scast_of_nat32: "n < 2 ^ 31 \<Longrightarrow> (scast (word_of_nat n :: u32) :: u64) = word_of_nat n"
  by (simp add: scast_eq sint_of_nat32)

lemma rv_is_zero_iff: "rv_is_zero v \<longleftrightarrow> v = rv_zero"
  by (cases v) (simp add: rv_is_zero_def rv_zero_def)

lemma wf_write_ns: "wf_write w \<Longrightarrow> length (wr_ns w) + 5 < 2 ^ 31"
  by (simp add: wf_write_def)

lemma parse_one_document_op_write:
  assumes "wf_write w" "list_all wf_kv xs" "small (write_fields w @ xs)"
  shows "parse_one_document_op env (case wr_kind w of WInsert \<Rightarrow> ''i'' | WDelete \<Rightarrow> ''d'' | _ \<Rightarrow> ''u'') ts
      (enc_doc (write_fields w @ xs)) events
    = Inr (if ns_watched env (wr_ns w) then events @ [write_event None ts w] else events)"
proof -
  let ?kvs = "write_fields w @ xs"
  have wf: "list_all wf_kv ?kvs" using wf_write_fields [OF assms(1)] assms(2) by simp
  note o = wf_write_o [OF assms(1), THEN conjunct2]
  have ns: "lookup_cast cast_string (enc_doc ?kvs) [''ns''] = Inr (wr_ns w)"
    using lookup_cast_enc [OF wf assms(3) map_of_write_fields(2), of cast_string] wf_write_ns [OF assms(1)]
    by (simp add: cast_string_value)
  have doc: "lookup_cast cast_raw (enc_doc ?kvs) [''o''] = Inr (enc_doc (write_o w))"
    using lookup_cast_enc [OF wf assms(3) map_of_write_fields(3), of cast_raw] cast_raw_enc [OF o] by simp
  have oid: "lookup_err (enc_doc ?kvs) [''o'', ''_id''] = (if wr_kind w = WUpdate then Inl ElementNotFound else Inr (wr_id w))"
    using lookup_nested_enc [OF wf assms(3) map_of_write_fields(3) o] write_o_id [OF assms(1)] by simp
  have o2id: "lookup_err (enc_doc ?kvs) [''o2'', ''_id''] = Inr (wr_id w)" if "wr_kind w = WUpdate"
    using lookup_nested_enc [OF wf assms(3) map_of_write_fields(4), of "[''_id'']"] wf_write_o2 [OF assms(1)] that
    by (simp add: lookup_enc_doc)
  have nz: "\<not> rv_is_zero (wr_id w)" using assms(1) by (simp add: wf_write_def rv_is_zero_iff)
  have len: "(word_of_nat (length (enc_doc (write_o w))) :: u64) = scast (word_of_nat (length (enc_doc (write_o w))) :: u32)"
    using o by (intro scast_of_nat32 [symmetric]) (simp add: small_def length_enc_doc)
  show ?thesis
    using ns doc oid o2id nz len write_o_id [OF assms(1)]
    by (cases "wr_kind w")
      (auto simp: parse_one_document_op_def ns_watched_def doc_field_of_def write_event_def projected_op_def write_doc_len_def)
qed

datatype oplog_entry =
    WriteEntry write_op
  | NoopEntry
  | CommandEntry string string string "(string \<times> raw_value) list"
  | ApplyOpsEntry string "write_op list"

definition enc_array_docs :: "(string \<times> raw_value) list list \<Rightarrow> (string \<times> raw_value) list" where
  "enc_array_docs ds = map (\<lambda>(i, d). (itoa i, document_value (enc_doc d))) (enumerate 0 ds)"

fun entry_fields :: "timestamp \<Rightarrow> oplog_entry \<Rightarrow> (string \<times> raw_value) list" where
  "entry_fields ts (WriteEntry w) = write_fields w @ [(''ts'', timestamp_value ts)]"
| "entry_fields ts NoopEntry = [(''op'', string_value ''n''), (''ns'', string_value []), (''ts'', timestamp_value ts)]"
| "entry_fields ts (CommandEntry ns cmd coll rest) =
     [(''op'', string_value ''c''), (''ns'', string_value ns),
      (''o'', document_value (enc_doc ((cmd, string_value coll) # rest))), (''ts'', timestamp_value ts)]"
| "entry_fields ts (ApplyOpsEntry ns ws) =
     [(''op'', string_value ''c''), (''ns'', string_value ns),
      (''o'', document_value (enc_doc [(''applyOps'', array_value (enc_doc (enc_array_docs (map write_fields ws))))])),
      (''ts'', timestamp_value ts)]"

fun entry_projection :: "oplog_env \<Rightarrow> timestamp \<Rightarrow> oplog_entry \<Rightarrow> (string \<times> raw_value) list" where
  "entry_projection env ts (WriteEntry w) = (''ts'', timestamp_value ts) # write_projection w"
| "entry_projection env ts NoopEntry =
     [(''ts'', timestamp_value ts), (''op'', string_value ''n''), (''ns'', string_value [])]"
| "entry_projection env ts (CommandEntry ns cmd coll rest) =
     [(''ts'', timestamp_value ts), (''op'', string_value ''c''), (''ns'', string_value ns),
      (''cmdName'', string_value cmd), (''o'', document_value (enc_doc ((cmd, string_value coll) # rest)))]"
| "entry_projection env ts (ApplyOpsEntry ns ws) =
     [(''ts'', timestamp_value ts), (''op'', string_value ''c''), (''ns'', string_value ns),
      (''cmdName'', string_value ''applyOps''),
      (''ops'', array_value (enc_doc (enc_array_docs
         (map write_projection (filter (\<lambda>w. ns_watched env (wr_ns w)) ws)))))]"

fun wf_entry :: "oplog_env \<Rightarrow> oplog_entry \<Rightarrow> bool" where
  "wf_entry env (WriteEntry w) \<longleftrightarrow> wf_write w"
| "wf_entry env NoopEntry \<longleftrightarrow> True"
| "wf_entry env (CommandEntry ns cmd coll rest) \<longleftrightarrow> valid_cstring cmd \<and> cmd \<noteq> ''applyOps'' \<and> list_all wf_kv rest
     \<and> length ns + 2 * length cmd + length coll + body_len rest + 500 < 2 ^ 31"
| "wf_entry env (ApplyOpsEntry ns ws) \<longleftrightarrow> list_all wf_write ws
     \<and> length ns + body_len (enc_array_docs (map write_fields ws))
         + body_len (enc_array_docs (map write_projection (filter (\<lambda>w. ns_watched env (wr_ns w)) ws))) + 500 < 2 ^ 31"

text \<open>The query the reader opens its cursor with selects only the writes of watched namespaces.\<close>

fun query_selects :: "oplog_env \<Rightarrow> oplog_entry \<Rightarrow> bool" where
  "query_selects env (WriteEntry w) \<longleftrightarrow> ns_watched env (wr_ns w)"
| "query_selects env e \<longleftrightarrow> True"

text \<open>
  The events an entry should give. DDL commands become events unless they are to fail; a command
  that is no DDL, or is to fail, is an error on the source from its start time on.
\<close>

definition command_events :: "oplog_env \<Rightarrow> timestamp \<Rightarrow> timestamp \<Rightarrow> string \<Rightarrow> string \<Rightarrow> string
     \<Rightarrow> go_error + parsed_event list" where
  "command_events env allow ts ns cmd coll =
     (if cmd \<in> set index_cmds_to_discard then Inr []
      else (case ddl_cmd_name_to_op_type cmd of
              Some t \<Rightarrow> if oe_onDDL env = OnDDLFail then rbind (get_unknown_event_err env ts allow) (\<lambda>_. Inr [])
                        else Inr [zero_event\<lparr>pe_OpType := t,
                               pe_Ns := Some \<lparr>ns_DB = fst (split_namespace ns), ns_Coll = coll\<rparr>,
                               pe_ClusterTime := Some ts\<rparr>]
            | None \<Rightarrow> rbind (get_unknown_event_err env ts allow) (\<lambda>_. Inr [])))"

fun entry_events :: "oplog_env \<Rightarrow> u64 option \<Rightarrow> timestamp \<Rightarrow> timestamp \<Rightarrow> oplog_entry
     \<Rightarrow> go_error + parsed_event list" where
  "entry_events env noLen allow ts (WriteEntry w) =
     Inr (if ns_watched env (wr_ns w) then [write_event noLen ts w] else [])"
| "entry_events env noLen allow ts NoopEntry = Inr []"
| "entry_events env noLen allow ts (CommandEntry ns cmd coll rest) = command_events env allow ts ns cmd coll"
| "entry_events env noLen allow ts (ApplyOpsEntry ns ws) =
     Inr (map (write_event noLen ts) (filter (\<lambda>w. ns_watched env (wr_ns w)) ws))"

definition oplog_step :: "oplog_env \<Rightarrow> u64 option \<Rightarrow> timestamp \<Rightarrow> parsed_event list \<times> timestamp
     \<Rightarrow> timestamp \<times> oplog_entry \<Rightarrow> go_error + parsed_event list \<times> timestamp" where
  "oplog_step env noLen allow = (\<lambda>(events, _) (ts, e).
     rbind (entry_events env noLen allow ts e) (\<lambda>new. Inr (events @ new, ts)))"

text \<open>The readers' constructors: the destination allows DDL, the source warns or fails.\<close>

definition env_ok :: "oplog_env \<Rightarrow> bool" where
  "env_ok env \<longleftrightarrow> (oe_readerType env = Dst \<longleftrightarrow> oe_onDDL env = OnDDLAllow)"

lemma wf_command_doc:
  assumes "wf_entry env (CommandEntry ns cmd coll rest)"
  shows "list_all wf_kv ((cmd, string_value coll) # rest) \<and> small ((cmd, string_value coll) # rest)"
proof -
  have "length coll + 5 < 2 ^ 31" using assms by simp
  with assms show ?thesis by (simp add: wf_kv_def wf_string_value small_def)
qed

lemma try_append_command:
  assumes "env_ok env" "wf_entry env (CommandEntry ns cmd coll rest)"
    and "lookup_cast cast_string rawDoc [''ns''] = Inr ns"
  shows "try_append_ddl_event env events cmd (enc_doc ((cmd, string_value coll) # rest)) rawDoc ts =
    (if cmd \<in> set index_cmds_to_discard then Inr (True, events)
     else case ddl_cmd_name_to_op_type cmd of
       None \<Rightarrow> Inr (False, events)
     | Some t \<Rightarrow> if oe_onDDL env = OnDDLFail then Inr (False, events)
         else Inr (True, events @ [zero_event\<lparr>pe_OpType := t,
           pe_Ns := Some \<lparr>ns_DB = fst (split_namespace ns), ns_Coll = coll\<rparr>, pe_ClusterTime := Some ts\<rparr>]))"
proof -
  note wf = wf_command_doc [OF assms(2)]
  have l: "length coll + 5 < 2 ^ 31" using assms(2) by simp
  have "lookup_cast cast_string (enc_doc ((cmd, string_value coll) # rest)) [cmd] = Inr coll"
    using lookup_cast_enc [of "(cmd, string_value coll) # rest" cmd "string_value coll" cast_string] wf
    by (simp add: cast_string_value [OF l])
  with assms(1,3) show ?thesis
    by (cases "oe_readerType env"; cases "oe_onDDL env")
      (simp_all add: try_append_ddl_event_def env_ok_def split: option.split)
qed

text \<open>What the parsers do with a command once its name is read.\<close>

lemma command_outcome:
  assumes "env_ok env" "wf_entry env (CommandEntry ns cmd coll rest)"
    and "lookup_cast cast_string rawDoc [''ns''] = Inr ns"
  shows "rbind (try_append_ddl_event env events cmd (enc_doc ((cmd, string_value coll) # rest)) rawDoc ts)
      (\<lambda>(isDDL, events). if isDDL then Inr (events, ts)
         else if cmd \<noteq> ''applyOps'' then rbind (get_unknown_event_err env ts allow) (\<lambda>_. Inr (events, ts)) else other events)
    = rbind (command_events env allow ts ns cmd coll) (\<lambda>new. Inr (events @ new, ts))"
  unfolding try_append_command [OF assms]
  using assms(2) by (auto simp: command_events_def get_unknown_event_err_def split: option.split)

lemma enc_array_docs_wf:
  "\<forall>d \<in> set ds. small d \<Longrightarrow> list_all wf_kv (enc_array_docs ds)"
  by (auto simp: enc_array_docs_def list_all_iff wf_kv_def valid_cstring_itoa wf_document_value
      dest!: in_set_enumerate_eq [THEN iffD1])

lemma snd_enc_array_docs: "map snd (enc_array_docs ds) = map (\<lambda>d. document_value (enc_doc d)) ds"
  by (rule nth_equalityI) (simp_all add: enc_array_docs_def nth_enumerate_eq)

lemma wf_write_projection:
  assumes "wf_write w"
  shows "list_all wf_kv (write_projection w) \<and> small (write_projection w)"
  using assms wf_write_ns [OF assms]
  by (cases "wr_kind w")
    (simp_all add: write_projection_def projected_op_def write_doc_len_def wf_kv_def valid_cstring_def
      wf_string_value small_def wf_write_def)

lemma wf_apply_ops:
  assumes "wf_entry env (ApplyOpsEntry ns ws)"
  shows "list_all wf_kv (enc_array_docs (map write_fields ws)) \<and> small (enc_array_docs (map write_fields ws))"
    and "list_all wf_kv (enc_array_docs (map write_projection (filter (\<lambda>w. ns_watched env (wr_ns w)) ws)))
      \<and> small (enc_array_docs (map write_projection (filter (\<lambda>w. ns_watched env (wr_ns w)) ws)))"
proof -
  have w: "\<forall>w \<in> set ws. wf_write w" using assms by (simp add: list_all_iff)
  have "list_all wf_kv (enc_array_docs (map write_fields ws))"
    by (rule enc_array_docs_wf) (use w wf_write_fields in auto)
  with assms show "list_all wf_kv (enc_array_docs (map write_fields ws)) \<and> small (enc_array_docs (map write_fields ws))"
    by (simp add: small_def)
  have "list_all wf_kv (enc_array_docs (map write_projection (filter (\<lambda>w. ns_watched env (wr_ns w)) ws)))"
    by (rule enc_array_docs_wf) (use w wf_write_projection in auto)
  with assms show "list_all wf_kv (enc_array_docs (map write_projection (filter (\<lambda>w. ns_watched env (wr_ns w)) ws)))
      \<and> small (enc_array_docs (map write_projection (filter (\<lambda>w. ns_watched env (wr_ns w)) ws)))"
    by (simp add: small_def)
qed

lemma body_len_write_fields:
  "wf_write w \<Longrightarrow> body_len (write_fields w) + 300 < 2 ^ 31"
  using body_len_write_o [of w]
  by (cases "wr_kind w") (simp_all add: write_fields_def wf_write_def length_enc_doc)

lemma wf_entry_fields:
  assumes "wf_entry env e"
  shows "list_all wf_kv (entry_fields ts e) \<and> small (entry_fields ts e)"
proof (cases e)
  case (WriteEntry w)
  with assms have "wf_write w" by simp
  from wf_write_fields [OF this] body_len_write_fields [OF this] WriteEntry show ?thesis
    by (simp add: wf_kv_def valid_cstring_def small_def)
next
  case (CommandEntry ns cmd coll rest)
  have "length ns + 5 < 2 ^ 31" using assms CommandEntry by simp
  moreover have "wf_value (document_value (enc_doc ((cmd, string_value coll) # rest)))"
    using wf_command_doc [OF assms [unfolded CommandEntry]] wf_document_value by blast
  ultimately show ?thesis using assms CommandEntry
    by (simp add: wf_kv_def valid_cstring_def wf_string_value small_def length_enc_doc)
next
  case (ApplyOpsEntry ns ws)
  let ?arr = "enc_array_docs (map write_fields ws)"
  have l: "length ns + 5 < 2 ^ 31" "length ns + body_len ?arr + 500 < 2 ^ 31" using assms ApplyOpsEntry by simp_all
  have "small [(''applyOps'', array_value (enc_doc ?arr))]" using l by (simp add: small_def length_enc_doc)
  from wf_document_value [OF this] l ApplyOpsEntry show ?thesis
    by (simp add: wf_kv_def valid_cstring_def wf_string_value small_def length_enc_doc)
qed (simp add: wf_kv_def valid_cstring_def wf_string_value small_def)

lemma entry_fields_ts: "map_of (entry_fields ts e) ''ts'' = Some (timestamp_value ts)"
  by (cases e) (simp_all add: write_fields_def)

lemma entry_lookup:
  assumes "wf_entry env e" "map_of (entry_fields ts e) k = Some v"
  shows "lookup_cast cast (enc_doc (entry_fields ts e)) [k] = cast v"
  using wf_entry_fields [OF assms(1)] assms(2) by (simp add: lookup_cast_enc)

lemma raw_entry_ts:
  "wf_entry env e \<Longrightarrow> lookup_cast cast_timestamp (enc_doc (entry_fields ts e)) [''ts''] = Inr ts"
  by (subst entry_lookup [OF _ entry_fields_ts]) simp_all

abbreviation write_opname :: "write_op \<Rightarrow> string" where
  "write_opname w \<equiv> (case wr_kind w of WInsert \<Rightarrow> ''i'' | WDelete \<Rightarrow> ''d'' | _ \<Rightarrow> ''u'')"

lemma write_opname: "write_opname w \<noteq> ''n''" "write_opname w \<noteq> ''c''" "length (write_opname w) = 1"
  by (simp_all split: write_kind.split)

lemma raw_entry_write:
  assumes "wf_entry env (WriteEntry w)"
  shows "parse_raw_entry env allow s (enc_doc (entry_fields ts (WriteEntry w))) = oplog_step env None allow s (ts, WriteEntry w)"
proof -
  let ?d = "enc_doc (entry_fields ts (WriteEntry w))"
  have op: "lookup_cast cast_string ?d [''op''] = Inr (write_opname w)"
    by (subst entry_lookup [OF assms, of _ _ "string_value (write_opname w)"])
      (simp_all only: entry_fields.simps map_of_write_fields, rule cast_string_value, simp add: write_opname)
  have p: "parse_one_document_op env (write_opname w) ts ?d events
      = Inr (if ns_watched env (wr_ns w) then events @ [write_event None ts w] else events)" for events
    using parse_one_document_op_write [of w "[(''ts'', timestamp_value ts)]" env ts] assms
      wf_entry_fields [OF assms, of ts] by simp
  obtain evs t where s: "s = (evs, t)" by (cases s)
  show ?thesis
    unfolding s parse_raw_entry_def oplog_step_def prod.case op raw_entry_ts [OF assms] rbind_simps p if_not_P [OF write_opname(1)]
      if_not_P [OF write_opname(2)] by simp
qed

lemma raw_entry_noop:
  "parse_raw_entry env allow s (enc_doc (entry_fields ts NoopEntry)) = oplog_step env None allow s (ts, NoopEntry)"
proof -
  have w: "wf_entry env NoopEntry" by simp
  have "lookup_cast cast_string (enc_doc (entry_fields ts NoopEntry)) [''op''] = Inr ''n''"
    by (subst entry_lookup [OF w, of _ _ "string_value ''n''"]) (simp_all add: cast_string_value)
  with raw_entry_ts [OF w] show ?thesis
    by (cases s) (simp add: parse_raw_entry_def oplog_step_def del: entry_fields.simps)
qed

lemma raw_entry_command:
  assumes "env_ok env" "wf_entry env (CommandEntry ns cmd coll rest)"
  shows "parse_raw_entry env allow s (enc_doc (entry_fields ts (CommandEntry ns cmd coll rest)))
    = oplog_step env None allow s (ts, CommandEntry ns cmd coll rest)"
proof -
  let ?e = "CommandEntry ns cmd coll rest"
  let ?d = "enc_doc (entry_fields ts ?e)"
  let ?o = "(cmd, string_value coll) # rest"
  note wfc = wf_command_doc [OF assms(2)]
  have l: "length ns + 5 < 2 ^ 31" and cmd: "valid_cstring cmd" using assms(2) by simp_all
  have op: "lookup_cast cast_string ?d [''op''] = Inr ''c''"
    by (subst entry_lookup [OF assms(2), of _ _ "string_value ''c''"]) (simp_all add: cast_string_value)
  have ns: "lookup_cast cast_string ?d [''ns''] = Inr ns"
    by (subst entry_lookup [OF assms(2), of _ _ "string_value ns"]) (simp_all add: cast_string_value [OF l])
  have od: "lookup_cast cast_raw ?d [''o''] = Inr (enc_doc ?o)"
    by (subst entry_lookup [OF assms(2), of _ _ "document_value (enc_doc ?o)"]) (use wfc in \<open>simp_all add: cast_raw_enc\<close>)
  have el: "index_err (enc_doc ?o) 0 = Inr (enc_elem cmd (string_value coll))"
    by (rule index_err_first) (use wfc in auto)
  obtain evs t where s: "s = (evs, t)" by (cases s)
  show ?thesis
    unfolding s parse_raw_entry_def prod.case op rbind_simps raw_entry_ts [OF assms(2)] od el key_bytes_enc [OF cmd]
      bytes_str_str_bytes oplog_step_def entry_events.simps
    by (simp add: command_outcome [OF assms ns] del: entry_fields.simps)
qed

lemma raw_entry:
  assumes "env_ok env" "wf_entry env e" "\<forall>ns ws. e \<noteq> ApplyOpsEntry ns ws"
  shows "parse_raw_entry env allow s (enc_doc (entry_fields ts e)) = oplog_step env None allow s (ts, e)"
proof (cases e)
  case (WriteEntry w)
  with assms(2) show ?thesis by (simp only: raw_entry_write)
next
  case (CommandEntry ns cmd coll rest)
  with assms(1,2) show ?thesis by (simp only: raw_entry_command)
next
  case (ApplyOpsEntry ns ws)
  with assms(3) show ?thesis by blast
qed (simp only: raw_entry_noop)

subsection \<open>Projected entries\<close>

lemma op_elements_enc:
  assumes "valid_cstring k" "wf_value v"
  shows "op_elements (Op opn ts ns cmd len docID ops obj) (enc_elem k v # els) err =
    (if k = ''op'' then rbind (cast_string v) (\<lambda>s. op_elements (Op s ts ns cmd len docID ops obj) els err)
     else if k = ''ts'' then rbind (cast_timestamp v) (\<lambda>t. op_elements (Op opn t ns cmd len docID ops obj) els err)
     else if k = ''ns'' then rbind (cast_string v) (\<lambda>s. op_elements (Op opn ts s cmd len docID ops obj) els err)
     else if k = ''cmdName'' then rbind (cast_string v) (\<lambda>s. op_elements (Op opn ts ns (Some s) len docID ops obj) els err)
     else if k = ''docLen'' then rbind (cast_int32 v) (\<lambda>i. op_elements (Op opn ts ns cmd i docID ops obj) els err)
     else if k = ''docID'' then op_elements (Op opn ts ns cmd len v ops obj) els err
     else if k = ''o'' then rbind (cast_raw v) (\<lambda>d. op_elements (Op opn ts ns cmd len docID ops d) els err)
     else if k = ''ops'' then rbind (cast_raw_array v) (\<lambda>arr. rbind (doc_values arr) (\<lambda>vals. rbind (op_array vals)
       (\<lambda>os. op_elements (Op opn ts ns cmd len docID os obj) els err)))
     else Inr (Op opn ts ns cmd len docID ops obj))"
  by (subst op_elements.simps) (simp only: key_bytes_enc [OF assms(1)] rbind_simps bytes_str_str_bytes Let_def
      unmarshal_element_enc [OF assms] value_err_enc [OF assms])

abbreviation op_field_names :: "string set" where
  "op_field_names \<equiv> {''op'', ''ts'', ''ns'', ''cmdName'', ''docLen'', ''docID'', ''o'', ''ops''}"

lemma op_elements_unexpected:
  assumes "list_all wf_kv kvs" "wf_kv (k, v)" "k \<notin> op_field_names"
  shows "op_elements oo (map (\<lambda>(k, v). enc_elem k v) kvs @ enc_elem k v # els) err
    = op_elements oo (map (\<lambda>(k, v). enc_elem k v) kvs) None"
  using assms(1)
proof (induction kvs arbitrary: oo)
  case Nil
  show ?case using assms(2,3) by (cases oo) (simp add: wf_kv_def op_elements_enc op_elements.simps(1))
next
  case (Cons kv kvs)
  obtain k1 v1 where kv: "kv = (k1, v1)" by (cases kv)
  with Cons.prems have "valid_cstring k1" "wf_value v1" by (simp_all add: wf_kv_def)
  with Cons show ?case by (cases oo) (simp add: kv op_elements_enc)
qed

lemma unmarshal_op_enc:
  assumes "list_all wf_kv kvs \<and> small kvs"
  shows "unmarshal_op oo (enc_doc kvs) = op_elements oo (map (\<lambda>(k, v). enc_elem k v) kvs) None"
  using assms by (simp add: unmarshal_op.simps raw_elements_enc_doc)

text \<open>A field the projection does not have ends the parsing of an entry without an error: what
  follows it is ignored, as if the entry ended there.\<close>

theorem unexpected_field_ends_parsing:
  assumes "list_all wf_kv (kvs @ (k, v) # kvs')" "small (kvs @ (k, v) # kvs')" "k \<notin> op_field_names"
  shows "unmarshal_op oo (enc_doc (kvs @ (k, v) # kvs')) = unmarshal_op oo (enc_doc kvs)"
  using assms op_elements_unexpected [of kvs k v]
  by (simp add: unmarshal_op_enc small_def)

theorem unexpected_field_ends_parsing_witness:
  "unmarshal_op zero_op (enc_doc [(''op'', string_value ''i''), (''ui'', int32_value 1), (''ns'', string_value ''d.c'')])
     = unmarshal_op zero_op (enc_doc [(''op'', string_value ''i'')])"
  using unexpected_field_ends_parsing [of "[(''op'', string_value ''i'')]" "''ui''" "int32_value 1"
      "[(''ns'', string_value ''d.c'')]" zero_op]
  by (simp add: wf_kv_def valid_cstring_def wf_string_value small_def)

definition projected_write :: "timestamp \<Rightarrow> write_op \<Rightarrow> oplog_op" where
  "projected_write ts w = Op (projected_op w) ts (wr_ns w) None
     (case write_doc_len w of None \<Rightarrow> 0 | Some n \<Rightarrow> n) (wr_id w) [] []"

lemma op_elements_write:
  assumes "wf_write w"
  shows "op_elements (Op [] ts [] None 0 rv_zero [] []) (map (\<lambda>(k, v). enc_elem k v) (write_projection w)) None
    = Inr (projected_write ts w)"
proof -
  have i: "wf_value (wr_id w)" using assms by (simp add: wf_write_def)
  note l = wf_write_ns [OF assms]
  have o: "cast_string (string_value (projected_op w)) = Inr (projected_op w)" "wf_value (string_value (projected_op w))"
    by (cases "wr_kind w"; simp add: projected_op_def cast_string_value wf_string_value)+
  show ?thesis
    using i o by (cases "write_doc_len w")
      (simp_all add: write_projection_def op_elements_enc op_elements.simps(1) valid_cstring_def
        cast_string_value [OF l] wf_string_value [OF l] projected_write_def)
qed

lemma unmarshal_write_projection:
  "wf_write w \<Longrightarrow> unmarshal_op zero_op (enc_doc (write_projection w)) = Inr (projected_write ts_zero w)"
  by (simp add: unmarshal_op_enc wf_write_projection zero_op_def op_elements_write)

lemma op_array_writes:
  "list_all wf_write ws \<Longrightarrow>
     op_array (map (\<lambda>d. document_value (enc_doc d)) (map write_projection ws)) = Inr (map (projected_write ts_zero) ws)"
  by (induction ws) (simp_all add: cast_raw_enc wf_write_projection unmarshal_write_projection)

lemma make_event_projected:
  "make_event (projected_op w) (wr_ns w) (wr_id w) (Some (scast (case write_doc_len w of None \<Rightarrow> 0 | Some n \<Rightarrow> n))) ts
     = write_event (Some 0) ts w"
  by (simp add: write_event_def split: option.split)

lemma wf_entry_projection:
  assumes "wf_entry env e"
  shows "list_all wf_kv (entry_projection env ts e) \<and> small (entry_projection env ts e)"
proof (cases e)
  case (WriteEntry w)
  with assms have w: "wf_write w" by simp
  have "body_len (write_projection w) + 200 < 2 ^ 31"
    using w by (cases "wr_kind w") (simp_all add: write_projection_def projected_op_def write_doc_len_def wf_write_def)
  with wf_write_projection [OF w] WriteEntry show ?thesis
    by (simp add: wf_kv_def valid_cstring_def small_def)
next
  case (CommandEntry ns cmd coll rest)
  have "length ns + 5 < 2 ^ 31" "length cmd + 5 < 2 ^ 31" using assms CommandEntry by simp_all
  moreover have "wf_value (document_value (enc_doc ((cmd, string_value coll) # rest)))"
    using wf_command_doc [OF assms [unfolded CommandEntry]] wf_document_value by blast
  ultimately show ?thesis using assms CommandEntry
    by (simp add: wf_kv_def valid_cstring_def wf_string_value small_def length_enc_doc)
next
  case (ApplyOpsEntry ns ws)
  let ?arr = "enc_array_docs (map write_projection (filter (\<lambda>w. ns_watched env (wr_ns w)) ws))"
  have l: "length ns + 5 < 2 ^ 31" "length ns + body_len ?arr + 500 < 2 ^ 31" using assms ApplyOpsEntry by simp_all
  have "wf_value (array_value (enc_doc ?arr))"
    using wf_apply_ops(2) [OF assms [unfolded ApplyOpsEntry]] by (simp only: wf_array_value)
  with l ApplyOpsEntry show ?thesis
    by (simp add: wf_kv_def valid_cstring_def wf_string_value small_def length_enc_doc)
qed (simp add: wf_kv_def valid_cstring_def wf_string_value small_def)

definition entry_op :: "oplog_env \<Rightarrow> timestamp \<Rightarrow> oplog_entry \<Rightarrow> oplog_op" where
  "entry_op env ts e = (case e of
       WriteEntry w \<Rightarrow> projected_write ts w
     | NoopEntry \<Rightarrow> Op ''n'' ts [] None 0 rv_zero [] []
     | CommandEntry ns cmd coll rest \<Rightarrow>
         Op ''c'' ts ns (Some cmd) 0 rv_zero [] (enc_doc ((cmd, string_value coll) # rest))
     | ApplyOpsEntry ns ws \<Rightarrow> Op ''c'' ts ns (Some ''applyOps'') 0 rv_zero
         (map (projected_write ts_zero) (filter (\<lambda>w. ns_watched env (wr_ns w)) ws)) [])"

lemma unmarshal_entry:
  assumes "wf_entry env e"
  shows "unmarshal_op zero_op (enc_doc (entry_projection env ts e)) = Inr (entry_op env ts e)"
proof (cases e)
  case (WriteEntry w)
  with assms have "wf_write w" by simp
  then show ?thesis
    using unmarshal_op_enc [OF wf_entry_projection [OF assms], of zero_op ts]
    by (simp add: WriteEntry op_elements_enc zero_op_def valid_cstring_def op_elements_write entry_op_def)
next
  case NoopEntry
  show ?thesis
    using unmarshal_op_enc [OF wf_entry_projection [OF assms], of zero_op ts]
    by (simp add: NoopEntry op_elements_enc op_elements.simps(1) zero_op_def valid_cstring_def cast_string_value wf_string_value
        entry_op_def)
next
  case (CommandEntry ns cmd coll rest)
  have l: "length ns + 5 < 2 ^ 31" "length cmd + 5 < 2 ^ 31" using assms CommandEntry by simp_all
  note d = wf_command_doc [OF assms [unfolded CommandEntry], THEN conjunct2]
  show ?thesis
    using unmarshal_op_enc [OF wf_entry_projection [OF assms], of zero_op ts]
    by (simp add: CommandEntry op_elements_enc op_elements.simps(1) zero_op_def valid_cstring_def cast_string_value wf_string_value
        cast_string_value [OF l(1)] wf_string_value [OF l(1)] cast_string_value [OF l(2)] wf_string_value [OF l(2)]
        cast_raw_enc [OF d] wf_document_value [OF d] entry_op_def)
next
  case (ApplyOpsEntry ns ws)
  let ?ws = "filter (\<lambda>w. ns_watched env (wr_ns w)) ws"
  have l: "length ns + 5 < 2 ^ 31" using assms ApplyOpsEntry by simp
  have w: "list_all wf_write ?ws" using assms ApplyOpsEntry by (simp add: list_all_iff)
  note arr = wf_apply_ops(2) [OF assms [unfolded ApplyOpsEntry]]
  have a: "cast_raw_array (array_value (enc_doc (enc_array_docs (map write_projection ?ws))))
      = Inr (enc_doc (enc_array_docs (map write_projection ?ws)))"
    using arr by (simp add: cast_raw_array_def rv_array_enc)
  have v: "doc_values (enc_doc (enc_array_docs (map write_projection ?ws)))
      = Inr (map (\<lambda>d. document_value (enc_doc d)) (map write_projection ?ws))"
    using arr by (simp only: doc_values_enc snd_enc_array_docs)
  show ?thesis
    using unmarshal_op_enc [OF wf_entry_projection [OF assms], of zero_op ts]
    by (simp add: ApplyOpsEntry op_elements_enc op_elements.simps(1) zero_op_def valid_cstring_def cast_string_value wf_string_value
        cast_string_value [OF l] wf_string_value [OF l] wf_array_value [OF arr [THEN conjunct2]] a v op_array_writes [OF w]
        entry_op_def del: map_map)
qed

lemma projected_entry:
  assumes "env_ok env" "wf_entry env e" "query_selects env e"
  shows "parse_projected_entry env allow s (enc_doc (entry_projection env ts e)) = oplog_step env (Some 0) allow s (ts, e)"
proof (cases e)
  case (WriteEntry w)
  have "op_Op (projected_write ts w) \<noteq> ''n''" "op_Op (projected_write ts w) \<noteq> ''c''"
    by (simp_all add: projected_write_def projected_op_def split: write_kind.split)
  then show ?thesis using assms(3) WriteEntry make_event_projected [of w ts]
      unmarshal_entry [OF assms(2), of ts]
    by (cases s) (simp add: parse_projected_entry_def oplog_step_def entry_op_def projected_write_def)
next
  case (CommandEntry ns cmd coll rest)
  have l: "length ns + 5 < 2 ^ 31" using assms(2) CommandEntry by simp
  have ns: "lookup_cast cast_string (enc_doc (entry_projection env ts e)) [''ns''] = Inr ns"
    using wf_entry_projection [OF assms(2), of ts] lookup_cast_enc [of "entry_projection env ts e" "''ns''" "string_value ns" cast_string]
    by (simp add: CommandEntry cast_string_value [OF l])
  obtain evs t where s: "s = (evs, t)" by (cases s)
  show ?thesis
    unfolding s parse_projected_entry_def prod.case unmarshal_entry [OF assms(2)] rbind_simps oplog_step_def
    by (simp add: CommandEntry entry_op_def command_outcome [OF assms(1) assms(2) [unfolded CommandEntry] ns [unfolded CommandEntry]]
        del: entry_projection.simps)
next
  case (ApplyOpsEntry ns ws)
  have "try_append_ddl_event env evs ''applyOps'' d r t = Inr (False, evs)" for evs d r t
    by (simp add: try_append_ddl_event_def index_cmds_to_discard_def ddl_cmd_name_to_op_type_def)
  moreover have "make_event (op_Op (projected_write ts_zero w)) (op_Ns (projected_write ts_zero w))
      (op_DocID (projected_write ts_zero w)) (Some (scast (op_DocLen (projected_write ts_zero w)))) ts
    = write_event (Some 0) ts w" for w
    by (simp add: projected_write_def make_event_projected)
  ultimately show ?thesis
    using unmarshal_entry [OF assms(2), of ts]
    by (cases s) (simp add: parse_projected_entry_def oplog_step_def entry_op_def ApplyOpsEntry comp_def)
next
  case NoopEntry
  then show ?thesis
    using unmarshal_entry [OF assms(2), of ts]
    by (cases s) (simp add: parse_projected_entry_def oplog_step_def entry_op_def)
qed

lemma rfold_map_cong: "(\<And>s x. x \<in> set xs \<Longrightarrow> f s (g x) = h s x) \<Longrightarrow> rfold f s (map g xs) = rfold h s xs"
proof (induction xs arbitrary: s)
  case (Cons x xs)
  then show ?case by (cases "h s x") simp_all
qed simp

lemma parse_raw_ops_eq:
  assumes "env_ok env" "list_all (\<lambda>(ts, e). wf_entry env e \<and> (\<forall>ns ws. e \<noteq> ApplyOpsEntry ns ws)) es"
  shows "parse_raw_ops env allow (map (\<lambda>(ts, e). enc_doc (entry_fields ts e)) es) events =
    rfold (oplog_step env None allow) (events, ts_zero) es"
  unfolding parse_raw_ops_def
  by (rule rfold_map_cong) (use assms raw_entry in \<open>auto simp: list_all_iff simp del: entry_fields.simps\<close>)

lemma parse_expr_projected_ops_eq:
  assumes "env_ok env" "list_all (\<lambda>(ts, e). wf_entry env e \<and> query_selects env e) es"
  shows "parse_expr_projected_ops env allow (map (\<lambda>(ts, e). enc_doc (entry_projection env ts e)) es) events =
    rfold (oplog_step env (Some 0) allow) (events, ts_zero) es"
  unfolding parse_expr_projected_ops_def
  by (rule rfold_map_cong) (use assms projected_entry in \<open>auto simp: list_all_iff simp del: entry_projection.simps\<close>)

section \<open>What the reader delivers\<close>

text \<open>
  A write of a watched namespace with no known length has none in the raw mode and a length of zero
  in the projected one; either way the recheck gets the default size.
\<close>

definition norm_event :: "parsed_event \<Rightarrow> parsed_event" where
  "norm_event ev = ev\<lparr>pe_FullDocLen := (if pe_FullDocLen ev = Some 0 then None else pe_FullDocLen ev)\<rparr>"

lemma norm_event_recheck: "event_recheck origin m metaDB (norm_event ev) = event_recheck origin m metaDB ev"
  by (auto simp: event_recheck_def norm_event_def source_namespace_def event_data_size_def
      split: option.splits sum.splits)

definition norm_result :: "go_error + parsed_event list \<times> timestamp \<Rightarrow> go_error + parsed_event list \<times> timestamp" where
  "norm_result r = (case r of Inl e \<Rightarrow> Inl e | Inr (events, ts) \<Rightarrow> Inr (map norm_event events, ts))"

lemma norm_write_event: "norm_event (write_event None ts w) = norm_event (write_event (Some 0) ts w)"
  by (simp add: norm_event_def write_event_def make_event_def split: option.split)

lemma entry_events_norm:
  "(case entry_events env None allow ts e of Inl err \<Rightarrow> Inl err | Inr evs \<Rightarrow> Inr (map norm_event evs))
     = (case entry_events env (Some 0) allow ts e of Inl err \<Rightarrow> Inl err | Inr evs \<Rightarrow> Inr (map norm_event evs))"
  by (cases e) (simp_all add: norm_write_event comp_def)

lemma oplog_fold_norm:
  "map norm_event evs = map norm_event evs' \<Longrightarrow>
     norm_result (rfold (oplog_step env None allow) (evs, t) es)
       = norm_result (rfold (oplog_step env (Some 0) allow) (evs', t) es)"
proof (induction es arbitrary: evs evs' t)
  case Nil
  then show ?case by (simp add: norm_result_def)
next
  case (Cons x es)
  obtain ts e where x: "x = (ts, e)" by (cases x)
  from entry_events_norm [of env allow ts e] show ?case
  proof (cases "entry_events env None allow ts e"; cases "entry_events env (Some 0) allow ts e")
    fix new new' assume n: "entry_events env None allow ts e = Inr new" "entry_events env (Some 0) allow ts e = Inr new'"
    with entry_events_norm [of env allow ts e] Cons.prems
    have "map norm_event (evs @ new) = map norm_event (evs' @ new')" by simp
    from Cons.IH [OF this] n show ?thesis by (simp add: x oplog_step_def)
  qed (simp_all add: x oplog_step_def norm_result_def)
qed


definition sample_write :: write_op where
  "sample_write = \<lparr>wr_kind = WUpdate, wr_ns = ''db.c'', wr_id = int32_value 1, wr_fields = []\<rparr>"

definition sample_oplog_env :: oplog_env where
  "sample_oplog_env = \<lparr>oe_readerType = Src, oe_onDDL = OnDDLWarnMost, oe_namespaces = [], oe_metaDB = ''meta''\<rparr>"

lemma sample_write_wf: "wf_write sample_write" "ns_watched sample_oplog_env (wr_ns sample_write)"
  by (simp_all add: sample_write_def wf_write_def rv_zero_def int32_value_def wf_value_def ns_watched_def
      excluded_ns_prefixes_def sample_oplog_env_def has_prefix_def)


text \<open>The projected mode delivers every write of a watched namespace: for entries the query selects,
  transactions included, parsing succeeds with exactly the events of the entries, in order, or fails
  with the error of the first command that must not be ignored.\<close>

theorem parse_expr_projected_ops_refines:
  assumes "env_ok env" "list_all (\<lambda>(ts, e). wf_entry env e \<and> query_selects env e) es"
  shows "parse_expr_projected_ops env allow (map (\<lambda>(ts, e). enc_doc (entry_projection env ts e)) es) events =
    rfold (oplog_step env (Some 0) allow) (events, ts_zero) es"
  using assms by (rule parse_expr_projected_ops_eq)

lemma sample_apply_ops_wf: "wf_entry sample_oplog_env (ApplyOpsEntry ''admin.$cmd'' [sample_write])"
  using sample_write_wf
  by (simp add: enc_array_docs_def itoa.simps write_fields_def write_projection_def write_o_def projected_op_def
      write_doc_len_def length_enc_doc) (simp add: sample_write_def length_enc_doc)

theorem parse_expr_projected_ops_refines_witness:
  "parse_expr_projected_ops sample_oplog_env ts_zero
     [enc_doc (entry_projection sample_oplog_env ts_zero (ApplyOpsEntry ''admin.$cmd'' [sample_write]))] []
   = Inr ([write_event (Some 0) ts_zero sample_write], ts_zero)"
proof -
  have "env_ok sample_oplog_env" by (simp add: env_ok_def sample_oplog_env_def)
  from parse_expr_projected_ops_refines [OF this, of "[(ts_zero, ApplyOpsEntry ''admin.$cmd'' [sample_write])]" ts_zero "[]"]
  show ?thesis using sample_write_wf sample_apply_ops_wf
    by (simp add: oplog_step_def del: entry_projection.simps wf_entry.simps)
qed

text \<open>The raw mode cannot read a transaction: an entry with \<open>applyOps\<close> always ends the parsing with
  an error, since the array of its operations is cast to an embedded document.\<close>

theorem raw_apply_ops_rejected:
  assumes "wf_entry env (ApplyOpsEntry ns ws)"
  shows "parse_raw_entry env allow s (enc_doc (entry_fields ts (ApplyOpsEntry ns ws))) = Inl (CannotCast TypeArray)"
proof -
  let ?e = "ApplyOpsEntry ns ws"
  let ?arr = "array_value (enc_doc (enc_array_docs (map write_fields ws)))"
  let ?o = "[(''applyOps'', ?arr)]"
  have arr: "wf_value ?arr" using wf_apply_ops(1) [OF assms] wf_array_value by blast
  have o: "list_all wf_kv ?o" "small ?o" using assms arr by (simp_all add: wf_kv_def valid_cstring_def small_def length_enc_doc)
  have op: "lookup_cast cast_string (enc_doc (entry_fields ts ?e)) [''op''] = Inr ''c''"
    by (subst entry_lookup [OF assms, of _ _ "string_value ''c''"]) (simp_all add: cast_string_value)
  have od: "lookup_cast cast_raw (enc_doc (entry_fields ts ?e)) [''o''] = Inr (enc_doc ?o)"
    by (subst entry_lookup [OF assms, of _ _ "document_value (enc_doc ?o)"]) (use o in \<open>simp_all add: cast_raw_enc\<close>)
  have el: "index_err (enc_doc ?o) 0 = Inr (enc_elem ''applyOps'' ?arr)" by (rule index_err_first [OF o])
  have c: "valid_cstring ''applyOps''" by (simp add: valid_cstring_def)
  have "try_append_ddl_event env evs ''applyOps'' d r t = Inr (False, evs)" for evs d r t
    by (simp add: try_append_ddl_event_def index_cmds_to_discard_def ddl_cmd_name_to_op_type_def)
  moreover have "unmarshal_element_value cast_raw (enc_elem ''applyOps'' ?arr) = Inl (CannotCast TypeArray)"
    unfolding unmarshal_element_enc [OF c arr] by (simp add: cast_raw_def rv_document_ok_def)
  moreover obtain evs t where "s = (evs, t)" by (cases s)
  ultimately show ?thesis
    unfolding parse_raw_entry_def
    by (simp add: op od raw_entry_ts [OF assms] el key_bytes_enc [OF c] del: entry_fields.simps)
qed

theorem raw_apply_ops_rejected_witness:
  "parse_raw_entry sample_oplog_env ts_zero ([], ts_zero)
     (enc_doc (entry_fields ts_zero (ApplyOpsEntry ''admin.$cmd'' [sample_write]))) = Inl (CannotCast TypeArray)"
  by (rule raw_apply_ops_rejected [OF sample_apply_ops_wf])

text \<open>The resume token is 17 bytes long for every optime, so its assertion cannot fail, and reading
  its optime gives the one written.\<close>

theorem resume_token_roundtrip:
  "\<exists>token. marshal_resume_token ts = Inr token \<and> length token = rtBSONLength
     \<and> get_raw_resume_token_timestamp token = Inr ts"
proof -
  let ?kvs = "[(''ts'', timestamp_value ts)]"
  have w: "list_all wf_kv ?kvs" "small ?kvs" by (simp_all add: wf_kv_def valid_cstring_def small_def)
  have "marshal_resume_token ts = Inr (enc_doc ?kvs)"
    by (simp add: marshal_resume_token_def rtBSONLength_def enc_doc_def length_enc_elem Let_def)
  moreover have "get_raw_resume_token_timestamp (enc_doc ?kvs) = Inr ts"
    by (simp add: get_raw_resume_token_timestamp_def lookup_enc_doc [OF w])
  ultimately show ?thesis by (simp add: rtBSONLength_def length_enc_doc)
qed

subsection \<open>When the reader stops\<close>

lemma read_until_stops:
  assumes "rfold handle r bs = Inr r_all" "\<not> ts_after w (ts_or_zero (lastChangeEventTime r_all))"
  shows "\<exists>k r'. k \<le> length bs \<and> rfold handle r (take k bs) = Inr r' \<and> read_until handle w r bs = Inr (Done, r')
    \<and> \<not> ts_after w (ts_or_zero (lastChangeEventTime r'))
    \<and> (\<forall>j r''. j < k \<longrightarrow> rfold handle r (take j bs) = Inr r'' \<longrightarrow> ts_after w (ts_or_zero (lastChangeEventTime r'')))"
  using assms
proof (induction bs arbitrary: r)
  case Nil
  then show ?case by (simp add: read_until.simps)
next
  case (Cons b bs)
  show ?case
  proof (cases "ts_after w (ts_or_zero (lastChangeEventTime r))")
    case False
    then show ?thesis by (intro exI [of _ 0] exI [of _ r]) (simp add: read_until.simps)
  next
    case True
    from Cons.prems obtain r1 where r1: "handle r b = Inr r1" "rfold handle r1 bs = Inr r_all"
      by (auto simp: rbind_eq_Inr)
    from Cons.IH [OF r1(2) Cons.prems(2)] obtain k r' where k: "k \<le> length bs" "rfold handle r1 (take k bs) = Inr r'"
      "read_until handle w r1 bs = Inr (Done, r')" "\<not> ts_after w (ts_or_zero (lastChangeEventTime r'))"
      "\<forall>j r''. j < k \<longrightarrow> rfold handle r1 (take j bs) = Inr r'' \<longrightarrow> ts_after w (ts_or_zero (lastChangeEventTime r''))" by blast
    have "ts_after w (ts_or_zero (lastChangeEventTime r''))"
      if "j < Suc k" "rfold handle r (take j (b # bs)) = Inr r''" for j r''
      using that True k(5) r1(1) by (cases j) auto
    with k True r1(1) show ?thesis
      by (intro exI [of _ "Suc k"] exI [of _ r']) (simp add: read_until.simps [of _ _ r])
  qed
qed

lemma iterate_before_writes_off:
  "rfold handle r pre = Inr r1 \<Longrightarrow>
     iterate_cursor handle r (map (Pair None) pre @ bs) = iterate_cursor handle r1 bs"
  by (induction pre arbitrary: r) (auto simp: rbind_eq_Inr)

text \<open>The reader stops, and no sooner than it may: once the writes-off time is set it ends after the
  first batch that brings its last optime up to that time, having handled every batch before.\<close>

theorem iterate_cursor_stops:
  assumes "rfold handle r pre = Inr r1"
    and "rfold handle r1 (b # map snd post) = Inr r_all" "\<not> ts_after w (ts_or_zero (lastChangeEventTime r_all))"
  shows "\<exists>k r'. k \<le> Suc (length post) \<and> rfold handle r (pre @ take k (b # map snd post)) = Inr r'
    \<and> iterate_cursor handle r (map (Pair None) pre @ (Some w, b) # post) = Inr (Done, r')
    \<and> \<not> ts_after w (ts_or_zero (lastChangeEventTime r'))
    \<and> (\<forall>j r''. j < k \<longrightarrow> rfold handle r (pre @ take j (b # map snd post)) = Inr r''
         \<longrightarrow> ts_after w (ts_or_zero (lastChangeEventTime r'')))"
  using read_until_stops [OF assms(2,3)] assms(1)
  by (simp add: iterate_before_writes_off [OF assms(1)] rfold_append)

definition sample_op_batch :: "timestamp \<Rightarrow> bytes list" where
  "sample_op_batch ts = [enc_doc (entry_projection sample_oplog_env ts (ApplyOpsEntry ''admin.$cmd'' [sample_write]))]"

definition sample_op_sent :: "timestamp \<Rightarrow> parsed_event list \<times> bytes" where
  "sample_op_sent ts = ([write_event (Some 0) ts sample_write], enc_doc [(''ts'', timestamp_value ts)])"

lemma handle_op_batch:
  "read_and_handle_one_batch sample_oplog_env True ts_zero o1 (sample_op_batch ts)
     = Inr (o1\<lparr>sentBatches := sentBatches o1 @ [sample_op_sent ts], lastChangeEventTime := Some ts\<rparr>)"
proof -
  have "env_ok sample_oplog_env" by (simp add: env_ok_def sample_oplog_env_def)
  from parse_expr_projected_ops_eq [OF this, of "[(ts, ApplyOpsEntry ''admin.$cmd'' [sample_write])]" ts_zero "[]"]
  have "parse_expr_projected_ops sample_oplog_env ts_zero (sample_op_batch ts) [] = Inr ([write_event (Some 0) ts sample_write], ts)"
    using sample_write_wf sample_apply_ops_wf
    by (simp add: oplog_step_def sample_op_batch_def del: entry_projection.simps wf_entry.simps)
  moreover have "marshal_resume_token ts = Inr (enc_doc [(''ts'', timestamp_value ts)])"
    by (simp add: marshal_resume_token_def rtBSONLength_def enc_doc_def length_enc_elem Let_def)
  ultimately show ?thesis
    by (simp add: read_and_handle_one_batch_def sample_op_sent_def sample_op_batch_def del: entry_projection.simps)
qed

theorem iterate_cursor_stops_witness:
  fixes t1 t2 t3 :: timestamp
  defines "t1 \<equiv> \<lparr>ts_T = 1, ts_I = 1\<rparr>" and "t2 \<equiv> \<lparr>ts_T = 2, ts_I = 1\<rparr>" and "t3 \<equiv> \<lparr>ts_T = 3, ts_I = 1\<rparr>"
  shows "iterate_cursor (read_and_handle_one_batch sample_oplog_env True ts_zero)
      \<lparr>lastChangeEventTime = None, sentBatches = []\<rparr>
      [(None, sample_op_batch t1), (Some t2, sample_op_batch t2), (Some t2, sample_op_batch t3)]
    = Inr (Done, \<lparr>lastChangeEventTime = Some t2, sentBatches = [sample_op_sent t1, sample_op_sent t2]\<rparr>)"
proof -
  let ?h = "read_and_handle_one_batch sample_oplog_env True ts_zero"
  let ?r = "\<lparr>lastChangeEventTime = None, sentBatches = []\<rparr>"
  let ?r1 = "\<lparr>lastChangeEventTime = Some t1, sentBatches = [sample_op_sent t1]\<rparr>"
  let ?r3 = "\<lparr>lastChangeEventTime = Some t3, sentBatches = map sample_op_sent [t1, t2, t3]\<rparr>"
  have later: "\<not> ts_after t2 t3" "ts_after t2 t1" by (simp_all add: t1_def t2_def t3_def ts_after_def)
  have "rfold ?h ?r [sample_op_batch t1] = Inr ?r1"
    "rfold ?h ?r1 (sample_op_batch t2 # map snd [(Some t2, sample_op_batch t3)]) = Inr ?r3"
    "\<not> ts_after t2 (ts_or_zero (lastChangeEventTime ?r3))"
    using later by (simp_all add: handle_op_batch ts_or_zero_def)
  from iterate_cursor_stops [OF this] obtain k r' where
      k: "rfold ?h ?r ([sample_op_batch t1] @ take k (sample_op_batch t2 # map snd [(Some t2, sample_op_batch t3)])) = Inr r'"
        "iterate_cursor ?h ?r (map (Pair None) [sample_op_batch t1] @ [(Some t2, sample_op_batch t2), (Some t2, sample_op_batch t3)]) = Inr (Done, r')"
        "\<not> ts_after t2 (ts_or_zero (lastChangeEventTime r'))"
      and least: "\<forall>j r''. j < k \<longrightarrow> rfold ?h ?r ([sample_op_batch t1] @ take j (sample_op_batch t2 # map snd [(Some t2, sample_op_batch t3)])) = Inr r''
        \<longrightarrow> ts_after t2 (ts_or_zero (lastChangeEventTime r''))"
    by blast
  have "k \<noteq> 0" using k(1,3) later by (cases "k = 0") (auto simp: handle_op_batch ts_or_zero_def)
  moreover have "\<not> 1 < k" using least [rule_format, of 1] by (auto simp: handle_op_batch ts_or_zero_def)
  ultimately have "k = 1" by simp
  then show ?thesis using k(1,2) by (simp add: handle_op_batch del: read_until.simps)
qed

end
