(* ===== verification/Id_Bounds.thy ===== *)
theory Id_Bounds
  imports Containers Bson_Core
begin

text \<open>
  Partitions of a collection and the predicates that select one (\<open>internal/partitions/partition.go\<close>,
  \<open>bson.go\<close>). A query is a term of the datatype \<open>predicate\<close>, one constructor for each shape the code
  builds. What a predicate selects is the server's doing: \<open>selects\<close> states the documented meaning
  of the operators over the server's order of \<open>_id\<close> values, which is a parameter with the laws
  \<open>id_order\<close>.
\<close>

section \<open>Partitions\<close>

record partition_ns =
  pn_DB :: string
  pn_Coll :: string

record partition =
  pt_SourceUUID :: bytes
  pt_Lower :: raw_value
  pt_Ns :: "partition_ns option"
  pt_Upper :: raw_value
  pt_IsCapped :: bool
  pt_Natural :: bool
  pt_HostnameAndPort :: "string option"

definition min_key :: raw_value where "min_key = \<lparr>rv_type = TypeMinKey, rv_value = []\<rparr>"
definition max_key :: raw_value where "max_key = \<lparr>rv_type = TypeMaxKey, rv_value = []\<rparr>"

section \<open>Types in their sort order\<close>

definition numericTypes :: "byte list" where
  "numericTypes = [TypeInt32, TypeInt64, TypeDouble, TypeDecimal128]"

definition stringTypes :: "byte list" where
  "stringTypes = [TypeString, TypeSymbol]"

definition bsonTypeSortOrder :: "byte list" where
  "bsonTypeSortOrder = concat [[TypeMinKey, TypeNull], numericTypes, stringTypes,
     [TypeEmbeddedDocument, TypeBinary, TypeObjectID, TypeBoolean, TypeDateTime, TypeTimestamp,
      TypeDBPointer, TypeJavaScript, TypeCodeWithScope, TypeMaxKey]]"

definition bsonTypeString :: "(byte \<times> string) list" where
  "bsonTypeString =
     [(TypeMinKey, ''minKey''), (TypeNull, ''null''), (TypeBoolean, ''bool''), (TypeInt32, ''int''),
      (TypeInt64, ''long''), (TypeDouble, ''double''), (TypeDecimal128, ''decimal''),
      (TypeString, ''string''), (TypeSymbol, ''symbol''), (TypeObjectID, ''objectId''),
      (TypeDateTime, ''date''), (TypeTimestamp, ''timestamp''), (TypeJavaScript, ''javascript''),
      (TypeCodeWithScope, ''javascriptWithScope''), (TypeEmbeddedDocument, ''object''),
      (TypeBinary, ''binData''), (TypeDBPointer, ''dbPointer''), (TypeMaxKey, ''maxKey'')]"

text \<open>A missing key of a Go map reads as the empty string.\<close>

definition type_string :: "byte \<Rightarrow> string" where
  "type_string t = (case map_of bsonTypeString t of None \<Rightarrow> [] | Some s \<Rightarrow> s)"

fun index_of :: "'a list \<Rightarrow> 'a \<Rightarrow> nat option" where
  "index_of [] x = None"
| "index_of (y # ys) x = (if x = y then Some 0 else map_option Suc (index_of ys x))"

text \<open>\<open>lo.Without\<close> and \<open>lo.Intersect\<close> of two lists without duplicates.\<close>

definition without :: "'a list \<Rightarrow> 'a list \<Rightarrow> 'a list" where
  "without xs exclude = filter (\<lambda>x. x \<notin> set exclude) xs"

definition intersect :: "'a list \<Rightarrow> 'a list \<Rightarrow> 'a list" where
  "intersect xs ys = filter (\<lambda>x. x \<in> set ys) xs"

definition get_type_bracket_excluded :: "byte \<Rightarrow> go_error + byte list \<times> byte list" where
  "get_type_bracket_excluded bsonType =
     (case index_of bsonTypeSortOrder bsonType of
        None \<Rightarrow> Inl (Err ''go value marshaled to BSON type that is invalid'')
      | Some curSortOrder \<Rightarrow>
          (let earlier = take curSortOrder bsonTypeSortOrder;
               later = drop (1 + curSortOrder) bsonTypeSortOrder
           in Inr (if bsonType \<in> set numericTypes
                   then (without earlier numericTypes, without later numericTypes)
                   else if bsonType \<in> set stringTypes
                   then (without earlier stringTypes, without later stringTypes)
                   else (earlier, later))))"

definition types_to_strings :: "byte list \<Rightarrow> string list" where
  "types_to_strings ts = map type_string ts"

definition sort_bracket :: "byte \<Rightarrow> byte" where
  "sort_bracket t = (if t \<in> set numericTypes then TypeDouble
     else if t \<in> set stringTypes then TypeString else t)"

definition same_sort_bracket :: "byte \<Rightarrow> byte \<Rightarrow> bool" where
  "same_sort_bracket a b \<longleftrightarrow> sort_bracket a = sort_bracket b"

section \<open>Predicates\<close>

datatype predicate =
    ExprGte raw_value
  | ExprLte raw_value
  | IdGte raw_value
  | IdLte raw_value
  | IdType "string list"
  | IdIn "raw_value list"
  | OrOf "predicate list"
  | AndOf "predicate list"
  | UserFilter bytes

definition get_expr_predicates :: "raw_value \<Rightarrow> raw_value \<Rightarrow> go_error + predicate list" where
  "get_expr_predicates lower upper = Inr [ExprGte lower, ExprLte upper]"

text \<open>\<open>None\<close> is the nil predicate; \<open>Compact\<close> drops it.\<close>

definition compact_predicates :: "predicate option list \<Rightarrow> predicate list" where
  "compact_predicates ps = map the (compact (\<lambda>p. p = None) ps)"

definition or_of :: "predicate option list \<Rightarrow> byte list \<Rightarrow> predicate list" where
  "or_of orPredicates betweenTypes =
     [OrOf (compact_predicates (if length betweenTypes > 0
        then orPredicates @ [Some (IdType (types_to_strings betweenTypes))] else orPredicates))]"

definition get_explicit_type_check_predicates :: "raw_value \<Rightarrow> raw_value \<Rightarrow> go_error + predicate list" where
  "get_explicit_type_check_predicates lower upper =
     rbind (get_type_bracket_excluded (rv_type lower)) (\<lambda>(_, betweenTypes).
     let rangePredicate = (if rv_type lower \<noteq> TypeMinKey then Some (IdGte lower) else None)
     in if rv_type upper \<noteq> TypeMaxKey
        then rbind (get_type_bracket_excluded (rv_type upper)) (\<lambda>(typesBelowUpper, typesAboveUpper).
          if rv_type lower \<in> set typesAboveUpper
          then Inl (Err ''lower bound's BSON type sorts later than upper bound's'')
          else let bothLimitsPredicate = compact_predicates [rangePredicate, Some (IdLte upper)]
               in if rv_type lower \<in> set typesBelowUpper
                  then Inr (or_of (map Some bothLimitsPredicate) (intersect betweenTypes typesBelowUpper))
                  else Inr bothLimitsPredicate)
        else Inr (or_of [rangePredicate] betweenTypes))"

text \<open>The version of the server is absent when its build is not known.\<close>

definition filter_id_bounds :: "int list option option \<Rightarrow> raw_value \<Rightarrow> raw_value \<Rightarrow> go_error + predicate list" where
  "filter_id_bounds clusterInfo lower upper =
     (let useExprFind = (case clusterInfo of None \<Rightarrow> Inr True
            | Some None \<Rightarrow> Inr False
            | Some (Some []) \<Rightarrow> Inl (Panic ''index out of range'')
            | Some (Some (major # _)) \<Rightarrow> Inr (major \<ge> 5))
      in rbind useExprFind (\<lambda>e.
           if e then get_expr_predicates lower upper else get_explicit_type_check_predicates lower upper))"

definition range_id_predicates :: "raw_value \<Rightarrow> raw_value \<Rightarrow> predicate list" where
  "range_id_predicates lower upper =
     (if rv_type lower \<noteq> TypeMinKey then [IdGte lower] else []) @
     (if rv_type upper \<noteq> TypeMaxKey then [IdLte upper] else [])"

record partition_query =
  pq_filter :: "predicate option"
  pq_sortField :: "string option"
  pq_hint :: "(string \<times> int) list option"

definition get_query_parameters_with :: "partition option \<Rightarrow> predicate list
     \<Rightarrow> (partition \<Rightarrow> go_error + predicate list) \<Rightarrow> go_error + partition_query" where
  "get_query_parameters_with p filterAndPredicates getIdPredicates =
     (let and_of = (\<lambda>ps. if length ps > 0 then Some (AndOf ps) else None)
      in case p of
           None \<Rightarrow> Inr \<lparr>pq_filter = and_of filterAndPredicates, pq_sortField = None, pq_hint = None\<rparr>
         | Some p \<Rightarrow>
             if pt_IsCapped p
             then Inr \<lparr>pq_filter = and_of filterAndPredicates, pq_sortField = Some ''$natural'', pq_hint = None\<rparr>
             else rbind (getIdPredicates p) (\<lambda>newPredicates.
               Inr \<lparr>pq_filter = and_of (filterAndPredicates @ newPredicates),
                    pq_sortField = Some ''_id'', pq_hint = Some [(''_id'', 1)]\<rparr>))"

definition get_query_parameters :: "int list option option \<Rightarrow> partition option \<Rightarrow> predicate list
     \<Rightarrow> go_error + partition_query" where
  "get_query_parameters clusterInfo p filterAndPredicates =
     get_query_parameters_with p filterAndPredicates (\<lambda>p. filter_id_bounds clusterInfo (pt_Lower p) (pt_Upper p))"

definition get_query_parameters_for_id_range_unsafe :: "partition option \<Rightarrow> predicate list
     \<Rightarrow> go_error + partition_query" where
  "get_query_parameters_for_id_range_unsafe p filterAndPredicates =
     get_query_parameters_with p filterAndPredicates (\<lambda>p. Inr (range_id_predicates (pt_Lower p) (pt_Upper p)))"

datatype find_option = FilterOption predicate | HintOption "(string \<times> int) list" | SortOption "(string \<times> int) list"

definition to_find_options :: "partition_query \<Rightarrow> find_option list" where
  "to_find_options pqp =
     (case pq_filter pqp of None \<Rightarrow> [] | Some f \<Rightarrow> [FilterOption f]) @
     (case pq_hint pqp of None \<Rightarrow> [] | Some h \<Rightarrow> [HintOption h]) @
     (case pq_sortField pqp of None \<Rightarrow> [] | Some s \<Rightarrow> [SortOption [(s, 1)]])"

section \<open>What the server selects\<close>

text \<open>
  The documented order of BSON values: types are ranked as in \<open>bsonTypeSortOrder\<close>, numbers and
  strings each sharing a rank; within a rank values form a total preorder of their own.
\<close>

definition type_rank :: "byte \<Rightarrow> nat" where
  "type_rank t = (case index_of (remdups (map sort_bracket bsonTypeSortOrder)) (sort_bracket t) of
     None \<Rightarrow> 0 | Some i \<Rightarrow> i)"

definition valid_id :: "raw_value \<Rightarrow> bool" where
  "valid_id x \<longleftrightarrow> rv_type x \<in> set bsonTypeSortOrder
     \<and> (rv_type x \<in> {TypeMinKey, TypeMaxKey} \<longrightarrow> rv_value x = [])"

definition id_order :: "(raw_value \<Rightarrow> raw_value \<Rightarrow> bool) \<Rightarrow> bool" where
  "id_order le \<longleftrightarrow> (\<forall>x y. le x y \<or> le y x) \<and> (\<forall>x y z. le x y \<longrightarrow> le y z \<longrightarrow> le x z)
     \<and> (\<forall>x y. valid_id x \<longrightarrow> valid_id y \<longrightarrow> type_rank (rv_type x) < type_rank (rv_type y) \<longrightarrow> \<not> le y x)"

text \<open>
  \<open>$expr\<close> comparisons use the whole order; plain comparisons only match values of the operand's
  bracket; \<open>$type\<close> takes a list of type names. A user filter does not look at the \<open>_id\<close> alone and
  is a parameter.
\<close>

fun selects :: "(raw_value \<Rightarrow> raw_value \<Rightarrow> bool) \<Rightarrow> (bytes \<Rightarrow> bool) \<Rightarrow> predicate \<Rightarrow> raw_value \<Rightarrow> bool" where
  "selects le user (ExprGte v) x \<longleftrightarrow> le v x"
| "selects le user (ExprLte v) x \<longleftrightarrow> le x v"
| "selects le user (IdGte v) x \<longleftrightarrow> same_sort_bracket (rv_type v) (rv_type x) \<and> le v x"
| "selects le user (IdLte v) x \<longleftrightarrow> same_sort_bracket (rv_type v) (rv_type x) \<and> le x v"
| "selects le user (IdType ts) x \<longleftrightarrow> type_string (rv_type x) \<in> set ts"
| "selects le user (IdIn vs) x \<longleftrightarrow> list_ex (\<lambda>v. le v x \<and> le x v) vs"
| "selects le user (OrOf ps) x \<longleftrightarrow> list_ex (\<lambda>p. selects le user p x) ps"
| "selects le user (AndOf ps) x \<longleftrightarrow> list_all (\<lambda>p. selects le user p x) ps"
| "selects le user (UserFilter f) x \<longleftrightarrow> user f"

text \<open>A filter selects the documents that all of its predicates select.\<close>

definition all_select :: "(raw_value \<Rightarrow> raw_value \<Rightarrow> bool) \<Rightarrow> (bytes \<Rightarrow> bool) \<Rightarrow> predicate list \<Rightarrow> raw_value \<Rightarrow> bool" where
  "all_select le user ps x \<longleftrightarrow> list_all (\<lambda>p. selects le user p x) ps"

subsection \<open>The table of types\<close>

lemma index_of_eq_Some: "index_of xs x = Some i \<Longrightarrow> i < length xs \<and> xs ! i = x"
  by (induction xs arbitrary: i) (auto split: if_splits)

lemma index_of_eq_None: "index_of xs x = None \<longleftrightarrow> x \<notin> set xs"
  by (induction xs) auto

lemmas type_tables = bsonTypeSortOrder_def numericTypes_def stringTypes_def

lemma brackets:
  "remdups (map sort_bracket bsonTypeSortOrder) = [TypeMinKey, TypeNull, TypeDouble, TypeString,
     TypeEmbeddedDocument, TypeBinary, TypeObjectID, TypeBoolean, TypeDateTime, TypeTimestamp,
     TypeDBPointer, TypeJavaScript, TypeCodeWithScope, TypeMaxKey]"
  by (simp add: type_tables sort_bracket_def)

lemma type_ranks:
  "type_rank TypeMinKey = 0" "type_rank TypeNull = 1" "type_rank TypeInt32 = 2" "type_rank TypeInt64 = 2"
  "type_rank TypeDouble = 2" "type_rank TypeDecimal128 = 2" "type_rank TypeString = 3" "type_rank TypeSymbol = 3"
  "type_rank TypeEmbeddedDocument = 4" "type_rank TypeBinary = 5" "type_rank TypeObjectID = 6"
  "type_rank TypeBoolean = 7" "type_rank TypeDateTime = 8" "type_rank TypeTimestamp = 9"
  "type_rank TypeDBPointer = 10" "type_rank TypeJavaScript = 11" "type_rank TypeCodeWithScope = 12"
  "type_rank TypeMaxKey = 13"
  by (simp_all add: type_rank_def brackets sort_bracket_def numericTypes_def stringTypes_def)

lemma excluded_types:
  assumes "t \<in> set bsonTypeSortOrder"
  shows "get_type_bracket_excluded t =
    Inr (filter (\<lambda>s. type_rank s < type_rank t) bsonTypeSortOrder,
         filter (\<lambda>s. type_rank t < type_rank s) bsonTypeSortOrder)"
  using assms unfolding type_tables
  by (auto simp: get_type_bracket_excluded_def type_tables without_def type_ranks Let_def)

lemma index_of_inj: "index_of xs x = Some i \<Longrightarrow> index_of xs y = Some i \<Longrightarrow> x = y"
  by (auto dest!: index_of_eq_Some)

lemma same_bracket_iff_rank:
  assumes "s \<in> set bsonTypeSortOrder" "t \<in> set bsonTypeSortOrder"
  shows "same_sort_bracket s t \<longleftrightarrow> type_rank s = type_rank t"
proof -
  let ?os = "remdups (map sort_bracket bsonTypeSortOrder)"
  have "index_of ?os (sort_bracket s) \<noteq> None" "index_of ?os (sort_bracket t) \<noteq> None"
    using assms by (simp_all add: index_of_eq_None del: not_None_eq)
  then show ?thesis
    by (auto simp: type_rank_def same_sort_bracket_def simp del: set_map set_remdups dest: index_of_inj)
qed

lemma distinct_type_strings: "distinct (map type_string bsonTypeSortOrder)"
  by code_simp

lemma type_string_inj:
  "s \<in> set bsonTypeSortOrder \<Longrightarrow> t \<in> set bsonTypeSortOrder \<Longrightarrow> type_string s = type_string t \<longleftrightarrow> s = t"
  using distinct_type_strings by (auto simp: distinct_map inj_on_def)

lemma min_max_rank:
  "TypeMinKey \<in> set bsonTypeSortOrder" "TypeMaxKey \<in> set bsonTypeSortOrder"
  "list_all (\<lambda>t. (type_rank t = type_rank TypeMinKey \<longleftrightarrow> t = TypeMinKey) \<and> type_rank TypeMinKey \<le> type_rank t
     \<and> (type_rank t = type_rank TypeMaxKey \<longleftrightarrow> t = TypeMaxKey) \<and> type_rank t \<le> type_rank TypeMaxKey) bsonTypeSortOrder"
  by (simp_all add: type_tables type_ranks)

lemma rank_bounds:
  assumes "t \<in> set bsonTypeSortOrder"
  shows "type_rank t = type_rank TypeMinKey \<longleftrightarrow> t = TypeMinKey" "type_rank TypeMinKey \<le> type_rank t"
    "type_rank t = type_rank TypeMaxKey \<longleftrightarrow> t = TypeMaxKey" "type_rank t \<le> type_rank TypeMaxKey"
  using bspec [OF min_max_rank(3) [unfolded list_all_iff] assms] by auto

subsection \<open>The predicates select the range\<close>

lemma id_order_rank:
  assumes "id_order le" "valid_id x" "valid_id y"
  shows "type_rank (rv_type x) < type_rank (rv_type y) \<Longrightarrow> le x y \<and> \<not> le y x"
    and "le x y \<Longrightarrow> type_rank (rv_type x) \<le> type_rank (rv_type y)"
  using assms unfolding id_order_def by (metis, meson not_le_imp_less)

text \<open>With bounds of one bracket, everything between them is in that bracket.\<close>

lemma between_same_rank:
  assumes "id_order le" "valid_id lower" "valid_id upper" "valid_id x"
    and "type_rank (rv_type lower) = type_rank (rv_type upper)" "le lower x" "le x upper"
  shows "type_rank (rv_type x) = type_rank (rv_type lower)"
  using assms id_order_rank(2) [of le lower x] id_order_rank(2) [of le x upper] by simp

lemma selects_type:
  assumes "valid_id x" "set ts \<subseteq> set bsonTypeSortOrder"
  shows "selects le user (IdType (types_to_strings ts)) x \<longleftrightarrow> rv_type x \<in> set ts"
  using assms by (auto simp: types_to_strings_def valid_id_def image_iff subset_iff type_string_inj)

lemma selects_range:
  assumes "valid_id x" "valid_id v"
  shows "selects le user (IdGte v) x \<longleftrightarrow> type_rank (rv_type v) = type_rank (rv_type x) \<and> le v x"
    "selects le user (IdLte v) x \<longleftrightarrow> type_rank (rv_type v) = type_rank (rv_type x) \<and> le x v"
  using assms by (simp_all add: same_bracket_iff_rank valid_id_def)

lemma select_or_of:
  assumes "valid_id x" "set ts \<subseteq> set bsonTypeSortOrder"
  shows "all_select le user (or_of ps ts) x \<longleftrightarrow>
    (\<exists>p. Some p \<in> set ps \<and> selects le user p x) \<or> rv_type x \<in> set ts"
proof -
  have c: "list_ex Q (compact_predicates qs) \<longleftrightarrow> (\<exists>p. Some p \<in> set qs \<and> Q p)" for Q and qs :: "predicate option list"
    by (induction qs) (auto simp: compact_predicates_def)
  show ?thesis
    using selects_type [OF assms] by (auto simp: all_select_def or_of_def c simp del: selects.simps(5) compact_filter)
qed

lemma min_rank_iff: "valid_id v \<Longrightarrow> type_rank (rv_type v) = 0 \<longleftrightarrow> rv_type v = TypeMinKey"
  using rank_bounds(1) [of "rv_type v"] by (simp add: valid_id_def type_ranks)

lemma max_rank_iff: "valid_id v \<Longrightarrow> type_rank (rv_type v) = 13 \<longleftrightarrow> rv_type v = TypeMaxKey"
  using rank_bounds(3) [of "rv_type v"] by (simp add: valid_id_def type_ranks)

lemma max_rank_le: "valid_id v \<Longrightarrow> type_rank (rv_type v) \<le> 13"
  using rank_bounds(4) [of "rv_type v"] by (simp add: valid_id_def type_ranks)

lemma key_rank_le:
  assumes "id_order le" "valid_id x" "valid_id y"
  shows "rv_type y = TypeMaxKey \<Longrightarrow> le x y" "rv_type x = TypeMinKey \<Longrightarrow> le x y"
proof -
  have r: "le z z" for z using assms(1) unfolding id_order_def by blast
  have eq: "x = y" if "rv_type x = rv_type y" "rv_type x \<in> {TypeMinKey, TypeMaxKey}"
    using assms(2,3) that by (cases x; cases y) (auto simp: valid_id_def)
  show "le x y" if t: "rv_type y = TypeMaxKey"
  proof (cases "rv_type x = TypeMaxKey")
    case True with t eq r show ?thesis by auto
  next
    case False
    then have "type_rank (rv_type x) < type_rank (rv_type y)"
      using max_rank_iff [OF assms(2)] max_rank_le [OF assms(2)] t by (simp add: type_ranks)
    then show ?thesis using id_order_rank(1) [OF assms] by blast
  qed
  show "le x y" if t: "rv_type x = TypeMinKey"
  proof (cases "rv_type y = TypeMinKey")
    case True with t eq r show ?thesis by auto
  next
    case False
    then have "type_rank (rv_type x) < type_rank (rv_type y)"
      using min_rank_iff [OF assms(3)] t by (simp add: type_ranks)
    then show ?thesis using id_order_rank(1) [OF assms] by blast
  qed
qed

lemma explicit_predicates:
  assumes o: "id_order le" and v: "valid_id lower" "valid_id upper" "valid_id x"
  shows "case get_explicit_type_check_predicates lower upper of
     Inl e \<Rightarrow> type_rank (rv_type upper) < type_rank (rv_type lower)
   | Inr ps \<Rightarrow> type_rank (rv_type lower) \<le> type_rank (rv_type upper)
      \<and> (all_select le user ps x \<longleftrightarrow> le lower x \<and> le x upper
           \<and> \<not> (rv_type lower = TypeMinKey \<and> rv_type x = TypeMinKey \<and> rv_type upper \<noteq> TypeMinKey))"
proof -
  let ?rl = "type_rank (rv_type lower)" and ?ru = "type_rank (rv_type upper)" and ?rx = "type_rank (rv_type x)"
  have t: "rv_type lower \<in> set bsonTypeSortOrder" "rv_type upper \<in> set bsonTypeSortOrder"
    "rv_type x \<in> set bsonTypeSortOrder" using v by (simp_all add: valid_id_def)
  note e = excluded_types [OF t(1)] excluded_types [OF t(2)]
  note lx = id_order_rank [OF o v(1,3)] and xu = id_order_rank [OF o v(3,2)]
  note rng = selects_range [OF v(3,1)] selects_range [OF v(3,2)]
  note keys = min_rank_iff [OF v(1)] min_rank_iff [OF v(2)] min_rank_iff [OF v(3)] max_rank_iff [OF v(2)]
  note orr = select_or_of [OF v(3)]
  show ?thesis
  proof (cases "rv_type upper = TypeMaxKey")
    case True
    then have "?ru = 13" "le x upper" "?rl \<le> 13"
      using keys(4) key_rank_le(1) [OF o v(3,2)] max_rank_le [OF v(1)] by simp_all
    with True show ?thesis
      using lx t key_rank_le(2) [OF o v(1,3)] keys(1,3)
      by (auto simp: get_explicit_type_check_predicates_def e orr rng Let_def simp del: selects.simps)
  next
    case upper: False
    consider "?ru < ?rl" | "?rl = ?ru" | "?rl < ?ru" by linarith
    then show ?thesis
    proof cases
      case 1 with upper t show ?thesis
        by (auto simp: get_explicit_type_check_predicates_def e Let_def)
    next
      case 2
      with upper t show ?thesis
        using between_same_rank [OF o v 2] key_rank_le(2) [OF o v(1,3)] keys
        by (auto simp: get_explicit_type_check_predicates_def e Let_def all_select_def compact_predicates_def rng
            simp del: selects.simps)
    next
      case 3
      with upper t show ?thesis
        using lx xu key_rank_le(2) [OF o v(1,3)] keys
        by (auto simp: get_explicit_type_check_predicates_def e Let_def orr compact_predicates_def rng
            intersect_def simp del: selects.simps)
    qed
  qed
qed

lemma expr_predicates:
  "get_expr_predicates lower upper = Inr ps \<Longrightarrow> all_select le user ps x \<longleftrightarrow> le lower x \<and> le x upper"
  by (auto simp: get_expr_predicates_def all_select_def)

lemma filter_id_bounds_selects:
  assumes "id_order le" "valid_id lower" "valid_id upper" "valid_id x"
    and "filter_id_bounds ci lower upper = Inr ps" "rv_type x \<noteq> TypeMinKey"
  shows "all_select le user ps x \<longleftrightarrow> le lower x \<and> le x upper"
  using assms(5,6) explicit_predicates [OF assms(1-4), of user]
  by (auto simp: filter_id_bounds_def expr_predicates split: option.splits list.splits if_splits)

text \<open>C22: A filter on the bounds of a partition selects exactly the documents whose \<open>_id\<close> lies between
  them in the server's order, whether it is built with \<open>$expr\<close> or, for servers before 5.0, with
  explicit type checks, for every document but one whose \<open>_id\<close> is MinKey; the latter form fails only
  when the lower bound's type sorts after the upper bound's.\<close>

theorem filter_id_bounds_exact:
  assumes "id_order le" "valid_id lower" "valid_id upper" "valid_id x" "rv_type x \<noteq> TypeMinKey"
  shows "case filter_id_bounds (Some (Some (major # rest))) lower upper of
     Inl e \<Rightarrow> major < 5 \<and> type_rank (rv_type upper) < type_rank (rv_type lower)
   | Inr ps \<Rightarrow> all_select le user ps x \<longleftrightarrow> le lower x \<and> le x upper"
  using explicit_predicates [OF assms(1-4), of user] assms(5)
  by (auto simp: filter_id_bounds_def expr_predicates get_expr_predicates_def split: sum.splits)

text \<open>A server order to check the hypotheses with: by rank, then by the value's bytes.\<close>

fun bytes_le :: "bytes \<Rightarrow> bytes \<Rightarrow> bool" where
  "bytes_le [] ys \<longleftrightarrow> True"
| "bytes_le (x # xs) [] \<longleftrightarrow> False"
| "bytes_le (x # xs) (y # ys) \<longleftrightarrow> x < y \<or> x = y \<and> bytes_le xs ys"

definition rank_order :: "raw_value \<Rightarrow> raw_value \<Rightarrow> bool" where
  "rank_order x y \<longleftrightarrow> type_rank (rv_type x) < type_rank (rv_type y)
     \<or> type_rank (rv_type x) = type_rank (rv_type y) \<and> bytes_le (rv_value x) (rv_value y)"

lemma bytes_le_total: "bytes_le xs ys \<or> bytes_le ys xs"
  by (induction xs ys rule: bytes_le.induct) auto

lemma bytes_le_trans: "bytes_le xs ys \<Longrightarrow> bytes_le ys zs \<Longrightarrow> bytes_le xs zs"
proof (induction xs ys arbitrary: zs rule: bytes_le.induct)
  case (3 x xs y ys) then show ?case by (cases zs) auto
qed auto

lemma id_order_rank_order: "id_order rank_order"
  unfolding id_order_def
proof (intro conjI allI impI)
  show "rank_order x y \<or> rank_order y x" for x y
    using bytes_le_total [of "rv_value x" "rv_value y"] by (auto simp: rank_order_def)
  show "rank_order x z" if "rank_order x y" "rank_order y z" for x y z
    using that bytes_le_trans [of "rv_value x" "rv_value y" "rv_value z"] by (auto simp: rank_order_def)
  show "\<not> rank_order y x" if "type_rank (rv_type x) < type_rank (rv_type y)" for x y
    using that by (auto simp: rank_order_def)
qed

definition oid_value :: "bytes \<Rightarrow> raw_value" where
  "oid_value b = \<lparr>rv_type = TypeObjectID, rv_value = b\<rparr>"

definition int_id :: "bytes \<Rightarrow> raw_value" where
  "int_id b = \<lparr>rv_type = TypeInt32, rv_value = b\<rparr>"

lemma sample_ids: "valid_id (oid_value b)" "valid_id (int_id b)" "valid_id min_key" "valid_id max_key"
  by (simp_all add: valid_id_def oid_value_def int_id_def min_key_def max_key_def type_tables)

theorem filter_id_bounds_exact_witness:
  "\<exists>ps. filter_id_bounds (Some (Some [4, 4])) (int_id [7]) (oid_value [9]) = Inr ps
    \<and> all_select rank_order (\<lambda>_. True) ps (oid_value [3]) \<and> \<not> all_select rank_order (\<lambda>_. True) ps (oid_value [12])"
  using filter_id_bounds_exact [OF id_order_rank_order sample_ids(2) [of "[7]"] sample_ids(1) [of "[9]"] sample_ids(1) [of "[3]"],
      where major = 4 and rest = "[4]" and user = "\<lambda>_. True"]
    filter_id_bounds_exact [OF id_order_rank_order sample_ids(2) [of "[7]"] sample_ids(1) [of "[9]"] sample_ids(1) [of "[12]"],
      where major = 4 and rest = "[4]" and user = "\<lambda>_. True"]
  by (auto simp: oid_value_def int_id_def type_ranks rank_order_def split: sum.splits)

text \<open>A document whose \<open>_id\<close> is MinKey is in the range of the first partition by the server's order,
  but the filter for servers before 5.0 does not select it.\<close>

theorem min_key_document_skipped:
  assumes "id_order le" "valid_id upper" "rv_type upper \<noteq> TypeMinKey" "major < 5"
  shows "\<exists>ps. filter_id_bounds (Some (Some (major # rest))) min_key upper = Inr ps
    \<and> \<not> all_select le user ps min_key \<and> le min_key min_key \<and> le min_key upper"
proof -
  have m: "rv_type min_key = TypeMinKey" by (simp add: min_key_def)
  show ?thesis
    using explicit_predicates [OF assms(1) sample_ids(3) assms(2) sample_ids(3), of user] assms(3,4)
      key_rank_le(2) [OF assms(1) sample_ids(3) assms(2) m] key_rank_le(2) [OF assms(1) sample_ids(3) sample_ids(3) m]
    by (auto simp: filter_id_bounds_def m type_ranks split: sum.splits)
qed

theorem min_key_document_skipped_witness:
  "\<exists>ps. filter_id_bounds (Some (Some [4, 4])) min_key max_key = Inr ps
    \<and> \<not> all_select rank_order (\<lambda>_. True) ps min_key"
  using min_key_document_skipped [OF id_order_rank_order sample_ids(4), where major = 4 and rest = "[4]" and user = "\<lambda>_. True"]
  by (simp add: max_key_def) blast

text \<open>The plain range predicates select exactly the range when both bounds share a sort bracket: the
  documents between them are then all of that bracket.\<close>

theorem range_id_predicates_exact:
  assumes "id_order le" "valid_id lower" "valid_id upper" "valid_id x"
    and "same_sort_bracket (rv_type lower) (rv_type upper)" "rv_type lower \<noteq> TypeMinKey" "rv_type upper \<noteq> TypeMaxKey"
  shows "all_select le user (range_id_predicates lower upper) x \<longleftrightarrow> le lower x \<and> le x upper"
proof -
  have r: "type_rank (rv_type lower) = type_rank (rv_type upper)"
    using assms(2,3,5) by (simp add: same_bracket_iff_rank valid_id_def)
  show ?thesis
    using between_same_rank [OF assms(1-4) r] assms(6,7) r selects_range [OF assms(4,2)] selects_range [OF assms(4,3)]
    by (auto simp: range_id_predicates_def all_select_def simp del: selects.simps)
qed

theorem range_id_predicates_exact_witness:
  "all_select rank_order (\<lambda>_. True) (range_id_predicates (int_id [7]) (int_id [9])) (int_id [8])"
  using range_id_predicates_exact [OF id_order_rank_order sample_ids(2) [of "[7]"] sample_ids(2) [of "[9]"]
      sample_ids(2) [of "[8]"], where user = "\<lambda>_. True"]
  by (simp add: int_id_def rank_order_def same_sort_bracket_def)

end
