(* ===== verification/Tasks.thy ===== *)
theory Tasks
  imports Recheck_Tasks Id_Bounds "HOL-Library.List_Lexorder" "HOL-Library.Char_ord"
begin

text \<open>
  Verification tasks and the collection they live in (\<open>internal/verifier/tasks/task.go\<close>,
  \<open>verification_task.go\<close>, \<open>reset.go\<close>). The collection is the list of its documents in insertion order;
  each command changes it in one atomic step, as the server's single-document writes do. Which of
  several matching documents a \<open>findAndModify\<close> takes is the server's choice among the first in
  the requested order, and a parameter. Retries repeat a command; they show where the code's own
  callback keeps state between attempts (\<open>FindNextVerifyTaskAndUpdate\<close>).
\<close>

section \<open>Tasks\<close>

datatype task_type = ProcessRecheckQueue | VerifyCollection | VerifyDocuments | Primary

fun task_type_name :: "task_type \<Rightarrow> string" where
  "task_type_name ProcessRecheckQueue = ''processRecheckQueue''"
| "task_type_name VerifyCollection = ''verifyCollection''"
| "task_type_name VerifyDocuments = ''verifyDocuments''"
| "task_type_name Primary = ''primary''"

datatype task_status = Added | Processing | Completed | Failed | MetadataMismatch

fun task_status_name :: "task_status \<Rightarrow> string" where
  "task_status_name Added = ''added''"
| "task_status_name Processing = ''processing''"
| "task_status_name Completed = ''completed''"
| "task_status_name Failed = ''failed''"
| "task_status_name MetadataMismatch = ''mismatch''"

text \<open>Workers take tasks in the lexicographic order of the types' names.\<close>

lemma type_name_inject [simp]: "task_type_name a = task_type_name b \<longleftrightarrow> a = b"
  by (cases a; cases b) simp_all

instantiation task_type :: linorder
begin

definition less_eq_task_type :: "task_type \<Rightarrow> task_type \<Rightarrow> bool" where
  "a \<le> b \<longleftrightarrow> task_type_name a \<le> task_type_name b"

definition less_task_type :: "task_type \<Rightarrow> task_type \<Rightarrow> bool" where
  "a < b \<longleftrightarrow> task_type_name a < task_type_name b"

instance
  by standard (auto simp: less_eq_task_type_def less_task_type_def order.strict_iff_order)

end

record query_filter =
  qf_Partition :: "partition option"
  qf_ShardKeys :: "string list"
  qf_Namespace :: string
  qf_To :: string

record task =
  tk_PrimaryKey :: bytes
  tk_Type :: task_type
  tk_Status :: "task_status option"
  tk_Generation :: "int option"
  tk_BeginTime :: "int option"
  tk_Ids :: "raw_value list"
  tk_QueryFilter :: query_filter
  tk_DocumentsCount :: u64
  tk_FoundSourceDocumentsCount :: u64
  tk_SourceBytesCount :: u64
  tk_FirstMismatchTime :: "nat \<rightharpoonup> u64"
  tk_SrcTimestamp :: "timestamp option"
  tk_DstTimestamp :: "timestamp option"

text \<open>A field a stored document lacks is \<open>None\<close>: the primary task has no generation.\<close>

definition zero_task :: task where
  "zero_task = \<lparr>tk_PrimaryKey = [], tk_Type = Primary, tk_Status = None, tk_Generation = None,
     tk_BeginTime = None, tk_Ids = [], tk_QueryFilter = \<lparr>qf_Partition = None, qf_ShardKeys = [],
       qf_Namespace = [], qf_To = []\<rparr>,
     tk_DocumentsCount = 0, tk_FoundSourceDocumentsCount = 0, tk_SourceBytesCount = 0,
     tk_FirstMismatchTime = Map.empty, tk_SrcTimestamp = None, tk_DstTimestamp = None\<rparr>"

definition is_recheck :: "task \<Rightarrow> bool" where
  "is_recheck t \<longleftrightarrow> (case tk_Generation t of None \<Rightarrow> False | Some g \<Rightarrow> g > 0)"

section \<open>The collection of tasks\<close>

type_synonym task_db = "task list"

definition task_ids :: "task_db \<Rightarrow> bytes set" where
  "task_ids db = tk_PrimaryKey ` set db"

definition insert_one :: "task \<Rightarrow> task_db \<Rightarrow> go_error + task_db" where
  "insert_one t db = (if tk_PrimaryKey t \<in> task_ids db then Inl (Err ''duplicate key'') else Inr (db @ [t]))"

definition update_where :: "(task \<Rightarrow> bool) \<Rightarrow> (task \<Rightarrow> task) \<Rightarrow> task_db \<Rightarrow> task_db" where
  "update_where p f db = map (\<lambda>t. if p t then f t else t) db"

definition delete_where :: "(task \<Rightarrow> bool) \<Rightarrow> task_db \<Rightarrow> task_db" where
  "delete_where p db = filter (\<lambda>t. \<not> p t) db"

subsection \<open>Creating tasks\<close>

definition insert_collection_verification_task :: "nsmap \<Rightarrow> bytes \<Rightarrow> string \<Rightarrow> int \<Rightarrow> task_db
     \<Rightarrow> go_error + task \<times> task_db" where
  "insert_collection_verification_task m oid srcNamespace generation db =
     rbind (nsmap_len m) (\<lambda>len.
     rbind (if len \<noteq> 0
            then (case get_dst_namespace m srcNamespace of
                    None \<Rightarrow> Inl (Err ''could not find Namespace'') | Some d \<Rightarrow> Inr d)
            else Inr srcNamespace) (\<lambda>dstNamespace.
     let t = zero_task\<lparr>tk_PrimaryKey := oid, tk_Generation := Some generation, tk_Status := Some Added,
               tk_Type := VerifyCollection,
               tk_QueryFilter := \<lparr>qf_Partition = None, qf_ShardKeys = [], qf_Namespace = srcNamespace,
                                  qf_To = dstNamespace\<rparr>\<rparr>
     in rbind (insert_one t db) (\<lambda>db'. Inr (t, db'))))"

definition insert_failed_collection_verification_task :: "nsmap \<Rightarrow> bytes \<Rightarrow> string \<Rightarrow> int \<Rightarrow> task_db
     \<Rightarrow> go_error + task \<times> task_db" where
  "insert_failed_collection_verification_task m oid srcNamespace generation db =
     insert_collection_verification_task m oid srcNamespace (generation + 1) db"

definition partition_task :: "bytes \<Rightarrow> int \<Rightarrow> partition \<Rightarrow> string list \<Rightarrow> string \<Rightarrow> go_error + task" where
  "partition_task oid generation part shardKeys dstNamespace =
     rbind (deref (pt_Ns part)) (\<lambda>ns.
       Inr (zero_task\<lparr>tk_PrimaryKey := oid, tk_Generation := Some generation, tk_Status := Some Added,
              tk_Type := VerifyDocuments,
              tk_QueryFilter := \<lparr>qf_Partition = Some part, qf_ShardKeys = shardKeys,
                qf_Namespace = pn_DB ns @ ''.'' @ pn_Coll ns, qf_To = dstNamespace\<rparr>\<rparr>))"

definition insert_partition_verification_task :: "bytes \<Rightarrow> int \<Rightarrow> partition \<Rightarrow> string list \<Rightarrow> string \<Rightarrow> task_db
     \<Rightarrow> go_error + task \<times> task_db" where
  "insert_partition_verification_task oid generation part shardKeys dstNamespace db =
     rbind (partition_task oid generation part shardKeys dstNamespace) (\<lambda>t.
     rbind (insert_one t db) (\<lambda>db'. Inr (t, db')))"

text \<open>The document-recheck task the generator creates (\<open>Recheck_Tasks\<close>), as it is stored.\<close>

definition document_recheck_task :: "bytes \<Rightarrow> int \<Rightarrow> recheck_task \<Rightarrow> task" where
  "document_recheck_task oid generation rt = zero_task\<lparr>tk_PrimaryKey := oid, tk_Generation := Some generation,
     tk_Ids := rt_Ids rt, tk_Status := Some Added, tk_Type := VerifyDocuments,
     tk_QueryFilter := \<lparr>qf_Partition = None, qf_ShardKeys = [], qf_Namespace = rt_Namespace rt, qf_To = rt_To rt\<rparr>,
     tk_DocumentsCount := rt_DocumentsCount rt, tk_FirstMismatchTime := rt_FirstMismatchTime rt,
     tk_SrcTimestamp := rt_SrcTimestamp rt, tk_DstTimestamp := rt_DstTimestamp rt\<rparr>"

text \<open>
  The upsert of the create-rechecks task: the first document of that generation and type is updated,
  else one with just those fields is created and updated; the update starts a missing or interrupted
  task over.
\<close>

definition reset_if_interrupted :: "task \<Rightarrow> task" where
  "reset_if_interrupted t =
     (if tk_Status t = Some Processing \<or> tk_Status t = None
      then t\<lparr>tk_Status := Some Added, tk_BeginTime := None\<rparr> else t)"

fun update_first :: "(task \<Rightarrow> bool) \<Rightarrow> (task \<Rightarrow> task) \<Rightarrow> task_db \<Rightarrow> task_db option" where
  "update_first p f [] = None"
| "update_first p f (t # db) = (if p t then Some (f t # db) else map_option ((#) t) (update_first p f db))"

definition ensure_create_recheck_task_if_needed :: "bytes \<Rightarrow> int \<Rightarrow> bytes list \<Rightarrow> task_db \<Rightarrow> task_db" where
  "ensure_create_recheck_task_if_needed oid newGeneration recheckColl db =
     (if recheckColl = [] then db
      else case update_first (\<lambda>t. tk_Generation t = Some newGeneration \<and> tk_Type t = ProcessRecheckQueue)
                  reset_if_interrupted db of
             Some db' \<Rightarrow> db'
           | None \<Rightarrow> db @ [reset_if_interrupted (zero_task\<lparr>tk_PrimaryKey := oid,
                             tk_Generation := Some newGeneration, tk_Type := ProcessRecheckQueue\<rparr>)])"

definition create_primary_task_if_needed :: "bytes \<Rightarrow> task_db \<Rightarrow> bool \<times> task_db" where
  "create_primary_task_if_needed ownerSetId db =
     (if list_ex (\<lambda>t. tk_Type t = Primary) db then (False, db)
      else (True, db @ [zero_task\<lparr>tk_PrimaryKey := ownerSetId, tk_Type := Primary, tk_Status := Some Added\<rparr>]))"

definition update_primary_task_complete :: "task_db \<Rightarrow> go_error + task_db" where
  "update_primary_task_complete db =
     (if list_ex (\<lambda>t. tk_Type t = Primary) db
      then Inr (update_where (\<lambda>t. tk_Type t = Primary) (\<lambda>t. t\<lparr>tk_Status := Some Completed\<rparr>) db)
      else Inl (Err ''no primary task found''))"

subsection \<open>Taking and finishing tasks\<close>

definition awaits_worker :: "int \<Rightarrow> task \<Rightarrow> bool" where
  "awaits_worker generation t \<longleftrightarrow>
     tk_Generation t = Some generation \<and> tk_Type t \<noteq> Primary \<and> tk_Status t = Some Added"

definition find_one_and_update :: "(task list \<Rightarrow> task option) \<Rightarrow> int \<Rightarrow> int \<Rightarrow> task_db \<Rightarrow> task option \<times> task_db" where
  "find_one_and_update pick now generation db =
     (case pick (filter (awaits_worker generation) db) of
        None \<Rightarrow> (None, db)
      | Some t \<Rightarrow>
          (let t' = t\<lparr>tk_Status := Some Processing, tk_BeginTime := Some now\<rparr>
           in (Some t', update_where (\<lambda>u. tk_PrimaryKey u = tk_PrimaryKey t) (\<lambda>_. t') db)))"

text \<open>
  One attempt of the callback ends in the server's reply, in a transient error before the command took
  effect, or in one after it. The callback clears the variable it decodes into on any error, and the
  next attempt decodes into the cleared variable, which the driver rejects.
\<close>

datatype attempt = Reply | Transient go_error | ReplyLost go_error

fun find_next_attempts :: "(task list \<Rightarrow> task option) \<Rightarrow> int \<Rightarrow> int \<Rightarrow> bool \<Rightarrow> attempt list \<Rightarrow> task_db
     \<Rightarrow> (go_error + task option) \<times> task_db" where
  "find_next_attempts pick now generation taskIsNil [] db = (Inl (Err ''retries exhausted''), db)"
| "find_next_attempts pick now generation taskIsNil (Transient e # as) db =
     find_next_attempts pick now generation True as db"
| "find_next_attempts pick now generation taskIsNil (ReplyLost e # as) db =
     find_next_attempts pick now generation True as (snd (find_one_and_update pick now generation db))"
| "find_next_attempts pick now generation taskIsNil (Reply # as) db =
     (case find_one_and_update pick now generation db of
        (None, db') \<Rightarrow> (Inr None, db')
      | (Some t, db') \<Rightarrow> (if taskIsNil then Inl (Err ''cannot decode to nil value'') else Inr (Some t), db'))"

definition find_next_verify_task_and_update :: "(task list \<Rightarrow> task option) \<Rightarrow> int \<Rightarrow> int \<Rightarrow> attempt list \<Rightarrow> task_db
     \<Rightarrow> (go_error + task option) \<times> task_db" where
  "find_next_verify_task_and_update pick now generation attempts db =
     find_next_attempts pick now generation False attempts db"

definition set_progress :: "task \<Rightarrow> task \<Rightarrow> task" where
  "set_progress t u = u\<lparr>tk_Status := tk_Status t, tk_DocumentsCount := tk_DocumentsCount t,
     tk_FoundSourceDocumentsCount := tk_FoundSourceDocumentsCount t, tk_SourceBytesCount := tk_SourceBytesCount t\<rparr>"

definition update_verification_task :: "task \<Rightarrow> task_db \<Rightarrow> go_error + task_db" where
  "update_verification_task t db =
     (if tk_PrimaryKey t \<in> task_ids db
      then Inr (update_where (\<lambda>u. tk_PrimaryKey u = tk_PrimaryKey t) (set_progress t) db)
      else Inl (Err ''no matched task updated''))"

section \<open>Starting over after an interruption\<close>

definition default_task_update :: "task \<Rightarrow> task" where
  "default_task_update t = t\<lparr>tk_Status := Some Added, tk_BeginTime := None\<rparr>"

definition find_in_progress_tasks :: "task_type \<Rightarrow> task_db \<Rightarrow> task list" where
  "find_in_progress_tasks ty db = filter (\<lambda>t. tk_Type t = ty \<and> tk_Status t = Some Processing) db"

definition handle_incomplete_primary :: "task_db \<Rightarrow> go_error + bool \<times> task_db" where
  "handle_incomplete_primary db =
     (case filter (\<lambda>t. tk_Type t = Primary \<and> tk_Status t \<noteq> Some Completed) db of
        [] \<Rightarrow> Inr (False, db)
      | [t] \<Rightarrow> if tk_Status t \<noteq> Some Added then Inl (Panic ''Primary task status has invalid state.'')
               else Inr (True, delete_where (\<lambda>t. tk_Type t \<noteq> Primary) db)
      | _ \<Rightarrow> Inl (Panic ''Found multiple incomplete primary tasks; there should only be 1.''))"

definition reset_collection_task :: "task_db \<Rightarrow> task \<Rightarrow> task_db" where
  "reset_collection_task db t =
     update_where (\<lambda>u. tk_PrimaryKey u = tk_PrimaryKey t) default_task_update
       (if tk_Generation t = Some 0
        then delete_where (\<lambda>u. tk_Type u = VerifyDocuments
               \<and> qf_Namespace (tk_QueryFilter u) = qf_Namespace (tk_QueryFilter t)) db
        else db)"

definition reset_collection_tasks_if_needed :: "task_db \<Rightarrow> task_db" where
  "reset_collection_tasks_if_needed db = foldl reset_collection_task db (find_in_progress_tasks VerifyCollection db)"

definition reset_process_recheck_queue_tasks_if_needed :: "int \<Rightarrow> task_db \<Rightarrow> go_error + task_db" where
  "reset_process_recheck_queue_tasks_if_needed verifierGeneration db =
     (case find_in_progress_tasks ProcessRecheckQueue db of
        [] \<Rightarrow> Inr db
      | [t] \<Rightarrow> if tk_Generation t \<noteq> Some verifierGeneration
               then Inl (Err ''pending task's generation mismatches verifier's'')
               else Inr (update_where (\<lambda>u. tk_PrimaryKey u = tk_PrimaryKey t) default_task_update
                     (delete_where (\<lambda>u. tk_Generation u = tk_Generation t \<and> tk_Type u = VerifyDocuments) db))
      | _ \<Rightarrow> Inl (Err ''found more than one in-progress task; should be <= 1!''))"

definition reset_document_tasks_if_needed :: "task_db \<Rightarrow> task_db" where
  "reset_document_tasks_if_needed db =
     update_where (\<lambda>t. tk_Type t = VerifyDocuments \<and> tk_Status t = Some Processing) default_task_update db"

definition reset_in_progress_tasks :: "int \<Rightarrow> task_db \<Rightarrow> go_error + task_db" where
  "reset_in_progress_tasks verifierGeneration db =
     rbind (handle_incomplete_primary db) (\<lambda>(didReset, db).
       if didReset then Inr db
       else rbind (reset_process_recheck_queue_tasks_if_needed verifierGeneration
                     (reset_collection_tasks_if_needed db)) (\<lambda>db.
         Inr (reset_document_tasks_if_needed db)))"

section \<open>Properties of the collection\<close>

text \<open>The primary key is the collection's unique index.\<close>

definition db_ok :: "task_db \<Rightarrow> bool" where
  "db_ok db \<longleftrightarrow> distinct (map tk_PrimaryKey db)"

lemma db_ok_eq: "db_ok db \<Longrightarrow> t \<in> set db \<Longrightarrow> u \<in> set db \<Longrightarrow> tk_PrimaryKey t = tk_PrimaryKey u \<longleftrightarrow> t = u"
  by (auto simp: db_ok_def distinct_map inj_on_def)

lemma db_ok_delete [intro]: "db_ok db \<Longrightarrow> db_ok (delete_where p db)"
  by (simp add: db_ok_def delete_where_def distinct_map_filter)

lemma db_ok_update [intro]:
  "db_ok db \<Longrightarrow> (\<And>t. tk_PrimaryKey (f t) = tk_PrimaryKey t) \<Longrightarrow> db_ok (update_where p f db)"
  by (simp add: db_ok_def update_where_def comp_def if_distrib [of tk_PrimaryKey] cong: if_cong)

lemma insert_one_ok: "insert_one t db = Inr db' \<Longrightarrow> db_ok db \<Longrightarrow> db_ok db' \<and> db' = db @ [t]"
  by (auto simp: insert_one_def db_ok_def task_ids_def split: if_splits)

lemma update_where_one:
  assumes "db_ok db" "i < length db"
  shows "update_where (\<lambda>u. tk_PrimaryKey u = tk_PrimaryKey (db ! i)) f db = db[i := f (db ! i)]"
  using assms db_ok_eq [OF assms(1)]
  by (intro nth_equalityI) (auto simp: update_where_def nth_list_update db_ok_def distinct_map nth_eq_iff_index_eq inj_on_def)

subsection \<open>Which task a worker takes\<close>

text \<open>
  The server's contract: of the matching documents it takes one that is first in the requested order,
  and it takes one whenever there is one. The concrete picker takes the oldest of them.
\<close>

locale task_picker =
  fixes pick :: "task list \<Rightarrow> task option"
  assumes pick_None: "pick ts = None \<longleftrightarrow> ts = []"
    and pick_Some: "pick ts = Some t \<Longrightarrow> t \<in> set ts \<and> (\<forall>u \<in> set ts. tk_Type t \<le> tk_Type u)"
begin

lemma find_one_and_update_takes:
  assumes "db_ok db"
  shows "case find_one_and_update pick now g db of
      (None, db') \<Rightarrow> db' = db \<and> \<not> list_ex (awaits_worker g) db
    | (Some t, db') \<Rightarrow> \<exists>i < length db. awaits_worker g (db ! i)
        \<and> t = (db ! i)\<lparr>tk_Status := Some Processing, tk_BeginTime := Some now\<rparr> \<and> db' = db[i := t]
        \<and> list_all (\<lambda>u. awaits_worker g u \<longrightarrow> tk_Type t \<le> tk_Type u) db"
proof (cases "pick (filter (awaits_worker g) db)")
  case None
  then have "filter (awaits_worker g) db = []" by (simp only: pick_None)
  with None show ?thesis
    by (simp add: find_one_and_update_def list_ex_iff filter_empty_conv)
next
  case (Some u)
  from pick_Some [OF this] have u: "u \<in> set db" "awaits_worker g u"
    "\<forall>v \<in> set db. awaits_worker g v \<longrightarrow> tk_Type u \<le> tk_Type v" by auto
  then obtain i where i: "i < length db" "db ! i = u" by (auto simp: in_set_conv_nth)
  with Some u update_where_one [OF assms i(1)] show ?thesis
    by (auto simp: find_one_and_update_def Let_def list_all_iff intro!: exI [of _ i])
qed

lemma find_one_and_update_busy:
  assumes "list_ex (awaits_worker g) db"
  shows "\<exists>t db'. find_one_and_update pick now g db = (Some t, db')"
  using assms by (cases "pick (filter (awaits_worker g) db)")
    (auto simp: find_one_and_update_def pick_None list_ex_iff filter_empty_conv Let_def)

end

fun pick_by_type :: "task list \<Rightarrow> task option" where
  "pick_by_type [] = None"
| "pick_by_type (t # ts) = (case pick_by_type ts of
     None \<Rightarrow> Some t | Some u \<Rightarrow> Some (if tk_Type t \<le> tk_Type u then t else u))"

lemma pick_by_type_first:
  "pick_by_type ts = Some t \<Longrightarrow> t \<in> set ts \<and> (\<forall>u \<in> set ts. tk_Type t \<le> tk_Type u)"
proof (induction ts arbitrary: t)
  case (Cons a ts)
  show ?case
  proof (cases "pick_by_type ts")
    case None
    then have "ts = []" by (cases ts) (simp_all split: option.splits)
    with Cons.prems show ?thesis by simp
  next
    case (Some u)
    with Cons.IH [OF this] Cons.prems show ?thesis by (force split: if_splits)
  qed
qed simp

interpretation by_type: task_picker pick_by_type
proof
  show "pick_by_type ts = None \<longleftrightarrow> ts = []" for ts by (cases ts) (auto split: option.splits)
qed (rule pick_by_type_first)

text \<open>A worker is given an unstarted task of the current generation, never the primary one, and among
  those one of the first type in execution order; exactly that task becomes \<open>processing\<close>. It is given
  none exactly when no such task is left.\<close>

theorem find_next_takes_first:
  assumes "task_picker pick" "db_ok db"
  shows "case find_next_verify_task_and_update pick now g (Reply # as) db of
      (Inl e, db') \<Rightarrow> False
    | (Inr None, db') \<Rightarrow> db' = db \<and> \<not> list_ex (awaits_worker g) db
    | (Inr (Some t), db') \<Rightarrow> \<exists>i < length db. awaits_worker g (db ! i)
        \<and> t = (db ! i)\<lparr>tk_Status := Some Processing, tk_BeginTime := Some now\<rparr> \<and> db' = db[i := t]
        \<and> list_all (\<lambda>u. awaits_worker g u \<longrightarrow> tk_Type t \<le> tk_Type u) db"
  using task_picker.find_one_and_update_takes [OF assms, where now = now and g = g]
  by (auto simp: find_next_verify_task_and_update_def split: prod.splits option.splits)

definition sample_task :: "bytes \<Rightarrow> task_type \<Rightarrow> task_status \<Rightarrow> task" where
  "sample_task oid ty st = zero_task\<lparr>tk_PrimaryKey := oid, tk_Type := ty, tk_Status := Some st, tk_Generation := Some 1\<rparr>"

definition sample_db :: task_db where
  "sample_db = [sample_task [1] VerifyDocuments Added, sample_task [2] ProcessRecheckQueue Added,
     sample_task [3] VerifyDocuments Processing]"

lemma sample_db_ok: "db_ok sample_db" "awaits_worker 1 (sample_task [2] ProcessRecheckQueue Added)"
  by (simp_all add: db_ok_def sample_db_def sample_task_def awaits_worker_def)

theorem find_next_takes_first_witness:
  "\<exists>t db'. find_next_verify_task_and_update pick_by_type 7 1 [Reply] sample_db = (Inr (Some t), db')
    \<and> tk_Type t = ProcessRecheckQueue \<and> tk_Status t = Some Processing"
  using find_next_takes_first [OF by_type.task_picker_axioms sample_db_ok(1), where now = 7 and g = 1 and as = "[]"]
    sample_db_ok(2)
  by (auto simp: sample_db_def less_Suc_eq nth_Cons' awaits_worker_def sample_task_def list_all_iff
      less_eq_task_type_def split: prod.splits sum.splits option.splits if_splits)

text \<open>After a transient error the next attempt that finds a task fails for good: the server marks
  the task as \<open>processing\<close>, and the callback then decodes it into the variable the failed attempt
  cleared.\<close>

theorem find_next_fails_after_transient_error:
  assumes "task_picker pick" "db_ok db" "list_ex (awaits_worker g) db"
  shows "\<exists>e i. i < length db \<and> awaits_worker g (db ! i)
    \<and> find_next_verify_task_and_update pick now g (Transient e' # Reply # as) db
      = (Inl e, db[i := (db ! i)\<lparr>tk_Status := Some Processing, tk_BeginTime := Some now\<rparr>])"
proof -
  from task_picker.find_one_and_update_busy [OF assms(1,3), of now] obtain t db' where
    f: "find_one_and_update pick now g db = (Some t, db')" by blast
  with task_picker.find_one_and_update_takes [OF assms(1,2), where now = now and g = g] show ?thesis
    by (auto simp: find_next_verify_task_and_update_def)
qed

theorem find_next_fails_after_transient_error_witness:
  "\<exists>e db'. find_next_verify_task_and_update pick_by_type 7 1 [Transient NoDocuments, Reply] sample_db = (Inl e, db')"
  using find_next_fails_after_transient_error [OF by_type.task_picker_axioms sample_db_ok(1),
      where now = 7 and g = 1 and as = "[]" and e' = NoDocuments] sample_db_ok(2)
  by (auto simp: sample_db_def)

subsection \<open>Progress updates\<close>

lemma update_verification_task_ok:
  assumes "db_ok db" "i < length db" "tk_PrimaryKey t = tk_PrimaryKey (db ! i)"
  shows "update_verification_task t db = Inr (db[i := set_progress t (db ! i)])"
proof -
  have "tk_PrimaryKey (db ! i) \<in> task_ids db" using assms(2) by (simp add: task_ids_def)
  with update_where_one [OF assms(1,2)] assms(3) show ?thesis
    by (simp add: update_verification_task_def)
qed

section \<open>Properties of the reset\<close>

text \<open>The document tasks an interrupted task had created, which its second run creates again.\<close>

definition created_by :: "task \<Rightarrow> task \<Rightarrow> bool" where
  "created_by t u \<longleftrightarrow> tk_Type u = VerifyDocuments \<and> tk_Status t = Some Processing
     \<and> (tk_Type t = VerifyCollection \<and> tk_Generation t = Some 0
          \<and> qf_Namespace (tk_QueryFilter u) = qf_Namespace (tk_QueryFilter t)
        \<or> tk_Type t = ProcessRecheckQueue \<and> tk_Generation u = tk_Generation t)"

definition reset_one :: "task \<Rightarrow> task" where
  "reset_one t = (if tk_Type t \<noteq> Primary \<and> tk_Status t = Some Processing then default_task_update t else t)"

lemma default_task_update_simps [simp]:
  "tk_PrimaryKey (default_task_update t) = tk_PrimaryKey t" "tk_Type (default_task_update t) = tk_Type t"
  "tk_Status (default_task_update t) = Some Added" "tk_Generation (default_task_update t) = tk_Generation t"
  "tk_QueryFilter (default_task_update t) = tk_QueryFilter t"
  "default_task_update (default_task_update t) = default_task_update t"
  by (simp_all add: default_task_update_def)

definition deleted_with :: "task \<Rightarrow> task \<Rightarrow> bool" where
  "deleted_with t u \<longleftrightarrow> tk_Generation t = Some 0 \<and> tk_Type u = VerifyDocuments
     \<and> qf_Namespace (tk_QueryFilter u) = qf_Namespace (tk_QueryFilter t)"

lemma reset_collection_task_eq:
  "reset_collection_task db t =
     map (\<lambda>u. if tk_PrimaryKey u = tk_PrimaryKey t then default_task_update u else u)
       (filter (\<lambda>u. \<not> deleted_with t u) db)"
  by (auto simp: reset_collection_task_def update_where_def delete_where_def deleted_with_def)

lemma deleted_with_update [simp]:
  "deleted_with t (if b then default_task_update u else u) = deleted_with t u"
  by (simp add: deleted_with_def)

lemma reset_collection_tasks:
  "foldl reset_collection_task db ts =
    map (\<lambda>u. if tk_PrimaryKey u \<in> tk_PrimaryKey ` set ts then default_task_update u else u)
      (filter (\<lambda>u. \<not> (\<exists>t \<in> set ts. deleted_with t u)) db)"
proof (induction ts arbitrary: db)
  case (Cons t ts)
  have "foldl reset_collection_task db (t # ts) =
      map (\<lambda>u. if tk_PrimaryKey u \<in> tk_PrimaryKey ` set ts then default_task_update u else u)
        (filter (\<lambda>u. \<not> (\<exists>t \<in> set ts. deleted_with t u)) (reset_collection_task db t))"
    by (simp add: Cons.IH)
  also have "\<dots> = map (\<lambda>u. if tk_PrimaryKey u \<in> tk_PrimaryKey ` set (t # ts) then default_task_update u else u)
      (filter (\<lambda>u. \<not> (\<exists>t \<in> set (t # ts). deleted_with t u)) db)"
    unfolding reset_collection_task_eq
    by (auto simp: filter_map comp_def intro!: map_cong filter_cong)
  finally show ?case .
qed simp

definition in_progress :: "task_type \<Rightarrow> task \<Rightarrow> bool" where
  "in_progress ty t \<longleftrightarrow> tk_Type t = ty \<and> tk_Status t = Some Processing"

lemma find_in_progress: "find_in_progress_tasks ty db = filter (in_progress ty) db"
  by (simp add: find_in_progress_tasks_def in_progress_def [abs_def])

text \<open>Each stage of the reset drops tasks and starts others over, by their old contents alone.\<close>

definition stage :: "(task \<Rightarrow> bool) \<Rightarrow> (task \<Rightarrow> bool) \<Rightarrow> task_db \<Rightarrow> task_db" where
  "stage gone again db = map (\<lambda>u. if again u then default_task_update u else u) (filter (\<lambda>u. \<not> gone u) db)"

lemma stage_cong:
  "(\<And>u. u \<in> set db \<Longrightarrow> gone u \<longleftrightarrow> gone' u) \<Longrightarrow> (\<And>u. u \<in> set db \<Longrightarrow> \<not> gone u \<Longrightarrow> again u \<longleftrightarrow> again' u)
    \<Longrightarrow> stage gone again db = stage gone' again' db"
  by (auto simp: stage_def intro!: map_cong filter_cong)

lemma stage_stage:
  assumes "\<And>u. gone' (default_task_update u) = gone' u"
  shows "stage gone' again' (stage gone again db) =
    stage (\<lambda>u. gone u \<or> gone' u) (\<lambda>u. again u \<or> again' u) db"
proof -
  have "gone' (if again u then default_task_update u else u) = gone' u" for u
    using assms by simp
  then show ?thesis by (auto simp: stage_def filter_map comp_def intro!: map_cong filter_cong)
qed

lemma pk_in_progress:
  assumes "db_ok db" "u \<in> set db"
  shows "tk_PrimaryKey u \<in> tk_PrimaryKey ` set (filter (in_progress ty) db) \<longleftrightarrow> in_progress ty u"
  using assms(2) db_ok_eq [OF assms(1)] by (auto simp: image_iff)

lemma collection_stage:
  assumes "db_ok db"
  shows "reset_collection_tasks_if_needed db =
    stage (\<lambda>u. \<exists>t \<in> set db. in_progress VerifyCollection t \<and> deleted_with t u) (in_progress VerifyCollection) db"
  unfolding reset_collection_tasks_if_needed_def find_in_progress reset_collection_tasks stage_def [symmetric]
  by (rule stage_cong) (use pk_in_progress [OF assms] in auto)

lemma filter_stage:
  assumes "\<And>u. u \<in> set db \<Longrightarrow> in_progress ty u \<Longrightarrow> \<not> gone u \<and> \<not> again u"
  shows "filter (in_progress ty) (stage gone again db) = filter (in_progress ty) db"
proof -
  have n: "\<not> in_progress ty (default_task_update u)" for u by (simp add: in_progress_def)
  from assms show ?thesis by (induction db) (auto simp: stage_def n)
qed

lemma queue_stage:
  assumes "db_ok db" "length (filter (in_progress ProcessRecheckQueue) db) \<le> 1"
    "\<forall>t \<in> set (filter (in_progress ProcessRecheckQueue) db). tk_Generation t = Some g"
  shows "reset_process_recheck_queue_tasks_if_needed g db =
    Inr (stage (\<lambda>u. \<exists>t \<in> set (filter (in_progress ProcessRecheckQueue) db). tk_Type u = VerifyDocuments
                  \<and> tk_Generation u = tk_Generation t) (in_progress ProcessRecheckQueue) db)"
proof (cases "filter (in_progress ProcessRecheckQueue) db")
  case Nil
  then have "\<not> in_progress ProcessRecheckQueue t" if "t \<in> set db" for t
    using that by (auto simp: filter_empty_conv)
  then have "stage (\<lambda>u. False) (in_progress ProcessRecheckQueue) db = stage (\<lambda>_. False) (\<lambda>_. False) db"
    by (intro stage_cong) auto
  with Nil show ?thesis
    by (simp add: reset_process_recheck_queue_tasks_if_needed_def find_in_progress stage_def)
next
  case (Cons t ts)
  with assms(2) have f: "filter (in_progress ProcessRecheckQueue) db = [t]" by simp
  then have s: "{u \<in> set db. in_progress ProcessRecheckQueue u} = {t}" by (metis list.set(1,2) set_filter)
  then have m: "t \<in> set db" and g: "tk_Generation t = Some g" using assms(3) f by auto
  have "reset_process_recheck_queue_tasks_if_needed g db =
      Inr (stage (\<lambda>u. tk_Generation u = tk_Generation t \<and> tk_Type u = VerifyDocuments)
        (\<lambda>u. tk_PrimaryKey u = tk_PrimaryKey t) db)"
    using g
    by (simp add: reset_process_recheck_queue_tasks_if_needed_def find_in_progress f stage_def update_where_def delete_where_def)
  also have "\<dots> = Inr (stage (\<lambda>u. \<exists>t \<in> set (filter (in_progress ProcessRecheckQueue) db).
      tk_Type u = VerifyDocuments \<and> tk_Generation u = tk_Generation t) (in_progress ProcessRecheckQueue) db)"
    unfolding f using s m db_ok_eq [OF assms(1) _ m] by (intro arg_cong [where f = Inr] stage_cong) auto
  finally show ?thesis .
qed

lemma document_stage:
  "reset_document_tasks_if_needed db = stage (\<lambda>_. False) (in_progress VerifyDocuments) db"
  by (simp add: reset_document_tasks_if_needed_def stage_def update_where_def in_progress_def)

lemma db_ok_stage: "db_ok db \<Longrightarrow> db_ok (stage gone again db)"
  by (auto simp: stage_def db_ok_def comp_def if_distrib [of tk_PrimaryKey] distinct_map_filter cong: if_cong)

text \<open>What a metadata collection looks like when the verifier stopped: primary task done, at most one
  create-rechecks task under way, and that one of the current generation.\<close>

definition stopped_db :: "int \<Rightarrow> task_db \<Rightarrow> bool" where
  "stopped_db g db \<longleftrightarrow> db_ok db
     \<and> list_all (\<lambda>t. tk_Type t = Primary \<longrightarrow> tk_Status t = Some Completed) db
     \<and> length (filter (in_progress ProcessRecheckQueue) db) \<le> 1
     \<and> list_all (\<lambda>t. in_progress ProcessRecheckQueue t \<longrightarrow> tk_Generation t = Some g) db"

lemma reset_in_progress_eq:
  assumes "stopped_db g db"
  shows "reset_in_progress_tasks g db =
    Inr (map reset_one (filter (\<lambda>u. \<not> list_ex (\<lambda>t. created_by t u) db) db))"
proof -
  note a = assms [unfolded stopped_db_def]
  let ?gone = "\<lambda>u. \<exists>t \<in> set db. in_progress VerifyCollection t \<and> deleted_with t u"
  let ?db1 = "stage ?gone (in_progress VerifyCollection) db"
  have p: "filter (\<lambda>t. tk_Type t = Primary \<and> tk_Status t \<noteq> Some Completed) db = []"
    using a by (auto simp: filter_empty_conv list_all_iff)
  have f1: "filter (in_progress ProcessRecheckQueue) ?db1 = filter (in_progress ProcessRecheckQueue) db"
    by (rule filter_stage) (auto simp: in_progress_def deleted_with_def)
  have q: "reset_process_recheck_queue_tasks_if_needed g ?db1 =
    Inr (stage (\<lambda>u. \<exists>t \<in> set (filter (in_progress ProcessRecheckQueue) db). tk_Type u = VerifyDocuments
      \<and> tk_Generation u = tk_Generation t) (in_progress ProcessRecheckQueue) ?db1)"
    by (rule queue_stage [of ?db1 g, unfolded f1]) (use a in \<open>auto intro: db_ok_stage simp: list_all_iff\<close>)
  have any: "tk_Type u \<noteq> Primary \<and> tk_Status u = Some Processing \<longleftrightarrow>
      in_progress VerifyCollection u \<or> in_progress ProcessRecheckQueue u \<or> in_progress VerifyDocuments u" for u
    by (cases "tk_Type u") (simp_all add: in_progress_def)
  have "map reset_one (filter (\<lambda>u. \<not> list_ex (\<lambda>t. created_by t u) db) db) =
      stage (\<lambda>u. list_ex (\<lambda>t. created_by t u) db) (\<lambda>u. tk_Type u \<noteq> Primary \<and> tk_Status u = Some Processing) db"
    by (simp add: stage_def reset_one_def [abs_def])
  also have "\<dots> = stage (\<lambda>u. ?gone u \<or> (\<exists>t \<in> set (filter (in_progress ProcessRecheckQueue) db).
        tk_Type u = VerifyDocuments \<and> tk_Generation u = tk_Generation t))
      (\<lambda>u. in_progress VerifyCollection u \<or> in_progress ProcessRecheckQueue u \<or> in_progress VerifyDocuments u) db"
    unfolding any by (rule stage_cong)
      (auto simp: created_by_def deleted_with_def in_progress_def list_ex_iff)
  finally have r: "map reset_one (filter (\<lambda>u. \<not> list_ex (\<lambda>t. created_by t u) db) db) = \<dots>" .
  show ?thesis
    unfolding reset_in_progress_tasks_def handle_incomplete_primary_def p list.case rbind_simps prod.case if_False
      collection_stage [OF conjunct1 [OF a]] q document_stage r
    by (simp add: stage_stage del: set_filter)
qed

lemma reset_one_simps [simp]:
  "tk_PrimaryKey (reset_one t) = tk_PrimaryKey t" "tk_Type (reset_one t) = tk_Type t"
  "tk_Generation (reset_one t) = tk_Generation t"
  "tk_Type t \<noteq> Primary \<Longrightarrow> tk_Status (reset_one t) \<noteq> Some Processing"
  "reset_one (reset_one t) = reset_one t" "reset_one (default_task_update t) = default_task_update t"
  by (simp_all add: reset_one_def)

text \<open>A partial run of the reset: some of the doomed document tasks are gone, and a task may have been
  started over once all of its document tasks are.\<close>

definition partial_reset :: "task_db \<Rightarrow> (task \<Rightarrow> bool) \<Rightarrow> (task \<Rightarrow> bool) \<Rightarrow> bool" where
  "partial_reset db gone again \<longleftrightarrow>
     list_all (\<lambda>u. gone u \<longrightarrow> list_ex (\<lambda>t. created_by t u) db) db
     \<and> list_all (\<lambda>t. again t \<longrightarrow> tk_Type t \<noteq> Primary \<and> tk_Status t = Some Processing
          \<and> list_all (\<lambda>u. created_by t u \<longrightarrow> gone u) db) db"

lemma in_progress_update [simp]: "\<not> in_progress ty (default_task_update t)"
  by (simp add: in_progress_def)

lemma length_in_progress_stage:
  "length (filter (in_progress ty) (stage gone again db)) \<le> length (filter (in_progress ty) db)"
  by (induction db) (auto simp: stage_def)

lemma stopped_stage:
  assumes "stopped_db g db" "list_all (\<lambda>t. again t \<longrightarrow> tk_Type t \<noteq> Primary) db"
  shows "stopped_db g (stage gone again db)"
proof -
  note a = assms [unfolded stopped_db_def list_all_iff]
  from a length_in_progress_stage [of ProcessRecheckQueue gone again db]
  show ?thesis by (auto simp: stopped_db_def list_all_iff db_ok_stage) (auto simp: stage_def split: if_splits)
qed

lemma created_by_update [simp]:
  "created_by t (default_task_update u) = created_by t u" "\<not> created_by (default_task_update t) u"
  by (simp_all add: created_by_def)

lemma reset_partial:
  assumes "stopped_db g db" "partial_reset db gone again"
  shows "reset_in_progress_tasks g (stage gone again db) = reset_in_progress_tasks g db"
proof -
  note p = assms(2) [unfolded partial_reset_def list_all_iff]
  have s: "stopped_db g (stage gone again db)"
    by (rule stopped_stage [OF assms(1)]) (use p in \<open>simp add: list_all_iff\<close>)
  have doc: "\<not> gone t" if "t \<in> set db" "created_by t u" for t u
    using p that by (fastforce simp: created_by_def list_ex_iff)
  have ex: "list_ex (\<lambda>t. created_by t u) (stage gone again db)
      \<longleftrightarrow> list_ex (\<lambda>t. created_by t u) db" if u: "u \<in> set db" "\<not> gone u" for u
  proof -
    have "(\<exists>t \<in> set (stage gone again db). created_by t u) \<longleftrightarrow> (\<exists>t \<in> set db. \<not> gone t \<and> \<not> again t \<and> created_by t u)"
      by (auto simp: stage_def)
    also have "\<dots> \<longleftrightarrow> (\<exists>t \<in> set db. created_by t u)" using p u doc by blast
    finally show ?thesis by (simp add: list_ex_iff)
  qed
  have "map reset_one (filter (\<lambda>u. \<not> list_ex (\<lambda>t. created_by t u) (stage gone again db)) (stage gone again db))
      = map reset_one (filter (\<lambda>u. \<not> list_ex (\<lambda>t. created_by t u) db) db)"
  proof -
    let ?f = "\<lambda>u. if again u then default_task_update u else u"
    let ?S = "stage gone again db"
    have f: "created_by t (?f u) = created_by t u" for t u by simp
    have "filter (\<lambda>u. \<not> list_ex (\<lambda>t. created_by t u) ?S) ?S =
        map ?f (filter (\<lambda>u. \<not> gone u \<and> \<not> list_ex (\<lambda>t. created_by t u) ?S) db)"
      unfolding stage_def [of gone again db, THEN arg_cong, of "filter _"]
      by (simp only: filter_map comp_def f filter_filter)
    also have "filter (\<lambda>u. \<not> gone u \<and> \<not> list_ex (\<lambda>t. created_by t u) ?S) db =
        filter (\<lambda>u. \<not> list_ex (\<lambda>t. created_by t u) db) db"
      by (rule filter_cong [OF refl]) (use ex p in \<open>metis list_ex_iff\<close>)
    finally show ?thesis using p by (auto simp: reset_one_def)
  qed
  with reset_in_progress_eq [OF assms(1)] reset_in_progress_eq [OF s] show ?thesis by simp
qed


text \<open>When the verifier starts again, the reset drops exactly the document tasks an interrupted
  collection or create-rechecks task had created, makes every interrupted task ready again and keeps
  all others as they were; no task is left under way.\<close>

theorem reset_in_progress_exact:
  assumes "stopped_db g db"
  shows "\<exists>db'. reset_in_progress_tasks g db = Inr db' \<and> db_ok db'
    \<and> db' = map reset_one (filter (\<lambda>u. \<not> list_ex (\<lambda>t. created_by t u) db) db)
    \<and> list_all (\<lambda>t. tk_Type t \<noteq> Primary \<longrightarrow> tk_Status t \<noteq> Some Processing) db'"
proof -
  have "distinct (map tk_PrimaryKey (map reset_one (filter P db)))" for P
    using assms by (simp add: comp_def stopped_db_def db_ok_def distinct_map_filter)
  then show ?thesis
    using reset_in_progress_eq [OF assms] by (auto simp: db_ok_def list_all_iff reset_one_def simp del: map_map)
qed

definition interrupted_db :: task_db where
  "interrupted_db = [sample_task [0] Primary Completed, sample_task [1] ProcessRecheckQueue Processing,
     sample_task [2] VerifyDocuments Processing, sample_task [3] VerifyDocuments Added]"

lemma stopped_interrupted_db: "stopped_db 1 interrupted_db"
  by (simp add: stopped_db_def db_ok_def interrupted_db_def sample_task_def in_progress_def)

theorem reset_in_progress_exact_witness:
  "\<exists>db'. reset_in_progress_tasks 1 interrupted_db = Inr db' \<and> length db' = 2"
  using reset_in_progress_exact [OF stopped_interrupted_db]
  by (simp add: interrupted_db_def sample_task_def created_by_def)



end
