(* ===== verification/Verify_Task.thy ===== *)
theory Verify_Task
  imports Tasks Comparator
begin

text \<open>
  Checking the documents of one task (\<open>ProcessVerifyTask\<close> in
  \<open>internal/verifier/migration_verifier.go\<close>): the comparator's reports are consumed one by one, their
  problems are enqueued for the next generation and recorded as mismatches
  (\<open>internal/verifier/mismatches.go\<close>), and the task is persisted with its outcome. The report channel
  is the list of the results sent before it is closed; the two goroutines that persist a report are
  one step, and cancellation is left out.
\<close>

section \<open>Mismatches\<close>

record mismatch_info =
  mi_TaskID :: bytes
  mi_TaskType :: task_type
  mi_Generation :: int
  mi_Detail :: result

definition convert_int32 :: "int \<Rightarrow> go_error + u32" where
  "convert_int32 i = (if - (2 ^ 31) \<le> i \<and> i < 2 ^ 31 then Inr (word_of_int i)
     else Inl (Panic ''safecast.MustConvert''))"

definition object_id_value :: "bytes \<Rightarrow> raw_value" where
  "object_id_value oid = \<lparr>rv_type = TypeObjectID, rv_value = oid\<rparr>"

text \<open>An ObjectID is an array of 12 bytes in Go.\<close>

definition marshal_mismatch_info :: "mismatch_info \<Rightarrow> go_error + bytes" where
  "marshal_mismatch_info mi = rbind (marshal_result (mi_Detail mi)) (\<lambda>detail.
     rbind (convert_int32 (mi_Generation mi)) (\<lambda>generation.
     let generationBSONLen = length (enc_elem ''generation'' (int32_value 0));
         taskTypeBSONLenBase = length (enc_elem ''taskType'' (string_value []));
         taskIDBSONLen = length (enc_elem ''taskID'' (object_id_value (replicate 12 0)));
         detailBSONLenBase = length (enc_elem ''detail'' (document_value []));
         bsonLen = 4 + generationBSONLen + taskTypeBSONLenBase + length (task_type_name (mi_TaskType mi))
           + taskIDBSONLen + detailBSONLenBase + length detail + 1;
         buf = append32 (word_of_nat bsonLen)
           @ enc_elem ''generation'' (int32_value generation)
           @ enc_elem ''taskType'' (string_value (task_type_name (mi_TaskType mi)))
           @ enc_elem ''taskID'' (object_id_value (mi_TaskID mi))
           @ enc_elem ''detail'' (document_value detail) @ [0]
     in if length buf \<noteq> bsonLen then Inl (Panic ''BSON length is not the expected one'') else Inr buf))"

section \<open>The state a worker changes\<close>

record verifier_state =
  vs_tasks :: task_db
  vs_rechecks :: "bytes list list"
  vs_mismatches :: "bytes list"
  vs_srcLastRecheckedTS :: timestamp
  vs_dstLastRecheckedTS :: timestamp

record verifier_env =
  ve_generation :: int
  ve_lastGeneration :: bool
  ve_rand :: "nat \<Rightarrow> u32"

definition note_compare_of_optime :: "whichCluster \<Rightarrow> timestamp \<Rightarrow> verifier_state \<Rightarrow> verifier_state" where
  "note_compare_of_optime cluster optime st =
     (let newer = (\<lambda>t. if ts_after optime t then optime else t)
      in case cluster of
           Src \<Rightarrow> st\<lparr>vs_srcLastRecheckedTS := newer (vs_srcLastRecheckedTS st)\<rparr>
         | Dst \<Rightarrow> st\<lparr>vs_dstLastRecheckedTS := newer (vs_dstLastRecheckedTS st)\<rparr>)"

section \<open>Persisting the problems of a report\<close>

definition insert_failed_compare_recheck_docs :: "(nat \<Rightarrow> u32) \<Rightarrow> task \<Rightarrow> raw_value list \<Rightarrow> u32 list \<Rightarrow> u64 list
     \<Rightarrow> go_error + bytes list list" where
  "insert_failed_compare_recheck_docs rnd t documentIDs dataSizes mismatchTimes =
     (if mismatchTimes = [] then Inl (Panic ''mismatch recheck must have first-mismatch times!'')
      else case split_namespace (qf_Namespace (tk_QueryFilter t)) of
        (dbName, collName) \<Rightarrow>
          insert_recheck_docs rnd
            (map (\<lambda>(docID, size, time). \<lparr>ri_db = dbName, ri_coll = collName, ri_docID = docID,
                    ri_dataSize = size, ri_firstMismatch = Some time, ri_opTime = None\<rparr>)
              (zip documentIDs (zip dataSizes mismatchTimes)))
            True False None)"

definition record_mismatches :: "task \<Rightarrow> result list \<Rightarrow> go_error + bytes list" where
  "record_mismatches t probs = map_results (\<lambda>r. marshal_mismatch_info
     \<lparr>mi_TaskID = tk_PrimaryKey t, mi_TaskType = tk_Type t,
      mi_Generation = (case tk_Generation t of None \<Rightarrow> 0 | Some g \<Rightarrow> g), mi_Detail = r\<rparr>) probs"

definition persist_problems :: "verifier_env \<Rightarrow> task \<Rightarrow> result list \<Rightarrow> verifier_state \<Rightarrow> go_error + verifier_state" where
  "persist_problems env t probs st =
     rbind (if \<not> ve_lastGeneration env
            then insert_failed_compare_recheck_docs (ve_rand env) t (map res_ID probs)
                   (map res_DataSize probs) (map (\<lambda>r. First (res_MismatchHistory r)) probs)
            else Inr []) (\<lambda>batches.
     rbind (record_mismatches t probs) (\<lambda>mismatches.
       Inr (st\<lparr>vs_rechecks := vs_rechecks st @ batches, vs_mismatches := vs_mismatches st @ mismatches\<rparr>)))"

section \<open>The task\<close>

record task_totals =
  tt_problemsCount :: nat
  tt_docsCount :: u64
  tt_bytesCount :: u64

fun consume_reports :: "verifier_env \<Rightarrow> task \<Rightarrow> (go_error + doc_compare_report) list \<Rightarrow> task_totals
     \<Rightarrow> verifier_state \<Rightarrow> verifier_state \<times> (go_error + task_totals)" where
  "consume_reports env t [] totals st =
     (st, if tt_problemsCount totals > 0 then Inr totals
          else Inl (Panic ''should only see channel closed if there were problems''))"
| "consume_reports env t (Inl e # results) totals st = (st, Inl e)"
| "consume_reports env t (Inr report # results) totals st =
     (let totals' = totals\<lparr>tt_docsCount := tt_docsCount totals + rep_DocCount report,
                           tt_bytesCount := tt_bytesCount totals + rep_ByteCount report\<rparr>
      in if length (rep_Problems report) = 0 then (st, Inr totals')
         else case persist_problems env t (rep_Problems report) st of
                Inl e \<Rightarrow> (st, Inl e)
              | Inr st' \<Rightarrow> consume_reports env t results
                  (totals'\<lparr>tt_problemsCount := tt_problemsCount totals' + length (rep_Problems report)\<rparr>) st')"

definition process_verify_task :: "verifier_env \<Rightarrow> task \<Rightarrow> (go_error + doc_compare_report) list \<Rightarrow> verifier_state
     \<Rightarrow> verifier_state \<times> (go_error + task)" where
  "process_verify_task env t results st =
     (case consume_reports env t results \<lparr>tt_problemsCount = 0, tt_docsCount = 0, tt_bytesCount = 0\<rparr> st of
        (st1, Inl e) \<Rightarrow> (st1, Inl e)
      | (st1, Inr totals) \<Rightarrow>
          (let t' = t\<lparr>tk_Status := Some (if tt_problemsCount totals = 0 then Completed else Failed),
                      tk_FoundSourceDocumentsCount := tt_docsCount totals,
                      tk_SourceBytesCount := tt_bytesCount totals\<rparr>
           in case update_verification_task t' (vs_tasks st1) of
                Inl e \<Rightarrow> (st1, Inl e)
              | Inr db \<Rightarrow>
                  (let st2 = st1\<lparr>vs_tasks := db\<rparr>;
                       st3 = (case tk_SrcTimestamp t' of None \<Rightarrow> st2 | Some ts \<Rightarrow> note_compare_of_optime Src ts st2);
                       st4 = (case tk_DstTimestamp t' of None \<Rightarrow> st3 | Some ts \<Rightarrow> note_compare_of_optime Dst ts st3)
                   in (st4, Inr t'))))"

section \<open>What is persisted\<close>

definition mismatch_fields :: "task \<Rightarrow> result \<Rightarrow> (string \<times> raw_value) list" where
  "mismatch_fields t r =
     [(''generation'', int32_value (word_of_int (case tk_Generation t of None \<Rightarrow> 0 | Some g \<Rightarrow> g))),
      (''taskType'', string_value (task_type_name (tk_Type t))),
      (''taskID'', object_id_value (tk_PrimaryKey t)),
      (''detail'', document_value (enc_doc (result_fields r (enc_doc (history_fields (res_MismatchHistory r))))))]"

text \<open>A task that was read from the collection has a 12-byte id and an int32 generation.\<close>

definition stored_task :: "task \<Rightarrow> bool" where
  "stored_task t \<longleftrightarrow> length (tk_PrimaryKey t) = 12
     \<and> (case tk_Generation t of None \<Rightarrow> True | Some g \<Rightarrow> - (2 ^ 31) \<le> g \<and> g < 2 ^ 31)"

lemma marshal_mismatch_info_eq:
  assumes "length oid = 12" "- (2 ^ 31) \<le> g" "g < 2 ^ 31"
  shows "marshal_mismatch_info \<lparr>mi_TaskID = oid, mi_TaskType = ty, mi_Generation = g, mi_Detail = r\<rparr> =
    Inr (enc_doc [(''generation'', int32_value (word_of_int g)), (''taskType'', string_value (task_type_name ty)),
      (''taskID'', object_id_value oid),
      (''detail'', document_value (enc_doc (result_fields r (enc_doc (history_fields (res_MismatchHistory r))))))])"
    (is "_ = Inr (enc_doc ?f)")
proof -
  have "length (enc_doc ?f) = 4 + length (enc_elem ''generation'' (int32_value 0))
    + length (enc_elem ''taskType'' (string_value [])) + length (task_type_name ty)
    + length (enc_elem ''taskID'' (object_id_value (replicate 12 0))) + length (enc_elem ''detail'' (document_value []))
    + length (enc_doc (result_fields r (enc_doc (history_fields (res_MismatchHistory r))))) + 1"
    using assms(1)
    by (simp add: length_enc_doc length_enc_elem int32_value_def string_value_def document_value_def object_id_value_def)
  note L = this [symmetric]
  have "enc_doc ?f = append32 (word_of_nat (length (enc_doc ?f))) @ concat (map (\<lambda>(k, v). enc_elem k v) ?f) @ [0]"
    by (simp only: length_enc_doc length_concat_enc) (simp only: enc_doc_def Let_def length_concat_enc)
  then have e: "append32 (word_of_nat (length (enc_doc ?f))) @ enc_elem ''generation'' (int32_value (word_of_int g))
      @ enc_elem ''taskType'' (string_value (task_type_name ty)) @ enc_elem ''taskID'' (object_id_value oid)
      @ enc_elem ''detail'' (document_value (enc_doc (result_fields r (enc_doc (history_fields (res_MismatchHistory r))))))
      @ [0] = enc_doc ?f" by simp
  show ?thesis
    unfolding marshal_mismatch_info_def marshal_result_eq rbind_simps Let_def mismatch_info.simps convert_int32_def L
    using assms(2,3) by (simp only: if_True if_False conj_absorb simp_thms rbind_simps e)
qed

lemma record_mismatches_ok:
  assumes "stored_task t"
  shows "record_mismatches t rs = Inr (map (\<lambda>r. enc_doc (mismatch_fields t r)) rs)"
  unfolding record_mismatches_def
proof (rule map_results_map)
  fix r
  show "marshal_mismatch_info \<lparr>mi_TaskID = tk_PrimaryKey t, mi_TaskType = tk_Type t,
      mi_Generation = (case tk_Generation t of None \<Rightarrow> 0 | Some g \<Rightarrow> g), mi_Detail = r\<rparr> = Inr (enc_doc (mismatch_fields t r))"
    using assms marshal_mismatch_info_eq [of "tk_PrimaryKey t" "case tk_Generation t of None \<Rightarrow> 0 | Some g \<Rightarrow> g" "tk_Type t" r]
    by (simp add: stored_task_def mismatch_fields_def split: option.splits)
qed

text \<open>The recheck a problem leads to, as a stored document.\<close>

definition enqueued_for :: "task \<Rightarrow> result \<Rightarrow> bytes \<Rightarrow> bool" where
  "enqueued_for t r raw \<longleftrightarrow> (\<exists>rand. marshal_doc
     \<lparr>PrimaryKey = \<lparr>SrcDatabaseName = fst (split_namespace (qf_Namespace (tk_QueryFilter t))),
        SrcCollectionName = snd (split_namespace (qf_Namespace (tk_QueryFilter t))),
        DocumentID = res_ID r, Rand = rand\<rparr>,
      DataSize = res_DataSize r, ChangeOpTime = None, FromDst = False,
      FirstMismatchTime = Some (First (res_MismatchHistory r))\<rparr> = Inr raw)"

lemma marshal_rechecks_each:
  assumes "\<forall>x \<in> set xs. is_ok (marshal_doc (recheck_of origin 0 x))"
  shows "\<exists>raws. marshal_rechecks origin rnd i xs = Inr raws
    \<and> list_all2 (\<lambda>x raw. \<exists>rand. marshal_doc (recheck_of origin rand x) = Inr raw) xs raws"
  using assms
proof (induction xs arbitrary: i)
  case (Cons x xs)
  from Cons.IH [of "Suc i"] Cons.prems obtain raws where r: "marshal_rechecks origin rnd (Suc i) xs = Inr raws"
    "list_all2 (\<lambda>x raw. \<exists>rand. marshal_doc (recheck_of origin rand x) = Inr raw) xs raws" by auto
  have "is_ok (marshal_doc (recheck_of origin 0 x)) \<longleftrightarrow> is_ok (marshal_doc (recheck_of origin (rnd i) x))"
    by (simp add: marshal_doc_eq recheck_of_def)
  with Cons.prems obtain raw where "marshal_doc (recheck_of origin (rnd i) x) = Inr raw"
    by (cases "marshal_doc (recheck_of origin (rnd i) x)") auto
  with r show ?case by auto
qed simp

lemma insert_failed_ok:
  assumes "rs \<noteq> []"
  shows "\<exists>bs. insert_failed_compare_recheck_docs rnd t (map res_ID rs) (map res_DataSize rs)
      (map (\<lambda>r. First (res_MismatchHistory r)) rs) = Inr bs
    \<and> list_all2 (enqueued_for t) rs (concat bs)"
proof -
  obtain db coll where ns: "split_namespace (qf_Namespace (tk_QueryFilter t)) = (db, coll)" by force
  define xs where "xs = map (\<lambda>r. \<lparr>ri_db = db, ri_coll = coll, ri_docID = res_ID r, ri_dataSize = res_DataSize r,
    ri_firstMismatch = Some (First (res_MismatchHistory r)), ri_opTime = None\<rparr>) rs"
  have z: "map (\<lambda>(docID, size, time). \<lparr>ri_db = db, ri_coll = coll, ri_docID = docID, ri_dataSize = size,
      ri_firstMismatch = Some time, ri_opTime = None\<rparr>)
      (zip (map res_ID rs) (zip (map res_DataSize rs) (map (\<lambda>r. First (res_MismatchHistory r)) rs))) = xs"
    unfolding xs_def by (induction rs) simp_all
  have "\<forall>x \<in> set xs. is_ok (marshal_doc (recheck_of None 0 x))"
    by (simp add: xs_def marshal_doc_eq recheck_of_def)
  from marshal_rechecks_each [OF this, of rnd 0] obtain raws where
    r: "marshal_rechecks None rnd 0 xs = Inr raws"
      "list_all2 (\<lambda>x raw. \<exists>rand. marshal_doc (recheck_of None rand x) = Inr raw) xs raws" by blast
  have "list_all2 (enqueued_for t) rs raws"
    using r(2) unfolding xs_def
    by (simp add: list_all2_map1) (erule list_all2_mono, simp add: enqueued_for_def recheck_of_def ns)
  then show ?thesis
    using assms z r(1) batch_rechecks_ok [of raws]
    by (simp add: insert_failed_compare_recheck_docs_def ns insert_recheck_docs_def)
qed

definition persisted :: "verifier_env \<Rightarrow> task \<Rightarrow> result list \<Rightarrow> verifier_state \<Rightarrow> verifier_state \<Rightarrow> bool" where
  "persisted env t rs st st' \<longleftrightarrow> (\<exists>bs. st' = st\<lparr>vs_rechecks := vs_rechecks st @ bs,
       vs_mismatches := vs_mismatches st @ map (\<lambda>r. enc_doc (mismatch_fields t r)) rs\<rparr>
     \<and> (if ve_lastGeneration env then bs = [] else list_all2 (enqueued_for t) rs (concat bs)))"

lemma persist_problems_ok:
  assumes "stored_task t" "rs \<noteq> []"
  shows "\<exists>st'. persist_problems env t rs st = Inr st' \<and> persisted env t rs st st'"
  using insert_failed_ok [OF assms(2), of "ve_rand env" t] record_mismatches_ok [OF assms(1), of rs]
  by (auto simp: persist_problems_def persisted_def rbind_eq_Inr)

lemma persisted_trans:
  assumes "persisted env t rs st st'" "persisted env t rs' st' st''"
  shows "persisted env t (rs @ rs') st st''"
proof -
  from assms(1) obtain bs where b: "st' = st\<lparr>vs_rechecks := vs_rechecks st @ bs,
       vs_mismatches := vs_mismatches st @ map (\<lambda>r. enc_doc (mismatch_fields t r)) rs\<rparr>"
     "if ve_lastGeneration env then bs = [] else list_all2 (enqueued_for t) rs (concat bs)"
    unfolding persisted_def by blast
  from assms(2) obtain bs' where b': "st'' = st'\<lparr>vs_rechecks := vs_rechecks st' @ bs',
       vs_mismatches := vs_mismatches st' @ map (\<lambda>r. enc_doc (mismatch_fields t r)) rs'\<rparr>"
     "if ve_lastGeneration env then bs' = [] else list_all2 (enqueued_for t) rs' (concat bs')"
    unfolding persisted_def by blast
  show ?thesis unfolding persisted_def
    by (rule exI [of _ "bs @ bs'"]) (use b b' in \<open>auto intro: list_all2_appendI split: if_splits\<close>)
qed

lemma persisted_refl: "persisted env t [] st st"
  by (auto simp: persisted_def intro!: exI [of _ "[]"])

text \<open>The reports of a run: all but the last one hold problems.\<close>

lemma consume_reports_ok:
  assumes "stored_task t" "rs \<noteq> []" "list_all (\<lambda>r. rep_Problems r \<noteq> []) (butlast rs)"
  shows "\<exists>st' totals'. consume_reports env t (map Inr rs) totals st = (st', Inr totals')
    \<and> persisted env t (concat (map rep_Problems rs)) st st'
    \<and> tt_problemsCount totals' = tt_problemsCount totals + length (concat (map rep_Problems rs))
    \<and> tt_docsCount totals' = tt_docsCount totals + sum_list (map rep_DocCount rs)
    \<and> tt_bytesCount totals' = tt_bytesCount totals + sum_list (map rep_ByteCount rs)"
  using assms(2,3)
proof (induction rs arbitrary: totals st)
  case (Cons r rs)
  let ?t1 = "totals\<lparr>tt_docsCount := tt_docsCount totals + rep_DocCount r, tt_bytesCount := tt_bytesCount totals + rep_ByteCount r\<rparr>"
  show ?case
  proof (cases "rep_Problems r = []")
    case True
    with Cons.prems have "rs = []" by (cases rs) auto
    with True show ?thesis by (simp add: Let_def persisted_refl)
  next
    case False
    let ?t2 = "?t1\<lparr>tt_problemsCount := tt_problemsCount ?t1 + length (rep_Problems r)\<rparr>"
    from persist_problems_ok [OF assms(1) False] obtain st1 where
      p: "persist_problems env t (rep_Problems r) st = Inr st1" "persisted env t (rep_Problems r) st st1" by blast
    show ?thesis
    proof (cases "rs = []")
      case True
      with False p show ?thesis by (simp add: Let_def)
    next
      case rs: False
      with Cons.prems have "list_all (\<lambda>r. rep_Problems r \<noteq> []) (butlast rs)" by simp
      from Cons.IH [OF rs this, of ?t2 st1] False p show ?thesis
        by (auto simp: Let_def add.assoc intro: persisted_trans)
    qed
  qed
qed simp

section \<open>The outcome of a task\<close>

lemma note_compare_tasks [simp]:
  "vs_tasks (note_compare_of_optime cl ts st) = vs_tasks st"
  "vs_rechecks (note_compare_of_optime cl ts st) = vs_rechecks st"
  "vs_mismatches (note_compare_of_optime cl ts st) = vs_mismatches st"
  by (cases cl; simp add: note_compare_of_optime_def Let_def)+

lemma consume_reports_tasks: "vs_tasks (fst (consume_reports env t rs totals st)) = vs_tasks st"
  by (induction env t rs totals st rule: consume_reports.induct)
    (auto simp: Let_def persist_problems_def rbind_eq_Inr split: sum.splits)

lemma process_verify_task_ok:
  assumes "stored_task t" "db_ok (vs_tasks st)" "i < length (vs_tasks st)" "vs_tasks st ! i = t"
    and rs: "rs \<noteq> []" "list_all (\<lambda>r. rep_Problems r \<noteq> []) (butlast rs)"
  defines "probs \<equiv> concat (map rep_Problems rs)"
  shows "\<exists>st1 st' t'. process_verify_task env t (map Inr rs) st = (st', Inr t')
    \<and> t' = t\<lparr>tk_Status := Some (if probs = [] then Completed else Failed),
            tk_FoundSourceDocumentsCount := sum_list (map rep_DocCount rs),
            tk_SourceBytesCount := sum_list (map rep_ByteCount rs)\<rparr>
    \<and> persisted env t probs st st1 \<and> vs_tasks st' = (vs_tasks st)[i := t']
    \<and> vs_rechecks st' = vs_rechecks st1 \<and> vs_mismatches st' = vs_mismatches st1"
proof -
  let ?z = "\<lparr>tt_problemsCount = 0, tt_docsCount = 0, tt_bytesCount = 0\<rparr>"
  from consume_reports_ok [OF assms(1) rs, of env ?z st] obtain st1 totals where
    c: "consume_reports env t (map Inr rs) ?z st = (st1, Inr totals)" "persisted env t probs st st1"
      "tt_problemsCount totals = length probs" "tt_docsCount totals = sum_list (map rep_DocCount rs)"
      "tt_bytesCount totals = sum_list (map rep_ByteCount rs)"
    unfolding probs_def by auto
  have v: "vs_tasks st1 = vs_tasks st"
    using consume_reports_tasks [of env t "map Inr rs" ?z st] c(1) by simp
  let ?t' = "t\<lparr>tk_Status := Some (if probs = [] then Completed else Failed),
     tk_FoundSourceDocumentsCount := sum_list (map rep_DocCount rs), tk_SourceBytesCount := sum_list (map rep_ByteCount rs)\<rparr>"
  have u: "update_verification_task ?t' (vs_tasks st1) = Inr ((vs_tasks st)[i := ?t'])"
    using update_verification_task_ok [OF assms(2,3), of ?t'] assms(4) by (simp add: v set_progress_def)
  show ?thesis
    by (rule exI [of _ st1]) (use c u in \<open>auto simp: process_verify_task_def Let_def split: option.splits\<close>)
qed

text \<open>C8: Checking a task whose readers behave ends with its outcome persisted: \<open>completed\<close> exactly when
  the comparator found no problem, else \<open>failed\<close>, with the number of source documents and their
  bytes. Every problem found is recorded as a mismatch and, unless this is the last generation, has
  a recheck of its document enqueued, in order; no other task changes.\<close>

theorem verify_task_outcome:
  assumes "readers_ok cenv srcs dsts"
    and "stored_task t" "db_ok (vs_tasks st)" "i < length (vs_tasks st)" "vs_tasks st ! i = t"
  shows "\<exists>c st' t'. run cenv srcs dsts = Inr c
    \<and> process_verify_task env t (map Inr (reports c)) st = (st', Inr t')
    \<and> (let probs = concat (map rep_Problems (reports c)) in
         tk_Status t' = Some (if probs = [] then Completed else Failed)
       \<and> vs_mismatches st' = vs_mismatches st @ map (\<lambda>r. enc_doc (mismatch_fields t r)) probs
       \<and> (\<exists>batches. vs_rechecks st' = vs_rechecks st @ batches
            \<and> (if ve_lastGeneration env then batches = [] else list_all2 (enqueued_for t) probs (concat batches)))
       \<and> (no_done dsts \<longrightarrow> mset probs = expected_problems cenv (docs_of srcs) (docs_of dsts)))
    \<and> tk_FoundSourceDocumentsCount t' = word_of_nat (length (docs_of srcs))
    \<and> tk_SourceBytesCount t' = docs_bytes cenv (docs_of srcs)
    \<and> vs_tasks st' = (vs_tasks st)[i := t']"
proof -
  from run_epochs [OF assms(1)] obtain c rs epochs where
    r: "run cenv srcs dsts = Inr c" "reports c = rs" "no_done dsts \<longrightarrow> length rs = 1"
      "concat (map fst epochs) = docs_of srcs" "concat (map snd epochs) = docs_of dsts" "epochs_reported cenv epochs rs"
      "rs \<noteq> []" "\<forall>r \<in> set (butlast rs). rep_Problems r \<noteq> []"
      "(\<Sum>r \<leftarrow> rs. rep_DocCount r) = word_of_nat (length (docs_of srcs))"
      "(\<Sum>r \<leftarrow> rs. rep_ByteCount r) = docs_bytes cenv (docs_of srcs)"
    by (auto simp: run_result_def new_comparator_def)
  have one: "mset (concat (map rep_Problems rs)) = expected_problems cenv (docs_of srcs) (docs_of dsts)" if "no_done dsts"
  proof -
    from r(3) that obtain r where "rs = [r]" by (auto simp: length_Suc_conv)
    with r(4-6) show ?thesis by (auto simp: epochs_reported_def list_all2_Cons2)
  qed
  from r(8) have "list_all (\<lambda>r. rep_Problems r \<noteq> []) (butlast rs)" by (simp add: list_all_iff)
  from process_verify_task_ok [OF assms(2-5) r(7) this, of env] obtain st1 st' t' where
    p: "process_verify_task env t (map Inr rs) st = (st', Inr t')"
      "t' = t\<lparr>tk_Status := Some (if concat (map rep_Problems rs) = [] then Completed else Failed),
            tk_FoundSourceDocumentsCount := sum_list (map rep_DocCount rs),
            tk_SourceBytesCount := sum_list (map rep_ByteCount rs)\<rparr>"
      "persisted env t (concat (map rep_Problems rs)) st st1" "vs_tasks st' = (vs_tasks st)[i := t']"
      "vs_rechecks st' = vs_rechecks st1" "vs_mismatches st' = vs_mismatches st1" by blast
  from p(3) obtain bs where "vs_rechecks st1 = vs_rechecks st @ bs"
    "vs_mismatches st1 = vs_mismatches st @ map (\<lambda>r. enc_doc (mismatch_fields t r)) (concat (map rep_Problems rs))"
    "if ve_lastGeneration env then bs = [] else list_all2 (enqueued_for t) (concat (map rep_Problems rs)) (concat bs)"
    unfolding persisted_def by auto
  with p r one show ?thesis
    unfolding Let_def by (intro exI [of _ c] exI [of _ st'] exI [of _ t']) (simp add: exI [of _ bs])
qed

definition example_task :: task where
  "example_task = zero_task\<lparr>tk_PrimaryKey := replicate 12 7, tk_Type := VerifyDocuments,
     tk_Status := Some Processing, tk_Generation := Some 0,
     tk_QueryFilter := \<lparr>qf_Partition = None, qf_ShardKeys = [], qf_Namespace = ''db.c'', qf_To = ''db.c''\<rparr>\<rparr>"

definition example_state :: verifier_state where
  "example_state = \<lparr>vs_tasks = [example_task], vs_rechecks = [], vs_mismatches = [],
     vs_srcLastRecheckedTS = ts_zero, vs_dstLastRecheckedTS = ts_zero\<rparr>"

definition example_verifier :: verifier_env where
  "example_verifier = \<lparr>ve_generation = 0, ve_lastGeneration = False, ve_rand = (\<lambda>_. 0)\<rparr>"

lemma example_task_stored: "stored_task example_task" "db_ok (vs_tasks example_state)"
  "0 < length (vs_tasks example_state)" "vs_tasks example_state ! 0 = example_task"
  by (simp_all add: stored_task_def example_task_def example_state_def db_ok_def)

theorem verify_task_outcome_witness:
  "\<exists>c st' t'. run example_env [docs_msg [pooled doc_2], docs_msg [pooled doc_ab]] [docs_msg [pooled doc_ba]] = Inr c
    \<and> process_verify_task example_verifier example_task (map Inr (reports c)) example_state = (st', Inr t')
    \<and> tk_FoundSourceDocumentsCount t' = 2 \<and> vs_tasks st' = [t']"
proof -
  have l: "length (docs_of [docs_msg [pooled doc_2], docs_msg [pooled doc_ab]]) = 2" by (simp add: docs_msg_def)
  from verify_task_outcome [OF example_readers(1) example_task_stored, of example_verifier] show ?thesis
    unfolding l by (auto simp: example_state_def)
qed

section \<open>A report without problems\<close>

lemma process_empty_report:
  assumes "db_ok (vs_tasks st)" "i < length (vs_tasks st)" "vs_tasks st ! i = t" "rep_Problems r = []"
  shows "\<exists>st' t'. process_verify_task env t (Inr r # results) st = (st', Inr t')
    \<and> tk_Status t' = Some Completed \<and> vs_rechecks st' = vs_rechecks st \<and> vs_mismatches st' = vs_mismatches st"
  using update_verification_task_ok [OF assms(1,2)] assms(3,4)
  by (auto simp: process_verify_task_def Let_def split: option.splits)

lemma flush_empty_report:
  assumes "srcCache c = []" "dstCache c = []" "problems c = []" "comparatorMaxVariableBytes \<le> cachedVariableBytes c"
    "env_cacheOrder cenv [] = []"
  shows "\<exists>c' r. flush_if_needed cenv c = Inr c' \<and> reports c' = reports c @ [r] \<and> rep_Problems r = []"
  using assms
  by (simp add: flush_if_needed_def why_flush_def flush_def sweep_missing_docs_def publish_history_counts_def
      count_unpaired_docs_def comparatorMaxProblemsLen_def)

text \<open>Bytes that duplicate keys leave in the comparator's account can make it flush while it holds
  neither documents nor problems. The report it then sends has no problem, and the first such report
  ends the task: what the comparator reports afterwards is not looked at, and the task counts as
  \<open>completed\<close>.\<close>

theorem stale_bytes_end_task:
  assumes "srcCache c = []" "dstCache c = []" "problems c = []" "comparatorMaxVariableBytes \<le> cachedVariableBytes c"
    and "env_cacheOrder cenv [] = []"
    and "db_ok (vs_tasks st)" "i < length (vs_tasks st)" "vs_tasks st ! i = t"
  shows "\<exists>c' r. flush_if_needed cenv c = Inr c' \<and> reports c' = reports c @ [r] \<and> rep_Problems r = []
    \<and> (\<exists>st' t'. process_verify_task env t (Inr r # results) st = (st', Inr t') \<and> tk_Status t' = Some Completed
         \<and> vs_rechecks st' = vs_rechecks st \<and> vs_mismatches st' = vs_mismatches st)"
proof -
  from flush_empty_report [OF assms(1-5)] obtain c' r where
    c: "flush_if_needed cenv c = Inr c'" "reports c' = reports c @ [r]" "rep_Problems r = []" by blast
  from process_empty_report [OF assms(6-8) c(3), of env results] c show ?thesis by blast
qed

theorem stale_bytes_end_task_witness:
  "\<exists>r st' t'. rep_Problems r = []
    \<and> process_verify_task example_verifier example_task [Inr r, Inl NoDocuments] example_state = (st', Inr t')
    \<and> tk_Status t' = Some Completed"
proof -
  have c: "env_cacheOrder example_env [] = []" by (simp add: example_env_def)
  from stale_bytes_end_task [of "new_comparator\<lparr>cachedVariableBytes := comparatorMaxVariableBytes\<rparr>" example_env,
      OF _ _ _ _ c example_task_stored(2-4), of example_verifier "[Inl NoDocuments]"]
  show ?thesis by (simp add: new_comparator_def) blast
qed

end
