(* ===== verification/Generations.thy ===== *)
theory Generations
  imports Tasks
begin

text \<open>
  The whole verification as a state machine (\<open>CheckDriver\<close>, \<open>CheckWorker\<close> and \<open>processAnyTask\<close> in
  \<open>internal/verifier/check.go\<close>, \<open>WritesOff\<close> in \<open>migration_verifier.go\<close>, \<open>generation.go\<close>): both
  clusters, the change readers, the workers, the recheck queues and the generations. A document is
  named by its namespace and \<open>_id\<close>; a task by the documents it covers. What the components do to
  bytes is the subject of the other theories; here each of their results is one atomic step:
  \<open>insertRecheckDocs\<close> holds the read lock while the generation is used, and the driver holds the
  write lock from the end of one generation to the persisted start of the next.

  The clusters are outside. Reads made in a generation see every write made before it; a write made
  during it may or may not be seen. The field \<open>written\<close> records the latter; no step looks at it but
  the reads.
\<close>

section \<open>State\<close>

type_synonym 'i key = "string \<times> 'i"

record 'i vtask =
  vt_Type :: task_type
  vt_Status :: task_status
  vt_Generation :: int
  vt_Namespace :: string
  vt_Keys :: "'i key set"

record ('i, 'v) verifier_sys =
  generation :: int
  lastGeneration :: bool
  writesOff :: bool
  readersTold :: bool
  changeHandlingDone :: bool
  working :: bool
  finished :: bool
  persistedGeneration :: "int option"
  recheckQueues :: "int \<Rightarrow> 'i key set"
  vtasks :: "'i vtask list"
  srcDocs :: "'i key \<Rightarrow> 'v option"
  dstDocs :: "'i key \<Rightarrow> 'v option"
  srcChanges :: "'i key list"
  dstChanges :: "'i key list"
  srcHandled :: nat
  dstHandled :: nat
  mismatched :: "'i key set"
  written :: "'i key set"

text \<open>
  \<open>srcChanges\<close> are the changes after the persisted resume token, of which the first \<open>srcHandled\<close> have
  been handled; a restarted reader reads all of them again.
\<close>

definition unfinished :: "'i vtask \<Rightarrow> bool" where
  "unfinished t \<longleftrightarrow> vt_Status t = Added \<or> vt_Status t = Processing"

definition is_current :: "('i, 'v) verifier_sys \<Rightarrow> 'i vtask \<Rightarrow> bool" where
  "is_current s t \<longleftrightarrow> vt_Generation t = generation s"

section \<open>Operations\<close>

text \<open>Rechecks are enqueued for the generation after the current one.\<close>

definition enqueue_rechecks :: "'i key set \<Rightarrow> ('i, 'v) verifier_sys \<Rightarrow> ('i, 'v) verifier_sys" where
  "enqueue_rechecks ks s = s\<lparr>recheckQueues := (recheckQueues s)
     (generation s + 1 := recheckQueues s (generation s + 1) \<union> ks)\<rparr>"

text \<open>Whether the two clusters' times could be fetched; the flag stays set when they could not.\<close>

definition writes_off :: "go_error option \<Rightarrow> ('i, 'v) verifier_sys \<Rightarrow> go_error option \<times> ('i, 'v) verifier_sys" where
  "writes_off clusterTimeErr s =
     (if writesOff s then (Some (Err ''writesOff already set''), s)
      else case clusterTimeErr of
             Some e \<Rightarrow> (Some e, s\<lparr>writesOff := True\<rparr>)
           | None \<Rightarrow> (None, s\<lparr>writesOff := True, readersTold := True\<rparr>))"

definition generation_is_done :: "('i, 'v) verifier_sys \<Rightarrow> bool" where
  "generation_is_done s \<longleftrightarrow>
     \<not> list_ex (\<lambda>t. vt_Type t \<noteq> Primary \<and> is_current s t \<and> unfinished t) (vtasks s)"

definition restart_if_interrupted :: "'i vtask \<Rightarrow> 'i vtask" where
  "restart_if_interrupted t = (if vt_Status t = Processing then t\<lparr>vt_Status := Added\<rparr> else t)"

definition ensure_create_recheck_task :: "int \<Rightarrow> 'i key set \<Rightarrow> 'i vtask list \<Rightarrow> 'i vtask list" where
  "ensure_create_recheck_task newGeneration queue ts =
     (if queue = {} then ts
      else if list_ex (\<lambda>t. vt_Generation t = newGeneration \<and> vt_Type t = ProcessRecheckQueue) ts
      then map (\<lambda>t. if vt_Generation t = newGeneration \<and> vt_Type t = ProcessRecheckQueue
                    then restart_if_interrupted t else t) ts
      else ts @ [\<lparr>vt_Type = ProcessRecheckQueue, vt_Status = Added, vt_Generation = newGeneration,
                  vt_Namespace = [], vt_Keys = {}\<rparr>])"

text \<open>The driver between two generations, from the lock to the unlock after the generation is persisted.\<close>

definition next_generation :: "('i, 'v) verifier_sys \<Rightarrow> ('i, 'v) verifier_sys" where
  "next_generation s =
     (let g = generation s + 1
      in s\<lparr>lastGeneration := writesOff s, generation := g,
           vtasks := ensure_create_recheck_task g (recheckQueues s g) (vtasks s),
           persistedGeneration := Some g, working := True, mismatched := {}, written := {}\<rparr>)"

definition created_by_task :: "'i vtask \<Rightarrow> 'i vtask \<Rightarrow> bool" where
  "created_by_task t u \<longleftrightarrow> vt_Type u = VerifyDocuments \<and> vt_Status t = Processing
     \<and> (vt_Type t = VerifyCollection \<and> vt_Generation t = 0 \<and> vt_Namespace u = vt_Namespace t
        \<or> vt_Type t = ProcessRecheckQueue \<and> vt_Generation u = vt_Generation t)"

definition reset_tasks :: "'i vtask list \<Rightarrow> 'i vtask list" where
  "reset_tasks ts = map restart_if_interrupted (filter (\<lambda>u. \<not> list_ex (\<lambda>t. created_by_task t u) ts) ts)"

text \<open>A stop and a new start of the process: what was in memory only is lost.\<close>

definition restart :: "('i, 'v) verifier_sys \<Rightarrow> ('i, 'v) verifier_sys" where
  "restart s = s\<lparr>generation := (case persistedGeneration s of None \<Rightarrow> 0 | Some g \<Rightarrow> g),
     lastGeneration := False, writesOff := False, readersTold := False, changeHandlingDone := False,
     working := True, finished := False, vtasks := reset_tasks (vtasks s), srcHandled := 0, dstHandled := 0\<rparr>"

definition set_status :: "nat \<Rightarrow> task_status \<Rightarrow> ('i, 'v) verifier_sys \<Rightarrow> ('i, 'v) verifier_sys" where
  "set_status i st s = s\<lparr>vtasks := (vtasks s)[i := (vtasks s ! i)\<lparr>vt_Status := st\<rparr>]\<rparr>"

text \<open>The end of a document task: its problems are enqueued unless this is the last generation.\<close>

definition report_problems :: "'i key set \<Rightarrow> ('i, 'v) verifier_sys \<Rightarrow> ('i, 'v) verifier_sys" where
  "report_problems ks s = (let s' = s\<lparr>mismatched := mismatched s \<union> ks\<rparr>
     in if lastGeneration s then s' else enqueue_rechecks ks s')"

text \<open>What a worker may have found: the truth about each document not written to meanwhile.\<close>

definition found_problems :: "('i, 'v) verifier_sys \<Rightarrow> 'i key set \<Rightarrow> 'i key set \<Rightarrow> bool" where
  "found_problems s ks problems \<longleftrightarrow> problems \<subseteq> ks
     \<and> (\<forall>k \<in> ks - written s. k \<in> problems \<longleftrightarrow> srcDocs s k \<noteq> dstDocs s k)"

definition running_task :: "('i, 'v) verifier_sys \<Rightarrow> nat \<Rightarrow> task_type \<Rightarrow> bool" where
  "running_task s i ty \<longleftrightarrow> working s \<and> i < length (vtasks s) \<and> is_current s (vtasks s ! i)
     \<and> vt_Type (vtasks s ! i) = ty \<and> vt_Status (vtasks s ! i) = Processing"

text \<open>The documents a task that creates document tasks must cover.\<close>

definition to_cover :: "('i, 'v) verifier_sys \<Rightarrow> 'i vtask \<Rightarrow> 'i key set" where
  "to_cover s t = (if vt_Type t = ProcessRecheckQueue then recheckQueues s (vt_Generation t)
     else if vt_Type t = VerifyCollection \<and> vt_Generation t = 0 then {k. fst k = vt_Namespace t} else {})"

definition new_document_tasks :: "('i, 'v) verifier_sys \<Rightarrow> 'i vtask \<Rightarrow> 'i vtask list \<Rightarrow> bool" where
  "new_document_tasks s t ts \<longleftrightarrow> (\<forall>u \<in> set ts. vt_Type u = VerifyDocuments \<and> vt_Status u = Added
     \<and> vt_Generation u = vt_Generation t \<and> vt_Keys u \<subseteq> to_cover s t
     \<and> (vt_Type t = VerifyCollection \<longrightarrow> vt_Namespace u = vt_Namespace t))"

definition is_covered :: "('i, 'v) verifier_sys \<Rightarrow> 'i vtask \<Rightarrow> bool" where
  "is_covered s t \<longleftrightarrow> to_cover s t \<subseteq>
     \<Union> (vt_Keys ` {u \<in> set (vtasks s). vt_Type u = VerifyDocuments \<and> is_current s u})"

section \<open>Steps\<close>

inductive step :: "('i, 'v) verifier_sys \<Rightarrow> ('i, 'v) verifier_sys \<Rightarrow> bool" where
  write_src: "\<not> writesOff s \<Longrightarrow>
    step s (s\<lparr>srcDocs := (srcDocs s)(k := v), srcChanges := srcChanges s @ [k], written := insert k (written s)\<rparr>)"
| write_dst: "\<not> writesOff s \<Longrightarrow>
    step s (s\<lparr>dstDocs := (dstDocs s)(k := v), dstChanges := dstChanges s @ [k], written := insert k (written s)\<rparr>)"
| handle_src: "\<not> changeHandlingDone s \<Longrightarrow> srcHandled s < length (srcChanges s) \<Longrightarrow>
    step s (enqueue_rechecks {srcChanges s ! srcHandled s} (s\<lparr>srcHandled := Suc (srcHandled s)\<rparr>))"
| handle_dst: "\<not> changeHandlingDone s \<Longrightarrow> dstHandled s < length (dstChanges s) \<Longrightarrow>
    step s (enqueue_rechecks {dstChanges s ! dstHandled s} (s\<lparr>dstHandled := Suc (dstHandled s)\<rparr>))"
| token_src: "n \<le> srcHandled s \<Longrightarrow>
    step s (s\<lparr>srcChanges := drop n (srcChanges s), srcHandled := srcHandled s - n\<rparr>)"
| token_dst: "n \<le> dstHandled s \<Longrightarrow>
    step s (s\<lparr>dstChanges := drop n (dstChanges s), dstHandled := dstHandled s - n\<rparr>)"
| call_writes_off: "writes_off e s = (r, s') \<Longrightarrow> step s s'"
| change_handling_ends: "readersTold s \<Longrightarrow> srcHandled s = length (srcChanges s) \<Longrightarrow>
    dstHandled s = length (dstChanges s) \<Longrightarrow> step s (s\<lparr>changeHandlingDone := True\<rparr>)"
| take_task: "working s \<Longrightarrow> i < length (vtasks s) \<Longrightarrow> is_current s (vtasks s ! i) \<Longrightarrow>
    vt_Type (vtasks s ! i) \<noteq> Primary \<Longrightarrow> vt_Status (vtasks s ! i) = Added \<Longrightarrow> step s (set_status i Processing s)"
| create_document_tasks: "running_task s i ty \<Longrightarrow> ty \<in> {ProcessRecheckQueue, VerifyCollection} \<Longrightarrow>
    new_document_tasks s (vtasks s ! i) ts \<Longrightarrow> step s (s\<lparr>vtasks := vtasks s @ ts\<rparr>)"
| finish_creating: "running_task s i ty \<Longrightarrow> ty \<in> {ProcessRecheckQueue, VerifyCollection} \<Longrightarrow>
    is_covered s (vtasks s ! i) \<Longrightarrow> st \<in> {Completed, MetadataMismatch} \<Longrightarrow> step s (set_status i st s)"
| insert_failed_collection: "running_task s i VerifyCollection \<Longrightarrow>
    step s (s\<lparr>vtasks := vtasks s @ [\<lparr>vt_Type = VerifyCollection, vt_Status = Added,
      vt_Generation = generation s + 1, vt_Namespace = vt_Namespace (vtasks s ! i), vt_Keys = {}\<rparr>]\<rparr>)"
| drop_queue: "working s \<Longrightarrow> t \<in> set (vtasks s) \<Longrightarrow> is_current s t \<Longrightarrow> vt_Type t = ProcessRecheckQueue \<Longrightarrow>
    vt_Status t = Completed \<Longrightarrow> step s (s\<lparr>recheckQueues := (recheckQueues s)(generation s := {})\<rparr>)"
| report_some: "running_task s i VerifyDocuments \<Longrightarrow> found_problems s (vt_Keys (vtasks s ! i)) problems \<Longrightarrow>
    ks \<subseteq> problems \<Longrightarrow> step s (report_problems ks s)"
| finish_documents: "running_task s i VerifyDocuments \<Longrightarrow> found_problems s (vt_Keys (vtasks s ! i)) problems \<Longrightarrow>
    step s (set_status i (if problems = {} then Completed else Failed) (report_problems problems s))"
| end_generation: "working s \<Longrightarrow> generation_is_done s \<Longrightarrow> step s (s\<lparr>working := False\<rparr>)"
| end_verification: "\<not> working s \<Longrightarrow> lastGeneration s \<Longrightarrow> step s (s\<lparr>finished := True\<rparr>)"
| create_next_early: "\<not> working s \<Longrightarrow> \<not> lastGeneration s \<Longrightarrow> (writesOff s \<longrightarrow> changeHandlingDone s) \<Longrightarrow>
    step s (s\<lparr>vtasks := ensure_create_recheck_task (generation s + 1) (recheckQueues s (generation s + 1)) (vtasks s)\<rparr>)"
| start_next: "\<not> working s \<Longrightarrow> \<not> lastGeneration s \<Longrightarrow> (writesOff s \<longrightarrow> changeHandlingDone s) \<Longrightarrow>
    step s (next_generation s)"
| restart_before_reports: "\<not> lastGeneration s \<or> mismatched s = {} \<Longrightarrow> step s (restart s)"

inductive_cases stepE: "step s s'"

text \<open>The first generation: a task for each namespace with a difference.\<close>

definition initial :: "('i, 'v) verifier_sys \<Rightarrow> bool" where
  "initial s \<longleftrightarrow> generation s = 0 \<and> persistedGeneration s = Some 0 \<and> \<not> lastGeneration s \<and> \<not> writesOff s
     \<and> \<not> readersTold s \<and> \<not> changeHandlingDone s \<and> working s \<and> \<not> finished s
     \<and> recheckQueues s = (\<lambda>_. {}) \<and> srcChanges s = [] \<and> dstChanges s = [] \<and> srcHandled s = 0 \<and> dstHandled s = 0
     \<and> mismatched s = {} \<and> written s = {}
     \<and> (\<forall>t \<in> set (vtasks s). vt_Type t = VerifyCollection \<and> vt_Status t = Added \<and> vt_Generation t = 0)
     \<and> (\<forall>k. srcDocs s k \<noteq> dstDocs s k \<longrightarrow> (\<exists>t \<in> set (vtasks s). vt_Namespace t = fst k))"


section \<open>The invariant\<close>

text \<open>A document is waiting when a change of it has not been handled or it is enqueued for the next
  generation; it will be checked when an unfinished task covers it.\<close>

definition waiting :: "('i, 'v) verifier_sys \<Rightarrow> 'i key set" where
  "waiting s = set (drop (srcHandled s) (srcChanges s)) \<union> set (drop (dstHandled s) (dstChanges s))
     \<union> recheckQueues s (generation s + 1)"

definition settled :: "('i, 'v) verifier_sys \<Rightarrow> 'i key set" where
  "settled s = waiting s \<union> (if lastGeneration s then mismatched s else {})"

definition differing_keys :: "('i, 'v) verifier_sys \<Rightarrow> 'i key set" where
  "differing_keys s = {k. srcDocs s k \<noteq> dstDocs s k}"

definition covers :: "('i, 'v) verifier_sys \<Rightarrow> 'i vtask \<Rightarrow> 'i key set" where
  "covers s t = (if vt_Type t = VerifyDocuments then vt_Keys t else to_cover s t)"

definition will_check :: "('i, 'v) verifier_sys \<Rightarrow> 'i key set" where
  "will_check s = \<Union> (covers s ` {t \<in> set (vtasks s). is_current s t \<and> unfinished t})"

definition kinds :: "'i vtask list \<Rightarrow> (task_type \<times> int) list" where
  "kinds ts = map (\<lambda>t. (vt_Type t, vt_Generation t)) ts"

text \<open>The tasks of the collection.\<close>

definition task_ok :: "('i, 'v) verifier_sys \<Rightarrow> 'i vtask \<Rightarrow> bool" where
  "task_ok s t \<longleftrightarrow> vt_Type t \<noteq> Primary \<and> vt_Generation t \<le> generation s + 1
     \<and> (vt_Generation t = generation s + 1 \<longrightarrow> vt_Type t \<noteq> VerifyDocuments \<and> vt_Status t = Added)
     \<and> (vt_Generation t < generation s \<longrightarrow> \<not> unfinished t)
     \<and> (vt_Type t = ProcessRecheckQueue \<longrightarrow> vt_Generation t > 0)
     \<and> (vt_Type t = VerifyDocuments \<and> vt_Generation t = 0 \<longrightarrow> vt_Keys t \<subseteq> {k. fst k = vt_Namespace t})"

definition queue_kept :: "('i, 'v) verifier_sys \<Rightarrow> 'i vtask \<Rightarrow> 'i vtask \<Rightarrow> bool" where
  "queue_kept s t u \<longleftrightarrow> (vt_Type t = ProcessRecheckQueue \<longrightarrow> unfinished t \<longrightarrow> is_current s t \<longrightarrow>
     vt_Type u = VerifyDocuments \<longrightarrow> is_current s u \<longrightarrow> vt_Keys u \<subseteq> recheckQueues s (generation s))"

definition tasks_inv :: "('i, 'v) verifier_sys \<Rightarrow> bool" where
  "tasks_inv s \<longleftrightarrow> (\<forall>t \<in> set (vtasks s). task_ok s t)
     \<and> (\<forall>g. count_list (kinds (vtasks s)) (ProcessRecheckQueue, g) \<le> 1)
     \<and> (\<forall>t \<in> set (vtasks s). \<forall>u \<in> set (vtasks s). queue_kept s t u)
     \<and> (\<not> working s \<longrightarrow> generation_is_done s)"

text \<open>The phases of the process.\<close>

definition phase_inv :: "('i, 'v) verifier_sys \<Rightarrow> bool" where
  "phase_inv s \<longleftrightarrow> persistedGeneration s = Some (generation s) \<and> generation s \<ge> 0
     \<and> srcHandled s \<le> length (srcChanges s) \<and> dstHandled s \<le> length (dstChanges s)
     \<and> (readersTold s \<longrightarrow> writesOff s)
     \<and> (changeHandlingDone s \<longrightarrow> writesOff s \<and> srcHandled s = length (srcChanges s) \<and> dstHandled s = length (dstChanges s))
     \<and> (lastGeneration s \<longrightarrow> writesOff s \<and> changeHandlingDone s \<and> recheckQueues s (generation s + 1) = {} \<and> written s = {}
          \<and> mismatched s \<subseteq> differing_keys s)
     \<and> (finished s \<longrightarrow> lastGeneration s \<and> \<not> working s)
     \<and> (\<forall>g. g > generation s + 1 \<longrightarrow> recheckQueues s g = {})"

definition docs_inv :: "('i, 'v) verifier_sys \<Rightarrow> bool" where
  "docs_inv s \<longleftrightarrow> written s \<subseteq> waiting s
     \<and> differing_keys s \<subseteq> settled s \<union> will_check s
     \<and> (\<forall>t \<in> set (vtasks s). vt_Type t = VerifyDocuments \<longrightarrow> is_current s t \<longrightarrow> \<not> unfinished t \<longrightarrow>
          differing_keys s \<inter> vt_Keys t \<subseteq> settled s)"

definition inv :: "('i, 'v) verifier_sys \<Rightarrow> bool" where
  "inv s \<longleftrightarrow> tasks_inv s \<and> phase_inv s \<and> docs_inv s"

lemma count_list_one:
  assumes "count_list xs a \<le> 1" "i < length xs" "j < length xs" "xs ! i = a" "xs ! j = a"
  shows "i = j"
proof (rule ccontr)
  assume ne: "i \<noteq> j"
  have "card {i, j} \<le> card {k. k < length xs \<and> xs ! k = a}"
    using assms(2-5) by (intro card_mono) auto
  moreover have "count_list xs a = card {k. k < length xs \<and> xs ! k = a}"
    by (simp add: count_list_eq_length_filter length_filter_conv_card eq_commute)
  ultimately show False using assms(1) ne by simp
qed

lemma unique_recheck_task:
  assumes "tasks_inv s" "t \<in> set (vtasks s)" "u \<in> set (vtasks s)"
    "vt_Type t = ProcessRecheckQueue" "vt_Type u = ProcessRecheckQueue" "vt_Generation t = vt_Generation u"
  shows "t = u"
proof -
  from assms(2) obtain i where i: "i < length (vtasks s)" "vtasks s ! i = t" by (auto simp: in_set_conv_nth)
  from assms(3) obtain j where j: "j < length (vtasks s)" "vtasks s ! j = u" by (auto simp: in_set_conv_nth)
  let ?a = "(ProcessRecheckQueue, vt_Generation u)"
  from assms(1) have "count_list (kinds (vtasks s)) ?a \<le> 1"
    unfolding tasks_inv_def by blast
  then have "i = j"
    by (rule count_list_one) (use i j assms(4-6) in \<open>simp_all add: kinds_def\<close>)
  with i j show ?thesis by simp
qed

lemma kinds_update [simp]:
  "i < length ts \<Longrightarrow> kinds (ts[i := (ts ! i)\<lparr>vt_Status := st\<rparr>]) = kinds ts"
  by (rule nth_equalityI) (auto simp: kinds_def nth_list_update)

subsection \<open>Steps that leave the tasks alone\<close>

definition same_tasks :: "('i, 'v) verifier_sys \<Rightarrow> ('i, 'v) verifier_sys \<Rightarrow> bool" where
  "same_tasks s s' \<longleftrightarrow> vtasks s' = vtasks s \<and> generation s' = generation s
     \<and> recheckQueues s' (generation s) = recheckQueues s (generation s)"

lemma same_tasks_current: "same_tasks s s' \<Longrightarrow> is_current s' = is_current s"
  by (auto simp: same_tasks_def is_current_def)

lemma same_tasks_will_check:
  assumes "same_tasks s s'"
  shows "will_check s' = will_check s"
proof -
  have "covers s' t = covers s t" if "is_current s t" for t
    using assms that by (simp add: same_tasks_def is_current_def covers_def to_cover_def)
  moreover have "vtasks s' = vtasks s" using assms by (simp add: same_tasks_def)
  ultimately show ?thesis
    unfolding will_check_def same_tasks_current [OF assms] by simp
qed

lemma same_tasks_inv:
  assumes "same_tasks s s'" "working s' = working s" "tasks_inv s"
  shows "tasks_inv s'"
  using assms(3) unfolding tasks_inv_def task_ok_def queue_kept_def generation_is_done_def same_tasks_current [OF assms(1)]
  using assms(1,2) by (simp add: same_tasks_def)

lemma same_tasks_docs:
  assumes "same_tasks s s'" "docs_inv s" "written s' \<subseteq> waiting s'" "settled s \<subseteq> settled s'"
    "differing_keys s' \<subseteq> differing_keys s \<union> waiting s'"
  shows "docs_inv s'"
proof -
  have w: "waiting s' \<subseteq> settled s'" by (simp add: settled_def)
  have v: "vtasks s' = vtasks s" using assms(1) by (simp add: same_tasks_def)
  show ?thesis
    using assms(2-5) w
    unfolding docs_inv_def same_tasks_will_check [OF assms(1)] same_tasks_current [OF assms(1)] v by blast
qed

lemma drop_snoc: "set (drop n (xs @ [k])) = set (drop n xs) \<union> (if n \<le> length xs then {k} else {})"
  by (cases "n \<le> length xs") auto

lemma drop_handled: "n < length xs \<Longrightarrow> set (drop n xs) = insert (xs ! n) (set (drop (Suc n) xs))"
  by (simp add: Cons_nth_drop_Suc [symmetric])

lemma waiting_simps [simp]:
  "waiting (s\<lparr>vtasks := ts\<rparr>) = waiting s" "waiting (s\<lparr>working := w\<rparr>) = waiting s"
  "waiting (s\<lparr>finished := b\<rparr>) = waiting s" "waiting (s\<lparr>changeHandlingDone := b\<rparr>) = waiting s"
  "waiting (s\<lparr>mismatched := ks\<rparr>) = waiting s" "waiting (s\<lparr>writesOff := b\<rparr>) = waiting s"
  "waiting (s\<lparr>readersTold := b\<rparr>) = waiting s"
  "waiting (enqueue_rechecks ks s) = waiting s \<union> ks"
  by (auto simp: waiting_def enqueue_rechecks_def)

lemma enqueue_simps [simp]:
  "vtasks (enqueue_rechecks ks s) = vtasks s" "generation (enqueue_rechecks ks s) = generation s"
  "lastGeneration (enqueue_rechecks ks s) = lastGeneration s" "mismatched (enqueue_rechecks ks s) = mismatched s"
  "written (enqueue_rechecks ks s) = written s" "working (enqueue_rechecks ks s) = working s"
  "srcDocs (enqueue_rechecks ks s) = srcDocs s" "dstDocs (enqueue_rechecks ks s) = dstDocs s"
  "persistedGeneration (enqueue_rechecks ks s) = persistedGeneration s" "writesOff (enqueue_rechecks ks s) = writesOff s"
  "readersTold (enqueue_rechecks ks s) = readersTold s" "changeHandlingDone (enqueue_rechecks ks s) = changeHandlingDone s"
  "finished (enqueue_rechecks ks s) = finished s" "srcChanges (enqueue_rechecks ks s) = srcChanges s"
  "dstChanges (enqueue_rechecks ks s) = dstChanges s" "srcHandled (enqueue_rechecks ks s) = srcHandled s"
  "dstHandled (enqueue_rechecks ks s) = dstHandled s"
  "recheckQueues (enqueue_rechecks ks s) g = (if g = generation s + 1 then recheckQueues s g \<union> ks else recheckQueues s g)"
  "same_tasks s (enqueue_rechecks ks s)"
  by (simp_all add: enqueue_rechecks_def same_tasks_def)

lemma inv_I:
  assumes "same_tasks s s'" "working s' = working s" "inv s" "phase_inv s'" "written s' \<subseteq> waiting s'"
    "settled s \<subseteq> settled s'" "differing_keys s' \<subseteq> differing_keys s \<union> waiting s'"
  shows "inv s'"
  using assms same_tasks_inv [OF assms(1,2)] same_tasks_docs [OF assms(1) _ assms(5-7)] by (simp add: inv_def)

lemma inv_write_src:
  assumes "inv s" "\<not> writesOff s"
  shows "inv (s\<lparr>srcDocs := (srcDocs s)(k := v), srcChanges := srcChanges s @ [k], written := insert k (written s)\<rparr>)"
    (is "inv ?s'")
proof (rule inv_I [OF _ _ assms(1)])
  note i = assms(1) [unfolded inv_def phase_inv_def docs_inv_def]
  have w: "waiting ?s' = insert k (waiting s)" using i by (auto simp: waiting_def drop_snoc)
  show "same_tasks s ?s'" "working ?s' = working s" by (simp_all add: same_tasks_def)
  show "phase_inv ?s'" using i assms(2) by (auto simp: phase_inv_def)
  show "written ?s' \<subseteq> waiting ?s'" using i unfolding w by auto
  show "settled s \<subseteq> settled ?s'" unfolding settled_def w by auto
  show "differing_keys ?s' \<subseteq> differing_keys s \<union> waiting ?s'" unfolding w by (auto simp: differing_keys_def)
qed

lemma inv_write_dst:
  assumes "inv s" "\<not> writesOff s"
  shows "inv (s\<lparr>dstDocs := (dstDocs s)(k := v), dstChanges := dstChanges s @ [k], written := insert k (written s)\<rparr>)"
    (is "inv ?s'")
proof (rule inv_I [OF _ _ assms(1)])
  note i = assms(1) [unfolded inv_def phase_inv_def docs_inv_def]
  have w: "waiting ?s' = insert k (waiting s)" using i by (auto simp: waiting_def drop_snoc)
  show "same_tasks s ?s'" "working ?s' = working s" by (simp_all add: same_tasks_def)
  show "phase_inv ?s'" using i assms(2) by (auto simp: phase_inv_def)
  show "written ?s' \<subseteq> waiting ?s'" using i unfolding w by auto
  show "settled s \<subseteq> settled ?s'" unfolding settled_def w by auto
  show "differing_keys ?s' \<subseteq> differing_keys s \<union> waiting ?s'" unfolding w by (auto simp: differing_keys_def)
qed

lemma inv_handle_src:
  assumes "inv s" "\<not> changeHandlingDone s" "srcHandled s < length (srcChanges s)"
  shows "inv (enqueue_rechecks {srcChanges s ! srcHandled s} (s\<lparr>srcHandled := Suc (srcHandled s)\<rparr>))"
    (is "inv ?s'")
proof (rule inv_I [OF _ _ assms(1)])
  note i = assms(1) [unfolded inv_def phase_inv_def docs_inv_def]
  have w: "waiting ?s' = waiting s" using drop_handled [OF assms(3)] by (auto simp: waiting_def)
  show "same_tasks s ?s'" "working ?s' = working s" by (simp_all add: same_tasks_def)
  show "phase_inv ?s'" using i assms(2,3) by (auto simp: phase_inv_def differing_keys_def)
  show "written ?s' \<subseteq> waiting ?s'" using i unfolding w by auto
  show "settled s \<subseteq> settled ?s'" unfolding settled_def w by auto
  show "differing_keys ?s' \<subseteq> differing_keys s \<union> waiting ?s'" by (auto simp: differing_keys_def)
qed

lemma inv_handle_dst:
  assumes "inv s" "\<not> changeHandlingDone s" "dstHandled s < length (dstChanges s)"
  shows "inv (enqueue_rechecks {dstChanges s ! dstHandled s} (s\<lparr>dstHandled := Suc (dstHandled s)\<rparr>))"
    (is "inv ?s'")
proof (rule inv_I [OF _ _ assms(1)])
  note i = assms(1) [unfolded inv_def phase_inv_def docs_inv_def]
  have w: "waiting ?s' = waiting s" using drop_handled [OF assms(3)] by (auto simp: waiting_def)
  show "same_tasks s ?s'" "working ?s' = working s" by (simp_all add: same_tasks_def)
  show "phase_inv ?s'" using i assms(2,3) by (auto simp: phase_inv_def differing_keys_def)
  show "written ?s' \<subseteq> waiting ?s'" using i unfolding w by auto
  show "settled s \<subseteq> settled ?s'" unfolding settled_def w by auto
  show "differing_keys ?s' \<subseteq> differing_keys s \<union> waiting ?s'" by (auto simp: differing_keys_def)
qed

text \<open>The remaining steps of this kind change neither the documents nor who is waiting.\<close>

lemma inv_same_docs:
  assumes "inv s" "phase_inv s'" "same_tasks s s'" "working s' = working s" "waiting s' = waiting s"
    "written s' = written s" "srcDocs s' = srcDocs s" "dstDocs s' = dstDocs s"
    "lastGeneration s' = lastGeneration s" "mismatched s \<subseteq> mismatched s'"
  shows "inv s'"
proof (rule inv_I [OF assms(3,4,1,2)])
  show "written s' \<subseteq> waiting s'" using assms by (auto simp: inv_def docs_inv_def)
  show "settled s \<subseteq> settled s'" using assms by (auto simp: settled_def)
  show "differing_keys s' \<subseteq> differing_keys s \<union> waiting s'" using assms by (simp add: differing_keys_def)
qed

lemma inv_token_src:
  assumes "inv s" "n \<le> srcHandled s"
  shows "inv (s\<lparr>srcChanges := drop n (srcChanges s), srcHandled := srcHandled s - n\<rparr>)"
  by (rule inv_same_docs [OF assms(1)])
    (use assms in \<open>auto simp: inv_def phase_inv_def waiting_def same_tasks_def differing_keys_def\<close>)

lemma inv_token_dst:
  assumes "inv s" "n \<le> dstHandled s"
  shows "inv (s\<lparr>dstChanges := drop n (dstChanges s), dstHandled := dstHandled s - n\<rparr>)"
  by (rule inv_same_docs [OF assms(1)])
    (use assms in \<open>auto simp: inv_def phase_inv_def waiting_def same_tasks_def differing_keys_def\<close>)

lemma inv_writes_off:
  assumes "inv s" "writes_off e s = (r, s')"
  shows "inv s'"
  by (rule inv_same_docs [OF assms(1)])
    (use assms in \<open>auto simp: writes_off_def inv_def phase_inv_def same_tasks_def differing_keys_def
       split: if_splits option.splits\<close>)

lemma inv_change_handling_ends:
  assumes "inv s" "readersTold s" "srcHandled s = length (srcChanges s)" "dstHandled s = length (dstChanges s)"
  shows "inv (s\<lparr>changeHandlingDone := True\<rparr>)"
  by (rule inv_same_docs [OF assms(1)])
    (use assms in \<open>auto simp: inv_def phase_inv_def same_tasks_def differing_keys_def\<close>)

lemma inv_end_verification:
  assumes "inv s" "\<not> working s" "lastGeneration s"
  shows "inv (s\<lparr>finished := True\<rparr>)"
  by (rule inv_same_docs [OF assms(1)])
    (use assms in \<open>auto simp: inv_def phase_inv_def same_tasks_def differing_keys_def\<close>)

subsection \<open>Reporting\<close>

lemma report_simps [simp]:
  "vtasks (report_problems ks s) = vtasks s" "generation (report_problems ks s) = generation s"
  "lastGeneration (report_problems ks s) = lastGeneration s" "mismatched (report_problems ks s) = mismatched s \<union> ks"
  "written (report_problems ks s) = written s" "working (report_problems ks s) = working s"
  "srcDocs (report_problems ks s) = srcDocs s" "dstDocs (report_problems ks s) = dstDocs s"
  "same_tasks s (report_problems ks s)"
  "settled (report_problems ks s) = settled s \<union> ks"
  "waiting (report_problems ks s) = waiting s \<union> (if lastGeneration s then {} else ks)"
  by (auto simp: report_problems_def Let_def same_tasks_def settled_def enqueue_rechecks_def waiting_def)

lemma differing_report [simp]: "differing_keys (report_problems ks s) = differing_keys s"
  by (simp add: differing_keys_def)

lemma phase_report:
  assumes "phase_inv s" "ks \<subseteq> problems" "found_problems s ts problems"
  shows "phase_inv (report_problems ks s)"
  using assms
  by (auto simp: phase_inv_def report_problems_def Let_def found_problems_def differing_keys_def subset_iff)

lemma inv_report:
  assumes "inv s" "ks \<subseteq> problems" "found_problems s ts problems"
  shows "inv (report_problems ks s)"
proof (rule inv_I [OF _ _ assms(1)])
  show "phase_inv (report_problems ks s)" using assms by (auto simp: inv_def intro: phase_report)
  show "written (report_problems ks s) \<subseteq> waiting (report_problems ks s)"
    using assms(1) by (auto simp: inv_def docs_inv_def)
qed auto

subsection \<open>Steps of the workers\<close>

lemma set_status_simps [simp]:
  "generation (set_status i st s) = generation s" "lastGeneration (set_status i st s) = lastGeneration s"
  "mismatched (set_status i st s) = mismatched s" "written (set_status i st s) = written s"
  "working (set_status i st s) = working s" "recheckQueues (set_status i st s) = recheckQueues s"
  "waiting (set_status i st s) = waiting s" "settled (set_status i st s) = settled s"
  "differing_keys (set_status i st s) = differing_keys s" "is_current (set_status i st s) = is_current s"
  "covers (set_status i st s) = covers s" "phase_inv (set_status i st s) = phase_inv s"
  by (auto simp: set_status_def waiting_def settled_def differing_keys_def is_current_def covers_def to_cover_def phase_inv_def fun_eq_iff)

lemma set_status_mem:
  assumes "t \<in> set (vtasks (set_status i st s))"
  obtains "t \<in> set (vtasks s)" | "t = (vtasks s ! i)\<lparr>vt_Status := st\<rparr>"
  using assms set_update_subset_insert [of "vtasks s" i] by (fastforce simp: set_status_def)

lemma set_status_keeps:
  "t \<in> set (vtasks s) \<Longrightarrow> t \<in> set (vtasks (set_status i st s)) \<or> t = vtasks s ! i"
proof -
  assume "t \<in> set (vtasks s)"
  then obtain j where j: "j < length (vtasks s)" "vtasks s ! j = t" by (auto simp: in_set_conv_nth)
  show ?thesis
  proof (cases "j = i")
    case False
    with j have "vtasks (set_status i st s) ! j = t" "j < length (vtasks (set_status i st s))"
      by (simp_all add: set_status_def)
    then show ?thesis using nth_mem by blast
  qed (use j in simp)
qed

lemma set_status_new: "i < length (vtasks s) \<Longrightarrow> (vtasks s ! i)\<lparr>vt_Status := st\<rparr> \<in> set (vtasks (set_status i st s))"
  by (simp add: set_status_def set_update_memI)

lemma covers_status [simp]: "covers s (t\<lparr>vt_Status := st\<rparr>) = covers s t"
  "is_current s (t\<lparr>vt_Status := st\<rparr>) = is_current s t"
  by (simp_all add: covers_def to_cover_def is_current_def)

lemma tasks_set_status:
  assumes "tasks_inv s" "working s" "i < length (vtasks s)" "is_current s (vtasks s ! i)" "unfinished (vtasks s ! i)"
  shows "tasks_inv (set_status i st s)"
proof -
  let ?t = "vtasks s ! i"
  have m: "?t \<in> set (vtasks s)" using assms(3) by simp
  note a = assms(1) [unfolded tasks_inv_def task_ok_def queue_kept_def]
  have "kinds (vtasks (set_status i st s)) = kinds (vtasks s)"
    using assms(3) by (simp add: set_status_def)
  moreover have "vt_Type t \<noteq> Primary \<and> vt_Generation t \<le> generation s + 1
        \<and> (vt_Generation t = generation s + 1 \<longrightarrow> vt_Type t \<noteq> VerifyDocuments \<and> vt_Status t = Added)
        \<and> (vt_Generation t < generation s \<longrightarrow> \<not> unfinished t)
        \<and> (vt_Type t = ProcessRecheckQueue \<longrightarrow> vt_Generation t > 0)
        \<and> (vt_Type t = VerifyDocuments \<and> vt_Generation t = 0 \<longrightarrow> vt_Keys t \<subseteq> {k. fst k = vt_Namespace t})"
    if "t \<in> set (vtasks (set_status i st s))" for t
    using that by (rule set_status_mem) (use a m assms(4) in \<open>auto simp: is_current_def\<close>)
  moreover have "vt_Keys u \<subseteq> recheckQueues s (generation s)"
    if t: "t \<in> set (vtasks (set_status i st s))" "vt_Type t = ProcessRecheckQueue" "unfinished t" "is_current s t"
      and u: "u \<in> set (vtasks (set_status i st s))" "vt_Type u = VerifyDocuments" "is_current s u" for t u
  proof -
    from t have "\<exists>t' \<in> set (vtasks s). vt_Type t' = ProcessRecheckQueue \<and> unfinished t' \<and> is_current s t'"
      by (elim set_status_mem) (use m assms(4,5) in auto)
    moreover from u have "\<exists>u' \<in> set (vtasks s). vt_Type u' = VerifyDocuments \<and> is_current s u' \<and> vt_Keys u' = vt_Keys u"
      by (elim set_status_mem) (use m in \<open>auto simp: is_current_def\<close>)
    ultimately show ?thesis using a by blast
  qed
  ultimately show ?thesis using a assms(2) unfolding tasks_inv_def task_ok_def queue_kept_def by (simp add: Ball_def)
qed

lemma will_check_set_status:
  "will_check s \<subseteq> will_check (set_status i st s) \<union> covers s (vtasks s ! i)"
  using set_status_keeps [of _ s i st] by (fastforce simp: will_check_def)

lemma will_check_unfinished:
  assumes "i < length (vtasks s)" "is_current s (vtasks s ! i)" "st = Added \<or> st = Processing"
  shows "covers s (vtasks s ! i) \<subseteq> will_check (set_status i st s)"
proof -
  have "(vtasks s ! i)\<lparr>vt_Status := st\<rparr> \<in> {t \<in> set (vtasks (set_status i st s)). is_current s t \<and> unfinished t}"
    using set_status_new [OF assms(1)] assms(2,3) by (auto simp: unfinished_def)
  then have "covers s ((vtasks s ! i)\<lparr>vt_Status := st\<rparr>) \<subseteq> will_check (set_status i st s)"
    unfolding will_check_def by (simp only: set_status_simps) blast
  then show ?thesis by simp
qed

lemma docs_set_status:
  assumes "docs_inv s" "i < length (vtasks s)" "is_current s (vtasks s ! i)"
    and "differing_keys s \<inter> covers s (vtasks s ! i) \<subseteq> settled s \<union> will_check (set_status i st s)"
    and "vt_Type (vtasks s ! i) = VerifyDocuments \<Longrightarrow> st \<noteq> Added \<Longrightarrow> st \<noteq> Processing \<Longrightarrow>
      differing_keys s \<inter> vt_Keys (vtasks s ! i) \<subseteq> settled s"
  shows "docs_inv (set_status i st s)"
proof -
  note d = assms(1) [unfolded docs_inv_def]
  have "differing_keys s \<subseteq> settled s \<union> will_check (set_status i st s)"
    using d assms(4) will_check_set_status [of s i st] by blast
  moreover have "differing_keys s \<inter> vt_Keys t \<subseteq> settled s"
    if "t \<in> set (vtasks (set_status i st s))" "vt_Type t = VerifyDocuments" "is_current s t" "\<not> unfinished t" for t
    using that(1) by (rule set_status_mem) (use that d assms(5) in \<open>auto simp: unfinished_def\<close>)
  ultimately show ?thesis using d unfolding docs_inv_def by simp
qed

lemma inv_take_task:
  assumes "inv s" "working s" "i < length (vtasks s)" "is_current s (vtasks s ! i)" "vt_Status (vtasks s ! i) = Added"
  shows "inv (set_status i Processing s)"
  using assms will_check_unfinished [OF assms(3,4), of Processing]
  by (auto simp: inv_def unfinished_def intro!: tasks_set_status docs_set_status)

lemma inv_finish_documents:
  assumes i: "inv s" and r: "running_task s i VerifyDocuments" and f: "found_problems s (vt_Keys (vtasks s ! i)) problems"
    and st: "st = Completed \<or> st = Failed"
  shows "inv (set_status i st (report_problems problems s))"
proof -
  let ?s = "report_problems problems s"
  note r' = r [unfolded running_task_def]
  have i1: "inv ?s" by (rule inv_report [OF i _ f]) simp
  have c: "is_current ?s = is_current s" by (simp add: is_current_def fun_eq_iff)
  have "differing_keys s \<inter> vt_Keys (vtasks s ! i) \<subseteq> written s \<union> problems"
    using f by (auto simp: found_problems_def differing_keys_def)
  moreover have "written s \<subseteq> settled s" using i by (auto simp: inv_def docs_inv_def settled_def)
  ultimately have d: "differing_keys ?s \<inter> vt_Keys (vtasks ?s ! i) \<subseteq> settled ?s" by auto
  have "tasks_inv (set_status i st ?s)"
    by (rule tasks_set_status) (use i1 r' in \<open>simp_all add: inv_def c unfinished_def\<close>)
  moreover have "docs_inv (set_status i st ?s)"
    by (rule docs_set_status) (use i1 r' d in \<open>auto simp: inv_def c covers_def\<close>)
  ultimately show ?thesis using i1 by (simp add: inv_def)
qed

lemma inv_finish_creating:
  assumes i: "inv s" and r: "running_task s i ty" "ty \<in> {ProcessRecheckQueue, VerifyCollection}"
    and c: "is_covered s (vtasks s ! i)"
  shows "inv (set_status i st s)"
proof -
  note r' = r(1) [unfolded running_task_def]
  note d = i [unfolded inv_def docs_inv_def]
  have ty: "vt_Type (vtasks s ! i) \<noteq> VerifyDocuments" using r r' by auto
  have "differing_keys s \<inter> to_cover s (vtasks s ! i) \<subseteq> settled s \<union> will_check (set_status i st s)"
  proof
    fix k assume k: "k \<in> differing_keys s \<inter> to_cover s (vtasks s ! i)"
    with c obtain u where u: "u \<in> set (vtasks s)" "vt_Type u = VerifyDocuments" "is_current s u" "k \<in> vt_Keys u"
      by (auto simp: is_covered_def)
    show "k \<in> settled s \<union> will_check (set_status i st s)"
    proof (cases "unfinished u")
      case True
      from set_status_keeps [OF u(1)] u(2) ty have "u \<in> set (vtasks (set_status i st s))" by metis
      with True u show ?thesis by (auto simp: will_check_def covers_def intro!: bexI [of _ u])
    next
      case False
      with d u k show ?thesis by blast
    qed
  qed
  then have "docs_inv (set_status i st s)"
    by (intro docs_set_status) (use i r' ty in \<open>auto simp: inv_def covers_def\<close>)
  moreover have "tasks_inv (set_status i st s)"
    by (rule tasks_set_status) (use i r' in \<open>simp_all add: inv_def unfinished_def\<close>)
  ultimately show ?thesis using i by (simp add: inv_def)
qed

lemma kinds_append: "kinds (ts @ us) = kinds ts @ kinds us"
  by (simp add: kinds_def)

lemma count_kinds_other: "\<forall>u \<in> set us. vt_Type u \<noteq> ty \<or> vt_Generation u \<noteq> g \<Longrightarrow> count_list (kinds us) (ty, g) = 0"
  by (auto simp: count_list_0_iff kinds_def)

text \<open>Tasks that no unfinished or current one conflicts with can be appended.\<close>

lemma append_simps [simp]:
  "is_current (s\<lparr>vtasks := ts\<rparr>) = is_current s" "covers (s\<lparr>vtasks := ts\<rparr>) = covers s"
  "settled (s\<lparr>vtasks := ts\<rparr>) = settled s" "differing_keys (s\<lparr>vtasks := ts\<rparr>) = differing_keys s"
  "phase_inv (s\<lparr>vtasks := ts\<rparr>) = phase_inv s"
  by (auto simp: is_current_def covers_def to_cover_def settled_def differing_keys_def phase_inv_def fun_eq_iff)

lemma docs_append:
  assumes "docs_inv s" "\<forall>u \<in> set us. vt_Type u = VerifyDocuments \<longrightarrow> is_current s u \<longrightarrow> unfinished u"
  shows "docs_inv (s\<lparr>vtasks := vtasks s @ us\<rparr>)"
proof -
  have "will_check s \<subseteq> will_check (s\<lparr>vtasks := vtasks s @ us\<rparr>)" by (auto simp: will_check_def)
  moreover have "written (s\<lparr>vtasks := vtasks s @ us\<rparr>) = written s"
    "set (vtasks (s\<lparr>vtasks := vtasks s @ us\<rparr>)) = set (vtasks s) \<union> set us" by simp_all
  ultimately show ?thesis
    using assms unfolding docs_inv_def append_simps waiting_simps by (simp only: ball_Un) blast
qed

lemma tasks_append_general:
  assumes "tasks_inv s" "\<forall>u \<in> set us. task_ok s u"
    "\<And>g. count_list (kinds (vtasks s @ us)) (ProcessRecheckQueue, g) \<le> 1"
    "\<forall>t \<in> set (vtasks s). \<forall>u \<in> set us. queue_kept s t u"
    "\<forall>t \<in> set us. \<forall>u. queue_kept s t u"
    "\<not> working s \<longrightarrow> (\<forall>u \<in> set us. \<not> is_current s u)"
  shows "tasks_inv (s\<lparr>vtasks := vtasks s @ us\<rparr>)" (is "tasks_inv ?s")
proof -
  have eq: "task_ok ?s = task_ok s" "queue_kept ?s = queue_kept s"
    by (simp_all add: task_ok_def queue_kept_def fun_eq_iff)
  have "\<not> working s \<longrightarrow> generation_is_done ?s"
    using assms(1,6) by (auto simp: tasks_inv_def generation_is_done_def list_ex_iff)
  then show ?thesis
    using assms(1-5) unfolding tasks_inv_def eq by (simp add: ball_Un)
qed

lemma tasks_append:
  assumes "tasks_inv s" "\<forall>u \<in> set us. task_ok s u \<and> vt_Type u \<noteq> ProcessRecheckQueue"
    "\<forall>t \<in> set (vtasks s). \<forall>u \<in> set us. queue_kept s t u"
    "\<not> working s \<longrightarrow> (\<forall>u \<in> set us. \<not> is_current s u)"
  shows "tasks_inv (s\<lparr>vtasks := vtasks s @ us\<rparr>)"
proof (rule tasks_append_general [OF assms(1)])
  show "count_list (kinds (vtasks s @ us)) (ProcessRecheckQueue, g) \<le> 1" for g
    using assms(1,2) count_kinds_other [of us ProcessRecheckQueue g] by (simp add: kinds_append tasks_inv_def)
  show "\<forall>t \<in> set us. \<forall>u. queue_kept s t u" using assms(2) by (simp add: queue_kept_def)
qed (use assms in auto)

lemma inv_create_document_tasks:
  assumes i: "inv s" and r: "running_task s i ty" "ty \<in> {ProcessRecheckQueue, VerifyCollection}"
    and n: "new_document_tasks s (vtasks s ! i) ts"
  shows "inv (s\<lparr>vtasks := vtasks s @ ts\<rparr>)"
proof -
  let ?c = "vtasks s ! i"
  note r' = r(1) [unfolded running_task_def]
  note a = i [unfolded inv_def tasks_inv_def task_ok_def queue_kept_def, THEN conjunct1]
  have m: "?c \<in> set (vtasks s)" using r' by simp
  have c: "vt_Type ?c = ty" "vt_Generation ?c = generation s" using r' by (simp_all add: is_current_def)
  have prq: "ty = ProcessRecheckQueue \<Longrightarrow> generation s > 0" using a m c by auto
  have new: "vt_Type u = VerifyDocuments" "unfinished u" "vt_Generation u = generation s"
    "vt_Keys u \<subseteq> to_cover s ?c" "ty = VerifyCollection \<Longrightarrow> vt_Namespace u = vt_Namespace ?c" if "u \<in> set ts" for u
    using n that c by (auto simp: new_document_tasks_def unfinished_def)
  have keys0: "vt_Keys u \<subseteq> {k. fst k = vt_Namespace u}" if "u \<in> set ts" "generation s = 0" for u
    using new [OF that(1)] prq r(2) c that(2) by (auto simp: to_cover_def)
  have keysQ: "vt_Keys u \<subseteq> recheckQueues s (generation s)"
    if "u \<in> set ts" "t \<in> set (vtasks s)" "vt_Type t = ProcessRecheckQueue" "is_current s t" for u t
  proof -
    from a that(2-4) have "generation s > 0" by (auto simp: is_current_def)
    with new [OF that(1)] r(2) c show ?thesis by (auto simp: to_cover_def)
  qed
  have "tasks_inv (s\<lparr>vtasks := vtasks s @ ts\<rparr>)"
  proof (rule tasks_append)
    show "\<forall>u \<in> set ts. task_ok s u \<and> vt_Type u \<noteq> ProcessRecheckQueue"
      using new(1-3) keys0 by (simp add: task_ok_def)
    show "\<forall>t \<in> set (vtasks s). \<forall>u \<in> set ts. queue_kept s t u"
      using keysQ by (simp add: queue_kept_def)
  qed (use i r' in \<open>simp_all add: inv_def\<close>)
  moreover have "docs_inv (s\<lparr>vtasks := vtasks s @ ts\<rparr>)"
    using i new by (intro docs_append) (auto simp: inv_def)
  ultimately show ?thesis using i by (simp add: inv_def)
qed

lemma inv_insert_failed_collection:
  assumes i: "inv s" and r: "running_task s i VerifyCollection"
  shows "inv (s\<lparr>vtasks := vtasks s @ [\<lparr>vt_Type = VerifyCollection, vt_Status = Added,
      vt_Generation = generation s + 1, vt_Namespace = n, vt_Keys = {}\<rparr>]\<rparr>)" (is "inv (s\<lparr>vtasks := _ @ [?u]\<rparr>)")
proof -
  have "0 \<le> generation s" using i by (simp add: inv_def phase_inv_def)
  then have "tasks_inv (s\<lparr>vtasks := vtasks s @ [?u]\<rparr>)"
    using i by (intro tasks_append) (simp_all add: inv_def task_ok_def queue_kept_def is_current_def)
  moreover have "docs_inv (s\<lparr>vtasks := vtasks s @ [?u]\<rparr>)"
    using i by (intro docs_append) (auto simp: inv_def)
  ultimately show ?thesis using i by (simp add: inv_def)
qed

lemma inv_drop_queue:
  assumes i: "inv s" and t: "working s" "t \<in> set (vtasks s)" "is_current s t" "vt_Type t = ProcessRecheckQueue"
    "vt_Status t = Completed"
  shows "inv (s\<lparr>recheckQueues := (recheckQueues s)(generation s := {})\<rparr>)" (is "inv ?s")
proof -
  note i' = i [unfolded inv_def]
  note a = i' [unfolded tasks_inv_def task_ok_def queue_kept_def, THEN conjunct1]
  have none: "u = t" if "u \<in> set (vtasks s)" "vt_Type u = ProcessRecheckQueue" "is_current s u" for u
    using unique_recheck_task [of s u t] i' that t by (auto simp: is_current_def)
  have nu: "\<not> unfinished t" using t(5) by (simp add: unfinished_def)
  have c: "is_current ?s = is_current s" by (simp add: is_current_def fun_eq_iff)
  have w: "waiting ?s = waiting s" by (simp add: waiting_def)
  have st: "settled ?s = settled s" using w by (simp add: settled_def)
  have dk: "differing_keys ?s = differing_keys s" by (simp add: differing_keys_def)
  have cov: "covers ?s u = covers s u" if "u \<in> set (vtasks s)" "is_current s u" "unfinished u" for u
    using none [OF that(1)] nu that by (auto simp: covers_def to_cover_def is_current_def)
  have wc: "will_check ?s = will_check s"
    unfolding will_check_def c by (rule SUP_cong) (use cov in auto)
  have "tasks_inv ?s" unfolding tasks_inv_def task_ok_def queue_kept_def c using a none nu t(1) by auto
  moreover have "phase_inv ?s" using i' dk by (auto simp: phase_inv_def)
  moreover have "docs_inv ?s" using i' unfolding docs_inv_def w st dk wc c by simp
  ultimately show ?thesis by (simp add: inv_def)
qed

lemma inv_end_generation:
  assumes "inv s" "generation_is_done s"
  shows "inv (s\<lparr>working := False\<rparr>)" (is "inv ?s")
proof -
  have st: "same_tasks s ?s" by (simp add: same_tasks_def)
  have "generation_is_done ?s" using assms(2) by (simp add: generation_is_done_def is_current_def)
  then have "tasks_inv ?s"
    using assms(1) unfolding inv_def tasks_inv_def task_ok_def queue_kept_def by (simp add: is_current_def)
  moreover have "phase_inv ?s" using assms(1) by (auto simp: inv_def phase_inv_def differing_keys_def)
  moreover have "docs_inv ?s"
    by (rule same_tasks_docs [OF st]) (use assms(1) in \<open>auto simp: inv_def docs_inv_def settled_def differing_keys_def\<close>)
  ultimately show ?thesis by (simp add: inv_def)
qed


subsection \<open>The driver\<close>

definition recheck_creator :: "int \<Rightarrow> 'i vtask" where
  "recheck_creator g = \<lparr>vt_Type = ProcessRecheckQueue, vt_Status = Added, vt_Generation = g,
     vt_Namespace = [], vt_Keys = {}\<rparr>"

lemma ensure_create_eq:
  assumes "tasks_inv s"
  shows "ensure_create_recheck_task (generation s + 1) queue (vtasks s) =
    (if queue = {} \<or> list_ex (\<lambda>t. vt_Generation t = generation s + 1 \<and> vt_Type t = ProcessRecheckQueue) (vtasks s)
     then vtasks s else vtasks s @ [recheck_creator (generation s + 1)])"
proof -
  have "map (\<lambda>t. if vt_Generation t = generation s + 1 \<and> vt_Type t = ProcessRecheckQueue
          then restart_if_interrupted t else t) (vtasks s) = vtasks s"
    using assms by (intro map_idI) (auto simp: tasks_inv_def task_ok_def restart_if_interrupted_def)
  then show ?thesis by (simp add: ensure_create_recheck_task_def recheck_creator_def)
qed

lemma recheck_creator_simps [simp]:
  "vt_Type (recheck_creator g) = ProcessRecheckQueue" "vt_Status (recheck_creator g) = Added"
  "vt_Generation (recheck_creator g) = g" "unfinished (recheck_creator g)"
  by (simp_all add: recheck_creator_def unfinished_def)

lemma inv_create_next:
  assumes i: "inv s" and w: "\<not> working s"
  shows "inv (s\<lparr>vtasks := ensure_create_recheck_task (generation s + 1) queue (vtasks s)\<rparr>)"
proof (cases "queue = {} \<or> list_ex (\<lambda>t. vt_Generation t = generation s + 1 \<and> vt_Type t = ProcessRecheckQueue) (vtasks s)")
  case True
  then show ?thesis using i ensure_create_eq [of s queue] by (simp add: inv_def)
next
  case False
  let ?u = "recheck_creator (generation s + 1) :: 'a vtask"
  have t: "tasks_inv s" "generation s \<ge> 0" using i by (simp_all add: inv_def phase_inv_def)
  have "tasks_inv (s\<lparr>vtasks := vtasks s @ [?u]\<rparr>)"
  proof (rule tasks_append_general [OF t(1)])
    show "count_list (kinds (vtasks s @ [?u])) (ProcessRecheckQueue, g) \<le> 1" for g
    proof (cases "g = generation s + 1")
      case True
      with False have "count_list (kinds (vtasks s)) (ProcessRecheckQueue, g) = 0"
        by (intro count_kinds_other) (auto simp: list_ex_iff)
      then show ?thesis by (simp add: kinds_append) (simp add: kinds_def)
    next
      case False
      with t(1) show ?thesis by (simp add: kinds_append tasks_inv_def) (simp add: kinds_def)
    qed
  qed (use t(2) in \<open>simp_all add: task_ok_def queue_kept_def is_current_def\<close>)
  moreover have "docs_inv (s\<lparr>vtasks := vtasks s @ [?u]\<rparr>)"
    using i by (intro docs_append) (auto simp: inv_def)
  ultimately show ?thesis
    using i False ensure_create_eq [OF t(1), of queue] by (simp add: inv_def)
qed

lemma next_creator:
  assumes "tasks_inv s" "k \<in> queue"
  shows "\<exists>t \<in> set (ensure_create_recheck_task (generation s + 1) queue (vtasks s)).
    vt_Type t = ProcessRecheckQueue \<and> vt_Generation t = generation s + 1 \<and> unfinished t"
proof -
  have a: "vt_Generation t = generation s + 1 \<Longrightarrow> t \<in> set (vtasks s) \<Longrightarrow> unfinished t" for t
    using assms(1) by (auto simp: tasks_inv_def task_ok_def unfinished_def)
  show ?thesis using assms(2) a unfolding ensure_create_eq [OF assms(1)] by (auto simp: list_ex_iff)
qed

lemma inv_next_generation:
  assumes i: "inv s" and w: "\<not> working s" "\<not> lastGeneration s" "writesOff s \<longrightarrow> changeHandlingDone s"
  shows "inv (next_generation s)"
proof -
  let ?ts = "ensure_create_recheck_task (generation s + 1) (recheckQueues s (generation s + 1)) (vtasks s)"
  let ?s = "next_generation s"
  from inv_create_next [OF i w(1)] have i1: "tasks_inv (s\<lparr>vtasks := ?ts\<rparr>)" by (simp add: inv_def)
  note t = i1 [unfolded tasks_inv_def]
  note p = i [unfolded inv_def phase_inv_def docs_inv_def]
  have [simp]: "generation ?s = generation s + 1" "vtasks ?s = ?ts" "working ?s" "lastGeneration ?s = writesOff s"
    "recheckQueues ?s = recheckQueues s" "mismatched ?s = {}" "written ?s = {}"
    "persistedGeneration ?s = Some (generation s + 1)" "differing_keys ?s = differing_keys s"
    by (simp_all add: next_generation_def Let_def differing_keys_def)
  have old: "t \<in> set ?ts \<Longrightarrow> vt_Generation t \<le> generation s \<Longrightarrow> \<not> unfinished t" for t
    using t w(1) by (cases "vt_Generation t = generation s")
      (auto simp: generation_is_done_def list_ex_iff task_ok_def is_current_def)
  have "task_ok ?s t" if "t \<in> set ?ts" for t
    using t that old [OF that] by (fastforce simp: task_ok_def)
  moreover have "queue_kept ?s t u" if "t \<in> set ?ts" "u \<in> set ?ts" for t u
    using t that by (auto simp: queue_kept_def task_ok_def is_current_def)
  ultimately have tasks: "tasks_inv ?s" using t by (simp add: tasks_inv_def)
  have phase: "phase_inv ?s"
    using p w by (auto simp: phase_inv_def next_generation_def Let_def)
  have docs: "docs_inv ?s"
    unfolding docs_inv_def
  proof (intro conjI ballI impI)
    show "written ?s \<subseteq> waiting ?s" by simp
    show "differing_keys ?s \<subseteq> settled ?s \<union> will_check ?s"
    proof
      fix k assume "k \<in> differing_keys ?s"
      then have "k \<in> differing_keys s" by simp
      moreover have "will_check s = {}"
        using i w(1) by (auto simp: will_check_def inv_def tasks_inv_def generation_is_done_def list_ex_iff task_ok_def)
      ultimately have k: "k \<in> waiting s" using p w(2) by (auto simp: settled_def)
      show "k \<in> settled ?s \<union> will_check ?s"
      proof (cases "k \<in> recheckQueues s (generation s + 1)")
        case True
        from next_creator [OF _ True, of s] i obtain u where u: "u \<in> set ?ts" "vt_Type u = ProcessRecheckQueue"
          "vt_Generation u = generation s + 1" "unfinished u" by (auto simp: inv_def)
        then have "k \<in> covers ?s u" using True by (simp add: covers_def to_cover_def)
        with u show ?thesis by (auto simp: will_check_def is_current_def)
      next
        case False
        with k show ?thesis by (auto simp: settled_def waiting_def next_generation_def Let_def)
      qed
    qed
    show "differing_keys ?s \<inter> vt_Keys u \<subseteq> settled ?s"
      if "u \<in> set (vtasks ?s)" "vt_Type u = VerifyDocuments" "is_current ?s u" "\<not> unfinished u" for u
      using that t by (auto simp: task_ok_def is_current_def)
  qed
  from tasks phase docs show ?thesis by (simp add: inv_def)
qed

subsection \<open>Restarting\<close>

lemma restart_if_interrupted_simps [simp]:
  "vt_Type (restart_if_interrupted t) = vt_Type t" "vt_Generation (restart_if_interrupted t) = vt_Generation t"
  "vt_Namespace (restart_if_interrupted t) = vt_Namespace t" "vt_Keys (restart_if_interrupted t) = vt_Keys t"
  "unfinished (restart_if_interrupted t) = unfinished t"
  by (simp_all add: restart_if_interrupted_def unfinished_def)

lemma covers_restart [simp]: "covers s (restart_if_interrupted t) = covers s t"
    "is_current s (restart_if_interrupted t) = is_current s t"
  by (auto simp: covers_def to_cover_def is_current_def)

lemma task_ok_restart: "task_ok s t \<Longrightarrow> task_ok s (restart_if_interrupted t)"
  by (auto simp: task_ok_def) (auto simp: restart_if_interrupted_def)

lemma reset_tasks_mem: "t \<in> set (reset_tasks ts) \<longleftrightarrow>
    (\<exists>u \<in> set ts. t = restart_if_interrupted u \<and> \<not> list_ex (\<lambda>c. created_by_task c u) ts)"
  by (auto simp: reset_tasks_def)

lemma count_kinds_filter: "count_list (kinds (filter P ts)) a \<le> count_list (kinds ts) a"
  by (induction ts) (auto simp: kinds_def)

lemma kinds_reset: "kinds (reset_tasks ts) = kinds (filter (\<lambda>u. \<not> list_ex (\<lambda>t. created_by_task t u) ts) ts)"
  by (simp add: reset_tasks_def kinds_def comp_def)

lemma restart_simps:
  assumes "inv s"
  shows "generation (restart s) = generation s" "vtasks (restart s) = reset_tasks (vtasks s)" "working (restart s)"
    "is_current (restart s) = is_current s" "covers (restart s) = covers s" "waiting s \<subseteq> waiting (restart s)"
    "\<not> lastGeneration (restart s)" "differing_keys (restart s) = differing_keys s" "written (restart s) = written s"
    "recheckQueues (restart s) = recheckQueues s"
  using assms set_drop_subset [of "srcHandled s" "srcChanges s"] set_drop_subset [of "dstHandled s" "dstChanges s"]
  by (auto simp: restart_def inv_def phase_inv_def is_current_def covers_def to_cover_def waiting_def
      differing_keys_def fun_eq_iff)

lemma created_by_current:
  assumes "tasks_inv s" "c \<in> set (vtasks s)" "u \<in> set (vtasks s)" "created_by_task c u" "is_current s u" "0 \<le> generation s"
  shows "is_current s c \<and> unfinished c \<and> vt_Keys u \<subseteq> covers s c \<and> vt_Type c \<noteq> VerifyDocuments"
proof -
  note t = assms(1) [unfolded tasks_inv_def]
  have c: "unfinished c" using assms(4) by (auto simp: created_by_task_def unfinished_def)
  then have g: "vt_Generation c \<ge> generation s" using t assms(2) by (auto simp: task_ok_def)
  from assms(4) consider "vt_Type c = VerifyCollection" "vt_Generation c = 0" "vt_Namespace u = vt_Namespace c"
    | "vt_Type c = ProcessRecheckQueue" "vt_Generation u = vt_Generation c" by (auto simp: created_by_task_def)
  then show ?thesis
  proof cases
    case 1
    with g assms(6) have "generation s = 0" by simp
    moreover have "vt_Keys u \<subseteq> {k. fst k = vt_Namespace u}"
      using t assms(3-5) \<open>generation s = 0\<close> unfolding task_ok_def is_current_def created_by_task_def by metis
    ultimately show ?thesis using 1 c
      by (simp add: is_current_def covers_def to_cover_def)
  next
    case 2
    with assms(5) have "is_current s c" by (simp add: is_current_def)
    moreover from this 2 c t assms have "vt_Keys u \<subseteq> recheckQueues s (generation s)"
      by (auto simp: queue_kept_def created_by_task_def)
    ultimately show ?thesis using 2 c by (simp add: covers_def to_cover_def is_current_def)
  qed
qed

lemma will_check_restart:
  assumes "inv s"
  shows "will_check s \<subseteq> will_check (restart s)"
proof
  note r = restart_simps [OF assms]
  have t: "tasks_inv s" "0 \<le> generation s" using assms by (simp_all add: inv_def phase_inv_def)
  fix k assume "k \<in> will_check s"
  then obtain u where u: "u \<in> set (vtasks s)" "is_current s u" "unfinished u" "k \<in> covers s u"
    by (auto simp: will_check_def)
  have kept: "k \<in> will_check (restart s)"
    if "c \<in> set (vtasks s)" "is_current s c" "unfinished c" "k \<in> covers s c" "\<not> list_ex (\<lambda>t. created_by_task t c) (vtasks s)" for c
    unfolding will_check_def r
    by (rule UN_I [of "restart_if_interrupted c"])
      (use that in \<open>auto simp: reset_tasks_mem\<close>)
  show "k \<in> will_check (restart s)"
  proof (cases "list_ex (\<lambda>t. created_by_task t u) (vtasks s)")
    case False with kept u show ?thesis by blast
  next
    case True
    then obtain c where c: "c \<in> set (vtasks s)" "created_by_task c u" by (auto simp: list_ex_iff)
    note cc = created_by_current [OF t(1) c(1) u(1) c(2) u(2) t(2)]
    from c(2) u(4) have "k \<in> vt_Keys u" by (simp add: covers_def created_by_task_def)
    moreover have "\<not> list_ex (\<lambda>t. created_by_task t c) (vtasks s)"
      using cc by (auto simp: list_ex_iff created_by_task_def)
    ultimately show ?thesis using kept [OF c(1)] cc by blast
  qed
qed

lemma inv_restart:
  assumes i: "inv s" and g: "\<not> lastGeneration s \<or> mismatched s = {}"
  shows "inv (restart s)"
proof -
  note r = restart_simps [OF i]
  note t = i [unfolded inv_def tasks_inv_def, THEN conjunct1]
  have se: "settled s \<subseteq> settled (restart s)" using g r(6) by (auto simp: settled_def)
  have "task_ok (restart s) u" if "u \<in> set (reset_tasks (vtasks s))" for u
  proof -
    from that obtain v where "v \<in> set (vtasks s)" "u = restart_if_interrupted v" by (auto simp: reset_tasks_mem)
    with t task_ok_restart [of s v] show ?thesis by (simp add: task_ok_def r)
  qed
  moreover have "queue_kept (restart s) u v"
    if "u \<in> set (reset_tasks (vtasks s))" "v \<in> set (reset_tasks (vtasks s))" for u v
    using that t by (fastforce simp: reset_tasks_mem queue_kept_def r is_current_def)
  moreover have "count_list (kinds (reset_tasks (vtasks s))) (ProcessRecheckQueue, h) \<le> 1" for h
    unfolding kinds_reset using t order_trans [OF count_kinds_filter] by blast
  ultimately have "tasks_inv (restart s)" unfolding tasks_inv_def r(2) using r(3) by simp
  moreover have "phase_inv (restart s)"
    using i by (auto simp: restart_def inv_def phase_inv_def)
  moreover have "docs_inv (restart s)"
    unfolding docs_inv_def r
  proof (intro conjI ballI impI)
    note d = i [unfolded inv_def docs_inv_def]
    show "written s \<subseteq> waiting (restart s)" using d r(6) by blast
    show "differing_keys s \<subseteq> settled (restart s) \<union> will_check (restart s)"
      using d se will_check_restart [OF i] by blast
    show "differing_keys s \<inter> vt_Keys u \<subseteq> settled (restart s)"
      if u: "u \<in> set (reset_tasks (vtasks s))" "vt_Type u = VerifyDocuments" "is_current s u" "\<not> unfinished u" for u
    proof -
      from u obtain v where "v \<in> set (vtasks s)" "u = restart_if_interrupted v" by (auto simp: reset_tasks_mem)
      with u d have "differing_keys s \<inter> vt_Keys v \<subseteq> settled s" by (auto simp: is_current_def)
      with \<open>u = restart_if_interrupted v\<close> se show ?thesis by auto
    qed
  qed
  ultimately show ?thesis by (simp add: inv_def)
qed

section \<open>Soundness\<close>

lemma inv_step: "step s s' \<Longrightarrow> inv s \<Longrightarrow> inv s'"
proof (induction rule: step.induct)
  case (report_some s i problems ks)
  then show ?case by (intro inv_report)
next
  case (restart_before_reports s)
  then show ?case by (intro inv_restart)
next
  case (finish_documents s i problems)
  then show ?case by (intro inv_finish_documents) auto
next
  case (create_document_tasks s i ty ts)
  then show ?case by (intro inv_create_document_tasks)
next
  case (finish_creating s i ty st)
  then show ?case by (intro inv_finish_creating)
qed (auto intro: inv_write_src inv_write_dst inv_handle_src inv_handle_dst inv_token_src inv_token_dst inv_writes_off
    inv_change_handling_ends inv_take_task inv_insert_failed_collection inv_drop_queue inv_end_generation
    inv_end_verification inv_create_next inv_next_generation)

lemma inv_initial:
  assumes "initial s"
  shows "inv s"
proof -
  note i = assms [unfolded initial_def]
  have c: "count_list (kinds (vtasks s)) (ProcessRecheckQueue, g) = 0" for g
    by (rule count_kinds_other) (use i in auto)
  have w: "waiting s = {}" "settled s = {}" using i by (auto simp: waiting_def settled_def)
  have "k \<in> will_check s" if "k \<in> differing_keys s" for k
  proof -
    from i that obtain t where t: "t \<in> set (vtasks s)" "vt_Namespace t = fst k" unfolding differing_keys_def by blast
    with i have "k \<in> covers s t" "is_current s t" "unfinished t"
      by (auto simp: covers_def to_cover_def is_current_def unfinished_def)
    with t show ?thesis by (auto simp: will_check_def)
  qed
  moreover have "tasks_inv s" using i c by (auto simp: tasks_inv_def task_ok_def queue_kept_def unfinished_def)
  moreover have "phase_inv s" using i by (simp add: phase_inv_def)
  moreover have "docs_inv s"
    unfolding docs_inv_def w using i calculation(1) by (auto simp: is_current_def unfinished_def)
  ultimately show ?thesis by (simp add: inv_def)
qed

lemma inv_reachable: "step\<^sup>*\<^sup>* s s' \<Longrightarrow> initial s \<Longrightarrow> inv s'"
  by (induction rule: rtranclp_induct) (auto intro: inv_initial inv_step)

lemma inv_finished:
  assumes "inv s" "finished s"
  shows "mismatched s = differing_keys s"
proof -
  note i = assms(1) [unfolded inv_def phase_inv_def]
  from i assms(2) have l: "lastGeneration s" "\<not> working s" by simp_all
  with i have "waiting s = {}" by (auto simp: waiting_def)
  moreover have "will_check s = {}"
    using i l by (auto simp: will_check_def tasks_inv_def generation_is_done_def list_ex_iff task_ok_def)
  ultimately show ?thesis using i l by (auto simp: docs_inv_def settled_def)
qed



subsection \<open>A run\<close>

text \<open>
  One document is written on the source only, and the write is handled in generation 0; the last
  generation finds the difference.
\<close>

definition the_key :: "nat key" where "the_key = (''db.c'', 0)"

definition run_state :: "int \<Rightarrow> bool \<Rightarrow> bool \<Rightarrow> bool \<Rightarrow> bool \<Rightarrow> bool \<Rightarrow> (int \<Rightarrow> nat key set) \<Rightarrow> nat vtask list
    \<Rightarrow> bool \<Rightarrow> nat key list \<Rightarrow> nat \<Rightarrow> nat key set \<Rightarrow> nat key set \<Rightarrow> (nat, nat) verifier_sys" where
  "run_state g lst off done wrk fin q ts isWritten ch h mm wr =
     \<lparr>generation = g, lastGeneration = lst, writesOff = off, readersTold = off, changeHandlingDone = done,
      working = wrk, finished = fin, persistedGeneration = Some g, recheckQueues = q, vtasks = ts,
      srcDocs = (if isWritten then (\<lambda>_. None)(the_key := Some 1) else (\<lambda>_. None)), dstDocs = (\<lambda>_. None),
      srcChanges = ch, dstChanges = [], srcHandled = h, dstHandled = 0, mismatched = mm, written = wr\<rparr>"

definition creator :: "task_status \<Rightarrow> nat vtask" where
  "creator st = \<lparr>vt_Type = ProcessRecheckQueue, vt_Status = st, vt_Generation = 1, vt_Namespace = [], vt_Keys = {}\<rparr>"

definition checker :: "task_status \<Rightarrow> nat vtask" where
  "checker st = \<lparr>vt_Type = VerifyDocuments, vt_Status = st, vt_Generation = 1, vt_Namespace = ''db.c'',
     vt_Keys = {the_key}\<rparr>"

abbreviation (input) queue1 :: "int \<Rightarrow> nat key set" where "queue1 \<equiv> (\<lambda>_. {})(1 := {the_key})"

lemmas run_defs = run_state_def creator_def checker_def enqueue_rechecks_def writes_off_def generation_is_done_def
  next_generation_def ensure_create_recheck_task_def set_status_def running_task_def new_document_tasks_def
  to_cover_def is_covered_def found_problems_def report_problems_def is_current_def unfinished_def Let_def
  restart_def reset_tasks_def created_by_task_def restart_if_interrupted_def

lemmas next_step = converse_rtranclp_into_rtranclp [where r = step]

lemma run_first_generation:
  "step\<^sup>*\<^sup>* (run_state 0 False False False True False (\<lambda>_. {}) [] False [] 0 {} {})
          (run_state 0 False True True False False queue1 [] True [] 0 {} {the_key})"
proof -
  have a1: "step (run_state 0 False False False True False (\<lambda>_. {}) [] False [] 0 {} {})
      (run_state 0 False False False True False (\<lambda>_. {}) [] True [the_key] 0 {} {the_key})"
    using step.write_src [of "run_state 0 False False False True False (\<lambda>_. {}) [] False [] 0 {} {}" the_key "Some 1"]
    by (simp add: run_state_def)
  have a2: "step (run_state 0 False False False True False (\<lambda>_. {}) [] True [the_key] 0 {} {the_key})
      (run_state 0 False False False True False queue1 [] True [the_key] 1 {} {the_key})"
    using step.handle_src [of "run_state 0 False False False True False (\<lambda>_. {}) [] True [the_key] 0 {} {the_key}"]
    by (simp add: run_defs)
  have a3: "step (run_state 0 False False False True False queue1 [] True [the_key] 1 {} {the_key})
      (run_state 0 False False False True False queue1 [] True [] 0 {} {the_key})"
    using step.token_src [of 1 "run_state 0 False False False True False queue1 [] True [the_key] 1 {} {the_key}"]
    by (simp add: run_state_def)
  have a4: "step (run_state 0 False False False True False queue1 [] True [] 0 {} {the_key})
      (run_state 0 False False False False False queue1 [] True [] 0 {} {the_key})"
    using step.end_generation [of "run_state 0 False False False True False queue1 [] True [] 0 {} {the_key}"]
    by (simp add: run_defs)
  have a5: "step (run_state 0 False False False False False queue1 [] True [] 0 {} {the_key})
      (run_state 0 False True False False False queue1 [] True [] 0 {} {the_key})"
    by (rule step.call_writes_off [where e = None and r = None]) (simp add: run_defs)
  have a6: "step (run_state 0 False True False False False queue1 [] True [] 0 {} {the_key})
      (run_state 0 False True True False False queue1 [] True [] 0 {} {the_key})"
    using step.change_handling_ends [of "run_state 0 False True False False False queue1 [] True [] 0 {} {the_key}"]
    by (simp add: run_state_def)
  show ?thesis
    by (rule a1 [THEN next_step, OF a2 [THEN next_step, OF a3 [THEN next_step, OF a4 [THEN next_step,
      OF a5 [THEN next_step, OF a6 [THEN next_step, OF rtranclp.rtrancl_refl]]]]]])
qed

lemma run_last_generation:
  "step\<^sup>*\<^sup>* (run_state 0 False True True False False queue1 [] True [] 0 {} {the_key})
          (run_state 1 True True True True False queue1 [creator Completed, checker Failed] True [] 0 {the_key} {})"
proof -
  have a1: "step (run_state 0 False True True False False queue1 [] True [] 0 {} {the_key})
      (run_state 1 True True True True False queue1 [creator Added] True [] 0 {} {})"
    using step.start_next [of "(run_state 0 False True True False False queue1 [] True [] 0 {} {the_key})"]
    by (simp add: run_defs conj_disj_distribR ex_disj_distrib)
  have a2: "step (run_state 1 True True True True False queue1 [creator Added] True [] 0 {} {})
      (run_state 1 True True True True False queue1 [creator Processing] True [] 0 {} {})"
    using step.take_task [of "(run_state 1 True True True True False queue1 [creator Added] True [] 0 {} {})" 0]
    by (simp add: run_defs conj_disj_distribR ex_disj_distrib)
  have a3: "step (run_state 1 True True True True False queue1 [creator Processing] True [] 0 {} {})
      (run_state 1 True True True True False queue1 [creator Processing, checker Added] True [] 0 {} {})"
    using step.create_document_tasks [of "(run_state 1 True True True True False queue1 [creator Processing] True [] 0 {} {})" 0 ProcessRecheckQueue "[checker Added]"]
    by (simp add: run_defs conj_disj_distribR ex_disj_distrib)
  have a4: "step (run_state 1 True True True True False queue1 [creator Processing, checker Added] True [] 0 {} {})
      (run_state 1 True True True True False queue1 [creator Completed, checker Added] True [] 0 {} {})"
    using step.finish_creating [of "(run_state 1 True True True True False queue1 [creator Processing, checker Added] True [] 0 {} {})" 0 ProcessRecheckQueue Completed]
    by (simp add: run_defs conj_disj_distribR ex_disj_distrib)
  have a5: "step (run_state 1 True True True True False queue1 [creator Completed, checker Added] True [] 0 {} {})
      (run_state 1 True True True True False queue1 [creator Completed, checker Processing] True [] 0 {} {})"
    using step.take_task [of "(run_state 1 True True True True False queue1 [creator Completed, checker Added] True [] 0 {} {})" 1]
    by (simp add: run_defs conj_disj_distribR ex_disj_distrib)
  have a6: "step (run_state 1 True True True True False queue1 [creator Completed, checker Processing] True [] 0 {} {})
      (run_state 1 True True True True False queue1 [creator Completed, checker Failed] True [] 0 {the_key} {})"
    using step.finish_documents [of "(run_state 1 True True True True False queue1 [creator Completed, checker Processing] True [] 0 {} {})" 1 "{the_key}"]
    by (simp add: run_defs conj_disj_distribR ex_disj_distrib)
  show ?thesis
    by (rule a1 [THEN next_step, OF a2 [THEN next_step, OF a3 [THEN next_step, OF a4 [THEN next_step, OF a5 [THEN next_step, OF a6 [THEN next_step, OF rtranclp.rtrancl_refl]]]]]])
qed

lemma run_end:
  "step\<^sup>*\<^sup>* (run_state 1 True True True True False queue1 [creator Completed, checker Failed] True [] 0 {the_key} {})
          (run_state 1 True True True False True queue1 [creator Completed, checker Failed] True [] 0 {the_key} {})"
proof -
  have a1: "step (run_state 1 True True True True False queue1 [creator Completed, checker Failed] True [] 0 {the_key} {})
      (run_state 1 True True True False False queue1 [creator Completed, checker Failed] True [] 0 {the_key} {})"
    using step.end_generation [of "(run_state 1 True True True True False queue1 [creator Completed, checker Failed] True [] 0 {the_key} {})"]
    by (simp add: run_defs conj_disj_distribR ex_disj_distrib)
  have a2: "step (run_state 1 True True True False False queue1 [creator Completed, checker Failed] True [] 0 {the_key} {})
      (run_state 1 True True True False True queue1 [creator Completed, checker Failed] True [] 0 {the_key} {})"
    using step.end_verification [of "(run_state 1 True True True False False queue1 [creator Completed, checker Failed] True [] 0 {the_key} {})"]
    by (simp add: run_defs conj_disj_distribR ex_disj_distrib)
  show ?thesis
    by (rule a1 [THEN next_step, OF a2 [THEN next_step, OF rtranclp.rtrancl_refl]])
qed

lemma run_after_restart:
  "step\<^sup>*\<^sup>* (run_state 1 False False False True False queue1 [creator Completed, checker Failed] True [] 0 {the_key} {})
          (run_state 2 True True True False True queue1 [creator Completed, checker Failed] True [] 0 {} {})"
proof -
  have a1: "step (run_state 1 False False False True False queue1 [creator Completed, checker Failed] True [] 0 {the_key} {})
      (run_state 1 False False False False False queue1 [creator Completed, checker Failed] True [] 0 {the_key} {})"
    using step.end_generation [of "(run_state 1 False False False True False queue1 [creator Completed, checker Failed] True [] 0 {the_key} {})"]
    by (simp add: run_defs conj_disj_distribR ex_disj_distrib)
  have a2: "step (run_state 1 False False False False False queue1 [creator Completed, checker Failed] True [] 0 {the_key} {})
      (run_state 1 False True False False False queue1 [creator Completed, checker Failed] True [] 0 {the_key} {})"
    using step.call_writes_off [of None "(run_state 1 False False False False False queue1 [creator Completed, checker Failed] True [] 0 {the_key} {})" None "(run_state 1 False True False False False queue1 [creator Completed, checker Failed] True [] 0 {the_key} {})"]
    by (simp add: run_defs conj_disj_distribR ex_disj_distrib)
  have a3: "step (run_state 1 False True False False False queue1 [creator Completed, checker Failed] True [] 0 {the_key} {})
      (run_state 1 False True True False False queue1 [creator Completed, checker Failed] True [] 0 {the_key} {})"
    using step.change_handling_ends [of "(run_state 1 False True False False False queue1 [creator Completed, checker Failed] True [] 0 {the_key} {})"]
    by (simp add: run_defs conj_disj_distribR ex_disj_distrib)
  have a4: "step (run_state 1 False True True False False queue1 [creator Completed, checker Failed] True [] 0 {the_key} {})
      (run_state 2 True True True True False queue1 [creator Completed, checker Failed] True [] 0 {} {})"
    using step.start_next [of "(run_state 1 False True True False False queue1 [creator Completed, checker Failed] True [] 0 {the_key} {})"]
    by (simp add: run_defs conj_disj_distribR ex_disj_distrib)
  have a5: "step (run_state 2 True True True True False queue1 [creator Completed, checker Failed] True [] 0 {} {})
      (run_state 2 True True True False False queue1 [creator Completed, checker Failed] True [] 0 {} {})"
    using step.end_generation [of "(run_state 2 True True True True False queue1 [creator Completed, checker Failed] True [] 0 {} {})"]
    by (simp add: run_defs conj_disj_distribR ex_disj_distrib)
  have a6: "step (run_state 2 True True True False False queue1 [creator Completed, checker Failed] True [] 0 {} {})
      (run_state 2 True True True False True queue1 [creator Completed, checker Failed] True [] 0 {} {})"
    using step.end_verification [of "(run_state 2 True True True False False queue1 [creator Completed, checker Failed] True [] 0 {} {})"]
    by (simp add: run_defs conj_disj_distribR ex_disj_distrib)
  show ?thesis
    by (rule a1 [THEN next_step, OF a2 [THEN next_step, OF a3 [THEN next_step, OF a4 [THEN next_step, OF a5 [THEN next_step, OF a6 [THEN next_step, OF rtranclp.rtrancl_refl]]]]]])
qed

text \<open>A process may also be stopped and restarted later.\<close>

inductive any_step :: "('i, 'v) verifier_sys \<Rightarrow> ('i, 'v) verifier_sys \<Rightarrow> bool" where
  normal_step: "step s s' \<Longrightarrow> any_step s s'"
| late_restart: "any_step s (restart s)"

lemma any_steps: "step\<^sup>*\<^sup>* s s' \<Longrightarrow> any_step\<^sup>*\<^sup>* s s'"
  by (induction rule: rtranclp_induct) (auto intro: normal_step rtranclp.rtrancl_into_rtrancl)

lemma run_is_initial: "initial (run_state 0 False False False True False (\<lambda>_. {}) [] False [] 0 {} {})"
  by (simp add: initial_def run_state_def)



text \<open>C34: A restart in the last generation loses the differences already found in it: they were not
  enqueued, their task is over, and the generation that is last after the restart has nothing to
  check. The verification then ends without a mismatch although the clusters differ.\<close>

theorem restart_in_last_generation_loses_mismatches:
  "\<exists>(s0 :: (nat, nat) verifier_sys) s k. initial s0 \<and> any_step\<^sup>*\<^sup>* s0 s \<and> finished s
    \<and> srcDocs s k \<noteq> dstDocs s k \<and> mismatched s = {}"
proof -
  have r: "restart (run_state 1 True True True True False queue1 [creator Completed, checker Failed] True [] 0 {the_key} {}) = (run_state 1 False False False True False queue1 [creator Completed, checker Failed] True [] 0 {the_key} {})"
    by (simp add: run_defs)
  have "any_step\<^sup>*\<^sup>* (run_state 0 False False False True False (\<lambda>_. {}) [] False [] 0 {} {}) (run_state 1 True True True True False queue1 [creator Completed, checker Failed] True [] 0 {the_key} {})"
    by (rule any_steps [OF rtranclp_trans [OF run_first_generation run_last_generation]])
  also have "any_step (run_state 1 True True True True False queue1 [creator Completed, checker Failed] True [] 0 {the_key} {}) (run_state 1 False False False True False queue1 [creator Completed, checker Failed] True [] 0 {the_key} {})"
    using late_restart [of "(run_state 1 True True True True False queue1 [creator Completed, checker Failed] True [] 0 {the_key} {})"] unfolding r .
  also have "any_step\<^sup>*\<^sup>* (run_state 1 False False False True False queue1 [creator Completed, checker Failed] True [] 0 {the_key} {}) (run_state 2 True True True False True queue1 [creator Completed, checker Failed] True [] 0 {} {})"
    by (rule any_steps [OF run_after_restart])
  finally have "any_step\<^sup>*\<^sup>* (run_state 0 False False False True False (\<lambda>_. {}) [] False [] 0 {} {}) (run_state 2 True True True False True queue1 [creator Completed, checker Failed] True [] 0 {} {})" .
  moreover have "finished (run_state 2 True True True False True queue1 [creator Completed, checker Failed] True [] 0 {} {})" "mismatched (run_state 2 True True True False True queue1 [creator Completed, checker Failed] True [] 0 {} {}) = {}"
    "srcDocs (run_state 2 True True True False True queue1 [creator Completed, checker Failed] True [] 0 {} {}) the_key \<noteq> dstDocs (run_state 2 True True True False True queue1 [creator Completed, checker Failed] True [] 0 {} {}) the_key"
    by (simp_all add: run_state_def)
  ultimately show ?thesis using run_is_initial by blast
qed

section \<open>A failed WritesOff\<close>

definition running_step :: "('i, 'v) verifier_sys \<Rightarrow> ('i, 'v) verifier_sys \<Rightarrow> bool" where
  "running_step s s' \<longleftrightarrow> step s s' \<and> s' \<noteq> restart s"

definition stuck :: "('i, 'v) verifier_sys \<Rightarrow> bool" where
  "stuck s \<longleftrightarrow> writesOff s \<and> \<not> readersTold s \<and> \<not> changeHandlingDone s \<and> \<not> lastGeneration s \<and> \<not> finished s"

lemma report_phase [simp]:
  "writesOff (report_problems ks s) = writesOff s" "readersTold (report_problems ks s) = readersTold s"
  "changeHandlingDone (report_problems ks s) = changeHandlingDone s" "finished (report_problems ks s) = finished s"
  by (simp_all add: report_problems_def Let_def)

lemma set_status_phase [simp]:
  "writesOff (set_status i st s) = writesOff s" "readersTold (set_status i st s) = readersTold s"
  "changeHandlingDone (set_status i st s) = changeHandlingDone s" "finished (set_status i st s) = finished s"
  by (simp_all add: set_status_def)

lemma stuck_step: "step s s' \<Longrightarrow> stuck s \<Longrightarrow> s' \<noteq> restart s \<Longrightarrow> stuck s'"
  by (induction rule: step.induct) (auto simp: stuck_def writes_off_def)

lemma stuck_steps: "running_step\<^sup>*\<^sup>* s s' \<Longrightarrow> stuck s \<Longrightarrow> stuck s'"
  by (induction rule: rtranclp_induct) (auto simp: running_step_def intro: stuck_step)

text \<open>A call of \<open>WritesOff\<close> that fails to fetch a cluster time leaves the flag set without telling the
  change readers: every later call fails, and until the process is restarted the verification never
  ends, whatever happens.\<close>

theorem failed_writes_off_blocks:
  assumes "initial s0" "step\<^sup>*\<^sup>* s0 s" "\<not> writesOff s" "running_step\<^sup>*\<^sup>* (snd (writes_off (Some e) s)) s'"
  shows "fst (writes_off (Some e) s) = Some e \<and> \<not> finished s' \<and> fst (writes_off e' s') \<noteq> None"
proof -
  have "inv s" by (rule inv_reachable [OF assms(2,1)])
  with assms(3) have "stuck (snd (writes_off (Some e) s))"
    by (auto simp: stuck_def writes_off_def inv_def phase_inv_def)
  from stuck_steps [OF assms(4) this] have "stuck s'" .
  with assms(3) show ?thesis by (simp add: stuck_def writes_off_def)
qed

theorem failed_writes_off_blocks_witness:
  "fst (writes_off None (snd (writes_off (Some NoDocuments)
     (run_state 0 False False False True False (\<lambda>_. {}) [] False [] 0 {} {})))) \<noteq> None"
  using failed_writes_off_blocks [OF run_is_initial rtranclp.rtrancl_refl _ rtranclp.rtrancl_refl,
      where e = NoDocuments and e' = None]
  by (simp add: run_state_def)

section \<open>The persisted generation\<close>

record generation_doc =
  gd_Generation :: int
  gd_MetadataVersion :: int
  gd_SourceChangeReaderOpt :: string
  gd_DestinationChangeReaderOpt :: string

definition verifierMetadataVersion :: int where "verifierMetadataVersion = 7"

text \<open>The collection holds at most one document; the count of changed documents is the server's.\<close>

definition persist_generation :: "int \<Rightarrow> string \<Rightarrow> string \<Rightarrow> nat \<Rightarrow> generation_doc option
     \<Rightarrow> go_error + generation_doc option" where
  "persist_generation g srcOpt dstOpt changedCount coll =
     (if changedCount \<noteq> 1 then Inl (Panic ''persist of generation should affect exactly 1 doc!'')
      else Inr (Some \<lparr>gd_Generation = g, gd_MetadataVersion = verifierMetadataVersion,
                      gd_SourceChangeReaderOpt = srcOpt, gd_DestinationChangeReaderOpt = dstOpt\<rparr>))"

definition read_generation :: "string \<Rightarrow> string \<Rightarrow> generation_doc option \<Rightarrow> go_error + int option" where
  "read_generation srcOpt dstOpt coll =
     (case coll of
        None \<Rightarrow> Inr None
      | Some parsed \<Rightarrow>
          if gd_MetadataVersion parsed \<noteq> verifierMetadataVersion then Inl (Err ''persisted metadata predates this build'')
          else if gd_SourceChangeReaderOpt parsed \<noteq> srcOpt then Inl (Err ''new src change reader opt'')
          else if gd_DestinationChangeReaderOpt parsed \<noteq> dstOpt then Inl (Err ''new dst change reader opt'')
          else Inr (Some (gd_Generation parsed)))"

lemma read_persisted_generation:
  "persist_generation g srcOpt dstOpt n coll = Inr coll' \<Longrightarrow>
     read_generation srcOpt' dstOpt' coll' =
       (if srcOpt \<noteq> srcOpt' then Inl (Err ''new src change reader opt'')
        else if dstOpt \<noteq> dstOpt' then Inl (Err ''new dst change reader opt'') else Inr (Some g))"
  by (auto simp: persist_generation_def read_generation_def split: if_splits)

end
