(* ===== verification/Keystring.thy ===== *)
theory Keystring
  imports Bson_Core
begin

text \<open>
  The decoder of MongoDB's KeyString format (\<open>internal/keystring/keystring_decoder.go\<close>), which reads
  the cluster time out of a change stream's resume token. The buffer is the list of bytes that are
  left of it; an error ends the decoding, so what it has consumed then does not matter. A Go
  \<open>float64\<close> is its bits.
\<close>

section \<open>Type bytes\<close>

abbreviation kMinKey :: int where "kMinKey \<equiv> 10"
abbreviation kUndefined :: int where "kUndefined \<equiv> 15"
abbreviation kNullish :: int where "kNullish \<equiv> 20"
abbreviation kNumeric :: int where "kNumeric \<equiv> 30"
abbreviation kStringLike :: int where "kStringLike \<equiv> 60"
abbreviation kObject :: int where "kObject \<equiv> 70"
abbreviation kArray :: int where "kArray \<equiv> 80"
abbreviation kBinData :: int where "kBinData \<equiv> 90"
abbreviation kOID :: int where "kOID \<equiv> 100"
abbreviation kDate :: int where "kDate \<equiv> 120"
abbreviation kTimestamp :: int where "kTimestamp \<equiv> 130"
abbreviation kRegEx :: int where "kRegEx \<equiv> 140"
abbreviation kDBRef :: int where "kDBRef \<equiv> 150"
abbreviation kCode :: int where "kCode \<equiv> 160"
abbreviation kCodeWithScope :: int where "kCodeWithScope \<equiv> 170"
abbreviation kMaxKey :: int where "kMaxKey \<equiv> 240"
abbreviation kNumericNaN :: int where "kNumericNaN \<equiv> 30"
abbreviation kNumericNegativeLargeMagnitude :: int where "kNumericNegativeLargeMagnitude \<equiv> 31"
abbreviation kNumericNegative8ByteInt :: int where "kNumericNegative8ByteInt \<equiv> 32"
abbreviation kNumericNegative1ByteInt :: int where "kNumericNegative1ByteInt \<equiv> 39"
abbreviation kNumericNegativeSmallMagnitude :: int where "kNumericNegativeSmallMagnitude \<equiv> 40"
abbreviation kNumericZero :: int where "kNumericZero \<equiv> 41"
abbreviation kNumericPositiveSmallMagnitude :: int where "kNumericPositiveSmallMagnitude \<equiv> 42"
abbreviation kNumericPositive1ByteInt :: int where "kNumericPositive1ByteInt \<equiv> 43"
abbreviation kNumericPositive8ByteInt :: int where "kNumericPositive8ByteInt \<equiv> 50"
abbreviation kNumericPositiveLargeMagnitude :: int where "kNumericPositiveLargeMagnitude \<equiv> 51"
abbreviation kBoolFalse :: int where "kBoolFalse \<equiv> 110"
abbreviation kBoolTrue :: int where "kBoolTrue \<equiv> 111"
abbreviation kEnd :: int where "kEnd \<equiv> 4"
abbreviation kLess :: int where "kLess \<equiv> 1"
abbreviation kGreater :: int where "kGreater \<equiv> 254"

definition num_bytes_for_int :: "int \<Rightarrow> int" where
  "num_bytes_for_int ctype =
     (if ctype \<ge> kNumericPositive1ByteInt then ctype - kNumericPositive1ByteInt + 1
      else kNumericNegative1ByteInt - ctype + 1)"

section \<open>Reading the buffer\<close>

definition unexpected_end :: go_error where
  "unexpected_end = Err ''unexpected end of input''"

definition read_uint8 :: "bytes \<Rightarrow> go_error + byte \<times> bytes" where
  "read_uint8 buf = (case buf of [] \<Rightarrow> Inl unexpected_end | b # rest \<Rightarrow> Inr (b, rest))"

definition read_uint32_be :: "bytes \<Rightarrow> go_error + u32 \<times> bytes" where
  "read_uint32_be buf =
     rbind (read_uint8 buf) (\<lambda>(b3, buf).
     rbind (read_uint8 buf) (\<lambda>(b2, buf).
     rbind (read_uint8 buf) (\<lambda>(b1, buf).
     rbind (read_uint8 buf) (\<lambda>(b0, buf).
       Inr (push_bit 24 (ucast b3) OR push_bit 16 (ucast b2) OR push_bit 8 (ucast b1) OR ucast b0, buf)))))"

definition read_uint64_be :: "bytes \<Rightarrow> go_error + u64 \<times> bytes" where
  "read_uint64_be buf =
     rbind (read_uint32_be buf) (\<lambda>(w1, buf).
     rbind (read_uint32_be buf) (\<lambda>(w0, buf). Inr (push_bit 32 (ucast w1) OR ucast w0, buf)))"

definition read_bytes :: "nat \<Rightarrow> bytes \<Rightarrow> go_error + bytes \<times> bytes" where
  "read_bytes n buf = (if n > length buf then Inl unexpected_end else Inr (take n buf, drop n buf))"

definition read_cstring :: "bytes \<Rightarrow> go_error + string \<times> bytes" where
  "read_cstring buf =
     rbind (read_bytes (length (takeWhile (\<lambda>b. b \<noteq> 0) buf)) buf) (\<lambda>(bytestr, buf).
     rbind (read_uint8 buf) (\<lambda>(_, buf). Inr (bytes_str bytestr, buf)))"

lemma read_uint8_Inr: "read_uint8 buf = Inr (b, rest) \<longleftrightarrow> buf = b # rest"
  by (auto simp: read_uint8_def split: list.splits)

lemma read_uint8_Cons [simp]: "read_uint8 (b # rest) = Inr (b, rest)"
  by (simp add: read_uint8_def)

lemma read_bytes_length: "read_bytes n buf = Inr (bs, rest) \<Longrightarrow> length rest \<le> length buf"
  by (auto simp: read_bytes_def split: if_splits)

lemma read_cstring_length: "read_cstring buf = Inr (s, rest) \<Longrightarrow> length rest < length buf"
  by (auto simp: read_cstring_def rbind_eq_Inr read_uint8_Inr dest!: read_bytes_length)

lemma read_uint32_be_length: "read_uint32_be buf = Inr (w, rest) \<Longrightarrow> length rest < length buf"
  by (auto simp: read_uint32_be_def rbind_eq_Inr read_uint8_Inr)

lemma read_uint64_be_length: "read_uint64_be buf = Inr (w, rest) \<Longrightarrow> length rest < length buf"
  by (auto simp: read_uint64_be_def rbind_eq_Inr dest!: read_uint32_be_length)

text \<open>A NUL inside a string is followed by \<open>0xff\<close>.\<close>

function read_more_cstrings :: "string \<Rightarrow> bytes \<Rightarrow> go_error + string \<times> bytes" where
  "read_more_cstrings str buf =
     (if buf \<noteq> [] \<and> hd buf = 0xff
      then rbind (read_cstring (tl buf)) (\<lambda>(nextStr, buf). read_more_cstrings (str @ [CHR 0x00] @ nextStr) buf)
      else Inr (str, buf))"
  by pat_completeness auto
termination
  by (relation "measure (\<lambda>(str, buf). length buf)") (auto dest!: read_cstring_length)

declare read_more_cstrings.simps [simp del]

definition read_cstring_with_nuls :: "bytes \<Rightarrow> go_error + string \<times> bytes" where
  "read_cstring_with_nuls buf = rbind (read_cstring buf) (\<lambda>(str, buf). read_more_cstrings str buf)"

lemma read_more_cstrings_length: "read_more_cstrings s buf = Inr (t, rest) \<Longrightarrow> length rest \<le> length buf"
proof (induction s buf rule: read_more_cstrings.induct)
  case (1 s buf)
  show ?case
  proof (cases "buf \<noteq> [] \<and> hd buf = 0xff")
    case True
    with 1(2) obtain n b where n: "read_cstring (tl buf) = Inr (n, b)"
      "read_more_cstrings (s @ [CHR 0x00] @ n) b = Inr (t, rest)"
      by (subst (asm) read_more_cstrings.simps) (auto simp: rbind_eq_Inr)
    from read_cstring_length [OF n(1)] 1(1) [OF True n(1) refl] n(2) show ?thesis by auto
  next
    case False
    with 1(2) show ?thesis by (subst (asm) read_more_cstrings.simps) auto
  qed
qed

lemma read_cstring_with_nuls_length:
  "read_cstring_with_nuls buf = Inr (s, rest) \<Longrightarrow> length rest < length buf"
  by (auto simp: read_cstring_with_nuls_def rbind_eq_Inr dest!: read_cstring_length read_more_cstrings_length)

section \<open>Floating point\<close>

fun bit_len :: "nat \<Rightarrow> nat" where
  "bit_len n = (if n = 0 then 0 else Suc (bit_len (n div 2)))"

declare bit_len.simps [simp del]

text \<open>
  The double nearest to \<open>m * 2 ^ e\<close>, ties to even: \<open>p\<close> is the exponent of its last place. The field of
  the exponent and the mantissa add up, also when rounding carries and below the normal range.
\<close>

definition round_shift :: "nat \<Rightarrow> nat \<Rightarrow> nat" where
  "round_shift m k = (let q = m div 2 ^ k; r = 2 * (m mod 2 ^ k)
     in if r > 2 ^ k \<or> r = 2 ^ k \<and> odd q then q + 1 else q)"

definition f64_round :: "nat \<Rightarrow> int \<Rightarrow> u64" where
  "f64_round m e = (if m = 0 then 0
     else let p = max (e + int (bit_len m) - 53) (- 1074);
              q = (if p \<ge> e then round_shift m (nat (p - e)) else m * 2 ^ nat (e - p))
          in word_of_nat (min (nat (p + 1074) * 2 ^ 52 + q) 0x7FF0000000000000))"

definition sign_bit :: u64 where "sign_bit = push_bit 63 1"

definition f64_neg :: "u64 \<Rightarrow> u64" where "f64_neg x = x XOR sign_bit"
definition f64_inf :: u64 where "f64_inf = 0x7FF0000000000000"
definition f64_nan :: u64 where "f64_nan = 0x7FF8000000000001"

text \<open>\<open>math.Ldexp\<close>: zeros, infinities and NaNs stay as they are.\<close>

definition ldexp :: "u64 \<Rightarrow> int \<Rightarrow> u64" where
  "ldexp x n = (let expo = unat (take_bit 11 (drop_bit 52 x)); mant = unat (take_bit 52 x)
     in if expo = 2047 \<or> expo = 0 \<and> mant = 0 then x
        else (x AND sign_bit) OR f64_round (if expo = 0 then mant else mant + 2 ^ 52) (max (int expo) 1 - 1075 + n))"

definition f64_of_u64 :: "u64 \<Rightarrow> u64" where
  "f64_of_u64 w = f64_round (unat w) 0"

section \<open>Values\<close>

text \<open>The Go values that the decoder returns as \<open>any\<close>; \<open>KInt\<close> is the constant 0 of type \<open>int\<close>.\<close>

datatype kvalue =
    KMinKey | KMaxKey | KNull | KUndefined
  | KBool bool
  | KDateTime u64
  | KTimestamp timestamp
  | KObjectID bytes
  | KString string
  | KJavaScript string
  | KCodeWithScope string kvalue
  | KBinary byte bytes
  | KRegex string string
  | KDBPointer string bytes
  | KDoc "(string \<times> kvalue) list"
  | KArray "kvalue list"
  | KInt
  | KInt32 u32
  | KInt64 u64
  | KDouble u64

datatype key_string_version = V0 | V1

section \<open>Numbers\<close>

definition negate_if :: "bool \<Rightarrow> u64 \<Rightarrow> u64" where
  "negate_if isNegative bin = (if isNegative then f64_neg bin else bin)"

definition invert_if :: "bool \<Rightarrow> 'a::len word \<Rightarrow> 'a word" where
  "invert_if isNegative w = (if isNegative then NOT w else w)"

definition skip_uint64 :: "kvalue \<Rightarrow> bytes \<Rightarrow> go_error + kvalue \<times> bytes" where
  "skip_uint64 v buf = rbind (read_uint64_be buf) (\<lambda>(_, buf). Inr (v, buf))"

definition read_large_magnitude :: "key_string_version \<Rightarrow> bool \<Rightarrow> bytes \<Rightarrow> go_error + kvalue \<times> bytes" where
  "read_large_magnitude version isNegative buf =
     rbind (read_uint64_be buf) (\<lambda>(encoded, buf).
       let encoded = invert_if isNegative encoded
       in if version = V0 then Inr (KDouble encoded, buf)
          else if encoded AND sign_bit = 0
          then let hasDecimalContinuation = (encoded AND 1 \<noteq> 0);
                   bin = negate_if isNegative (drop_bit 1 encoded OR push_bit 62 1)
               in if hasDecimalContinuation then skip_uint64 (KDouble bin) buf else Inr (KDouble bin, buf)
          else if encoded = 0xFFFFFFFFFFFFFFFF then Inr (KDouble (negate_if isNegative f64_inf), buf)
          else skip_uint64 (KDouble (negate_if isNegative f64_inf)) buf)"

definition read_small_magnitude :: "key_string_version \<Rightarrow> bool \<Rightarrow> bytes \<Rightarrow> go_error + kvalue \<times> bytes" where
  "read_small_magnitude version isNegative buf =
     rbind (read_uint64_be buf) (\<lambda>(encoded, buf).
       let encoded = invert_if isNegative encoded; top = drop_bit 62 encoded
       in if version = V0 then Inr (KDouble encoded, buf)
          else if top = 0 then skip_uint64 KInt buf
          else if top = 1 \<or> top = 2
          then let hasDecimalContinuation = (encoded AND 1 \<noteq> 0);
                   bin = KDouble (negate_if isNegative (ldexp (drop_bit 1 (encoded - push_bit 62 1)) (- 256)))
               in if hasDecimalContinuation then skip_uint64 bin buf else Inr (bin, buf)
          else Inr (KDouble (negate_if isNegative (drop_bit 2 encoded)), buf))"

fun read_be_bytes :: "bool \<Rightarrow> nat \<Rightarrow> u64 \<Rightarrow> bytes \<Rightarrow> go_error + u64 \<times> bytes" where
  "read_be_bytes isNegative 0 acc buf = Inr (acc, buf)"
| "read_be_bytes isNegative (Suc n) acc buf =
     rbind (read_uint8 buf) (\<lambda>(myByte, buf).
       read_be_bytes isNegative n (push_bit 8 acc OR ucast (invert_if isNegative myByte)) buf)"

fun read_fraction_bytes :: "bool \<Rightarrow> nat \<Rightarrow> u64 \<Rightarrow> bytes \<Rightarrow> go_error + u64 \<times> bytes" where
  "read_fraction_bytes isNegative 0 doubleBits buf = Inr (doubleBits, buf)"
| "read_fraction_bytes isNegative (Suc n) doubleBits buf =
     rbind (read_uint8 buf) (\<lambda>(myByte, buf).
       read_fraction_bytes isNegative n (doubleBits OR push_bit (n * 8) (ucast (invert_if isNegative myByte))) buf)"

text \<open>A shift by a negative count panics.\<close>

definition read_v0_fraction :: "bool \<Rightarrow> u64 \<Rightarrow> bytes \<Rightarrow> go_error + kvalue \<times> bytes" where
  "read_v0_fraction isNegative integerPart buf =
     (let exponent = int (bit_len (unat integerPart)) - 1;
          fractionalBits = 52 - exponent;
          fractionalBytes = (fractionalBits + 7) div 8
      in if fractionalBits < 0 then Inl (Panic ''negative shift amount'')
         else let doubleBits = (push_bit (nat fractionalBits) integerPart AND NOT (push_bit 52 1))
                     OR push_bit 52 (word_of_int exponent + 1023);
                  doubleBits = (if isNegative then doubleBits OR sign_bit else doubleBits)
              in rbind (read_fraction_bytes isNegative (nat fractionalBytes) doubleBits buf) (\<lambda>(doubleBits, buf).
                   Inr (KDouble doubleBits, buf)))"

definition read_v1_fraction :: "bool \<Rightarrow> int \<Rightarrow> u64 \<Rightarrow> bytes \<Rightarrow> go_error + kvalue \<times> bytes" where
  "read_v1_fraction isNegative ctype integerPart buf =
     (let fracBytes = 8 - num_bytes_for_int ctype
      in rbind (read_be_bytes isNegative (nat fracBytes) integerPart buf) (\<lambda>(encodedFraction, buf).
           let bin = KDouble (negate_if isNegative (ldexp (f64_of_u64 (encodedFraction AND NOT 3)) (- 8 * fracBytes)));
               dcm = (if fracBytes > 0 then encodedFraction AND 3 else 3)
           in if dcm \<noteq> 0 \<and> dcm \<noteq> 2 then skip_uint64 bin buf else Inr (bin, buf)))"

definition read_number :: "key_string_version \<Rightarrow> int \<Rightarrow> bytes \<Rightarrow> go_error + kvalue \<times> bytes" where
  "read_number version ctype buf =
     (let isNegative = (ctype \<le> kNumericNegative1ByteInt)
      in rbind (read_be_bytes isNegative (nat (num_bytes_for_int ctype)) 0 buf) (\<lambda>(encodedIntegerPart, buf).
           let integerPart = drop_bit 1 encodedIntegerPart; maxint32 = push_bit 31 (1 :: u64);
               fitsInInt32 = (integerPart < maxint32 \<or> isNegative \<and> integerPart = maxint32);
               signed = (if isNegative then - integerPart else integerPart)
           in if encodedIntegerPart AND 1 = 0
              then Inr (if fitsInInt32 then KInt32 (ucast signed) else KInt64 signed, buf)
              else if version = V0 then read_v0_fraction isNegative integerPart buf
              else read_v1_fraction isNegative ctype integerPart buf))"

section \<open>Values of every type\<close>

datatype decode_mode = ModeTopLevel | ModeSingle | ModeNamed

definition read_binary :: "bytes \<Rightarrow> go_error + kvalue \<times> bytes" where
  "read_binary buf =
     rbind (read_uint8 buf) (\<lambda>(size8, buf).
     rbind (if size8 = 0xff then rbind (read_uint32_be buf) (\<lambda>(size32, buf). Inr (unat size32, buf))
            else Inr (unat size8, buf)) (\<lambda>(size, buf).
     rbind (read_uint8 buf) (\<lambda>(subtype, buf).
     rbind (read_bytes size buf) (\<lambda>(data, buf). Inr (KBinary subtype data, buf)))))"

definition read_db_ref :: "bytes \<Rightarrow> go_error + kvalue \<times> bytes" where
  "read_db_ref buf =
     rbind (read_uint32_be buf) (\<lambda>(size, buf).
     rbind (read_bytes (unat size) buf) (\<lambda>(nsBytes, buf).
     rbind (read_bytes 12 buf) (\<lambda>(oid, buf). Inr (KDBPointer (bytes_str nsBytes) oid, buf))))"

text \<open>The values that hold no others.\<close>

definition read_scalar :: "int \<Rightarrow> key_string_version \<Rightarrow> bytes \<Rightarrow> go_error + kvalue \<times> bytes" where
  "read_scalar ctype version buf =
     (if ctype = kMinKey then Inr (KMinKey, buf)
      else if ctype = kMaxKey then Inr (KMaxKey, buf)
      else if ctype = kNullish then Inr (KNull, buf)
      else if ctype = kUndefined then Inr (KUndefined, buf)
      else if ctype = kBoolTrue then Inr (KBool True, buf)
      else if ctype = kBoolFalse then Inr (KBool False, buf)
      else if ctype = kDate then rbind (read_uint64_be buf) (\<lambda>(d, buf). Inr (KDateTime (d XOR push_bit 63 1), buf))
      else if ctype = kTimestamp then rbind (read_uint32_be buf) (\<lambda>(t, buf). rbind (read_uint32_be buf) (\<lambda>(i, buf).
        Inr (KTimestamp \<lparr>ts_T = t, ts_I = i\<rparr>, buf)))
      else if ctype = kOID then rbind (read_bytes 12 buf) (\<lambda>(oid, buf). Inr (KObjectID oid, buf))
      else if ctype = kStringLike then rbind (read_cstring_with_nuls buf) (\<lambda>(s, buf). Inr (KString s, buf))
      else if ctype = kCode then rbind (read_cstring_with_nuls buf) (\<lambda>(s, buf). Inr (KJavaScript s, buf))
      else if ctype = kBinData then read_binary buf
      else if ctype = kRegEx then rbind (read_cstring buf) (\<lambda>(pattern, buf). rbind (read_cstring buf) (\<lambda>(flags, buf).
        Inr (KRegex pattern flags, buf)))
      else if ctype = kDBRef then read_db_ref buf
      else if ctype = kNumericNaN then Inr (KDouble f64_nan, buf)
      else if ctype = kNumericZero then Inr (KInt, buf)
      else if ctype = kNumericNegativeLargeMagnitude then read_large_magnitude version True buf
      else if ctype = kNumericPositiveLargeMagnitude then read_large_magnitude version False buf
      else if ctype = kNumericNegativeSmallMagnitude then read_small_magnitude version True buf
      else if ctype = kNumericPositiveSmallMagnitude then read_small_magnitude version False buf
      else if kNumericNegative8ByteInt \<le> ctype \<and> ctype \<le> kNumericNegative1ByteInt
           \<or> kNumericPositive1ByteInt \<le> ctype \<and> ctype \<le> kNumericPositive8ByteInt
      then read_number version ctype buf
      else Inl (Err ''unknown keystring ctype''))"

text \<open>A reader that leaves no more than it was given.\<close>

definition no_growth :: "go_error + 'a \<times> bytes \<Rightarrow> bytes \<Rightarrow> bool" where
  "no_growth m buf \<longleftrightarrow> (\<forall>v rest. m = Inr (v, rest) \<longrightarrow> length rest \<le> length buf)"

named_theorems no_growth

lemma no_growth_Inr [no_growth]: "no_growth (Inr (v, buf)) buf"
  and no_growth_Inl [no_growth]: "no_growth (Inl e) buf"
  and no_growth_if [no_growth]: "no_growth a buf \<Longrightarrow> no_growth b buf \<Longrightarrow> no_growth (if c then a else b) buf"
  by (simp_all add: no_growth_def)

lemma no_growth_rbind [no_growth]:
  "no_growth m buf \<Longrightarrow> (\<And>v rest. no_growth (f v rest) rest) \<Longrightarrow> no_growth (rbind m (\<lambda>(v, rest). f v rest)) buf"
  unfolding no_growth_def by (fastforce simp: rbind_eq_Inr)

lemma no_growth_readers [no_growth]:
  "no_growth (read_uint8 buf) buf" "no_growth (read_uint32_be buf) buf" "no_growth (read_uint64_be buf) buf"
  "no_growth (read_bytes n buf) buf" "no_growth (read_cstring buf) buf" "no_growth (read_cstring_with_nuls buf) buf"
  unfolding no_growth_def
  by (auto simp: read_uint8_Inr dest: read_uint32_be_length read_uint64_be_length read_bytes_length
      read_cstring_length read_cstring_with_nuls_length)

lemma no_growth_skip [no_growth]: "no_growth (skip_uint64 v buf) buf"
  unfolding skip_uint64_def by (intro no_growth)

lemma no_growth_be_bytes [no_growth]: "no_growth (read_be_bytes neg n acc buf) buf"
proof (induction n arbitrary: acc buf)
  case (Suc n)
  then show ?case unfolding read_be_bytes.simps by (intro no_growth)
qed (simp add: no_growth)

lemma no_growth_fraction_bytes [no_growth]: "no_growth (read_fraction_bytes neg n acc buf) buf"
proof (induction n arbitrary: acc buf)
  case (Suc n)
  then show ?case unfolding read_fraction_bytes.simps by (intro no_growth)
qed (simp add: no_growth)

lemma no_growth_numbers [no_growth]:
  "no_growth (read_large_magnitude version neg buf) buf" "no_growth (read_small_magnitude version neg buf) buf"
  "no_growth (read_v0_fraction neg w buf) buf" "no_growth (read_v1_fraction neg c w buf) buf"
  unfolding read_large_magnitude_def read_small_magnitude_def read_v0_fraction_def read_v1_fraction_def Let_def
  by (intro no_growth)+

lemma no_growth_number [no_growth]: "no_growth (read_number version c buf) buf"
  unfolding read_number_def Let_def by (intro no_growth)

lemma no_growth_binary [no_growth]: "no_growth (read_binary buf) buf"
  unfolding read_binary_def by (intro no_growth)

lemma no_growth_db_ref [no_growth]: "no_growth (read_db_ref buf) buf"
  unfolding read_db_ref_def by (intro no_growth)

lemma no_growth_scalar [no_growth]: "no_growth (read_scalar ctype version buf) buf"
  unfolding read_scalar_def by (intro no_growth)

definition read_ctype :: "bytes \<Rightarrow> go_error + int \<times> bytes" where
  "read_ctype buf = rbind (read_uint8 buf) (\<lambda>(b, buf). Inr (uint b, buf))"

text \<open>The type byte of a partial value; a discriminator byte is skipped.\<close>

definition read_discriminated_ctype :: "bytes \<Rightarrow> go_error + int \<times> bytes" where
  "read_discriminated_ctype buf =
     rbind (read_ctype buf) (\<lambda>(ctype, buf).
       if ctype = kLess \<or> ctype = kGreater then read_ctype buf else Inr (ctype, buf))"

lemma read_ctype_length: "read_ctype buf = Inr (c, rest) \<Longrightarrow> length rest < length buf"
  by (auto simp: read_ctype_def rbind_eq_Inr read_uint8_Inr)

lemma read_discriminated_ctype_length: "read_discriminated_ctype buf = Inr (c, rest) \<Longrightarrow> length rest < length buf"
  by (auto simp: read_discriminated_ctype_def rbind_eq_Inr split: if_splits dest!: read_ctype_length)

function keystring_value :: "int \<Rightarrow> key_string_version \<Rightarrow> bytes \<Rightarrow> go_error + kvalue \<times> bytes"
  and keystring_array :: "key_string_version \<Rightarrow> kvalue list \<Rightarrow> bytes \<Rightarrow> go_error + kvalue \<times> bytes"
  and keystring_to_bson_partial :: "key_string_version \<Rightarrow> decode_mode \<Rightarrow> (string \<times> kvalue) list \<Rightarrow> bytes
     \<Rightarrow> go_error + kvalue \<times> bytes" where
  "keystring_value ctype version buf =
     (if ctype = kCodeWithScope
      then rbind (read_cstring_with_nuls buf) (\<lambda>(code, buf).
           rbind (keystring_to_bson_partial version ModeNamed [] buf) (\<lambda>(scope, buf). Inr (KCodeWithScope code scope, buf)))
      else if ctype = kObject then keystring_to_bson_partial version ModeNamed [] buf
      else if ctype = kArray then keystring_array version [] buf
      else read_scalar ctype version buf)"
| "keystring_array version arr buf =
     (if buf \<noteq> [] \<and> hd buf \<noteq> 0
      then rbind (keystring_to_bson_partial version ModeSingle [] buf) (\<lambda>(nextEl, buf).
           keystring_array version (arr @ [nextEl]) buf)
      else rbind (read_uint8 buf) (\<lambda>(_, buf). Inr (KArray arr, buf)))"
| "keystring_to_bson_partial version mode contents buf =
     (if buf = [] then Inr (KDoc contents, buf)
      else rbind (read_discriminated_ctype buf) (\<lambda>(ctype, buf).
           if ctype = kEnd then Inr (KDoc contents, buf)
           else if mode = ModeNamed
           then if ctype = 0 then Inr (KDoc contents, buf)
                else rbind (read_cstring buf) (\<lambda>(key, buf).
                     rbind (read_ctype buf) (\<lambda>(ctype, buf).
                     rbind (keystring_value ctype version buf) (\<lambda>(v, buf).
                       keystring_to_bson_partial version mode (contents @ [(key, v)]) buf)))
           else if mode = ModeSingle then keystring_value ctype version buf
           else rbind (keystring_value ctype version buf) (\<lambda>(v, buf).
                  keystring_to_bson_partial version mode (contents @ [([], v)]) buf)))"
  by pat_completeness auto



lemma no_growth_tl: "no_growth m (tl buf) \<Longrightarrow> no_growth m buf"
  by (fastforce simp: no_growth_def)

lemma no_growth_rbindI:
  "no_growth m buf \<Longrightarrow> (\<And>v rest. m = Inr (v, rest) \<Longrightarrow> no_growth (f v rest) rest) \<Longrightarrow> no_growth (rbind m (\<lambda>(v, rest). f v rest)) buf"
  unfolding no_growth_def by (fastforce simp: rbind_eq_Inr)

lemma no_growth_ifI: "(c \<Longrightarrow> no_growth a buf) \<Longrightarrow> (\<not> c \<Longrightarrow> no_growth b buf) \<Longrightarrow> no_growth (if c then a else b) buf"
  by simp

lemma no_growth_ctypes: "no_growth (read_ctype buf) buf" "no_growth (read_discriminated_ctype buf) (tl buf)"
  using read_ctype_length read_discriminated_ctype_length by (fastforce simp: no_growth_def)+

lemma keystring_shrinks:
  "keystring_value_keystring_array_keystring_to_bson_partial_dom (Inl (ctype, version, buf)) \<Longrightarrow>
     no_growth (keystring_value ctype version buf) buf"
  "keystring_value_keystring_array_keystring_to_bson_partial_dom (Inr (Inl (version, arr, buf))) \<Longrightarrow>
     no_growth (keystring_array version arr buf) buf"
  "keystring_value_keystring_array_keystring_to_bson_partial_dom (Inr (Inr (version, mode, contents, buf))) \<Longrightarrow>
     no_growth (keystring_to_bson_partial version mode contents buf) (tl buf)"
proof (induction rule: keystring_value_keystring_array_keystring_to_bson_partial.pinduct)
  case (1 ctype version buf)
  show ?case
    unfolding keystring_value.psimps [OF 1(1)]
    by (intro no_growth_ifI no_growth_rbindI no_growth_readers no_growth_scalar no_growth_Inr)
      (rule no_growth_tl, erule 1(2), assumption, rule refl,
        rule no_growth_tl, erule 1(3), assumption, erule 1(4), assumption+)
next
  case (2 version arr buf)
  show ?case
    unfolding keystring_array.psimps [OF 2(1)]
    by (intro no_growth_ifI no_growth_rbindI no_growth_readers no_growth_Inr)
      (rule no_growth_tl, erule 2(2), erule 2(3), (assumption | rule refl)+)
next
  case (3 version mode contents buf)
  show ?case
    unfolding keystring_to_bson_partial.psimps [OF 3(1)]
    by (intro no_growth_ifI no_growth_rbindI no_growth_readers no_growth_Inr no_growth_ctypes)
      (simp add: no_growth_Inr,
        erule 3(2), (assumption | rule refl)+, rule no_growth_tl, erule 3(3), (assumption | rule refl)+,
        erule 3(4), (assumption | rule refl)+, erule 3(5), (assumption | rule refl)+,
        rule no_growth_tl, erule 3(6), (assumption | rule refl)+)
qed

lemma keystring_name_length:
  "read_discriminated_ctype buf = Inr (a, b) \<Longrightarrow> read_cstring b = Inr (k, b') \<Longrightarrow> read_ctype b' = Inr (c, b'')
     \<Longrightarrow> length b'' + 3 \<le> length buf"
  using read_discriminated_ctype_length [of buf a b] read_cstring_length [of b k b'] read_ctype_length [of b' c b'']
  by linarith

lemma shorter_tl: "length b \<le> length buf - Suc 0 \<Longrightarrow> buf \<noteq> [] \<Longrightarrow> length b < length buf"
  by (cases buf) auto

termination keystring_value
  by (relation "measure (\<lambda>x. case x of
       Inl (c, v, buf) \<Rightarrow> 3 * length buf + 2
     | Inr (Inl (v, arr, buf)) \<Rightarrow> 3 * length buf + 1
     | Inr (Inr (v, mode, cs, buf)) \<Rightarrow> 3 * length buf)")
   (auto dest: read_cstring_with_nuls_length read_discriminated_ctype_length keystring_name_length
      dest!: keystring_shrinks intro: shorter_tl simp: no_growth_def)

declare keystring_value.simps [simp del] keystring_array.simps [simp del] keystring_to_bson_partial.simps [simp del]

section \<open>The decoder\<close>

text \<open>\<open>hex.DecodeString\<close>.\<close>

definition hex_digit :: "char \<Rightarrow> byte option" where
  "hex_digit c = (let n = of_char c :: nat
     in if 48 \<le> n \<and> n \<le> 57 then Some (word_of_nat (n - 48))
        else if 97 \<le> n \<and> n \<le> 102 then Some (word_of_nat (n - 87))
        else if 65 \<le> n \<and> n \<le> 70 then Some (word_of_nat (n - 55))
        else None)"

fun hex_decode :: "string \<Rightarrow> go_error + bytes" where
  "hex_decode [] = Inr []"
| "hex_decode [c] = Inl (Err (if hex_digit c = None then ''invalid byte'' else ''odd length hex string''))"
| "hex_decode (c # d # cs) = (case (hex_digit c, hex_digit d) of
       (Some h, Some l) \<Rightarrow> rbind (hex_decode cs) (\<lambda>bs. Inr ((push_bit 4 h OR l) # bs))
     | _ \<Rightarrow> Inl (Err ''invalid byte''))"

datatype keystring_input = Buf bytes | Hex string | OtherInput

definition keystring_to_bson :: "key_string_version \<Rightarrow> keystring_input \<Rightarrow> go_error + (string \<times> kvalue) list" where
  "keystring_to_bson version inbuf =
     rbind (case inbuf of Buf buf \<Rightarrow> Inr buf | Hex str \<Rightarrow> hex_decode str
            | OtherInput \<Rightarrow> Inl (Err ''KeystringToBson accepts only []uint8 or string'')) (\<lambda>buf.
     rbind (keystring_to_bson_partial version ModeTopLevel [] buf) (\<lambda>(result, _).
       case result of KDoc d \<Rightarrow> Inr d | _ \<Rightarrow> Inl (Panic ''interface conversion'')))"

section \<open>The format\<close>

text \<open>
  What the server writes, for every type but decimals and doubles that are not \<open>NaN\<close>, infinite, at
  least \<open>2 ^ 63\<close> or of magnitude below 1 and at least \<open>2 ^ (- 255)\<close>: the type byte, then the content.
\<close>

fun be_bytes :: "nat \<Rightarrow> u64 \<Rightarrow> bytes" where
  "be_bytes 0 w = []"
| "be_bytes (Suc n) w = ucast (drop_bit (8 * n) w) # be_bytes n w"

definition be32 :: "u32 \<Rightarrow> bytes" where "be32 w = be_bytes 4 (ucast w)"

definition enc_nul_string :: "string \<Rightarrow> bytes" where
  "enc_nul_string s = concat (map (\<lambda>c. if c = CHR 0x00 then [0, 0xff] else [of_char c]) s) @ [0]"

definition enc_cstring :: "string \<Rightarrow> bytes" where
  "enc_cstring s = str_bytes s @ [0]"

definition key_magnitude :: "u64 \<Rightarrow> u64" where
  "key_magnitude i = (if bit i 63 then - i else i)"

definition key_width :: "u64 \<Rightarrow> nat" where
  "key_width i = (bit_len (2 * unat (key_magnitude i)) + 7) div 8"

definition key_number_type :: "u64 \<Rightarrow> byte" where
  "key_number_type i = (if bit i 63 then 40 - of_nat (key_width i) else 42 + of_nat (key_width i))"

definition key_number :: "u64 \<Rightarrow> bytes" where
  "key_number i = map (invert_if (bit i 63)) (be_bytes (key_width i) (push_bit 1 (key_magnitude i)))"

definition f64_magnitude :: "u64 \<Rightarrow> u64" where
  "f64_magnitude x = x AND NOT sign_bit"

definition small_double :: "u64 \<Rightarrow> bool" where
  "small_double x \<longleftrightarrow> bit x 60 \<and> bit x 61 \<and> \<not> bit x 62"

definition key_double :: "u64 \<Rightarrow> bytes" where
  "key_double x = be_bytes 8 (invert_if (bit x 63)
     (if f64_magnitude x = f64_inf then - 1
      else if small_double x then push_bit 2 (f64_magnitude x)
      else push_bit 1 (f64_magnitude x AND NOT (push_bit 62 1))))"

fun kctype :: "kvalue \<Rightarrow> byte" where
  "kctype KMinKey = 10"
| "kctype KMaxKey = 240"
| "kctype KNull = 20"
| "kctype KUndefined = 15"
| "kctype (KBool b) = (if b then 111 else 110)"
| "kctype (KDateTime d) = 120"
| "kctype (KTimestamp ts) = 130"
| "kctype (KObjectID oid) = 100"
| "kctype (KString s) = 60"
| "kctype (KJavaScript s) = 160"
| "kctype (KCodeWithScope s v) = 170"
| "kctype (KBinary t d) = 90"
| "kctype (KRegex p f) = 140"
| "kctype (KDBPointer ns oid) = 150"
| "kctype (KDoc kvs) = 70"
| "kctype (KArray vs) = 80"
| "kctype KInt = 41"
| "kctype (KInt32 i) = key_number_type (scast i)"
| "kctype (KInt64 i) = key_number_type i"
| "kctype (KDouble x) = (if x = f64_nan then 30
     else if small_double x then (if bit x 63 then 40 else 42)
     else if bit x 63 then 31 else 51)"

fun enc_kvalue :: "kvalue \<Rightarrow> bytes" where
  "enc_kvalue (KDateTime d) = be_bytes 8 (d XOR push_bit 63 1)"
| "enc_kvalue (KTimestamp ts) = be32 (ts_T ts) @ be32 (ts_I ts)"
| "enc_kvalue (KObjectID oid) = oid"
| "enc_kvalue (KString s) = enc_nul_string s"
| "enc_kvalue (KJavaScript s) = enc_nul_string s"
| "enc_kvalue (KCodeWithScope s v) = enc_nul_string s @ enc_kvalue v"
| "enc_kvalue (KBinary t d) = (if length d < 255 then [of_nat (length d)] else 255 # be32 (of_nat (length d))) @ t # d"
| "enc_kvalue (KRegex p f) = enc_cstring p @ enc_cstring f"
| "enc_kvalue (KDBPointer ns oid) = be32 (of_nat (length ns)) @ str_bytes ns @ oid"
| "enc_kvalue (KDoc kvs) = concat (map (\<lambda>(k, v). kctype v # enc_cstring k @ kctype v # enc_kvalue v) kvs) @ [0]"
| "enc_kvalue (KArray vs) = concat (map (\<lambda>v. kctype v # enc_kvalue v) vs) @ [0]"
| "enc_kvalue (KInt32 i) = key_number (scast i)"
| "enc_kvalue (KInt64 i) = key_number i"
| "enc_kvalue (KDouble x) = (if x = f64_nan then [] else key_double x)"
| "enc_kvalue v = []"

fun wf_kvalue :: "kvalue \<Rightarrow> bool" where
  "wf_kvalue (KObjectID oid) \<longleftrightarrow> length oid = 12"
| "wf_kvalue (KCodeWithScope s v) \<longleftrightarrow> wf_kvalue v \<and> (case v of KDoc _ \<Rightarrow> True | _ \<Rightarrow> False)"
| "wf_kvalue (KBinary t d) \<longleftrightarrow> length d < 2 ^ 32"
| "wf_kvalue (KRegex p f) \<longleftrightarrow> CHR 0x00 \<notin> set p \<and> CHR 0x00 \<notin> set f"
| "wf_kvalue (KDBPointer ns oid) \<longleftrightarrow> length ns < 2 ^ 32 \<and> length oid = 12"
| "wf_kvalue (KDoc kvs) \<longleftrightarrow> list_all (\<lambda>(k, v). CHR 0x00 \<notin> set k \<and> wf_kvalue v) kvs"
| "wf_kvalue (KArray vs) \<longleftrightarrow> list_all wf_kvalue vs"
| "wf_kvalue (KInt32 i) \<longleftrightarrow> i \<noteq> 0"
| "wf_kvalue (KInt64 i) \<longleftrightarrow> - (2 ^ 63) < sint i \<and> sint i < - (2 ^ 31) \<or> 2 ^ 31 \<le> sint i"
| "wf_kvalue (KDouble x) \<longleftrightarrow> x = f64_nan \<or> f64_magnitude x \<le> f64_inf \<and> (small_double x \<or> f64_magnitude x \<ge> 0x43E0000000000000)"
| "wf_kvalue _ \<longleftrightarrow> True"

section \<open>Reading back what the format holds\<close>

lemma read_be_bytes_enc:
  "k \<le> 8 \<Longrightarrow> read_be_bytes neg k acc (map (invert_if neg) (be_bytes k w) @ rest)
     = Inr (push_bit (8 * k) acc OR take_bit (8 * k) w, rest)"
proof (induction k arbitrary: acc)
  case (Suc n)
  have inv: "invert_if neg (invert_if neg b) = b" for b :: byte by (simp add: invert_if_def)
  have "push_bit (8 * n) (push_bit 8 acc OR ucast (ucast (drop_bit (8 * n) w) :: byte)) OR take_bit (8 * n) w
     = push_bit (8 * Suc n) acc OR take_bit (8 * Suc n) w"
    using Suc.prems by (intro bit_word_eqI) (auto simp: bit_simps ac_simps)
  with Suc show ?case by (simp add: inv)
qed simp

lemma read_uint32_be_enc [simp]: "read_uint32_be (be32 w @ rest) = Inr (w, rest)"
proof -
  have "push_bit 24 (ucast (ucast (drop_bit 24 (ucast w :: u64)) :: byte)) OR push_bit 16 (ucast (ucast (drop_bit 16 (ucast w :: u64)) :: byte))
     OR push_bit 8 (ucast (ucast (drop_bit 8 (ucast w :: u64)) :: byte)) OR ucast (ucast (ucast w :: u64) :: byte) = w"
    by (intro bit_word_eqI) (auto simp: bit_simps)
  then show ?thesis by (simp add: read_uint32_be_def be32_def numeral_nat)
qed

lemma be_bytes_8: "be_bytes 8 w = be32 (ucast (drop_bit 32 w)) @ be32 (ucast w)"
  by (simp add: be32_def numeral_nat) (intro conjI bit_word_eqI; auto simp: bit_simps)

lemma read_uint64_be_enc [simp]: "read_uint64_be (be_bytes 8 w @ rest) = Inr (w, rest)"
proof -
  have "push_bit 32 (ucast (ucast (drop_bit 32 w) :: u32)) OR ucast (ucast w :: u32) = w"
    by (intro bit_word_eqI) (auto simp: bit_simps)
  then show ?thesis by (simp add: read_uint64_be_def be_bytes_8)
qed

lemma read_bytes_enc [simp]: "n = length bs \<Longrightarrow> read_bytes n (bs @ rest) = Inr (bs, rest)"
  by (simp add: read_bytes_def)

lemma read_cstring_enc [simp]:
  assumes "CHR 0x00 \<notin> set s"
  shows "read_cstring (enc_cstring s @ rest) = Inr (s, rest)"
proof -
  have "takeWhile (\<lambda>b. b \<noteq> 0) (str_bytes s @ 0 # rest) = str_bytes s"
    using assms zero_in_str_bytes [of s] by (subst takeWhile_append2) auto
  then show ?thesis by (simp add: read_cstring_def enc_cstring_def)
qed

text \<open>A string up to its first NUL, and the rest of it.\<close>

lemma split_at_nul:
  assumes "CHR 0x00 \<in> set s"
  obtains a b where "s = a @ CHR 0x00 # b" "CHR 0x00 \<notin> set a"
  using assms split_list_first [of "CHR 0x00" s] by auto

lemma enc_nul_string_no_nul: "CHR 0x00 \<notin> set s \<Longrightarrow> enc_nul_string s = enc_cstring s"
  unfolding enc_nul_string_def enc_cstring_def str_bytes_def by (induction s) auto

lemma enc_nul_string_nul:
  "CHR 0x00 \<notin> set a \<Longrightarrow> enc_nul_string (a @ CHR 0x00 # b) = enc_cstring a @ 0xff # enc_nul_string b"
  unfolding enc_nul_string_def enc_cstring_def str_bytes_def by (induction a) auto

definition no_escape :: "bytes \<Rightarrow> bool" where
  "no_escape rest \<longleftrightarrow> rest = [] \<or> hd rest \<noteq> 0xff"

lemma read_more_cstrings_enc:
  "no_escape rest \<Longrightarrow> read_more_cstrings acc (0xff # enc_nul_string s @ rest) = Inr (acc @ CHR 0x00 # s, rest)"
proof (induction s arbitrary: acc rule: length_induct)
  case (1 s)
  show ?case
  proof (cases "CHR 0x00 \<in> set s")
    case True
    then obtain a b where ab: "s = a @ CHR 0x00 # b" "CHR 0x00 \<notin> set a" by (rule split_at_nul)
    then show ?thesis
      using 1(1) [rule_format, of b "acc @ CHR 0x00 # a"] 1(2)
      by (subst read_more_cstrings.simps) (simp add: enc_nul_string_nul)
  next
    case False
    then show ?thesis
      using 1(2) by (subst read_more_cstrings.simps)
        (auto simp: enc_nul_string_no_nul read_more_cstrings.simps [of _ rest] no_escape_def)
  qed
qed

lemma read_cstring_with_nuls_enc:
  assumes "no_escape rest"
  shows "read_cstring_with_nuls (enc_nul_string s @ rest) = Inr (s, rest)"
proof (cases "CHR 0x00 \<in> set s")
  case True
  then obtain a b where ab: "s = a @ CHR 0x00 # b" "CHR 0x00 \<notin> set a" by (rule split_at_nul)
  then show ?thesis
    using read_more_cstrings_enc [OF assms] by (simp add: read_cstring_with_nuls_def enc_nul_string_nul)
next
  case False
  then show ?thesis
    using assms by (auto simp: read_cstring_with_nuls_def enc_nul_string_no_nul read_more_cstrings.simps [of _ rest] no_escape_def)
qed

subsection \<open>Integers\<close>

lemma less_exp_bit_len: "n < 2 ^ bit_len n"
proof (induction n rule: bit_len.induct)
  case (1 n)
  then show ?case by (subst bit_len.simps) auto
qed

lemma bit_len_le: "n < 2 ^ j \<Longrightarrow> bit_len n \<le> j"
proof (induction n arbitrary: j rule: bit_len.induct)
  case (1 n)
  show ?case
  proof (cases "n = 0")
    case False
    then have "j \<noteq> 0" using 1(2) by (auto intro: ccontr)
    then have "n div 2 < 2 ^ (j - 1)" using 1(2) by (cases j) auto
    with 1(1) [OF False] \<open>j \<noteq> 0\<close> show ?thesis by (subst bit_len.simps) fastforce
  qed (simp add: bit_len.simps)
qed

lemma bit_len_eq_0 [simp]: "bit_len n = 0 \<longleftrightarrow> n = 0"
  by (subst bit_len.simps) simp

lemma negative_bit: "bit (i :: u64) 63 \<longleftrightarrow> sint i < 0"
  using bit_last_iff [of i] by simp

lemma uint_key_magnitude: "uint (key_magnitude i) = \<bar>sint i\<bar>"
proof -
  have r: "- (2 ^ 63) \<le> sint i" "sint i < 2 ^ 63" using sint_range_size [of i] by (simp_all add: word_size)
  have "key_magnitude i = word_of_int \<bar>sint i\<bar>"
    by (auto simp: key_magnitude_def negative_bit)
  then show ?thesis using r by (simp add: uint_word_of_int take_bit_int_eq_self)
qed

lemma unat_key_magnitude: "unat (key_magnitude i) = nat \<bar>sint i\<bar>"
  by (simp add: unat_eq_nat_uint uint_key_magnitude)

lemma key_number_facts:
  assumes "- (2 ^ 63) < sint i" "i \<noteq> 0"
  shows "unat (key_magnitude i) < 2 ^ 63" "1 \<le> key_width i" "key_width i \<le> 8"
    and "take_bit (8 * key_width i) (push_bit 1 (key_magnitude i)) = push_bit 1 (key_magnitude i)"
    and "drop_bit 1 (push_bit 1 (key_magnitude i)) = key_magnitude i"
    and "push_bit 1 (key_magnitude i) AND 1 = 0"
proof -
  have "sint i < 2 ^ 63" using sint_range_size [of i] by (simp add: word_size)
  then show m: "unat (key_magnitude i) < 2 ^ 63" using assms(1) by (simp add: unat_key_magnitude nat_less_iff)
  have "key_magnitude i \<noteq> 0" using assms(2) by (auto simp: key_magnitude_def)
  then have "2 * unat (key_magnitude i) \<noteq> 0" by (simp add: unat_eq_zero)
  then have "bit_len (2 * unat (key_magnitude i)) \<noteq> 0" by simp
  moreover have "bit_len (2 * unat (key_magnitude i)) \<le> 64" using m by (intro bit_len_le) simp
  ultimately show "1 \<le> key_width i" "key_width i \<le> 8" unfolding key_width_def by linarith+
  have "2 * unat (key_magnitude i) < 2 ^ bit_len (2 * unat (key_magnitude i))" by (rule less_exp_bit_len)
  also have "\<dots> \<le> 2 ^ (8 * key_width i)" by (intro power_increasing) (auto simp: key_width_def)
  finally have w: "2 * unat (key_magnitude i) < 2 ^ (8 * key_width i)" .
  have u: "unat (push_bit 1 (key_magnitude i)) = 2 * unat (key_magnitude i)"
    using m unat_mult_lem [of "key_magnitude i" "2 :: u64"] by (simp add: push_bit_eq_mult)
  show "take_bit (8 * key_width i) (push_bit 1 (key_magnitude i)) = push_bit 1 (key_magnitude i)"
    by (rule word_unat_eq_iff [THEN iffD2]) (use w u in \<open>simp add: unsigned_take_bit_eq take_bit_nat_eq_self\<close>)
  show "drop_bit 1 (push_bit 1 (key_magnitude i)) = key_magnitude i"
    by (rule word_unat_eq_iff [THEN iffD2]) (use u in \<open>simp add: drop_bit_eq_div unat_div\<close>)
  show "push_bit 1 (key_magnitude i) AND 1 = 0"
    by (simp add: push_bit_eq_mult and_one_eq mod_2_eq_odd)
qed

lemma uint_key_number_type:
  assumes "1 \<le> key_width i" "key_width i \<le> 8"
  shows "uint (key_number_type i) = (if bit i 63 then 40 - int (key_width i) else 42 + int (key_width i))"
proof -
  have "key_width i \<in> {1, 2, 3, 4, 5, 6, 7, 8}" using assms by auto
  then show ?thesis by (auto simp: key_number_type_def)
qed

lemma read_number_enc:
  assumes "- (2 ^ 63) < sint i" "i \<noteq> 0"
  shows "read_number version (uint (key_number_type i)) (key_number i @ rest)
    = Inr (if - (2 ^ 31) \<le> sint i \<and> sint i < 2 ^ 31 then KInt32 (ucast i) else KInt64 i, rest)"
proof -
  let ?neg = "bit i 63" and ?m = "key_magnitude i"
  note f = key_number_facts [OF assms]
  have ty: "uint (key_number_type i) \<le> kNumericNegative1ByteInt \<longleftrightarrow> ?neg"
    "num_bytes_for_int (uint (key_number_type i)) = int (key_width i)"
    using f(2,3) by (auto simp: uint_key_number_type num_bytes_for_int_def)
  have "read_be_bytes ?neg (key_width i) 0 (key_number i @ rest) = Inr (push_bit 1 ?m, rest)"
    unfolding key_number_def using read_be_bytes_enc [OF f(3), of ?neg 0 "push_bit 1 ?m" rest] f(4) by simp
  moreover have "(if ?neg then - ?m else ?m) = i" by (simp add: key_magnitude_def)
  moreover have "(?m < push_bit 31 1 \<or> ?neg \<and> ?m = push_bit 31 1) \<longleftrightarrow> - (2 ^ 31) \<le> sint i \<and> sint i < 2 ^ 31"
    by (auto simp: word_less_def word_uint_eq_iff [of ?m] uint_key_magnitude negative_bit push_bit_eq_mult)
  ultimately show ?thesis
    unfolding read_number_def Let_def ty using f(5,6) by (cases ?neg) simp_all
qed

subsection \<open>Doubles\<close>

lemma sign_bit_iff [bit_simps]: "bit sign_bit n \<longleftrightarrow> n = 63"
  unfolding sign_bit_def by (simp only: bit_push_bit_iff) (auto simp: bit_1_iff)

lemma f64_magnitude_parts: "x = (if bit x 63 then f64_neg (f64_magnitude x) else f64_magnitude x)"
  by (intro bit_word_eqI) (auto simp: f64_magnitude_def f64_neg_def bit_simps)

lemma negate_magnitude: "negate_if (bit x 63) (f64_magnitude x) = x"
  using f64_magnitude_parts [of x] by (simp add: negate_if_def)

lemma invert_invert [simp]: "invert_if neg (invert_if neg w) = w"
  by (simp add: invert_if_def)

lemma read_small_double:
  assumes "small_double x"
  shows "read_small_magnitude V1 (bit x 63) (key_double x @ rest) = Inr (KDouble x, rest)"
proof -
  let ?m = "f64_magnitude x"
  have top: "bit ?m 60" "bit ?m 61" "\<not> bit ?m 62" "\<not> bit ?m 63"
    using assms(1) by (simp_all add: small_double_def f64_magnitude_def bit_simps)
  have "drop_bit 62 (push_bit 2 ?m) = mask 2"
  proof (intro bit_word_eqI)
    fix n assume "n < LENGTH(64)"
    show "bit (drop_bit 62 (push_bit 2 ?m)) n \<longleftrightarrow> bit (mask 2 :: u64) n"
      using top by (cases "n = 0"; cases "n = 1") (auto simp: bit_simps)
  qed
  moreover have "drop_bit 2 (push_bit 2 ?m) = ?m"
  proof (intro bit_word_eqI)
    fix n assume n: "n < LENGTH(64)"
    show "bit (drop_bit 2 (push_bit 2 ?m)) n \<longleftrightarrow> bit ?m n"
    proof (cases "n < 62")
      case False
      with n have "n = 62 \<or> n = 63" by auto
      then show ?thesis using top by (auto simp: bit_simps)
    qed (use n in \<open>auto simp: bit_simps\<close>)
  qed
  moreover have "mask 2 = (3 :: u64)" by (simp add: mask_eq_exp_minus_1)
  moreover have "bit f64_inf 62" by (simp add: f64_inf_def)
  then have "?m \<noteq> f64_inf" using top(3) by metis
  ultimately show ?thesis
    using assms by (simp add: read_small_magnitude_def key_double_def negate_magnitude)
qed

lemma exponent_bit:
  assumes "0x43E0000000000000 \<le> f64_magnitude x"
  shows "bit x 62"
proof (rule ccontr)
  assume x: "\<not> bit x 62"
  let ?m = "f64_magnitude x"
  have "bit ?m n \<longleftrightarrow> bit (take_bit 62 ?m) n" if "n < 64" for n
  proof (cases "n < 62")
    case False
    with that have "n = 62 \<or> n = 63" by auto
    then show ?thesis using x by (auto simp: f64_magnitude_def bit_simps)
  qed (simp add: bit_simps)
  then have "?m = take_bit 62 ?m" by (intro bit_word_eqI) simp
  then have "unat ?m = take_bit 62 (unat ?m)" by (metis unsigned_take_bit_eq)
  then have "unat ?m < 2 ^ 62" by (metis take_bit_nat_less_exp)
  then show False using assms by (simp add: word_le_nat_alt)
qed

lemma read_large_double:
  assumes "\<not> small_double x" "0x43E0000000000000 \<le> f64_magnitude x" 
  shows "read_large_magnitude V1 (bit x 63) (key_double x @ rest) = Inr (KDouble x, rest)"
proof (cases "f64_magnitude x = f64_inf")
  case True
  then have "negate_if (bit x 63) f64_inf = x" using negate_magnitude [of x] by simp
  then show ?thesis using True by (simp add: read_large_magnitude_def key_double_def sign_bit_def)
next
  case False
  let ?m = "f64_magnitude x"
  define e where "e = push_bit 1 (?m AND NOT (push_bit 62 1))"
  have m: "bit ?m 62" "\<not> bit ?m 63" using exponent_bit [OF assms(2)] by (simp_all add: f64_magnitude_def bit_simps)
  have e: "bit e n \<longleftrightarrow> n \<noteq> 0 \<and> n < 63 \<and> bit ?m (n - 1)" for n
    unfolding e_def by (simp only: bit_simps) (use m in \<open>auto simp: bit_1_iff\<close>)
  have "e AND sign_bit = 0" by (intro bit_word_eqI) (simp add: bit_simps e)
  moreover have "e AND 1 = 0" by (intro bit_word_eqI) (auto simp: bit_simps e)
  moreover have "drop_bit 1 e OR push_bit 62 1 = ?m"
  proof (intro bit_word_eqI)
    fix n assume n: "n < LENGTH(64)"
    consider "n < 62" | "n = 62" | "n = 63" using n by fastforce
    then show "bit (drop_bit 1 e OR push_bit 62 1) n \<longleftrightarrow> bit ?m n"
      by cases (use m n in \<open>simp_all only: bit_simps, auto simp: e\<close>)
  qed
  moreover have "key_double x = be_bytes 8 (invert_if (bit x 63) e)"
    unfolding key_double_def e_def using False assms(1) by (simp only: if_False)
  ultimately show ?thesis
    using negate_magnitude [of x] by (simp add: read_large_magnitude_def)
qed

subsection \<open>Values\<close>

definition is_scalar :: "kvalue \<Rightarrow> bool" where
  "is_scalar v \<longleftrightarrow> (case v of KCodeWithScope _ _ \<Rightarrow> False | KDoc _ \<Rightarrow> False | KArray _ \<Rightarrow> False | _ \<Rightarrow> True)"

lemma sint_scast32: "sint (scast (i :: u32) :: u64) = sint i"
  by (rule sint_up_scast) (simp add: is_up)

lemma int32_number:
  assumes "(i :: u32) \<noteq> 0"
  shows "(scast i :: u64) \<noteq> 0" "- (2 ^ 63) < sint (scast i :: u64)"
  using assms sint_range_size [of i]
  by (metis sint_0 sint_scast32 signed_word_eqI, simp add: sint_scast32 word_size)

lemma key_number_type_range:
  assumes "- (2 ^ 63) < sint i" "i \<noteq> 0"
  shows "kNumericNegative8ByteInt \<le> uint (key_number_type i) \<and> uint (key_number_type i) \<le> kNumericNegative1ByteInt
    \<or> kNumericPositive1ByteInt \<le> uint (key_number_type i) \<and> uint (key_number_type i) \<le> kNumericPositive8ByteInt"
  using key_number_facts(2,3) [OF assms] by (auto simp: uint_key_number_type)

lemma read_scalar_number:
  assumes "- (2 ^ 63) < sint i" "i \<noteq> 0"
  shows "read_scalar (uint (key_number_type i)) version (key_number i @ rest)
    = Inr (if - (2 ^ 31) \<le> sint i \<and> sint i < 2 ^ 31 then KInt32 (ucast i) else KInt64 i, rest)"
  using key_number_type_range [OF assms] read_number_enc [OF assms]
  unfolding read_scalar_def by auto

lemma read_scalar_double:
  assumes "wf_kvalue (KDouble x)"
  shows "read_scalar (uint (kctype (KDouble x))) V1 (enc_kvalue (KDouble x) @ rest) = Inr (KDouble x, rest)"
proof -
  have "\<not> small_double x \<Longrightarrow> x \<noteq> f64_nan \<Longrightarrow> 0x43E0000000000000 \<le> f64_magnitude x" using assms by auto
  then show ?thesis
    using read_small_double [of x rest] read_large_double [of x rest] by (auto simp: read_scalar_def)
qed

lemma read_binary_enc:
  assumes "length d < 2 ^ 32"
  shows "read_binary (enc_kvalue (KBinary t d) @ rest) = Inr (KBinary t d, rest)"
proof (cases "length d < 255")
  case True
  then have "unat (of_nat (length d) :: byte) = length d" "(of_nat (length d) :: byte) \<noteq> 0xff"
    by (auto simp: unat_of_nat take_bit_nat_eq_self word_unat_eq_iff)
  then show ?thesis using True by (simp add: read_binary_def)
next
  case False
  have "unat (of_nat (length d) :: u32) = length d" using assms by (simp add: unat_of_nat take_bit_nat_eq_self)
  then show ?thesis using False by (simp add: read_binary_def)
qed

lemma read_scalar_enc:
  assumes "is_scalar v" "wf_kvalue v" "no_escape rest"
  shows "read_scalar (uint (kctype v)) V1 (enc_kvalue v @ rest) = Inr (v, rest)"
proof (cases v)
  case (KInt32 i)
  have "sint (scast i :: u64) = sint i" by (rule sint_scast32)
  moreover have "- (2 ^ 31) \<le> sint i" "sint i < 2 ^ 31" using sint_range_size [of i] by (simp_all add: word_size)
  moreover have "(scast i :: u64) \<noteq> 0" using KInt32 assms(2) int32_number [of i] by simp
  moreover have "ucast (scast i :: u64) = i" by (intro bit_word_eqI) (auto simp: bit_simps)
  ultimately show ?thesis using read_scalar_number [of "scast i" V1 rest] KInt32 by simp
next
  case (KInt64 i)
  then have "i \<noteq> 0" using assms(2) by auto
  then show ?thesis using read_scalar_number [of i V1 rest] assms(2) KInt64 by auto
next
  case (KDouble x)
  then show ?thesis using read_scalar_double [of x rest] assms(2) by simp
next
  case (KBinary t d)
  then show ?thesis using read_binary_enc [of d t rest] assms(2) by (simp add: read_scalar_def)
next
  case (KDBPointer ns oid)
  then show ?thesis using assms(2) by (simp add: read_scalar_def read_db_ref_def unat_of_nat take_bit_nat_eq_self)
qed (use assms in \<open>auto simp: is_scalar_def read_scalar_def read_cstring_with_nuls_enc xor.assoc\<close>)

lemma kctype_range:
  assumes "wf_kvalue v"
  shows "10 \<le> uint (kctype v) \<and> uint (kctype v) \<le> 240"
proof (cases v)
  case (KInt32 i)
  then show ?thesis using int32_number [of i] key_number_type_range [of "scast i"] assms by auto
next
  case (KInt64 i)
  then have "- (2 ^ 63) < sint i" "i \<noteq> 0" using assms by auto
  then show ?thesis using key_number_type_range [of i] KInt64 by auto
qed auto

lemma read_ctype_kctype [simp]: "read_ctype (b # rest) = Inr (uint b, rest)"
  by (simp add: read_ctype_def)

lemma read_discriminated_kctype:
  "wf_kvalue v \<Longrightarrow> read_discriminated_ctype (kctype v # rest) = Inr (uint (kctype v), rest)"
  using kctype_range [of v] by (simp add: read_discriminated_ctype_def)

lemma no_escape_simps [simp]:
  "no_escape []" "b \<noteq> 0xff \<Longrightarrow> no_escape (b # rest)"
  by (simp_all add: no_escape_def)

lemma kctype_not_0xff: "wf_kvalue v \<Longrightarrow> kctype v \<noteq> 0xff" "wf_kvalue v \<Longrightarrow> kctype v \<noteq> 0"
  using kctype_range [of v] by (auto simp: word_uint_eq_iff)

lemma named_fields_enc:
  assumes "\<And>k v rest. (k, v) \<in> set kvs \<Longrightarrow> no_escape rest \<Longrightarrow>
      keystring_value (uint (kctype v)) V1 (enc_kvalue v @ rest) = Inr (v, rest)"
    and "list_all (\<lambda>(k, v). CHR 0x00 \<notin> set k \<and> wf_kvalue v) kvs"
  shows "keystring_to_bson_partial V1 ModeNamed acc
      (concat (map (\<lambda>(k, v). kctype v # enc_cstring k @ kctype v # enc_kvalue v) kvs) @ 0 # rest)
    = Inr (KDoc (acc @ kvs), rest)"
  using assms
proof (induction kvs arbitrary: acc)
  case Nil
  show ?case by (subst keystring_to_bson_partial.simps) (simp add: read_discriminated_ctype_def)
next
  case (Cons kv kvs)
  obtain k v where kv: "kv = (k, v)" by fastforce
  let ?more = "concat (map (\<lambda>(k, v). kctype v # enc_cstring k @ kctype v # enc_kvalue v) kvs) @ 0 # rest"
  have wf: "wf_kvalue v" "CHR 0x00 \<notin> set k" using Cons.prems(2) kv by auto
  have "no_escape ?more"
    using Cons.prems(2) kctype_not_0xff by (cases kvs) auto
  then have "keystring_value (uint (kctype v)) V1 (enc_kvalue v @ ?more) = Inr (v, ?more)"
    using Cons.prems(1) [of k v] kv by simp
  moreover have "keystring_to_bson_partial V1 ModeNamed (acc @ [(k, v)]) ?more = Inr (KDoc ((acc @ [(k, v)]) @ kvs), rest)"
    by (rule Cons.IH) (use Cons.prems in auto)
  ultimately show ?case
    using kctype_range [OF wf(1)] wf
    by (subst keystring_to_bson_partial.simps) (simp add: kv read_discriminated_kctype)
qed

lemma array_elements_enc:
  assumes "\<And>v rest. v \<in> set vs \<Longrightarrow> no_escape rest \<Longrightarrow>
      keystring_value (uint (kctype v)) V1 (enc_kvalue v @ rest) = Inr (v, rest)"
    and "list_all wf_kvalue vs"
  shows "keystring_array V1 acc (concat (map (\<lambda>v. kctype v # enc_kvalue v) vs) @ 0 # rest) = Inr (KArray (acc @ vs), rest)"
  using assms
proof (induction vs arbitrary: acc)
  case Nil
  show ?case by (subst keystring_array.simps) simp
next
  case (Cons v vs)
  let ?more = "concat (map (\<lambda>v. kctype v # enc_kvalue v) vs) @ 0 # rest"
  have wf: "wf_kvalue v" using Cons.prems(2) by simp
  have "no_escape ?more" using Cons.prems(2) kctype_not_0xff by (cases vs) auto
  then have "keystring_to_bson_partial V1 ModeSingle [] (kctype v # enc_kvalue v @ ?more) = Inr (v, ?more)"
    using Cons.prems(1) [of v] kctype_range [OF wf] wf
    by (subst keystring_to_bson_partial.simps) (simp add: read_discriminated_kctype)
  moreover have "keystring_array V1 (acc @ [v]) ?more = Inr (KArray ((acc @ [v]) @ vs), rest)"
    using Cons.IH [of "acc @ [v]"] Cons.prems by simp
  ultimately show ?case
    using kctype_not_0xff(2) [OF wf] by (subst keystring_array.simps) simp
qed

lemma scalar_kctype:
  assumes "is_scalar v" "wf_kvalue v"
  shows "uint (kctype v) \<notin> {kCodeWithScope, kObject, kArray}"
proof (cases v)
  case (KInt32 i)
  then show ?thesis using int32_number [of i] key_number_type_range [of "scast i"] assms by auto
next
  case (KInt64 i)
  then have "- (2 ^ 63) < sint i" "i \<noteq> 0" using assms by auto
  then show ?thesis using key_number_type_range [of i] KInt64 by auto
qed (use assms in \<open>auto simp: is_scalar_def\<close>)

lemma keystring_scalar_enc:
  assumes "is_scalar v" "wf_kvalue v" "no_escape rest"
  shows "keystring_value (uint (kctype v)) V1 (enc_kvalue v @ rest) = Inr (v, rest)"
  using scalar_kctype [OF assms(1,2)] read_scalar_enc [OF assms] by (subst keystring_value.simps) simp

lemma keystring_value_enc:
  "wf_kvalue v \<Longrightarrow> no_escape rest \<Longrightarrow> keystring_value (uint (kctype v)) V1 (enc_kvalue v @ rest) = Inr (v, rest)"
proof (induction v arbitrary: rest)
  case (KCodeWithScope s v)
  from KCodeWithScope.prems(1) obtain kvs where v: "v = KDoc kvs" by (auto split: kvalue.splits)
  have "no_escape (enc_kvalue v @ rest)"
    using KCodeWithScope.prems(1) kctype_not_0xff unfolding v by (cases kvs) auto
  moreover have "keystring_value kObject V1 (enc_kvalue v @ rest) = Inr (v, rest)"
    using KCodeWithScope.IH [of rest] KCodeWithScope.prems v by simp
  then have "keystring_to_bson_partial V1 ModeNamed [] (enc_kvalue v @ rest) = Inr (v, rest)"
    by (subst (asm) keystring_value.simps) simp
  ultimately show ?case
    by (subst keystring_value.simps) (simp add: read_cstring_with_nuls_enc)
next
  case (KDoc kvs)
  have "keystring_to_bson_partial V1 ModeNamed [] (enc_kvalue (KDoc kvs) @ rest) = Inr (KDoc kvs, rest)"
    using named_fields_enc [of kvs "[]" rest] KDoc by (fastforce simp: list_all_iff)
  then show ?case by (subst keystring_value.simps) simp
next
  case (KArray vs)
  have "keystring_array V1 [] (enc_kvalue (KArray vs) @ rest) = Inr (KArray vs, rest)"
    using array_elements_enc [of vs "[]" rest] KArray by (simp add: list_all_iff)
  then show ?case by (subst keystring_value.simps) simp
qed (rule keystring_scalar_enc; simp add: is_scalar_def)+

text \<open>A whole key, and its hexadecimal text.\<close>

definition enc_key :: "kvalue list \<Rightarrow> bytes" where
  "enc_key vs = concat (map (\<lambda>v. kctype v # enc_kvalue v) vs) @ [4]"

definition hex_char :: "nat \<Rightarrow> char" where
  "hex_char n = char_of (if n < 10 then 48 + n else 87 + n)"

definition hex_encode :: "bytes \<Rightarrow> string" where
  "hex_encode bs = concat (map (\<lambda>b. [hex_char (unat b div 16), hex_char (unat b mod 16)]) bs)"

lemma hex_digit_char: "n < 16 \<Longrightarrow> hex_digit (hex_char n) = Some (word_of_nat n)"
  by (auto simp: hex_digit_def hex_char_def Let_def)

lemma hex_decode_encode: "hex_decode (hex_encode bs) = Inr bs"
proof (induction bs)
  case (Cons b bs)
  have "unat b < 256" by (rule unsigned_less [of b, THEN order_less_le_trans]) simp
  then have d: "unat b div 16 < 16" by simp
  have "word_of_nat (unat b div 16) = drop_bit 4 b" "word_of_nat (unat b mod 16) = take_bit 4 b"
    by (simp_all add: drop_bit_eq_div take_bit_eq_mod word_unat_eq_iff unat_div unat_mod unat_of_nat take_bit_nat_eq_self_iff
        d order_less_trans [OF d])
  moreover have "push_bit 4 (drop_bit 4 b) OR take_bit 4 b = b"
    by (intro bit_word_eqI) (auto simp: bit_simps)
  ultimately show ?case
    using Cons d by (simp add: hex_encode_def hex_digit_char)
qed (simp add: hex_encode_def)

lemma top_level_enc:
  "list_all wf_kvalue vs \<Longrightarrow> keystring_to_bson_partial V1 ModeTopLevel acc (enc_key vs) = Inr (KDoc (acc @ map (Pair []) vs), [])"
proof (induction vs arbitrary: acc)
  case Nil
  show ?case by (subst keystring_to_bson_partial.simps) (simp add: enc_key_def read_discriminated_ctype_def)
next
  case (Cons v vs)
  have wf: "wf_kvalue v" using Cons.prems by simp
  have k: "enc_key (v # vs) = kctype v # enc_kvalue v @ enc_key vs" by (simp add: enc_key_def)
  have "no_escape (enc_key vs)"
    using Cons.prems kctype_not_0xff by (cases vs) (auto simp: enc_key_def)
  then show ?case
    using keystring_value_enc [OF wf] kctype_range [OF wf] wf Cons
    by (subst keystring_to_bson_partial.simps) (simp add: k read_discriminated_kctype)
qed



section \<open>No input makes the decoder panic\<close>

definition no_panic :: "go_error + 'a \<Rightarrow> bool" where
  "no_panic m \<longleftrightarrow> (\<forall>e. m = Inl e \<longrightarrow> \<not> is_panic e)"

named_theorems no_panic

lemma no_panic_basic [no_panic]:
  "no_panic (Inr x)" "no_panic (Inl (Err s))" "no_panic (Inl unexpected_end)"
  "no_panic a \<Longrightarrow> no_panic b \<Longrightarrow> no_panic (if c then a else b)"
  by (simp_all add: no_panic_def unexpected_end_def)

lemma no_panic_rbind [no_panic]:
  "no_panic m \<Longrightarrow> (\<And>v rest. no_panic (f v rest)) \<Longrightarrow> no_panic (rbind m (\<lambda>(v, rest). f v rest))"
  by (cases m) (auto simp: no_panic_def)

lemma no_panic_readers [no_panic]: "no_panic (read_uint8 buf)" "no_panic (read_bytes n buf)"
  by (simp_all add: read_uint8_def read_bytes_def no_panic split: list.split)

lemma no_panic_uint32 [no_panic]: "no_panic (read_uint32_be buf)"
  unfolding read_uint32_be_def by (intro no_panic)

lemma no_panic_uint64 [no_panic]: "no_panic (read_uint64_be buf)"
  unfolding read_uint64_be_def by (intro no_panic)

lemma no_panic_cstring [no_panic]: "no_panic (read_cstring buf)"
  unfolding read_cstring_def by (intro no_panic)

lemma no_panic_more_cstrings [no_panic]: "no_panic (read_more_cstrings s buf)"
proof (induction s buf rule: read_more_cstrings.induct)
  case (1 s buf)
  show ?case
  proof (cases "buf \<noteq> [] \<and> hd buf = 0xff")
    case True
    then show ?thesis
      using 1 no_panic_cstring [of "tl buf"]
      by (subst read_more_cstrings.simps) (auto simp: no_panic_def rbind_eq_Inl)
  next
    case False
    then show ?thesis by (subst read_more_cstrings.simps) (auto simp: no_panic_def)
  qed
qed

lemma no_panic_cstring_with_nuls [no_panic]: "no_panic (read_cstring_with_nuls buf)"
  unfolding read_cstring_with_nuls_def by (intro no_panic)

lemma no_panic_skip [no_panic]: "no_panic (skip_uint64 v buf)"
  unfolding skip_uint64_def by (intro no_panic)

lemma no_panic_be_bytes [no_panic]: "no_panic (read_be_bytes neg n acc buf)"
proof (induction n arbitrary: acc buf)
  case (Suc n)
  then show ?case unfolding read_be_bytes.simps by (intro no_panic)
qed (simp add: no_panic)

lemma no_panic_magnitudes [no_panic]:
  "no_panic (read_large_magnitude version neg buf)" "no_panic (read_small_magnitude version neg buf)"
  "no_panic (read_v1_fraction neg c w buf)"
  unfolding read_large_magnitude_def read_small_magnitude_def read_v1_fraction_def Let_def
  by (intro no_panic)+

lemma no_panic_number [no_panic]: "no_panic (read_number V1 c buf)"
  unfolding read_number_def Let_def by (simp only: key_string_version.distinct if_False) (intro no_panic)

lemma no_panic_scalar [no_panic]: "no_panic (read_scalar ctype V1 buf)"
  unfolding read_scalar_def read_binary_def read_db_ref_def by (intro no_panic)

lemma no_panic_ctype [no_panic]: "no_panic (read_ctype buf)" "no_panic (read_discriminated_ctype buf)"
  unfolding read_discriminated_ctype_def read_ctype_def by (intro no_panic)+

lemma no_panic_rbindI:
  "no_panic m \<Longrightarrow> (\<And>v rest. m = Inr (v, rest) \<Longrightarrow> no_panic (f v rest)) \<Longrightarrow> no_panic (rbind m (\<lambda>(v, rest). f v rest))"
  by (cases m) (auto simp: no_panic_def)

lemma no_panic_rbind_all: "no_panic m \<Longrightarrow> (\<And>x. no_panic (f x)) \<Longrightarrow> no_panic (rbind m f)"
  by (cases m) (auto simp: no_panic_def)

lemma no_panic_ifI: "(c \<Longrightarrow> no_panic a) \<Longrightarrow> (\<not> c \<Longrightarrow> no_panic b) \<Longrightarrow> no_panic (if c then a else b)"
  by simp

lemma keystring_no_panic:
  "version = V1 \<Longrightarrow> no_panic (keystring_value ctype version buf)"
  "version = V1 \<Longrightarrow> no_panic (keystring_array version arr buf)"
  "version = V1 \<Longrightarrow> no_panic (keystring_to_bson_partial version mode contents buf)"
proof (induction ctype version buf and version arr buf and version mode contents buf
    rule: keystring_value_keystring_array_keystring_to_bson_partial.induct)
  case (1 ctype version buf)
  note V1 = \<open>version = V1\<close>
  show ?case
    unfolding keystring_value.simps [of ctype] V1
    by (intro no_panic_ifI no_panic_rbindI no_panic)
      (erule 1(1) [unfolded V1], (assumption | rule refl)+, erule 1(2) [unfolded V1], (assumption | rule refl)+,
       erule 1(3) [unfolded V1], (assumption | rule refl)+)
next
  case (2 version arr buf)
  note V1 = \<open>version = V1\<close>
  show ?case
    unfolding V1 keystring_array.simps [of V1 arr buf]
    by (intro no_panic_ifI no_panic_rbindI no_panic)
      (erule 2(1) [unfolded V1], (assumption | rule refl)+, erule 2(2) [unfolded V1], (assumption | rule refl)+)
next
  case (3 version mode contents buf)
  note V1 = \<open>version = V1\<close>
  show ?case
    unfolding V1 keystring_to_bson_partial.simps [of V1 mode contents buf]
    by (intro no_panic_ifI no_panic_rbindI no_panic)
      (erule 3(1) [unfolded V1], (assumption | rule refl)+, erule 3(2) [unfolded V1], (assumption | rule refl)+,
       erule 3(3) [unfolded V1], (assumption | rule refl)+, erule 3(4) [unfolded V1], (assumption | rule refl)+,
       erule 3(5) [unfolded V1], (assumption | rule refl)+)
qed

definition doc_result :: "go_error + kvalue \<times> bytes \<Rightarrow> bool" where
  "doc_result m \<longleftrightarrow> (\<forall>v rest. m = Inr (v, rest) \<longrightarrow> (\<exists>d. v = KDoc d))"

lemma doc_result_intros:
  "doc_result (Inr (KDoc d, buf))"
  "(\<And>v rest. m = Inr (v, rest) \<Longrightarrow> doc_result (f v rest)) \<Longrightarrow> doc_result (rbind m (\<lambda>(v, rest). f v rest))"
  "(c \<Longrightarrow> doc_result x) \<Longrightarrow> (\<not> c \<Longrightarrow> doc_result y) \<Longrightarrow> doc_result (if c then x else y)"
  by (auto simp: doc_result_def rbind_eq_Inr)

lemma partial_doc:
  "keystring_value ctype version buf = keystring_value ctype version buf"
  "keystring_array version arr buf = keystring_array version arr buf"
  "mode \<noteq> ModeSingle \<Longrightarrow> doc_result (keystring_to_bson_partial version mode contents buf)"
proof (induction ctype version buf and version arr buf and version mode contents buf
    rule: keystring_value_keystring_array_keystring_to_bson_partial.induct)
  case (3 version mode contents buf)
  show ?case
    unfolding keystring_to_bson_partial.simps [of version mode contents buf]
    by (intro doc_result_intros)
      (erule 3(2), (assumption | rule refl | rule \<open>mode \<noteq> ModeSingle\<close>)+,
       (simp only: \<open>mode \<noteq> ModeSingle\<close>), erule 3(5), (assumption | rule refl | rule \<open>mode \<noteq> ModeSingle\<close>)+)
qed simp_all

text \<open>C38: No input makes the decoder panic: in the version the verifier uses, every sequence of bytes,
  every text and every other value gives a document or an error.\<close>

theorem keystring_never_panics:
  "case keystring_to_bson V1 inbuf of Inr d \<Rightarrow> True | Inl e \<Rightarrow> \<not> is_panic e"
proof -
  have "no_panic (hex_decode s)" for s
    by (induction s rule: hex_decode.induct) (auto simp: no_panic_def rbind_eq_Inl split: option.splits)
  then have b: "no_panic (case inbuf of Buf buf \<Rightarrow> Inr buf | Hex str \<Rightarrow> hex_decode str
      | OtherInput \<Rightarrow> Inl (Err ''KeystringToBson accepts only []uint8 or string''))"
    by (auto simp: no_panic_def split: keystring_input.splits)
  have "no_panic (keystring_to_bson V1 inbuf)"
    unfolding keystring_to_bson_def
  proof (rule no_panic_rbind_all [OF b])
    fix buf
    show "no_panic (rbind (keystring_to_bson_partial V1 ModeTopLevel [] buf)
        (\<lambda>(result, _). case result of KDoc d \<Rightarrow> Inr d | _ \<Rightarrow> Inl (Panic ''interface conversion'')))"
      by (intro no_panic_rbindI keystring_no_panic refl)
        (use partial_doc(3) [of ModeTopLevel] in \<open>fastforce simp: doc_result_def no_panic_def\<close>)
  qed
  then show ?thesis by (simp add: no_panic_def split: sum.split)
qed

end
