(* ===== verification/Effects.thy ===== *)
theory Effects
  imports Prelude
begin

text \<open>
  Actions on a state that may fail and keep the state they have reached: the shape of every Go
  function that writes to a database and returns an error. An action's error does not undo its
  writes.
\<close>

type_synonym ('s, 'e, 'a) act = "'s \<Rightarrow> ('e + 'a) \<times> 's"

definition areturn :: "'a \<Rightarrow> ('s, 'e, 'a) act" where
  "areturn x = (\<lambda>s. (Inr x, s))"

definition afail :: "'e \<Rightarrow> ('s, 'e, 'a) act" where
  "afail e = (\<lambda>s. (Inl e, s))"

definition abind :: "('s, 'e, 'a) act \<Rightarrow> ('a \<Rightarrow> ('s, 'e, 'b) act) \<Rightarrow> ('s, 'e, 'b) act" where
  "abind m f = (\<lambda>s. case m s of (Inl e, s') \<Rightarrow> (Inl e, s') | (Inr x, s') \<Rightarrow> f x s')"

text \<open>A computation of the error sum, and an update of the state that may fail and then changes nothing.\<close>

definition alift :: "'e + 'a \<Rightarrow> ('s, 'e, 'a) act" where
  "alift r = (\<lambda>s. (r, s))"

definition aupdate :: "('s \<Rightarrow> 'e + 'a \<times> 's) \<Rightarrow> ('s, 'e, 'a) act" where
  "aupdate f = (\<lambda>s. case f s of Inl e \<Rightarrow> (Inl e, s) | Inr (x, s') \<Rightarrow> (Inr x, s'))"

definition aread :: "('s \<Rightarrow> 'e + 'a) \<Rightarrow> ('s, 'e, 'a) act" where
  "aread f = (\<lambda>s. (f s, s))"

lemma act_simps [simp]:
  "areturn x s = (Inr x, s)" "afail e s = (Inl e, s)" "alift r s = (r, s)" "aread f s = (f s, s)"
  by (simp_all add: areturn_def afail_def alift_def aread_def)

lemma abind_laws [simp]:
  "abind (areturn x) f = f x" "abind (afail e) f = afail e" "abind m areturn = m"
  "abind (alift (Inr x)) f = f x" "abind (alift (Inl e)) f = afail e"
  by (auto simp: abind_def fun_eq_iff areturn_def afail_def alift_def split: prod.splits sum.splits)

lemma abind_assoc: "abind (abind m f) g = abind m (\<lambda>x. abind (f x) g)"
  by (auto simp: abind_def fun_eq_iff split: prod.splits sum.splits)

lemma abind_cong [fundef_cong]:
  "m s = m' s \<Longrightarrow> (\<And>x s'. m s = (Inr x, s') \<Longrightarrow> f x s' = f' x s') \<Longrightarrow> abind m f s = abind m' f' s"
  by (auto simp: abind_def split: prod.splits sum.splits)

lemma abind_eq_Inr:
  "abind m f s = (Inr y, s'') \<longleftrightarrow> (\<exists>x s'. m s = (Inr x, s') \<and> f x s' = (Inr y, s''))"
  by (auto simp: abind_def split: prod.splits sum.splits)

lemma abind_eq_Inl:
  "abind m f s = (Inl e, s'') \<longleftrightarrow> m s = (Inl e, s'') \<or> (\<exists>x s'. m s = (Inr x, s') \<and> f x s' = (Inl e, s''))"
  by (auto simp: abind_def split: prod.splits sum.splits)

lemma aupdate_eq_Inr: "aupdate f s = (Inr x, s') \<longleftrightarrow> f s = Inr (x, s')"
  by (auto simp: aupdate_def split: sum.splits)

lemma aupdate_eq_Inl: "aupdate f s = (Inl e, s') \<longleftrightarrow> f s = Inl e \<and> s' = s"
  by (auto simp: aupdate_def split: sum.splits)

lemma abind_eqI: "m s = (Inr x, s') \<Longrightarrow> abind m f s = f x s'"
  by (simp add: abind_def)

lemma abind_failI: "m s = (Inl e, s') \<Longrightarrow> abind m f s = (Inl e, s')"
  by (simp add: abind_def)

text \<open>A loop over a list that stops at the first error, threading a value of its own.\<close>

fun afold :: "('b \<Rightarrow> 'x \<Rightarrow> ('s, 'e, 'b) act) \<Rightarrow> 'b \<Rightarrow> 'x list \<Rightarrow> ('s, 'e, 'b) act" where
  "afold f b [] = areturn b"
| "afold f b (x # xs) = abind (f b x) (\<lambda>b'. afold f b' xs)"

lemma afold_append: "afold f b (xs @ ys) = abind (afold f b xs) (\<lambda>b'. afold f b' ys)"
  by (induction xs arbitrary: b) (simp_all add: abind_assoc)

lemma afold_total:
  assumes "P b s"
    and "\<And>b s x. P b s \<Longrightarrow> x \<in> set xs \<Longrightarrow> \<exists>b' s'. f b x s = (Inr b', s') \<and> P b' s'"
  shows "\<exists>b' s'. afold f b xs s = (Inr b', s') \<and> P b' s'"
  using assms
proof (induction xs arbitrary: b s)
  case (Cons x xs)
  obtain b1 s1 where "f b x s = (Inr b1, s1)" "P b1 s1"
    using Cons.prems(1) Cons.prems(2) [of b s x] by auto
  moreover have "\<exists>b' s'. afold f b1 xs s1 = (Inr b', s') \<and> P b' s'"
    by (rule Cons.IH [OF \<open>P b1 s1\<close>]) (use Cons.prems(2) in auto)
  ultimately show ?case by (auto simp: abind_eqI)
qed simp

section \<open>Triples\<close>

text \<open>
  \<open>triple P m Q E\<close>: from a state with \<open>P\<close> the action ends with \<open>Q\<close> of its result and state, or
  with an error in a state with \<open>E\<close>.
\<close>

definition triple :: "('s \<Rightarrow> bool) \<Rightarrow> ('s, 'e, 'a) act \<Rightarrow> ('a \<Rightarrow> 's \<Rightarrow> bool) \<Rightarrow> ('s \<Rightarrow> bool) \<Rightarrow> bool" where
  "triple P m Q E \<longleftrightarrow> (\<forall>s. P s \<longrightarrow> (\<forall>x s'. m s = (Inr x, s') \<longrightarrow> Q x s') \<and> (\<forall>e s'. m s = (Inl e, s') \<longrightarrow> E s'))"

lemma tripleI:
  "(\<And>s x s'. P s \<Longrightarrow> m s = (Inr x, s') \<Longrightarrow> Q x s') \<Longrightarrow> (\<And>s e s'. P s \<Longrightarrow> m s = (Inl e, s') \<Longrightarrow> E s') \<Longrightarrow> triple P m Q E"
  by (simp add: triple_def)

lemma triple_Inr: "triple P m Q E \<Longrightarrow> P s \<Longrightarrow> m s = (Inr x, s') \<Longrightarrow> Q x s'"
  by (simp add: triple_def)

lemma triple_Inl: "triple P m Q E \<Longrightarrow> P s \<Longrightarrow> m s = (Inl e, s') \<Longrightarrow> E s'"
  by (simp add: triple_def)

lemma triple_end: "triple P m (\<lambda>_. E) E \<Longrightarrow> P s \<Longrightarrow> E (snd (m s))"
  by (cases "m s"; cases "fst (m s)") (auto simp: triple_def)

lemma triple_bind [intro]:
  "triple P m R E \<Longrightarrow> (\<And>x. triple (R x) (f x) Q E) \<Longrightarrow> triple P (abind m f) Q E"
  unfolding triple_def abind_eq_Inr abind_eq_Inl by blast

lemma triple_return: "(\<And>s. P s \<Longrightarrow> Q x s) \<Longrightarrow> triple P (areturn x) Q E"
  by (simp add: triple_def)

lemma triple_fail: "(\<And>s. P s \<Longrightarrow> E s) \<Longrightarrow> triple P (afail e) Q E"
  by (simp add: triple_def)

lemma triple_lift: "(\<And>s. P s \<Longrightarrow> E s) \<Longrightarrow> triple P (alift r) (\<lambda>x s. P s \<and> r = Inr x) E"
  by (auto simp: triple_def)

lemma triple_read: "(\<And>s. P s \<Longrightarrow> E s) \<Longrightarrow> triple P (aread f) (\<lambda>x s. P s \<and> f s = Inr x) E"
  by (auto simp: triple_def)

lemma triple_conseq:
  "triple P m Q E \<Longrightarrow> (\<And>s. P' s \<Longrightarrow> P s) \<Longrightarrow> (\<And>x s. Q x s \<Longrightarrow> Q' x s) \<Longrightarrow> (\<And>s. E s \<Longrightarrow> E' s) \<Longrightarrow> triple P' m Q' E'"
  unfolding triple_def by blast

lemma triple_pre: "triple P m Q E \<Longrightarrow> (\<And>s. P' s \<Longrightarrow> P s) \<Longrightarrow> triple P' m Q E"
  unfolding triple_def by blast

lemma triple_bind_lift:
  "(\<And>s. P s \<Longrightarrow> E s) \<Longrightarrow> (\<And>x. r = Inr x \<Longrightarrow> triple P (f x) Q E) \<Longrightarrow> triple P (abind (alift r) f) Q E"
  by (cases r) (auto simp: triple_def)

lemma triple_bind_read:
  "(\<And>s. P s \<Longrightarrow> E s) \<Longrightarrow> (\<And>x. triple (\<lambda>s. P s \<and> g s = Inr x) (f x) Q E) \<Longrightarrow> triple P (abind (aread g) f) Q E"
  by (rule triple_bind [OF triple_read])

lemma triple_fact: "(\<And>s. P s \<Longrightarrow> C) \<Longrightarrow> (C \<Longrightarrow> triple P m Q E) \<Longrightarrow> triple P m Q E"
  by (auto simp: triple_def)

lemma triple_fold:
  assumes "\<And>b x. x \<in> set xs \<Longrightarrow> triple (I b) (f b x) I E"
  shows "triple (I b) (afold f b xs) I E"
  using assms
proof (induction xs arbitrary: b)
  case Nil
  show ?case by (simp add: triple_def)
next
  case (Cons x xs)
  then show ?case by (auto intro!: triple_bind)
qed

end
