(* ===== verification/Retry.thy ===== *)
theory Retry
  imports Effects
begin

text \<open>
  The retryer (\<open>internal/retry\<close>). Its callbacks run concurrently and act on a state; one attempt is
  an action that reports which callbacks noted a success and when, which one failed first, and what
  the clock says when the loop looks at it. The errors are a parameter with the few operations the
  loop has on them; \<open>Go_Errors\<close> gives the verifier's own.
\<close>

section \<open>The retryer\<close>

record retryer =
  ry_timeLimit :: "int option"
  ry_callbacks :: "string list"
  ry_description :: "string option"
  ry_additionalErrorCodes :: "int list"
  ry_maxAttempts :: "int option"

definition second :: int where "second = 10 ^ 9"
definition DefaultTimeLimit :: int where "DefaultTimeLimit = 10 * 60 * second"
definition minSleepTime :: int where "minSleepTime = 1 * second"
definition maxSleepTime :: int where "maxSleepTime = 16 * second"
definition sleepTimeMultiplier :: int where "sleepTimeMultiplier = 2"
definition authenticationFailedCode :: int where "authenticationFailedCode = 18"

definition new_retryer :: retryer where
  "new_retryer = \<lparr>ry_timeLimit = Some DefaultTimeLimit, ry_callbacks = [], ry_description = None,
     ry_additionalErrorCodes = [], ry_maxAttempts = None\<rparr>"

definition with_error_codes :: "int list \<Rightarrow> retryer \<Rightarrow> retryer" where
  "with_error_codes codes r = r\<lparr>ry_additionalErrorCodes := codes\<rparr>"

definition with_time_limit :: "int \<Rightarrow> retryer \<Rightarrow> go_error + retryer" where
  "with_time_limit limit r = (if limit \<ge> 0 then Inr (r\<lparr>ry_timeLimit := Some limit\<rparr>)
     else Inl (Panic ''time limit must be nonnegative''))"

definition without_time_limit :: "retryer \<Rightarrow> retryer" where
  "without_time_limit r = r\<lparr>ry_timeLimit := None\<rparr>"

definition with_max_attempts :: "int \<Rightarrow> retryer \<Rightarrow> go_error + retryer" where
  "with_max_attempts m r = (if m > 0 then Inr (r\<lparr>ry_maxAttempts := Some m\<rparr>)
     else Inl (Panic ''max attempts must be positive''))"

definition with_description :: "string \<Rightarrow> retryer \<Rightarrow> retryer" where
  "with_description d r = r\<lparr>ry_description := Some d\<rparr>"

definition with_callback :: "string \<Rightarrow> retryer \<Rightarrow> retryer" where
  "with_callback d r = r\<lparr>ry_callbacks := ry_callbacks r @ [d]\<rparr>"

section \<open>What the loop knows of each callback\<close>

record last_reset_info =
  lr_time :: int
  lr_description :: "string option"
  lr_resetsSoFar :: u64

record func_info =
  fi_description :: string
  fi_loopDescription :: "string option"
  fi_lastReset :: last_reset_info

definition new_func_info :: "retryer \<Rightarrow> int \<Rightarrow> string \<Rightarrow> func_info" where
  "new_func_info r startTime d = \<lparr>fi_description = d, fi_loopDescription = ry_description r,
     fi_lastReset = \<lparr>lr_time = startTime, lr_description = None, lr_resetsSoFar = 0\<rparr>\<rparr>"

definition get_duration_so_far :: "int \<Rightarrow> func_info \<Rightarrow> int" where
  "get_duration_so_far now fi = now - lr_time (fi_lastReset fi)"

definition note_success :: "string \<Rightarrow> int \<Rightarrow> func_info \<Rightarrow> func_info" where
  "note_success d now fi = fi\<lparr>fi_lastReset := \<lparr>lr_time = now, lr_description = Some d,
     lr_resetsSoFar = 1 + lr_resetsSoFar (fi_lastReset fi)\<rparr>\<rparr>"

definition get_descriptions :: "func_info \<Rightarrow> string list" where
  "get_descriptions fi = (case fi_loopDescription fi of None \<Rightarrow> [] | Some d \<Rightarrow> [d]) @ [fi_description fi]"

section \<open>Errors\<close>

record 'e error_ops =
  eo_transient :: "'e \<Rightarrow> bool"
  eo_has_code :: "'e \<Rightarrow> int \<Rightarrow> bool"
  eo_wrap :: "string \<Rightarrow> 'e \<Rightarrow> 'e"
  eo_limit_exceeded :: "nat \<Rightarrow> int \<Rightarrow> 'e \<Rightarrow> 'e"
  eo_new :: "string \<Rightarrow> 'e"
  eo_testing :: bool

definition err_has_any_code :: "'e error_ops \<Rightarrow> 'e \<Rightarrow> int list \<Rightarrow> bool" where
  "err_has_any_code ops e codes = list_ex (eo_has_code ops e) codes"

definition should_retry_with_sleep :: "'e error_ops \<Rightarrow> retryer \<Rightarrow> 'e \<Rightarrow> bool" where
  "should_retry_with_sleep ops r e \<longleftrightarrow>
     eo_transient ops e \<or> err_has_any_code ops e (ry_additionalErrorCodes r)
     \<or> eo_testing ops \<and> err_has_any_code ops e [authenticationFailedCode]"

definition wrap_err_with_descriptions :: "'e error_ops \<Rightarrow> 'e \<Rightarrow> string list \<Rightarrow> 'e" where
  "wrap_err_with_descriptions ops e ds = foldl (\<lambda>e d. eo_wrap ops d e) e (rev ds)"

section \<open>The loop\<close>

text \<open>
  An attempt: \<open>gr_before\<close> is the error of the retryer's before-function, \<open>gr_notes\<close> the successes the
  callbacks note (which callback, what, when), \<open>gr_failure\<close> the first callback to fail, \<open>gr_now\<close> the
  clock when that is examined and \<open>gr_woken\<close> the clock after the sleep, absent when the context is
  canceled during it.
\<close>

record 'e group_run =
  gr_before :: "'e option"
  gr_notes :: "(nat \<times> string \<times> int) list"
  gr_failure :: "(nat \<times> 'e) option"
  gr_now :: int
  gr_woken :: "int option"

datatype 'e loop_end = Succeeded | FailedWith 'e | LoopPanic string | LoopCanceled | StillRunning

definition note_all :: "(nat \<times> string \<times> int) list \<Rightarrow> func_info list \<Rightarrow> func_info list" where
  "note_all notes fis = foldl (\<lambda>fis (i, d, t). fis[i := note_success d t (fis ! i)]) fis notes"

text \<open>After the sleep every callback that did not fail counts as having just succeeded.\<close>

definition reset_others :: "nat \<Rightarrow> int \<Rightarrow> func_info list \<Rightarrow> func_info list" where
  "reset_others failed now fis = map (\<lambda>(i, fi). if i \<noteq> failed
     then fi\<lparr>fi_lastReset := \<lparr>lr_time = now, lr_description = None, lr_resetsSoFar = 0\<rparr>\<rparr> else fi) (enumerate 0 fis)"

definition next_sleep_time :: "int \<Rightarrow> int" where
  "next_sleep_time t = (if t * sleepTimeMultiplier > maxSleepTime then maxSleepTime else t * sleepTimeMultiplier)"

definition limit_exceeded :: "retryer \<Rightarrow> nat \<Rightarrow> int \<Rightarrow> bool" where
  "limit_exceeded r attempts duration \<longleftrightarrow>
     (case ry_timeLimit r of None \<Rightarrow> False | Some limit \<Rightarrow> duration > limit)
     \<or> (case ry_maxAttempts r of None \<Rightarrow> False | Some m \<Rightarrow> int attempts \<ge> m)"

text \<open>The result of an attempt that failed, or how long to sleep before the next one.\<close>

definition after_failure :: "'e error_ops \<Rightarrow> retryer \<Rightarrow> nat \<Rightarrow> func_info list \<Rightarrow> nat \<Rightarrow> 'e \<Rightarrow> int \<Rightarrow> 'e loop_end option" where
  "after_failure ops r attempts fis i e now =
     (if i \<ge> length fis then Some (LoopPanic ''index out of range'')
      else let fi = fis ! i; ds = get_descriptions fi
           in if \<not> should_retry_with_sleep ops r e then Some (FailedWith (wrap_err_with_descriptions ops e ds))
              else if limit_exceeded r attempts (get_duration_so_far now fi)
              then Some (FailedWith (wrap_err_with_descriptions ops
                     (eo_limit_exceeded ops attempts (get_duration_so_far now fi) e) ds))
              else None)"

text \<open>What one attempt leads to: the end of the loop, or another attempt after the sleep.\<close>

definition attempt_end :: "'e error_ops \<Rightarrow> retryer \<Rightarrow> nat \<Rightarrow> func_info list \<Rightarrow> int \<Rightarrow> 'e group_run
     \<Rightarrow> ('e loop_end \<times> int list) + func_info list" where
  "attempt_end ops r attemptsSoFar fis sleepTime g =
     (case gr_before g of
        Some e \<Rightarrow> Inl (FailedWith (eo_wrap ops ''before'' e), [])
      | None \<Rightarrow>
          (let fis' = note_all (gr_notes g) fis
           in case gr_failure g of
                None \<Rightarrow> Inl (Succeeded, [])
              | Some (i, e) \<Rightarrow>
                  (case after_failure ops r (Suc attemptsSoFar) fis' i e (gr_now g) of
                     Some end \<Rightarrow> Inl (end, [])
                   | None \<Rightarrow>
                       (case gr_woken g of
                          None \<Rightarrow> Inl (LoopCanceled, [sleepTime])
                        | Some now \<Rightarrow> Inr (reset_others i now fis')))))"

fun retry_loop :: "'e error_ops \<Rightarrow> retryer \<Rightarrow> nat \<Rightarrow> func_info list \<Rightarrow> int
     \<Rightarrow> ('s \<Rightarrow> 'e group_run \<times> 's) list \<Rightarrow> 's \<Rightarrow> ('e loop_end \<times> int list) \<times> 's" where
  "retry_loop ops r attemptsSoFar fis sleepTime [] s = ((StillRunning, []), s)"
| "retry_loop ops r attemptsSoFar fis sleepTime (a # as) s =
     (let (g, s') = a s
      in case attempt_end ops r attemptsSoFar fis sleepTime g of
           Inl end \<Rightarrow> (end, s')
         | Inr fis' \<Rightarrow>
             (let ((end, sleeps), s'') = retry_loop ops r (Suc attemptsSoFar) fis' (next_sleep_time sleepTime) as s'
              in ((end, sleepTime # sleeps), s'')))"

definition run_retryer :: "'e error_ops \<Rightarrow> retryer \<Rightarrow> int \<Rightarrow> ('s \<Rightarrow> 'e group_run \<times> 's) list \<Rightarrow> 's
     \<Rightarrow> ('e loop_end \<times> int list) \<times> 's" where
  "run_retryer ops r startTime attempts s =
     (if ry_callbacks r = [] then ((FailedWith (eo_new ops ''retryer run with no callbacks''), []), s)
      else retry_loop ops r 0 (map (new_func_info r startTime) (ry_callbacks r)) minSleepTime attempts s)"

section \<open>How the loop ends\<close>

lemmas durations = second_def DefaultTimeLimit_def minSleepTime_def maxSleepTime_def sleepTimeMultiplier_def

lemma length_note_all [simp]: "length (note_all ns fis) = length fis"
  unfolding note_all_def by (induction ns arbitrary: fis) (auto split: prod.splits)

lemma note_all_Nil [simp]: "note_all [] fis = fis"
  by (simp add: note_all_def)

lemma length_reset_others [simp]: "length (reset_others i now fis) = length fis"
  by (simp add: reset_others_def)

lemma reset_others_failed [simp]: "i < length fis \<Longrightarrow> reset_others i now fis ! i = fis ! i"
  by (simp add: reset_others_def nth_enumerate_eq)

text \<open>The ways in which one attempt can end.\<close>

lemma after_failure_end:
  "after_failure ops r n fis i e now = Some end \<Longrightarrow> (\<exists>e. end = FailedWith e) \<or> (\<exists>m. end = LoopPanic m)"
  by (auto simp: after_failure_def Let_def split: if_splits)

lemma attempt_end_cases:
  assumes "attempt_end ops r n fis t g = Inl (end, sleeps)"
  obtains "end = Succeeded" "sleeps = []" "gr_failure g = None"
  | e where "end = FailedWith e" "sleeps = []"
  | m where "end = LoopPanic m" "sleeps = []"
  | "end = LoopCanceled" "sleeps = [t]"
      "\<exists>i e. after_failure ops r (Suc n) (note_all (gr_notes g) fis) i e (gr_now g) = None"
  using assms
  by (auto simp: attempt_end_def Let_def split: option.splits prod.splits dest!: after_failure_end)

lemma attempt_end_Inr:
  "attempt_end ops r n fis t g = Inr fis' \<longleftrightarrow>
   (\<exists>i e now. gr_before g = None \<and> gr_failure g = Some (i, e) \<and> gr_woken g = Some now
      \<and> after_failure ops r (Suc n) (note_all (gr_notes g) fis) i e (gr_now g) = None
      \<and> fis' = reset_others i now (note_all (gr_notes g) fis))"
  by (auto simp: attempt_end_def Let_def split: option.splits prod.splits)

text \<open>What every attempt keeps, and what a successful one gives, holds at the end.\<close>

lemma retry_loop_rule:
  assumes "P s"
    and "\<And>a s. a \<in> set as \<Longrightarrow> P s \<Longrightarrow> P (snd (a s))
      \<and> (gr_failure (fst (a s)) = None \<longrightarrow> Q (snd (a s)))"
  shows "P (snd (retry_loop ops r n fis t as s))
    \<and> (fst (fst (retry_loop ops r n fis t as s)) = Succeeded \<longrightarrow> Q (snd (retry_loop ops r n fis t as s)))"
  using assms
proof (induction as arbitrary: s n fis t)
  case (Cons a as)
  obtain g s' where a: "a s = (g, s')" by fastforce
  have s': "P s'" "gr_failure g = None \<longrightarrow> Q s'" using Cons.prems(2) [of a s] Cons.prems(1) a by auto
  have IH: "P (snd (retry_loop ops r m fis' u as s'))
    \<and> (fst (fst (retry_loop ops r m fis' u as s')) = Succeeded \<longrightarrow> Q (snd (retry_loop ops r m fis' u as s')))" for m fis' u
    by (rule Cons.IH [OF s'(1)]) (use Cons.prems(2) in auto)
  show ?case
  proof (cases "attempt_end ops r n fis t g")
    case (Inl p)
    then show ?thesis using s' a by (cases p) (auto elim: attempt_end_cases)
  next
    case (Inr fis')
    then show ?thesis using IH [of "Suc n" fis' "next_sleep_time t"] a by (auto split: prod.splits)
  qed
qed simp

lemma run_retryer_rule:
  assumes "P s"
    and "\<And>a s. a \<in> set as \<Longrightarrow> P s \<Longrightarrow> P (snd (a s))
      \<and> (gr_failure (fst (a s)) = None \<longrightarrow> Q (snd (a s)))"
  shows "P (snd (run_retryer ops r now as s))"
    and "fst (fst (run_retryer ops r now as s)) = Succeeded \<Longrightarrow> Q (snd (run_retryer ops r now as s))"
  using retry_loop_rule [of P s as Q ops r 0 "map (new_func_info r now) (ry_callbacks r)" minSleepTime] assms
  by (simp_all add: run_retryer_def split: if_splits)

text \<open>The sleeps double from one second up to sixteen.\<close>

definition backoff :: "nat \<Rightarrow> int" where
  "backoff i = min (2 ^ i * second) maxSleepTime"

lemma next_backoff: "next_sleep_time (backoff i) = backoff (Suc i)"
  by (simp add: next_sleep_time_def backoff_def durations min_def)

lemma retry_loop_backoff:
  "\<exists>m. snd (fst (retry_loop ops r n fis (backoff k) as s)) = map backoff [k..<k + m]"
proof (induction as arbitrary: s n fis k)
  case Nil
  show ?case by (rule exI [of _ 0]) simp
next
  case (Cons a as)
  obtain g s' where a: "a s = (g, s')" by fastforce
  show ?case
  proof (cases "attempt_end ops r n fis (backoff k) g")
    case (Inl p)
    obtain e sl where p: "p = (e, sl)" by fastforce
    with Inl have "sl = [] \<or> sl = [backoff k]" by (blast elim: attempt_end_cases)
    then have "sl = map backoff [k..<k + 0] \<or> sl = map backoff [k..<k + 1]" by simp
    moreover have "snd (fst (retry_loop ops r n fis (backoff k) (a # as) s)) = sl" using Inl a p by simp
    ultimately show ?thesis by blast
  next
    case (Inr fis')
    obtain m where m: "snd (fst (retry_loop ops r (Suc n) fis' (backoff (Suc k)) as s'))
        = map backoff [Suc k..<Suc k + m]" using Cons.IH by blast
    show ?thesis
      by (rule exI [of _ "Suc m"]) (simp add: a Inr next_backoff split_beta m upt_conv_Cons del: upt_Suc)
  qed
qed

text \<open>An attempt limit bounds the number of sleeps and ends the loop.\<close>

lemma after_failure_more:
  assumes "ry_maxAttempts r = Some m" "after_failure ops r n fis i e now = None"
  shows "int n < m"
  using assms by (auto simp: after_failure_def limit_exceeded_def Let_def split: if_splits)

lemma retry_loop_max_attempts:
  assumes "ry_maxAttempts r = Some m" "int n < m"
  shows "int n + int (length (snd (fst (retry_loop ops r n fis t as s)))) < m
    \<and> (int n + int (length as) \<ge> m \<longrightarrow> fst (fst (retry_loop ops r n fis t as s)) \<noteq> StillRunning)"
  using assms(2)
proof (induction as arbitrary: s n fis t)
  case (Cons a as)
  obtain g s' where a: "a s = (g, s')" by fastforce
  note more = after_failure_more [OF assms(1), of ops "Suc n"]
  show ?case
  proof (cases "attempt_end ops r n fis t g")
    case (Inl p)
    obtain e sl where p: "p = (e, sl)" by fastforce
    have "int n + int (length sl) < m \<and> e \<noteq> StillRunning"
      using Inl [unfolded p] by (rule attempt_end_cases) (use Cons.prems in \<open>auto dest!: more\<close>)
    then show ?thesis using Inl a p by simp
  next
    case (Inr fis')
    then have "int (Suc n) < m" by (auto simp: attempt_end_Inr dest!: more)
    from Cons.IH [OF this, of fis' "next_sleep_time t" s'] Inr a show ?thesis
      by (auto simp: split_beta)
  qed
qed simp

text \<open>
  A time limit ends the loop too: a single callback that notes no success is given up once its
  attempts, each at least a second after the last, exceed the limit.
\<close>

lemma after_failure_in_time:
  assumes "ry_timeLimit r = Some limit" "after_failure ops r n fis i e now = None"
  shows "i < length fis" "now - lr_time (fi_lastReset (fis ! i)) \<le> limit"
  using assms
  by (auto simp: after_failure_def limit_exceeded_def get_duration_so_far_def Let_def split: if_splits)

lemma retry_loop_time_limit:
  assumes "ry_timeLimit r = Some limit" "length fis = 1" "lr_time (fi_lastReset (fis ! 0)) = start"
    and "\<And>i s. i < length as \<Longrightarrow> gr_notes (fst ((as ! i) s)) = []
           \<and> gr_now (fst ((as ! i) s)) \<ge> start + int (n + i) * second"
    and "int (n + length as) * second > limit + second" "as \<noteq> []"
  shows "fst (fst (retry_loop ops r n fis t as s)) \<noteq> StillRunning"
  using assms(2-)
proof (induction as arbitrary: s n fis t)
  case (Cons a as)
  obtain g s' where a: "a s = (g, s')" by fastforce
  have g: "gr_notes g = []" "gr_now g \<ge> start + int n * second"
    using Cons.prems(3) [of 0 s] a by simp_all
  show ?case
  proof (cases "attempt_end ops r n fis t g")
    case (Inl p)
    then show ?thesis using a by (cases p) (auto elim: attempt_end_cases)
  next
    case (Inr fis')
    then obtain i e now where i: "after_failure ops r (Suc n) fis i e (gr_now g) = None" "fis' = reset_others i now fis"
      using g by (auto simp: attempt_end_Inr)
    note in_time = after_failure_in_time [OF assms(1) i(1)]
    then have i0: "i = 0" using Cons.prems(1) by simp
    have "as \<noteq> []" using in_time(2) i0 Cons.prems(2,4) g(2) by (auto simp: algebra_simps)
    moreover have "gr_notes (fst ((as ! j) u)) = [] \<and> gr_now (fst ((as ! j) u)) \<ge> start + int (Suc n + j) * second"
      if "j < length as" for j u using Cons.prems(3) [of "Suc j" u] that by simp
    ultimately have "fst (fst (retry_loop ops r (Suc n) fis' (next_sleep_time t) as s')) \<noteq> StillRunning"
      using Cons.IH [of fis' "Suc n" "next_sleep_time t" s'] Cons.prems(1,2,4) i0 i(2) by simp
    then show ?thesis using Inr a by (simp add: split_beta)
  qed
qed simp


definition sample_ops :: "string error_ops" where
  "sample_ops = \<lparr>eo_transient = (\<lambda>e. e = ''timeout''), eo_has_code = (\<lambda>_ _. False),
     eo_wrap = (\<lambda>d e. d @ '': '' @ e), eo_limit_exceeded = (\<lambda>_ _ e. ''limit: '' @ e), eo_new = (\<lambda>m. m), eo_testing = False\<rparr>"

definition sample_attempt :: "int \<Rightarrow> nat \<Rightarrow> string group_run \<times> nat" where
  "sample_attempt now s = (\<lparr>gr_before = None, gr_notes = [], gr_failure = Some (0, ''timeout''), gr_now = now,
     gr_woken = Some (now + second)\<rparr>, Suc s)"


end
