(* ===== verification/Go_Errors.thy ===== *)
theory Go_Errors
  imports Retry Mbson
begin

text \<open>
  Errors as the code inspects them (\<open>internal/util/error.go\<close>, \<open>mmongo/error.go\<close>). A Go error is a
  tree: what it is, what it says, what it wraps. The driver's error types are the constructors of
  \<open>error_kind\<close> with the fields the code reads; for a \<open>mongo.ServerError\<close> the node also holds the codes
  and labels its methods answer with. \<open>errors.As\<close> and \<open>errors.Is\<close> take the first match in the order
  the tree is unwrapped.
\<close>

section \<open>Error trees\<close>

datatype error_kind =
    CommandError int
  | DriverError int
  | WriteCommandError "int list" "int option"
  | QueryFailureError bytes
  | WriteError int
  | BulkWriteError int
  | WriteConcernError int
  | WriteConcernErrorPtr
  | WriteException "int list" "int option"
  | BulkWriteException "int list" "int option"
  | NetError
  | ContextCanceled
  | EOFError
  | UnexpectedEOF
  | RetryablePoolError bool
  | ServerSelectionError
  | ConnectionError
  | OtherError

record server_error =
  se_codes :: "int list"
  se_labels :: "string list"

datatype err = Node (kind: error_kind) (server: "server_error option") (message: string) (unwrapped: "err list")

definition wrap_err :: "string \<Rightarrow> err \<Rightarrow> err" where
  "wrap_err d e = Node OtherError None (d @ '': '' @ message e) [e]"

text \<open>The nodes of a tree in the order they are looked at.\<close>

fun chain :: "err \<Rightarrow> err list" where
  "chain (Node k sv m es) = Node k sv m es # concat (map chain es)"

fun find_first :: "('a \<Rightarrow> 'b option) \<Rightarrow> 'a list \<Rightarrow> 'b option" where
  "find_first f [] = None"
| "find_first f (x # xs) = (case f x of None \<Rightarrow> find_first f xs | Some y \<Rightarrow> Some y)"

definition as_kind :: "(error_kind \<Rightarrow> 'b option) \<Rightarrow> err \<Rightarrow> 'b option" where
  "as_kind f e = find_first (f \<circ> kind) (chain e)"

definition is_kind :: "error_kind \<Rightarrow> err \<Rightarrow> bool" where
  "is_kind k e \<longleftrightarrow> as_kind (\<lambda>k'. if k' = k then Some () else None) e \<noteq> None"

definition as_server_error :: "err \<Rightarrow> server_error option" where
  "as_server_error e = find_first server (chain e)"

definition error_has_code :: "err \<Rightarrow> int \<Rightarrow> bool" where
  "error_has_code e code = (case as_server_error e of None \<Rightarrow> False | Some sv \<Rightarrow> code \<in> set (se_codes sv))"

section \<open>Codes\<close>

fun first_write_code :: "int list \<Rightarrow> int option \<Rightarrow> int" where
  "first_write_code (c # cs) wce = c"
| "first_write_code [] (Some c) = c"
| "first_write_code [] None = 0"

definition query_failure_code :: "bytes \<Rightarrow> int" where
  "query_failure_code response = (case lookup_err response [''code''] of
     Inl _ \<Rightarrow> 0
   | Inr v \<Rightarrow> (case cast_int32 v of Inl _ \<Rightarrow> 0 | Inr c \<Rightarrow> sint c))"

text \<open>The error types in the order \<open>GetErrorCode\<close> tries them.\<close>

definition code_selectors :: "(error_kind \<Rightarrow> int option) list" where
  "code_selectors =
     [\<lambda>k. case k of CommandError c \<Rightarrow> Some c | _ \<Rightarrow> None,
      \<lambda>k. case k of DriverError c \<Rightarrow> Some c | _ \<Rightarrow> None,
      \<lambda>k. case k of WriteCommandError cs w \<Rightarrow> Some (first_write_code cs w) | _ \<Rightarrow> None,
      \<lambda>k. case k of QueryFailureError r \<Rightarrow> Some (query_failure_code r) | _ \<Rightarrow> None,
      \<lambda>k. case k of WriteError c \<Rightarrow> Some c | _ \<Rightarrow> None,
      \<lambda>k. case k of BulkWriteError c \<Rightarrow> Some c | _ \<Rightarrow> None,
      \<lambda>k. case k of WriteConcernError c \<Rightarrow> Some c | _ \<Rightarrow> None,
      \<lambda>k. case k of WriteException cs w \<Rightarrow> Some (first_write_code cs w) | _ \<Rightarrow> None,
      \<lambda>k. case k of BulkWriteException cs w \<Rightarrow> Some (first_write_code cs w) | _ \<Rightarrow> None]"

definition get_error_code :: "err option \<Rightarrow> int" where
  "get_error_code eo = (case eo of None \<Rightarrow> 0 | Some e \<Rightarrow>
     (case find_first (\<lambda>f. as_kind f e) code_selectors of None \<Rightarrow> 0 | Some c \<Rightarrow> c))"

definition SampleTooManyDuplicatesErrCode :: int where "SampleTooManyDuplicatesErrCode = 28799"
definition CursorKilledErrCode :: int where "CursorKilledErrCode = 237"
definition DuplicateKeyErrCode :: int where "DuplicateKeyErrCode = 11000"
definition changeStreamHistoryLostErrCode :: int where "changeStreamHistoryLostErrCode = 286"
definition cappedPositionLostErrCode :: int where "cappedPositionLostErrCode = 136"

definition is_namespace_not_found_error :: "err option \<Rightarrow> bool" where
  "is_namespace_not_found_error e \<longleftrightarrow> get_error_code e = 26"

section \<open>Transient errors\<close>

definition contains :: "string \<Rightarrow> string \<Rightarrow> bool" where
  "contains s sub \<longleftrightarrow> list_ex (\<lambda>i. take (length sub) (drop i s) = sub) [0..<Suc (length s)]"

definition error_chain_has_message :: "err \<Rightarrow> string \<Rightarrow> bool" where
  "error_chain_has_message e m \<longleftrightarrow> list_ex (\<lambda>n. message n = m) (chain e)"

definition network_messages :: "string list" where
  "network_messages = [''no reachable servers'', ''Closed explicitly'', ''connection closed'']"

text \<open>The driver calls an error a network error by its label.\<close>

definition is_driver_network_error :: "err \<Rightarrow> bool" where
  "is_driver_network_error e = (case as_server_error e of None \<Rightarrow> False
     | Some sv \<Rightarrow> ''NetworkError'' \<in> set (se_labels sv))"

definition is_network_error :: "err \<Rightarrow> bool" where
  "is_network_error e \<longleftrightarrow> is_kind NetError e \<or> is_kind EOFError e \<or> is_kind UnexpectedEOF e
     \<or> list_ex (error_chain_has_message e) network_messages \<or> is_driver_network_error e"

definition is_connection_error :: "err \<Rightarrow> bool" where
  "is_connection_error e =
     (case find_first (\<lambda>n. if kind n = ConnectionError then Some (unwrapped n) else None) (chain e) of
        Some (w # _) \<Rightarrow> is_network_error w
      | _ \<Rightarrow> False)"

definition transientErrorCodes :: "int list" where
  "transientErrorCodes = [6, 7, 43, 50, 63, 64, 70, 89, 90, 91, 112, 117, 133, 134, 136, 175, 187, 189,
     202, 211, 251, 262, 282, 290, 314, 317, 358, 365, 384, 402, 406, 407, 412, 9001, 10107, 11600,
     11601, 11602, 12586, 12587, 13388, 13435, 13436, 50915, 91331]"

definition has_transient_error_code :: "err \<Rightarrow> bool" where
  "has_transient_error_code e \<longleftrightarrow>
     get_error_code (Some e) = 0 \<and> contains (message e) ''not master''
     \<or> list_ex (error_has_code e) transientErrorCodes"

definition transientErrorLabels :: "string list" where
  "transientErrorLabels = [''ResumableChangeStreamError'', ''RetryableWriteError'', ''TransientTransactionError'']"

definition has_transient_error_label :: "err \<Rightarrow> bool" where
  "has_transient_error_label e = (case as_server_error e of None \<Rightarrow> False
     | Some sv \<Rightarrow> list_ex (\<lambda>l. l \<in> set (se_labels sv)) transientErrorLabels)"

definition is_retryable_pool_error :: "err \<Rightarrow> bool" where
  "is_retryable_pool_error e = (case as_kind (\<lambda>k. case k of RetryablePoolError b \<Rightarrow> Some b | _ \<Rightarrow> None) e of
     None \<Rightarrow> False | Some b \<Rightarrow> b)"

definition has_failed_to_satisfy_read_preference_error :: "err \<Rightarrow> bool" where
  "has_failed_to_satisfy_read_preference_error e \<longleftrightarrow> error_has_code e 133"

definition is_transient_error :: "err option \<Rightarrow> bool" where
  "is_transient_error eo = (case eo of None \<Rightarrow> False | Some e \<Rightarrow>
     \<not> is_kind ContextCanceled e \<and>
     (is_kind WriteConcernErrorPtr e \<or> is_network_error e \<or> is_connection_error e
      \<or> has_transient_error_code e \<or> has_transient_error_label e \<or> is_retryable_pool_error e
      \<or> is_kind ServerSelectionError e \<or> has_failed_to_satisfy_read_preference_error e))"

section \<open>Errors with a meaning of their own\<close>

definition tolerate_simple_duplicate_key_in_bulk :: "err option \<Rightarrow> err option" where
  "tolerate_simple_duplicate_key_in_bulk eo = (case eo of None \<Rightarrow> None | Some e \<Rightarrow>
     (let writeCodes =
        (case as_kind (\<lambda>k. case k of BulkWriteException cs w \<Rightarrow> Some (cs, w) | _ \<Rightarrow> None) e of
           Some (cs, w) \<Rightarrow> if w = None then cs else []
         | None \<Rightarrow>
             (case as_kind (\<lambda>k. case k of WriteException cs w \<Rightarrow> Some (cs, w) | _ \<Rightarrow> None) e of
                Some (cs, w) \<Rightarrow> if w = None then cs else []
              | None \<Rightarrow> []))
      in if length (remdups writeCodes) = 1 \<and> hd writeCodes = DuplicateKeyErrCode then None else Some e))"

definition lower_char :: "char \<Rightarrow> char" where
  "lower_char c = (if 65 \<le> (of_char c :: nat) \<and> (of_char c :: nat) \<le> 90 then char_of (of_char c + 32 :: nat) else c)"

definition history_lost_phrases :: "string list" where
  "history_lost_phrases = [''changestreamhistorylost'', ''cappedpositionlost'',
     ''resume point may no longer be in the oplog'', ''resume token was not found'',
     ''resume of change stream was not possible'']"

definition is_change_stream_history_lost_error :: "err option \<Rightarrow> bool" where
  "is_change_stream_history_lost_error eo = (case eo of None \<Rightarrow> False | Some e \<Rightarrow>
     get_error_code (Some e) \<in> {changeStreamHistoryLostErrCode, cappedPositionLostErrCode}
     \<or> list_ex (contains (map lower_char (message e))) history_lost_phrases)"

text \<open>The retryer's operations on these errors, outside of tests.\<close>

definition go_error_ops :: "err error_ops" where
  "go_error_ops = \<lparr>eo_transient = is_transient_error \<circ> Some, eo_has_code = error_has_code,
     eo_wrap = wrap_err,
     eo_limit_exceeded = (\<lambda>attempts duration e.
        Node OtherError None (''retryable function did not succeed; last error was: '' @ message e) [e]),
     eo_new = (\<lambda>m. Node OtherError None m []), eo_testing = False\<rparr>"

section \<open>Wrapping\<close>

text \<open>Wrapping adds a node of no special kind on top of the chain.\<close>

lemma chain_wrap: "chain (wrap_err d e) = Node OtherError None (d @ '': '' @ message e) [e] # chain e"
  by (simp add: wrap_err_def)

lemma as_kind_wrap: "f OtherError = None \<Longrightarrow> as_kind f (wrap_err d e) = as_kind f e"
  by (simp add: as_kind_def chain_wrap)

lemma is_kind_wrap [simp]: "k \<noteq> OtherError \<Longrightarrow> is_kind k (wrap_err d e) \<longleftrightarrow> is_kind k e"
  by (simp add: is_kind_def as_kind_wrap)

lemma server_wrap [simp]: "as_server_error (wrap_err d e) = as_server_error e"
  by (simp add: as_server_error_def chain_wrap)

lemma find_first_cong: "(\<And>x. x \<in> set xs \<Longrightarrow> f x = g x) \<Longrightarrow> find_first f xs = find_first g xs"
  by (induction xs) (auto split: option.split)

lemma code_wrap [simp]: "get_error_code (Some (wrap_err d e)) = get_error_code (Some e)"
proof -
  have "list_all (\<lambda>f. f OtherError = None) code_selectors"
    by (simp add: code_selectors_def)
  then have "find_first (\<lambda>f. as_kind f (wrap_err d e)) code_selectors = find_first (\<lambda>f. as_kind f e) code_selectors"
    by (intro find_first_cong as_kind_wrap) (simp add: list_all_iff)
  then show ?thesis by (simp add: get_error_code_def)
qed

lemma has_code_wrap [simp]: "error_has_code (wrap_err d e) = error_has_code e"
  by (simp add: error_has_code_def fun_eq_iff)

lemma message_wrap [simp]: "message (wrap_err d e) = d @ '': '' @ message e"
  by (simp add: wrap_err_def)

lemma contains_iff: "contains s sub \<longleftrightarrow> (\<exists>u v. s = u @ sub @ v)"
proof
  assume "contains s sub"
  then obtain i where "take (length sub) (drop i s) = sub" by (auto simp: contains_def list_ex_iff)
  then have "s = take i s @ sub @ drop (length sub) (drop i s)" by (metis append_take_drop_id)
  then show "\<exists>u v. s = u @ sub @ v" by blast
next
  assume "\<exists>u v. s = u @ sub @ v"
  then obtain u v where "s = u @ sub @ v" by blast
  then show "contains s sub"
    unfolding contains_def list_ex_iff by (intro bexI [of _ "length u"]) auto
qed

lemma contains_append: "contains s sub \<Longrightarrow> contains (p @ s) sub"
  by (metis contains_iff append.assoc)

lemma network_messages_wrap:
  "list_ex (error_chain_has_message (wrap_err d e)) network_messages \<longleftrightarrow>
   list_ex (error_chain_has_message e) network_messages"
proof -
  have "list_all (\<lambda>m. CHR '':'' \<notin> set m) network_messages"
    by (simp add: network_messages_def)
  then have "d @ '': '' @ message e \<notin> set network_messages"
    by (auto simp: list_all_iff dest: bspec)
  then show ?thesis
    by (auto simp: list_ex_iff error_chain_has_message_def chain_wrap)
qed

lemma network_wrap [simp]: "is_network_error (wrap_err d e) \<longleftrightarrow> is_network_error e"
  using network_messages_wrap by (simp add: is_network_error_def is_driver_network_error_def)

lemma connection_wrap [simp]: "is_connection_error (wrap_err d e) \<longleftrightarrow> is_connection_error e"
  by (simp add: is_connection_error_def chain_wrap)

lemma pool_wrap [simp]: "is_retryable_pool_error (wrap_err d e) \<longleftrightarrow> is_retryable_pool_error e"
  by (simp add: is_retryable_pool_error_def as_kind_wrap)

lemma label_wrap [simp]: "has_transient_error_label (wrap_err d e) \<longleftrightarrow> has_transient_error_label e"
  by (simp add: has_transient_error_label_def)

lemma read_preference_wrap [simp]:
  "has_failed_to_satisfy_read_preference_error (wrap_err d e) \<longleftrightarrow> has_failed_to_satisfy_read_preference_error e"
  by (simp add: has_failed_to_satisfy_read_preference_error_def)

text \<open>Wrapping an error with a description does not change whether it is retried, except that a
  description, or the text it completes, may add the words that mark an error without a code.\<close>

theorem transient_error_wrapped:
  "is_transient_error (Some (wrap_err d e)) \<longleftrightarrow> is_transient_error (Some e)
     \<or> \<not> is_kind ContextCanceled e \<and> get_error_code (Some e) = 0 \<and> contains (d @ '': '' @ message e) ''not master''"
  using contains_append [of "message e" "''not master''" "d @ '': ''"]
  by (auto simp: is_transient_error_def has_transient_error_code_def)

lemma history_lost_wrapped:
  assumes "is_change_stream_history_lost_error (Some e)"
  shows "is_change_stream_history_lost_error (Some (wrap_err d e))"
proof -
  have "contains (map lower_char (message (wrap_err d e))) m" if "contains (map lower_char (message e)) m" for m
    using contains_append [OF that, of "map lower_char d @ map lower_char '': ''"] by simp
  then show ?thesis
    using assms by (auto simp: is_change_stream_history_lost_error_def list_ex_iff simp del: message_wrap)
qed

text \<open>A lost position of a capped collection counts both as lost history and as transient.\<close>

lemma capped_position_lost_retried:
  assumes "error_has_code e 136" "\<not> is_kind ContextCanceled e"
  shows "should_retry_with_sleep go_error_ops r e"
  using assms
  by (auto simp: should_retry_with_sleep_def go_error_ops_def is_transient_error_def
      has_transient_error_code_def transientErrorCodes_def)

end
