(* ===== verification/Server_Features.thy ===== *)
theory Server_Features
  imports Mbson
begin

text \<open>
  What the verifier concludes from a server's version and its \<open>hello\<close> response
  (\<open>mmongo/features.go\<close>, \<open>internal/util/clusterinfo.go\<close>, \<open>cluster_time.go\<close>): which commands it may
  use, whether the server is DocumentDB, its topology, and the clock of a session. The responses are
  parameters.
\<close>

section \<open>Versions\<close>

text \<open>A version that is too short for the comparison trips an assertion.\<close>

fun version_loop :: "int list \<Rightarrow> int list \<Rightarrow> go_error + bool" where
  "version_loop v [] = Inr True"
| "version_loop [] (n # ns) = Inl (Panic ''version is too short to compare'')"
| "version_loop (x # v) (n # ns) =
     (if x < n then Inr False else if x > n then Inr True else version_loop v ns)"

definition version_at_least :: "int list \<Rightarrow> int list \<Rightarrow> go_error + bool" where
  "version_at_least v nums =
     (if nums = [] then Inl (Panic ''need at least a major version to check version'') else version_loop v nums)"

definition find_can_use_start_at :: "int \<times> int \<times> int \<Rightarrow> go_error + bool" where
  "find_can_use_start_at version = (case version of (major, minor, patch) \<Rightarrow>
     (if major > 8 then Inr True
      else if major = 7 then version_at_least [major, minor, patch] [7, 0, 26]
      else if major = 8
      then (if minor = 0 then version_at_least [major, minor, patch] [8, 0, 14]
            else version_at_least [major, minor, patch] [8, 2, 1])
      else Inr False))"

definition why_find_cannot_resume :: "int \<times> int \<Rightarrow> go_error + go_error option" where
  "why_find_cannot_resume version = (case version of (major, minor) \<Rightarrow>
     rbind (version_at_least [major, minor] [4, 4]) (\<lambda>ok. Inr (if ok then None
       else Some (Err ''resumable natural collection scan requires MongoDB 4.4+''))))"

text \<open>\<open>[2]int(version)\<close> of a slice that is too short panics.\<close>

definition version_pair :: "int list \<Rightarrow> go_error + int \<times> int" where
  "version_pair va = (case va of a # b # _ \<Rightarrow> Inr (a, b)
     | _ \<Rightarrow> Inl (Panic ''cannot convert slice to array of length 2''))"

definition cluster_has_bson_size :: "int \<times> int \<Rightarrow> bool" where
  "cluster_has_bson_size va = (if fst va = 4 then snd va \<ge> 4 else fst va > 4)"

definition cluster_has_current_op_idle_cursors :: "int \<times> int \<Rightarrow> bool" where
  "cluster_has_current_op_idle_cursors va = (if fst va = 4 then snd va \<ge> 2 else fst va > 4)"

definition cluster_has_change_stream_start_after :: "int \<times> int \<Rightarrow> bool" where
  "cluster_has_change_stream_start_after = cluster_has_current_op_idle_cursors"

definition cmp_minor_versions :: "int \<times> int \<Rightarrow> int \<times> int \<Rightarrow> int" where
  "cmp_minor_versions a b = (if fst a \<noteq> fst b then (if fst a < fst b then -1 else 1)
     else if snd a < snd b then -1 else if snd a > snd b then 1 else 0)"

section \<open>What a server is\<close>

datatype flavor = FlavorMongoDB | FlavorDocumentDB
datatype cluster_topology = TopologySharded | TopologyReplset | TopologyStandalone

definition is_documentdb :: "flavor \<Rightarrow> bool" where
  "is_documentdb f \<longleftrightarrow> f = FlavorDocumentDB"

record cluster_info =
  ci_VersionArray :: "int list"
  ci_Topology :: cluster_topology
  ci_Flavor :: flavor

text \<open>Any BSON value unmarshals into \<open>any\<close>.\<close>

definition raw_contains :: "bytes \<Rightarrow> string list \<Rightarrow> go_error + bool" where
  "raw_contains doc keys = rbind (raw_lookup (\<lambda>_. Inr ()) doc keys) (\<lambda>found. Inr (found \<noteq> None))"

definition flavor_from_hello :: "bytes \<Rightarrow> go_error + flavor" where
  "flavor_from_hello raw =
     rbind (raw_contains raw [''me'']) (\<lambda>hasMe.
     if \<not> hasMe then Inr FlavorMongoDB
     else rbind (raw_contains raw [''$clusterTime'']) (\<lambda>hasClusterTime.
            Inr (if hasClusterTime then FlavorMongoDB else FlavorDocumentDB)))"

definition get_topology :: "bytes \<Rightarrow> go_error + cluster_topology" where
  "get_topology raw =
     rbind (raw_contains raw [''msg'']) (\<lambda>hasMsg.
     if hasMsg then Inr TopologySharded
     else rbind (raw_contains raw [''me'']) (\<lambda>hasMe.
            Inr (if hasMe then TopologyReplset else TopologyStandalone)))"

text \<open>\<open>Lookup\<close> gives the zero value on an error.\<close>

definition has_field :: "bytes \<Rightarrow> string \<Rightarrow> bool" where
  "has_field raw k \<longleftrightarrow> (case lookup_err raw [k] of Inl _ \<Rightarrow> False | Inr v \<Rightarrow> rv_type v \<noteq> 0 \<or> rv_value v \<noteq> [])"

definition get_hello_raw :: "go_error + bytes \<Rightarrow> go_error + bytes \<Rightarrow> go_error + bytes" where
  "get_hello_raw hello isMaster =
     (let resp = (case hello of Inr raw \<Rightarrow> Inr raw | Inl _ \<Rightarrow> isMaster)
      in rbind resp (\<lambda>raw.
           if has_field raw ''me'' \<and> has_field raw ''$clusterTime'' \<and> \<not> is_ok (lookup_err raw [''operationTime''])
           then Inl (Err ''server response lacks operationTime; force an election, then retry'')
           else Inr raw))"

definition get_cluster_info :: "go_error + int list \<Rightarrow> go_error + bytes \<Rightarrow> flavor option \<Rightarrow> go_error + cluster_info" where
  "get_cluster_info version hello flavorOverride =
     rbind version (\<lambda>va.
     rbind hello (\<lambda>raw.
     rbind (get_topology raw) (\<lambda>topology.
     rbind (case flavorOverride of Some f \<Rightarrow> Inr f | None \<Rightarrow> flavor_from_hello raw) (\<lambda>flavor.
     Inr \<lparr>ci_VersionArray = va, ci_Topology = topology, ci_Flavor = flavor\<rparr>))))"

section \<open>The clock of a session\<close>

record session =
  ss_ClusterTime :: "bytes option"
  ss_OperationTime :: "timestamp option"

definition get_cluster_time_from_session :: "session \<Rightarrow> go_error + timestamp" where
  "get_cluster_time_from_session sess = (case ss_ClusterTime sess of
     None \<Rightarrow> Inl (Panic ''found empty session cluster time but need nonempty'')
   | Some raw \<Rightarrow> rbind (lookup_err raw [''$clusterTime'', ''clusterTime'']) cast_timestamp)"

definition get_session_timestamp :: "flavor \<Rightarrow> session \<Rightarrow> go_error + timestamp" where
  "get_session_timestamp flavor sess =
     (if \<not> is_documentdb flavor then get_cluster_time_from_session sess
      else case ss_OperationTime sess of
             None \<Rightarrow> Inl (Err ''session has no operationTime'')
           | Some t \<Rightarrow> Inr t)"

section \<open>Versions are ordered\<close>

text \<open>A version is at least another exactly when the other does not come first lexicographically.\<close>

lemma version_loop_lexord:
  "length ns \<le> length v \<Longrightarrow> version_loop v ns = Inr ((ns, take (length ns) v) \<in> lexord {(a, b). a < b} \<or> ns = take (length ns) v)"
  by (induction v ns rule: version_loop.induct) auto

lemma version_at_least_iff:
  assumes "ns \<noteq> []" "length ns \<le> length v"
  shows "version_at_least v ns = Inr ((ns, take (length ns) v) \<in> lexord {(a, b). a < b} \<or> ns = take (length ns) v)"
  using assms by (simp add: version_at_least_def version_loop_lexord)

lemma why_find_cannot_resume_iff:
  "why_find_cannot_resume (major, minor) = Inr None \<longleftrightarrow> major > 4 \<or> major = 4 \<and> minor \<ge> 4"
  by (auto simp: why_find_cannot_resume_def version_at_least_def)

text \<open>A server with \<open>$_startAt\<close> can resume a scan, and the resumable scan needs the document sizes too.\<close>

lemma start_at_resumes:
  "find_can_use_start_at (major, minor, patch) = Inr True \<Longrightarrow> why_find_cannot_resume (major, minor) = Inr None"
  by (auto simp: find_can_use_start_at_def why_find_cannot_resume_iff split: if_splits)

lemma bson_size_iff_resumes:
  "cluster_has_bson_size (major, minor) \<longleftrightarrow> why_find_cannot_resume (major, minor) = Inr None"
  by (auto simp: cluster_has_bson_size_def why_find_cannot_resume_iff)

lemma cmp_minor_versions_lexord:
  "cmp_minor_versions (a, b) (c, d) < 0 \<longleftrightarrow> ([a, b], [c, d]) \<in> lexord {(x, y). x < y}"
  by (auto simp: cmp_minor_versions_def)

end
