(* ===== verification/Partitioning.thy ===== *)
theory Partitioning
  imports Complex_Main Id_Bounds Tasks Effects Server_Features
begin

text \<open>
  How a collection is split into partitions (\<open>internal/verifier/partition.go\<close>, \<open>partition_walk.go\<close>,
  \<open>internal/partitions/partitions.go\<close>, \<open>natural.go\<close>, \<open>partitionCollection\<close>). Each partition becomes a
  task; the actions act on the collection of tasks. What the source answers (statistics, sampled
  documents, boundaries, cursor responses) is a parameter of each attempt, as are the fresh ids of
  the tasks and the inserts that fail. A retried operation is the list of the attempts the retryer
  makes.
\<close>

section \<open>Floating point\<close>

text \<open>
  The results of \<open>float64\<close> divisions of counts: finite, infinite, or not a number. \<open>rnd\<close> rounds to the
  nearest double, and is a parameter.
\<close>

datatype f64 = Finite rat | PosInf | NotANumber

definition f64_of :: "(rat \<Rightarrow> rat) \<Rightarrow> nat \<Rightarrow> f64" where
  "f64_of rnd n = Finite (rnd (of_nat n))"

fun f64_div :: "(rat \<Rightarrow> rat) \<Rightarrow> f64 \<Rightarrow> f64 \<Rightarrow> f64" where
  "f64_div rnd (Finite x) (Finite y) = (if y = 0 then (if x = 0 then NotANumber else PosInf) else Finite (rnd (x / y)))"
| "f64_div rnd (Finite x) PosInf = Finite 0"
| "f64_div rnd PosInf (Finite y) = PosInf"
| "f64_div rnd _ _ = NotANumber"

fun f64_less :: "f64 \<Rightarrow> f64 \<Rightarrow> bool" where
  "f64_less (Finite x) (Finite y) \<longleftrightarrow> x < y"
| "f64_less (Finite x) PosInf \<longleftrightarrow> True"
| "f64_less _ _ \<longleftrightarrow> False"

fun f64_le :: "f64 \<Rightarrow> f64 \<Rightarrow> bool" where
  "f64_le (Finite x) (Finite y) \<longleftrightarrow> x \<le> y"
| "f64_le (Finite x) PosInf \<longleftrightarrow> True"
| "f64_le PosInf PosInf \<longleftrightarrow> True"
| "f64_le _ _ \<longleftrightarrow> False"

definition divide_to_f64 :: "(rat \<Rightarrow> rat) \<Rightarrow> nat \<Rightarrow> nat \<Rightarrow> f64" where
  "divide_to_f64 rnd a b = f64_div rnd (f64_of rnd a) (f64_of rnd b)"

section \<open>Statistics\<close>

record coll_stats =
  cs_bytes :: nat
  cs_docs :: nat
  cs_capped :: bool

text \<open>The reply of \<open>$collStats\<close>: the namespace it is about, size, count and capped; absent when there is none.\<close>

definition get_size_and_document_count :: "(go_error \<Rightarrow> bool) \<Rightarrow> string
     \<Rightarrow> go_error + (string \<times> nat \<times> nat \<times> bool) option \<Rightarrow> go_error + coll_stats" where
  "get_size_and_document_count isNamespaceNotFound srcNs reply =
     (case reply of
        Inl e \<Rightarrow> if isNamespaceNotFound e then Inr \<lparr>cs_bytes = 0, cs_docs = 0, cs_capped = False\<rparr> else Inl e
      | Inr r \<Rightarrow>
          (let (ns, size, count, capped) = (case r of None \<Rightarrow> ([], 0, 0, False) | Some v \<Rightarrow> v)
           in if ns \<noteq> srcNs then Inl (Err ''queried $collStats on one namespace but got another'')
              else Inr \<lparr>cs_bytes = size, cs_docs = count, cs_capped = capped\<rparr>))"

section \<open>Creating the tasks\<close>

record partition_target =
  pg_DB :: string
  pg_Coll :: string
  pg_dstNs :: string
  pg_shardFields :: "string list"
  pg_generation :: int
  pg_fresh :: "task_db \<Rightarrow> bytes"

definition src_ns :: "partition_target \<Rightarrow> string" where
  "src_ns g = pg_DB g @ ''.'' @ pg_Coll g"

text \<open>An insert that fails has taken effect or not.\<close>

type_synonym insert_failures = "nat \<Rightarrow> (go_error \<times> bool) option"

definition insert_partition :: "partition_target \<Rightarrow> (go_error \<times> bool) option \<Rightarrow> partition
     \<Rightarrow> (task_db, go_error, unit) act" where
  "insert_partition g failure p =
     (let ins = (\<lambda>db. rbind (insert_partition_verification_task (pg_fresh g db) (pg_generation g) p
                          (pg_shardFields g) (pg_dstNs g) db) (\<lambda>(_, db'). Inr ((), db')))
      in case failure of
           None \<Rightarrow> aupdate ins
         | Some (e, applied) \<Rightarrow> (\<lambda>db. (Inl e, if applied then snd (aupdate ins db) else db)))"

definition id_partition :: "partition_target \<Rightarrow> bool \<Rightarrow> raw_value \<Rightarrow> raw_value \<Rightarrow> partition" where
  "id_partition g isCapped lower upper =
     \<lparr>pt_SourceUUID = [], pt_Lower = lower, pt_Ns = Some \<lparr>pn_DB = pg_DB g, pn_Coll = pg_Coll g\<rparr>,
      pt_Upper = upper, pt_IsCapped = isCapped, pt_Natural = False, pt_HostnameAndPort = None\<rparr>"

definition create_and_insert_partition :: "partition_target \<Rightarrow> bool \<Rightarrow> insert_failures \<Rightarrow> nat \<Rightarrow> raw_value \<Rightarrow> raw_value
     \<Rightarrow> (task_db, go_error, nat) act" where
  "create_and_insert_partition g isCapped fails partitionsCount lower upper =
     abind (insert_partition g (fails partitionsCount) (id_partition g isCapped lower upper))
       (\<lambda>_. areturn (Suc partitionsCount))"

text \<open>The task with the greatest upper bound, in the server's order, is the parameter \<open>pick\<close>.\<close>

definition partition_tasks :: "string \<Rightarrow> task_db \<Rightarrow> task list" where
  "partition_tasks srcNs db = filter (\<lambda>t. tk_Generation t = Some 0 \<and> tk_Type t = VerifyDocuments
     \<and> qf_Namespace (tk_QueryFilter t) = srcNs) db"

definition find_latest_partition_upper_bound :: "(task list \<Rightarrow> go_error + task option) \<Rightarrow> string \<Rightarrow> task_db
     \<Rightarrow> go_error + raw_value option" where
  "find_latest_partition_upper_bound pick srcNs db =
     rbind (pick (partition_tasks srcNs db)) (\<lambda>found.
       (case found of
          None \<Rightarrow> Inr None
        | Some t \<Rightarrow> (case qf_Partition (tk_QueryFilter t) of
              None \<Rightarrow> Inl (Err ''nil partition'')
            | Some p \<Rightarrow> Inr (Some (pt_Upper p)))))"

text \<open>The attempts of a retried operation: a transient error leads to the next one, if there is one.\<close>

fun with_retries :: "(go_error \<Rightarrow> bool) \<Rightarrow> ('s \<Rightarrow> ((go_error + 'a) \<times> 's) option) list \<Rightarrow> 's
     \<Rightarrow> ((go_error + 'a) \<times> 's) option" where
  "with_retries transient [] s = Some (Inl (Err ''no attempt''), s)"
| "with_retries transient (a # as) s =
     (case a s of
        Some (Inl e, s') \<Rightarrow> if transient e \<and> as \<noteq> [] then with_retries transient as s' else Some (Inl e, s')
      | r \<Rightarrow> r)"

section \<open>Sampling\<close>

datatype stage = SortId | ProjectId | MatchAll "predicate list" | MatchSampleRate f64

definition resume_stages :: "int list option option \<Rightarrow> raw_value option \<Rightarrow> go_error + stage list" where
  "resume_stages clusterInfo lowerBoundOpt =
     (case lowerBoundOpt of
        None \<Rightarrow> Inr []
      | Some lowerBound \<Rightarrow>
          rbind (filter_id_bounds clusterInfo lowerBound max_key) (\<lambda>predicates.
            if length predicates = 2 \<or> length predicates = 1 then Inr [MatchAll predicates]
            else Inl (Panic ''no filter predicates??'')))"

definition sample_stages :: "(rat \<Rightarrow> rat) \<Rightarrow> nat \<Rightarrow> coll_stats \<Rightarrow> stage list" where
  "sample_stages rnd idealPartitionBytes st =
     (let idealNumPartitions = divide_to_f64 rnd (cs_bytes st) idealPartitionBytes;
          docsPerPartition = f64_div rnd (f64_of rnd (cs_docs st)) idealNumPartitions;
          sampleRate = f64_div rnd (Finite 1) docsPerPartition
      in if f64_less (Finite 0) sampleRate \<and> f64_less sampleRate (Finite 1) then [MatchSampleRate sampleRate] else [])"

text \<open>
  One attempt is given the pick, the statistics, the cursor (its documents and the error it ends
  with, if any) and the inserts that fail. The code wraps the cursor's error with \<open>errors.Wrapf(err, \<dots>)\<close>
  of the outer \<open>err\<close>, which is nil there, so the attempt returns no error.
\<close>

record sample_attempt =
  sa_pick :: "task list \<Rightarrow> go_error + task option"
  sa_stats :: "go_error + coll_stats"
  sa_aggregate :: "stage list \<Rightarrow> go_error + bytes list \<times> go_error option"
  sa_failures :: insert_failures

definition sample_step :: "partition_target \<Rightarrow> bool \<Rightarrow> insert_failures \<Rightarrow> raw_value \<times> nat \<Rightarrow> bytes
     \<Rightarrow> (task_db, go_error, raw_value \<times> nat) act" where
  "sample_step g isCapped fails s doc = (case s of (lowerBound, n) \<Rightarrow>
     abind (alift (lookup_err doc [''_id''])) (\<lambda>upperBound.
     abind (create_and_insert_partition g isCapped fails n lowerBound upperBound) (\<lambda>n'.
     areturn (upperBound, n'))))"

definition sample_cursor :: "partition_target \<Rightarrow> bool \<Rightarrow> insert_failures \<Rightarrow> raw_value \<Rightarrow> bytes list \<times> go_error option
     \<Rightarrow> (task_db, go_error, nat) act" where
  "sample_cursor g isCapped fails lowerBound cursor = (case cursor of (docs, cursorErr) \<Rightarrow>
     abind (afold (sample_step g isCapped fails) (lowerBound, 0) docs) (\<lambda>(lowerBound, n).
     if cursorErr \<noteq> None then areturn 0
     else create_and_insert_partition g isCapped fails n lowerBound max_key))"

definition create_partition_tasks_with_sample_rate_retryable :: "partition_target \<Rightarrow> int list option option
     \<Rightarrow> (rat \<Rightarrow> rat) \<Rightarrow> nat \<Rightarrow> sample_attempt \<Rightarrow> (task_db, go_error, nat) act" where
  "create_partition_tasks_with_sample_rate_retryable g clusterInfo rnd partitionBytes a =
     abind (aread (find_latest_partition_upper_bound (sa_pick a) (src_ns g))) (\<lambda>lowerBoundOpt.
     abind (alift (resume_stages clusterInfo lowerBoundOpt)) (\<lambda>resume.
     abind (alift (sa_stats a)) (\<lambda>st.
     abind (alift (sa_aggregate a ([SortId, ProjectId] @ resume @ sample_stages rnd partitionBytes st)))
       (sample_cursor g (cs_capped st) (sa_failures a) (case lowerBoundOpt of None \<Rightarrow> min_key | Some b \<Rightarrow> b)))))"

definition total_act :: "('s, 'e, 'a) act \<Rightarrow> 's \<Rightarrow> (('e + 'a) \<times> 's) option" where
  "total_act m s = Some (m s)"

definition create_partition_tasks_with_sample_rate :: "(go_error \<Rightarrow> bool) \<Rightarrow> partition_target \<Rightarrow> int list
     \<Rightarrow> (rat \<Rightarrow> rat) \<Rightarrow> nat \<Rightarrow> sample_attempt list \<Rightarrow> task_db \<Rightarrow> ((go_error + nat) \<times> task_db) option" where
  "create_partition_tasks_with_sample_rate transient g version rnd partitionBytes attempts db =
     (case version_at_least version [4, 4] of
        Inr True \<Rightarrow> with_retries transient (map (\<lambda>a. total_act
          (create_partition_tasks_with_sample_rate_retryable g (Some (Some version)) rnd partitionBytes a)) attempts) db
      | Inr False \<Rightarrow> Some (Inl (Panic ''$sampleRate support required''), db)
      | Inl e \<Rightarrow> Some (Inl e, db))"

section \<open>The partitions cover every id\<close>

definition partition_covers :: "(raw_value \<Rightarrow> raw_value \<Rightarrow> bool) \<Rightarrow> partition \<Rightarrow> raw_value \<Rightarrow> bool" where
  "partition_covers le p x \<longleftrightarrow> le (pt_Lower p) x \<and> le x (pt_Upper p)"

definition id_covered :: "(raw_value \<Rightarrow> raw_value \<Rightarrow> bool) \<Rightarrow> string \<Rightarrow> task_db \<Rightarrow> raw_value \<Rightarrow> bool" where
  "id_covered le srcNs db x \<longleftrightarrow> (\<exists>t \<in> set (partition_tasks srcNs db).
     \<exists>p. qf_Partition (tk_QueryFilter t) = Some p \<and> partition_covers le p x)"

text \<open>Every id strictly below a bound is covered; the tasks so far are such that this holds of each upper bound.\<close>

definition covered_below :: "(raw_value \<Rightarrow> raw_value \<Rightarrow> bool) \<Rightarrow> string \<Rightarrow> task_db \<Rightarrow> raw_value \<Rightarrow> bool" where
  "covered_below le srcNs db b \<longleftrightarrow> (\<forall>x. valid_id x \<longrightarrow> \<not> le b x \<longrightarrow> id_covered le srcNs db x)"

definition partitions_ok :: "(raw_value \<Rightarrow> raw_value \<Rightarrow> bool) \<Rightarrow> string \<Rightarrow> task_db \<Rightarrow> bool" where
  "partitions_ok le srcNs db \<longleftrightarrow> (\<forall>t \<in> set (partition_tasks srcNs db).
     \<exists>p. qf_Partition (tk_QueryFilter t) = Some p \<and> covered_below le srcNs db (pt_Upper p))"

definition all_covered :: "(raw_value \<Rightarrow> raw_value \<Rightarrow> bool) \<Rightarrow> string \<Rightarrow> task_db \<Rightarrow> bool" where
  "all_covered le srcNs db \<longleftrightarrow> (\<forall>x. valid_id x \<longrightarrow> id_covered le srcNs db x)"

lemma valid_min_max [simp]: "valid_id min_key" "valid_id max_key"
  by (simp_all add: valid_id_def min_key_def max_key_def type_tables)

lemma key_types [simp]:
  "rv_type min_key = TypeMinKey" "rv_type max_key = TypeMaxKey" "rv_value min_key = []" "rv_value max_key = []"
  by (simp_all add: min_key_def max_key_def)

lemma le_min_max:
  assumes "id_order le" "valid_id x"
  shows "le min_key x" "le x max_key"
proof -
  have total: "le a b \<or> le b a" for a b using assms(1) by (simp add: id_order_def)
  note ranks = rank_bounds [of "rv_type x"]
  have t: "rv_type x \<in> set bsonTypeSortOrder" using assms(2) by (simp add: valid_id_def)
  show "le min_key x"
  proof (cases "rv_type x = TypeMinKey")
    case True
    then have "x = min_key" using assms(2) by (simp add: valid_id_def min_key_def)
    then show ?thesis using total [of x x] by simp
  next
    case False
    then show ?thesis using ranks(1,2) [OF t] id_order_rank(1) [OF assms(1) valid_min_max(1) assms(2)] by simp
  qed
  show "le x max_key"
  proof (cases "rv_type x = TypeMaxKey")
    case True
    then have "x = max_key" using assms(2) by (simp add: valid_id_def max_key_def)
    then show ?thesis using total [of x x] by simp
  next
    case False
    then show ?thesis using ranks(3,4) [OF t] id_order_rank(1) [OF assms(1) assms(2) valid_min_max(2)] by simp
  qed
qed

lemma covered_below_min: "id_order le \<Longrightarrow> covered_below le ns db min_key"
  by (simp add: covered_below_def le_min_max)

subsection \<open>One more task\<close>

lemma insert_partition_cases:
  assumes "insert_partition g failure (id_partition g c l u) db = (r, db')" "pg_generation g = 0"
  obtains "db' = db" "\<exists>e. r = Inl e"
  | t where "db' = db @ [t]" "qf_Partition (tk_QueryFilter t) = Some (id_partition g c l u)"
      "partition_tasks (src_ns g) db' = partition_tasks (src_ns g) db @ [t]"
  using assms
  by (auto simp: insert_partition_def insert_partition_verification_task_def partition_task_def insert_one_def
      aupdate_def deref_def id_partition_def src_ns_def partition_tasks_def zero_task_def Let_def
      split: option.splits if_splits prod.splits)

lemma insert_partition_adds:
  assumes "insert_partition g failure (id_partition g c l u) db = (Inr x, db')" "pg_generation g = 0"
  obtains t where "db' = db @ [t]" "qf_Partition (tk_QueryFilter t) = Some (id_partition g c l u)"
      "partition_tasks (src_ns g) db' = partition_tasks (src_ns g) db @ [t]"
  using assms by (auto elim: insert_partition_cases)

lemma id_covered_snoc:
  assumes "partition_tasks ns db' = partition_tasks ns db @ [t]" "qf_Partition (tk_QueryFilter t) = Some p"
  shows "id_covered le ns db' x \<longleftrightarrow> id_covered le ns db x \<or> partition_covers le p x"
  using assms by (auto simp: id_covered_def)

lemma covered_below_step:
  assumes "id_order le" "partition_tasks ns db' = partition_tasks ns db @ [t]"
    and "qf_Partition (tk_QueryFilter t) = Some p" "covered_below le ns db (pt_Lower p)"
  shows "covered_below le ns db' (pt_Upper p)"
  using assms by (auto simp: covered_below_def id_covered_snoc [OF assms(2,3)] partition_covers_def id_order_def)

lemma partitions_ok_step:
  assumes "id_order le" "partition_tasks ns db' = partition_tasks ns db @ [t]"
    and "qf_Partition (tk_QueryFilter t) = Some p" "covered_below le ns db (pt_Lower p)" "partitions_ok le ns db"
  shows "partitions_ok le ns db'"
proof -
  have "covered_below le ns db' b" if "covered_below le ns db b" for b
    using that by (auto simp: covered_below_def id_covered_snoc [OF assms(2,3)])
  then show ?thesis
    using assms(2,3,5) covered_below_step [OF assms(1-4)] unfolding partitions_ok_def by fastforce
qed

lemma create_partition_step:
  assumes "id_order le" "pg_generation g = 0"
  shows "triple (\<lambda>db. partitions_ok le (src_ns g) db \<and> covered_below le (src_ns g) db lower)
    (create_and_insert_partition g c fails n lower upper)
    (\<lambda>n' db. partitions_ok le (src_ns g) db \<and> covered_below le (src_ns g) db upper
       \<and> (upper = max_key \<longrightarrow> all_covered le (src_ns g) db))
    (partitions_ok le (src_ns g))"
proof -
  let ?p = "id_partition g c lower upper"
  have p: "pt_Lower ?p = lower" "pt_Upper ?p = upper" by (simp_all add: id_partition_def)
  have "triple (\<lambda>db. partitions_ok le (src_ns g) db \<and> covered_below le (src_ns g) db lower)
    (insert_partition g (fails n) ?p)
    (\<lambda>_ db. partitions_ok le (src_ns g) db \<and> covered_below le (src_ns g) db upper
       \<and> (upper = max_key \<longrightarrow> all_covered le (src_ns g) db)) (partitions_ok le (src_ns g))"
  proof (rule tripleI)
    fix db x db' assume db: "partitions_ok le (src_ns g) db \<and> covered_below le (src_ns g) db lower"
      and "insert_partition g (fails n) ?p db = (Inr x, db')"
    then obtain t where t: "partition_tasks (src_ns g) db' = partition_tasks (src_ns g) db @ [t]"
        "qf_Partition (tk_QueryFilter t) = Some ?p"
      using assms(2) by (auto elim: insert_partition_adds)
    have "all_covered le (src_ns g) db'" if "upper = max_key"
      using that db le_min_max(2) [OF assms(1)]
      by (auto simp: all_covered_def covered_below_def id_covered_snoc [OF t] partition_covers_def id_partition_def)
    then show "partitions_ok le (src_ns g) db' \<and> covered_below le (src_ns g) db' upper
       \<and> (upper = max_key \<longrightarrow> all_covered le (src_ns g) db')"
      using partitions_ok_step [OF assms(1) t] covered_below_step [OF assms(1) t] db p by simp
  next
    fix db e db' assume db: "partitions_ok le (src_ns g) db \<and> covered_below le (src_ns g) db lower"
      and ins: "insert_partition g (fails n) ?p db = (Inl e, db')"
    show "partitions_ok le (src_ns g) db'"
      using ins assms(2) by (rule insert_partition_cases) (use db p partitions_ok_step [OF assms(1)] in auto)
  qed
  then show ?thesis
    unfolding create_and_insert_partition_def by (rule triple_bind) (rule triple_return)
qed

subsection \<open>Sampling\<close>

definition walk_inv :: "(raw_value \<Rightarrow> raw_value \<Rightarrow> bool) \<Rightarrow> partition_target \<Rightarrow> raw_value \<Rightarrow> task_db \<Rightarrow> bool" where
  "walk_inv le g lower db \<longleftrightarrow> partitions_ok le (src_ns g) db \<and> covered_below le (src_ns g) db lower"

lemma walk_step:
  assumes "id_order le" "pg_generation g = 0"
  shows "triple (walk_inv le g lower) (create_and_insert_partition g c fails n lower upper)
    (\<lambda>n'. walk_inv le g upper) (partitions_ok le (src_ns g))"
    "triple (walk_inv le g lower) (create_and_insert_partition g c fails n lower max_key)
    (\<lambda>n'. all_covered le (src_ns g)) (partitions_ok le (src_ns g))"
    "triple (walk_inv le g lower) (create_and_insert_partition g c fails n lower upper)
    (\<lambda>n'. partitions_ok le (src_ns g)) (partitions_ok le (src_ns g))"
  unfolding walk_inv_def
  by (rule triple_conseq [OF create_partition_step [OF assms]]; simp)+

lemma sample_loop:
  assumes "id_order le" "pg_generation g = 0"
  shows "triple (walk_inv le g (fst s)) (afold (sample_step g c fails) s docs)
    (\<lambda>s'. walk_inv le g (fst s')) (partitions_ok le (src_ns g))"
proof (rule triple_fold [where I = "\<lambda>s. walk_inv le g (fst s)"])
  fix s :: "raw_value \<times> nat" and doc
  show "triple (walk_inv le g (fst s)) (sample_step g c fails s doc) (\<lambda>s'. walk_inv le g (fst s')) (partitions_ok le (src_ns g))"
    unfolding sample_step_def case_prod_beta
    by (rule triple_bind [OF triple_lift], simp add: walk_inv_def,
        rule triple_bind [OF triple_pre [OF walk_step(1) [OF assms]]], simp, rule triple_return, simp)
qed

text \<open>The walk starts where the tasks so far end.\<close>

lemma latest_bound_covered:
  assumes "id_order le" "partitions_ok le ns db" "\<And>ts t. pick ts = Inr (Some t) \<Longrightarrow> t \<in> set ts"
    and "find_latest_partition_upper_bound pick ns db = Inr b"
  shows "covered_below le ns db (case b of None \<Rightarrow> min_key | Some b \<Rightarrow> b)"
  using assms covered_below_min [OF assms(1)]
  by (force simp: find_latest_partition_upper_bound_def rbind_eq_Inr partitions_ok_def split: option.splits)

definition cursor_never_fails :: "sample_attempt \<Rightarrow> bool" where
  "cursor_never_fails a \<longleftrightarrow> (\<forall>stages docs e. sa_aggregate a stages \<noteq> Inr (docs, Some e))"

lemma walk_inv_ok: "walk_inv le g l db \<Longrightarrow> partitions_ok le (src_ns g) db"
  by (simp add: walk_inv_def)

lemma sample_cursor_covers:
  assumes "id_order le" "pg_generation g = 0"
  shows "triple (walk_inv le g l) (sample_cursor g c fails l (docs, None))
    (\<lambda>n. all_covered le (src_ns g)) (partitions_ok le (src_ns g))"
  using sample_loop [OF assms, where s = "(l, 0)"] walk_step(2) [OF assms]
  by (auto simp: sample_cursor_def intro!: triple_bind)

lemma sample_attempt_covers:
  assumes "id_order le" "pg_generation g = 0" "\<And>ts t. sa_pick a ts = Inr (Some t) \<Longrightarrow> t \<in> set ts"
    and "cursor_never_fails a"
  shows "triple (partitions_ok le (src_ns g))
    (create_partition_tasks_with_sample_rate_retryable g ci rnd bytes a)
    (\<lambda>n. all_covered le (src_ns g)) (partitions_ok le (src_ns g))"
  unfolding create_partition_tasks_with_sample_rate_retryable_def
proof (rule triple_bind_read, assumption)
  fix b
  have "triple (walk_inv le g (case b of None \<Rightarrow> min_key | Some b \<Rightarrow> b))
    (abind (alift (resume_stages ci b)) (\<lambda>resume. abind (alift (sa_stats a)) (\<lambda>st.
      abind (alift (sa_aggregate a ([SortId, ProjectId] @ resume @ sample_stages rnd bytes st)))
        (sample_cursor g (cs_capped st) (sa_failures a) (case b of None \<Rightarrow> min_key | Some b \<Rightarrow> b)))))
    (\<lambda>n. all_covered le (src_ns g)) (partitions_ok le (src_ns g))" (is "triple ?P ?m ?Q ?E")
  proof (intro triple_bind_lift walk_inv_ok; assumption?)
    fix rs st cursor assume "sa_aggregate a ([SortId, ProjectId] @ rs @ sample_stages rnd bytes st) = Inr cursor"
    then have "snd cursor = None" using assms(4) unfolding cursor_never_fails_def by (metis not_None_eq prod.collapse)
    then show "triple ?P (sample_cursor g (cs_capped st) (sa_failures a) (case b of None \<Rightarrow> min_key | Some b \<Rightarrow> b) cursor) ?Q ?E"
      using sample_cursor_covers [OF assms(1,2)] by (cases cursor) simp
  qed
  then show "triple (\<lambda>s. ?E s \<and> find_latest_partition_upper_bound (sa_pick a) (src_ns g) s = Inr b) ?m ?Q ?E"
    by (rule triple_pre) (use latest_bound_covered [OF assms(1) _ assms(3)] in \<open>auto simp: walk_inv_def\<close>)
qed

subsection \<open>With retries\<close>

definition act_triple :: "('s \<Rightarrow> bool) \<Rightarrow> ('s \<Rightarrow> ((go_error + 'a) \<times> 's) option) \<Rightarrow> ('a \<Rightarrow> 's \<Rightarrow> bool) \<Rightarrow> ('s \<Rightarrow> bool) \<Rightarrow> bool" where
  "act_triple P m Q E \<longleftrightarrow> (\<forall>s. P s \<longrightarrow> (\<forall>x s'. m s = Some (Inr x, s') \<longrightarrow> Q x s') \<and> (\<forall>e s'. m s = Some (Inl e, s') \<longrightarrow> E s'))"

lemma act_triple_total: "act_triple P (total_act m) Q E \<longleftrightarrow> triple P m Q E"
  by (simp add: act_triple_def triple_def total_act_def)

lemma with_retries_step:
  "with_retries transient (a # as) s = Some r \<Longrightarrow>
   a s = Some r \<or> (\<exists>e s'. a s = Some (Inl e, s') \<and> with_retries transient as s' = Some r)"
  by (auto split: option.splits prod.splits sum.splits if_splits)

lemma with_retries_triple:
  assumes "\<And>a. a \<in> set as \<Longrightarrow> act_triple P a Q P"
  shows "act_triple P (with_retries transient as) Q P"
  using assms
proof (induction as)
  case Nil
  show ?case by (simp add: act_triple_def)
next
  case (Cons a as)
  have IH: "act_triple P (with_retries transient as) Q P" using Cons by simp
  have a: "act_triple P a Q P" using Cons.prems by simp
  show ?case
    unfolding act_triple_def
  proof (intro allI impI conjI)
    fix s x s' assume "P s" "with_retries transient (a # as) s = Some (Inr x, s')"
    then show "Q x s'" using with_retries_step [of transient a as s] IH a unfolding act_triple_def by blast
  next
    fix s e s' assume "P s" "with_retries transient (a # as) s = Some (Inl e, s')"
    then show "P s'" using with_retries_step [of transient a as s] IH a unfolding act_triple_def by blast
  qed
qed

text \<open>A partition task of the first generation whose range holds the id.\<close>

lemma id_covered_iff:
  "id_covered le ns db x \<longleftrightarrow> (\<exists>t \<in> set db. \<exists>p. tk_Type t = VerifyDocuments \<and> tk_Generation t = Some 0
     \<and> qf_Namespace (tk_QueryFilter t) = ns \<and> qf_Partition (tk_QueryFilter t) = Some p \<and> partition_covers le p x)"
  by (auto simp: id_covered_def partition_tasks_def)

definition sample_attempt_ok :: "sample_attempt \<Rightarrow> bool" where
  "sample_attempt_ok a \<longleftrightarrow> (\<forall>ts t. sa_pick a ts = Inr (Some t) \<longrightarrow> t \<in> set ts) \<and> cursor_never_fails a"


subsection \<open>An attempt without failures\<close>

definition fresh_ids :: "partition_target \<Rightarrow> bool" where
  "fresh_ids g \<longleftrightarrow> (\<forall>db. pg_fresh g db \<notin> task_ids db)"

definition ranges :: "raw_value \<Rightarrow> raw_value list \<Rightarrow> (raw_value \<times> raw_value) list" where
  "ranges lower bs = zip (lower # bs) bs"

lemma ranges_snoc: "ranges l (us @ [u]) = ranges l us @ [(last (l # us), u)]"
  by (induction us arbitrary: l) (auto simp: ranges_def)

text \<open>\<open>new_tasks g c rs ts\<close>: the tasks are those of the ranges, in order.\<close>

definition new_tasks :: "partition_target \<Rightarrow> bool \<Rightarrow> (raw_value \<times> raw_value) list \<Rightarrow> task list \<Rightarrow> bool" where
  "new_tasks g c rs ts \<longleftrightarrow>
     map (qf_Partition \<circ> tk_QueryFilter) ts = map (\<lambda>(l, u). Some (id_partition g c l u)) rs
     \<and> (\<forall>t \<in> set ts. tk_Type t = VerifyDocuments \<and> tk_Generation t = Some (pg_generation g)
          \<and> tk_Status t = Some Added \<and> qf_Namespace (tk_QueryFilter t) = src_ns g
          \<and> qf_To (tk_QueryFilter t) = pg_dstNs g \<and> qf_ShardKeys (tk_QueryFilter t) = pg_shardFields g)"

lemma create_partition_ok:
  assumes "fresh_ids g"
  obtains t where "create_and_insert_partition g c (\<lambda>_. None) n l u db = (Inr (Suc n), db @ [t])" "new_tasks g c [(l, u)] [t]"
  using assms that
  by (auto simp: create_and_insert_partition_def insert_partition_def insert_partition_verification_task_def
      partition_task_def insert_one_def aupdate_def abind_def deref_def fresh_ids_def id_partition_def new_tasks_def
      zero_task_def src_ns_def)

lemma new_tasks_append: "new_tasks g c rs ts \<Longrightarrow> new_tasks g c rs' ts' \<Longrightarrow> new_tasks g c (rs @ rs') (ts @ ts')"
  by (auto simp: new_tasks_def)

lemma sample_loop_ok:
  assumes "fresh_ids g" "map (\<lambda>d. lookup_err d [''_id'']) docs = map Inr ids"
  obtains ts where
    "afold (sample_step g c (\<lambda>_. None)) (l, n) docs db = (Inr (last (l # ids), n + length ids), db @ ts)"
    "new_tasks g c (ranges l ids) ts"
proof -
  have "\<exists>ts. afold (sample_step g c (\<lambda>_. None)) (l, n) docs db = (Inr (last (l # ids), n + length ids), db @ ts)
      \<and> new_tasks g c (ranges l ids) ts"
    using assms(2)
  proof (induction docs arbitrary: l n ids db)
    case Nil
    then show ?case by (simp add: ranges_def new_tasks_def)
  next
    case (Cons d docs)
    then obtain u us where ids: "ids = u # us" "lookup_err d [''_id''] = Inr u"
        "map (\<lambda>d. lookup_err d [''_id'']) docs = map Inr us" by (cases ids) auto
    obtain t where t: "create_and_insert_partition g c (\<lambda>_. None) n l u db = (Inr (Suc n), db @ [t])" "new_tasks g c [(l, u)] [t]"
      by (rule create_partition_ok [OF assms(1)])
    obtain ts where "afold (sample_step g c (\<lambda>_. None)) (u, Suc n) docs (db @ [t])
        = (Inr (last (u # us), Suc n + length us), (db @ [t]) @ ts)" "new_tasks g c (ranges u us) ts"
      using Cons.IH [OF ids(3)] by blast
    moreover have "sample_step g c (\<lambda>_. None) (l, n) d db = (Inr (u, Suc n), db @ [t])"
      using ids(2) t(1) by (simp add: sample_step_def abind_eqI)
    ultimately show ?case
      using new_tasks_append [OF t(2)] ids(1) by (auto simp: abind_eqI ranges_def)
  qed
  then show thesis using that by blast
qed

lemma sample_attempt_result:
  assumes "fresh_ids g" "find_latest_partition_upper_bound (sa_pick a) (src_ns g) db = Inr None"
    and "sa_stats a = Inr st" "sa_failures a = (\<lambda>_. None)"
    and "sa_aggregate a ([SortId, ProjectId] @ sample_stages rnd bytes st) = Inr (docs, cursorErr)"
    and "map (\<lambda>d. lookup_err d [''_id'']) docs = map Inr ids"
  obtains ts where
    "create_partition_tasks_with_sample_rate_retryable g ci rnd bytes a db =
       (Inr (if cursorErr = None then Suc (length ids) else 0), db @ ts)"
    "new_tasks g (cs_capped st) (ranges min_key (if cursorErr = None then ids @ [max_key] else ids)) ts"
proof -
  let ?c = "cs_capped st"
  obtain ts where ts: "afold (sample_step g ?c (\<lambda>_. None)) (min_key, 0) docs db
      = (Inr (last (min_key # ids), 0 + length ids), db @ ts)" "new_tasks g ?c (ranges min_key ids) ts"
    by (rule sample_loop_ok [OF assms(1,6)])
  obtain t where t: "create_and_insert_partition g ?c (\<lambda>_. None) (length ids) (last (min_key # ids)) max_key (db @ ts)
      = (Inr (Suc (length ids)), (db @ ts) @ [t])" "new_tasks g ?c [(last (min_key # ids), max_key)] [t]"
    by (rule create_partition_ok [OF assms(1)])
  have run: "create_partition_tasks_with_sample_rate_retryable g ci rnd bytes a db = sample_cursor g ?c (\<lambda>_. None) min_key (docs, cursorErr) db"
    using assms by (simp add: create_partition_tasks_with_sample_rate_retryable_def abind_eqI resume_stages_def)
  show thesis
  proof (cases cursorErr)
    case None
    then show thesis
      using that [of "ts @ [t]"] new_tasks_append [OF ts(2) t(2)] run ts(1) t(1)
      by (simp add: sample_cursor_def abind_eqI ranges_snoc)
  next
    case (Some e)
    then show thesis using that [of ts] run ts by (simp add: sample_cursor_def abind_eqI)
  qed
qed

text \<open>An attempt that nothing interrupts appends exactly one task for each range between sampled ids.\<close>

theorem sampled_partitions_exact:
  assumes "fresh_ids g" "find_latest_partition_upper_bound (sa_pick a) (src_ns g) db = Inr None"
    and "sa_stats a = Inr st" "sa_failures a = (\<lambda>_. None)"
    and "sa_aggregate a ([SortId, ProjectId] @ sample_stages rnd bytes st) = Inr (docs, None)"
    and "map (\<lambda>d. lookup_err d [''_id'']) docs = map Inr ids"
  shows "\<exists>ts. create_partition_tasks_with_sample_rate_retryable g ci rnd bytes a db = (Inr (Suc (length ids)), db @ ts)
    \<and> new_tasks g (cs_capped st) (zip (min_key # ids) (ids @ [max_key])) ts"
proof -
  have "ranges min_key (ids @ [max_key]) = zip (min_key # ids) (ids @ [max_key])"
    unfolding ranges_def using zip_append1 [of "min_key # ids" "[max_key]" "ids @ [max_key]"] by simp
  then show ?thesis
    by (cases rule: sample_attempt_result [OF assms, of ci]) auto
qed

text \<open>An error of the sampling cursor is lost: the attempt returns zero partitions and no error, and
  documents above the last sampled id are in no partition. The code wraps the variable of an outer
  error, which is nil, instead of the cursor's.\<close>

theorem cursor_error_loses_rest:
  assumes "fresh_ids g" "partition_tasks (src_ns g) db = []"
    and "find_latest_partition_upper_bound (sa_pick a) (src_ns g) db = Inr None"
    and "sa_stats a = Inr st" "sa_failures a = (\<lambda>_. None)"
    and "sa_aggregate a ([SortId, ProjectId] @ sample_stages rnd bytes st) = Inr (docs, Some e)"
    and "map (\<lambda>d. lookup_err d [''_id'']) docs = map Inr ids"
    and "\<And>u. u \<in> set ids \<Longrightarrow> \<not> le x u"
  shows "\<exists>db'. create_partition_tasks_with_sample_rate_retryable g ci rnd bytes a db = (Inr 0, db')
    \<and> \<not> id_covered le (src_ns g) db' x"
proof -
  obtain ts where ts: "create_partition_tasks_with_sample_rate_retryable g ci rnd bytes a db = (Inr 0, db @ ts)"
      "new_tasks g (cs_capped st) (ranges min_key ids) ts"
    using sample_attempt_result [OF assms(1,3-7)] by auto
  have "pt_Upper p \<in> set ids" if "t \<in> set ts" "qf_Partition (tk_QueryFilter t) = Some p" for t p
  proof -
    have "Some p \<in> set (map (\<lambda>(l, u). Some (id_partition g (cs_capped st) l u)) (ranges min_key ids))"
      using that ts(2) unfolding new_tasks_def by (metis comp_apply image_eqI image_set)
    then show ?thesis by (auto simp: ranges_def id_partition_def dest: set_zip_rightD)
  qed
  then have "\<not> id_covered le (src_ns g) (db @ ts) x"
    using assms(2,8) by (fastforce simp: id_covered_def partition_covers_def partition_tasks_def)
  then show ?thesis using ts(1) by blast
qed

text \<open>A capped collection is sampled like any other, but its partitions have no filter: each of them
  reads the whole collection in natural order.\<close>

theorem capped_collection_read_per_partition:
  assumes "fresh_ids g" "find_latest_partition_upper_bound (sa_pick a) (src_ns g) db = Inr None"
    and "sa_stats a = Inr st" "cs_capped st" "sa_failures a = (\<lambda>_. None)"
    and "sa_aggregate a ([SortId, ProjectId] @ sample_stages rnd bytes st) = Inr (docs, None)"
    and "map (\<lambda>d. lookup_err d [''_id'']) docs = map Inr ids"
  shows "\<exists>ts. create_partition_tasks_with_sample_rate_retryable g ci rnd bytes a db = (Inr (Suc (length ids)), db @ ts)
    \<and> length ts = Suc (length ids)
    \<and> (\<forall>t \<in> set ts. get_query_parameters ci (qf_Partition (tk_QueryFilter t)) []
          = Inr \<lparr>pq_filter = None, pq_sortField = Some ''$natural'', pq_hint = None\<rparr>)"
proof -
  obtain ts where ts: "create_partition_tasks_with_sample_rate_retryable g ci rnd bytes a db = (Inr (Suc (length ids)), db @ ts)"
      "new_tasks g True (ranges min_key (ids @ [max_key])) ts"
    using sample_attempt_result [OF assms(1-3,5-7)] assms(4) by auto
  have "length ts = Suc (length ids)"
    using arg_cong [OF ts(2) [unfolded new_tasks_def, THEN conjunct1], of length] by (simp add: ranges_def)
  moreover have "get_query_parameters ci (qf_Partition (tk_QueryFilter t)) []
      = Inr \<lparr>pq_filter = None, pq_sortField = Some ''$natural'', pq_hint = None\<rparr>" if "t \<in> set ts" for t
  proof -
    have "qf_Partition (tk_QueryFilter t) \<in> set (map (\<lambda>(l, u). Some (id_partition g True l u)) (ranges min_key (ids @ [max_key])))"
      using that ts(2) unfolding new_tasks_def by (metis comp_apply image_eqI image_set)
    then show ?thesis by (auto simp: get_query_parameters_def get_query_parameters_with_def id_partition_def)
  qed
  ultimately show ?thesis using ts(1) by blast
qed

subsection \<open>A sampled collection\<close>

definition sample_target :: partition_target where
  "sample_target = \<lparr>pg_DB = ''db'', pg_Coll = ''c'', pg_dstNs = ''db.c'', pg_shardFields = [], pg_generation = 0,
     pg_fresh = (\<lambda>db. replicate (Suc (sum_list (map (length \<circ> tk_PrimaryKey) db))) 0)\<rparr>"

lemma sample_fresh: "fresh_ids sample_target"
proof -
  have "length (tk_PrimaryKey t) \<le> sum_list (map (length \<circ> tk_PrimaryKey) db)" if "t \<in> set db" for t db
    using that by (induction db) auto
  then show ?thesis
    by (force simp: fresh_ids_def sample_target_def task_ids_def dest: arg_cong [where f = length])
qed

lemma sample_target_simps [simp]: "src_ns sample_target = ''db.c''" "pg_generation sample_target = 0"
  by (simp_all add: src_ns_def sample_target_def)

definition id_doc :: bytes where "id_doc = enc_doc [(''_id'', int32_value 5)]"

lemma lookup_id_doc: "lookup_err id_doc [''_id''] = Inr (int32_value 5)"
proof -
  have w: "list_all wf_kv [(''_id'', int32_value 5)]" "small [(''_id'', int32_value 5)]"
    by (simp_all add: wf_kv_def valid_cstring_def small_def body_len_def)
  show ?thesis unfolding id_doc_def lookup_enc_doc [OF w] by simp
qed

definition sample_run :: "bool \<Rightarrow> go_error option \<Rightarrow> sample_attempt" where
  "sample_run capped cursorErr = \<lparr>sa_pick = (\<lambda>ts. Inr (if ts = [] then None else Some (last ts))),
     sa_stats = Inr \<lparr>cs_bytes = 1000, cs_docs = 10, cs_capped = capped\<rparr>,
     sa_aggregate = (\<lambda>_. Inr ([id_doc], cursorErr)), sa_failures = (\<lambda>_. None)\<rparr>"

lemma sample_run_simps [simp]:
  "sa_pick (sample_run c e) ts = Inr (if ts = [] then None else Some (last ts))"
  "sa_stats (sample_run c e) = Inr \<lparr>cs_bytes = 1000, cs_docs = 10, cs_capped = c\<rparr>"
  "sa_aggregate (sample_run c e) s = Inr ([id_doc], e)" "sa_failures (sample_run c e) = (\<lambda>_. None)"
  by (simp_all add: sample_run_def)

lemma sample_latest: "find_latest_partition_upper_bound (sa_pick (sample_run c e)) ns [] = Inr None"
  by (simp add: find_latest_partition_upper_bound_def partition_tasks_def)

theorem sampled_partitions_exact_witness:
  "\<exists>ts. create_partition_tasks_with_sample_rate_retryable sample_target (Some (Some [6, 0])) id 100 (sample_run False None) [] = (Inr 2, [] @ ts)
    \<and> new_tasks sample_target False [(min_key, int32_value 5), (int32_value 5, max_key)] ts"
  using sampled_partitions_exact [where g = sample_target and a = "sample_run False None" and db = "[]" and ci = "Some (Some [6, 0])"
      and rnd = id and bytes = 100 and docs = "[id_doc]" and ids = "[int32_value 5]", OF sample_fresh sample_latest]
  by (simp add: lookup_id_doc numeral_2_eq_2)

theorem cursor_error_loses_rest_witness:
  "\<exists>db'. create_partition_tasks_with_sample_rate_retryable sample_target (Some (Some [6, 0])) id 100 (sample_run False (Some NoDocuments)) [] = (Inr 0, db')
    \<and> \<not> id_covered rank_order ''db.c'' db' (oid_value [3])"
  using cursor_error_loses_rest [where g = sample_target and a = "sample_run False (Some NoDocuments)" and db = "[]" and ci = "Some (Some [6, 0])"
      and rnd = id and bytes = 100 and docs = "[id_doc]" and ids = "[int32_value 5]" and le = rank_order and x = "oid_value [3]" and e = NoDocuments, OF sample_fresh _ sample_latest]
  by (simp add: lookup_id_doc partition_tasks_def rank_order_def type_ranks oid_value_def)

theorem capped_collection_read_per_partition_witness:
  "\<exists>ts. create_partition_tasks_with_sample_rate_retryable sample_target (Some (Some [6, 0])) id 100 (sample_run True None) [] = (Inr 2, [] @ ts)
    \<and> length ts = 2"
  using capped_collection_read_per_partition [where g = sample_target and a = "sample_run True None" and db = "[]" and ci = "Some (Some [6, 0])"
      and rnd = id and bytes = 100 and docs = "[id_doc]" and ids = "[int32_value 5]", OF sample_fresh sample_latest]
  by (auto simp: lookup_id_doc numeral_2_eq_2)


end
