(* ===== verification/Index_Walk.thy ===== *)
theory Index_Walk
  imports Partitioning
begin

text \<open>
  The partitions of a DocumentDB source, found by walking the \<open>_id\<close> index
  (\<open>internal/verifier/partition_walk.go\<close>). The source's answer to each query for a boundary is a
  parameter. The walk is a partial function, with a theorem that it returns and one that it does not.
\<close>

section \<open>The walk\<close>

definition max_int64 :: int where "max_int64 = 2 ^ 63 - 1"

text \<open>The conversion of a double to an integer that does not hold it is left open.\<close>

fun f64_ceil :: "f64 \<Rightarrow> int option" where
  "f64_ceil (Finite q) = Some \<lceil>q\<rceil>"
| "f64_ceil _ = None"

definition docs_per_partition_for :: "(rat \<Rightarrow> rat) \<Rightarrow> nat \<Rightarrow> nat \<Rightarrow> nat \<Rightarrow> int option" where
  "docs_per_partition_for rnd collBytes docsCount partitionSizeInBytes =
     (if docsCount = 0 \<or> collBytes = 0 then Some max_int64
      else let idealNumPartitions = divide_to_f64 rnd collBytes partitionSizeInBytes
           in if f64_le idealNumPartitions (Finite 1) then Some max_int64
              else map_option (max 1) (f64_ceil (f64_div rnd (f64_of rnd docsCount) idealNumPartitions)))"

text \<open>\<open>query filter skip\<close> is the one document of the query; without one it fails with \<open>ErrNoDocuments\<close>.\<close>

definition find_next_id_boundary :: "(raw_value option \<Rightarrow> int \<Rightarrow> go_error + bytes) \<Rightarrow> raw_value \<Rightarrow> int
     \<Rightarrow> go_error + raw_value option" where
  "find_next_id_boundary query after docsPerPartition =
     (if docsPerPartition = max_int64 then Inr None
      else case query (if rv_type after \<noteq> TypeMinKey then Some after else None) (docsPerPartition - 1) of
             Inl e \<Rightarrow> if e = NoDocuments then Inr None else Inl e
           | Inr raw \<Rightarrow> rbind (lookup_err raw [''_id'']) (\<lambda>v. Inr (Some v)))"

partial_function (option) index_walk :: "partition_target \<Rightarrow> (nat \<Rightarrow> raw_value option \<Rightarrow> int \<Rightarrow> go_error + bytes) \<Rightarrow> int
     \<Rightarrow> insert_failures \<Rightarrow> raw_value \<Rightarrow> nat \<Rightarrow> task_db \<Rightarrow> ((go_error + nat) \<times> task_db) option" where
  "index_walk g query docsPerPartition fails lowerBound n db =
     (case find_next_id_boundary (query n) lowerBound docsPerPartition of
        Inl e \<Rightarrow> Some (Inl e, db)
      | Inr None \<Rightarrow> Some (create_and_insert_partition g False fails n lowerBound max_key db)
      | Inr (Some upperBound) \<Rightarrow>
          (case create_and_insert_partition g False fails n lowerBound upperBound db of
             (Inl e, db') \<Rightarrow> Some (Inl e, db')
           | (Inr n', db') \<Rightarrow> index_walk g query docsPerPartition fails upperBound n' db'))"

record walk_attempt =
  wa_stats :: "go_error + coll_stats"
  wa_pick :: "task list \<Rightarrow> go_error + task option"
  wa_find :: "nat \<Rightarrow> raw_value option \<Rightarrow> int \<Rightarrow> go_error + bytes"
  wa_failures :: insert_failures

definition create_partition_tasks_with_index_walk_retryable :: "partition_target \<Rightarrow> (rat \<Rightarrow> rat) \<Rightarrow> nat
     \<Rightarrow> walk_attempt \<Rightarrow> task_db \<Rightarrow> ((go_error + nat) \<times> task_db) option" where
  "create_partition_tasks_with_index_walk_retryable g rnd partitionBytes a db =
     (case wa_stats a of
        Inl e \<Rightarrow> Some (Inl e, db)
      | Inr st \<Rightarrow>
          (case docs_per_partition_for rnd (cs_bytes st) (cs_docs st) partitionBytes of
             None \<Rightarrow> None
           | Some docsPerPartition \<Rightarrow>
               (case find_latest_partition_upper_bound (wa_pick a) (src_ns g) db of
                  Inl e \<Rightarrow> Some (Inl e, db)
                | Inr b \<Rightarrow> index_walk g (wa_find a) docsPerPartition (wa_failures a)
                             (case b of None \<Rightarrow> min_key | Some resumeFrom \<Rightarrow> resumeFrom) 0 db)))"

definition create_partition_tasks_with_index_walk :: "(go_error \<Rightarrow> bool) \<Rightarrow> partition_target \<Rightarrow> (rat \<Rightarrow> rat) \<Rightarrow> nat
     \<Rightarrow> walk_attempt list \<Rightarrow> task_db \<Rightarrow> ((go_error + nat) \<times> task_db) option" where
  "create_partition_tasks_with_index_walk transient g rnd partitionBytes attempts db =
     with_retries transient (map (create_partition_tasks_with_index_walk_retryable g rnd partitionBytes) attempts) db"

section \<open>It covers every id\<close>

lemma docs_per_partition_pos: "docs_per_partition_for rnd b d p = Some n \<Longrightarrow> n \<ge> 1"
  by (auto simp: docs_per_partition_for_def max_int64_def Let_def split: if_splits)

lemma act_triple_Some: "triple P m Q E \<Longrightarrow> m s = (r, s') \<Longrightarrow> P s \<Longrightarrow> (case r of Inr x \<Rightarrow> Q x s' | Inl e \<Rightarrow> E s')"
  by (auto simp: triple_def split: sum.splits)

lemma index_walk_covers:
  assumes "id_order le" "pg_generation g = 0"
    and ret: "index_walk g query d fails l n db = Some r"
  shows "walk_inv le g l db \<longrightarrow>
    (case fst r of Inr m \<Rightarrow> all_covered le (src_ns g) (snd r) | Inl e \<Rightarrow> partitions_ok le (src_ns g) (snd r))"
proof (rule index_walk.raw_induct [where P = "\<lambda>h q d f l n db r. h = g \<longrightarrow> walk_inv le g l db \<longrightarrow>
      (case fst r of Inr m \<Rightarrow> all_covered le (src_ns g) (snd r) | Inl e \<Rightarrow> partitions_ok le (src_ns g) (snd r))",
      OF _ ret, THEN mp, OF _ refl])
  fix walk h q d f l n db r
  assume IH: "\<And>h q d f l n db r. walk h q d f l n db = Some r \<Longrightarrow> h = g \<longrightarrow> walk_inv le g l db \<longrightarrow>
      (case fst r of Inr m \<Rightarrow> all_covered le (src_ns g) (snd r) | Inl e \<Rightarrow> partitions_ok le (src_ns g) (snd r))"
    and body: "(case find_next_id_boundary (q n) l d of
        Inl e \<Rightarrow> Some (Inl e, db)
      | Inr None \<Rightarrow> Some (create_and_insert_partition h False f n l max_key db)
      | Inr (Some u) \<Rightarrow>
          (case create_and_insert_partition h False f n l u db of
             (Inl e, db') \<Rightarrow> Some (Inl e, db')
           | (Inr n', db') \<Rightarrow> walk h q d f u n' db')) = Some r"
  show "h = g \<longrightarrow> walk_inv le g l db \<longrightarrow>
      (case fst r of Inr m \<Rightarrow> all_covered le (src_ns g) (snd r) | Inl e \<Rightarrow> partitions_ok le (src_ns g) (snd r))"
  proof (intro impI)
    assume h: "h = g" and inv: "walk_inv le g l db"
    show "case fst r of Inr m \<Rightarrow> all_covered le (src_ns g) (snd r) | Inl e \<Rightarrow> partitions_ok le (src_ns g) (snd r)"
    proof (cases "find_next_id_boundary (q n) l d")
      case (Inl e)
      then show ?thesis using body inv by (auto simp: walk_inv_def)
    next
      case (Inr b)
      show ?thesis
      proof (cases b)
        case None
        then show ?thesis
          using body Inr h inv triple_Inr [OF walk_step(2) [OF assms(1,2)] inv] triple_Inl [OF walk_step(2) [OF assms(1,2)] inv]
          by (cases r; cases "fst r") auto
      next
        case (Some u)
        obtain s db' where s: "create_and_insert_partition g False f n l u db = (s, db')" by fastforce
        show ?thesis
        proof (cases s)
          case (Inl e)
          then show ?thesis using body Inr Some h s triple_Inl [OF walk_step(1) [OF assms(1,2)] inv] by auto
        next
          case (Inr n')
          have "walk g q d f u n' db' = Some r" using body \<open>find_next_id_boundary (q n) l d = Inr b\<close> Some h s Inr by simp
          moreover have "walk_inv le g u db'" using triple_Inr [OF walk_step(1) [OF assms(1,2)] inv] s Inr by simp
          ultimately show ?thesis using IH by blast
        qed
      qed
    qed
  qed
qed

section \<open>It returns\<close>

text \<open>
  What the source answers, on a collection whose ids are \<open>ids\<close>: one of them, beyond the bound it is
  asked to start after, or beyond as many ids as it is asked to skip.
\<close>

definition answers_from :: "(raw_value \<Rightarrow> raw_value \<Rightarrow> bool) \<Rightarrow> raw_value set
     \<Rightarrow> (nat \<Rightarrow> raw_value option \<Rightarrow> int \<Rightarrow> go_error + bytes) \<Rightarrow> bool" where
  "answers_from le ids query \<longleftrightarrow> (\<forall>n after skip raw u.
     query n after skip = Inr raw \<longrightarrow> lookup_err raw [''_id''] = Inr u \<longrightarrow> u \<in> ids \<and>
       (case after of
          Some v \<Rightarrow> \<not> le u v
        | None \<Rightarrow> \<exists>B \<subseteq> ids. int (card B) = skip \<and> (\<forall>b \<in> B. \<not> le u b)))"

lemma boundary_beyond:
  assumes "id_order le" "finite ids" "\<And>x. x \<in> ids \<Longrightarrow> valid_id x" "answers_from le ids query"
    and "d > 1 \<or> min_key \<notin> ids" "find_next_id_boundary (query n) l d = Inr (Some u)" "valid_id l"
  shows "u \<in> ids \<and> \<not> le u l"
proof -
  obtain raw where raw: "query n (if rv_type l \<noteq> TypeMinKey then Some l else None) (d - 1) = Inr raw"
      "lookup_err raw [''_id''] = Inr u"
    using assms(6) by (auto simp: find_next_id_boundary_def rbind_eq_Inr split: if_splits sum.splits)
  note law = assms(4) [unfolded answers_from_def, rule_format, OF raw]
  show ?thesis
  proof (cases "rv_type l = TypeMinKey")
    case True
    then have l: "l = min_key" using assms(7) by (simp add: valid_id_def min_key_def)
    obtain B where B: "B \<subseteq> ids" "int (card B) = d - 1" "\<forall>b \<in> B. \<not> le u b" "u \<in> ids"
      using law True by auto
    have "u \<noteq> min_key"
    proof
      assume u: "u = min_key"
      with assms(5) B have "card B > 0" by auto
      then obtain b where "b \<in> B" by (metis card_gt_0_iff all_not_in_conv)
      then show False using B(1,3) u le_min_max(1) [OF assms(1)] assms(3) by auto
    qed
    moreover have "valid_id u" using B(4) assms(3) by simp
    ultimately have "rv_type u \<noteq> TypeMinKey" by (auto simp: valid_id_def min_key_def)
    then have "\<not> le u min_key"
      using id_order_rank(1) [OF assms(1) valid_min_max(1) \<open>valid_id u\<close>] min_rank_iff [OF \<open>valid_id u\<close>]
      by (simp add: type_ranks)
    then show ?thesis using l B(4) by simp
  qed (use law in simp)
qed

lemma index_walk_returns:
  assumes "id_order le" "finite ids" "\<And>x. x \<in> ids \<Longrightarrow> valid_id x" "answers_from le ids query" "d > 1 \<or> min_key \<notin> ids"
  shows "valid_id l \<Longrightarrow> \<exists>r. index_walk g query d fails l n db = Some r"
proof (induction "card {y \<in> ids. \<not> le y l}" arbitrary: l n db rule: less_induct)
  case less
  show ?case
  proof (cases "find_next_id_boundary (query n) l d")
    case (Inl e)
    then show ?thesis by (simp add: index_walk.simps)
  next
    case (Inr b)
    show ?thesis
    proof (cases b)
      case None
      then show ?thesis using Inr by (simp add: index_walk.simps)
    next
      case (Some u)
      have u: "u \<in> ids" "\<not> le u l"
        using boundary_beyond [OF assms _ less.prems, of n u] Inr Some by auto
      have "{y \<in> ids. \<not> le y u} \<subset> {y \<in> ids. \<not> le y l}"
        using u assms(1) unfolding id_order_def by blast
      then have "card {y \<in> ids. \<not> le y u} < card {y \<in> ids. \<not> le y l}"
        using assms(2) by (intro psubset_card_mono) simp_all
      note IH = less.hyps [OF this assms(3) [OF u(1)]]
      show ?thesis
        using Inr Some IH by (subst index_walk.simps) (auto split: prod.split sum.split)
    qed
  qed
qed

definition walk_attempt_ok :: "(raw_value \<Rightarrow> raw_value \<Rightarrow> bool) \<Rightarrow> raw_value set \<Rightarrow> walk_attempt \<Rightarrow> bool" where
  "walk_attempt_ok le ids a \<longleftrightarrow> answers_from le ids (wa_find a)
     \<and> (\<forall>ts t. wa_pick a ts = Inr (Some t) \<longrightarrow> t \<in> set ts)"

text \<open>Bounds in the tasks are ids of the collection, or the greatest.\<close>

definition bounds_valid :: "string \<Rightarrow> task_db \<Rightarrow> bool" where
  "bounds_valid ns db \<longleftrightarrow> (\<forall>t \<in> set (partition_tasks ns db). \<forall>p. qf_Partition (tk_QueryFilter t) = Some p \<longrightarrow> valid_id (pt_Upper p))"

text \<open>C11: The walk over the \<open>_id\<close> index returns, for every collection of finitely many documents whose
  boundaries the source finds as asked, and when it returns without an error its partitions, with
  those of earlier attempts, cover every \<open>_id\<close>. Partitions of one document need ids above MinKey.\<close>

theorem index_walk_partitions_cover:
  assumes "id_order le" "finite ids" "\<And>x. x \<in> ids \<Longrightarrow> valid_id x" "walk_attempt_ok le ids a"
    and "wa_stats a = Inr st" "docs_per_partition_for rnd (cs_bytes st) (cs_docs st) bytes = Some d" "d > 1 \<or> min_key \<notin> ids"
    and "pg_generation g = 0" "partitions_ok le (src_ns g) db" "bounds_valid (src_ns g) db"
  shows "\<exists>r db'. create_partition_tasks_with_index_walk_retryable g rnd bytes a db = Some (r, db')
    \<and> (case r of Inr n \<Rightarrow> (\<forall>x. valid_id x \<longrightarrow> id_covered le (src_ns g) db' x)
        | Inl e \<Rightarrow> partitions_ok le (src_ns g) db')"
proof (cases "find_latest_partition_upper_bound (wa_pick a) (src_ns g) db")
  case (Inl e)
  then show ?thesis using assms by (simp add: create_partition_tasks_with_index_walk_retryable_def)
next
  case (Inr b)
  have pick: "\<And>ts t. wa_pick a ts = Inr (Some t) \<Longrightarrow> t \<in> set ts" using assms(4) by (simp add: walk_attempt_ok_def)
  define l where "l = (case b of None \<Rightarrow> min_key | Some b \<Rightarrow> b)"
  have "walk_inv le g l db"
    using latest_bound_covered [OF assms(1,9) pick Inr] assms(9) by (simp add: walk_inv_def l_def)
  moreover have "valid_id l"
    using Inr assms(10) pick
    by (fastforce simp: l_def bounds_valid_def find_latest_partition_upper_bound_def rbind_eq_Inr split: option.splits)
  then obtain r db' where "index_walk g (wa_find a) d (wa_failures a) l 0 db = Some (r, db')"
    using index_walk_returns [OF assms(1-3) _ assms(7)] assms(4) unfolding walk_attempt_ok_def by fastforce
  ultimately show ?thesis
    using index_walk_covers [OF assms(1,8)] Inr assms(5,6)
    by (fastforce simp: create_partition_tasks_with_index_walk_retryable_def l_def all_covered_def split: sum.splits)
qed

section \<open>And it does not\<close>

text \<open>
  With one document to a partition and a document whose \<open>_id\<close> is MinKey the walk stays at MinKey: a
  lower bound of that type is taken for the start, so the query asks for the first document again.
\<close>

text \<open>With one document to a partition, a document whose \<open>_id\<close> is MinKey makes the walk insert empty
  partitions at MinKey and never return.\<close>

theorem index_walk_stays_at_min_key:
  assumes "\<And>n. query n None 0 = Inr raw" "lookup_err raw [''_id''] = Inr min_key" "fresh_ids g"
  shows "index_walk g query 1 (\<lambda>_. None) min_key 0 db = None"
proof (rule ccontr)
  assume "index_walk g query 1 (\<lambda>_. None) min_key 0 db \<noteq> None"
  then obtain r where ret: "index_walk g query 1 (\<lambda>_. None) min_key 0 db = Some r" by auto
  have b: "find_next_id_boundary (query n) min_key 1 = Inr (Some min_key)" for n
    using assms(1,2) by (simp add: find_next_id_boundary_def max_int64_def)
  have "\<not> (g = g \<and> query = query \<and> (1 :: int) = 1 \<and> (\<lambda>_ :: nat. None :: (go_error \<times> bool) option) = (\<lambda>_. None) \<and> min_key = min_key)"
  proof (rule index_walk.raw_induct [where P = "\<lambda>h q d f l n db r.
      \<not> (h = g \<and> q = query \<and> d = 1 \<and> f = (\<lambda>_. None) \<and> l = min_key)", OF _ ret])
    fix walk h q d f l n db r
    assume IH: "\<And>h q d f l n db r. walk h q d f l n db = Some r \<Longrightarrow>
        \<not> (h = g \<and> q = query \<and> d = 1 \<and> f = (\<lambda>_. None) \<and> l = min_key)"
      and body: "(case find_next_id_boundary (q n) l d of
          Inl e \<Rightarrow> Some (Inl e, db)
        | Inr None \<Rightarrow> Some (create_and_insert_partition h False f n l max_key db)
        | Inr (Some u) \<Rightarrow>
            (case create_and_insert_partition h False f n l u db of
               (Inl e, db') \<Rightarrow> Some (Inl e, db')
             | (Inr n', db') \<Rightarrow> walk h q d f u n' db')) = Some r"
    show "\<not> (h = g \<and> q = query \<and> d = 1 \<and> f = (\<lambda>_. None) \<and> l = min_key)"
    proof
      assume a: "h = g \<and> q = query \<and> d = 1 \<and> f = (\<lambda>_. None) \<and> l = min_key"
      obtain t where "create_and_insert_partition g False (\<lambda>_. None) n min_key min_key db = (Inr (Suc n), db @ [t])"
        by (rule create_partition_ok [OF assms(3)])
      then have "walk g query 1 (\<lambda>_. None) min_key (Suc n) (db @ [t]) = Some r" using body a b by simp
      then show False using IH by blast
    qed
  qed
  then show False by simp
qed

section \<open>A collection of one document\<close>

definition one_doc_walk :: walk_attempt where
  "one_doc_walk = \<lparr>wa_stats = Inr \<lparr>cs_bytes = 1000, cs_docs = 10, cs_capped = False\<rparr>,
     wa_pick = (\<lambda>ts. Inr (if ts = [] then None else Some (last ts))),
     wa_find = (\<lambda>n after skip. if after = None \<and> skip = 0 \<or> (\<exists>v. after = Some v \<and> \<not> rank_order (int32_value 5) v)
       then Inr id_doc else Inl NoDocuments),
     wa_failures = (\<lambda>_. None)\<rparr>"

lemma one_doc_walk_ok: "walk_attempt_ok rank_order {int32_value 5} one_doc_walk"
  by (auto simp: walk_attempt_ok_def answers_from_def one_doc_walk_def lookup_id_doc split: if_splits)

lemma one_doc_stats:
  "wa_stats one_doc_walk = Inr \<lparr>cs_bytes = 1000, cs_docs = 10, cs_capped = False\<rparr>"
  "docs_per_partition_for id 1000 10 100 = Some 1"
  by (simp_all add: one_doc_walk_def docs_per_partition_for_def divide_to_f64_def f64_of_def)

lemma valid_int32: "valid_id (int32_value i)"
  by (simp add: valid_id_def int32_value_def type_tables)

theorem index_walk_partitions_cover_witness:
  "\<exists>r db'. create_partition_tasks_with_index_walk_retryable sample_target id 100 one_doc_walk [] = Some (r, db')
    \<and> (case r of Inr n \<Rightarrow> id_covered rank_order ''db.c'' db' (int32_value 5) | Inl e \<Rightarrow> partitions_ok rank_order ''db.c'' db')"
proof -
  have "partitions_ok rank_order (src_ns sample_target) []" "bounds_valid (src_ns sample_target) []"
    by (simp_all add: partitions_ok_def bounds_valid_def partition_tasks_def)
  moreover have "valid_id x" if "x \<in> {int32_value 5}" for x
    using that by (simp add: valid_int32)
  moreover have "1 < (1 :: int) \<or> min_key \<notin> {int32_value 5}"
    by (simp add: int32_value_def min_key_def)
  ultimately obtain r db' where "create_partition_tasks_with_index_walk_retryable sample_target id 100 one_doc_walk [] = Some (r, db')"
      "case r of Inr n \<Rightarrow> (\<forall>x. valid_id x \<longrightarrow> id_covered rank_order (src_ns sample_target) db' x)
        | Inl e \<Rightarrow> partitions_ok rank_order (src_ns sample_target) db'"
    using index_walk_partitions_cover [OF id_order_rank_order _ _ one_doc_walk_ok one_doc_stats(1), of id 100 1 sample_target "[]"]
      one_doc_stats(2) by auto
  then show ?thesis using valid_int32 by (cases r) auto
qed

theorem index_walk_stays_at_min_key_witness:
  "index_walk sample_target (\<lambda>n after skip. Inr (enc_doc [(''_id'', min_key)])) 1 (\<lambda>_. None) min_key 0 [] = None"
proof (rule index_walk_stays_at_min_key [OF refl _ sample_fresh])
  have w: "list_all wf_kv [(''_id'', min_key)]" "small [(''_id'', min_key)]"
    by (simp_all add: wf_kv_def valid_cstring_def small_def body_len_def wf_value_def min_key_def value_length_def fixed_length_def)
  show "lookup_err (enc_doc [(''_id'', min_key)]) [''_id''] = Inr min_key"
    unfolding lookup_enc_doc [OF w] by simp
qed

end
