(* ===== verification/Partition_Schemes.thy ===== *)
theory Partition_Schemes
  imports Index_Walk
begin

text \<open>
  The remaining ways to split a collection, and the choice between them: sampling with
  \<open>$bucketAuto\<close> (\<open>internal/partitions/partitions.go\<close>), natural order (\<open>natural.go\<close>, over the cursor of
  \<open>mmongo/cursor/batch.go\<close>), \<open>partitionCollection\<close>. The aggregation's documents, the cursor's responses
  and the shuffle are parameters.
\<close>

section \<open>Sampling with $bucketAuto\<close>

definition sampleMinNumDocs :: nat where "sampleMinNumDocs = 101"
definition defaultMaxNumDocsToSamplePerPartition :: nat where "defaultMaxNumDocsToSamplePerPartition = 3"

fun f64_mul :: "(rat \<Rightarrow> rat) \<Rightarrow> f64 \<Rightarrow> f64 \<Rightarrow> f64" where
  "f64_mul rnd (Finite x) (Finite y) = Finite (rnd (x * y))"
| "f64_mul rnd (Finite x) PosInf = (if x = 0 then NotANumber else PosInf)"
| "f64_mul rnd PosInf (Finite y) = (if y = 0 then NotANumber else PosInf)"
| "f64_mul rnd PosInf PosInf = PosInf"
| "f64_mul rnd _ _ = NotANumber"

text \<open>The conversion to \<open>int\<close> of a value it cannot hold is a parameter.\<close>

definition f64_trunc :: "int \<Rightarrow> f64 \<Rightarrow> int" where
  "f64_trunc undef x = (case x of Finite q \<Rightarrow> \<lfloor>q\<rfloor> | _ \<Rightarrow> undef)"

definition get_num_partitions :: "(rat \<Rightarrow> rat) \<Rightarrow> int \<Rightarrow> nat \<Rightarrow> nat \<Rightarrow> f64 \<Rightarrow> int" where
  "get_num_partitions rnd undef collSizeInBytes partitionSize filteredRatio =
     f64_trunc undef (f64_div rnd (f64_mul rnd (f64_of rnd collSizeInBytes) filteredRatio) (f64_of rnd partitionSize)) + 1"

text \<open>One run of the aggregation: its documents and the error it ends with.\<close>

fun bucket_bounds :: "bytes list \<Rightarrow> go_error + raw_value list" where
  "bucket_bounds [] = Inr []"
| "bucket_bounds (d # ds) = rbind (lookup_err d [''_id'', ''max'']) (\<lambda>b. rbind (bucket_bounds ds) (\<lambda>bs. Inr (b # bs)))"

definition get_mid_id_bounds :: "nat \<Rightarrow> int \<Rightarrow> (int \<Rightarrow> go_error + bytes list \<times> go_error option) \<Rightarrow> go_error + raw_value list" where
  "get_mid_id_bounds collDocCount numPartitions aggregate =
     (if collDocCount < sampleMinNumDocs \<or> numPartitions < 2 then Inr []
      else rbind (aggregate numPartitions) (\<lambda>(docs, cursorErr). rbind (bucket_bounds docs) (\<lambda>bs.
        case cursorErr of Some e \<Rightarrow> Inl e | None \<Rightarrow> Inr (butlast bs))))"

text \<open>
  The retryer also retries when sampling found too many duplicates, with a tenth of the partitions.
  \<open>tooManyDups\<close> recognises that error, \<open>retriable\<close> what the retryer retries.
\<close>

fun mid_bounds_attempts :: "(go_error \<Rightarrow> bool) \<Rightarrow> (go_error \<Rightarrow> bool) \<Rightarrow> nat \<Rightarrow> int \<Rightarrow> go_error option
     \<Rightarrow> (int \<Rightarrow> go_error + bytes list \<times> go_error option) list \<Rightarrow> go_error + raw_value list" where
  "mid_bounds_attempts tooManyDups retriable collDocCount numPartitions prev [] = Inl (Err ''no attempt'')"
| "mid_bounds_attempts tooManyDups retriable collDocCount numPartitions prev (a # as) =
     (let n = (case prev of Some e \<Rightarrow> if tooManyDups e then numPartitions div 10 else numPartitions | None \<Rightarrow> numPartitions)
      in case get_mid_id_bounds collDocCount n a of
           Inl e \<Rightarrow> if retriable e \<and> as \<noteq> [] then mid_bounds_attempts tooManyDups retriable collDocCount n (Some e) as
                    else Inl e
         | Inr bs \<Rightarrow> Inr bs)"

definition bounds_partitions :: "bytes \<Rightarrow> partition_ns \<Rightarrow> bool \<Rightarrow> raw_value list \<Rightarrow> partition list" where
  "bounds_partitions uuid ns isCapped bounds = map (\<lambda>(l, u).
     \<lparr>pt_SourceUUID = uuid, pt_Lower = l, pt_Ns = Some ns, pt_Upper = u, pt_IsCapped = isCapped,
      pt_Natural = False, pt_HostnameAndPort = None\<rparr>) (zip bounds (tl bounds))"

record legacy_run =
  lg_stats :: "go_error + coll_stats"
  lg_filtered :: "(go_error + nat) option"
  lg_attempts :: "(int \<Rightarrow> go_error + bytes list \<times> go_error option) list"

definition partitions_wanted :: "(rat \<Rightarrow> rat) \<Rightarrow> int \<Rightarrow> nat \<Rightarrow> legacy_run \<Rightarrow> coll_stats \<Rightarrow> go_error + int" where
  "partitions_wanted rnd undef partitionBytes r st =
     (if cs_capped st then Inr 1
      else case lg_filtered r of
             None \<Rightarrow> Inr (get_num_partitions rnd undef (cs_bytes st) partitionBytes (Finite 1))
           | Some filtered \<Rightarrow> rbind filtered (\<lambda>numFilteredDocs.
               Inr (get_num_partitions rnd undef (cs_bytes st) partitionBytes
                 (f64_div rnd (f64_of rnd numFilteredDocs) (f64_of rnd (cs_docs st))))))"

definition partition_collection_with_parameters :: "(go_error \<Rightarrow> bool) \<Rightarrow> (go_error \<Rightarrow> bool) \<Rightarrow> (rat \<Rightarrow> rat) \<Rightarrow> int
     \<Rightarrow> bytes \<Rightarrow> partition_ns \<Rightarrow> nat \<Rightarrow> legacy_run \<Rightarrow> go_error + partition list" where
  "partition_collection_with_parameters tooManyDups retriable rnd undef uuid ns partitionBytes r =
     rbind (lg_stats r) (\<lambda>st.
     rbind (partitions_wanted rnd undef partitionBytes r st) (\<lambda>numPartitions.
     if numPartitions + 1 < 1 then Inl (Panic ''makeslice: cap out of range'')
     else rbind (mid_bounds_attempts tooManyDups retriable (cs_docs st) numPartitions None (lg_attempts r)) (\<lambda>mid.
     Inr (bounds_partitions uuid ns (cs_capped st) ([min_key] @ mid @ [max_key])))))"

text \<open>A timeout under a filter is answered by partitioning without it.\<close>

definition partition_collection_with_size :: "(go_error \<Rightarrow> bool) \<Rightarrow> (go_error \<Rightarrow> bool) \<Rightarrow> (go_error \<Rightarrow> bool) \<Rightarrow> (rat \<Rightarrow> rat) \<Rightarrow> int
     \<Rightarrow> bytes \<Rightarrow> partition_ns \<Rightarrow> nat \<Rightarrow> bool \<Rightarrow> legacy_run \<Rightarrow> legacy_run \<Rightarrow> go_error + partition list" where
  "partition_collection_with_size isTimeout tooManyDups retriable rnd undef uuid ns partitionSize hasFilter r unfiltered =
     (if partitionSize = 0 then Inl (Panic ''partition size must be positive'')
      else case partition_collection_with_parameters tooManyDups retriable rnd undef uuid ns partitionSize r of
             Inl e \<Rightarrow> if isTimeout e \<and> hasFilter
               then partition_collection_with_parameters tooManyDups retriable rnd undef uuid ns partitionSize unfiltered
               else Inl e
           | Inr ps \<Rightarrow> Inr ps)"

definition zero_raw_value :: raw_value where "zero_raw_value = \<lparr>rv_type = 0, rv_value = []\<rparr>"

definition partition_and_inspect_namespace :: "(partition list \<Rightarrow> partition list) \<Rightarrow> bytes \<Rightarrow> partition_ns
     \<Rightarrow> go_error + partition list \<Rightarrow> go_error + partition list" where
  "partition_and_inspect_namespace shuffle uuid ns made =
     rbind made (\<lambda>ps. Inr (shuffle (if ps = []
       then [\<lparr>pt_SourceUUID = uuid, pt_Lower = zero_raw_value, pt_Ns = Some ns, pt_Upper = zero_raw_value,
              pt_IsCapped = False, pt_Natural = False, pt_HostnameAndPort = None\<rparr>]
       else ps)))"

section \<open>The cursor\<close>

record batch_cursor =
  bc_id :: u64
  bc_rawResp :: bytes

definition is_finished :: "batch_cursor \<Rightarrow> bool" where
  "is_finished c \<longleftrightarrow> bc_id c = 0"

definition get_resume_token :: "batch_cursor \<Rightarrow> go_error + bytes option" where
  "get_resume_token c = (case lookup_err (bc_rawResp c) [''cursor'', ''postBatchResumeToken''] of
     Inl e \<Rightarrow> if e = ElementNotFound then Inr None else Inl e
   | Inr v \<Rightarrow> rbind (cast_raw v) (\<lambda>t. Inr (Some t)))"

text \<open>\<open>as_int64\<close> reads a number of any BSON type, and is the driver's.\<close>

definition get_next :: "(raw_value \<Rightarrow> u64 option) \<Rightarrow> go_error + bytes \<Rightarrow> batch_cursor \<Rightarrow> go_error + batch_cursor" where
  "get_next as_int64 reply c =
     (if is_finished c then Inl (Panic ''internal error: cursor already finished!'')
      else rbind reply (\<lambda>raw.
           rbind (lookup_err raw [''cursor'', ''nextBatch'']) (\<lambda>nextBatch.
           if rv_array_ok nextBatch = None then Inl (Err ''nextBatch should be BSON array'')
           else rbind (lookup_err raw [''cursor'', ''id'']) (\<lambda>cursorID.
           (case as_int64 cursorID of
              None \<Rightarrow> Inl (Err ''cursor.id should be numeric'')
            | Some i \<Rightarrow> Inr \<lparr>bc_id = i, bc_rawResp = raw\<rparr>)))))"

section \<open>Natural order\<close>

definition RecordID :: string where "RecordID = ''$recordId''"

definition null_rv :: raw_value where "null_rv = \<lparr>rv_type = TypeNull, rv_value = []\<rparr>"

record natural_source =
  ns_DB :: string
  ns_Coll :: string
  ns_hostnameAndPort :: string

definition natural_partition :: "natural_source \<Rightarrow> raw_value \<Rightarrow> raw_value \<Rightarrow> partition" where
  "natural_partition src lower upper =
     \<lparr>pt_SourceUUID = [], pt_Lower = lower, pt_Ns = Some \<lparr>pn_DB = ns_DB src, pn_Coll = ns_Coll src\<rparr>,
      pt_Upper = upper, pt_IsCapped = False, pt_Natural = True, pt_HostnameAndPort = Some (ns_hostnameAndPort src)\<rparr>"

text \<open>The last document in natural order has a record id, when there is a document.\<close>

definition get_top_record_id :: "go_error + bytes list \<Rightarrow> go_error + raw_value option" where
  "get_top_record_id docs = rbind docs (\<lambda>ds. if ds = [] then Inr None
     else rbind (lookup_err (last ds) [RecordID]) (\<lambda>v. Inr (Some v)))"

definition create_single_natural_order_partition :: "natural_source \<Rightarrow> go_error + raw_value option
     \<Rightarrow> go_error + partition option" where
  "create_single_natural_order_partition src topRecordID =
     rbind topRecordID (\<lambda>topRec. Inr (map_option (natural_partition src null_rv) topRec))"

text \<open>
  What the goroutine sends: partitions, and an error at the end if there is one. \<open>replies\<close> are the
  server's to \<open>getMore\<close>; when they run out the goroutine waits. The channel's reader keeps reading.
\<close>

fun natural_loop :: "(raw_value \<Rightarrow> u64 option) \<Rightarrow> natural_source \<Rightarrow> raw_value \<Rightarrow> raw_value \<Rightarrow> batch_cursor
     \<Rightarrow> (go_error + bytes) list \<Rightarrow> (go_error + partition) list" where
  "natural_loop as_int64 src topRec priorToken c replies =
     (if is_finished c then []
      else case get_resume_token c of
             Inl e \<Rightarrow> [Inl e]
           | Inr None \<Rightarrow> []
           | Inr (Some curToken) \<Rightarrow>
               (case lookup_err curToken [RecordID] of
                  Inl e \<Rightarrow> [Inl e]
                | Inr recID \<Rightarrow>
                    Inr (natural_partition src priorToken (if rv_type recID = TypeNull then topRec else recID)) #
                    (case replies of
                       [] \<Rightarrow> []
                     | reply # replies' \<Rightarrow>
                         (case get_next as_int64 reply c of
                            Inl e \<Rightarrow> [Inl e]
                          | Inr c' \<Rightarrow> natural_loop as_int64 src topRec (document_value curToken) c' replies'))))"

declare natural_loop.simps [simp del]

text \<open>\<open>None\<close> is the nil channel of an empty collection.\<close>

definition partition_collection_natural_order :: "(raw_value \<Rightarrow> u64 option) \<Rightarrow> (byte \<Rightarrow> bool) \<Rightarrow> natural_source
     \<Rightarrow> go_error + raw_value option \<Rightarrow> go_error + coll_stats \<Rightarrow> go_error + batch_cursor \<Rightarrow> (go_error + bytes) list
     \<Rightarrow> go_error + (go_error + partition) list option" where
  "partition_collection_natural_order as_int64 comparable src topRecordID stats opened replies =
     (if take 15 (ns_Coll src) = ''system.buckets.'' then Inl (Panic ''timeseries buckets must be ID-partitioned'')
      else rbind topRecordID (\<lambda>topOpt.
        case topOpt of
          None \<Rightarrow> Inr None
        | Some topRec \<Rightarrow>
            rbind stats (\<lambda>_.
            rbind opened (\<lambda>c.
            rbind (get_resume_token c) (\<lambda>token.
            rbind (case token of
                     None \<Rightarrow> Inr ()
                   | Some t \<Rightarrow> rbind (lookup_err t [RecordID]) (\<lambda>recID.
                       if comparable (rv_type recID) then Inr () else Inl (Err ''uncomparable BSON type for record ID''))) (\<lambda>_.
            Inr (Some (natural_loop as_int64 src topRec null_rv c replies))))))))"

section \<open>Choosing a scheme\<close>

datatype scheme = SchemeID | SchemeNatural

record partition_config =
  pc_scheme :: scheme
  pc_srcIsDocumentDB :: bool
  pc_version :: "int list"
  pc_partitionBytes :: nat
  pc_rnd :: "rat \<Rightarrow> rat"
  pc_transient :: "go_error \<Rightarrow> bool"

text \<open>What the source answers to each of the ways.\<close>

record partition_answers =
  pa_shardKeyFields :: "go_error + string list"
  pa_walk :: "walk_attempt list"
  pa_sample :: "sample_attempt list"
  pa_legacy :: "go_error + partition list"
  pa_clusterInfo :: "go_error + cluster_info"
  pa_single :: "go_error + partition option"
  pa_natural :: "go_error + (go_error + partition) list option"

definition insert_next :: "partition_target \<Rightarrow> nat \<Rightarrow> partition \<Rightarrow> (task_db, go_error, nat) act" where
  "insert_next g n p = abind (insert_partition g None p) (\<lambda>_. areturn (Suc n))"

definition insert_all :: "partition_target \<Rightarrow> partition list \<Rightarrow> (task_db, go_error, nat) act" where
  "insert_all g ps = afold (insert_next g) 0 ps"

text \<open>An error on the channel ends the loop that reads it.\<close>

definition insert_received :: "partition_target \<Rightarrow> (go_error + partition) list \<Rightarrow> (task_db, go_error, nat) act" where
  "insert_received g rs = afold (\<lambda>n r. abind (alift r) (insert_next g n)) 0 rs"

definition partition_collection :: "partition_config \<Rightarrow> partition_answers \<Rightarrow> partition_target \<Rightarrow> int
     \<Rightarrow> coll_stats \<Rightarrow> task_db \<Rightarrow> ((go_error + nat) \<times> task_db) option" where
  "partition_collection cfg ans g generation st db =
     (if generation \<noteq> 0 then Some (Inl (Panic ''generation should be 0''), db)
      else case pa_shardKeyFields ans of
        Inl e \<Rightarrow> Some (Inl e, db)
      | Inr shardKeyFields \<Rightarrow>
          (let g = g\<lparr>pg_shardFields := shardKeyFields\<rparr>
           in if f64_le (divide_to_f64 (pc_rnd cfg) (cs_bytes st) (pc_partitionBytes cfg)) (Finite 1)
              then Some (abind (insert_partition g None (id_partition g (cs_capped st) min_key max_key)) (\<lambda>_. areturn 1) db)
              else case (if take 15 (pg_Coll g) = ''system.buckets.'' then SchemeID else pc_scheme cfg) of
                SchemeID \<Rightarrow>
                  (if pc_srcIsDocumentDB cfg
                   then create_partition_tasks_with_index_walk (pc_transient cfg) g (pc_rnd cfg) (pc_partitionBytes cfg) (pa_walk ans) db
                   else case version_at_least (pc_version cfg) [4, 4] of
                     Inl e \<Rightarrow> Some (Inl e, db)
                   | Inr True \<Rightarrow> create_partition_tasks_with_sample_rate (pc_transient cfg) g (pc_version cfg) (pc_rnd cfg)
                                 (pc_partitionBytes cfg) (pa_sample ans) db
                   | Inr False \<Rightarrow> Some (abind (alift (pa_legacy ans)) (insert_all (g\<lparr>pg_shardFields := []\<rparr>)) db))
              | SchemeNatural \<Rightarrow>
                  (if pc_srcIsDocumentDB cfg then Some (Inl (Err ''natural-order partitioning is not supported''), db)
                   else case pa_clusterInfo ans of
                     Inl e \<Rightarrow> Some (Inl e, db)
                   | Inr ci \<Rightarrow>
                       (if ci_Topology ci \<noteq> TopologyReplset
                        then Some (Inl (Err ''resumable natural scan requires a replica set''), db)
                        else case rbind (version_pair (pc_version cfg)) why_find_cannot_resume of
                          Inl e \<Rightarrow> Some (Inl e, db)
                        | Inr (Some why) \<Rightarrow> Some (abind (alift (pa_single ans)) (\<lambda>p. case p of
                              None \<Rightarrow> areturn 0
                            | Some p \<Rightarrow> abind (insert_partition g None p) (\<lambda>_. areturn 1)) db)
                        | Inr None \<Rightarrow>
                            (case pa_natural ans of
                               Inl e \<Rightarrow> Some (Inl e, db)
                             | Inr None \<Rightarrow> None
                             | Inr (Some rs) \<Rightarrow> Some (insert_received g rs db))))))"

section \<open>Bounds become consecutive partitions\<close>

lemma bounds_partitions_chain:
  "map pt_Lower (bounds_partitions uuid ns c (b # bs)) = butlast (b # bs)"
  "map pt_Upper (bounds_partitions uuid ns c (b # bs)) = bs"
  unfolding bounds_partitions_def by (induction bs arbitrary: b) auto

lemma mid_bounds_small:
  assumes "docs < sampleMinNumDocs \<or> n < 2" "as \<noteq> []"
  shows "mid_bounds_attempts d r docs n None as = Inr []"
  using assms by (cases as) (simp_all add: get_mid_id_bounds_def)

text \<open>The partitions of a source before 4.4 tile the range from MinKey to MaxKey, in order, and a capped
  collection has one.\<close>

theorem legacy_partitions_exact:
  assumes "partition_collection_with_parameters tooManyDups retriable rnd undef uuid ns bytes r = Inr ps"
  shows "\<exists>mid. map pt_Lower ps = min_key # mid \<and> map pt_Upper ps = mid @ [max_key]
     \<and> (\<forall>p \<in> set ps. pt_Ns p = Some ns \<and> pt_SourceUUID p = uuid \<and> \<not> pt_Natural p)
     \<and> (\<forall>st. lg_stats r = Inr st \<and> cs_capped st \<and> lg_attempts r \<noteq> [] \<longrightarrow> mid = [])"
proof -
  obtain st n mid where st: "lg_stats r = Inr st"
      and n: "partitions_wanted rnd undef bytes r st = Inr n"
      and mid: "mid_bounds_attempts tooManyDups retriable (cs_docs st) n None (lg_attempts r) = Inr mid"
      and ps: "ps = bounds_partitions uuid ns (cs_capped st) (min_key # mid @ [max_key])"
    using assms by (auto simp: partition_collection_with_parameters_def rbind_eq_Inr split: if_splits)
  have "mid = []" if "cs_capped st" "lg_attempts r \<noteq> []"
    using mid_bounds_small [OF _ that(2), of "cs_docs st" n tooManyDups retriable] mid n that(1)
    by (simp add: partitions_wanted_def)
  moreover have "\<forall>p \<in> set ps. pt_Ns p = Some ns \<and> pt_SourceUUID p = uuid \<and> \<not> pt_Natural p"
    unfolding ps bounds_partitions_def by auto
  ultimately show ?thesis
    using st ps bounds_partitions_chain [of uuid ns "cs_capped st" min_key "mid @ [max_key]"] by (auto simp: butlast_append)
qed

section \<open>The end of a natural scan\<close>

text \<open>
  The responses of a cursor: \<open>answers c replies cs\<close> when the replies parse to the cursors \<open>cs\<close> one
  after the other. The last one is finished.
\<close>

fun answers :: "(raw_value \<Rightarrow> u64 option) \<Rightarrow> batch_cursor \<Rightarrow> (go_error + bytes) list \<Rightarrow> batch_cursor list \<Rightarrow> bool" where
  "answers as_int64 c [] [] \<longleftrightarrow> True"
| "answers as_int64 c (r # rs) (c' # cs) \<longleftrightarrow> get_next as_int64 r c = Inr c' \<and> answers as_int64 c' rs cs"
| "answers as_int64 c _ _ \<longleftrightarrow> False"

definition open_at :: "batch_cursor \<Rightarrow> bytes \<Rightarrow> raw_value \<Rightarrow> bool" where
  "open_at c token recID \<longleftrightarrow> \<not> is_finished c \<and> get_resume_token c = Inr (Some token)
     \<and> lookup_err token [RecordID] = Inr recID \<and> rv_type recID \<noteq> TypeNull"

lemma natural_loop_partitions:
  assumes "answers as_int64 c replies (cs @ [final])" "is_finished final"
    and "list_all2 (\<lambda>c (t, r). open_at c t r) (c # cs) (tr # trs)"
  shows "natural_loop as_int64 src topRec prior c replies =
    map (\<lambda>(l, u). Inr (natural_partition src l u)) (zip (prior # map (document_value \<circ> fst) (tr # trs)) (map snd (tr # trs)))"
  using assms(1,3)
proof (induction cs arbitrary: c prior tr trs replies)
  case Nil
  then obtain reply where r: "replies = [reply]" "get_next as_int64 reply c = Inr final"
    by (cases replies rule: list.exhaust [case_names Nil Cons]; cases "tl replies") auto
  have "natural_loop as_int64 src topRec p final [] = []" for p
    using assms(2) by (simp add: natural_loop.simps)
  then show ?case
    using Nil r by (subst natural_loop.simps) (auto simp: open_at_def)
next
  case (Cons c' cs)
  then obtain reply replies' where r: "replies = reply # replies'" "get_next as_int64 reply c = Inr c'"
      "answers as_int64 c' replies' (cs @ [final])" by (cases replies) auto
  obtain tr' trs' where trs: "trs = tr' # trs'" "list_all2 (\<lambda>c (t, r). open_at c t r) (c' # cs) (tr' # trs')"
    using Cons.prems(2) by (cases trs) auto
  show ?case
    using Cons.prems(2) r(1,2) trs(1) Cons.IH [OF r(3) trs(2)]
    by (subst natural_loop.simps) (auto simp: open_at_def comp_def)
qed

text \<open>C35: The natural-order partitioner sends one partition for each response that leaves the cursor open,
  and none for the response that exhausts it. So when the record ids of the open responses do not reach the
  top record of the collection, no partition does, and the documents after the last of them are read by
  no task. The code's handling of a null record id shows that the last range is meant to be sent.\<close>

theorem natural_partitions_miss_last_range:
  assumes "answers as_int64 c replies (cs @ [final])" "is_finished final"
    and "list_all2 (\<lambda>c (t, r). open_at c t r) (c # cs) (tr # trs)"
    and "\<And>t r. (t, r) \<in> set (tr # trs) \<Longrightarrow> \<not> reaches r topRec"
    and "partition_collection_natural_order as_int64 comparable src (Inr (Some topRec)) (Inr st) (Inr c) replies = Inr (Some results)"
  shows "results = map (\<lambda>(l, u). Inr (natural_partition src l u))
      (zip (null_rv # map (document_value \<circ> fst) (tr # trs)) (map snd (tr # trs)))
    \<and> (\<forall>x \<in> set results. \<exists>p. x = Inr p \<and> \<not> reaches (pt_Upper p) topRec)"
proof -
  have "results = natural_loop as_int64 src topRec null_rv c replies"
    using assms(5) by (auto simp: partition_collection_natural_order_def rbind_eq_Inr split: if_splits)
  then have r: "results = map (\<lambda>(l, u). Inr (natural_partition src l u))
      (zip (null_rv # map (document_value \<circ> fst) (tr # trs)) (map snd (tr # trs)))"
    using natural_loop_partitions [OF assms(1-3)] by simp
  have "\<exists>p. x = Inr p \<and> \<not> reaches (pt_Upper p) topRec" if x: "x \<in> set results" for x
  proof -
    let ?ranges = "zip (null_rv # map (document_value \<circ> fst) (tr # trs)) (map snd (tr # trs))"
    obtain q where q: "q \<in> set ?ranges" "x = (case q of (l, u) \<Rightarrow> Inr (natural_partition src l u))"
      using x unfolding r set_map by (elim imageE) blast
    obtain l u where "q = (l, u)" by fastforce
    with q have lu: "x = Inr (natural_partition src l u)" "u \<in> set (map snd (tr # trs))"
      by (auto simp del: zip_Cons_Cons list.map dest: set_zip_rightD)
    then obtain z where "z \<in> set (tr # trs)" "u = snd z" unfolding set_map by (elim imageE)
    then have "\<not> reaches u topRec" using assms(4) [of "fst z" "snd z"] by simp
    then show ?thesis using lu(1) by (simp add: natural_partition_def)
  qed
  then show ?thesis using r by blast
qed

text \<open>A collection that has become empty when its natural scan starts gives a channel that is nil, and
  reading from it never returns.\<close>

theorem natural_scan_of_emptied_collection_blocks:
  assumes "pc_scheme cfg = SchemeNatural" "\<not> pc_srcIsDocumentDB cfg" "pc_version cfg = a # b # rest" "a > 4 \<or> a = 4 \<and> b \<ge> 4"
    and "pa_shardKeyFields ans = Inr shardFields" "pa_clusterInfo ans = Inr ci" "ci_Topology ci = TopologyReplset"
    and "\<not> f64_le (divide_to_f64 (pc_rnd cfg) (cs_bytes st) (pc_partitionBytes cfg)) (Finite 1)"
    and "take 15 (pg_Coll g) \<noteq> ''system.buckets.''" "ns_Coll src = pg_Coll g"
    and "pa_natural ans = partition_collection_natural_order as_int64 comparable src (Inr None) stats opened replies"
  shows "partition_collection cfg ans g 0 st db = None"
proof -
  have "rbind (version_pair (pc_version cfg)) why_find_cannot_resume = Inr None"
    using assms(3,4) by (simp add: version_pair_def why_find_cannot_resume_iff)
  moreover have "pa_natural ans = Inr None"
    using assms(9-11) by (simp add: partition_collection_natural_order_def)
  ultimately show ?thesis using assms(1,2,5-9) by (simp add: partition_collection_def Let_def)
qed

lemma insert_next_task:
  assumes "insert_next g n p db = (Inr n', db')"
  shows "\<exists>t. db' = db @ [t] \<and> qf_ShardKeys (tk_QueryFilter t) = pg_shardFields g"
  using assms
  by (auto simp: insert_next_def abind_eq_Inr insert_partition_def insert_partition_verification_task_def partition_task_def
      insert_one_def aupdate_eq_Inr rbind_eq_Inr zero_task_def split: if_splits)

lemma insert_all_tasks:
  assumes "insert_all g ps db = (Inr n, db')"
  shows "\<exists>ts. db' = db @ ts \<and> length ts = length ps \<and> (\<forall>t \<in> set ts. qf_ShardKeys (tk_QueryFilter t) = pg_shardFields g)"
proof -
  have "\<exists>ts. db' = db @ ts \<and> length ts = length ps \<and> (\<forall>t \<in> set ts. qf_ShardKeys (tk_QueryFilter t) = pg_shardFields g)"
    if "afold (insert_next g) m ps db = (Inr n, db')" for m db
    using that
  proof (induction ps arbitrary: m db)
    case (Cons p ps)
    then obtain m1 db1 where 1: "insert_next g m p db = (Inr m1, db1)" "afold (insert_next g) m1 ps db1 = (Inr n, db')"
      by (auto simp: abind_eq_Inr)
    obtain t where t: "db1 = db @ [t]" "qf_ShardKeys (tk_QueryFilter t) = pg_shardFields g"
      using insert_next_task [OF 1(1)] by blast
    obtain ts where "db' = db1 @ ts" "length ts = length ps" "\<forall>t \<in> set ts. qf_ShardKeys (tk_QueryFilter t) = pg_shardFields g"
      using Cons.IH [OF 1(2)] by blast
    then show ?case using t by (intro exI [of _ "t # ts"]) simp
  qed simp
  then show ?thesis using assms by (simp add: insert_all_def)
qed

text \<open>The tasks of a source before 4.4 are inserted with the empty list of shard keys, whatever the shard
  keys of the collection.\<close>

theorem legacy_tasks_lack_shard_keys:
  assumes "pc_scheme cfg = SchemeID" "\<not> pc_srcIsDocumentDB cfg" "version_at_least (pc_version cfg) [4, 4] = Inr False"
    and "pa_shardKeyFields ans = Inr shardFields" "pa_legacy ans = Inr ps"
    and "\<not> f64_le (divide_to_f64 (pc_rnd cfg) (cs_bytes st) (pc_partitionBytes cfg)) (Finite 1)"
    and "partition_collection cfg ans g 0 st db = Some (Inr n, db')"
  shows "\<exists>ts. db' = db @ ts \<and> length ts = length ps \<and> (\<forall>t \<in> set ts. qf_ShardKeys (tk_QueryFilter t) = [])"
proof -
  have "(if take 15 (pg_Coll g) = ''system.buckets.'' then SchemeID else pc_scheme cfg) = SchemeID"
    using assms(1) by simp
  then have "partition_collection cfg ans g 0 st db = Some (insert_all (g\<lparr>pg_shardFields := []\<rparr>) ps db)"
    using assms(2-6) by (simp add: partition_collection_def Let_def del: if_cancel)
  then show ?thesis using assms(7) insert_all_tasks [of "g\<lparr>pg_shardFields := []\<rparr>" ps db n db'] by simp
qed

section \<open>A natural scan of two responses\<close>

definition read_int64 :: "raw_value \<Rightarrow> u64 option" where
  "read_int64 v = (case cast_int64 v of Inr i \<Rightarrow> Some i | Inl _ \<Rightarrow> None)"

definition record_token :: bytes where
  "record_token = enc_doc [(''$recordId'', int64_value 4)]"

definition cursor_reply :: "u64 \<Rightarrow> bytes" where
  "cursor_reply i = enc_doc [(''cursor'', document_value (enc_doc [(''nextBatch'', array_value (enc_doc [])),
     (''postBatchResumeToken'', document_value record_token), (''id'', int64_value i)]))]"

definition opened_cursor :: batch_cursor where
  "opened_cursor = \<lparr>bc_id = 7, bc_rawResp = cursor_reply 7\<rparr>"

definition finished_cursor :: batch_cursor where
  "finished_cursor = \<lparr>bc_id = 0, bc_rawResp = cursor_reply 0\<rparr>"

definition natural_src :: natural_source where
  "natural_src = \<lparr>ns_DB = ''db'', ns_Coll = ''c'', ns_hostnameAndPort = ''h:1''\<rparr>"

lemma sample_scan:
  "get_next read_int64 (Inr (cursor_reply 0)) opened_cursor = Inr finished_cursor"
  "is_finished finished_cursor"
  "open_at opened_cursor record_token (int64_value 4)"
  by code_simp+

theorem natural_partitions_miss_last_range_witness:
  "\<exists>results. partition_collection_natural_order read_int64 (\<lambda>_. True) natural_src (Inr (Some (int64_value 9)))
      (Inr \<lparr>cs_bytes = 900, cs_docs = 9, cs_capped = False\<rparr>) (Inr opened_cursor) [Inr (cursor_reply 0)] = Inr (Some results)
    \<and> results = [Inr (natural_partition natural_src null_rv (int64_value 4))]
    \<and> (\<forall>x \<in> set results. \<exists>p. x = Inr p \<and> pt_Upper p \<noteq> int64_value 9)"
proof -
  have ne: "int64_value 9 \<noteq> int64_value 4" by code_simp
  have token: "get_resume_token opened_cursor = Inr (Some record_token)" "lookup_err record_token [RecordID] = Inr (int64_value 4)"
    using sample_scan(3) by (simp_all add: open_at_def)
  have "\<exists>results. partition_collection_natural_order read_int64 (\<lambda>_. True) natural_src (Inr (Some (int64_value 9)))
      (Inr \<lparr>cs_bytes = 900, cs_docs = 9, cs_capped = False\<rparr>) (Inr opened_cursor) [Inr (cursor_reply 0)] = Inr (Some results)"
    using token by (simp add: partition_collection_natural_order_def natural_src_def)
  then obtain results where r: "partition_collection_natural_order read_int64 (\<lambda>_. True) natural_src (Inr (Some (int64_value 9)))
      (Inr \<lparr>cs_bytes = 900, cs_docs = 9, cs_capped = False\<rparr>) (Inr opened_cursor) [Inr (cursor_reply 0)] = Inr (Some results)" ..
  have "results = [Inr (natural_partition natural_src null_rv (int64_value 4))]
      \<and> (\<forall>x \<in> set results. \<exists>p. x = Inr p \<and> pt_Upper p \<noteq> int64_value 9)"
    using natural_partitions_miss_last_range [OF _ _ _ _ r, where reaches = "(=)" and cs = "[]" and final = finished_cursor
        and tr = "(record_token, int64_value 4)" and trs = "[]"] sample_scan ne
    by (simp add: natural_partition_def)
  with r show ?thesis by blast
qed

end
