(* ===== verification/DocumentDB.thy ===== *)
theory DocumentDB
  imports Id_Bounds Events Compare_Result Server_Features
begin

text \<open>
  What is special about a DocumentDB source (\<open>internal/verifier/documentdb.go\<close>,
  \<open>documentdb_id_range.go\<close>): the check that its change streams cover what is verified, the
  normalised collection options and index specifications, and when plain range predicates may replace
  \<open>$expr\<close>. What the source answers is a parameter.
\<close>

section \<open>Enabled change streams\<close>

record change_stream_scope =
  sc_Database :: string
  sc_Collection :: string

definition scope_string :: "change_stream_scope \<Rightarrow> string" where
  "scope_string s = (if sc_Database s = [] then ''<all databases>''
     else if sc_Collection s = [] then sc_Database s @ ''.<all collections>''
     else sc_Database s @ ''.'' @ sc_Collection s)"

definition covers :: "change_stream_scope \<Rightarrow> string \<Rightarrow> string \<Rightarrow> bool" where
  "covers s db coll = (if sc_Database s = [] then True
     else if sc_Database s \<noteq> db then False
     else sc_Collection s = [] \<or> sc_Collection s = coll)"

definition is_cluster_wide :: "change_stream_scope \<Rightarrow> bool" where
  "is_cluster_wide s \<longleftrightarrow> sc_Database s = [] \<and> sc_Collection s = []"

definition any_scope_is_cluster_wide :: "change_stream_scope list \<Rightarrow> bool" where
  "any_scope_is_cluster_wide scopes = list_ex is_cluster_wide scopes"

definition find_uncovered_namespaces :: "change_stream_scope list \<Rightarrow> string list \<Rightarrow> string list" where
  "find_uncovered_namespaces scopes namespaces =
     filter (\<lambda>ns. case split_namespace ns of (db, coll) \<Rightarrow> \<not> list_ex (\<lambda>s. covers s db coll) scopes) namespaces"

fun join_strings :: "string \<Rightarrow> string list \<Rightarrow> string" where
  "join_strings sep [] = []"
| "join_strings sep [s] = s"
| "join_strings sep (s # ss) = s @ sep @ join_strings sep ss"

definition describe_scopes :: "change_stream_scope list \<Rightarrow> string" where
  "describe_scopes scopes =
     (if scopes = [] then ''nothing'' else join_strings '', '' (map scope_string scopes))"

text \<open>The texts of the errors are shortened to what depends on the scopes.\<close>

definition check_documentdb_change_streams_enabled :: "go_error + change_stream_scope list \<Rightarrow> string list \<Rightarrow> go_error + unit" where
  "check_documentdb_change_streams_enabled listed namespaces =
     rbind listed (\<lambda>scopes.
       if namespaces = []
       then if any_scope_is_cluster_wide scopes then Inr ()
            else Inl (Err (''not cluster-wide: '' @ describe_scopes scopes))
       else let uncovered = find_uncovered_namespaces scopes namespaces
            in if uncovered \<noteq> []
               then Inl (Err (join_strings '', '' uncovered @ '' not in '' @ describe_scopes scopes))
               else Inr ())"

definition check_documentdb_read_preference :: "string \<Rightarrow> go_error + unit" where
  "check_documentdb_read_preference mode =
     (if mode = ''primary'' \<or> mode = ''primaryPreferred'' then Inr ()
      else Inl (Err ''read preference is not supported''))"

text \<open>The cluster's information is absent before the source is known.\<close>

definition src_is_documentdb :: "cluster_info option \<Rightarrow> bool" where
  "src_is_documentdb info = (case info of None \<Rightarrow> False | Some ci \<Rightarrow> is_documentdb (ci_Flavor ci))"

definition run_documentdb_source_preflight :: "cluster_info option \<Rightarrow> go_error + change_stream_scope list \<Rightarrow> string list
     \<Rightarrow> go_error + unit" where
  "run_documentdb_source_preflight info listed srcNamespaces =
     (if info = None \<or> \<not> src_is_documentdb info then Inr ()
      else check_documentdb_change_streams_enabled listed srcNamespaces)"

text \<open>Whether the sessions of a cluster are causally consistent.\<close>

definition session_causal_consistency :: "flavor \<Rightarrow> bool" where
  "session_causal_consistency fl = (if is_documentdb fl then False else True)"

text \<open>What the preflight promises: a change stream on the verified namespaces misses nothing.\<close>

definition watched :: "string list \<Rightarrow> string \<Rightarrow> bool" where
  "watched namespaces ns \<longleftrightarrow> namespaces = [] \<or> ns \<in> set namespaces"

lemma uncovered_empty_iff:
  "find_uncovered_namespaces scopes namespaces = [] \<longleftrightarrow>
     (\<forall>ns \<in> set namespaces. \<exists>s \<in> set scopes. covers s (fst (split_namespace ns)) (snd (split_namespace ns)))"
  by (auto simp: find_uncovered_namespaces_def filter_empty_conv list_ex_iff split_beta)

text \<open>C32: When the preflight lets a DocumentDB source pass, every namespace the verifier watches has its
  change streams enabled, also, when everything is verified, a namespace that does not exist yet; and it
  rejects a list of namespaces only when one of them is not covered.\<close>

theorem preflight_covers:
  assumes "src_is_documentdb info"
  shows "(run_documentdb_source_preflight info (Inr scopes) namespaces = Inr () \<longrightarrow> (\<forall>ns. watched namespaces ns \<longrightarrow>
        (\<exists>s \<in> set scopes. covers s (fst (split_namespace ns)) (snd (split_namespace ns)))))
    \<and> (run_documentdb_source_preflight info (Inr scopes) namespaces \<noteq> Inr () \<longrightarrow> namespaces \<noteq> [] \<longrightarrow>
        (\<exists>ns \<in> set namespaces. \<forall>s \<in> set scopes. \<not> covers s (fst (split_namespace ns)) (snd (split_namespace ns))))"
proof -
  have r: "run_documentdb_source_preflight info (Inr scopes) namespaces = check_documentdb_change_streams_enabled (Inr scopes) namespaces"
    using assms by (auto simp: run_documentdb_source_preflight_def src_is_documentdb_def)
  show ?thesis
  proof (cases "namespaces = []")
    case True
    then show ?thesis
      unfolding r by (auto simp: check_documentdb_change_streams_enabled_def any_scope_is_cluster_wide_def
          list_ex_iff is_cluster_wide_def covers_def)
  next
    case False
    then show ?thesis
      using uncovered_empty_iff [of scopes namespaces]
      unfolding r by (auto simp: check_documentdb_change_streams_enabled_def watched_def Let_def)
  qed
qed

theorem preflight_covers_witness:
  "run_documentdb_source_preflight (Some \<lparr>ci_VersionArray = [5], ci_Topology = TopologyReplset, ci_Flavor = FlavorDocumentDB\<rparr>)
     (Inr [\<lparr>sc_Database = ''a'', sc_Collection = []\<rparr>]) [''a.b'', ''a.c''] = Inr ()
   \<and> (\<exists>s \<in> set [\<lparr>sc_Database = ''a'', sc_Collection = []\<rparr>]. covers s ''a'' ''c'')"
proof -
  let ?info = "Some \<lparr>ci_VersionArray = [5], ci_Topology = TopologyReplset, ci_Flavor = FlavorDocumentDB\<rparr>"
  let ?scopes = "[\<lparr>sc_Database = ''a'', sc_Collection = []\<rparr>]"
  have ok: "run_documentdb_source_preflight ?info (Inr ?scopes) [''a.b'', ''a.c''] = Inr ()"
    by (simp add: run_documentdb_source_preflight_def src_is_documentdb_def is_documentdb_def
        check_documentdb_change_streams_enabled_def find_uncovered_namespaces_def covers_def)
  then have "\<exists>s \<in> set ?scopes. covers s (fst (split_namespace ''a.c'')) (snd (split_namespace ''a.c''))"
    using preflight_covers [of ?info ?scopes "[''a.b'', ''a.c'']", THEN conjunct1]
    by (simp add: src_is_documentdb_def is_documentdb_def watched_def)
  with ok show ?thesis by simp
qed

section \<open>Normalised options and index specifications\<close>

text \<open>\<open>BooleanOK\<close>, and \<open>Lookup\<close>, which gives the zero value for a missing field.\<close>

definition boolean_ok :: "raw_value \<Rightarrow> bool option" where
  "boolean_ok v = (case cast_bool v of Inr b \<Rightarrow> Some b | Inl _ \<Rightarrow> None)"

definition docdb_incomparable_collection_options :: "string list" where
  "docdb_incomparable_collection_options = [''storageEngine'', ''autoIndexId'']"

definition keep_option :: "(string \<times> raw_value) list \<Rightarrow> bytes \<Rightarrow> go_error + (string \<times> raw_value) list" where
  "keep_option kept el =
     (let key = elem_key el
      in if key \<in> set docdb_incomparable_collection_options then Inr kept
         else rbind (elem_value el) (\<lambda>v.
                if key = ''capped'' \<and> boolean_ok v = Some False then Inr kept
                else Inr (kept @ [(key, v)])))"

definition normalize_collection_options_for_documentdb :: "bytes \<Rightarrow> go_error + bytes" where
  "normalize_collection_options_for_documentdb opts =
     (if opts = [] then Inr opts
      else rbind (doc_elements opts) (\<lambda>elems. rbind (rfold keep_option [] elems) (\<lambda>kept. Inr (enc_doc kept))))"

definition is_capped_option :: "bytes \<Rightarrow> go_error + bool" where
  "is_capped_option opts = rbind (raw_lookup_zero opts ''capped'') (\<lambda>v. Inr (boolean_ok v = Some True))"

definition docdb_incomparable_index_fields :: "string list" where
  "docdb_incomparable_index_fields = [''ns'', ''2dsphereIndexVersion'']"

definition docdb_normalized_index_version :: raw_value where
  "docdb_normalized_index_version = int32_value 2"

definition keep_index_field :: "(string \<times> raw_value) list \<Rightarrow> bytes \<Rightarrow> go_error + (string \<times> raw_value) list" where
  "keep_index_field kept el =
     (let key = elem_key el
      in if key \<in> set docdb_incomparable_index_fields then Inr kept
         else if key = ''v'' then Inr (kept @ [(key, docdb_normalized_index_version)])
         else rbind (elem_value el) (\<lambda>v. Inr (kept @ [(key, v)])))"

definition normalize_index_spec_for_documentdb :: "bytes \<Rightarrow> go_error + bytes" where
  "normalize_index_spec_for_documentdb spec =
     (if spec = [] then Inr spec
      else rbind (doc_elements spec) (\<lambda>elems. rbind (rfold keep_index_field [] elems) (\<lambda>kept. Inr (enc_doc kept))))"

text \<open>The map of specifications in the order of its iteration; the first error ends it.\<close>

fun normalize_index_specs_for_documentdb :: "(string \<times> bytes) list \<Rightarrow> go_error + (string \<times> bytes) list" where
  "normalize_index_specs_for_documentdb [] = Inr []"
| "normalize_index_specs_for_documentdb ((name, spec) # specs) =
     rbind (normalize_index_spec_for_documentdb spec) (\<lambda>normalized.
     rbind (normalize_index_specs_for_documentdb specs) (\<lambda>rest. Inr ((name, normalized) # rest)))"

text \<open>What is left of the options, and of a specification.\<close>

definition kept_options :: "(string \<times> raw_value) list \<Rightarrow> (string \<times> raw_value) list" where
  "kept_options kvs = filter (\<lambda>(k, v). k \<notin> set docdb_incomparable_collection_options
     \<and> \<not> (k = ''capped'' \<and> boolean_ok v = Some False)) kvs"

definition kept_index_fields :: "(string \<times> raw_value) list \<Rightarrow> (string \<times> raw_value) list" where
  "kept_index_fields kvs = map (\<lambda>(k, v). if k = ''v'' then (k, docdb_normalized_index_version) else (k, v))
     (filter (\<lambda>(k, v). k \<notin> set docdb_incomparable_index_fields) kvs)"

lemma keep_option_fold:
  "list_all wf_kv kvs \<Longrightarrow> rfold keep_option acc (map (\<lambda>(k, v). enc_elem k v) kvs) = Inr (acc @ kept_options kvs)"
  by (induction kvs arbitrary: acc) (auto simp: keep_option_def kept_options_def wf_kv_def Let_def)

lemma keep_index_field_fold:
  "list_all wf_kv kvs \<Longrightarrow> rfold keep_index_field acc (map (\<lambda>(k, v). enc_elem k v) kvs) = Inr (acc @ kept_index_fields kvs)"
  by (induction kvs arbitrary: acc)
    (auto simp: keep_index_field_def kept_index_fields_def docdb_incomparable_index_fields_def wf_kv_def Let_def)

lemma enc_doc_not_Nil [simp]: "enc_doc kvs \<noteq> []"
  using length_enc_doc [of kvs] by auto

lemma normalize_options_enc:
  "list_all wf_kv kvs \<Longrightarrow> small kvs \<Longrightarrow>
     normalize_collection_options_for_documentdb (enc_doc kvs) = Inr (enc_doc (kept_options kvs))"
  by (simp add: normalize_collection_options_for_documentdb_def doc_elements_enc_doc keep_option_fold)

lemma normalize_index_enc:
  "list_all wf_kv kvs \<Longrightarrow> small kvs \<Longrightarrow>
     normalize_index_spec_for_documentdb (enc_doc kvs) = Inr (enc_doc (kept_index_fields kvs))"
  by (simp add: normalize_index_spec_for_documentdb_def doc_elements_enc_doc keep_index_field_fold)

lemma is_capped_enc:
  "list_all wf_kv kvs \<Longrightarrow> small kvs \<Longrightarrow>
     is_capped_option (enc_doc kvs) = Inr (map_option boolean_ok (map_of kvs ''capped'') = Some (Some True))"
  by (auto simp: is_capped_option_def raw_lookup_zero_def lookup_enc_doc boolean_ok_def rv_zero_def cast_bool_def
      split: option.splits sum.splits)

section \<open>When plain range predicates are exact\<close>

record id_type_extremes =
  ie_lowest :: byte
  ie_highest :: byte

definition id_range_filter_is_exact :: "raw_value \<Rightarrow> raw_value \<Rightarrow> go_error + id_type_extremes option \<Rightarrow> go_error + bool" where
  "id_range_filter_is_exact lower upper getExtremes =
     (if rv_type lower = 0 \<or> rv_type upper = 0 then Inr False
      else let lowerOpen = (rv_type lower = TypeMinKey); upperOpen = (rv_type upper = TypeMaxKey)
           in if lowerOpen \<and> upperOpen then Inr True
              else if \<not> lowerOpen \<and> \<not> upperOpen then Inr (same_sort_bracket (rv_type lower) (rv_type upper))
              else rbind getExtremes (\<lambda>extremesOpt. case extremesOpt of
                     None \<Rightarrow> Inr False
                   | Some ex \<Rightarrow> Inr (if lowerOpen then same_sort_bracket (ie_lowest ex) (rv_type upper)
                                   else same_sort_bracket (ie_highest ex) (rv_type lower))))"

text \<open>The first document in the order of the query is the parameter.\<close>

definition find_extreme_id_type :: "go_error + bytes \<Rightarrow> go_error + byte option" where
  "find_extreme_id_type found = (case found of
       Inl e \<Rightarrow> if e = NoDocuments then Inr None else Inl e
     | Inr raw \<Rightarrow> rbind (lookup_err raw [''_id'']) (\<lambda>v. Inr (Some (rv_type v))))"

definition get_id_type_extremes :: "go_error + bytes \<Rightarrow> go_error + bytes \<Rightarrow> go_error + id_type_extremes option" where
  "get_id_type_extremes first_doc last_doc =
     rbind (find_extreme_id_type first_doc) (\<lambda>lowestOpt.
     rbind (find_extreme_id_type last_doc) (\<lambda>highestOpt.
       Inr (case (lowestOpt, highestOpt) of
              (Some l, Some h) \<Rightarrow> Some \<lparr>ie_lowest = l, ie_highest = h\<rparr>
            | _ \<Rightarrow> None)))"

definition can_use_id_range_filter :: "cluster_info option \<Rightarrow> partition option \<Rightarrow> go_error + bytes \<Rightarrow> go_error + bytes
     \<Rightarrow> go_error + bool" where
  "can_use_id_range_filter clusterInfo p first_doc last_doc =
     (if \<not> src_is_documentdb clusterInfo then Inr False
      else case p of
             None \<Rightarrow> Inr False
           | Some p \<Rightarrow> if pt_IsCapped p \<or> pt_Natural p then Inr False
               else id_range_filter_is_exact (pt_Lower p) (pt_Upper p) (get_id_type_extremes first_doc last_doc))"

text \<open>The documents of the collection, by their ids, and the server's answers to the two queries.\<close>

definition finds_extremes :: "(raw_value \<Rightarrow> raw_value \<Rightarrow> bool) \<Rightarrow> raw_value set \<Rightarrow> go_error + bytes \<Rightarrow> go_error + bytes \<Rightarrow> bool" where
  "finds_extremes le ids first_doc last_doc \<longleftrightarrow>
     (\<forall>raw. first_doc = Inr raw \<longrightarrow> (\<exists>x \<in> ids. lookup_err raw [''_id''] = Inr x \<and> (\<forall>y \<in> ids. le x y)))
     \<and> (\<forall>raw. last_doc = Inr raw \<longrightarrow> (\<exists>x \<in> ids. lookup_err raw [''_id''] = Inr x \<and> (\<forall>y \<in> ids. le y x)))"

lemma extreme_type_Inr:
  "find_extreme_id_type found = Inr (Some t) \<Longrightarrow> \<exists>raw v. found = Inr raw \<and> lookup_err raw [''_id''] = Inr v \<and> rv_type v = t"
  by (auto simp: find_extreme_id_type_def rbind_eq_Inr split: sum.splits if_splits)

lemma extremes_ids:
  assumes "finds_extremes le ids f l" "get_id_type_extremes f l = Inr (Some ex)"
  obtains lo hi where "lo \<in> ids" "rv_type lo = ie_lowest ex" "\<And>y. y \<in> ids \<Longrightarrow> le lo y"
    "hi \<in> ids" "rv_type hi = ie_highest ex" "\<And>y. y \<in> ids \<Longrightarrow> le y hi"
proof -
  obtain a b where ab: "find_extreme_id_type f = Inr (Some a)" "find_extreme_id_type l = Inr (Some b)"
      "ex = \<lparr>ie_lowest = a, ie_highest = b\<rparr>"
    using assms(2) by (auto simp: get_id_type_extremes_def rbind_eq_Inr split: option.splits)
  obtain raw v where v: "f = Inr raw" "lookup_err raw [''_id''] = Inr v" "rv_type v = a"
    using extreme_type_Inr [OF ab(1)] by blast
  obtain raw' v' where v': "l = Inr raw'" "lookup_err raw' [''_id''] = Inr v'" "rv_type v' = b"
    using extreme_type_Inr [OF ab(2)] by blast
  have "v \<in> ids \<and> (\<forall>y \<in> ids. le v y)" "v' \<in> ids \<and> (\<forall>y \<in> ids. le y v')"
    using assms(1) v v' unfolding finds_extremes_def by (metis sum.inject(2))+
  then show ?thesis using that [of v v'] v(3) v'(3) ab(3) by simp
qed

lemma open_bounds:
  assumes "id_order le" "valid_id x"
  shows "le min_key x" "le x max_key"
proof -
  have v: "valid_id min_key" "valid_id max_key" by (simp_all add: valid_id_def min_key_def max_key_def min_max_rank)
  have r: "type_rank TypeMinKey \<le> type_rank (rv_type x)" "type_rank (rv_type x) \<le> type_rank TypeMaxKey"
    using rank_bounds [of "rv_type x"] assms(2) by (auto simp: valid_id_def)
  have refl: "le y y" for y using assms(1) by (auto simp: id_order_def)
  show "le min_key x"
  proof (cases "rv_type x = TypeMinKey")
    case True
    then have "x = min_key" using assms(2) by (cases x) (simp add: valid_id_def min_key_def)
    then show ?thesis by (simp add: refl)
  next
    case False
    then have "type_rank TypeMinKey < type_rank (rv_type x)"
      using r(1) rank_bounds(1) [of "rv_type x"] assms(2) by (auto simp: valid_id_def)
    then show ?thesis using id_order_rank(1) [OF assms(1) v(1) assms(2)] by (simp add: min_key_def)
  qed
  show "le x max_key"
  proof (cases "rv_type x = TypeMaxKey")
    case True
    then have "x = max_key" using assms(2) by (cases x) (simp add: valid_id_def max_key_def)
    then show ?thesis by (simp add: refl)
  next
    case False
    then have "type_rank (rv_type x) < type_rank TypeMaxKey"
      using r(2) rank_bounds(3) [of "rv_type x"] assms(2) by (auto simp: valid_id_def)
    then show ?thesis using id_order_rank(1) [OF assms(1) assms(2) v(2)] by (simp add: max_key_def)
  qed
qed

lemma min_max_ids: "valid_id x \<Longrightarrow> rv_type x = TypeMinKey \<Longrightarrow> x = min_key"
  "valid_id x \<Longrightarrow> rv_type x = TypeMaxKey \<Longrightarrow> x = max_key"
  by (cases x; simp add: valid_id_def min_key_def max_key_def)+

text \<open>Where the verifier replaces the \<open>$expr\<close> predicates of a partition of a DocumentDB collection by
  plain range predicates, both select the same documents, although the plain ones only match ids of
  the bound's sort bracket.\<close>

theorem id_range_filter_exact:
  assumes "id_order le" "\<And>y. y \<in> ids \<Longrightarrow> valid_id y" "valid_id (pt_Lower p)" "valid_id (pt_Upper p)"
    and "finds_extremes le ids first_doc last_doc" "can_use_id_range_filter info (Some p) first_doc last_doc = Inr True" "x \<in> ids"
    and "get_expr_predicates (pt_Lower p) (pt_Upper p) = Inr exprs"
  shows "all_select le user (range_id_predicates (pt_Lower p) (pt_Upper p)) x \<longleftrightarrow> all_select le user exprs x"
proof -
  let ?l = "pt_Lower p" and ?u = "pt_Upper p"
  have x: "valid_id x" using assms(2,7) by blast
  have ok: "id_range_filter_is_exact ?l ?u (get_id_type_extremes first_doc last_doc) = Inr True"
    using assms(6) by (simp add: can_use_id_range_filter_def split: if_splits)
  have e: "all_select le user exprs x \<longleftrightarrow> le ?l x \<and> le x ?u"
    using assms(8) by (auto simp: get_expr_predicates_def all_select_def)
  have bracket: "same_sort_bracket (rv_type a) (rv_type b) \<longleftrightarrow> type_rank (rv_type a) = type_rank (rv_type b)"
    if "valid_id a" "valid_id b" for a b using that by (simp add: same_bracket_iff_rank valid_id_def)
  note rank = id_order_rank(2) [OF assms(1)]
  consider (both) "rv_type ?l = TypeMinKey" "rv_type ?u = TypeMaxKey"
    | (none) "rv_type ?l \<noteq> TypeMinKey" "rv_type ?u \<noteq> TypeMaxKey" "same_sort_bracket (rv_type ?l) (rv_type ?u)"
    | (lower) ex where "rv_type ?l = TypeMinKey" "rv_type ?u \<noteq> TypeMaxKey" "get_id_type_extremes first_doc last_doc = Inr (Some ex)"
        "same_sort_bracket (ie_lowest ex) (rv_type ?u)"
    | (upper) ex where "rv_type ?l \<noteq> TypeMinKey" "rv_type ?u = TypeMaxKey" "get_id_type_extremes first_doc last_doc = Inr (Some ex)"
        "same_sort_bracket (ie_highest ex) (rv_type ?l)"
    using ok by (auto simp: id_range_filter_is_exact_def Let_def rbind_eq_Inr split: if_splits option.splits)
  then show ?thesis
  proof cases
    case both
    then show ?thesis
      using e open_bounds [OF assms(1) x] min_max_ids(1) [OF assms(3)] min_max_ids(2) [OF assms(4)]
      by (simp add: range_id_predicates_def all_select_def)
  next
    case none
    then show ?thesis using range_id_predicates_exact [OF assms(1,3,4) x] e by simp
  next
    case lower
    obtain lo where lo: "lo \<in> ids" "rv_type lo = ie_lowest ex" "\<And>y. y \<in> ids \<Longrightarrow> le lo y"
      using extremes_ids [OF assms(5) lower(3)] by metis
    have "type_rank (rv_type lo) = type_rank (rv_type ?u)" using lower(4) lo bracket assms(2,4) by metis
    then have "le x ?u \<Longrightarrow> type_rank (rv_type x) = type_rank (rv_type ?u)"
      using rank [OF x assms(4)] rank [OF assms(2) [OF lo(1)] x] lo(3) [OF assms(7)] by linarith
    then show ?thesis
      using lower e open_bounds(1) [OF assms(1) x] min_max_ids(1) [OF assms(3)] bracket [OF assms(4) x]
      by (auto simp: range_id_predicates_def all_select_def)
  next
    case upper
    obtain hi where hi: "hi \<in> ids" "rv_type hi = ie_highest ex" "\<And>y. y \<in> ids \<Longrightarrow> le y hi"
      using extremes_ids [OF assms(5) upper(3)] by metis
    have "type_rank (rv_type hi) = type_rank (rv_type ?l)" using upper(4) hi bracket assms(2,3) by metis
    then have "le ?l x \<Longrightarrow> type_rank (rv_type x) = type_rank (rv_type ?l)"
      using rank [OF assms(3) x] rank [OF x assms(2) [OF hi(1)]] hi(3) [OF assms(7)] by linarith
    then show ?thesis
      using upper e open_bounds(2) [OF assms(1) x] min_max_ids(2) [OF assms(4)] bracket [OF assms(3) x]
      by (auto simp: range_id_predicates_def all_select_def)
  qed
qed

theorem id_range_filter_exact_witness:
  "all_select rank_order (\<lambda>_. True) (range_id_predicates min_key (int32_value 9)) (int32_value 7)
   \<longleftrightarrow> all_select rank_order (\<lambda>_. True) [ExprGte min_key, ExprLte (int32_value 9)] (int32_value 7)"
proof -
  let ?p = "\<lparr>pt_SourceUUID = [], pt_Lower = min_key, pt_Ns = None, pt_Upper = int32_value 9, pt_IsCapped = False,
    pt_Natural = False, pt_HostnameAndPort = None\<rparr>"
  let ?doc = "Inr (enc_doc [(''_id'', int32_value 7)]) :: go_error + bytes"
  let ?info = "Some \<lparr>ci_VersionArray = [5], ci_Topology = TopologyReplset, ci_Flavor = FlavorDocumentDB\<rparr>"
  have valid: "valid_id (int32_value i)" "valid_id min_key" for i
    by (simp_all add: valid_id_def int32_value_def min_key_def type_tables)
  have id: "lookup_err (enc_doc [(''_id'', int32_value 7)]) [''_id''] = Inr (int32_value 7)"
    by (simp add: lookup_enc_doc wf_kv_def valid_cstring_def small_def)
  have "rank_order (int32_value 7) (int32_value 7)" using id_order_rank_order by (auto simp: id_order_def)
  then have "finds_extremes rank_order {int32_value 7} ?doc ?doc" by (simp add: finds_extremes_def id)
  moreover have "can_use_id_range_filter ?info (Some ?p) ?doc ?doc = Inr True"
    by (simp add: can_use_id_range_filter_def src_is_documentdb_def is_documentdb_def id_range_filter_is_exact_def
        get_id_type_extremes_def find_extreme_id_type_def id min_key_def same_sort_bracket_def)
  ultimately show ?thesis
    using id_range_filter_exact [OF id_order_rank_order, of "{int32_value 7}" ?p ?doc ?doc ?info "int32_value 7"
        "[ExprGte min_key, ExprLte (int32_value 9)]" "\<lambda>_. True"] valid
    by (simp add: get_expr_predicates_def)
qed

end
