(* ===== verification/Metadata.thy ===== *)
theory Metadata
  imports DocumentDB Verify_Task Partition_Schemes
begin

text \<open>
  The task of a collection: comparing its specification, its indexes and its shard key on both
  clusters, recording what differs, and splitting its documents into partitions
  (\<open>compareCollectionSpecifications\<close> to \<open>ProcessCollectionVerificationTask\<close> of
  \<open>internal/verifier/migration_verifier.go\<close>, \<open>sharding.go\<close>, \<open>internal/collspec\<close>). What the clusters
  answer is a parameter; the comparison of two index specifications is a library's and a parameter too.
\<close>

section \<open>Specifications\<close>

text \<open>\<open>csp_Extra\<close> are the fields the code does not know, of the specification and of its \<open>info\<close>.\<close>

record collection_spec =
  csp_Type :: string
  csp_Options :: bytes
  csp_ReadOnly :: bool
  csp_IDIndex :: "bytes option"
  csp_Extra :: "string list"

definition get_collection_spec_if_exists :: "go_error + collection_spec list \<Rightarrow> go_error + collection_spec option" where
  "get_collection_spec_if_exists fetched = rbind fetched (\<lambda>specs. case specs of
       [] \<Rightarrow> Inr None
     | [s] \<Rightarrow> (if length (csp_Extra s) > 0 then Inl (Err ''specification contains unrecognized fields'') else Inr (Some s))
     | _ \<Rightarrow> Inl (Err ''received multiple results''))"

text \<open>\<open>me_order\<close> is the order of iterating over a map, \<open>me_show\<close> the text
  of a document, \<open>me_toString\<close> the driver's conversion of a value to a string.\<close>

record metadata_env =
  me_srcInfo :: "cluster_info option"
  me_dstInfo :: "cluster_info option"
  me_verifyAll :: bool
  me_order :: "string list \<Rightarrow> string list"
  me_show :: "bytes \<Rightarrow> string"
  me_toString :: "raw_value \<Rightarrow> go_error + string"

definition show_bool :: "bool \<Rightarrow> string" where
  "show_bool b = (if b then ''true'' else ''false'')"

definition collTypeMismatchField :: string where "collTypeMismatchField = ''type''"

definition normalized_options :: "metadata_env \<Rightarrow> bytes \<Rightarrow> go_error + bytes" where
  "normalized_options env opts =
     (if src_is_documentdb (me_srcInfo env) then normalize_collection_options_for_documentdb opts else Inr opts)"

definition read_only_results :: "string \<Rightarrow> collection_spec \<Rightarrow> collection_spec \<Rightarrow> result list" where
  "read_only_results dstNs src dst =
     (if csp_ReadOnly src \<noteq> csp_ReadOnly dst
      then [zero_result\<lparr>res_NameSpace := dstNs, res_Cluster := ClusterTarget, res_Field := ''readOnly'',
              res_Details := Mismatch @ '': src: '' @ show_bool (csp_ReadOnly src) @ '', dst: '' @ show_bool (csp_ReadOnly dst)\<rparr>]
      else [])"

definition option_results :: "metadata_env \<Rightarrow> string \<Rightarrow> string \<Rightarrow> bytes \<Rightarrow> bytes \<Rightarrow> go_error + result list" where
  "option_results env srcNs dstNs srcOpts dstOpts =
     (if srcOpts = dstOpts then Inr []
      else rbind (BsonUnorderedCompareRawDocumentWithDetails (me_order env) srcOpts dstOpts) (\<lambda>mismatchDetails.
             let resultID = string_value ''spec''
             in case mismatchDetails of
                  None \<Rightarrow> Inr [zero_result\<lparr>res_NameSpace := dstNs, res_Cluster := ClusterTarget, res_ID := resultID,
                     res_Field := ''options (field order only)'',
                     res_Details := Mismatch @ '': src: '' @ me_show env srcOpts @ '', dst: '' @ me_show env dstOpts\<rparr>]
                | Some md \<Rightarrow> mismatch_results md srcOpts dstOpts srcNs resultID ''options.''))"

definition type_can_compare :: "metadata_env \<Rightarrow> string \<Rightarrow> go_error + bool" where
  "type_can_compare env ty =
     (if ty = ''collection'' then Inr True
      else if ty = ''view'' then Inr False
      else if ty = ''timeseries''
      then if \<not> me_verifyAll env then Inl (Err ''cannot verify time-series collection under namespace filtering'') else Inr False
      else Inl (Err ''unrecognized collection type''))"

definition compare_collection_specifications :: "metadata_env \<Rightarrow> string \<Rightarrow> string \<Rightarrow> collection_spec \<Rightarrow> collection_spec
     \<Rightarrow> go_error + result list \<times> bool" where
  "compare_collection_specifications env srcNs dstNs src dst =
     (if csp_Type src \<noteq> csp_Type dst
      then Inr ([zero_result\<lparr>res_NameSpace := srcNs, res_Cluster := ClusterTarget, res_Field := collTypeMismatchField,
                   res_Details := Mismatch @ '': src: '' @ csp_Type src @ '', dst: '' @ csp_Type dst\<rparr>], False)
      else rbind (normalized_options env (csp_Options src)) (\<lambda>srcOpts.
           rbind (normalized_options env (csp_Options dst)) (\<lambda>dstOpts.
           rbind (option_results env srcNs dstNs srcOpts dstOpts) (\<lambda>optionResults.
           rbind (type_can_compare env (csp_Type src)) (\<lambda>canCompareData.
           rbind (if canCompareData
                  then rbind (is_capped_option srcOpts) (\<lambda>a. rbind (is_capped_option dstOpts) (\<lambda>b. Inr (a = b)))
                  else Inr False) (\<lambda>canCompareData.
             Inr (read_only_results dstNs src dst @ optionResults, canCompareData)))))))"

section \<open>Indexes\<close>

text \<open>The map of a collection's indexes by name; a later index of the same name replaces the earlier.\<close>

definition add_index_spec :: "(raw_value \<Rightarrow> go_error + string) \<Rightarrow> (string \<times> bytes) list \<Rightarrow> bytes
     \<Rightarrow> go_error + (string \<times> bytes) list" where
  "add_index_spec toString specsMap spec =
     rbind (raw_lookup toString spec [''name'']) (\<lambda>name. case name of
         None \<Rightarrow> Inl (Err ''collection has an unnamed index'')
       | Some name \<Rightarrow> Inr (AList.update name spec specsMap))"

definition get_indexes_map :: "(raw_value \<Rightarrow> go_error + string) \<Rightarrow> go_error + bytes list
     \<Rightarrow> go_error + (string \<times> bytes) list" where
  "get_indexes_map toString listed = rbind listed (\<lambda>specs. rfold (add_index_spec toString) [] specs)"

definition with_id_index :: "bytes option \<Rightarrow> (string \<times> bytes) list \<Rightarrow> (string \<times> bytes) list" where
  "with_id_index idIndex m = (case idIndex of None \<Rightarrow> m | Some spec \<Rightarrow> AList.update ''_id'' spec m)"

definition index_result :: "string \<Rightarrow> string \<Rightarrow> string \<Rightarrow> string \<Rightarrow> result" where
  "index_result indexName cluster namespace details =
     zero_result\<lparr>res_ID := string_value indexName, res_Field := ''index'', res_NameSpace := namespace,
       res_Cluster := cluster, res_Details := details\<rparr>"

type_synonym describe_differences = "bytes \<Rightarrow> bytes \<Rightarrow> go_error + string option"

text \<open>The loop over the destination's indexes, in the order of the map, then the source's that are left.\<close>

definition dst_index_step :: "describe_differences \<Rightarrow> string \<Rightarrow> string \<Rightarrow> (string \<times> bytes) list \<Rightarrow> (string \<times> bytes) list
     \<Rightarrow> result list \<Rightarrow> string \<Rightarrow> go_error + result list" where
  "dst_index_step describe srcNs dstNs srcMap dstMap results indexName =
     (case map_of srcMap indexName of
        Some srcSpec \<Rightarrow> rbind (describe srcSpec (the (map_of dstMap indexName))) (\<lambda>diffOpt.
          Inr (case diffOpt of None \<Rightarrow> results
               | Some diff \<Rightarrow> results @ [index_result indexName ClusterTarget dstNs diff]))
      | None \<Rightarrow> Inr (results @ [index_result indexName ClusterSource srcNs Missing]))"

definition verify_indexes :: "metadata_env \<Rightarrow> describe_differences \<Rightarrow> string \<Rightarrow> string \<Rightarrow> go_error + bytes list
     \<Rightarrow> go_error + bytes list \<Rightarrow> bytes option \<Rightarrow> bytes option \<Rightarrow> go_error + result list" where
  "verify_indexes env describe srcNs dstNs srcListed dstListed srcIdIndexSpec dstIdIndexSpec =
     rbind (get_indexes_map (me_toString env) srcListed) (\<lambda>srcMap.
     rbind (get_indexes_map (me_toString env) dstListed) (\<lambda>dstMap.
     let srcMap = with_id_index srcIdIndexSpec srcMap; dstMap = with_id_index dstIdIndexSpec dstMap;
         norm = (if src_is_documentdb (me_srcInfo env) then normalize_index_specs_for_documentdb else Inr)
     in rbind (norm srcMap) (\<lambda>srcMap. rbind (norm dstMap) (\<lambda>dstMap.
        rbind (rfold (dst_index_step describe srcNs dstNs srcMap dstMap) [] (me_order env (map fst dstMap))) (\<lambda>results.
          Inr (results @ map (\<lambda>indexName. index_result indexName ClusterTarget dstNs Missing)
            (filter (\<lambda>n. n \<notin> set (map fst dstMap)) (me_order env (map fst srcMap)))))))))"

section \<open>Sharding\<close>

text \<open>The loop that fetches the key accepts that there is none.\<close>

definition get_shard_key :: "go_error + bytes option \<Rightarrow> go_error + bytes option" where
  "get_shard_key fetched = (case fetched of
       Inl e \<Rightarrow> if e = NoDocuments then Inr None else Inl e
     | Inr key \<Rightarrow> Inr key)"

definition is_sharded_cluster :: "cluster_info option \<Rightarrow> go_error + bool" where
  "is_sharded_cluster info = rbind (deref info) (\<lambda>ci. Inr (ci_Topology ci = TopologySharded))"

definition verify_sharding_if_needed :: "metadata_env \<Rightarrow> (bytes \<Rightarrow> bytes \<Rightarrow> go_error + bool) \<Rightarrow> string
     \<Rightarrow> go_error + bytes option \<Rightarrow> go_error + bytes option \<Rightarrow> go_error + result list" where
  "verify_sharding_if_needed env serverMatch srcNs srcFetched dstFetched =
     rbind (is_sharded_cluster (me_srcInfo env)) (\<lambda>srcSharded.
     rbind (is_sharded_cluster (me_dstInfo env)) (\<lambda>dstSharded.
     if \<not> srcSharded \<or> \<not> dstSharded then Inr []
     else rbind (get_shard_key srcFetched) (\<lambda>srcShardOpt. rbind (get_shard_key dstFetched) (\<lambda>dstShardOpt.
       case (srcShardOpt, dstShardOpt) of
         (None, None) \<Rightarrow> Inr []
       | (Some _, None) \<Rightarrow> Inr [zero_result\<lparr>res_Field := ''shard key'', res_Cluster := ClusterTarget,
                                 res_Details := Missing, res_NameSpace := srcNs\<rparr>]
       | (None, Some _) \<Rightarrow> Inr [zero_result\<lparr>res_Field := ''shard key'', res_Cluster := ClusterSource,
                                 res_Details := Missing, res_NameSpace := srcNs\<rparr>]
       | (Some srcKey, Some dstKey) \<Rightarrow>
           if srcKey = dstKey then Inr []
           else rbind (serverMatch srcKey dstKey) (\<lambda>areEqual.
             if \<not> areEqual
             then Inr [zero_result\<lparr>res_Field := ''shard key'', res_NameSpace := srcNs,
                         res_Details := Mismatch @ '': src='' @ me_show env srcKey @ ''; dst='' @ me_show env dstKey\<rparr>]
             else Inr [])))))"

text \<open>The names of the shard key's fields, which the partitions' tasks carry.\<close>

definition get_shard_key_fields :: "go_error + bytes option \<Rightarrow> go_error + string list" where
  "get_shard_key_fields fetched =
     rbind (get_shard_key fetched) (\<lambda>shardKeyOpt. case shardKeyOpt of
         None \<Rightarrow> Inr []
       | Some shardKeyRaw \<Rightarrow> if shardKeyRaw = [] then Inr [] else
           rbind (doc_elements shardKeyRaw) (\<lambda>els. Inr (map elem_key els)))"

section \<open>The task of a collection\<close>

text \<open>What the clusters answer about the collection, in the order of the calls.\<close>

record collection_answers =
  ca_srcSpecs :: "go_error + collection_spec list"
  ca_dstSpecs :: "go_error + collection_spec list"
  ca_stats :: "go_error + coll_stats"
  ca_describe :: describe_differences
  ca_srcIndexes :: "go_error + bytes list"
  ca_dstIndexes :: "go_error + bytes list"
  ca_serverMatch :: "bytes \<Rightarrow> bytes \<Rightarrow> go_error + bool"
  ca_srcShardKey :: "go_error + bytes option"
  ca_dstShardKey :: "go_error + bytes option"

definition coll_full_name :: "string \<Rightarrow> string" where
  "coll_full_name ns = (case split_namespace ns of (db, coll) \<Rightarrow> db @ ''.'' @ coll)"

definition task_src_ns :: "task \<Rightarrow> string" where
  "task_src_ns t = coll_full_name (qf_Namespace (tk_QueryFilter t))"

definition task_dst_ns :: "task \<Rightarrow> string" where
  "task_dst_ns t = coll_full_name (dst_namespace (qf_To (tk_QueryFilter t)) (qf_Namespace (tk_QueryFilter t)))"

type_synonym 'a vact = "(verifier_state, go_error, 'a) act"

text \<open>An update that fails is only logged.\<close>

definition set_collection_size_in_task :: "go_error + coll_stats \<Rightarrow> task \<Rightarrow> (task \<times> coll_stats) vact" where
  "set_collection_size_in_task stats t =
     (if tk_Type t \<noteq> VerifyCollection then afail (Panic ''task type should be the collection's'')
      else if tk_Status t \<noteq> Some Processing then afail (Panic ''task status should be processing'')
      else abind (alift stats) (\<lambda>st.
        let t' = t\<lparr>tk_DocumentsCount := word_of_nat (cs_docs st), tk_SourceBytesCount := word_of_nat (cs_bytes st)\<rparr>
        in (\<lambda>s. (Inr (t', st), case update_verification_task t' (vs_tasks s) of
               Inl _ \<Rightarrow> s | Inr db \<Rightarrow> s\<lparr>vs_tasks := db\<rparr>))))"

definition insert_failed_collection :: "verifier_env \<Rightarrow> nsmap \<Rightarrow> (task_db \<Rightarrow> bytes) \<Rightarrow> string \<Rightarrow> unit vact" where
  "insert_failed_collection env m fresh srcNs = aupdate (\<lambda>s.
     rbind (insert_failed_collection_verification_task m (fresh (vs_tasks s)) srcNs (ve_generation env) (vs_tasks s))
       (\<lambda>(_, db). Inr ((), s\<lparr>vs_tasks := db\<rparr>)))"

definition record_metadata_mismatches :: "task \<Rightarrow> result list \<Rightarrow> unit vact" where
  "record_metadata_mismatches t probs = aupdate (\<lambda>s.
     rbind (record_mismatches t probs) (\<lambda>mismatches.
       Inr ((), s\<lparr>vs_mismatches := vs_mismatches s @ mismatches\<rparr>)))"

text \<open>
  The checks of one collection. The result is the task with its status so far and, when
  its documents are to be checked, the collection's size.
\<close>

record task_context =
  tc_env :: verifier_env
  tc_meta :: metadata_env
  tc_nsMap :: nsmap
  tc_fresh :: "task_db \<Rightarrow> bytes"

definition insert_failed_for :: "task_context \<Rightarrow> task \<Rightarrow> unit vact" where
  "insert_failed_for tc t = insert_failed_collection (tc_env tc) (tc_nsMap tc) (tc_fresh tc) (task_src_ns t)"

definition check_specifications :: "task_context \<Rightarrow> task \<Rightarrow> collection_spec \<Rightarrow> collection_spec
     \<Rightarrow> (task \<times> result list \<times> bool) vact" where
  "check_specifications tc t srcSpec dstSpec =
     abind (alift (compare_collection_specifications (tc_meta tc) (task_src_ns t) (task_dst_ns t) srcSpec dstSpec))
       (\<lambda>(specificationProblems, verifyData).
         if specificationProblems \<noteq> []
         then abind (record_metadata_mismatches t specificationProblems) (\<lambda>_.
              abind (insert_failed_for tc t) (\<lambda>_.
                areturn (t\<lparr>tk_Status := Some (if verifyData then MetadataMismatch else Failed)\<rparr>,
                         specificationProblems, verifyData)))
         else areturn (if verifyData then t else t\<lparr>tk_Status := Some Completed\<rparr>, [], verifyData))"

text \<open>The index and the sharding checks: the failed collection is inserted when nothing before them did.\<close>

definition check_problems :: "task_context \<Rightarrow> task \<Rightarrow> result list \<Rightarrow> result list \<Rightarrow> task vact" where
  "check_problems tc t earlier probs =
     (if probs = [] then areturn t
      else abind (if earlier = [] then insert_failed_for tc t else areturn ()) (\<lambda>_.
           abind (record_metadata_mismatches t probs) (\<lambda>_.
             areturn (t\<lparr>tk_Status := Some MetadataMismatch\<rparr>))))"

definition set_size_if_collection :: "go_error + coll_stats \<Rightarrow> collection_spec option \<Rightarrow> task \<Rightarrow> (task \<times> coll_stats) vact" where
  "set_size_if_collection stats srcSpecOpt t =
     (if map_option csp_Type srcSpecOpt = Some ''collection''
      then set_collection_size_in_task stats t
      else areturn (t, \<lparr>cs_bytes = 0, cs_docs = 0, cs_capped = False\<rparr>))"

definition check_metadata :: "task_context \<Rightarrow> collection_answers \<Rightarrow> task \<Rightarrow> (task \<times> coll_stats option) vact" where
  "check_metadata tc ans t =
     abind (alift (get_collection_spec_if_exists (ca_srcSpecs ans))) (\<lambda>srcSpecOpt.
     abind (alift (get_collection_spec_if_exists (ca_dstSpecs ans))) (\<lambda>dstSpecOpt.
     abind (set_size_if_collection (ca_stats ans) srcSpecOpt t) (\<lambda>(t, st).
     case (srcSpecOpt, dstSpecOpt) of
       (None, Some _) \<Rightarrow> afail (Err ''collection exists only on destination'')
     | (None, None) \<Rightarrow> areturn (t\<lparr>tk_Status := Some Completed\<rparr>, None)
     | (Some _, None) \<Rightarrow> afail (Err ''collection exists only on source'')
     | (Some srcSpec, Some dstSpec) \<Rightarrow>
         abind (check_specifications tc t srcSpec dstSpec) (\<lambda>(t, specificationProblems, verifyData).
         if \<not> verifyData then areturn (t, None)
         else abind (alift (verify_indexes (tc_meta tc) (ca_describe ans) (task_src_ns t) (task_dst_ns t)
                (ca_srcIndexes ans) (ca_dstIndexes ans) (csp_IDIndex srcSpec) (csp_IDIndex dstSpec))) (\<lambda>indexProblems.
              abind (check_problems tc t specificationProblems indexProblems) (\<lambda>t.
              abind (alift (verify_sharding_if_needed (tc_meta tc) (ca_serverMatch ans) (task_src_ns t)
                (ca_srcShardKey ans) (ca_dstShardKey ans))) (\<lambda>shardingProblems.
              abind (check_problems tc t (specificationProblems @ indexProblems) shardingProblems) (\<lambda>t.
                areturn (t, Some st)))))))))"

definition task_target :: "task_context \<Rightarrow> task \<Rightarrow> partition_target" where
  "task_target tc t = (case split_namespace (qf_Namespace (tk_QueryFilter t)) of (db, coll) \<Rightarrow>
     \<lparr>pg_DB = db, pg_Coll = coll, pg_dstNs = task_dst_ns t, pg_shardFields = [],
      pg_generation = ve_generation (tc_env tc), pg_fresh = tc_fresh tc\<rparr>)"

definition task_generation :: "task \<Rightarrow> int" where
  "task_generation t = (case tk_Generation t of None \<Rightarrow> 0 | Some g \<Rightarrow> g)"

definition completed_if_processing :: "task \<Rightarrow> task" where
  "completed_if_processing t = (if tk_Status t = Some Processing then t\<lparr>tk_Status := Some Completed\<rparr> else t)"

text \<open>The result is \<open>None\<close> when the partitioning waits forever.\<close>

definition verify_metadata_and_partition_collection :: "task_context \<Rightarrow> collection_answers \<Rightarrow> partition_config
     \<Rightarrow> partition_answers \<Rightarrow> task \<Rightarrow> verifier_state \<Rightarrow> ((go_error + task) \<times> verifier_state) option" where
  "verify_metadata_and_partition_collection tc ans cfg pans t s =
     (case check_metadata tc ans t s of
        (Inl e, s') \<Rightarrow> Some (Inl e, s')
      | (Inr (t', None), s') \<Rightarrow> Some (Inr t', s')
      | (Inr (t', Some st), s') \<Rightarrow>
          (if task_generation t' = 0
           then (case partition_collection cfg pans (task_target tc t') (task_generation t') st (vs_tasks s') of
                   None \<Rightarrow> None
                 | Some (Inl e, db) \<Rightarrow> Some (Inl e, s'\<lparr>vs_tasks := db\<rparr>)
                 | Some (Inr _, db) \<Rightarrow> Some (Inr (completed_if_processing t'), s'\<lparr>vs_tasks := db\<rparr>))
           else Some (Inr (completed_if_processing t'), s')))"

definition process_collection_verification_task :: "task_context \<Rightarrow> collection_answers \<Rightarrow> partition_config
     \<Rightarrow> partition_answers \<Rightarrow> task \<Rightarrow> verifier_state \<Rightarrow> ((go_error + task) \<times> verifier_state) option" where
  "process_collection_verification_task tc ans cfg pans t s =
     (case verify_metadata_and_partition_collection tc ans cfg pans t s of
        None \<Rightarrow> None
      | Some (Inl e, s') \<Rightarrow> Some (Inl e, s')
      | Some (Inr t', s') \<Rightarrow> Some (case update_verification_task t' (vs_tasks s') of
            Inl e \<Rightarrow> (Inl e, s')
          | Inr db \<Rightarrow> (Inr t', s'\<lparr>vs_tasks := db\<rparr>)))"

section \<open>The outcome of a collection's task\<close>

text \<open>What there is to find, without the writes.\<close>

definition metadata_problems :: "task_context \<Rightarrow> collection_answers \<Rightarrow> task \<Rightarrow> collection_spec \<Rightarrow> collection_spec
     \<Rightarrow> go_error + result list \<times> bool" where
  "metadata_problems tc ans t src dst =
     rbind (compare_collection_specifications (tc_meta tc) (task_src_ns t) (task_dst_ns t) src dst) (\<lambda>(specs, canCompare).
       if \<not> canCompare then Inr (specs, False)
       else rbind (verify_indexes (tc_meta tc) (ca_describe ans) (task_src_ns t) (task_dst_ns t)
              (ca_srcIndexes ans) (ca_dstIndexes ans) (csp_IDIndex src) (csp_IDIndex dst)) (\<lambda>indexes.
            rbind (verify_sharding_if_needed (tc_meta tc) (ca_serverMatch ans) (task_src_ns t)
              (ca_srcShardKey ans) (ca_dstShardKey ans)) (\<lambda>sharding. Inr (specs @ indexes @ sharding, True))))"

definition metadata_status :: "result list \<Rightarrow> bool \<Rightarrow> task_status" where
  "metadata_status probs canCompare =
     (if probs = [] then Completed else if canCompare then MetadataMismatch else Failed)"

definition known_namespace :: "nsmap \<Rightarrow> string \<Rightarrow> string \<Rightarrow> bool" where
  "known_namespace m srcNs dstNs \<longleftrightarrow> (\<exists>n. nsmap_len m = Inr n
     \<and> (if n = 0 then dstNs = srcNs else get_dst_namespace m srcNs = Some dstNs))"

definition failed_collection_task :: "task_context \<Rightarrow> task \<Rightarrow> string \<Rightarrow> bytes \<Rightarrow> task" where
  "failed_collection_task tc t dstNs oid =
     zero_task\<lparr>tk_PrimaryKey := oid, tk_Generation := Some (ve_generation (tc_env tc) + 1), tk_Status := Some Added,
       tk_Type := VerifyCollection, tk_QueryFilter := \<lparr>qf_Partition = None, qf_ShardKeys = [],
         qf_Namespace = task_src_ns t, qf_To = dstNs\<rparr>\<rparr>"

definition noted :: "task_context \<Rightarrow> task \<Rightarrow> string \<Rightarrow> result list \<Rightarrow> result list \<Rightarrow> verifier_state \<Rightarrow> verifier_state" where
  "noted tc t dstNs earlier probs s =
     s\<lparr>vs_mismatches := vs_mismatches s @ map (\<lambda>r. enc_doc (mismatch_fields t r)) probs,
       vs_tasks := vs_tasks s @ (if earlier = [] \<and> probs \<noteq> []
         then [failed_collection_task tc t dstNs (tc_fresh tc (vs_tasks s))] else [])\<rparr>"

lemma noted_noted: "noted tc t d (e @ p) q (noted tc t d e p s) = noted tc t d e (p @ q) s"
  by (simp add: noted_def)

lemma noted_Nil [simp]: "noted tc t d e [] s = s"
  by (simp add: noted_def)

lemma noted_sel [simp]:
  "vs_mismatches (noted tc t d e p s) = vs_mismatches s @ map (\<lambda>r. enc_doc (mismatch_fields t r)) p"
  "vs_rechecks (noted tc t d e p s) = vs_rechecks s"
  by (simp_all add: noted_def)

definition metadata_ready :: "task_context \<Rightarrow> task \<Rightarrow> string \<Rightarrow> bool" where
  "metadata_ready tc t dstNs \<longleftrightarrow> stored_task t \<and> known_namespace (tc_nsMap tc) (task_src_ns t) dstNs
     \<and> (\<forall>db. tc_fresh tc db \<notin> task_ids db)"

lemma record_metadata_ok:
  assumes "stored_task t"
  shows "record_metadata_mismatches t probs s =
    (Inr (), s\<lparr>vs_mismatches := vs_mismatches s @ map (\<lambda>r. enc_doc (mismatch_fields t r)) probs\<rparr>)"
  by (simp add: record_metadata_mismatches_def aupdate_def record_mismatches_ok [OF assms])

lemma insert_failed_for_ok:
  assumes "metadata_ready tc t d"
  shows "insert_failed_for tc t s =
    (Inr (), s\<lparr>vs_tasks := vs_tasks s @ [failed_collection_task tc t d (tc_fresh tc (vs_tasks s))]\<rparr>)"
  using assms
  by (auto simp: metadata_ready_def known_namespace_def insert_failed_for_def insert_failed_collection_def aupdate_def
      insert_failed_collection_verification_task_def insert_collection_verification_task_def insert_one_def
      failed_collection_task_def Let_def split: if_splits)

lemma check_problems_ok:
  assumes "metadata_ready tc t d"
  shows "check_problems tc t e probs s =
    (Inr (if probs = [] then t else t\<lparr>tk_Status := Some MetadataMismatch\<rparr>), noted tc t d e probs s)"
  using assms record_metadata_ok [of t probs] insert_failed_for_ok [OF assms]
  by (simp add: check_problems_def noted_def abind_def metadata_ready_def)

text \<open>The fields of a task that the records of its problems, and what is inserted for it, are made of.\<close>

lemma noted_task:
  "noted tc (t\<lparr>tk_Status := x\<rparr>) = noted tc t"
  "noted tc (t\<lparr>tk_DocumentsCount := n, tk_SourceBytesCount := m\<rparr>) = noted tc t"
  by (simp_all add: noted_def fun_eq_iff failed_collection_task_def task_src_ns_def mismatch_fields_def)

lemma task_fields [simp]:
  "task_src_ns (t\<lparr>tk_Status := x\<rparr>) = task_src_ns t"
  "task_src_ns (t\<lparr>tk_DocumentsCount := n, tk_SourceBytesCount := m\<rparr>) = task_src_ns t"
  "task_dst_ns (t\<lparr>tk_Status := x\<rparr>) = task_dst_ns t"
  "task_dst_ns (t\<lparr>tk_DocumentsCount := n, tk_SourceBytesCount := m\<rparr>) = task_dst_ns t"
  by (simp_all add: task_src_ns_def task_dst_ns_def)

lemma metadata_ready_task [simp]:
  "metadata_ready tc (t\<lparr>tk_Status := x\<rparr>) = metadata_ready tc t"
  "metadata_ready tc (t\<lparr>tk_DocumentsCount := n, tk_SourceBytesCount := m\<rparr>) = metadata_ready tc t"
  by (simp_all add: fun_eq_iff metadata_ready_def stored_task_def)

lemma check_specifications_ok:
  assumes "metadata_ready tc t d" and "tk_Status t = Some Processing"
    and "compare_collection_specifications (tc_meta tc) (task_src_ns t) (task_dst_ns t) src dst = Inr (probs, c)"
  shows "check_specifications tc t src dst s =
    (Inr (t\<lparr>tk_Status := Some (if c \<and> probs = [] then Processing else metadata_status probs c)\<rparr>, probs, c), noted tc t d [] probs s)"
  using assms record_metadata_ok [of t probs] insert_failed_for_ok [OF assms(1)]
  by (simp add: check_specifications_def metadata_status_def noted_def abind_def metadata_ready_def)

definition sized_task :: "collection_spec \<Rightarrow> coll_stats \<Rightarrow> task \<Rightarrow> task" where
  "sized_task src st t = (if csp_Type src = ''collection''
     then t\<lparr>tk_DocumentsCount := word_of_nat (cs_docs st), tk_SourceBytesCount := word_of_nat (cs_bytes st)\<rparr> else t)"

lemma sized_task_simps [simp]:
  "tk_PrimaryKey (sized_task src st t) = tk_PrimaryKey t" "tk_Status (sized_task src st t) = tk_Status t"
  "task_src_ns (sized_task src st t) = task_src_ns t" "task_dst_ns (sized_task src st t) = task_dst_ns t"
  "metadata_ready tc (sized_task src st t) = metadata_ready tc t" "noted tc (sized_task src st t) = noted tc t"
  "task_generation (sized_task src st t) = task_generation t" "tk_QueryFilter (sized_task src st t) = tk_QueryFilter t"
  by (simp_all add: sized_task_def noted_task task_generation_def)

lemma set_progress_sized:
  "set_progress (t\<lparr>tk_DocumentsCount := n, tk_SourceBytesCount := m\<rparr>) t = t\<lparr>tk_DocumentsCount := n, tk_SourceBytesCount := m\<rparr>"
  by (cases t) (simp add: set_progress_def)

lemma sizes_set:
  assumes "tk_Type t = VerifyCollection" "tk_Status t = Some Processing" "db_ok (vs_tasks s)" "i < length (vs_tasks s)"
    "vs_tasks s ! i = t"
  shows "\<exists>st'. set_size_if_collection (Inr st) (Some src) t s
      = (Inr (sized_task src st t, st'), s\<lparr>vs_tasks := (vs_tasks s)[i := sized_task src st t]\<rparr>)
    \<and> (csp_Type src = ''collection'' \<longrightarrow> st' = st)"
  using assms update_verification_task_ok [OF assms(3,4),
      of "t\<lparr>tk_DocumentsCount := word_of_nat (cs_docs st), tk_SourceBytesCount := word_of_nat (cs_bytes st)\<rparr>"]
    list_update_id [of "vs_tasks s" i]
  by (auto simp: set_size_if_collection_def set_collection_size_in_task_def sized_task_def abind_def alift_def Let_def set_progress_sized)

lemma type_can_compare_iff: "type_can_compare env ty = Inr c \<Longrightarrow> c \<longleftrightarrow> ty = ''collection''"
  by (auto simp: type_can_compare_def split: if_splits)

lemma comparable_is_collection:
  "compare_collection_specifications env srcNs dstNs src dst = Inr (rs, True) \<Longrightarrow> csp_Type src = ''collection''"
  by (auto simp: compare_collection_specifications_def rbind_eq_Inr dest!: type_can_compare_iff split: if_splits)

text \<open>The checks find what \<open>metadata_problems\<close> describes and note all of it.\<close>

lemma check_metadata_ok:
  assumes ready: "metadata_ready tc t d" "tk_Type t = VerifyCollection" "tk_Status t = Some Processing"
    and db: "db_ok (vs_tasks s)" "i < length (vs_tasks s)" "vs_tasks s ! i = t"
    and specs: "get_collection_spec_if_exists (ca_srcSpecs ans) = Inr (Some src)"
      "get_collection_spec_if_exists (ca_dstSpecs ans) = Inr (Some dst)" "ca_stats ans = Inr st"
    and found: "metadata_problems tc ans t src dst = Inr (probs, c)"
  shows "check_metadata tc ans t s =
    (Inr ((sized_task src st t)\<lparr>tk_Status := Some (if c \<and> probs = [] then Processing else metadata_status probs c)\<rparr>,
          if c then Some st else None),
     noted tc t d [] probs (s\<lparr>vs_tasks := (vs_tasks s)[i := sized_task src st t]\<rparr>))"
proof -
  let ?t = "sized_task src st t"
  let ?s = "s\<lparr>vs_tasks := (vs_tasks s)[i := ?t]\<rparr>"
  from found obtain sp vd where sp: "compare_collection_specifications (tc_meta tc) (task_src_ns t) (task_dst_ns t) src dst = Inr (sp, vd)"
    by (auto simp: metadata_problems_def rbind_eq_Inr)
  from sizes_set [OF ready(2,3) db, where src = src and st = st] obtain st' where
    st': "set_size_if_collection (Inr st) (Some src) t s = (Inr (?t, st'), ?s)"
      "csp_Type src = ''collection'' \<Longrightarrow> st' = st" by blast
  have r: "metadata_ready tc ?t d" "tk_Status ?t = Some Processing" using ready by simp_all
  have sp': "compare_collection_specifications (tc_meta tc) (task_src_ns ?t) (task_dst_ns ?t) src dst = Inr (sp, vd)"
    using sp by simp
  note S = check_specifications_ok [OF r sp', of ?s]
  note A = abind_eqI [of "set_size_if_collection (Inr st) (Some src) t", OF st'(1)]
  note B = abind_eqI [of "check_specifications tc ?t src dst", OF S]
  show ?thesis
  proof (cases vd)
    case False
    with found sp have "sp = probs" "\<not> c" by (auto simp: metadata_problems_def)
    then show ?thesis
      using False by (simp add: check_metadata_def specs A B)
  next
    case True
    with sp found obtain ip hp where p: "verify_indexes (tc_meta tc) (ca_describe ans) (task_src_ns t) (task_dst_ns t)
          (ca_srcIndexes ans) (ca_dstIndexes ans) (csp_IDIndex src) (csp_IDIndex dst) = Inr ip"
        "verify_sharding_if_needed (tc_meta tc) (ca_serverMatch ans) (task_src_ns t)
          (ca_srcShardKey ans) (ca_dstShardKey ans) = Inr hp" "probs = sp @ ip @ hp" c
      by (auto simp: metadata_problems_def rbind_eq_Inr)
    have st: "st' = st" using comparable_is_collection [of "tc_meta tc" _ _ src dst sp] sp True st'(2) by simp
    have C: "check_problems tc (?t\<lparr>tk_Status := x\<rparr>) e q u =
        (Inr (if q = [] then ?t\<lparr>tk_Status := x\<rparr> else ?t\<lparr>tk_Status := Some MetadataMismatch\<rparr>), noted tc t d e q u)" for x e q u
      using check_problems_ok [of tc "?t\<lparr>tk_Status := x\<rparr>" d e q u] r(1) by (simp add: noted_task)
    have D: "abind (check_problems tc (?t\<lparr>tk_Status := x\<rparr>) e q) f u =
        f (if q = [] then ?t\<lparr>tk_Status := x\<rparr> else ?t\<lparr>tk_Status := Some MetadataMismatch\<rparr>) (noted tc t d e q u)" for x e q u f
      by (rule abind_eqI [of "check_problems tc (?t\<lparr>tk_Status := x\<rparr>) e q", OF C])
    show ?thesis
      using True p
      by (auto simp: check_metadata_def specs A B D st metadata_status_def
          noted_noted [of _ _ _ "[]", simplified] noted_noted)
  qed
qed

lemma db_ok_snoc: "db_ok db \<Longrightarrow> tk_PrimaryKey t \<notin> task_ids db \<Longrightarrow> db_ok (db @ [t])"
  by (auto simp: db_ok_def task_ids_def)

text \<open>The single partition of a small collection.\<close>

lemma small_collection_partition:
  assumes "pa_shardKeyFields pans = Inr keyFields" "fresh_ids g"
    "f64_le (divide_to_f64 (pc_rnd cfg) (cs_bytes st) (pc_partitionBytes cfg)) (Finite 1)"
  shows "\<exists>p. partition_collection cfg pans g 0 st db = Some (Inr 1, db @ [p])
    \<and> new_tasks (g\<lparr>pg_shardFields := keyFields\<rparr>) (cs_capped st) [(min_key, max_key)] [p] \<and> tk_PrimaryKey p \<notin> task_ids db"
  using assms
  by (auto simp: partition_collection_def insert_partition_def insert_partition_verification_task_def partition_task_def
      insert_one_def aupdate_def abind_def deref_def fresh_ids_def id_partition_def new_tasks_def zero_task_def
      src_ns_def Let_def)

lemma db_ok_ids: "db_ok db \<longleftrightarrow> distinct (map tk_PrimaryKey db)"
  by (simp add: db_ok_def)

lemma update_status:
  assumes "db_ok (xs @ ys)" "i < length xs" "xs ! i = u"
  shows "update_verification_task (u\<lparr>tk_Status := x\<rparr>) (xs @ ys) = Inr (xs[i := u\<lparr>tk_Status := x\<rparr>] @ ys)"
  using update_verification_task_ok [OF assms(1), of i "u\<lparr>tk_Status := x\<rparr>"] assms(2,3)
  by (simp add: nth_append set_progress_def list_update_append)


section \<open>Which indexes differ\<close>

definition named_indexes :: "metadata_env \<Rightarrow> go_error + bytes list \<Rightarrow> bytes option \<Rightarrow> go_error + (string \<times> bytes) list" where
  "named_indexes env listed idIndex =
     rbind (get_indexes_map (me_toString env) listed) (\<lambda>m.
       (if src_is_documentdb (me_srcInfo env) then normalize_index_specs_for_documentdb else Inr) (with_id_index idIndex m))"

definition index_verdict :: "describe_differences \<Rightarrow> string \<Rightarrow> string \<Rightarrow> (string \<times> bytes) list \<Rightarrow> (string \<times> bytes) list
     \<Rightarrow> string \<Rightarrow> result option" where
  "index_verdict describe srcNs dstNs srcMap dstMap n =
     (case (map_of srcMap n, map_of dstMap n) of
        (None, None) \<Rightarrow> None
      | (Some _, None) \<Rightarrow> Some (index_result n ClusterTarget dstNs Missing)
      | (None, Some _) \<Rightarrow> Some (index_result n ClusterSource srcNs Missing)
      | (Some a, Some b) \<Rightarrow> (case describe a b of
            Inr (Some diff) \<Rightarrow> Some (index_result n ClusterTarget dstNs diff) | _ \<Rightarrow> None))"

lemma string_value_inject [simp]: "string_value s = string_value t \<longleftrightarrow> s = t"
proof
  assume e: "string_value s = string_value t"
  then have l: "length (str_bytes s) = length (str_bytes t)"
    by (auto simp: string_value_def dest!: arg_cong [where f = length])
  from e have "str_bytes s @ [0] = str_bytes t @ [0]"
    by (simp add: string_value_def append32_def)
  then show "s = t" using l by (metis append1_eq_conv bytes_str_str_bytes)
qed simp

lemma normalize_specs_keys:
  "normalize_index_specs_for_documentdb m = Inr m' \<Longrightarrow> map fst m' = map fst m"
  by (induction m arbitrary: m' rule: normalize_index_specs_for_documentdb.induct) (auto simp: rbind_eq_Inr)

lemma indexes_map_distinct:
  assumes "get_indexes_map toString listed = Inr m"
  shows "distinct (map fst m)"
proof -
  from assms obtain specs where "rfold (add_index_spec toString) [] specs = Inr m"
    by (auto simp: get_indexes_map_def rbind_eq_Inr)
  then show ?thesis
    by (rule rfold_inv [where P = "\<lambda>m. distinct (map fst m)"])
      (auto simp: add_index_spec_def rbind_eq_Inr distinct_update split: option.splits)
qed

lemma named_indexes_distinct:
  assumes "named_indexes env listed idIndex = Inr m"
  shows "distinct (map fst m)"
proof -
  from assms obtain m0 where m0: "get_indexes_map (me_toString env) listed = Inr m0"
    "map fst m = map fst (with_id_index idIndex m0)"
    by (auto simp: named_indexes_def rbind_eq_Inr normalize_specs_keys split: if_splits)
  with indexes_map_distinct [OF m0(1)] show ?thesis
    by (auto simp: with_id_index_def distinct_update split: option.splits)
qed

lemma index_loop:
  assumes "\<And>n a b. map_of S n = Some a \<Longrightarrow> map_of D n = Some b \<Longrightarrow> \<exists>d. describe a b = Inr d"
    and "\<forall>n \<in> set ns. map_of D n \<noteq> None"
  shows "rfold (dst_index_step describe srcNs dstNs S D) rs ns =
    Inr (rs @ List.map_filter (index_verdict describe srcNs dstNs S D) ns)"
  using assms(2)
proof (induction ns arbitrary: rs)
  case (Cons n ns)
  then obtain b where b: "map_of D n = Some b" by auto
  show ?case
  proof (cases "map_of S n")
    case None
    with b Cons show ?thesis by (simp add: dst_index_step_def index_verdict_def List.map_filter_simps)
  next
    case (Some a)
    from assms(1) [OF this b] obtain d where "describe a b = Inr d" by blast
    with Some b Cons show ?thesis
      by (cases d) (simp_all add: dst_index_step_def index_verdict_def List.map_filter_simps)
  qed
qed (simp add: List.map_filter_simps)

lemma verify_indexes_named:
  assumes "named_indexes env srcListed srcId = Inr S" "named_indexes env dstListed dstId = Inr D"
  shows "verify_indexes env describe srcNs dstNs srcListed dstListed srcId dstId =
    rbind (rfold (dst_index_step describe srcNs dstNs S D) [] (me_order env (map fst D))) (\<lambda>results.
      Inr (results @ map (\<lambda>n. index_result n ClusterTarget dstNs Missing)
        (filter (\<lambda>n. n \<notin> set (map fst D)) (me_order env (map fst S)))))"
proof -
  from assms obtain S0 D0 where "get_indexes_map (me_toString env) srcListed = Inr S0"
    "get_indexes_map (me_toString env) dstListed = Inr D0"
    by (auto simp: named_indexes_def rbind_eq_Inr)
  with assms show ?thesis
    by (auto simp: named_indexes_def verify_indexes_def Let_def)
qed

lemma map_filter_set: "set (List.map_filter f xs) = {y. \<exists>x \<in> set xs. f x = Some y}"
  by (force simp: List.map_filter_def)

lemma map_filter_Some: "(\<And>x. x \<in> set xs \<Longrightarrow> f x = Some (g x)) \<Longrightarrow> map g xs = List.map_filter f xs"
  by (induction xs) (simp_all add: List.map_filter_simps)

lemma map_filter_distinct:
  assumes "distinct xs" "\<And>x y z. f x = Some z \<Longrightarrow> f y = Some z \<Longrightarrow> x = y"
  shows "distinct (List.map_filter f xs)"
  using assms by (auto simp: List.map_filter_def distinct_map inj_on_def)

lemma index_verdict_name: "index_verdict d s t S D n = Some r \<Longrightarrow> res_ID r = string_value n"
  by (auto simp: index_verdict_def index_result_def split: option.splits sum.splits)

lemma index_verdict_known:
  "index_verdict d s t S D n = Some r \<Longrightarrow> n \<in> set (map fst S) \<union> set (map fst D)"
  by (auto simp: index_verdict_def map_of_eq_None_iff split: option.splits) (metis map_of_eq_None_iff option.distinct(1))+

text \<open>C13: The comparison of the indexes reports each index name once at most, and exactly the names that are in one of
  the two maps only, with the side they are missing from, or whose specifications the comparison
  of specifications finds different, in whatever order Go iterates over the maps. So it reports nothing exactly when
  both sides have the same names with specifications that agree.\<close>

theorem verify_indexes_exact:
  assumes "named_indexes env srcListed srcId = Inr S" "named_indexes env dstListed dstId = Inr D"
    and "range_order (me_order env)"
    and "\<And>n a b. map_of S n = Some a \<Longrightarrow> map_of D n = Some b \<Longrightarrow> \<exists>d. describe a b = Inr d"
  shows "\<exists>rs. verify_indexes env describe srcNs dstNs srcListed dstListed srcId dstId = Inr rs \<and> distinct rs
    \<and> set rs = {r. \<exists>n. index_verdict describe srcNs dstNs S D n = Some r}"
proof -
  let ?v = "index_verdict describe srcNs dstNs S D"
  let ?ds = "me_order env (map fst D)" and ?ss = "filter (\<lambda>n. n \<notin> set (map fst D)) (me_order env (map fst S))"
  have "distinct ?ds" "distinct (me_order env (map fst S))"
    using named_indexes_distinct [OF assms(1)] named_indexes_distinct [OF assms(2)] assms(3)
      mset_eq_imp_distinct_iff unfolding range_order_def by blast+
  then have dd: "distinct (?ds @ ?ss)"
    using range_order_set [OF assms(3)] by auto
  have D: "\<forall>n \<in> set ?ds. map_of D n \<noteq> None"
    using range_order_set [OF assms(3)] by (auto simp: map_of_eq_None_iff image_iff)
  have "?v n = Some (index_result n ClusterTarget dstNs Missing)" if "n \<in> set ?ss" for n
  proof -
    from that have "map_of D n = None" "map_of S n \<noteq> None"
      using range_order_set [OF assms(3)] by (auto simp: map_of_eq_None_iff image_iff)
    then show ?thesis by (auto simp: index_verdict_def)
  qed
  then have S: "map (\<lambda>n. index_result n ClusterTarget dstNs Missing) ?ss = List.map_filter ?v ?ss"
    by (rule map_filter_Some)
  have "rfold (dst_index_step describe srcNs dstNs S D) [] ?ds = Inr ([] @ List.map_filter ?v ?ds)"
    by (rule index_loop [OF assms(4) D])
  then have r: "verify_indexes env describe srcNs dstNs srcListed dstListed srcId dstId = Inr (List.map_filter ?v ?ds @ List.map_filter ?v ?ss)"
    unfolding verify_indexes_named [OF assms(1,2)] S by simp
  have app: "List.map_filter ?v ?ds @ List.map_filter ?v ?ss = List.map_filter ?v (?ds @ ?ss)"
    by (simp add: List.map_filter_def)
  have dist: "distinct (List.map_filter ?v (?ds @ ?ss))"
    using dd by (rule map_filter_distinct) (metis index_verdict_name string_value_inject)
  have names: "set (?ds @ ?ss) = set (map fst S) \<union> set (map fst D)"
    using range_order_set [OF assms(3)] by auto
  have "set (List.map_filter ?v (?ds @ ?ss)) = {r. \<exists>n. ?v n = Some r}"
    unfolding map_filter_set names using index_verdict_known [of describe srcNs dstNs S D] by blast
  with r app dist show ?thesis by simp
qed

section \<open>The form of the problems\<close>

lemma mismatch_results_id:
  assumes "mismatch_results md a b ns docID pre = Inr rs" "r \<in> set rs"
  shows "res_ID r = docID"
proof -
  have *: "map_results (differing_field_result a b ns docID pre) ks = Inr ys \<Longrightarrow> y \<in> set ys \<Longrightarrow> res_ID y = docID" for ks ys y
    by (induction ks arbitrary: ys) (auto simp: rbind_eq_Inr differing_field_result_def)
  from assms show ?thesis
    by (auto simp: mismatch_results_def rbind_eq_Inr missing_field_result_def dest: *)
qed

definition presentable :: "result \<Rightarrow> bool" where
  "presentable r \<longleftrightarrow> is_ok (APINSMismatchInfo r)"

lemma presentable_spec: "res_ID r = string_value ''spec'' \<Longrightarrow> presentable r"
  by (simp add: presentable_def APINSMismatchInfo_def Let_def)

lemma presentable_field: "res_Field r \<in> {''type'', ''shard key'', ''readOnly''} \<Longrightarrow> presentable r"
  by (auto simp: presentable_def APINSMismatchInfo_def Let_def)

lemma presentable_index: "length n + 5 < 2 ^ 31 \<Longrightarrow> presentable (index_result n c ns d)"
  using cast_string_value [of n] by (simp add: presentable_def APINSMismatchInfo_def Let_def index_result_def zero_result_def)

lemma specification_problems_presentable:
  assumes "compare_collection_specifications env srcNs dstNs src dst = Inr (rs, c)" "r \<in> set rs"
  shows "presentable r"
proof -
  have o: "presentable r" if "option_results env srcNs dstNs a b = Inr os" "r \<in> set os" for a b os
    using that by (auto simp: option_results_def rbind_eq_Inr Let_def intro!: presentable_spec dest: mismatch_results_id
        split: if_splits option.splits)
  have f: "presentable r" if "r \<in> set (read_only_results dstNs src dst)"
    using that by (auto simp: read_only_results_def intro!: presentable_field split: if_splits)
  show ?thesis
  proof (cases "csp_Type src = csp_Type dst")
    case False
    with assms show ?thesis
      by (auto simp: compare_collection_specifications_def collTypeMismatchField_def intro!: presentable_field)
  next
    case True
    with assms(1) obtain a b os where "option_results env srcNs dstNs a b = Inr os" "rs = read_only_results dstNs src dst @ os"
      by (auto simp: compare_collection_specifications_def rbind_eq_Inr)
    with assms(2) o f show ?thesis by auto
  qed
qed

lemma sharding_problems_presentable:
  assumes "verify_sharding_if_needed env m ns a b = Inr rs" "r \<in> set rs"
  shows "presentable r"
proof -
  have "rs = [] \<or> (\<exists>c d. rs = [zero_result\<lparr>res_Field := ''shard key'', res_NameSpace := ns, res_Cluster := c, res_Details := d\<rparr>])"
  proof (cases "get_shard_key a")
    case (Inr x)
    then show ?thesis
    proof (cases "get_shard_key b")
      case (Inr y)
      with assms(1) \<open>get_shard_key a = Inr x\<close> show ?thesis
        by (cases x; cases y) (auto simp: verify_sharding_if_needed_def rbind_eq_Inr zero_result_def split: if_splits)
    qed (use assms(1) in \<open>auto simp: verify_sharding_if_needed_def rbind_eq_Inr split: if_splits\<close>)
  qed (use assms(1) in \<open>auto simp: verify_sharding_if_needed_def rbind_eq_Inr split: if_splits\<close>)
  with assms(2) show ?thesis by (auto intro!: presentable_field)
qed

lemma verify_indexes_results:
  assumes "verify_indexes env describe srcNs dstNs srcListed dstListed srcId dstId = Inr rs" "r \<in> set rs"
    and "range_order (me_order env)"
    and "named_indexes env srcListed srcId = Inr S" "named_indexes env dstListed dstId = Inr D"
  shows "\<exists>n c ns d. r = index_result n c ns d \<and> n \<in> set (map fst S) \<union> set (map fst D)"
proof -
  from assms(1) obtain qs where q: "rfold (dst_index_step describe srcNs dstNs S D) [] (me_order env (map fst D)) = Inr qs"
    "rs = qs @ map (\<lambda>n. index_result n ClusterTarget dstNs Missing)
        (filter (\<lambda>n. n \<notin> set (map fst D)) (me_order env (map fst S)))"
    by (auto simp: verify_indexes_named [OF assms(4,5)] rbind_eq_Inr)
  have "\<forall>r \<in> set qs. \<exists>n c ns d. r = index_result n c ns d \<and> n \<in> set (map fst D)"
    using q(1)
  proof (rule rfold_inv [where P = "\<lambda>qs. \<forall>r \<in> set qs. \<exists>n c ns d. r = index_result n c ns d \<and> n \<in> set (map fst D)"])
    fix qs n qs'
    assume P: "\<forall>r \<in> set qs. \<exists>n c ns d. r = index_result n c ns d \<and> n \<in> set (map fst D)"
      and n: "n \<in> set (me_order env (map fst D))" and step: "dst_index_step describe srcNs dstNs S D qs n = Inr qs'"
    from n have "n \<in> set (map fst D)" by (simp add: range_order_set [OF assms(3)])
    moreover from step have "qs' = qs \<or> (\<exists>c ns d. qs' = qs @ [index_result n c ns d])"
      by (auto simp: dst_index_step_def rbind_eq_Inr split: option.splits)
    ultimately show "\<forall>r \<in> set qs'. \<exists>n c ns d. r = index_result n c ns d \<and> n \<in> set (map fst D)"
      using P by (metis (no_types, lifting) Un_iff empty_iff empty_set insert_iff list.simps(15) set_append)
  qed simp
  moreover have "\<exists>n. r = index_result n ClusterTarget dstNs Missing \<and> n \<in> set (map fst S)" if "r \<notin> set qs"
    using q(2) assms(2) that range_order_set [OF assms(3)] by auto
  ultimately show ?thesis by blast
qed

lemma raw_lookup_Some: "raw_lookup unmarshal doc keys = Inr (Some x) \<Longrightarrow> \<exists>v. unmarshal v = Inr x"
  by (cases "lookup_err doc keys") (auto simp: raw_lookup_def rbind_eq_Inr split: go_error.splits)

lemma add_index_spec_name:
  "add_index_spec toString m spec = Inr m' \<Longrightarrow> \<exists>n v. toString v = Inr n \<and> m' = AList.update n spec m"
  by (auto simp: add_index_spec_def rbind_eq_Inr split: option.splits dest!: raw_lookup_Some) blast

lemma index_names_short:
  assumes "named_indexes env listed idIndex = Inr m" "n \<in> set (map fst m)"
    and "\<And>v n. me_toString env v = Inr n \<Longrightarrow> length n + 5 < 2 ^ 31"
  shows "length n + 5 < 2 ^ 31"
proof -
  from assms(1) obtain m0 where m0: "get_indexes_map (me_toString env) listed = Inr m0"
    "map fst m = map fst (with_id_index idIndex m0)"
    by (auto simp: named_indexes_def rbind_eq_Inr normalize_specs_keys split: if_splits)
  then obtain specs where "rfold (add_index_spec (me_toString env)) [] specs = Inr m0"
    by (auto simp: get_indexes_map_def rbind_eq_Inr)
  then have "\<forall>n \<in> set (map fst m0). length n + 5 < 2 ^ 31"
  proof (rule rfold_inv [where P = "\<lambda>m. \<forall>n \<in> set (map fst m). length n + 5 < 2 ^ 31"])
    fix m spec m'
    assume "\<forall>n \<in> set (map fst m). length n + 5 < 2 ^ 31" "add_index_spec (me_toString env) m spec = Inr m'"
    then show "\<forall>n \<in> set (map fst m'). length n + 5 < 2 ^ 31"
      using assms(3) by (auto simp only: update_keys set_append list.set dest!: add_index_spec_name split: if_splits)
  qed simp
  with m0(2) assms(2) show ?thesis
    by (auto simp: with_id_index_def dom_update split: option.splits)
qed

text \<open>C31: Every problem the metadata checks report has a form the web API knows: reporting it never fails an assertion.\<close>

theorem metadata_problems_presentable:
  assumes "metadata_problems tc ans t src dst = Inr (probs, c)" "r \<in> set probs"
    and "range_order (me_order (tc_meta tc))" "\<And>v n. me_toString (tc_meta tc) v = Inr n \<Longrightarrow> length n + 5 < 2 ^ 31"
  shows "\<exists>info. APINSMismatchInfo r = Inr info"
proof -
  have idx: "presentable r" if v: "verify_indexes (tc_meta tc) d srcNs dstNs a b x y = Inr ip" "r \<in> set ip" for d srcNs dstNs a b x y ip
  proof -
    from v(1) obtain S D where n: "named_indexes (tc_meta tc) a x = Inr S" "named_indexes (tc_meta tc) b y = Inr D"
      by (auto simp: verify_indexes_def named_indexes_def rbind_eq_Inr Let_def)
    have "length n + 5 < 2 ^ 31" if "n \<in> set (map fst S) \<union> set (map fst D)" for n
      using that index_names_short [OF n(1), of n] index_names_short [OF n(2), of n] assms(4) by blast
    with verify_indexes_results [OF v assms(3) n] show ?thesis using presentable_index by blast
  qed
  from assms(1) obtain sp vd where
    sp: "compare_collection_specifications (tc_meta tc) (task_src_ns t) (task_dst_ns t) src dst = Inr (sp, vd)"
    by (auto simp: metadata_problems_def rbind_eq_Inr)
  have "presentable r"
  proof (cases vd)
    case False
    with assms(1,2) sp show ?thesis
      using specification_problems_presentable [OF sp] by (auto simp: metadata_problems_def)
  next
    case True
    with assms(1) sp obtain ip hp where p: "verify_indexes (tc_meta tc) (ca_describe ans) (task_src_ns t) (task_dst_ns t)
          (ca_srcIndexes ans) (ca_dstIndexes ans) (csp_IDIndex src) (csp_IDIndex dst) = Inr ip"
        "verify_sharding_if_needed (tc_meta tc) (ca_serverMatch ans) (task_src_ns t)
          (ca_srcShardKey ans) (ca_dstShardKey ans) = Inr hp" "probs = sp @ ip @ hp"
      by (auto simp: metadata_problems_def rbind_eq_Inr)
    with assms(2) idx [OF p(1)] sharding_problems_presentable [OF p(2)] specification_problems_presentable [OF sp]
    show ?thesis by auto
  qed
  then show ?thesis by (cases "APINSMismatchInfo r") (simp_all add: presentable_def)
qed

text \<open>An index whose name is the text the specification's problems carry is presented as one of them.\<close>

lemma index_named_spec:
  "APINSMismatchInfo (index_result ''spec'' cluster ns details) = Inr info \<Longrightarrow>
     nsm_Aspect info = AspectSpec \<and> nsm_Component info = Some ''index''"
  by (auto simp: APINSMismatchInfo_def Let_def index_result_def)

section \<open>Which specifications differ\<close>

definition capped_option :: "(string \<times> bval) list \<Rightarrow> bool" where
  "capped_option kvs \<longleftrightarrow> map_option (boolean_ok \<circ> enc_bval) (map_of kvs ''capped'') = Some (Some True)"

lemma is_capped_tree:
  assumes "wf_bval (BDoc kvs)"
  shows "is_capped_option (tree_bytes kvs) = Inr (capped_option kvs)"
proof (cases "map_of kvs ''capped''")
  case None
  with lookup_tree [OF assms, of "''capped''"] show ?thesis
    by (simp add: is_capped_option_def raw_lookup_zero_def capped_option_def boolean_ok_def rv_zero_def cast_bool_def
        del: map_of_eq_None_iff)
next
  case (Some v)
  with lookup_tree [OF assms, of "''capped''"] show ?thesis
    by (simp add: is_capped_option_def raw_lookup_zero_def capped_option_def)
qed

lemma option_results_trees:
  assumes "wf_bval (BDoc a)" "wf_bval (BDoc b)" "range_order (me_order env)"
  shows "\<exists>rs. option_results env srcNs dstNs (tree_bytes a) (tree_bytes b) = Inr rs
    \<and> (rs = [] \<longleftrightarrow> tree_bytes a = tree_bytes b)"
proof -
  from details_of_trees [OF assms] obtain r where
    r: "BsonUnorderedCompareRawDocumentWithDetails (me_order env) (tree_bytes a) (tree_bytes b) = Inr r"
    by (auto simp: tree_bytes_def)
  show ?thesis
  proof (cases r)
    case None
    with r show ?thesis by (simp add: option_results_def)
  next
    case (Some md)
    from mismatch_results_fields [OF assms(1,2), of md srcNs "string_value ''spec''" "''options.''"] obtain rs where
      rs: "mismatch_results md (tree_bytes a) (tree_bytes b) srcNs (string_value ''spec'') ''options.'' = Inr rs"
        "map res_Field rs = map ((@) ''options.'') (missingFieldOnSrc md @ missingFieldOnDst md @ fieldContentsDiffer md)"
      by blast
    have "missingFieldOnSrc md @ missingFieldOnDst md @ fieldContentsDiffer md \<noteq> []"
      using details_not_empty [OF assms] r Some by (simp add: tree_bytes_def)
    with rs have "rs \<noteq> []" by auto
    with r Some rs show ?thesis by (simp add: option_results_def Let_def)
  qed
qed

text \<open>The specifications of a collection on both sides differ, for the comparison, exactly when their types, their
  read-only flags or their normalised options do. The documents are compared exactly when both are plain
  collections and both or neither are capped; an absent \<open>capped\<close> means the same as a false one.\<close>

theorem specification_verdict:
  assumes "csp_Type src = csp_Type dst \<Longrightarrow> \<exists>p. type_can_compare env (csp_Type src) = Inr p"
    and "normalized_options env (csp_Options src) = Inr (tree_bytes a)" "wf_bval (BDoc a)"
    and "normalized_options env (csp_Options dst) = Inr (tree_bytes b)" "wf_bval (BDoc b)" "range_order (me_order env)"
  shows "\<exists>rs c. compare_collection_specifications env srcNs dstNs src dst = Inr (rs, c)
    \<and> (rs = [] \<longleftrightarrow> csp_Type src = csp_Type dst \<and> csp_ReadOnly src = csp_ReadOnly dst \<and> tree_bytes a = tree_bytes b)
    \<and> (c \<longleftrightarrow> csp_Type src = ''collection'' \<and> csp_Type dst = ''collection'' \<and> capped_option a = capped_option b)"
proof (cases "csp_Type src = csp_Type dst")
  case False
  then show ?thesis by (auto simp: compare_collection_specifications_def)
next
  case True
  from assms(1) [OF True] obtain p where p: "type_can_compare env (csp_Type src) = Inr p" by blast
  from option_results_trees [OF assms(3,5,6), of srcNs dstNs] obtain os where
    "option_results env srcNs dstNs (tree_bytes a) (tree_bytes b) = Inr os" "os = [] \<longleftrightarrow> tree_bytes a = tree_bytes b" by blast
  then show ?thesis
    using True p type_can_compare_iff [OF p] assms(2,4) is_capped_tree [OF assms(3)] is_capped_tree [OF assms(5)]
    by (auto simp: compare_collection_specifications_def read_only_results_def)
qed

section \<open>A collection that became read-only\<close>

definition example_info :: cluster_info where
  "example_info = \<lparr>ci_VersionArray = [7, 0, 0], ci_Topology = TopologyReplset, ci_Flavor = FlavorMongoDB\<rparr>"

definition example_meta :: metadata_env where
  "example_meta = \<lparr>me_srcInfo = Some example_info, me_dstInfo = Some example_info, me_verifyAll = True, me_order = id,
     me_show = (\<lambda>_. []), me_toString = (\<lambda>_. Inr ''by_name'')\<rparr>"

definition plain_spec :: "bool \<Rightarrow> collection_spec" where
  "plain_spec ro = \<lparr>csp_Type = ''collection'', csp_Options = tree_bytes [], csp_ReadOnly = ro, csp_IDIndex = None, csp_Extra = []\<rparr>"

definition example_collection_answers :: collection_answers where
  "example_collection_answers = \<lparr>ca_srcSpecs = Inr [plain_spec False], ca_dstSpecs = Inr [plain_spec True],
     ca_stats = Inr \<lparr>cs_bytes = 0, cs_docs = 0, cs_capped = False\<rparr>, ca_describe = (\<lambda>_ _. Inr None),
     ca_srcIndexes = Inr [], ca_dstIndexes = Inr [], ca_serverMatch = (\<lambda>_ _. Inr True),
     ca_srcShardKey = Inr None, ca_dstShardKey = Inr None\<rparr>"

definition example_collection_task :: task where
  "example_collection_task = example_task\<lparr>tk_Type := VerifyCollection, tk_Generation := Some 1\<rparr>"

definition example_context :: task_context where
  "example_context = \<lparr>tc_env = example_verifier\<lparr>ve_generation := 1\<rparr>, tc_meta = example_meta,
     tc_nsMap = new_nsmap, tc_fresh = pg_fresh sample_target\<rparr>"

lemma example_not_documentdb [simp]: "src_is_documentdb (me_srcInfo example_meta) = False"
  by (simp add: src_is_documentdb_def example_meta_def example_info_def is_documentdb_def)

lemma plain_specs_differ:
  "compare_collection_specifications example_meta n m (plain_spec False) (plain_spec True) =
     Inr (read_only_results m (plain_spec False) (plain_spec True), True)"
proof -
  have "is_capped_option (tree_bytes []) = Inr False"
    using is_capped_tree [of "[]"] by (simp add: capped_option_def small_def body_len_def)
  then show ?thesis
    by (simp add: compare_collection_specifications_def plain_spec_def normalized_options_def option_results_def type_can_compare_def)
qed

lemma example_problems:
  "metadata_problems example_context example_collection_answers example_collection_task (plain_spec False) (plain_spec True) =
     Inr (read_only_results (task_dst_ns example_collection_task) (plain_spec False) (plain_spec True), True)"
proof -
  have "verify_sharding_if_needed example_meta f n a b = Inr []" for f n a b
    by (simp add: verify_sharding_if_needed_def is_sharded_cluster_def example_meta_def example_info_def deref_def)
  moreover have "verify_indexes example_meta d n m (Inr []) (Inr []) None None = Inr []" for d n m
    by (simp add: verify_indexes_def get_indexes_map_def with_id_index_def Let_def) (simp add: example_meta_def)
  ultimately show ?thesis
    by (simp add: metadata_problems_def plain_specs_differ example_context_def)
      (simp add: example_collection_answers_def plain_spec_def)
qed

lemma example_metadata_ready: "metadata_ready example_context example_collection_task ''db.c''"
  using sample_fresh
  by (simp add: metadata_ready_def stored_task_def example_collection_task_def example_task_def known_namespace_def
      example_context_def nsmap_len_def new_nsmap_def fresh_ids_def task_src_ns_def coll_full_name_def)

definition example_collection_state :: verifier_state where
  "example_collection_state = example_state\<lparr>vs_tasks := [example_collection_task]\<rparr>"

definition example_config :: partition_config where
  "example_config = \<lparr>pc_scheme = SchemeID, pc_srcIsDocumentDB = False, pc_version = [6, 0], pc_partitionBytes = 1024,
     pc_rnd = (\<lambda>q. q), pc_transient = (\<lambda>_. False)\<rparr>"

definition example_partition_answers :: partition_answers where
  "example_partition_answers = \<lparr>pa_shardKeyFields = Inr [], pa_walk = [], pa_sample = [], pa_legacy = Inr [],
     pa_clusterInfo = Inr example_info, pa_single = Inr None, pa_natural = Inr None\<rparr>"


theorem specification_verdict_witness:
  "\<exists>rs c. compare_collection_specifications example_meta ''db.c'' ''db.c'' (plain_spec False) (plain_spec True) = Inr (rs, c)
    \<and> rs \<noteq> [] \<and> c"
proof -
  have o: "normalized_options example_meta (csp_Options (plain_spec b)) = Inr (tree_bytes [])" for b
    by (simp add: normalized_options_def plain_spec_def)
  have w: "wf_bval (BDoc [])" by (simp add: small_def body_len_def)
  from specification_verdict [OF _ o w o w, of False True "''db.c''" "''db.c''"] show ?thesis
    by (auto simp: example_meta_def plain_spec_def type_can_compare_def)
qed

theorem metadata_problems_presentable_witness:
  "\<exists>probs c info. metadata_problems example_context example_collection_answers example_collection_task
       (plain_spec False) (plain_spec True) = Inr (probs, c) \<and> probs \<noteq> [] \<and> APINSMismatchInfo (hd probs) = Inr info"
proof -
  have e: "range_order (me_order (tc_meta example_context))"
    "\<And>v n. me_toString (tc_meta example_context) v = Inr n \<Longrightarrow> length n + 5 < 2 ^ 31"
    by (auto simp: example_context_def example_meta_def)
  from metadata_problems_presentable [OF example_problems _ e, of "hd (read_only_results
      (task_dst_ns example_collection_task) (plain_spec False) (plain_spec True))"] example_problems show ?thesis
    by (auto simp: read_only_results_def plain_spec_def)
qed

text \<open>An index on the source that the destination lacks.\<close>

theorem verify_indexes_exact_witness:
  "\<exists>rs. verify_indexes example_meta (\<lambda>_ _. Inr None) ''db.c'' ''db.c'' (Inr []) (Inr []) (Some []) None = Inr rs
    \<and> set rs = {index_result ''_id'' ClusterTarget ''db.c'' Missing}"
proof -
  have n: "named_indexes example_meta (Inr []) (Some []) = Inr [(''_id'', [])]"
    "named_indexes example_meta (Inr []) None = Inr []"
    by (simp_all add: named_indexes_def get_indexes_map_def with_id_index_def)
  have "range_order (me_order example_meta)" by (simp add: example_meta_def)
  from verify_indexes_exact [OF n this, of "\<lambda>_ _. Inr None" "''db.c''" "''db.c''"] show ?thesis
    by (auto simp: index_verdict_def split: if_splits)
qed

end
