(* ===== verification/Change_Stream.thy ===== *)
theory Change_Stream
  imports Keystring Oplog Recheck_Queue Compare_Result Partitioning
begin

text \<open>
  The change stream reader (\<open>internal/verifier/change_stream.go\<close>, \<open>change_reader.go\<close>): what its pipeline
  selects, how a response becomes a batch of events, the loop until writes are off on MongoDB and the
  drain on DocumentDB, how the stream is opened, and the resume token. A server response is a
  parameter: its events, the error it may be, the resume token and the session's clock after it.
  Cancellation and logging are left out.
\<close>

section \<open>The pipeline\<close>

record change_reader_env =
  ce_namespaces :: "string list"
  ce_readerType :: whichCluster
  ce_clusterInfo :: cluster_info
  ce_metaDB :: string
  ce_onDDL :: ddl_handling

text \<open>
  The stages, by what they do: \<open>AddDocID True\<close> is the one that also removes unused fields.
\<close>

datatype pipeline_stage =
    MatchNotDBPrefix "string list"
  | MatchNamespaces "(string \<times> string) list"
  | AddDocID bool
  | AddFullDocLen

definition ExcludedDBPrefixes :: "string list" where
  "ExcludedDBPrefixes = [''mongosync_internal_'', ''mongosync_reserved_'', ''__mdb_internal'']"

definition ExcludedSystemDBs :: "string list" where
  "ExcludedSystemDBs = [''admin'', ''config'', ''local'']"

definition get_change_stream_filter :: "change_reader_env \<Rightarrow> go_error + pipeline_stage list" where
  "get_change_stream_filter env =
     (let docdb = is_documentdb (ci_Flavor (ce_clusterInfo env));
          base = (if ce_namespaces env = [] then [MatchNotDBPrefix (ExcludedDBPrefixes @ [ce_metaDB env])]
                  else [MatchNamespaces (map split_namespace (ce_namespaces env))]) @ [AddDocID (\<not> docdb)]
      in if docdb then Inr base
         else rbind (version_pair (ci_VersionArray (ce_clusterInfo env))) (\<lambda>va.
           Inr (base @ (if cluster_has_bson_size va then [AddFullDocLen] else []))))"

text \<open>An event on the server, and what the documented meaning of the stages makes of it.\<close>

record server_event =
  se_opType :: string
  se_db :: string
  se_coll :: string
  se_documentKeyID :: "raw_value option"
  se_docID :: "raw_value option"
  se_fullDocument :: "bytes option"
  se_fullDocLen :: "nat option"
  se_clusterTime :: timestamp

fun run_stage :: "pipeline_stage \<Rightarrow> server_event \<Rightarrow> server_event option" where
  "run_stage (MatchNotDBPrefix prefixes) ev =
     (if list_ex (has_prefix (se_db ev)) prefixes then None else Some ev)"
| "run_stage (MatchNamespaces nss) ev = (if (se_db ev, se_coll ev) \<in> set nss then Some ev else None)"
| "run_stage (AddDocID prune) ev =
     Some (ev\<lparr>se_docID := se_documentKeyID ev, se_documentKeyID := (if prune then None else se_documentKeyID ev)\<rparr>)"
| "run_stage AddFullDocLen ev =
     Some (ev\<lparr>se_fullDocLen := map_option length (se_fullDocument ev), se_fullDocument := None\<rparr>)"

fun run_pipeline :: "pipeline_stage list \<Rightarrow> server_event \<Rightarrow> server_event option" where
  "run_pipeline [] ev = Some ev"
| "run_pipeline (st # sts) ev = (case run_stage st ev of None \<Rightarrow> None | Some ev' \<Rightarrow> run_pipeline sts ev')"

definition parsed_of :: "server_event \<Rightarrow> parsed_event" where
  "parsed_of ev = \<lparr>pe_OpType = se_opType ev, pe_Ns = Some \<lparr>ns_DB = se_db ev, ns_Coll = se_coll ev\<rparr>, pe_DocID = se_docID ev,
     pe_FullDocument = se_fullDocument ev, pe_FullDocLen = map_option word_of_nat (se_fullDocLen ev),
     pe_ClusterTime = Some (se_clusterTime ev)\<rparr>"

section \<open>The collections that are verified\<close>

text \<open>
  \<open>ListAllUserNamespaces\<close> (\<open>list_namespaces.go\<close>): the databases and the collections the server has are
  parameters, its filters are in the definition.
\<close>

definition list_all_user_namespaces :: "string list \<Rightarrow> go_error + string list \<Rightarrow> (string \<Rightarrow> go_error + string list)
     \<Rightarrow> go_error + string list" where
  "list_all_user_namespaces additionalExcludedDBs databases collections =
     rbind databases (\<lambda>all.
       let dbNames = filter (\<lambda>db. db \<notin> set (additionalExcludedDBs @ ExcludedSystemDBs)
             \<and> \<not> list_ex (has_prefix db) ExcludedDBPrefixes) all
       in rfold (\<lambda>nss db. rbind (collections db) (\<lambda>colls. Inr (nss @ map (\<lambda>c. db @ ''.'' @ c)
            (filter (\<lambda>c. \<not> has_prefix c ''system.'' \<or> has_prefix c ''system.buckets.'') colls)))) [] dbNames)"

section \<open>The time in a resume token\<close>

definition extract_ts_from_change_stream_resume_token :: "bytes \<Rightarrow> go_error + timestamp" where
  "extract_ts_from_change_stream_resume_token token =
     (if token = [] then Inl (Panic ''resume token is empty but should never be'')
      else rbind (lookup_err token [''_data'']) (\<lambda>rv.
           rbind (cast_string rv) (\<lambda>tokenData.
           rbind (keystring_to_bson V1 (Hex tokenData)) (\<lambda>d. case d of
               [] \<Rightarrow> Inl (Panic ''index out of range'')
             | (_, KTimestamp ts) # _ \<Rightarrow> Inr ts
             | _ \<Rightarrow> Inl (Err ''first element is not a timestamp'')))))"

section \<open>The reader\<close>

record reader_timestamps =
  rt_LastHandled :: timestamp
  rt_LastOperation :: timestamp

record change_reader =
  cr_lastChangeEventTime :: "timestamp option"
  cr_lastSeenClusterTime :: "timestamp option"
  cr_currentTimestamps :: "reader_timestamps option"
  cr_running :: bool
  cr_startAtTS :: "timestamp option"
  cr_sent :: "(parsed_event list \<times> bytes) list"
  cr_eventCounts :: event_counts
  cr_persisted :: "(bytes \<times> event_counts) option"

type_synonym 'a ract = "(change_reader, go_error, 'a) act"

definition amodify :: "(change_reader \<Rightarrow> change_reader) \<Rightarrow> unit ract" where
  "amodify f = (\<lambda>r. (Inr (), f r))"

definition ts_before :: "timestamp \<Rightarrow> timestamp \<Rightarrow> bool" where
  "ts_before a b \<longleftrightarrow> ts_after b a"

definition lag_seconds :: "reader_timestamps \<Rightarrow> int" where
  "lag_seconds rp = uint (ts_T (rt_LastOperation rp)) - uint (ts_T (rt_LastHandled rp))"

definition get_start_timestamp :: "change_reader \<Rightarrow> go_error + timestamp" where
  "get_start_timestamp r = (case cr_startAtTS r of None \<Rightarrow> Inl (Panic ''no start timestamp yet?!?'') | Some t \<Rightarrow> Inr t)"

text \<open>The argument of \<open>OrElse\<close> is evaluated in any case.\<close>

definition get_read_concern_timestamp :: "change_reader \<Rightarrow> go_error + timestamp" where
  "get_read_concern_timestamp r = rbind (get_start_timestamp r) (\<lambda>start.
     Inr (case cr_lastSeenClusterTime r of None \<Rightarrow> start | Some t \<Rightarrow> t))"

definition position_timestamp :: "change_reader_env \<Rightarrow> bytes \<Rightarrow> change_reader \<Rightarrow> go_error + timestamp" where
  "position_timestamp env token r =
     (if \<not> is_documentdb (ci_Flavor (ce_clusterInfo env)) then extract_ts_from_change_stream_resume_token token
      else case cr_lastChangeEventTime r of
             Some ts \<Rightarrow> Inr ts
           | None \<Rightarrow> (case cr_lastSeenClusterTime r of
               Some ts \<Rightarrow> Inr ts
             | None \<Rightarrow> Inl (Err ''no position timestamp yet'')))"

section \<open>A response becomes a batch\<close>

record stream_response =
  sr_events :: "bytes list"
  sr_error :: "go_error option"
  sr_token :: bytes
  sr_session :: session

definition supportedEventOpTypes :: "string list" where
  "supportedEventOpTypes = [''insert'', ''update'', ''replace'', ''delete'']"

text \<open>The event in the new slice's zero value, and the checks on it.\<close>

definition decode_change_event :: "change_reader_env \<Rightarrow> bytes \<Rightarrow> go_error + parsed_event" where
  "decode_change_event env raw =
     rbind (unmarshal_event zero_event raw) (\<lambda>ev.
     rbind (if pe_OpType ev \<in> set supportedEventOpTypes then Inr ()
            else if ce_onDDL env = OnDDLAllow then Inr ()
            else if ce_onDDL env = OnDDLWarnMost \<and> pe_OpType ev \<in> set allowedSrcDDLOpTypes then Inr ()
            else Inl (Err ''received event with unknown optype'')) (\<lambda>_.
     if pe_Ns ev = None then Inl (Err ''Change event lacks a namespace'') else Inr ev))"

definition note_event_time :: "parsed_event \<Rightarrow> change_reader \<Rightarrow> change_reader" where
  "note_event_time ev r = (case pe_ClusterTime ev of
       Some t \<Rightarrow> if ts_before (ts_or_zero (cr_lastChangeEventTime r)) t then r\<lparr>cr_lastChangeEventTime := Some t\<rparr> else r
     | None \<Rightarrow> r)"

definition handle_change_event :: "change_reader_env \<Rightarrow> parsed_event list \<Rightarrow> bytes \<Rightarrow> parsed_event list ract" where
  "handle_change_event env events raw =
     abind (alift (decode_change_event env raw)) (\<lambda>ev.
     abind (amodify (note_event_time ev)) (\<lambda>_. areturn (events @ [ev])))"

definition update_last_seen_cluster_time :: "change_reader_env \<Rightarrow> session \<Rightarrow> unit ract" where
  "update_last_seen_cluster_time env sess =
     (case get_session_timestamp (ci_Flavor (ce_clusterInfo env)) sess of
        Inr t \<Rightarrow> amodify (\<lambda>r. r\<lparr>cr_lastSeenClusterTime := Some t\<rparr>)
      | Inl e \<Rightarrow> if is_panic e then afail e else areturn ())"

definition update_timestamps :: "change_reader_env \<Rightarrow> session \<Rightarrow> bytes \<Rightarrow> unit ract" where
  "update_timestamps env sess token =
     (case ss_OperationTime sess of
        None \<Rightarrow> if is_documentdb (ci_Flavor (ce_clusterInfo env)) then areturn ()
                else afail (Panic ''session operationTime is nil'')
      | Some opTime \<Rightarrow> (\<lambda>r. (case position_timestamp env token r of
            Inr t \<Rightarrow> (Inr (), r\<lparr>cr_currentTimestamps := Some \<lparr>rt_LastHandled = t, rt_LastOperation = opTime\<rparr>\<rparr>)
          | Inl e \<Rightarrow> if is_panic e then (Inl e, r) else (Inr (), r))))"

definition read_and_handle_one_change_event_batch :: "change_reader_env \<Rightarrow> stream_response \<Rightarrow> nat ract" where
  "read_and_handle_one_change_event_batch env resp =
     (case sr_error resp of
        Some e \<Rightarrow> afail e
      | None \<Rightarrow>
          abind (afold (handle_change_event env) [] (sr_events resp)) (\<lambda>events.
          abind (update_last_seen_cluster_time env (sr_session resp)) (\<lambda>_.
          abind (update_timestamps env (sr_session resp) (sr_token resp)) (\<lambda>_.
          abind (amodify (\<lambda>r. r\<lparr>cr_sent := cr_sent r @ [(events, sr_token resp)]\<rparr>)) (\<lambda>_.
            areturn (length events))))))"

section \<open>Until writes are off\<close>

definition finish_reader :: "timestamp \<Rightarrow> change_reader \<Rightarrow> change_reader" where
  "finish_reader ts r = r\<lparr>cr_running := False, cr_startAtTS := Some ts\<rparr>"

text \<open>\<open>token\<close> is the stream's resume token before the next response; \<open>Waiting\<close> when no response is left.\<close>

fun read_stream_until :: "change_reader_env \<Rightarrow> timestamp \<Rightarrow> bytes \<Rightarrow> stream_response list \<Rightarrow> reader_end ract" where
  "read_stream_until env writesOffTs token responses =
     abind (alift (extract_ts_from_change_stream_resume_token token)) (\<lambda>curTs.
       if \<not> ts_before curTs writesOffTs
       then abind (amodify (finish_reader curTs)) (\<lambda>_. areturn Done)
       else (case responses of
           [] \<Rightarrow> areturn Waiting
         | resp # rest \<Rightarrow> abind (read_and_handle_one_change_event_batch env resp) (\<lambda>_.
             read_stream_until env writesOffTs (sr_token resp) rest)))"

declare read_stream_until.simps [simp del]

definition docDBDrainIdlePolls :: nat where "docDBDrainIdlePolls = 3"

text \<open>Where the drain ends after a response: past an event at the writes-off time, or idle with the clock past it.\<close>

definition idle_end :: "timestamp \<Rightarrow> nat \<Rightarrow> change_reader \<Rightarrow> timestamp option" where
  "idle_end writesOffTs idlePolls r =
     (case cr_lastSeenClusterTime r of
        Some serverTs \<Rightarrow> if \<not> ts_before serverTs writesOffTs \<and> idlePolls \<ge> docDBDrainIdlePolls then Some serverTs else None
      | None \<Rightarrow> None)"

definition drain_end :: "timestamp \<Rightarrow> nat \<Rightarrow> change_reader \<Rightarrow> timestamp option" where
  "drain_end writesOffTs idlePolls r =
     (case cr_lastChangeEventTime r of
        Some eventTs \<Rightarrow> if \<not> ts_before eventTs writesOffTs then Some eventTs else idle_end writesOffTs idlePolls r
      | None \<Rightarrow> idle_end writesOffTs idlePolls r)"

fun drain_documentdb_until_quiesced :: "change_reader_env \<Rightarrow> timestamp \<Rightarrow> nat \<Rightarrow> stream_response list
     \<Rightarrow> timestamp option ract" where
  "drain_documentdb_until_quiesced env writesOffTs idlePolls [] = areturn None"
| "drain_documentdb_until_quiesced env writesOffTs idlePolls (resp # rest) =
     abind (read_and_handle_one_change_event_batch env resp) (\<lambda>eventsRead.
       let idlePolls = (if eventsRead = 0 then idlePolls + 1 else 0)
       in abind (aread (\<lambda>r. Inr (drain_end writesOffTs idlePolls r))) (\<lambda>fin. case fin of
            Some ts \<Rightarrow> areturn (Some ts)
          | None \<Rightarrow> drain_documentdb_until_quiesced env writesOffTs idlePolls rest))"

text \<open>Each response comes with the writes-off time if it was set before it is waited for.\<close>

fun iterate_change_stream :: "change_reader_env \<Rightarrow> bytes \<Rightarrow> (timestamp option \<times> stream_response) list \<Rightarrow> reader_end ract" where
  "iterate_change_stream env token [] = areturn Waiting"
| "iterate_change_stream env token ((None, resp) # rest) =
     abind (read_and_handle_one_change_event_batch env resp) (\<lambda>_. iterate_change_stream env (sr_token resp) rest)"
| "iterate_change_stream env token ((Some writesOffTs, resp) # rest) =
     (if is_documentdb (ci_Flavor (ce_clusterInfo env))
      then abind (drain_documentdb_until_quiesced env writesOffTs 0 (resp # map snd rest)) (\<lambda>finalTs. case finalTs of
             None \<Rightarrow> areturn Waiting
           | Some ts \<Rightarrow> abind (amodify (finish_reader ts)) (\<lambda>_. areturn Done))
      else read_stream_until env writesOffTs token (resp # map snd rest))"

section \<open>Opening the stream\<close>

record watch_request =
  wt_startAfter :: "bytes option"
  wt_resumeAfter :: "bytes option"
  wt_expandedEvents :: bool
  wt_pipeline :: "pipeline_stage list"

definition persist_resume_token :: "change_reader_env \<Rightarrow> go_error + unit \<Rightarrow> bytes \<Rightarrow> unit ract" where
  "persist_resume_token env replaced token =
     (let docdb = is_documentdb (ci_Flavor (ce_clusterInfo env))
      in if token = []
         then afail (if docdb then Err ''empty resume token'' else Panic ''resume token is empty but should never be'')
         else abind (aread (\<lambda>r. case position_timestamp env token r of
                Inl e \<Rightarrow> if is_panic e \<or> \<not> docdb then Inl e else Inr ()
              | Inr ts \<Rightarrow> if ts = ts_zero \<and> \<not> docdb then Inl (Panic ''empty ts in resume token is invalid!'') else Inr ())) (\<lambda>_.
              abind (alift replaced) (\<lambda>_. amodify (\<lambda>r. r\<lparr>cr_persisted := Some (token, cr_eventCounts r)\<rparr>))))"

text \<open>The document found, if any: the token and the counts, which become the reader's.\<close>

definition load_resume_token :: "go_error + unit \<Rightarrow> bytes option ract" where
  "load_resume_token found = abind (alift found) (\<lambda>_. (\<lambda>r. (case cr_persisted r of
       None \<Rightarrow> (Inr None, r)
     | Some (token, counts) \<Rightarrow> (Inr (Some token), r\<lparr>cr_eventCounts := counts\<rparr>))))"

text \<open>
  \<open>op_watched\<close> is the resume token of the stream that was opened, \<open>op_discarded\<close> the token after
  the first response, which is read when there is none yet.
\<close>

record stream_opening =
  op_found :: "go_error + unit"
  op_watched :: "watch_request \<Rightarrow> go_error + bytes"
  op_discarded :: "go_error + bytes"
  op_replaced :: "go_error + unit"
  op_session :: session
  op_historyLost :: "go_error \<Rightarrow> bool"

definition history_lost_error :: go_error where
  "history_lost_error = Err ''cannot resume from its persisted token; restart with --clean''"

definition shows_expanded_events :: "change_reader_env \<Rightarrow> go_error + bool" where
  "shows_expanded_events env =
     (if is_documentdb (ci_Flavor (ce_clusterInfo env)) then Inr False
      else case ci_VersionArray (ce_clusterInfo env) of [] \<Rightarrow> Inl (Panic ''index out of range'') | v # _ \<Rightarrow> Inr (v \<ge> 6))"

text \<open>DocumentDB knows no \<open>startAfter\<close>.\<close>

definition resume_request :: "change_reader_env \<Rightarrow> bytes option \<Rightarrow> watch_request \<Rightarrow> go_error + watch_request" where
  "resume_request env savedToken req =
     rbind (if is_documentdb (ci_Flavor (ce_clusterInfo env)) \<or> savedToken = None then Inr False
            else rbind (version_pair (ci_VersionArray (ce_clusterInfo env))) (\<lambda>va. Inr (cluster_has_change_stream_start_after va))) (\<lambda>after.
       Inr (if after then req\<lparr>wt_startAfter := savedToken\<rparr> else req\<lparr>wt_resumeAfter := savedToken\<rparr>))"

text \<open>The time of the saved token is only logged, so an error is too.\<close>

definition log_position :: "change_reader_env \<Rightarrow> bytes option \<Rightarrow> unit ract" where
  "log_position env savedToken = (case savedToken of
       None \<Rightarrow> areturn ()
     | Some token \<Rightarrow> aread (\<lambda>r. case position_timestamp env token r of
           Inl e \<Rightarrow> if is_panic e then Inl e else Inr () | Inr _ \<Rightarrow> Inr ()))"

definition open_stream :: "stream_opening \<Rightarrow> bytes option \<Rightarrow> watch_request \<Rightarrow> go_error + bytes" where
  "open_stream op savedToken req = (case op_watched op req of
       Inl e \<Rightarrow> Inl (if savedToken \<noteq> None \<and> op_historyLost op e then history_lost_error else e)
     | Inr token \<Rightarrow> Inr token)"

text \<open>Without a saved token the stream's first is saved; the events of its first response are discarded.\<close>

definition ensure_saved_token :: "change_reader_env \<Rightarrow> stream_opening \<Rightarrow> bytes option \<Rightarrow> bytes \<Rightarrow> bytes ract" where
  "ensure_saved_token env op savedToken opened =
     (if savedToken \<noteq> None then areturn opened
      else abind (if opened = [] then alift (op_discarded op) else areturn opened) (\<lambda>token.
           abind (persist_resume_token env (op_replaced op) token) (\<lambda>_. areturn token)))"

definition stream_start_timestamp :: "change_reader_env \<Rightarrow> stream_opening \<Rightarrow> bytes \<Rightarrow> go_error + timestamp" where
  "stream_start_timestamp env op token =
     rbind (get_session_timestamp (ci_Flavor (ce_clusterInfo env)) (op_session op)) (\<lambda>clusterTime.
       if is_documentdb (ci_Flavor (ce_clusterInfo env)) then Inr clusterTime
       else rbind (extract_ts_from_change_stream_resume_token token) (\<lambda>startTs.
         Inr (if ts_after startTs clusterTime then clusterTime else startTs)))"

text \<open>The stream's start time, and its resume token.\<close>

definition create_change_stream :: "change_reader_env \<Rightarrow> stream_opening \<Rightarrow> (timestamp \<times> bytes) ract" where
  "create_change_stream env op =
     abind (alift (get_change_stream_filter env)) (\<lambda>pipeline.
     abind (alift (shows_expanded_events env)) (\<lambda>expanded.
     abind (load_resume_token (op_found op)) (\<lambda>savedToken.
     abind (log_position env savedToken) (\<lambda>_.
     abind (alift (resume_request env savedToken
         \<lparr>wt_startAfter = None, wt_resumeAfter = None, wt_expandedEvents = expanded, wt_pipeline = pipeline\<rparr>)) (\<lambda>req.
     abind (alift (open_stream op savedToken req)) (\<lambda>opened.
     abind (ensure_saved_token env op savedToken opened) (\<lambda>token.
     abind (alift (stream_start_timestamp env op token)) (\<lambda>startTs. areturn (startTs, token)))))))))"

section \<open>What a response changes\<close>

lemma handle_event_eq:
  "handle_change_event env acc raw r = (Inr evs, r') \<longleftrightarrow>
     (\<exists>ev. decode_change_event env raw = Inr ev \<and> evs = acc @ [ev] \<and> r' = note_event_time ev r)"
  by (auto simp: handle_change_event_def abind_eq_Inr amodify_def)

lemma handle_events:
  "afold (handle_change_event env) acc raws r = (Inr evs, r') \<Longrightarrow>
     \<exists>new. map_results (decode_change_event env) raws = Inr new \<and> evs = acc @ new
       \<and> r' = foldl (\<lambda>r ev. note_event_time ev r) r new"
proof (induction raws arbitrary: acc r)
  case (Cons raw raws)
  from Cons.prems obtain ev where ev: "decode_change_event env raw = Inr ev"
    "afold (handle_change_event env) (acc @ [ev]) raws (note_event_time ev r) = (Inr evs, r')"
    by (auto simp: handle_event_eq abind_eq_Inr)
  from Cons.IH [OF ev(2)] ev(1) show ?case by auto
qed auto

lemma note_event_time_other [simp]:
  "cr_sent (note_event_time ev r) = cr_sent r" "cr_running (note_event_time ev r) = cr_running r"
  "cr_persisted (note_event_time ev r) = cr_persisted r" "cr_startAtTS (note_event_time ev r) = cr_startAtTS r"
  by (simp_all add: note_event_time_def split: option.splits)

lemma note_events_other [simp]:
  "cr_sent (foldl (\<lambda>r ev. note_event_time ev r) r evs) = cr_sent r"
  "cr_persisted (foldl (\<lambda>r ev. note_event_time ev r) r evs) = cr_persisted r"
  by (induction evs arbitrary: r) simp_all

lemma update_last_seen_ok:
  assumes "update_last_seen_cluster_time env sess r = (Inr x, r')"
  shows "cr_sent r' = cr_sent r" "cr_persisted r' = cr_persisted r" "cr_lastChangeEventTime r' = cr_lastChangeEventTime r"
    "get_session_timestamp (ci_Flavor (ce_clusterInfo env)) sess = Inr t \<Longrightarrow> cr_lastSeenClusterTime r' = Some t"
  using assms by (auto simp: update_last_seen_cluster_time_def amodify_def split: sum.splits if_splits)

lemma update_timestamps_ok:
  assumes "update_timestamps env sess token r = (Inr x, r')"
  shows "cr_sent r' = cr_sent r" "cr_persisted r' = cr_persisted r" "cr_lastChangeEventTime r' = cr_lastChangeEventTime r"
    "cr_lastSeenClusterTime r' = cr_lastSeenClusterTime r"
  using assms by (auto simp: update_timestamps_def split: option.splits sum.splits if_splits)

lemma read_batch_ok:
  assumes "read_and_handle_one_change_event_batch env resp r = (Inr n, r')"
  shows "\<exists>evs. map_results (decode_change_event env) (sr_events resp) = Inr evs \<and> n = length evs
    \<and> cr_sent r' = cr_sent r @ [(evs, sr_token resp)] \<and> cr_persisted r' = cr_persisted r
    \<and> cr_lastChangeEventTime r' = cr_lastChangeEventTime (foldl (\<lambda>r ev. note_event_time ev r) r evs)
    \<and> (\<forall>t. get_session_timestamp (ci_Flavor (ce_clusterInfo env)) (sr_session resp) = Inr t \<longrightarrow> cr_lastSeenClusterTime r' = Some t)"
proof -
  from assms obtain evs r1 r2 r3 where s: "afold (handle_change_event env) [] (sr_events resp) r = (Inr evs, r1)"
    "update_last_seen_cluster_time env (sr_session resp) r1 = (Inr (), r2)"
    "update_timestamps env (sr_session resp) (sr_token resp) r2 = (Inr (), r3)"
    "r' = r3\<lparr>cr_sent := cr_sent r3 @ [(evs, sr_token resp)]\<rparr>" "n = length evs"
    by (auto simp: read_and_handle_one_change_event_batch_def abind_eq_Inr amodify_def split: option.splits)
  from handle_events [OF s(1)] update_last_seen_ok [OF s(2)] update_timestamps_ok [OF s(3)] s(4,5)
  show ?thesis by (auto simp del: foldl.simps)
qed

definition event_times :: "change_reader_env \<Rightarrow> stream_response list \<Rightarrow> timestamp set" where
  "event_times env resps = {t. \<exists>resp \<in> set resps. \<exists>raw \<in> set (sr_events resp). \<exists>ev.
     decode_change_event env raw = Inr ev \<and> pe_ClusterTime ev = Some t}"

text \<open>The batches that a list of responses is handed on as.\<close>

definition sent_as :: "change_reader_env \<Rightarrow> stream_response list \<Rightarrow> (parsed_event list \<times> bytes) list \<Rightarrow> bool" where
  "sent_as env resps batches \<longleftrightarrow> list_all2 (\<lambda>resp (evs, token).
     map_results (decode_change_event env) (sr_events resp) = Inr evs \<and> token = sr_token resp) resps batches"

text \<open>
  The contract of the server's resume tokens: no event that is still to come is at or before the time
  of the token.
\<close>

fun tokens_cover :: "change_reader_env \<Rightarrow> bytes \<Rightarrow> stream_response list \<Rightarrow> bool" where
  "tokens_cover env token [] = True"
| "tokens_cover env token (resp # rest) \<longleftrightarrow>
     (\<forall>ts. extract_ts_from_change_stream_resume_token token = Inr ts \<longrightarrow>
        (\<forall>t \<in> event_times env (resp # rest). ts_after t ts)) \<and> tokens_cover env (sr_token resp) rest"

lemma read_until_drained:
  assumes "read_stream_until env W token resps r = (Inr Done, r')" "tokens_cover env token resps"
  shows "\<exists>k batches. cr_sent r' = cr_sent r @ batches \<and> sent_as env (take k resps) batches
    \<and> (\<forall>t \<in> event_times env (drop k resps). ts_after t W)
    \<and> \<not> cr_running r' \<and> (\<exists>t. cr_startAtTS r' = Some t \<and> \<not> ts_before t W)"
  using assms
proof (induction resps arbitrary: token r)
  case Nil
  then show ?case
    by (auto simp: read_stream_until.simps abind_eq_Inr amodify_def finish_reader_def sent_as_def event_times_def
        split: if_splits)
next
  case (Cons resp rest)
  from Cons.prems(1) obtain curTs where c: "extract_ts_from_change_stream_resume_token token = Inr curTs"
    by (subst (asm) read_stream_until.simps) (auto simp: abind_eq_Inr)
  show ?case
  proof (cases "ts_before curTs W")
    case False
    then have r': "r' = finish_reader curTs r"
      using Cons.prems(1) c by (subst (asm) read_stream_until.simps) (auto simp: abind_eq_Inr amodify_def)
    have "ts_after t W" if "t \<in> event_times env (resp # rest)" for t
    proof -
      from Cons.prems(2) c that have "ts_after t curTs" by simp
      with False ts_after_total [of W curTs] ts_after_trans show ?thesis by (auto simp: ts_before_def)
    qed
    with r' False show ?thesis
      by (intro exI [of _ 0] exI [of _ "[]"]) (auto simp: finish_reader_def sent_as_def)
  next
    case True
    from Cons.prems(1) c True obtain n r1 where b: "read_and_handle_one_change_event_batch env resp r = (Inr n, r1)"
      "read_stream_until env W (sr_token resp) rest r1 = (Inr Done, r')"
      by (subst (asm) read_stream_until.simps) (auto simp: abind_eq_Inr)
    from read_batch_ok [OF b(1)] obtain evs where e: "map_results (decode_change_event env) (sr_events resp) = Inr evs"
      "cr_sent r1 = cr_sent r @ [(evs, sr_token resp)]" by blast
    from Cons.IH [OF b(2)] Cons.prems(2) obtain k batches where k: "cr_sent r' = cr_sent r1 @ batches"
      "sent_as env (take k rest) batches" "\<forall>t \<in> event_times env (drop k rest). ts_after t W"
      "\<not> cr_running r'" "\<exists>t. cr_startAtTS r' = Some t \<and> \<not> ts_before t W" by auto
    show ?thesis
      by (rule exI [of _ "Suc k"], rule exI [of _ "(evs, sr_token resp) # batches"])
        (use k e in \<open>auto simp: sent_as_def\<close>)
  qed
qed


section \<open>The drain of a DocumentDB stream\<close>

text \<open>DocumentDB delivers events in the order of their times, from the reader's position on.\<close>

definition in_order :: "change_reader_env \<Rightarrow> timestamp set \<Rightarrow> stream_response list \<Rightarrow> bool" where
  "in_order env seen resps \<longleftrightarrow> (\<forall>i. \<forall>t \<in> seen \<union> event_times env (take i resps).
     \<forall>t' \<in> event_times env (drop i resps). \<not> ts_after t t')"

lemma event_times_Cons: "event_times env (resp # rest) = event_times env [resp] \<union> event_times env rest"
  by (auto simp: event_times_def)

lemma in_order_Cons: "in_order env seen (resp # rest) \<Longrightarrow> in_order env (seen \<union> event_times env [resp]) rest"
  unfolding in_order_def
proof (intro allI ballI)
  fix i t t'
  assume o: "\<forall>i. \<forall>t \<in> seen \<union> event_times env (take i (resp # rest)). \<forall>t' \<in> event_times env (drop i (resp # rest)). \<not> ts_after t t'"
    and t: "t \<in> seen \<union> event_times env [resp] \<union> event_times env (take i rest)" "t' \<in> event_times env (drop i rest)"
  from o [rule_format, of t "Suc i" t'] t show "\<not> ts_after t t'"
    by (auto simp: event_times_Cons [of env resp "take i rest"])
qed

lemma map_results_set:
  "map_results f xs = Inr ys \<Longrightarrow> set ys = {y. \<exists>x \<in> set xs. f x = Inr y}"
  by (induction xs arbitrary: ys) (auto simp: rbind_eq_Inr)

lemma last_event_time_from:
  "cr_lastChangeEventTime (foldl (\<lambda>r ev. note_event_time ev r) r evs) = Some t \<Longrightarrow>
     cr_lastChangeEventTime r = Some t \<or> (\<exists>ev \<in> set evs. pe_ClusterTime ev = Some t)"
proof (induction evs arbitrary: r)
  case (Cons ev evs)
  then have "cr_lastChangeEventTime (note_event_time ev r) = Some t \<or> (\<exists>ev \<in> set evs. pe_ClusterTime ev = Some t)" by simp
  then show ?case by (auto simp: note_event_time_def split: option.splits if_splits)
qed simp

lemma note_event_time_grows:
  "\<not> ts_before (ts_or_zero (cr_lastChangeEventTime (note_event_time ev r))) (ts_or_zero (cr_lastChangeEventTime r))"
  "pe_ClusterTime ev = Some t \<Longrightarrow> \<not> ts_before (ts_or_zero (cr_lastChangeEventTime (note_event_time ev r))) t"
  by (auto simp: note_event_time_def ts_before_def ts_or_zero_def ts_after_def split: option.splits)

lemma not_before_trans: "\<not> ts_before b a \<Longrightarrow> \<not> ts_before c b \<Longrightarrow> \<not> ts_before c a"
  unfolding ts_before_def using ts_after_trans ts_after_total by metis

lemma note_events_grow:
  "\<not> ts_before (ts_or_zero (cr_lastChangeEventTime (foldl (\<lambda>r ev. note_event_time ev r) r evs))) (ts_or_zero (cr_lastChangeEventTime r))"
proof (induction evs arbitrary: r)
  case (Cons ev evs)
  from not_before_trans [OF note_event_time_grows(1) Cons.IH [of "note_event_time ev r"]] show ?case by simp
qed (simp add: ts_before_def)

lemma last_event_time_ge:
  "ev \<in> set evs \<Longrightarrow> pe_ClusterTime ev = Some t \<Longrightarrow>
     \<not> ts_before (ts_or_zero (cr_lastChangeEventTime (foldl (\<lambda>r ev. note_event_time ev r) r evs))) t"
proof (induction evs arbitrary: r)
  case (Cons e evs)
  show ?case
  proof (cases "ev = e")
    case True
    with Cons.prems note_event_time_grows(2) [of e t r] note_events_grow [where r = "note_event_time e r" and evs = evs] show ?thesis
      using not_before_trans by fastforce
  qed (use Cons in auto)
qed simp

lemma batch_times:
  "map_results (decode_change_event env) (sr_events resp) = Inr evs \<Longrightarrow>
     event_times env [resp] = {t. \<exists>ev \<in> set evs. pe_ClusterTime ev = Some t}"
  by (auto simp: event_times_def map_results_set)

definition all_empty :: "stream_response list \<Rightarrow> bool" where
  "all_empty resps \<longleftrightarrow> (\<forall>resp \<in> set resps. sr_events resp = [])"

lemma map_results_length: "map_results f xs = Inr ys \<Longrightarrow> length ys = length xs"
  by (induction xs arbitrary: ys) (auto simp: rbind_eq_Inr)

lemma drain_step:
  assumes "read_and_handle_one_change_event_batch env resp r = (Inr n, r1)"
  shows "drain_documentdb_until_quiesced env W idlePolls (resp # rest) r =
    (let i = (if n = 0 then idlePolls + 1 else 0) in case drain_end W i r1 of
       Some ts \<Rightarrow> (Inr (Some ts), r1) | None \<Rightarrow> drain_documentdb_until_quiesced env W i rest r1)"
  by (simp add: assms abind_def Let_def split: option.split)

text \<open>\<open>earlier\<close> are the responses since the last one that held events, \<open>idlePolls\<close> of them.\<close>

lemma drain_reads_all:
  assumes "drain_documentdb_until_quiesced env W idlePolls resps r = (Inr (Some ts), r')"
    and "in_order env seen resps" "set_option (cr_lastChangeEventTime r) \<subseteq> seen"
    and "all_empty earlier" "length earlier = idlePolls"
  shows "\<exists>k batches. cr_sent r' = cr_sent r @ batches \<and> sent_as env (take k resps) batches
    \<and> ((\<forall>t \<in> event_times env (drop k resps). \<not> ts_before t W)
      \<or> (\<exists>pre idle. earlier @ take k resps = pre @ idle \<and> all_empty idle \<and> length idle \<ge> docDBDrainIdlePolls)
        \<and> cr_lastSeenClusterTime r' = Some ts \<and> \<not> ts_before ts W)"
  using assms
proof (induction resps arbitrary: idlePolls r seen earlier)
  case (Cons resp rest)
  from Cons.prems(1) obtain n r1 where b: "read_and_handle_one_change_event_batch env resp r = (Inr n, r1)"
    by (auto simp: abind_eq_Inr)
  let ?i = "if n = 0 then idlePolls + 1 else 0"
  from read_batch_ok [OF b] obtain evs where e: "map_results (decode_change_event env) (sr_events resp) = Inr evs"
    "n = length evs" "cr_sent r1 = cr_sent r @ [(evs, sr_token resp)]"
    "cr_lastChangeEventTime r1 = cr_lastChangeEventTime (foldl (\<lambda>r ev. note_event_time ev r) r evs)" by blast
  let ?e = "if n = 0 then earlier @ [resp] else []"
  have empty: "all_empty ?e" "length ?e = ?i"
    using Cons.prems(4,5) map_results_length [OF e(1)] e(2) by (auto simp: all_empty_def)
  have seen: "set_option (cr_lastChangeEventTime r1) \<subseteq> seen \<union> event_times env [resp]"
  proof
    fix t assume "t \<in> set_option (cr_lastChangeEventTime r1)"
    with e(4) last_event_time_from [where r = r and evs = evs] have
      "cr_lastChangeEventTime r = Some t \<or> (\<exists>ev \<in> set evs. pe_ClusterTime ev = Some t)" by auto
    with Cons.prems(3) show "t \<in> seen \<union> event_times env [resp]" by (auto simp: batch_times [OF e(1)])
  qed
  show ?case
  proof (cases "drain_end W ?i r1")
    case None
    with Cons.prems(1) have d: "drain_documentdb_until_quiesced env W ?i rest r1 = (Inr (Some ts), r')"
      by (simp add: drain_step [OF b] Let_def del: drain_documentdb_until_quiesced.simps)
    from Cons.IH [OF d in_order_Cons [OF Cons.prems(2)] seen empty] obtain k batches where
      k: "cr_sent r' = cr_sent r1 @ batches" "sent_as env (take k rest) batches"
        "(\<forall>t \<in> event_times env (drop k rest). \<not> ts_before t W)
         \<or> (\<exists>pre idle. ?e @ take k rest = pre @ idle \<and> all_empty idle \<and> length idle \<ge> docDBDrainIdlePolls)
           \<and> cr_lastSeenClusterTime r' = Some ts \<and> \<not> ts_before ts W" by blast
    have "\<exists>pre'. earlier @ take (Suc k) (resp # rest) = pre' @ idle" if "?e @ take k rest = pre @ idle" for pre idle
      using that by (cases "n = 0") (auto intro: exI [of _ "earlier @ resp # pre"])
    with k(3) have "(\<forall>t \<in> event_times env (drop (Suc k) (resp # rest)). \<not> ts_before t W)
         \<or> (\<exists>pre idle. earlier @ take (Suc k) (resp # rest) = pre @ idle \<and> all_empty idle \<and> length idle \<ge> docDBDrainIdlePolls)
           \<and> cr_lastSeenClusterTime r' = Some ts \<and> \<not> ts_before ts W"
      by (simp del: take_Suc_Cons) blast
    moreover have "cr_sent r' = cr_sent r @ (evs, sr_token resp) # batches"
      "sent_as env (take (Suc k) (resp # rest)) ((evs, sr_token resp) # batches)"
      using k(1,2) e(1,3) by (simp_all add: sent_as_def)
    ultimately show ?thesis by blast
  next
    case (Some ts')
    with Cons.prems(1) have r': "r' = r1" "ts' = ts" by (simp_all add: drain_step [OF b] Let_def del: drain_documentdb_until_quiesced.simps)
    have "(\<forall>t \<in> event_times env rest. \<not> ts_before t W)
      \<or> ?i \<ge> docDBDrainIdlePolls \<and> cr_lastSeenClusterTime r' = Some ts \<and> \<not> ts_before ts W"
    proof (cases "\<exists>t. cr_lastChangeEventTime r1 = Some t \<and> \<not> ts_before t W")
      case True
      then obtain t where t: "cr_lastChangeEventTime r1 = Some t" "\<not> ts_before t W" by blast
      have "\<not> ts_before t' t" if "t' \<in> event_times env rest" for t'
        using in_order_Cons [OF Cons.prems(2)] seen t(1) that
        by (auto simp: in_order_def ts_before_def dest!: spec [of _ 0])
      with t(2) not_before_trans show ?thesis by blast
    next
      case False
      with Some r' show ?thesis
        by (auto simp: drain_end_def idle_end_def split: option.splits if_splits)
    qed
    moreover have "earlier @ [resp] = (if n = 0 then [] else earlier @ [resp]) @ ?e" by simp
    ultimately show ?thesis
      using r'(1) e(1,3) empty
      by (intro exI [of _ 1] exI [of _ "[(evs, sr_token resp)]"]) (fastforce simp: sent_as_def)
  qed
qed simp

text \<open>When the drain of a DocumentDB stream ends, it has handed on the events of all responses up to one, in order,
  and either no event before the writes-off time is in a later response, or the last three responses
  held no event while the server's clock had passed the writes-off time.\<close>

theorem documentdb_drain_reads_all:
  assumes "drain_documentdb_until_quiesced env W 0 resps r = (Inr (Some ts), r')"
    and "in_order env (set_option (cr_lastChangeEventTime r)) resps"
  shows "\<exists>k batches. cr_sent r' = cr_sent r @ batches \<and> sent_as env (take k resps) batches
    \<and> ((\<forall>t \<in> event_times env (drop k resps). \<not> ts_before t W)
      \<or> (\<exists>pre idle. take k resps = pre @ idle \<and> all_empty idle \<and> length idle \<ge> docDBDrainIdlePolls)
        \<and> cr_lastSeenClusterTime r' = Some ts \<and> \<not> ts_before ts W)"
  using drain_reads_all [OF assms(1,2) subset_refl, of "[]"] by (simp add: all_empty_def)

section \<open>The drain ends\<close>

definition readable :: "change_reader_env \<Rightarrow> stream_response \<Rightarrow> bool" where
  "readable env resp \<longleftrightarrow> sr_error resp = None \<and> is_ok (map_results (decode_change_event env) (sr_events resp))"

lemma handle_events_ok:
  "map_results (decode_change_event env) raws = Inr new \<Longrightarrow>
     afold (handle_change_event env) acc raws r = (Inr (acc @ new), foldl (\<lambda>r ev. note_event_time ev r) r new)"
proof (induction raws arbitrary: acc r new)
  case (Cons raw raws)
  from Cons.prems obtain ev evs where "decode_change_event env raw = Inr ev"
    "map_results (decode_change_event env) raws = Inr evs" "new = ev # evs" by (auto simp: rbind_eq_Inr)
  with Cons.IH [of evs] show ?case by (simp add: abind_eqI [of "handle_change_event env acc raw"] handle_event_eq)
qed simp

lemma documentdb_reads:
  assumes "is_documentdb (ci_Flavor (ce_clusterInfo env))" "readable env resp"
  shows "\<exists>r'. read_and_handle_one_change_event_batch env resp r = (Inr (length (sr_events resp)), r')"
proof -
  from assms(2) obtain evs where e: "map_results (decode_change_event env) (sr_events resp) = Inr evs"
    by (auto simp: readable_def is_ok_def split: sum.splits)
  have s: "\<exists>r'. update_last_seen_cluster_time env sess r = (Inr (), r')" for sess r
    using assms(1) by (auto simp: update_last_seen_cluster_time_def get_session_timestamp_def amodify_def split: option.splits)
  have t: "\<exists>r'. update_timestamps env sess token r = (Inr (), r')" for sess token r
    using assms(1) by (auto simp: update_timestamps_def position_timestamp_def split: option.splits)
  obtain r2 where 2: "update_last_seen_cluster_time env (sr_session resp) (foldl (\<lambda>r ev. note_event_time ev r) r evs) = (Inr (), r2)"
    using s by blast
  obtain r3 where 3: "update_timestamps env (sr_session resp) (sr_token resp) r2 = (Inr (), r3)" using t by blast
  show ?thesis
    using assms(2) handle_events_ok [OF e, of "[]" r] 2 3 map_results_length [OF e]
    by (simp add: read_and_handle_one_change_event_batch_def readable_def abind_def amodify_def)
qed

text \<open>The responses contain three polls without events in a row that end past the writes-off time.\<close>

fun idle_enough :: "change_reader_env \<Rightarrow> timestamp \<Rightarrow> nat \<Rightarrow> stream_response list \<Rightarrow> bool" where
  "idle_enough env W idlePolls [] = False"
| "idle_enough env W idlePolls (resp # rest) =
     (let idlePolls = (if sr_events resp = [] then idlePolls + 1 else 0)
      in (idlePolls \<ge> docDBDrainIdlePolls
            \<and> (case get_session_timestamp (ci_Flavor (ce_clusterInfo env)) (sr_session resp) of
                 Inr t \<Rightarrow> \<not> ts_before t W | Inl _ \<Rightarrow> False))
         \<or> idle_enough env W idlePolls rest)"

text \<open>C30: The drain of a DocumentDB stream ends when the responses can be read and either an event at or after the
  writes-off time is among them, even if writes never stop, or three of them in a row are empty, the last
  with the server's clock past the writes-off time.\<close>

theorem documentdb_drain_ends:
  assumes "is_documentdb (ci_Flavor (ce_clusterInfo env))" "\<forall>resp \<in> set resps. readable env resp"
    and "W \<noteq> ts_zero" "(\<exists>t \<in> event_times env resps. \<not> ts_before t W) \<or> idle_enough env W idlePolls resps"
  shows "\<exists>ts r'. drain_documentdb_until_quiesced env W idlePolls resps r = (Inr (Some ts), r')"
  using assms(2,4)
proof (induction resps arbitrary: idlePolls r)
  case Nil
  then show ?case by (simp add: event_times_def)
next
  case (Cons resp rest)
  let ?n = "length (sr_events resp)" and ?i = "if sr_events resp = [] then idlePolls + 1 else 0"
  obtain r1 where b: "read_and_handle_one_change_event_batch env resp r = (Inr ?n, r1)"
    using documentdb_reads [OF assms(1)] Cons.prems(1) by fastforce
  from read_batch_ok [OF b] obtain evs where e: "map_results (decode_change_event env) (sr_events resp) = Inr evs"
    "cr_lastChangeEventTime r1 = cr_lastChangeEventTime (foldl (\<lambda>r ev. note_event_time ev r) r evs)"
    "\<And>t. get_session_timestamp (ci_Flavor (ce_clusterInfo env)) (sr_session resp) = Inr t \<Longrightarrow> cr_lastSeenClusterTime r1 = Some t"
    by blast
  show ?case
  proof (cases "drain_end W ?i r1")
    case (Some ts)
    then show ?thesis by (simp add: drain_step [OF b] Let_def del: drain_documentdb_until_quiesced.simps)
  next
    case None
    have "ts_before t W" if t: "t \<in> event_times env [resp]" for t
    proof -
      from t e(1,2) last_event_time_ge [where r = r] have "\<not> ts_before (ts_or_zero (cr_lastChangeEventTime r1)) t"
        by (auto simp: batch_times [OF e(1)])
      moreover have "ts_before (ts_or_zero (cr_lastChangeEventTime r1)) W"
        using None assms(3) ts_after_total [of W ts_zero]
        by (auto simp: drain_end_def ts_or_zero_def ts_before_def split: option.splits if_splits)
      ultimately show ?thesis using not_before_trans by blast
    qed
    moreover have "\<not> (?i \<ge> docDBDrainIdlePolls \<and> (case get_session_timestamp (ci_Flavor (ce_clusterInfo env)) (sr_session resp) of
        Inr t \<Rightarrow> \<not> ts_before t W | Inl _ \<Rightarrow> False))"
      using None e(3) by (auto simp: drain_end_def idle_end_def split: option.splits sum.splits if_splits)
    ultimately have "(\<exists>t \<in> event_times env rest. \<not> ts_before t W) \<or> idle_enough env W ?i rest"
      using Cons.prems(2) event_times_Cons [of env resp rest] by (auto simp: Let_def)
    from Cons.IH [OF _ this, of r1] Cons.prems(1) None show ?thesis
      by (simp add: drain_step [OF b] Let_def del: drain_documentdb_until_quiesced.simps)
  qed
qed

section \<open>Where the stream starts\<close>

lemma load_token_ok:
  "load_resume_token found r = (Inr saved, r') \<Longrightarrow> saved = map_option fst (cr_persisted r) \<and> cr_persisted r' = cr_persisted r
     \<and> cr_eventCounts r' = (case cr_persisted r of None \<Rightarrow> cr_eventCounts r | Some (_, counts) \<Rightarrow> counts)"
  by (auto simp: load_resume_token_def abind_eq_Inr split: option.splits)

lemma log_position_ok: "log_position env saved r = (Inr x, r') \<Longrightarrow> r' = r"
  by (auto simp: log_position_def split: option.splits)

lemma resume_request_ok:
  assumes "resume_request env saved req = Inr req'" "wt_startAfter req = None" "wt_resumeAfter req = None"
  shows "(case saved of None \<Rightarrow> wt_startAfter req' = None \<and> wt_resumeAfter req' = None
    | Some token \<Rightarrow> wt_startAfter req' = Some token \<and> wt_resumeAfter req' = None
        \<or> wt_startAfter req' = None \<and> wt_resumeAfter req' = Some token)
    \<and> wt_pipeline req' = wt_pipeline req"
  using assms by (auto simp: resume_request_def rbind_eq_Inr split: if_splits option.splits)

lemma persist_token_ok:
  "persist_resume_token env replaced token r = (Inr x, r') \<Longrightarrow>
     token \<noteq> [] \<and> cr_persisted r' = Some (token, cr_eventCounts r) \<and> cr_eventCounts r' = cr_eventCounts r"
  by (auto simp: persist_resume_token_def abind_eq_Inr amodify_def Let_def split: if_splits)

lemma ts_after_asym: "ts_after a b \<Longrightarrow> \<not> ts_after b a"
  by (auto simp: ts_after_def)

lemma start_timestamp_ok:
  assumes "stream_start_timestamp env op token = Inr startTs"
  shows "\<exists>clusterTime. get_session_timestamp (ci_Flavor (ce_clusterInfo env)) (op_session op) = Inr clusterTime
    \<and> \<not> ts_after startTs clusterTime \<and> (\<not> is_documentdb (ci_Flavor (ce_clusterInfo env)) \<longrightarrow>
      (\<exists>t. extract_ts_from_change_stream_resume_token token = Inr t \<and> \<not> ts_after startTs t))"
  using assms by (auto simp: stream_start_timestamp_def rbind_eq_Inr dest: ts_after_asym split: if_splits)

text \<open>A stream that was opened continues a saved resume token where there is one, and keeps it with the event
  counts saved with it; else the token of its own beginning is saved before anything is read. The start
  time that the verifier scans from is not after the session's clock, nor, on MongoDB, after the
  position of the stream, so no change falls between the scan and the stream.\<close>

theorem create_change_stream_position:
  assumes "create_change_stream env op r = (Inr (startTs, token), r')"
  shows "\<exists>req opened clusterTime. op_watched op req = Inr opened
    \<and> get_change_stream_filter env = Inr (wt_pipeline req)
    \<and> (case cr_persisted r of
         Some (saved, counts) \<Rightarrow> wt_startAfter req = Some saved \<and> wt_resumeAfter req = None
              \<or> wt_startAfter req = None \<and> wt_resumeAfter req = Some saved
       | None \<Rightarrow> wt_startAfter req = None \<and> wt_resumeAfter req = None)
    \<and> cr_persisted r' = (case cr_persisted r of Some saved \<Rightarrow> Some saved | None \<Rightarrow> Some (token, cr_eventCounts r))
    \<and> (cr_persisted r = None \<longrightarrow> token \<noteq> [])
    \<and> get_session_timestamp (ci_Flavor (ce_clusterInfo env)) (op_session op) = Inr clusterTime \<and> \<not> ts_after startTs clusterTime
    \<and> (\<not> is_documentdb (ci_Flavor (ce_clusterInfo env)) \<longrightarrow>
         (\<exists>t. extract_ts_from_change_stream_resume_token token = Inr t \<and> \<not> ts_after startTs t))"
proof -
  from assms obtain pipeline expanded saved r1 r1' req opened where
    p: "get_change_stream_filter env = Inr pipeline" and l: "load_resume_token (op_found op) r = (Inr saved, r1')"
    and lp: "log_position env saved r1' = (Inr (), r1)"
    and q: "resume_request env saved \<lparr>wt_startAfter = None, wt_resumeAfter = None, wt_expandedEvents = expanded,
        wt_pipeline = pipeline\<rparr> = Inr req"
    and o: "open_stream op saved req = Inr opened" and t: "ensure_saved_token env op saved opened r1 = (Inr token, r')"
    and s: "stream_start_timestamp env op token = Inr startTs"
    by (auto simp: create_change_stream_def abind_eq_Inr)
  note lo = load_token_ok [OF l, unfolded log_position_ok [OF lp, symmetric]]
  have "op_watched op req = Inr opened" using o by (auto simp: open_stream_def split: sum.splits if_splits)
  moreover from t lo have "cr_persisted r' = (case cr_persisted r of Some saved \<Rightarrow> Some saved | None \<Rightarrow> Some (token, cr_eventCounts r))
      \<and> (cr_persisted r = None \<longrightarrow> token \<noteq> [])"
    by (auto simp: ensure_saved_token_def abind_eq_Inr dest!: persist_token_ok split: if_splits option.splits)
  moreover from resume_request_ok [OF q] lo have "(case cr_persisted r of
         Some (saved, counts) \<Rightarrow> wt_startAfter req = Some saved \<and> wt_resumeAfter req = None
              \<or> wt_startAfter req = None \<and> wt_resumeAfter req = Some saved
       | None \<Rightarrow> wt_startAfter req = None \<and> wt_resumeAfter req = None) \<and> wt_pipeline req = pipeline"
    by (auto split: option.splits)
  moreover from s obtain clusterTime where
    "get_session_timestamp (ci_Flavor (ce_clusterInfo env)) (op_session op) = Inr clusterTime" "\<not> ts_after startTs clusterTime"
    "\<not> is_documentdb (ci_Flavor (ce_clusterInfo env)) \<longrightarrow>
      (\<exists>t. extract_ts_from_change_stream_resume_token token = Inr t \<and> \<not> ts_after startTs t)"
    using start_timestamp_ok by blast
  ultimately show ?thesis
    using p by (intro exI [of _ req] exI [of _ opened] exI [of _ clusterTime]) simp
qed

section \<open>What the pipeline selects\<close>

definition stream_watches :: "change_reader_env \<Rightarrow> string \<Rightarrow> string \<Rightarrow> bool" where
  "stream_watches env db coll =
     (if ce_namespaces env = [] then \<not> list_ex (has_prefix db) (ExcludedDBPrefixes @ [ce_metaDB env])
      else (db, coll) \<in> split_namespace ` set (ce_namespaces env))"

lemma ucast_word_of_nat: "(ucast (word_of_nat n :: u64) :: u32) = word_of_nat n"
  by transfer (simp add: take_bit_take_bit)

text \<open>On every kind and version of source the pipeline delivers exactly the events of the watched namespaces,
  and what the verifier reads from a delivered event is the same: its type, namespace, time, the
  document's \<open>_id\<close>, and the size that the recheck is given, whether the server measures the document or sends it.\<close>

theorem change_stream_filter_exact:
  assumes "get_change_stream_filter env = Inr stages"
    and "\<And>d. se_fullDocument ev = Some d \<Longrightarrow> d \<noteq> [] \<and> length d < 2 ^ 31" "se_fullDocLen ev = None"
  shows "(run_pipeline stages ev \<noteq> None \<longleftrightarrow> stream_watches env (se_db ev) (se_coll ev))
    \<and> (\<forall>ev'. run_pipeline stages ev = Some ev' \<longrightarrow>
        pe_OpType (parsed_of ev') = se_opType ev \<and> pe_Ns (parsed_of ev') = Some \<lparr>ns_DB = se_db ev, ns_Coll = se_coll ev\<rparr>
        \<and> pe_ClusterTime (parsed_of ev') = Some (se_clusterTime ev) \<and> pe_DocID (parsed_of ev') = se_documentKeyID ev
        \<and> event_data_size (parsed_of ev') = event_data_size (parsed_of ev))"
proof -
  have size: "event_data_size (parsed_of (e\<lparr>se_fullDocLen := map_option length (se_fullDocument ev), se_fullDocument := None\<rparr>))
      = event_data_size (parsed_of ev)" for e
  proof (cases "se_fullDocument ev")
    case (Some d)
    with assms(2) have d: "d \<noteq> []" "length d < 2 ^ 31" by auto
    have "word_of_nat (length d) \<noteq> (0 :: u64)"
      using d by (auto simp: word_of_nat_eq_0_iff dest: dvd_imp_le)
    then show ?thesis
      using Some assms(3) by (simp add: event_data_size_def parsed_of_def word_gt_0 ucast_word_of_nat)
  qed (simp add: event_data_size_def parsed_of_def assms(3))
  show ?thesis
    using assms(1,3) size
    by (auto simp: get_change_stream_filter_def stream_watches_def rbind_eq_Inr Let_def parsed_of_def event_data_size_def
        split: if_splits)
qed

section \<open>Databases that are verified but not watched\<close>

lemma rfold_keeps:
  "rfold (\<lambda>nss db. rbind (colls db) (\<lambda>cs. Inr (nss @ f db cs))) acc dbs = Inr nss \<Longrightarrow> set acc \<subseteq> set nss"
proof (induction dbs arbitrary: acc)
  case (Cons d dbs)
  from Cons.prems obtain cs where
    "rfold (\<lambda>nss db. rbind (colls db) (\<lambda>cs. Inr (nss @ f db cs))) (acc @ f d cs) dbs = Inr nss"
    by (auto simp: rbind_eq_Inr)
  from Cons.IH [OF this] show ?case by simp
qed simp

lemma rfold_collects:
  assumes "rfold (\<lambda>nss db. rbind (colls db) (\<lambda>cs. Inr (nss @ f db cs))) acc dbs = Inr nss"
    and "db \<in> set dbs" "colls db = Inr cs"
  shows "set (f db cs) \<subseteq> set nss"
  using assms(1,2)
proof (induction dbs arbitrary: acc)
  case (Cons d dbs)
  from Cons.prems(1) obtain ds where d: "colls d = Inr ds"
    "rfold (\<lambda>nss db. rbind (colls db) (\<lambda>cs. Inr (nss @ f db cs))) (acc @ f d ds) dbs = Inr nss"
    by (auto simp: rbind_eq_Inr)
  show ?case
  proof (cases "db = d")
    case True
    with d assms(3) rfold_keeps [OF d(2)] show ?thesis by simp
  next
    case False
    with Cons.prems(2) Cons.IH [OF d(2)] show ?thesis by simp
  qed
qed simp

text \<open>When everything is verified, the lists of collections leave out only the metadata database itself, but the
  pipeline leaves out every database whose name begins with the metadata database's: such a database is
  verified, and no change in it is ever seen, so a document that changes after it was compared is not
  rechecked.\<close>

theorem prefixed_database_unwatched:
  assumes "ce_namespaces env = []" "db = ce_metaDB env @ suffix" "suffix \<noteq> []"
    and "db \<in> set dbs" "db \<notin> set ExcludedSystemDBs" "\<not> list_ex (has_prefix db) ExcludedDBPrefixes"
    and "colls db = Inr cs" "c \<in> set cs" "\<not> has_prefix c ''system.''"
    and "list_all_user_namespaces [ce_metaDB env] (Inr dbs) colls = Inr nss" "get_change_stream_filter env = Inr stages"
  shows "db @ ''.'' @ c \<in> set nss \<and> (\<forall>ev. se_db ev = db \<longrightarrow> run_pipeline stages ev = None)"
proof
  show "db @ ''.'' @ c \<in> set nss"
    using assms(2-9) rfold_collects [OF assms(10) [unfolded list_all_user_namespaces_def Let_def rbind_simps] _ assms(7)]
    by auto
  have "\<not> stream_watches env db coll" for coll
    using assms(1,2) by (simp add: stream_watches_def has_prefix_def)
  then show "\<forall>ev. se_db ev = db \<longrightarrow> run_pipeline stages ev = None"
    using assms(1,2,11)
    by (auto simp: get_change_stream_filter_def has_prefix_def Let_def rbind_eq_Inr split: if_splits)
qed

section \<open>The time of a token\<close>

definition token_document :: "kvalue list \<Rightarrow> bytes" where
  "token_document vs = enc_doc [(''_data'', string_value (hex_encode (enc_key vs)))]"

lemma length_hex_encode: "length (hex_encode bs) = 2 * length bs"
  by (induction bs) (simp_all add: hex_encode_def)

lemma token_timestamp:
  assumes "list_all wf_kvalue (KTimestamp ts # vs)" "length (hex_encode (enc_key (KTimestamp ts # vs))) < 2 ^ 30"
  shows "extract_ts_from_change_stream_resume_token (token_document (KTimestamp ts # vs)) = Inr ts"
proof -
  let ?s = "hex_encode (enc_key (KTimestamp ts # vs))"
  have w: "list_all wf_kv [(''_data'', string_value ?s)]" "small [(''_data'', string_value ?s)]"
    using assms(2) by (simp_all add: wf_kv_def valid_cstring_def wf_string_value small_def)
  have "token_document (KTimestamp ts # vs) \<noteq> []"
    by (simp add: token_document_def enc_doc_def append32_def Let_def)
  moreover have "lookup_err (token_document (KTimestamp ts # vs)) [''_data''] = Inr (string_value ?s)"
    unfolding token_document_def lookup_enc_doc [OF w] by simp
  moreover have "keystring_to_bson V1 (Hex ?s) = Inr (map (Pair []) (KTimestamp ts # vs))"
    using top_level_enc [OF assms(1), of "[]"] by (simp add: keystring_to_bson_def hex_decode_encode)
  ultimately show ?thesis
    using assms(2) by (simp add: extract_ts_from_change_stream_resume_token_def cast_string_value)
qed

section \<open>Example streams\<close>

definition stream_env :: "flavor \<Rightarrow> change_reader_env" where
  "stream_env f = \<lparr>ce_namespaces = [], ce_readerType = Src,
     ce_clusterInfo = \<lparr>ci_VersionArray = [7, 0, 0], ci_Topology = TopologyReplset, ci_Flavor = f\<rparr>,
     ce_metaDB = ''meta'', ce_onDDL = OnDDLFail\<rparr>"

lemma stream_env_simps [simp]:
  "ci_Flavor (ce_clusterInfo (stream_env f)) = f" "ci_VersionArray (ce_clusterInfo (stream_env f)) = [7, 0, 0]"
  "ce_namespaces (stream_env f) = []" "ce_metaDB (stream_env f) = ''meta''" "ce_onDDL (stream_env f) = OnDDLFail"
  "is_documentdb FlavorDocumentDB" "\<not> is_documentdb FlavorMongoDB"
  by (simp_all add: stream_env_def is_documentdb_def)

definition at_time :: "u32 \<Rightarrow> timestamp" where "at_time n = \<lparr>ts_T = n, ts_I = 1\<rparr>"

definition token_at :: "u32 \<Rightarrow> bytes" where "token_at n = token_document [KTimestamp (at_time n)]"

lemma token_at_time: "extract_ts_from_change_stream_resume_token (token_at n) = Inr (at_time n)"
proof -
  have "length (enc_key [KTimestamp (at_time n)]) \<le> 100" by (simp add: enc_key_def be32_def numeral_eq_Suc)
  then have "length (hex_encode (enc_key [KTimestamp (at_time n)])) < 2 ^ 30" by (simp add: length_hex_encode)
  then show ?thesis unfolding token_at_def by (intro token_timestamp) simp_all
qed

definition insert_at :: "u32 \<Rightarrow> bytes" where
  "insert_at n = enc_doc (event_fields ''insert'' \<lparr>ns_DB = ''d'', ns_Coll = ''c''\<rparr> (int32_value 1) 9 (at_time n))"

definition insert_event :: "u32 \<Rightarrow> parsed_event" where
  "insert_event n = \<lparr>pe_OpType = ''insert'', pe_Ns = Some \<lparr>ns_DB = ''d'', ns_Coll = ''c''\<rparr>, pe_DocID = Some (int32_value 1),
     pe_FullDocument = None, pe_FullDocLen = Some (scast (9 :: u32)), pe_ClusterTime = Some (at_time n)\<rparr>"

lemma decode_insert: "decode_change_event env (insert_at n) = Inr (insert_event n)"
proof -
  have "unmarshal_event zero_event (insert_at n) = Inr (insert_event n)"
    unfolding insert_at_def insert_event_def by (rule unmarshal_event_fields) (simp_all add: int32_value_def wf_value_def)
  then show ?thesis
    by (simp add: decode_change_event_def insert_event_def supportedEventOpTypes_def)
qed

definition response_at :: "u32 \<Rightarrow> bytes list \<Rightarrow> stream_response" where
  "response_at n events = \<lparr>sr_events = events, sr_error = None, sr_token = token_at n,
     sr_session = \<lparr>ss_ClusterTime = Some [], ss_OperationTime = Some (at_time n)\<rparr>\<rparr>"

definition new_reader :: change_reader where
  "new_reader = \<lparr>cr_lastChangeEventTime = None, cr_lastSeenClusterTime = None, cr_currentTimestamps = None,
     cr_running = True, cr_startAtTS = None, cr_sent = [], cr_eventCounts = zero_counts, cr_persisted = None\<rparr>"

lemma event_times_responses:
  "event_times env [] = {}" "event_times env [response_at n []] = {}"
  "event_times env [response_at n [insert_at m]] = {at_time m}"
  by (auto simp: event_times_def response_at_def decode_insert insert_event_def)

lemma no_cluster_time:
  "get_cluster_time_from_session \<lparr>ss_ClusterTime = Some [], ss_OperationTime = t\<rparr> = Inl InsufficientBytes"
  by (simp add: get_cluster_time_from_session_def lookup_err.simps read_length_def)

text \<open>Reading such a response on MongoDB.\<close>

lemma read_response_at:
  assumes "map_results (decode_change_event (stream_env FlavorMongoDB)) events = Inr evs"
  shows "\<exists>r'. read_and_handle_one_change_event_batch (stream_env FlavorMongoDB) (response_at n events) r = (Inr (length evs), r')"
  using handle_events_ok [OF assms, of "[]" r]
  by (simp add: read_and_handle_one_change_event_batch_def response_at_def abind_def amodify_def
      update_last_seen_cluster_time_def get_session_timestamp_def no_cluster_time update_timestamps_def
      position_timestamp_def token_at_time)


theorem documentdb_drain_ends_witness:
  "\<exists>ts r'. drain_documentdb_until_quiesced (stream_env FlavorDocumentDB) (at_time 6) 0
     [response_at 7 [], response_at 7 [], response_at 8 []] new_reader = (Inr (Some ts), r')"
  by (rule documentdb_drain_ends)
    (simp_all add: readable_def response_at_def docDBDrainIdlePolls_def get_session_timestamp_def ts_before_def ts_after_def
      at_time_def ts_zero_def)

theorem documentdb_drain_reads_all_witness:
  "\<exists>ts r' k batches. drain_documentdb_until_quiesced (stream_env FlavorDocumentDB) (at_time 6) 0 [response_at 7 [insert_at 7]]
       new_reader = (Inr (Some ts), r') \<and> cr_sent r' = batches \<and> batches = [([insert_event 7], token_at 7)]
     \<and> sent_as (stream_env FlavorDocumentDB) (take k [response_at 7 [insert_at 7]]) batches"
proof -
  let ?env = "stream_env FlavorDocumentDB" and ?resp = "response_at 7 [insert_at 7]"
  have "readable ?env ?resp" by (simp add: readable_def response_at_def decode_insert)
  then obtain r1 where read: "read_and_handle_one_change_event_batch ?env ?resp new_reader = (Inr 1, r1)"
    using documentdb_reads [of ?env ?resp new_reader] by (auto simp: response_at_def)
  from read_batch_ok [OF read] have "cr_lastChangeEventTime r1 = Some (at_time 7)"
    and sent: "cr_sent r1 = [([insert_event 7], token_at 7)]"
    by (auto simp: response_at_def decode_insert insert_event_def note_event_time_def new_reader_def
        ts_or_zero_def ts_before_def ts_after_def ts_zero_def at_time_def)
  with read have d: "drain_documentdb_until_quiesced ?env (at_time 6) 0 [?resp] new_reader = (Inr (Some (at_time 7)), r1)"
    by (simp add: drain_step drain_end_def ts_before_def ts_after_def at_time_def del: drain_documentdb_until_quiesced.simps)
  have "in_order ?env (set_option (cr_lastChangeEventTime new_reader)) [?resp]"
    unfolding in_order_def
  proof (intro allI ballI)
    fix i t t'
    assume "t \<in> set_option (cr_lastChangeEventTime new_reader) \<union> event_times ?env (take i [?resp])"
      "t' \<in> event_times ?env (drop i [?resp])"
    then show "\<not> ts_after t t'" by (cases i) (auto simp: event_times_responses new_reader_def)
  qed
  from documentdb_drain_reads_all [OF d this] obtain k where "sent_as ?env (take k [?resp]) (cr_sent r1)"
    by (auto simp: new_reader_def)
  with d sent show ?thesis by auto
qed

theorem change_stream_filter_exact_witness:
  "\<exists>stages. get_change_stream_filter (stream_env FlavorMongoDB) = Inr stages
    \<and> run_pipeline stages \<lparr>se_opType = ''insert'', se_db = ''d'', se_coll = ''c'', se_documentKeyID = Some (int32_value 1),
        se_docID = None, se_fullDocument = Some [1, 2], se_fullDocLen = None, se_clusterTime = at_time 3\<rparr> \<noteq> None"
proof -
  let ?ev = "\<lparr>se_opType = ''insert'', se_db = ''d'', se_coll = ''c'', se_documentKeyID = Some (int32_value 1),
        se_docID = None, se_fullDocument = Some [1, 2], se_fullDocLen = None, se_clusterTime = at_time 3\<rparr>"
  obtain stages where s: "get_change_stream_filter (stream_env FlavorMongoDB) = Inr stages"
    by (simp add: get_change_stream_filter_def version_pair_def)
  have "stream_watches (stream_env FlavorMongoDB) ''d'' ''c''"
    by (simp add: stream_watches_def ExcludedDBPrefixes_def has_prefix_def)
  with change_stream_filter_exact [OF s, of ?ev] s show ?thesis by auto
qed

theorem prefixed_database_unwatched_witness:
  "\<exists>stages. list_all_user_namespaces [''meta''] (Inr [''metadata'']) (\<lambda>_. Inr [''c'']) = Inr [''metadata.c'']
    \<and> get_change_stream_filter (stream_env FlavorMongoDB) = Inr stages
    \<and> (\<forall>ev. se_db ev = ''metadata'' \<longrightarrow> run_pipeline stages ev = None)"
proof -
  obtain stages where s: "get_change_stream_filter (stream_env FlavorMongoDB) = Inr stages"
    by (simp add: get_change_stream_filter_def version_pair_def)
  have l: "list_all_user_namespaces [ce_metaDB (stream_env FlavorMongoDB)] (Inr [''metadata'']) (\<lambda>_. Inr [''c'']) = Inr [''metadata.c'']"
    by (simp add: list_all_user_namespaces_def ExcludedSystemDBs_def ExcludedDBPrefixes_def has_prefix_def)
  from prefixed_database_unwatched [of "stream_env FlavorMongoDB" "''metadata''" "''data''", OF _ _ _ _ _ _ _ _ _ l s, of "[''c'']" "''c''"]
    l s show ?thesis
    by (simp add: ExcludedSystemDBs_def ExcludedDBPrefixes_def has_prefix_def)
qed

definition example_opening :: stream_opening where
  "example_opening = \<lparr>op_found = Inr (), op_watched = (\<lambda>_. Inr (token_at 5)), op_discarded = Inl NoDocuments,
     op_replaced = Inr (), op_session = \<lparr>ss_ClusterTime = Some [], ss_OperationTime = Some (at_time 4)\<rparr>,
     op_historyLost = (\<lambda>_. False)\<rparr>"

theorem create_change_stream_position_witness:
  "\<exists>startTs token r'. create_change_stream (stream_env FlavorDocumentDB) example_opening new_reader = (Inr (startTs, token), r')
    \<and> cr_persisted r' = Some (token, zero_counts) \<and> token \<noteq> []"
proof -
  have ne: "token_at 5 \<noteq> []" by (simp add: token_at_def token_document_def enc_doc_def append32_def Let_def)
  have p: "\<exists>r'. persist_resume_token (stream_env FlavorDocumentDB) (Inr ()) (token_at 5) r = (Inr (), r')" for r
    using ne by (auto simp: persist_resume_token_def abind_def amodify_def position_timestamp_def split: option.splits)
  have "\<exists>r'. create_change_stream (stream_env FlavorDocumentDB) example_opening new_reader = (Inr (at_time 4, token_at 5), r')"
    using p [of new_reader] ne
    by (auto simp: create_change_stream_def get_change_stream_filter_def shows_expanded_events_def load_resume_token_def
        log_position_def resume_request_def open_stream_def ensure_saved_token_def stream_start_timestamp_def
        get_session_timestamp_def example_opening_def new_reader_def abind_def)
  then obtain r' where c: "create_change_stream (stream_env FlavorDocumentDB) example_opening new_reader = (Inr (at_time 4, token_at 5), r')"
    by blast
  from create_change_stream_position [OF c] c ne show ?thesis by (auto simp: new_reader_def)
qed

end
