(* ===== verification/Natural_Reading.thy ===== *)
theory Natural_Reading
  imports Comparator Partition_Schemes Server_Features
begin

text \<open>
  Reading the documents of a natural-order partition from the source
  (\<open>internal/verifier/compare/natural.go\<close>, \<open>tasks/natural.go\<close>): the query and its resume token, the
  search for an earlier token when a token is no longer valid, and the loop over the cursor that sends
  documents to the comparator and their ids to the destination's reader. Record ids are compared as in
  the library that the program vendors (\<open>mongotools/recordid.go\<close>). A cursor is the list of the
  server's replies; retries and logging are left out.
\<close>

section \<open>Record ids\<close>

definition core_read_binary :: "bytes \<Rightarrow> (byte \<times> bytes) option" where
  "core_read_binary src = (case read_length src of
       None \<Rightarrow> None
     | Some (len, rem) \<Rightarrow> (case rem of
           [] \<Rightarrow> None
         | subtype # rem \<Rightarrow>
             if int (length rem) < len then None
             else if subtype = 2
             then (case read_length rem of
                     None \<Rightarrow> None
                   | Some (len, rem) \<Rightarrow> if int (length rem) < len then None else Some (subtype, take (nat len) rem))
             else Some (subtype, take (nat len) rem)))"

definition raw_value_to_binary :: "raw_value \<Rightarrow> go_error + byte \<times> bytes" where
  "raw_value_to_binary v =
     (case (if rv_type v = TypeBinary then core_read_binary (rv_value v) else None) of
        None \<Rightarrow> Inl (CannotCast (rv_type v)) | Some b \<Rightarrow> Inr b)"

definition raw_value_to_string_bytes :: "raw_value \<Rightarrow> go_error + bytes" where
  "raw_value_to_string_bytes v =
     (if rv_type v \<noteq> TypeString then Inl (Err ''expected BSON string'')
      else if length (rv_value v) < 5 then Inl (Err ''too few bytes in BSON string'')
      else case read_u32 (rv_value v) of
             None \<Rightarrow> Inl (Panic ''index out of range'')
           | Some (strlen, rem) \<Rightarrow>
               if length (rv_value v) - 4 \<noteq> unat strlen then Inl (Err ''BSON string header does not match'')
               else Inr (butlast rem))"

text \<open>\<open>cmp.Compare\<close> and \<open>bytes.Compare\<close>.\<close>

definition cmp_compare :: "int \<Rightarrow> int \<Rightarrow> int" where
  "cmp_compare a b = (if a < b then - 1 else if a > b then 1 else 0)"

fun bytes_compare :: "bytes \<Rightarrow> bytes \<Rightarrow> int" where
  "bytes_compare [] [] = 0"
| "bytes_compare [] (y # ys) = - 1"
| "bytes_compare (x # xs) [] = 1"
| "bytes_compare (x # xs) (y # ys) = (if x < y then - 1 else if x > y then 1 else bytes_compare xs ys)"

definition compare_record_ids :: "raw_value \<Rightarrow> raw_value \<Rightarrow> go_error + int" where
  "compare_record_ids a b =
     (if rv_type a \<noteq> rv_type b then Inl (Err ''cannot compare mismatched BSON types'')
      else if rv_type a = TypeInt64
      then rbind (cast_int64 a) (\<lambda>x. rbind (cast_int64 b) (\<lambda>y. Inr (cmp_compare (sint x) (sint y))))
      else if rv_type a = TypeString
      then rbind (raw_value_to_string_bytes a) (\<lambda>x. rbind (raw_value_to_string_bytes b) (\<lambda>y. Inr (bytes_compare x y)))
      else if rv_type a = TypeBinary
      then rbind (raw_value_to_binary a) (\<lambda>(s, x). rbind (raw_value_to_binary b) (\<lambda>(t, y).
             if s \<noteq> 0 \<or> t \<noteq> 0 then Inl (Err ''cannot compare BSON binary subtypes'') else Inr (bytes_compare x y)))
      else Inl (Err ''cannot compare BSON record IDs''))"

section \<open>Removing a field\<close>

text \<open>\<open>RemoveFromRaw\<close> with a pointer of one name: where the element is, and its length.\<close>

function find_element :: "int \<Rightarrow> nat \<Rightarrow> bytes \<Rightarrow> string \<Rightarrow> go_error + (nat \<times> nat) option" where
  "find_element sz pos rem key =
     (if int pos < sz - 1
      then (case read_element rem of
              Inl e \<Rightarrow> Inl e
            | Inr (el, rem') \<Rightarrow>
                if elem_key el \<noteq> key then find_element sz (pos + length el) rem' key
                else Inr (Some (pos, length el)))
      else Inr None)"
  by pat_completeness auto
termination
  by (relation "measure (\<lambda>(sz, pos, rem, key). length rem)") (auto dest: read_element_Inr)

declare find_element.simps [simp del]

definition remove_from_raw :: "bytes \<Rightarrow> string \<Rightarrow> go_error + bytes \<times> bool" where
  "remove_from_raw raw key = (case read_length raw of
       None \<Rightarrow> Inl (Err ''too few bytes to read BSON length'')
     | Some (sz, _) \<Rightarrow> rbind (find_element sz 4 (drop 4 raw) key) (\<lambda>found. case found of
           None \<Rightarrow> Inr (raw, False)
         | Some (pos, n) \<Rightarrow>
             if sz - int n < 0 then Inl (Err ''safecast'')
             else Inr (append32 (word_of_int (sz - int n)) @ drop 4 (take pos raw @ drop (pos + n) raw), True)))"

lemma find_element_enc:
  assumes "list_all wf_kv kvs" "k \<notin> fst ` set kvs" "valid_cstring k" "wf_value v"
    and "sz > int (pos + body_len kvs + length (enc_elem k v))"
  shows "find_element sz pos (concat (map (\<lambda>(k, v). enc_elem k v) kvs) @ enc_elem k v @ rest) k
    = Inr (Some (pos + body_len kvs, length (enc_elem k v)))"
  using assms
proof (induction kvs arbitrary: pos)
  case Nil
  have "2 \<le> length (enc_elem k v)" by (simp add: length_enc_elem)
  then have "int pos < sz - 1" using Nil.prems(5) by simp
  with Nil.prems show ?case
    by (subst find_element.simps) (simp add: read_element_enc)
next
  case (Cons kv kvs)
  obtain a b where kv: "kv = (a, b)" by (cases kv)
  have "find_element sz (pos + length (enc_elem a b)) (concat (map (\<lambda>(k, v). enc_elem k v) kvs) @ enc_elem k v @ rest) k
      = Inr (Some (pos + length (enc_elem a b) + body_len kvs, length (enc_elem k v)))"
    using Cons.prems by (intro Cons.IH) (auto simp: kv body_len_def length_enc_elem)
  moreover have "0 < length (enc_elem k v)" by (simp add: length_enc_elem)
  ultimately show ?case
    using Cons.prems
    by (subst find_element.simps) (auto simp: kv wf_kv_def read_element_enc body_len_def length_enc_elem)
qed

lemma remove_from_raw_enc:
  assumes "list_all wf_kv kvs" "list_all wf_kv (after :: (string \<times> raw_value) list)" "k \<notin> fst ` set kvs"
    and "valid_cstring k" "wf_value v" "small (kvs @ (k, v) # after)"
  shows "remove_from_raw (enc_doc (kvs @ (k, v) # after)) k = Inr (enc_doc (kvs @ after), True)"
proof -
  let ?enc = "\<lambda>kvs. concat (map (\<lambda>(k, v). enc_elem k v) kvs)"
  have len: "length (?enc kvs) = body_len kvs" for kvs
    by (induction kvs) (auto simp: length_enc_elem)
  let ?n = "body_len (kvs @ (k, v) # after) + 5"
  have n: "?n = body_len kvs + length (enc_elem k v) + body_len after + 5"
    by (simp add: body_len_def length_enc_elem)
  have d: "enc_doc (kvs @ (k, v) # after) = append32 (word_of_nat ?n) @ ?enc kvs @ enc_elem k v @ ?enc after @ [0]"
    using len [of "kvs @ (k, v) # after"] by (simp add: enc_doc_def)
  have read: "read_length (enc_doc (kvs @ (k, v) # after)) = Some (int ?n, ?enc kvs @ enc_elem k v @ ?enc after @ [0])"
    unfolding d using assms(6) by (intro read_length_append32) (simp add: small_def)
  let ?X = "enc_doc (kvs @ (k, v) # after)" and ?m = "length (enc_elem k v)"
  have drop4: "drop 4 ?X = ?enc kvs @ enc_elem k v @ ?enc after @ [0]" by (simp add: d)
  have find: "find_element (int ?n) 4 (?enc kvs @ enc_elem k v @ ?enc after @ [0]) k = Inr (Some (4 + body_len kvs, ?m))"
    using assms by (intro find_element_enc) (simp_all add: n length_enc_elem)
  have sz: "int ?n - int ?m = int (body_len (kvs @ after) + 5)" by (simp add: n body_len_def length_enc_elem)
  have "remove_from_raw ?X k = Inr (append32 (word_of_int (int (body_len (kvs @ after) + 5)))
      @ drop 4 (take (4 + body_len kvs) ?X @ drop (4 + body_len kvs + ?m) ?X), True)"
    unfolding remove_from_raw_def read drop4 option.case prod.case find rbind_simps sz by simp
  moreover have "drop 4 (take (4 + body_len kvs) ?X @ drop (4 + body_len kvs + ?m) ?X) = ?enc kvs @ ?enc after @ [0]"
    by (simp add: d len [symmetric])
  ultimately show ?thesis
    using len [of "kvs @ after"] by (simp add: enc_doc_def [of "kvs @ after"])
qed

section \<open>The query\<close>

definition rv_is_non_empty :: "raw_value \<Rightarrow> bool" where
  "rv_is_non_empty rv \<longleftrightarrow> \<not> rv_is_zero rv \<and> rv_type rv \<noteq> TypeNull"

definition validate_natural_task :: "task \<Rightarrow> go_error + partition" where
  "validate_natural_task t = (case qf_Partition (tk_QueryFilter t) of
       None \<Rightarrow> Inl (Panic ''nil pointer dereference'')
     | Some p \<Rightarrow>
         if \<not> pt_Natural p then Inl (Panic ''natural partition required'')
         else if \<not> rv_is_non_empty (pt_Upper p) then Inl (Err ''empty/null upper bound is invalid'')
         else Inr p)"

text \<open>The projections of the server: the whole document, or the key with the hash of the document.\<close>

datatype doc_projection = RootProjection | HashedIndexKeyProjection "string list"

definition get_doc_projection :: "task \<Rightarrow> cmp_method \<Rightarrow> doc_projection" where
  "get_doc_projection t m = (case m of
       ToHashedIndexKey \<Rightarrow> HashedIndexKeyProjection (get_doc_key_fields (qf_ShardKeys (tk_QueryFilter t)))
     | _ \<Rightarrow> RootProjection)"

definition setup_resume_token :: "int \<times> int \<times> int \<Rightarrow> raw_value \<Rightarrow> go_error + raw_value \<times> string" where
  "setup_resume_token srcVersion lowerBound =
     rbind (find_can_use_start_at srcVersion) (\<lambda>canUseStartAt.
     rbind (cast_raw lowerBound) (\<lambda>rawToken.
     rbind (lookup_err rawToken [RecordID]) (\<lambda>recID.
       Inr (recID, if canUseStartAt then ''$_startAt'' else ''$_resumeAfter''))))"

text \<open>The parts of the command that differ between tasks; with a projection it also asks for a resume token.\<close>

record natural_find =
  nf_collection :: string
  nf_filter :: "bytes option"
  nf_projection :: "doc_projection option"
  nf_resume :: "(string \<times> raw_value) option"

definition build_natural_find_cmd :: "string \<Rightarrow> bytes option \<Rightarrow> doc_projection option \<Rightarrow> string \<Rightarrow> raw_value option
     \<Rightarrow> natural_find" where
  "build_natural_find_cmd collName docFilter docProjection resumeTokenParameter resumeTokenOpt =
     \<lparr>nf_collection = collName, nf_filter = docFilter, nf_projection = docProjection,
      nf_resume = map_option (Pair resumeTokenParameter) resumeTokenOpt\<rparr>"

section \<open>Opening the cursor\<close>

record natural_reply =
  nr_docs :: "bytes list"
  nr_opTime :: "timestamp option"

record natural_cursor =
  nc_replies :: "natural_reply list"
  nc_err :: "go_error option"

text \<open>
  \<open>runCommand\<close> is the server's answer to the command, \<open>keyNotFound\<close> recognises its error for a token
  whose record is gone, \<open>priorTokens\<close> are the lower bounds of the earlier tasks of the collection, the
  latest first.
\<close>

fun try_prior_tokens :: "(natural_find \<Rightarrow> go_error + natural_cursor) \<Rightarrow> (go_error \<Rightarrow> bool)
     \<Rightarrow> (raw_value option \<Rightarrow> natural_find) \<Rightarrow> bytes list \<Rightarrow> go_error + natural_cursor" where
  "try_prior_tokens runCommand keyNotFound createCmd [] = runCommand (createCmd None)"
| "try_prior_tokens runCommand keyNotFound createCmd (token # tokens) =
     (case runCommand (createCmd (Some (document_value token))) of
        Inr cursor \<Rightarrow> Inr cursor
      | Inl e \<Rightarrow> if \<not> keyNotFound e then Inl e else try_prior_tokens runCommand keyNotFound createCmd tokens)"

definition open_backup_natural_cursor :: "(natural_find \<Rightarrow> go_error + natural_cursor) \<Rightarrow> (go_error \<Rightarrow> bool)
     \<Rightarrow> (raw_value \<Rightarrow> go_error + bytes list) \<Rightarrow> raw_value option \<Rightarrow> (raw_value option \<Rightarrow> natural_find)
     \<Rightarrow> go_error + natural_cursor" where
  "open_backup_natural_cursor runCommand keyNotFound priorTokens startRecordID createCmd =
     (case startRecordID of
        None \<Rightarrow> Inl (Panic ''MustGet() called on empty option'')
      | Some recID \<Rightarrow> rbind (priorTokens recID) (try_prior_tokens runCommand keyNotFound createCmd))"

definition open_source_cursor :: "(natural_find \<Rightarrow> go_error + natural_cursor) \<Rightarrow> (go_error \<Rightarrow> bool)
     \<Rightarrow> (raw_value \<Rightarrow> go_error + bytes list) \<Rightarrow> (raw_value option \<Rightarrow> natural_find) \<Rightarrow> raw_value option
     \<Rightarrow> raw_value option \<Rightarrow> go_error + natural_cursor" where
  "open_source_cursor runCommand keyNotFound priorTokens createCmd resumeTokenOpt startRecordID =
     (case runCommand (createCmd resumeTokenOpt) of
        Inr cursor \<Rightarrow> Inr cursor
      | Inl e \<Rightarrow> if \<not> keyNotFound e then Inl e
                 else open_backup_natural_cursor runCommand keyNotFound priorTokens startRecordID createCmd)"

text \<open>
  \<open>FetchPriorResumeTokens\<close>: the first generation's tasks of the collection whose lower bound has a
  record id below the given one, in the server's descending order.
\<close>

definition lower_record_id :: "task \<Rightarrow> raw_value option" where
  "lower_record_id t = (case qf_Partition (tk_QueryFilter t) of
       None \<Rightarrow> None
     | Some p \<Rightarrow> (case rbind (cast_raw (pt_Lower p)) (\<lambda>token. lookup_err token [RecordID]) of
           Inl _ \<Rightarrow> None | Inr recID \<Rightarrow> Some recID))"

definition is_prior_task :: "(raw_value \<Rightarrow> raw_value \<Rightarrow> bool) \<Rightarrow> string \<Rightarrow> raw_value \<Rightarrow> task \<Rightarrow> bool" where
  "is_prior_task below namespace recordID t \<longleftrightarrow>
     tk_Generation t = Some 0 \<and> tk_Type t = VerifyDocuments \<and> qf_Namespace (tk_QueryFilter t) = namespace
     \<and> (case lower_record_id t of None \<Rightarrow> False | Some recID \<Rightarrow> below recID recordID)"

definition fetch_prior_resume_tokens :: "(raw_value \<Rightarrow> raw_value \<Rightarrow> bool) \<Rightarrow> (task list \<Rightarrow> task list) \<Rightarrow> string
     \<Rightarrow> task_db \<Rightarrow> raw_value \<Rightarrow> go_error + bytes list" where
  "fetch_prior_resume_tokens below descending namespace db recordID =
     map_results (\<lambda>t. case qf_Partition (tk_QueryFilter t) of
         None \<Rightarrow> Inl (Err ''reading task record IDs'') | Some p \<Rightarrow> cast_raw (pt_Lower p))
       (descending (filter (is_prior_task below namespace recordID) db))"

section \<open>The loop over the cursor\<close>

text \<open>What has been sent, and the batch being filled.\<close>

record natural_reader =
  rd_toCompare :: "to_comparator_msg list"
  rd_toDst :: "raw_value list list"
  rd_batch :: "doc_with_ts list"
  rd_batchDocIDs :: "raw_value list"

type_synonym 'a natural_act = "(natural_reader, go_error, 'a) act"

record natural_query =
  nq_method :: cmp_method
  nq_hasResumeToken :: bool
  nq_startRecordID :: "raw_value option"
  nq_upperRecordID :: raw_value

definition docs_message :: "doc_with_ts list \<Rightarrow> to_comparator_msg" where
  "docs_message docs = \<lparr>DocsWithTS = docs, msg_type = MsgTypeDocs\<rparr>"

definition flush_source_batch :: "unit natural_act" where
  "flush_source_batch = (\<lambda>r. (Inr (), r\<lparr>rd_toDst := rd_toDst r @ [rd_batchDocIDs r], rd_batchDocIDs := [],
     rd_toCompare := rd_toCompare r @ map docs_message (chunks_of ToComparatorBatchSize (rd_batch r)), rd_batch := []\<rparr>))"

definition user_document :: "bool \<Rightarrow> bytes \<Rightarrow> go_error + bytes" where
  "user_document hasResumeToken raw =
     (if hasResumeToken then lookup_cast cast_raw raw [''doc'']
      else rbind (remove_from_raw raw RecordID) (\<lambda>(userDoc, found).
             if found then Inr userDoc else Inl (Panic ''should always find resume token'')))"

definition is_before_start :: "raw_value option \<Rightarrow> raw_value \<Rightarrow> go_error + bool" where
  "is_before_start startRecordID recID = (case startRecordID of
       None \<Rightarrow> Inr False
     | Some startID \<Rightarrow> rbind (compare_record_ids recID startID) (\<lambda>v. Inr (v < 0)))"

text \<open>One document: the result is whether the loop goes on.\<close>

definition read_natural_doc :: "natural_query \<Rightarrow> timestamp option \<Rightarrow> bool \<Rightarrow> bytes \<Rightarrow> bool natural_act" where
  "read_natural_doc q opTime lastInBatch raw = (case opTime of
       None \<Rightarrow> afail (Panic ''session should have optime after reading a document'')
     | Some t \<Rightarrow>
         abind (alift (lookup_err raw [RecordID])) (\<lambda>recID.
         abind (alift (is_before_start (nq_startRecordID q) recID)) (\<lambda>before.
         if before then areturn True
         else abind (alift (compare_record_ids recID (nq_upperRecordID q))) (\<lambda>v.
         if v > 0 then areturn False
         else abind (alift (user_document (nq_hasResumeToken q) raw)) (\<lambda>userDoc.
           abind (\<lambda>r. (Inr (), r\<lparr>rd_batch := rd_batch r @ [\<lparr>dwt_Doc = userDoc, dwt_TS = t, fromPool = True\<rparr>]\<rparr>)) (\<lambda>_.
           abind (alift (raw_doc_id_for_comparison (nq_method q) userDoc)) (\<lambda>docID.
           abind (\<lambda>r. (Inr (), r\<lparr>rd_batchDocIDs := rd_batchDocIDs r @ [docID]\<rparr>)) (\<lambda>_.
             if lastInBatch then abind flush_source_batch (\<lambda>_. areturn True) else areturn True))))))))"

fun read_natural_reply :: "natural_query \<Rightarrow> timestamp option \<Rightarrow> bytes list \<Rightarrow> bool natural_act" where
  "read_natural_reply q opTime [] = areturn True"
| "read_natural_reply q opTime (raw # raws) =
     abind (read_natural_doc q opTime (raws = []) raw) (\<lambda>goOn.
       if goOn then read_natural_reply q opTime raws else areturn False)"

fun read_natural_replies :: "natural_query \<Rightarrow> natural_reply list \<Rightarrow> go_error option \<Rightarrow> unit natural_act" where
  "read_natural_replies q [] err = (case err of None \<Rightarrow> areturn () | Some e \<Rightarrow> afail e)"
| "read_natural_replies q (reply # replies) err =
     abind (read_natural_reply q (nr_opTime reply) (nr_docs reply)) (\<lambda>goOn.
       if goOn then read_natural_replies q replies err else areturn ())"

definition process_cursor :: "natural_query \<Rightarrow> natural_cursor \<Rightarrow> unit natural_act" where
  "process_cursor q cursor =
     abind (read_natural_replies q (nc_replies cursor) (nc_err cursor)) (\<lambda>_ r.
       if length (rd_batch r) > 0 then flush_source_batch r else (Inr (), r))"

section \<open>Reading a partition\<close>

record natural_source_env =
  se_session :: "go_error + unit"
  se_version :: "go_error + int \<times> int \<times> int"
  se_runCommand :: "natural_find \<Rightarrow> go_error + natural_cursor"
  se_keyNotFound :: "go_error \<Rightarrow> bool"
  se_priorTokens :: "raw_value \<Rightarrow> go_error + bytes list"

text \<open>The start record id and the name of the resume token's parameter, if the partition has a lower bound.\<close>

definition resume_position :: "int \<times> int \<times> int \<Rightarrow> partition \<Rightarrow> go_error + raw_value option \<times> string" where
  "resume_position srcVersion p =
     (if rv_is_non_empty (pt_Lower p)
      then rbind (setup_resume_token srcVersion (pt_Lower p)) (\<lambda>(recID, param). Inr (Some recID, param))
      else Inr (None, []))"

definition natural_projection :: "int \<times> int \<times> int \<Rightarrow> task \<Rightarrow> cmp_method \<Rightarrow> go_error + doc_projection option" where
  "natural_projection srcVersion t m =
     rbind (why_find_cannot_resume (fst srcVersion, fst (snd srcVersion))) (\<lambda>why.
       Inr (if why = None then Some (get_doc_projection t m) else None))"

text \<open>The partition, the start record id, the resume token's parameter and the projection.\<close>

definition natural_setup :: "natural_source_env \<Rightarrow> task \<Rightarrow> cmp_method
     \<Rightarrow> go_error + partition \<times> raw_value option \<times> string \<times> doc_projection option" where
  "natural_setup env t m =
     rbind (validate_natural_task t) (\<lambda>p.
     rbind (se_session env) (\<lambda>_.
     rbind (se_version env) (\<lambda>srcVersion.
     rbind (resume_position srcVersion p) (\<lambda>(startRecordID, param).
     rbind (natural_projection srcVersion t m) (\<lambda>projection.
       Inr (p, startRecordID, param, projection))))))"

definition natural_command :: "task \<Rightarrow> bytes option \<Rightarrow> string \<Rightarrow> doc_projection option \<Rightarrow> raw_value option \<Rightarrow> natural_find" where
  "natural_command t docFilter param projection =
     build_natural_find_cmd (snd (split_namespace (qf_Namespace (tk_QueryFilter t)))) docFilter projection param"

definition resume_token_of :: "partition \<Rightarrow> raw_value option" where
  "resume_token_of p = (if rv_is_non_empty (pt_Lower p) then Some (pt_Lower p) else None)"

definition open_natural_source :: "natural_source_env \<Rightarrow> task \<Rightarrow> bytes option
     \<Rightarrow> partition \<times> raw_value option \<times> string \<times> doc_projection option \<Rightarrow> go_error + natural_cursor" where
  "open_natural_source env t docFilter = (\<lambda>(p, startRecordID, param, projection).
     open_source_cursor (se_runCommand env) (se_keyNotFound env) (se_priorTokens env)
       (natural_command t docFilter param projection) (resume_token_of p) startRecordID)"

definition query_of :: "cmp_method \<Rightarrow> partition \<times> raw_value option \<times> string \<times> doc_projection option \<Rightarrow> natural_query" where
  "query_of m = (\<lambda>(p, startRecordID, param, projection).
     \<lparr>nq_method = m, nq_hasResumeToken = projection \<noteq> None, nq_startRecordID = startRecordID,
      nq_upperRecordID = pt_Upper p\<rparr>)"

definition read_natural_partition_from_source :: "natural_source_env \<Rightarrow> task \<Rightarrow> bytes option \<Rightarrow> cmp_method
     \<Rightarrow> unit natural_act" where
  "read_natural_partition_from_source env t docFilter m =
     abind (alift (natural_setup env t m)) (\<lambda>st.
     abind (alift (open_natural_source env t docFilter st)) (process_cursor (query_of m st)))"

section \<open>What is sent\<close>

definition record_of :: "bytes \<Rightarrow> raw_value" where
  "record_of raw = projr (lookup_err raw [RecordID])"

definition before_start :: "natural_query \<Rightarrow> bytes \<Rightarrow> bool" where
  "before_start q raw \<longleftrightarrow> is_before_start (nq_startRecordID q) (record_of raw) = Inr True"

definition beyond_upper :: "natural_query \<Rightarrow> bytes \<Rightarrow> bool" where
  "beyond_upper q raw \<longleftrightarrow> projr (compare_record_ids (record_of raw) (nq_upperRecordID q)) > 0"

definition in_range :: "natural_query \<Rightarrow> bytes \<Rightarrow> bool" where
  "in_range q raw \<longleftrightarrow> \<not> before_start q raw \<and> \<not> beyond_upper q raw"

definition sent_doc :: "natural_query \<Rightarrow> timestamp \<Rightarrow> bytes \<Rightarrow> doc_with_ts" where
  "sent_doc q t raw = \<lparr>dwt_Doc = projr (user_document (nq_hasResumeToken q) raw), dwt_TS = t, fromPool = True\<rparr>"

definition id_of :: "cmp_method \<Rightarrow> doc_with_ts \<Rightarrow> raw_value" where
  "id_of m d = projr (raw_doc_id_for_comparison m (dwt_Doc d))"

definition readable_doc :: "natural_query \<Rightarrow> bytes \<Rightarrow> bool" where
  "readable_doc q raw \<longleftrightarrow> is_ok (lookup_err raw [RecordID]) \<and> is_ok (is_before_start (nq_startRecordID q) (record_of raw))
     \<and> is_ok (compare_record_ids (record_of raw) (nq_upperRecordID q)) \<and> is_ok (user_document (nq_hasResumeToken q) raw)
     \<and> is_ok (raw_doc_id_for_comparison (nq_method q) (projr (user_document (nq_hasResumeToken q) raw)))"

text \<open>The documents go out in groups, the ids of a group to the destination's reader in one message.\<close>

definition group_messages :: "doc_with_ts list list \<Rightarrow> to_comparator_msg list" where
  "group_messages groups = concat (map (\<lambda>G. map docs_message (chunks_of ToComparatorBatchSize G)) groups)"

definition sent_in_groups :: "cmp_method \<Rightarrow> doc_with_ts list list \<Rightarrow> natural_reader \<Rightarrow> bool" where
  "sent_in_groups m groups r \<longleftrightarrow> [] \<notin> set groups \<and> rd_toDst r = map (map (id_of m)) groups
     \<and> rd_toCompare r = group_messages groups"

definition reading_inv :: "cmp_method \<Rightarrow> doc_with_ts list \<Rightarrow> natural_reader \<Rightarrow> bool" where
  "reading_inv m docs r \<longleftrightarrow> (\<exists>groups. sent_in_groups m groups r \<and> concat groups @ rd_batch r = docs)
     \<and> rd_batchDocIDs r = map (id_of m) (rd_batch r)"

lemma group_messages_simps [simp]:
  "group_messages [] = []" "group_messages (gs @ hs) = group_messages gs @ group_messages hs"
  "group_messages (G # gs) = map docs_message (chunks_of ToComparatorBatchSize G) @ group_messages gs"
  by (simp_all add: group_messages_def)

lemma flush_inv_natural:
  assumes "reading_inv m docs r" "rd_batch r \<noteq> []"
  shows "\<exists>r'. flush_source_batch r = (Inr (), r') \<and> reading_inv m docs r' \<and> rd_batch r' = []"
proof -
  from assms(1) obtain groups where g: "sent_in_groups m groups r" "concat groups @ rd_batch r = docs"
    "rd_batchDocIDs r = map (id_of m) (rd_batch r)" by (auto simp: reading_inv_def)
  have "sent_in_groups m (groups @ [rd_batch r]) (snd (flush_source_batch r))"
    using g assms(2) by (simp add: sent_in_groups_def flush_source_batch_def)
  with g(2) show ?thesis
    by (auto simp: reading_inv_def flush_source_batch_def intro!: exI [of _ "groups @ [rd_batch r]"])
qed

lemma read_natural_doc_step:
  assumes "readable_doc q raw" "reading_inv (nq_method q) docs r"
  shows "\<exists>r'. read_natural_doc q (Some t) lastInBatch raw r = (Inr (before_start q raw \<or> \<not> beyond_upper q raw), r')
    \<and> reading_inv (nq_method q) (docs @ (if in_range q raw then [sent_doc q t raw] else [])) r'"
proof -
  from assms(1) obtain recID b v doc docID where ok: "lookup_err raw [RecordID] = Inr recID"
    "is_before_start (nq_startRecordID q) recID = Inr b" "compare_record_ids recID (nq_upperRecordID q) = Inr v"
    "user_document (nq_hasResumeToken q) raw = Inr doc" "raw_doc_id_for_comparison (nq_method q) doc = Inr docID"
    by (auto simp: readable_doc_def record_of_def is_ok_Inr)
  let ?r = "r\<lparr>rd_batch := rd_batch r @ [sent_doc q t raw], rd_batchDocIDs := rd_batchDocIDs r @ [docID]\<rparr>"
  have inv: "reading_inv (nq_method q) (docs @ [sent_doc q t raw]) ?r"
    using assms(2) by (auto simp: reading_inv_def sent_in_groups_def id_of_def sent_doc_def ok)
  have "rd_batch ?r \<noteq> []" by simp
  from flush_inv_natural [OF inv this] obtain r' where
    "flush_source_batch ?r = (Inr (), r')" "reading_inv (nq_method q) (docs @ [sent_doc q t raw]) r'" by blast
  with inv assms(2) ok show ?thesis
    by (auto simp: read_natural_doc_def before_start_def beyond_upper_def in_range_def record_of_def abind_def
        sent_doc_def split: if_splits)
qed

text \<open>The cursor is in the order of record ids: past the upper bound nothing is in the range.\<close>

definition in_record_order :: "natural_query \<Rightarrow> bytes list \<Rightarrow> bool" where
  "in_record_order q raws \<longleftrightarrow> sorted_wrt (\<lambda>a b. beyond_upper q a \<longrightarrow> beyond_upper q b) raws
     \<and> (\<forall>raw \<in> set raws. \<not> (before_start q raw \<and> beyond_upper q raw))"

definition reply_docs :: "natural_query \<Rightarrow> natural_reply \<Rightarrow> doc_with_ts list" where
  "reply_docs q reply = map (sent_doc q (the (nr_opTime reply))) (filter (in_range q) (nr_docs reply))"

lemma read_natural_reply_step:
  assumes "\<forall>raw \<in> set raws. readable_doc q raw" "in_record_order q raws" "reading_inv (nq_method q) docs r"
  shows "\<exists>goOn r'. read_natural_reply q (Some t) raws r = (Inr goOn, r')
    \<and> reading_inv (nq_method q) (docs @ map (sent_doc q t) (filter (in_range q) raws)) r'
    \<and> (\<not> goOn \<longrightarrow> (\<exists>raw \<in> set raws. beyond_upper q raw))"
  using assms
proof (induction raws arbitrary: docs r)
  case (Cons raw raws)
  from read_natural_doc_step [of q raw docs r t "raws = []"] Cons.prems(1,3) obtain r1 where
    1: "read_natural_doc q (Some t) (raws = []) raw r = (Inr (before_start q raw \<or> \<not> beyond_upper q raw), r1)"
      "reading_inv (nq_method q) (docs @ (if in_range q raw then [sent_doc q t raw] else [])) r1" by auto
  show ?case
  proof (cases "before_start q raw \<or> \<not> beyond_upper q raw")
    case True
    have "in_record_order q raws" using Cons.prems(2) by (simp add: in_record_order_def)
    from Cons.IH [OF _ this 1(2)] Cons.prems(1) obtain goOn r' where "read_natural_reply q (Some t) raws r1 = (Inr goOn, r')"
      "reading_inv (nq_method q) ((docs @ (if in_range q raw then [sent_doc q t raw] else []))
          @ map (sent_doc q t) (filter (in_range q) raws)) r'" "\<not> goOn \<longrightarrow> (\<exists>raw \<in> set raws. beyond_upper q raw)" by auto
    with 1(1) True show ?thesis by (cases "in_range q raw") (auto simp: abind_def)
  next
    case False
    with Cons.prems(2) have "filter (in_range q) raws = []" "\<not> in_range q raw"
      by (auto simp: in_record_order_def in_range_def filter_empty_conv)
    with 1 False show ?thesis by (auto simp: abind_def)
  qed
qed auto

lemma in_record_order_append:
  assumes "in_record_order q (xs @ ys)"
  shows "in_record_order q xs" "in_record_order q ys"
    "(\<exists>raw \<in> set xs. beyond_upper q raw) \<Longrightarrow> filter (in_range q) ys = []"
  using assms by (auto simp: in_record_order_def sorted_wrt_append in_range_def filter_empty_conv)

lemma read_natural_replies_step:
  assumes "\<forall>reply \<in> set replies. (nr_docs reply = [] \<or> nr_opTime reply \<noteq> None) \<and> (\<forall>raw \<in> set (nr_docs reply). readable_doc q raw)"
    and "in_record_order q (concat (map nr_docs replies))" "reading_inv (nq_method q) docs r"
  shows "\<exists>r'. read_natural_replies q replies None r = (Inr (), r')
    \<and> reading_inv (nq_method q) (docs @ concat (map (reply_docs q) replies)) r'"
  using assms
proof (induction replies arbitrary: docs r)
  case (Cons reply replies)
  from Cons.prems(2) have o: "in_record_order q (nr_docs reply @ concat (map nr_docs replies))" by simp
  have "\<exists>goOn r'. read_natural_reply q (nr_opTime reply) (nr_docs reply) r = (Inr goOn, r')
      \<and> reading_inv (nq_method q) (docs @ reply_docs q reply) r' \<and> (\<not> goOn \<longrightarrow> (\<exists>raw \<in> set (nr_docs reply). beyond_upper q raw))"
  proof (cases "nr_docs reply = []")
    case False
    with Cons.prems(1) obtain t where "nr_opTime reply = Some t" by auto
    with read_natural_reply_step [OF _ in_record_order_append(1) [OF o] Cons.prems(3)] Cons.prems(1) show ?thesis
      by (auto simp: reply_docs_def)
  qed (use Cons.prems(3) in \<open>auto simp: reply_docs_def\<close>)
  then obtain goOn r1 where 1: "read_natural_reply q (nr_opTime reply) (nr_docs reply) r = (Inr goOn, r1)"
    "reading_inv (nq_method q) (docs @ reply_docs q reply) r1"
    "\<not> goOn \<longrightarrow> (\<exists>raw \<in> set (nr_docs reply). beyond_upper q raw)" by blast
  show ?case
  proof (cases goOn)
    case True
    from Cons.IH [OF _ in_record_order_append(2) [OF o] 1(2)] Cons.prems(1) obtain r' where
      "read_natural_replies q replies None r1 = (Inr (), r')"
      "reading_inv (nq_method q) ((docs @ reply_docs q reply) @ concat (map (reply_docs q) replies)) r'" by auto
    with 1(1) True show ?thesis by (auto simp: abind_def)
  next
    case False
    with 1(3) in_record_order_append(3) [OF o] have rest: "concat (map (reply_docs q) replies) = []"
      by (auto simp: reply_docs_def filter_empty_conv)
    from 1 False show ?thesis by (simp add: abind_def rest)
  qed
qed simp

definition new_natural_reader :: natural_reader where
  "new_natural_reader = \<lparr>rd_toCompare = [], rd_toDst = [], rd_batch = [], rd_batchDocIDs = []\<rparr>"

definition cursor_ok :: "natural_query \<Rightarrow> natural_cursor \<Rightarrow> bool" where
  "cursor_ok q cursor \<longleftrightarrow> nc_err cursor = None \<and> in_record_order q (concat (map nr_docs (nc_replies cursor)))
     \<and> (\<forall>reply \<in> set (nc_replies cursor). (nr_docs reply = [] \<or> nr_opTime reply \<noteq> None)
          \<and> (\<forall>raw \<in> set (nr_docs reply). readable_doc q raw))"

lemma process_cursor_sends:
  assumes "cursor_ok q cursor"
  shows "\<exists>r groups. process_cursor q cursor new_natural_reader = (Inr (), r) \<and> sent_in_groups (nq_method q) groups r
    \<and> concat groups = concat (map (reply_docs q) (nc_replies cursor)) \<and> rd_batch r = [] \<and> rd_batchDocIDs r = []"
proof -
  let ?docs = "concat (map (reply_docs q) (nc_replies cursor))"
  have "reading_inv (nq_method q) [] new_natural_reader"
    by (auto simp: reading_inv_def sent_in_groups_def new_natural_reader_def intro!: exI [of _ "[]"])
  from read_natural_replies_step [OF _ _ this, of "nc_replies cursor"] assms obtain r1 where
    1: "read_natural_replies q (nc_replies cursor) None new_natural_reader = (Inr (), r1)" "reading_inv (nq_method q) ?docs r1"
    by (auto simp: cursor_ok_def)
  have e: "nc_err cursor = None" using assms by (simp add: cursor_ok_def)
  obtain r where "process_cursor q cursor new_natural_reader = (Inr (), r)" "reading_inv (nq_method q) ?docs r" "rd_batch r = []"
  proof (cases "rd_batch r1 = []")
    case True
    with 1 e show ?thesis by (intro that [of r1]) (simp_all add: process_cursor_def abind_def)
  next
    case False
    with flush_inv_natural [OF 1(2)] obtain r where "flush_source_batch r1 = (Inr (), r)" "reading_inv (nq_method q) ?docs r" "rd_batch r = []"
      by blast
    with 1 e False show ?thesis by (intro that [of r]) (simp_all add: process_cursor_def abind_def)
  qed
  then show ?thesis by (auto simp: reading_inv_def)
qed

section \<open>The order of record ids\<close>

lemma bytes_compare_le: "bytes_compare xs ys \<le> 0 \<longleftrightarrow> bytes_le xs ys"
  by (induction xs ys rule: bytes_compare.induct) auto

lemma compare_record_ids_trans:
  assumes "compare_record_ids a b = Inr u" "u \<le> 0" "compare_record_ids b c = Inr v" "v \<le> 0"
  shows "\<exists>w. compare_record_ids a c = Inr w \<and> w \<le> 0"
proof -
  have cmp: "cmp_compare x y \<le> 0 \<longleftrightarrow> x \<le> y" for x y by (simp add: cmp_compare_def)
  from assms show ?thesis
    using bytes_le_trans
    by (fastforce simp: compare_record_ids_def rbind_eq_Inr cmp bytes_compare_le split: if_splits prod.splits)
qed

section \<open>The whole partition\<close>

text \<open>
  What the server does with a token: the cursor has the collection's documents without a prefix, of
  which no document's record lies after the token's.
\<close>

definition resumed_at :: "bytes list \<Rightarrow> raw_value option \<Rightarrow> bytes list \<Rightarrow> bool" where
  "resumed_at coll recOpt raws \<longleftrightarrow> (\<exists>k. raws = drop k coll
     \<and> (\<forall>raw \<in> set (take k coll). \<exists>recID v. recOpt = Some recID \<and> compare_record_ids (record_of raw) recID = Inr v \<and> v \<le> 0))"

definition token_record :: "raw_value \<Rightarrow> raw_value" where
  "token_record token = projr (rbind (cast_raw token) (\<lambda>raw. lookup_err raw [RecordID]))"

definition natural_server :: "natural_source_env \<Rightarrow> (string \<Rightarrow> bytes option \<Rightarrow> doc_projection option \<Rightarrow> bytes list) \<Rightarrow> bool" where
  "natural_server env coll \<longleftrightarrow>
     (\<forall>cmd cursor. se_runCommand env cmd = Inr cursor \<longrightarrow>
        resumed_at (coll (nf_collection cmd) (nf_filter cmd) (nf_projection cmd)) (map_option (\<lambda>(_, token). token_record token) (nf_resume cmd))
          (concat (map nr_docs (nc_replies cursor))))
     \<and> (\<forall>recID tokens. se_priorTokens env recID = Inr tokens \<longrightarrow>
          (\<forall>token \<in> set tokens. \<exists>v. compare_record_ids (token_record (document_value token)) recID = Inr v \<and> v \<le> 0))"

lemma resumed_at_weaken:
  assumes "resumed_at coll (Some a) raws" "compare_record_ids a b = Inr v" "v \<le> 0"
  shows "resumed_at coll (Some b) raws"
  using assms compare_record_ids_trans unfolding resumed_at_def by blast

lemma command_resumed:
  assumes "natural_server env coll" "se_runCommand env (natural_command t flt param proj token) = Inr cursor"
  shows "resumed_at (coll (snd (split_namespace (qf_Namespace (tk_QueryFilter t)))) flt proj) (map_option token_record token)
     (concat (map nr_docs (nc_replies cursor)))"
proof -
  let ?cmd = "natural_command t flt param proj token"
  from assms have "resumed_at (coll (nf_collection ?cmd) (nf_filter ?cmd) (nf_projection ?cmd))
      (map_option (\<lambda>(_, token). token_record token) (nf_resume ?cmd)) (concat (map nr_docs (nc_replies cursor)))"
    unfolding natural_server_def by blast
  then show ?thesis by (simp add: natural_command_def build_natural_find_cmd_def option.map_comp comp_def)
qed

lemma prior_tokens_resumed:
  assumes "natural_server env coll"
    and "try_prior_tokens (se_runCommand env) keyNotFound (natural_command t flt param proj) tokens = Inr cursor"
    and "\<forall>token \<in> set tokens. \<exists>v. compare_record_ids (token_record (document_value token)) recID = Inr v \<and> v \<le> 0"
  shows "resumed_at (coll (snd (split_namespace (qf_Namespace (tk_QueryFilter t)))) flt proj) (Some recID)
     (concat (map nr_docs (nc_replies cursor)))"
  using assms(2,3)
proof (induction tokens)
  case Nil
  then have "se_runCommand env (natural_command t flt param proj None) = Inr cursor" by simp
  from command_resumed [OF assms(1) this] show ?case unfolding resumed_at_def by (force intro: exI [of _ 0])
next
  case (Cons token tokens)
  show ?case
  proof (cases "se_runCommand env (natural_command t flt param proj (Some (document_value token)))")
    case (Inr c)
    with command_resumed [OF assms(1) this] resumed_at_weaken Cons.prems show ?thesis by auto
  qed (use Cons in \<open>auto split: if_splits\<close>)
qed

text \<open>Whichever token the server took, only documents up to the start record are missing from the cursor.\<close>

lemma open_natural_source_resumed:
  assumes "natural_server env coll" "natural_setup env t m = Inr (p, start, param, proj)"
    and "open_natural_source env t flt (p, start, param, proj) = Inr cursor"
  shows "resumed_at (coll (snd (split_namespace (qf_Namespace (tk_QueryFilter t)))) flt proj) start
     (concat (map nr_docs (nc_replies cursor)))"
proof -
  from assms(2) obtain version where r: "resume_position version p = Inr (start, param)"
    by (auto simp: natural_setup_def rbind_eq_Inr)
  have tok: "map_option token_record (resume_token_of p) = start"
    using r by (auto simp: resume_position_def resume_token_of_def setup_resume_token_def token_record_def rbind_eq_Inr
        split: if_splits)
  show ?thesis
  proof (cases "se_runCommand env (natural_command t flt param proj (resume_token_of p))")
    case (Inr c)
    with command_resumed [OF assms(1) this] assms(3) tok show ?thesis
      by (simp add: open_natural_source_def open_source_cursor_def)
  next
    case (Inl e)
    with assms(3) obtain recID tokens where t: "start = Some recID" "se_priorTokens env recID = Inr tokens"
      "try_prior_tokens (se_runCommand env) (se_keyNotFound env) (natural_command t flt param proj) tokens = Inr cursor"
      by (auto simp: open_natural_source_def open_source_cursor_def open_backup_natural_cursor_def rbind_eq_Inr
          split: if_splits option.splits)
    with assms(1) have "\<forall>token \<in> set tokens. \<exists>v. compare_record_ids (token_record (document_value token)) recID = Inr v \<and> v \<le> 0"
      by (simp add: natural_server_def)
    from prior_tokens_resumed [OF assms(1) t(3) this] t(1) show ?thesis by simp
  qed
qed

text \<open>C4: The source reader of a natural-order partition sends every document whose record lies after the
  partition's start and up to its end exactly once, in order, each followed by its id to the
  destination's reader in the same groups, and otherwise at most the document at the start itself. This
  holds whichever resume token the server accepts: the partition's own, that of an earlier partition
  when its record is gone, or none.\<close>

theorem natural_source_reads_partition:
  assumes "natural_server env coll" "natural_setup env t m = Inr (p, start, param, proj)"
    and "open_natural_source env t flt (p, start, param, proj) = Inr cursor"
    and "cursor_ok (query_of m (p, start, param, proj)) cursor"
    and "coll (snd (split_namespace (qf_Namespace (tk_QueryFilter t)))) flt proj = docs"
  shows "\<exists>r groups k. read_natural_partition_from_source env t flt m new_natural_reader = (Inr (), r)
    \<and> sent_in_groups m groups r
    \<and> map dwt_Doc (concat groups) = map (\<lambda>raw. projr (user_document (proj \<noteq> None) raw))
        (filter (in_range (query_of m (p, start, param, proj))) (drop k docs))
    \<and> (\<forall>raw \<in> set (take k docs). \<exists>recID v. start = Some recID \<and> compare_record_ids (record_of raw) recID = Inr v \<and> v \<le> 0)"
proof -
  let ?q = "query_of m (p, start, param, proj)"
  have m: "nq_method ?q = m" "nq_hasResumeToken ?q = (proj \<noteq> None)" by (simp_all add: query_of_def)
  from process_cursor_sends [OF assms(4)] obtain r groups where
    r: "process_cursor ?q cursor new_natural_reader = (Inr (), r)" "sent_in_groups m groups r"
      "concat groups = concat (map (reply_docs ?q) (nc_replies cursor))" by (auto simp: m)
  have d: "map dwt_Doc (concat (map (reply_docs ?q) replies))
      = map (\<lambda>raw. projr (user_document (proj \<noteq> None) raw)) (filter (in_range ?q) (concat (map nr_docs replies)))" for replies
    by (induction replies) (simp_all add: reply_docs_def sent_doc_def m(2))
  from open_natural_source_resumed [OF assms(1-3)] assms(5) obtain k where
    k: "concat (map nr_docs (nc_replies cursor)) = drop k docs"
      "\<forall>raw \<in> set (take k docs). \<exists>recID v. start = Some recID \<and> compare_record_ids (record_of raw) recID = Inr v \<and> v \<le> 0"
    by (auto simp: resumed_at_def)
  have "read_natural_partition_from_source env t flt m new_natural_reader = (Inr (), r)"
    using r(1) assms(2,3) by (simp add: read_natural_partition_from_source_def)
  with r(2,3) d [of "nc_replies cursor"] k show ?thesis
    by (intro exI [of _ r] exI [of _ groups] exI [of _ k]) simp
qed

section \<open>An example\<close>

text \<open>
  Four documents with the record ids 1 to 4, and a partition from 2 to 3 whose token the server no
  longer knows; an earlier task's lower bound is the record 1.
\<close>

definition id_token :: "u64 \<Rightarrow> bytes" where
  "id_token n = enc_doc [(''$recordId'', int64_value n)]"

definition plain_doc :: "u64 \<Rightarrow> bytes" where
  "plain_doc n = enc_doc [(''_id'', int64_value n)]"

definition natural_raw :: "u64 \<Rightarrow> bytes" where
  "natural_raw n = enc_doc [(''doc'', document_value (plain_doc n)), (''$recordId'', int64_value n)]"

lemma example_sizes [simp]:
  "small [(''_id'', int64_value n)]" "small [(''$recordId'', int64_value n)]"
  "small [(''doc'', document_value (plain_doc n)), (''$recordId'', int64_value n)]"
  by (simp_all add: small_def body_len_def plain_doc_def length_enc_doc)

lemma wf_examples [simp]: "wf_value (int64_value n)" "wf_value (document_value (plain_doc n))"
  by (simp_all add: plain_doc_def wf_document_value)

lemma natural_raw_lookups [simp]:
  "lookup_err (natural_raw n) [RecordID] = Inr (int64_value n)"
  "user_document True (natural_raw n) = Inr (plain_doc n)"
  "lookup_err (plain_doc n) [''_id''] = Inr (int64_value n)"
  "lookup_err (id_token n) [RecordID] = Inr (int64_value n)"
  "cast_raw (document_value (id_token n)) = Inr (id_token n)"
proof -
  have raw: "lookup_err (natural_raw n) [k] = (case map_of [(''doc'', document_value (plain_doc n)), (''$recordId'', int64_value n)] k of
      None \<Rightarrow> Inl ElementNotFound | Some v \<Rightarrow> Inr v)" for k
    unfolding natural_raw_def by (rule lookup_enc_doc) (simp_all add: wf_kv_def valid_cstring_def)
  have doc: "cast_raw (document_value (plain_doc n)) = Inr (plain_doc n)"
    "cast_raw (document_value (id_token n)) = Inr (id_token n)"
    by (simp_all add: plain_doc_def id_token_def cast_raw_enc)
  show "lookup_err (natural_raw n) [RecordID] = Inr (int64_value n)" "user_document True (natural_raw n) = Inr (plain_doc n)"
    "lookup_err (plain_doc n) [''_id''] = Inr (int64_value n)" "lookup_err (id_token n) [RecordID] = Inr (int64_value n)"
    "cast_raw (document_value (id_token n)) = Inr (id_token n)"
    using doc by (simp_all add: raw user_document_def lookup_cast_def RecordID_def plain_doc_def id_token_def lookup_enc_doc
        wf_kv_def valid_cstring_def)
qed

lemma compare_int64_ids:
  "compare_record_ids (int64_value a) (int64_value b) = Inr (cmp_compare (sint a) (sint b))"
  by (simp add: compare_record_ids_def)

definition natural_task :: task where
  "natural_task = zero_task\<lparr>tk_Type := VerifyDocuments, tk_Generation := Some 0, tk_QueryFilter :=
     \<lparr>qf_Partition = Some (natural_partition natural_src (document_value (id_token 2)) (int64_value 3)),
      qf_ShardKeys = [], qf_Namespace = ''db.c'', qf_To = []\<rparr>\<rparr>"

definition natural_example_cursor :: natural_cursor where
  "natural_example_cursor = \<lparr>nc_replies = [\<lparr>nr_docs = [natural_raw 2, natural_raw 3], nr_opTime = Some ts_zero\<rparr>,
     \<lparr>nr_docs = [natural_raw 4], nr_opTime = Some ts_zero\<rparr>], nc_err = None\<rparr>"

definition natural_example_env :: natural_source_env where
  "natural_example_env = \<lparr>se_session = Inr (), se_version = Inr (6, 0, 0),
     se_runCommand = (\<lambda>cmd. case nf_resume cmd of
         Some (_, token) \<Rightarrow> if token = document_value (id_token 1) then Inr natural_example_cursor else Inl (Err ''KeyNotFound'')
       | None \<Rightarrow> Inl (Err ''unexpected'')),
     se_keyNotFound = (\<lambda>e. e = Err ''KeyNotFound''),
     se_priorTokens = (\<lambda>recID. Inr (if recID = int64_value 2 then [id_token 1] else []))\<rparr>"

lemma id_tokens_differ: "document_value (id_token 2) \<noteq> document_value (id_token 1)"
  by (simp add: document_value_def id_token_def) code_simp

lemma natural_example_setup:
  "natural_setup natural_example_env natural_task Binary =
     Inr (natural_partition natural_src (document_value (id_token 2)) (int64_value 3), Some (int64_value 2), ''$_resumeAfter'',
       Some RootProjection)"
  "open_natural_source natural_example_env natural_task None
     (natural_partition natural_src (document_value (id_token 2)) (int64_value 3), Some (int64_value 2), ''$_resumeAfter'',
       Some RootProjection) = Inr natural_example_cursor"
proof -
  have v: "rv_is_non_empty (document_value (id_token 2))" "rv_is_non_empty (int64_value 3)"
    by (simp_all add: rv_is_non_empty_def rv_is_zero_def document_value_def int64_value_def)
  show "natural_setup natural_example_env natural_task Binary =
     Inr (natural_partition natural_src (document_value (id_token 2)) (int64_value 3), Some (int64_value 2), ''$_resumeAfter'',
       Some RootProjection)"
    using v by (simp add: natural_setup_def natural_task_def validate_natural_task_def natural_partition_def
        natural_example_env_def resume_position_def setup_resume_token_def find_can_use_start_at_def natural_projection_def
        why_find_cannot_resume_def version_at_least_def get_doc_projection_def)
  show "open_natural_source natural_example_env natural_task None
     (natural_partition natural_src (document_value (id_token 2)) (int64_value 3), Some (int64_value 2), ''$_resumeAfter'',
       Some RootProjection) = Inr natural_example_cursor"
    using v id_tokens_differ by (simp add: open_natural_source_def open_source_cursor_def natural_example_env_def
        natural_command_def build_natural_find_cmd_def resume_token_of_def natural_partition_def open_backup_natural_cursor_def)
qed

lemma natural_example_cursor_ok:
  "cursor_ok (query_of Binary (natural_partition natural_src (document_value (id_token 2)) (int64_value 3), Some (int64_value 2),
     ''$_resumeAfter'', Some RootProjection)) natural_example_cursor"
  by (simp add: cursor_ok_def natural_example_cursor_def in_record_order_def beyond_upper_def before_start_def record_of_def
      is_before_start_def query_of_def readable_doc_def natural_partition_def compare_int64_ids cmp_compare_def)

lemma natural_example_server: "natural_server natural_example_env (\<lambda>_ _ _. map natural_raw [1, 2, 3, 4])"
proof -
  have "resumed_at (map natural_raw [1, 2, 3, 4]) (Some (int64_value 1)) (map natural_raw [2, 3, 4])"
    unfolding resumed_at_def by (rule exI [of _ 1]) (simp add: record_of_def compare_int64_ids cmp_compare_def)
  then show ?thesis
    by (auto simp: natural_server_def natural_example_env_def natural_example_cursor_def token_record_def compare_int64_ids
        cmp_compare_def split: option.splits if_splits)
qed

theorem natural_source_reads_partition_witness:
  "\<exists>r groups. read_natural_partition_from_source natural_example_env natural_task None Binary new_natural_reader = (Inr (), r)
    \<and> sent_in_groups Binary groups r \<and> plain_doc 3 \<in> set (map dwt_Doc (concat groups))"
proof -
  let ?st = "(natural_partition natural_src (document_value (id_token 2)) (int64_value 3), Some (int64_value 2),
     ''$_resumeAfter'', Some RootProjection)"
  from natural_source_reads_partition [OF natural_example_server natural_example_setup natural_example_cursor_ok refl]
  obtain r groups k where
    r: "read_natural_partition_from_source natural_example_env natural_task None Binary new_natural_reader = (Inr (), r)"
      "sent_in_groups Binary groups r"
      "map dwt_Doc (concat groups) = map (\<lambda>raw. projr (user_document True raw))
         (filter (in_range (query_of Binary ?st)) (drop k (map natural_raw [1, 2, 3, 4])))"
      "\<forall>raw \<in> set (take k (map natural_raw [1, 2, 3, 4])). \<exists>v. compare_record_ids (record_of raw) (int64_value 2) = Inr v \<and> v \<le> 0"
    by auto
  have "natural_raw 3 \<notin> set (take k (map natural_raw [1, 2, 3, 4]))"
    using r(4) by (auto simp: record_of_def compare_int64_ids cmp_compare_def dest!: bspec)
  moreover have "natural_raw 3 \<in> set (take k (map natural_raw [1, 2, 3, 4]) @ drop k (map natural_raw [1, 2, 3, 4]))"
    unfolding append_take_drop_id by simp
  moreover have "in_range (query_of Binary ?st) (natural_raw 3)"
    by (simp add: in_range_def before_start_def beyond_upper_def is_before_start_def record_of_def query_of_def
        natural_partition_def compare_int64_ids cmp_compare_def)
  ultimately have "natural_raw 3 \<in> set (filter (in_range (query_of Binary ?st)) (drop k (map natural_raw [1, 2, 3, 4])))"
    by (simp only: set_append Un_iff set_filter mem_Collect_eq) blast
  then have "projr (user_document True (natural_raw 3)) \<in> set (map dwt_Doc (concat groups))"
    unfolding r(3) set_map by (rule imageI)
  then have "plain_doc 3 \<in> set (map dwt_Doc (concat groups))" by simp
  with r show ?thesis by blast
qed

end
