(* ===== verification/Document_Readers.thy ===== *)
theory Document_Readers
  imports Natural_Reading DocumentDB
begin

text \<open>
  The readers that feed the comparator (\<open>internal/verifier/compare.go\<close>): the query of a task's documents,
  the loop that sends a cursor to the comparator in batches, the two readers of a task split by ids, and
  the destination's reader of a natural-order partition, which follows the source's. A cursor is the
  list of its documents with the session each is read in, and the error that ends it, if any.
\<close>

section \<open>The query of a task's documents\<close>

record documents_env =
  de_clusterInfo :: cluster_info
  de_globalFilter :: "bytes option"
  de_method :: cmp_method
  de_readConcernTS :: timestamp
  de_firstDoc :: "go_error + bytes"
  de_lastDoc :: "go_error + bytes"

record documents_query =
  dq_options :: "find_option list"
  dq_batchSize :: "int option"
  dq_projection :: "string list option"
  dq_afterClusterTime :: "timestamp option"

definition maybe_append_global_filter_to_predicates :: "bytes option \<Rightarrow> predicate list \<Rightarrow> predicate list" where
  "maybe_append_global_filter_to_predicates globalFilter predicates =
     (case globalFilter of None \<Rightarrow> predicates | Some f \<Rightarrow> predicates @ [UserFilter f])"

definition partition_parameters :: "documents_env \<Rightarrow> partition option \<Rightarrow> go_error + partition_query" where
  "partition_parameters env p =
     (let info = de_clusterInfo env;
          filterPredicates = maybe_append_global_filter_to_predicates (de_globalFilter env) []
      in rbind (can_use_id_range_filter (Some info) p (de_firstDoc env) (de_lastDoc env)) (\<lambda>useIdRange.
           if useIdRange
           then (case get_query_parameters_for_id_range_unsafe p filterPredicates of
                   Inl e \<Rightarrow> Inl (Panic ''plain _id range predicates cannot fail'') | Inr pqp \<Rightarrow> Inr pqp)
           else get_query_parameters
             (Some (if ci_VersionArray info = [] then None else Some (ci_VersionArray info))) p filterPredicates))"

definition get_documents_command :: "documents_env \<Rightarrow> task \<Rightarrow> go_error + documents_query" where
  "get_documents_command env t =
     rbind (if tk_Ids t \<noteq> []
            then Inr ([FilterOption (AndOf (maybe_append_global_filter_to_predicates (de_globalFilter env) [IdIn (tk_Ids t)])),
                       SortOption [(''_id'', 1)]], Some (2 ^ 31 - 1))
            else rbind (partition_parameters env (qf_Partition (tk_QueryFilter t))) (\<lambda>pqp.
                   Inr (to_find_options pqp, None))) (\<lambda>(options, batchSize).
       Inr \<lparr>dq_options = options, dq_batchSize = batchSize,
         dq_projection = (if de_method env = ToHashedIndexKey then Some (get_doc_key_fields (qf_ShardKeys (tk_QueryFilter t))) else None),
         dq_afterClusterTime = (if is_documentdb (ci_Flavor (de_clusterInfo env)) then None else Some (de_readConcernTS env))\<rparr>)"

section \<open>A cursor in batches\<close>

record doc_cursor =
  dc_docs :: "(bytes \<times> session) list"
  dc_err :: "go_error option"

record channel_writer =
  cw_sent :: "to_comparator_msg list"
  cw_cache :: "doc_with_ts list"
  cw_bytes :: nat

definition flush_cache :: "(channel_writer, go_error, unit) act" where
  "flush_cache = (\<lambda>w. (Inr (), w\<lparr>cw_sent := cw_sent w @ [docs_message (cw_cache w)], cw_cache := [], cw_bytes := 0\<rparr>))"

definition need_flush :: "bytes \<Rightarrow> channel_writer \<Rightarrow> bool" where
  "need_flush doc w \<longleftrightarrow> length (cw_cache w) = ToComparatorBatchSize \<or> cw_bytes w + length doc > ToComparatorByteLimit"

definition write_doc :: "flavor \<Rightarrow> nat \<Rightarrow> bytes \<times> session \<Rightarrow> (channel_writer, go_error, nat) act" where
  "write_doc flavor docsCount = (\<lambda>(doc, sess).
     abind (alift (get_session_timestamp flavor sess)) (\<lambda>clusterTime.
     abind (\<lambda>w. if need_flush doc w then flush_cache w else (Inr (), w)) (\<lambda>_.
     abind (\<lambda>w. (Inr (), w\<lparr>cw_cache := cw_cache w @ [\<lparr>dwt_Doc = doc, dwt_TS = clusterTime, fromPool = True\<rparr>],
                          cw_bytes := cw_bytes w + length doc\<rparr>)) (\<lambda>_. areturn (docsCount + 1)))))"

definition iterate_cursor_to_channel :: "flavor \<Rightarrow> doc_cursor \<Rightarrow> (to_comparator_msg list, go_error, nat) act" where
  "iterate_cursor_to_channel flavor cursor = (\<lambda>sent.
     (let (res, w) =
        abind (afold (write_doc flavor) 0 (dc_docs cursor)) (\<lambda>docsCount.
        abind (case dc_err cursor of Some e \<Rightarrow> afail e | None \<Rightarrow> areturn ()) (\<lambda>_.
        abind (\<lambda>w. if length (cw_cache w) > 0 then flush_cache w else (Inr (), w)) (\<lambda>_. areturn docsCount)))
        \<lparr>cw_sent = sent, cw_cache = [], cw_bytes = 0\<rparr>
      in (res, cw_sent w)))"

section \<open>The readers of a task split by ids\<close>

text \<open>
  The source's and the destination's reader do the same: what was sent, whether the channel was
  closed, and the result.
\<close>

record reader_run =
  rr_sent :: "to_comparator_msg list"
  rr_closed :: bool
  rr_result :: "go_error + unit"

definition read_documents :: "flavor \<Rightarrow> go_error + unit \<Rightarrow> go_error + doc_cursor \<Rightarrow> reader_run" where
  "read_documents flavor session cursor =
     (case session of
        Inl e \<Rightarrow> \<lparr>rr_sent = [], rr_closed = False, rr_result = Inl e\<rparr>
      | Inr _ \<Rightarrow> (case cursor of
          Inl e \<Rightarrow> \<lparr>rr_sent = [], rr_closed = False, rr_result = Inl e\<rparr>
        | Inr c \<Rightarrow> (let (res, msgs) = iterate_cursor_to_channel flavor c []
                   in \<lparr>rr_sent = msgs, rr_closed = True, rr_result = rbind res (\<lambda>_. Inr ())\<rparr>)))"

section \<open>The destination's reader of a natural-order partition\<close>

definition to_comparator_batch_count :: "nat \<Rightarrow> nat" where
  "to_comparator_batch_count totalDocs = (totalDocs + (ToComparatorBatchSize - 1)) div ToComparatorBatchSize"

definition padding_message :: to_comparator_msg where
  "padding_message = \<lparr>DocsWithTS = [], msg_type = MsgTypePadding\<rparr>"

definition cursor_done_message :: to_comparator_msg where
  "cursor_done_message = \<lparr>DocsWithTS = [], msg_type = MsgTypeCursorDone\<rparr>"

text \<open>\<open>fetch\<close> is the cursor over the documents with the given ids.\<close>

definition read_dst_batch :: "(raw_value list \<Rightarrow> go_error + doc_cursor) \<Rightarrow> flavor \<Rightarrow> unit \<Rightarrow> raw_value list
     \<Rightarrow> (to_comparator_msg list, go_error, unit) act" where
  "read_dst_batch fetch flavor u docIDs =
     abind (alift (fetch docIDs)) (\<lambda>cursor.
     abind (iterate_cursor_to_channel flavor cursor) (\<lambda>dstDocsFound.
     if dstDocsFound > length docIDs then afail (Panic ''dest docs must be <= source docs'')
     else (let padding = to_comparator_batch_count (length docIDs) - to_comparator_batch_count dstDocsFound
           in (\<lambda>msgs. (Inr (), msgs @ replicate padding padding_message @ [cursor_done_message])))))"

definition read_natural_dst :: "(raw_value list \<Rightarrow> go_error + doc_cursor) \<Rightarrow> flavor \<Rightarrow> raw_value list list
     \<Rightarrow> (to_comparator_msg list, go_error, unit) act" where
  "read_natural_dst fetch flavor batches = afold (read_dst_batch fetch flavor) () batches"

section \<open>The batches of a cursor\<close>

definition doc_bytes :: "doc_with_ts list \<Rightarrow> nat" where
  "doc_bytes docs = (\<Sum>d \<leftarrow> docs. length (dwt_Doc d))"

lemma doc_bytes_simps [simp]:
  "doc_bytes [] = 0" "doc_bytes (d # docs) = length (dwt_Doc d) + doc_bytes docs" "doc_bytes (xs @ ys) = doc_bytes xs + doc_bytes ys"
  by (simp_all add: doc_bytes_def)

lemma doc_bytes_concat: "G \<in> set groups \<Longrightarrow> doc_bytes G \<le> doc_bytes (concat groups)"
  by (induction groups) auto

definition doc_of_read :: "flavor \<Rightarrow> bytes \<times> session \<Rightarrow> doc_with_ts" where
  "doc_of_read flavor = (\<lambda>(doc, sess). \<lparr>dwt_Doc = doc, dwt_TS = projr (get_session_timestamp flavor sess), fromPool = True\<rparr>)"

text \<open>A batch is within the limits of a message; when everything fits, batches are filled up to 100 documents.\<close>

definition batch_fits :: "doc_with_ts list \<Rightarrow> bool" where
  "batch_fits G \<longleftrightarrow> length G \<le> ToComparatorBatchSize \<and> (doc_bytes G \<le> ToComparatorByteLimit \<or> length G = 1)"

definition writer_inv :: "to_comparator_msg list \<Rightarrow> doc_with_ts list \<Rightarrow> channel_writer \<Rightarrow> bool" where
  "writer_inv before docs w \<longleftrightarrow> (\<exists>groups. cw_sent w = before @ map docs_message groups \<and> concat groups @ cw_cache w = docs
     \<and> cw_bytes w = doc_bytes (cw_cache w) \<and> batch_fits (cw_cache w) \<and> (\<forall>G \<in> set groups. batch_fits G)
     \<and> (cw_cache w = [] \<longrightarrow> docs = [])
     \<and> (doc_bytes docs \<le> ToComparatorByteLimit \<longrightarrow> (\<forall>G \<in> set groups. length G = ToComparatorBatchSize)))"

lemma batch_limits: "0 < ToComparatorBatchSize" "1 < ToComparatorBatchSize"
  by (simp_all add: ToComparatorBatchSize_def)

lemma write_doc_inv:
  assumes "writer_inv before docs w" "is_ok (get_session_timestamp flavor (snd x))"
  shows "\<exists>w'. write_doc flavor n x w = (Inr (n + 1), w') \<and> writer_inv before (docs @ [doc_of_read flavor x]) w'"
proof -
  obtain doc sess where x: "x = (doc, sess)" by (cases x)
  from assms(2) x obtain t where t: "get_session_timestamp flavor sess = Inr t" by (auto simp: is_ok_def split: sum.splits)
  let ?d = "\<lparr>dwt_Doc = doc, dwt_TS = t, fromPool = True\<rparr>"
  have d: "doc_of_read flavor x = ?d" by (simp add: doc_of_read_def x t)
  from assms(1) obtain groups where g: "cw_sent w = before @ map docs_message groups" "concat groups @ cw_cache w = docs"
    "cw_bytes w = doc_bytes (cw_cache w)" "batch_fits (cw_cache w)" "\<forall>G \<in> set groups. batch_fits G"
    "cw_cache w = [] \<longrightarrow> docs = []"
    "doc_bytes docs \<le> ToComparatorByteLimit \<longrightarrow> (\<forall>G \<in> set groups. length G = ToComparatorBatchSize)"
    unfolding writer_inv_def by blast
  show ?thesis
  proof (cases "need_flush doc w")
    case True
    let ?w = "w\<lparr>cw_sent := cw_sent w @ [docs_message (cw_cache w)], cw_cache := [?d], cw_bytes := length doc\<rparr>"
    have "length (cw_cache w) = ToComparatorBatchSize" if "doc_bytes (docs @ [?d]) \<le> ToComparatorByteLimit"
    proof -
      have "doc_bytes (cw_cache w) \<le> doc_bytes docs" using g(2) by (auto simp flip: g(2))
      with that True g(3) show ?thesis by (auto simp: need_flush_def)
    qed
    then have "writer_inv before (docs @ [?d]) ?w"
      unfolding writer_inv_def using g batch_limits
      by (intro exI [of _ "groups @ [cw_cache w]"]) (auto simp: batch_fits_def)
    with True show ?thesis by (simp add: x write_doc_def t d [unfolded x] abind_def flush_cache_def)
  next
    case False
    let ?w = "w\<lparr>cw_cache := cw_cache w @ [?d], cw_bytes := cw_bytes w + length doc\<rparr>"
    have "batch_fits (cw_cache w @ [?d])" using False g(3,4) by (auto simp: need_flush_def batch_fits_def)
    then have "writer_inv before (docs @ [?d]) ?w"
      unfolding writer_inv_def using g by (intro exI [of _ groups]) auto
    with False show ?thesis by (simp add: x write_doc_def t d [unfolded x] abind_def)
  qed
qed

lemma write_docs_inv:
  assumes "\<forall>x \<in> set xs. is_ok (get_session_timestamp flavor (snd x))" "writer_inv before docs w"
  shows "\<exists>w'. afold (write_doc flavor) n xs w = (Inr (n + length xs), w')
    \<and> writer_inv before (docs @ map (doc_of_read flavor) xs) w'"
  using assms
proof (induction xs arbitrary: n docs w)
  case (Cons x xs)
  from write_doc_inv [OF Cons.prems(2), of flavor x n] Cons.prems(1) obtain w1 where
    w1: "write_doc flavor n x w = (Inr (n + 1), w1)" "writer_inv before (docs @ [doc_of_read flavor x]) w1" by auto
  from Cons.IH [OF _ w1(2), of "n + 1"] Cons.prems(1) w1(1) show ?case by (auto simp: abind_def)
qed auto

lemma chunks_of_full:
  assumes "0 < n" "\<forall>G \<in> set groups. length G = n" "length c \<le> n" "c \<noteq> []"
  shows "chunks_of n (concat groups @ c) = groups @ [c]"
  using assms(2)
proof (induction groups)
  case Nil
  with assms show ?case by (cases c) auto
next
  case (Cons G groups)
  then obtain x xs where G: "G = x # xs" "length xs = n - 1" using assms(1) by (cases G) auto
  with Cons.prems assms(1) have n: "n = Suc (length xs)" by simp
  from Cons show ?case by (simp add: G(1) n)
qed

definition cursor_readable :: "flavor \<Rightarrow> doc_cursor \<Rightarrow> bool" where
  "cursor_readable flavor cursor \<longleftrightarrow> (\<forall>x \<in> set (dc_docs cursor). is_ok (get_session_timestamp flavor (snd x)))"

text \<open>
  A cursor that is read to its end, and one that fails: then the documents of the batch being filled
  are never sent.
\<close>

lemma iterate_cursor_ok:
  assumes "cursor_readable flavor cursor" "dc_err cursor = None"
  shows "\<exists>groups. iterate_cursor_to_channel flavor cursor before = (Inr (length (dc_docs cursor)), before @ map docs_message groups)
    \<and> concat groups = map (doc_of_read flavor) (dc_docs cursor) \<and> (\<forall>G \<in> set groups. batch_fits G)
    \<and> (doc_bytes (concat groups) \<le> ToComparatorByteLimit \<longrightarrow> groups = chunks_of ToComparatorBatchSize (concat groups))"
proof -
  let ?w = "\<lparr>cw_sent = before, cw_cache = [], cw_bytes = 0\<rparr>" and ?docs = "map (doc_of_read flavor) (dc_docs cursor)"
  have "writer_inv before [] ?w" unfolding writer_inv_def by (intro exI [of _ "[]"]) (simp add: batch_fits_def)
  from write_docs_inv [OF _ this, of "dc_docs cursor" flavor 0] assms(1) obtain w' where
    w': "afold (write_doc flavor) 0 (dc_docs cursor) ?w = (Inr (length (dc_docs cursor)), w')" "writer_inv before ?docs w'"
    by (auto simp: cursor_readable_def)
  from w'(2) obtain groups where g: "cw_sent w' = before @ map docs_message groups" "concat groups @ cw_cache w' = ?docs"
    "batch_fits (cw_cache w')" "\<forall>G \<in> set groups. batch_fits G" "cw_cache w' = [] \<longrightarrow> ?docs = []"
    "doc_bytes ?docs \<le> ToComparatorByteLimit \<longrightarrow> (\<forall>G \<in> set groups. length G = ToComparatorBatchSize)"
    unfolding writer_inv_def by blast
  show ?thesis
  proof (cases "cw_cache w' = []")
    case True
    with g(5) have "dc_docs cursor = []" by simp
    with assms(2) show ?thesis
      by (intro exI [of _ "[]"]) (simp add: iterate_cursor_to_channel_def abind_def)
  next
    case False
    have "chunks_of ToComparatorBatchSize ?docs = groups @ [cw_cache w']" if "doc_bytes ?docs \<le> ToComparatorByteLimit"
      using g that False chunks_of_full [of ToComparatorBatchSize groups "cw_cache w'"] batch_limits(1)
      by (simp add: batch_fits_def flip: g(2))
    with w'(1) False g assms(2) show ?thesis
      by (intro exI [of _ "groups @ [cw_cache w']"]) (simp add: iterate_cursor_to_channel_def abind_def flush_cache_def)
  qed
qed

lemma iterate_cursor_fails:
  assumes "cursor_readable flavor cursor" "dc_err cursor = Some e"
  shows "\<exists>groups lost. iterate_cursor_to_channel flavor cursor before = (Inl e, before @ map docs_message groups)
    \<and> concat groups @ lost = map (doc_of_read flavor) (dc_docs cursor) \<and> (dc_docs cursor \<noteq> [] \<longrightarrow> lost \<noteq> [])"
proof -
  let ?w = "\<lparr>cw_sent = before, cw_cache = [], cw_bytes = 0\<rparr>"
  have "writer_inv before [] ?w" unfolding writer_inv_def by (intro exI [of _ "[]"]) (simp add: batch_fits_def)
  from write_docs_inv [OF _ this, of "dc_docs cursor" flavor 0] assms(1) obtain w' where
    w': "afold (write_doc flavor) 0 (dc_docs cursor) ?w = (Inr (length (dc_docs cursor)), w')"
      "writer_inv before (map (doc_of_read flavor) (dc_docs cursor)) w'"
    by (auto simp: cursor_readable_def)
  from w'(2) obtain groups where "cw_sent w' = before @ map docs_message groups"
    "concat groups @ cw_cache w' = map (doc_of_read flavor) (dc_docs cursor)"
    "cw_cache w' = [] \<longrightarrow> map (doc_of_read flavor) (dc_docs cursor) = []" unfolding writer_inv_def by blast
  with w'(1) assms(2) show ?thesis
    by (intro exI [of _ groups] exI [of _ "cw_cache w'"]) (auto simp: iterate_cursor_to_channel_def abind_def)
qed

text \<open>C28: A reader of a task split by ids sends the documents of its cursor in order, in messages of at most 100
  documents and at most 32 MiB, a message of one larger document apart, and then closes its channel.\<close>

theorem reader_sends_all:
  assumes "cursor_readable flavor cursor" "dc_err cursor = None"
  shows "\<exists>groups. read_documents flavor (Inr ()) (Inr cursor) = \<lparr>rr_sent = map docs_message groups, rr_closed = True, rr_result = Inr ()\<rparr>
    \<and> concat groups = map (doc_of_read flavor) (dc_docs cursor) \<and> (\<forall>G \<in> set groups. batch_fits G)"
  using iterate_cursor_ok [OF assms, of "[]"] by (auto simp: read_documents_def)

text \<open>C29: When the source's cursor fails, its reader closes the channel all the same, before the error can end the
  attempt. A comparator that goes on reads what was sent as everything: its report says of every
  document of the destination whose source document was not sent, the last ones read among them, that it
  is missing on the source. The code does not mean to report these.\<close>

theorem failed_source_read_reports_missing:
  assumes "cursor_readable flavor cursor" "dc_err cursor = Some e"
    and "readers_ok env (rr_sent (read_documents flavor (Inr ()) (Inr cursor))) dsts" "no_done dsts"
  shows "\<exists>msgs lost c r. read_documents flavor (Inr ()) (Inr cursor) = \<lparr>rr_sent = msgs, rr_closed = True, rr_result = Inl e\<rparr>
    \<and> docs_of msgs @ lost = map (doc_of_read flavor) (dc_docs cursor) \<and> (dc_docs cursor \<noteq> [] \<longrightarrow> lost \<noteq> [])
    \<and> run env msgs dsts = Inr c \<and> reports c = [r]
    \<and> (\<forall>d \<in> set (docs_of dsts). key_of env d \<notin> key_of env ` set (docs_of msgs) \<longrightarrow>
         projr (missing_doc_result env False d) \<in> set (rep_Problems r))"
proof -
  have docs: "docs_of (map docs_message groups) = concat groups" for groups
    by (induction groups) (simp_all add: docs_message_def)
  from iterate_cursor_fails [OF assms(1,2), of "[]"] obtain groups lost where
    i: "iterate_cursor_to_channel flavor cursor [] = (Inl e, map docs_message groups)"
      "concat groups @ lost = map (doc_of_read flavor) (dc_docs cursor)" "dc_docs cursor \<noteq> [] \<longrightarrow> lost \<noteq> []" by auto
  then have
    g: "read_documents flavor (Inr ()) (Inr cursor) = \<lparr>rr_sent = map docs_message groups, rr_closed = True, rr_result = Inl e\<rparr>"
      "concat groups @ lost = map (doc_of_read flavor) (dc_docs cursor)" "dc_docs cursor \<noteq> [] \<longrightarrow> lost \<noteq> []"
    by (simp_all add: read_documents_def)
  let ?msgs = "map docs_message groups"
  from assms(3) g(1) run_epochs [of env ?msgs dsts] assms(4) obtain c rs epochs where
    r: "run env ?msgs dsts = Inr c" "reports c = rs" "length rs = 1"
      "concat (map fst epochs) = docs_of ?msgs" "concat (map snd epochs) = docs_of dsts" "epochs_reported env epochs rs"
    by (auto simp: run_result_def new_comparator_def)
  then obtain r where "rs = [r]" by (auto simp: length_Suc_conv)
  with r have "mset (rep_Problems r) = expected_problems env (docs_of ?msgs) (docs_of dsts)"
    by (auto simp: epochs_reported_def list_all2_Cons2)
  then have p: "set (rep_Problems r) = set_mset (expected_problems env (docs_of ?msgs) (docs_of dsts))"
    by (metis set_mset_mset)
  show ?thesis
    by (intro exI [of _ ?msgs] exI [of _ lost] exI [of _ c] exI [of _ r])
      (use g r \<open>rs = [r]\<close> p in \<open>auto simp: docs expected_problems_def unmatched_def\<close>)
qed

section \<open>Examples\<close>

definition timed_session :: session where
  "timed_session = \<lparr>ss_ClusterTime = None, ss_OperationTime = Some ts_zero\<rparr>"

definition timed_cursor :: "(string \<times> bval) list list \<Rightarrow> go_error option \<Rightarrow> doc_cursor" where
  "timed_cursor ts e = \<lparr>dc_docs = map (\<lambda>t. (tree_bytes t, timed_session)) ts, dc_err = e\<rparr>"

lemma timed_cursor_simps [simp]:
  "cursor_readable FlavorDocumentDB (timed_cursor ts e)" "dc_err (timed_cursor ts e) = e"
  "map (doc_of_read FlavorDocumentDB) (dc_docs (timed_cursor ts e)) = map pooled ts"
  by (auto simp: timed_cursor_def cursor_readable_def doc_of_read_def pooled_def get_session_timestamp_def timed_session_def
      is_documentdb_def is_ok_def)

theorem reader_sends_all_witness:
  "\<exists>groups. read_documents FlavorDocumentDB (Inr ()) (Inr (timed_cursor [doc_2, doc_ab] None))
      = \<lparr>rr_sent = map docs_message groups, rr_closed = True, rr_result = Inr ()\<rparr>
    \<and> concat groups = [pooled doc_2, pooled doc_ab]"
  using reader_sends_all [of FlavorDocumentDB "timed_cursor [doc_2, doc_ab] None"] by auto

lemma failed_timed_cursor:
  "read_documents FlavorDocumentDB (Inr ()) (Inr (timed_cursor [doc_2] (Some (Err ''network''))))
    = \<lparr>rr_sent = [], rr_closed = True, rr_result = Inl (Err ''network'')\<rparr>"
proof -
  have "length (tree_bytes doc_2) \<le> ToComparatorByteLimit"
    by (simp add: tree_bytes_eq doc_2_def length_enc_doc ToComparatorByteLimit_def int32_value_def)
  then show ?thesis
    by (simp add: read_documents_def iterate_cursor_to_channel_def timed_cursor_def abind_def write_doc_def need_flush_def
        get_session_timestamp_def timed_session_def is_documentdb_def ToComparatorBatchSize_def)
qed

lemma failed_readers:
  "readers_ok example_env (rr_sent (read_documents FlavorDocumentDB (Inr ())
     (Inr (timed_cursor [doc_2] (Some (Err ''network'')))))) [docs_msg [pooled doc_2]]"
proof -
  have "comparable example_env [] [pooled doc_2]"
    by (rule comparable_trees [OF full_example_env]) (use example_trees in auto)
  then show ?thesis
    using example_readers(1) by (simp add: failed_timed_cursor readers_ok_def dst_msg_ok_def docs_msg_def ToComparatorBatchSize_def)
qed

theorem failed_source_read_reports_missing_witness:
  "\<exists>c r. run example_env (rr_sent (read_documents FlavorDocumentDB (Inr ())
      (Inr (timed_cursor [doc_2] (Some (Err ''network'')))))) [docs_msg [pooled doc_2]] = Inr c
    \<and> reports c = [r] \<and> projr (missing_doc_result example_env False (pooled doc_2)) \<in> set (rep_Problems r)"
  using failed_source_read_reports_missing [OF timed_cursor_simps(1) timed_cursor_simps(2) failed_readers]
  by (simp add: failed_timed_cursor no_done_def docs_msg_def)

section \<open>What the query selects\<close>

text \<open>The documents a task is about: those of its ids, or those of its partition, that pass the global filter.\<close>

definition command_selects :: "(raw_value \<Rightarrow> raw_value \<Rightarrow> bool) \<Rightarrow> (bytes \<Rightarrow> bool) \<Rightarrow> documents_query \<Rightarrow> raw_value \<Rightarrow> bool" where
  "command_selects le user q x \<longleftrightarrow>
     list_all (\<lambda>opt. case opt of FilterOption p \<Rightarrow> selects le user p x | _ \<Rightarrow> True) (dq_options q)"

definition in_partition :: "(raw_value \<Rightarrow> raw_value \<Rightarrow> bool) \<Rightarrow> partition option \<Rightarrow> raw_value \<Rightarrow> bool" where
  "in_partition le p x \<longleftrightarrow> (case p of None \<Rightarrow> True | Some p \<Rightarrow> pt_IsCapped p \<or> le (pt_Lower p) x \<and> le x (pt_Upper p))"

definition task_has :: "(raw_value \<Rightarrow> raw_value \<Rightarrow> bool) \<Rightarrow> (bytes \<Rightarrow> bool) \<Rightarrow> bytes option \<Rightarrow> task \<Rightarrow> raw_value \<Rightarrow> bool" where
  "task_has le user globalFilter t x \<longleftrightarrow> (case globalFilter of None \<Rightarrow> True | Some f \<Rightarrow> user f)
     \<and> (if tk_Ids t \<noteq> [] then (\<exists>v \<in> set (tk_Ids t). le v x \<and> le x v)
        else in_partition le (qf_Partition (tk_QueryFilter t)) x)"

definition task_bounds_valid :: "partition option \<Rightarrow> bool" where
  "task_bounds_valid p \<longleftrightarrow> (case p of None \<Rightarrow> True | Some p \<Rightarrow> valid_id (pt_Lower p) \<and> valid_id (pt_Upper p))"

lemma global_filter_selects:
  "list_all (\<lambda>p. selects le user p x) (maybe_append_global_filter_to_predicates f ps)
    \<longleftrightarrow> (case f of None \<Rightarrow> True | Some g \<Rightarrow> user g) \<and> list_all (\<lambda>p. selects le user p x) ps"
  by (cases f) (auto simp: maybe_append_global_filter_to_predicates_def)

lemma query_parameters_select:
  assumes "get_query_parameters_with p ps idPredicates = Inr pqp"
    and "\<And>q new. p = Some q \<Longrightarrow> \<not> pt_IsCapped q \<Longrightarrow> idPredicates q = Inr new \<Longrightarrow>
      all_select le user new x \<longleftrightarrow> le (pt_Lower q) x \<and> le x (pt_Upper q)"
  shows "list_all (\<lambda>opt. case opt of FilterOption p \<Rightarrow> selects le user p x | _ \<Rightarrow> True) (to_find_options pqp)
    \<longleftrightarrow> list_all (\<lambda>p. selects le user p x) ps \<and> in_partition le p x"
proof (cases p)
  case None
  with assms(1) show ?thesis
    by (auto simp: get_query_parameters_with_def to_find_options_def in_partition_def split: if_splits)
next
  case (Some q)
  show ?thesis
  proof (cases "pt_IsCapped q")
    case True
    with assms(1) Some show ?thesis
      by (auto simp: get_query_parameters_with_def to_find_options_def in_partition_def split: if_splits)
  next
    case False
    with assms(1) Some obtain new where n: "idPredicates q = Inr new"
      "pqp = \<lparr>pq_filter = (if length (ps @ new) > 0 then Some (AndOf (ps @ new)) else None),
         pq_sortField = Some ''_id'', pq_hint = Some [(''_id'', 1)]\<rparr>"
      by (auto simp: get_query_parameters_with_def rbind_eq_Inr)
    from assms(2) [OF Some False n(1)] False Some show ?thesis
      by (auto simp: n(2) to_find_options_def in_partition_def all_select_def)
  qed
qed

lemma partition_parameters_select:
  assumes "partition_parameters env p = Inr pqp" "id_order le" "task_bounds_valid p"
    and "\<And>y. y \<in> ids \<Longrightarrow> valid_id y" "finds_extremes le ids (de_firstDoc env) (de_lastDoc env)" "x \<in> ids" "rv_type x \<noteq> TypeMinKey"
  shows "list_all (\<lambda>opt. case opt of FilterOption p \<Rightarrow> selects le user p x | _ \<Rightarrow> True) (to_find_options pqp)
    \<longleftrightarrow> (case de_globalFilter env of None \<Rightarrow> True | Some f \<Rightarrow> user f) \<and> in_partition le p x"
proof -
  let ?info = "Some (de_clusterInfo env)" and ?ps = "maybe_append_global_filter_to_predicates (de_globalFilter env) []"
  from assms(1) obtain u where u: "can_use_id_range_filter ?info p (de_firstDoc env) (de_lastDoc env) = Inr u"
    by (auto simp: partition_parameters_def rbind_eq_Inr Let_def)
  have valid: "valid_id (pt_Lower q)" "valid_id (pt_Upper q)" if "p = Some q" for q
    using assms(3) that by (simp_all add: task_bounds_valid_def)
  have "list_all (\<lambda>opt. case opt of FilterOption p \<Rightarrow> selects le user p x | _ \<Rightarrow> True) (to_find_options pqp)
      \<longleftrightarrow> list_all (\<lambda>p. selects le user p x) ?ps \<and> in_partition le p x"
  proof (cases u)
    case True
    with assms(1) u have "get_query_parameters_with p ?ps (\<lambda>p. Inr (range_id_predicates (pt_Lower p) (pt_Upper p))) = Inr pqp"
      by (auto simp: partition_parameters_def get_query_parameters_for_id_range_unsafe_def Let_def split: sum.splits)
    then show ?thesis
    proof (rule query_parameters_select)
      fix q new
      assume q: "p = Some q" "Inr (range_id_predicates (pt_Lower q) (pt_Upper q)) = (Inr new :: go_error + predicate list)"
      let ?exprs = "[ExprGte (pt_Lower q), ExprLte (pt_Upper q)]"
      have "can_use_id_range_filter ?info (Some q) (de_firstDoc env) (de_lastDoc env) = Inr True"
        using u True q(1) by simp
      from id_range_filter_exact [OF assms(2,4) valid [OF q(1)] assms(5) this assms(6), of ?exprs user] q(2)
      show "all_select le user new x \<longleftrightarrow> le (pt_Lower q) x \<and> le x (pt_Upper q)"
        by (simp add: get_expr_predicates_def all_select_def)
    qed
  next
    case False
    let ?ci = "Some (if ci_VersionArray (de_clusterInfo env) = [] then None else Some (ci_VersionArray (de_clusterInfo env)))"
    from assms(1) u False have "get_query_parameters_with p ?ps (\<lambda>p. filter_id_bounds ?ci (pt_Lower p) (pt_Upper p)) = Inr pqp"
      by (auto simp: partition_parameters_def get_query_parameters_def Let_def)
    then show ?thesis
      by (rule query_parameters_select)
        (use valid filter_id_bounds_selects [OF assms(2)] assms(4,6,7) in blast)
  qed
  then show ?thesis by (simp add: global_filter_selects)
qed

text \<open>C21: The command that reads the documents of a task selects, of the documents of a collection, exactly
  those with one of the task's ids, or those in its partition, that pass the global filter: for every
  version and flavour of the server, and for every \<open>_id\<close> but MinKey.\<close>

theorem documents_query_exact:
  assumes "get_documents_command env t = Inr q" "id_order le" "task_bounds_valid (qf_Partition (tk_QueryFilter t))"
    and "\<And>y. y \<in> ids \<Longrightarrow> valid_id y" "finds_extremes le ids (de_firstDoc env) (de_lastDoc env)" "x \<in> ids" "rv_type x \<noteq> TypeMinKey"
  shows "command_selects le user q x \<longleftrightarrow> task_has le user (de_globalFilter env) t x"
proof (cases "tk_Ids t = []")
  case True
  with assms(1) obtain pqp where p: "partition_parameters env (qf_Partition (tk_QueryFilter t)) = Inr pqp"
    "dq_options q = to_find_options pqp"
    by (auto simp: get_documents_command_def rbind_eq_Inr)
  from partition_parameters_select [OF p(1) assms(2-7), of user] True show ?thesis
    by (simp add: command_selects_def task_has_def p(2))
next
  case False
  with assms(1) show ?thesis
    by (auto simp: get_documents_command_def command_selects_def task_has_def global_filter_selects list_ex_iff)
qed

definition range_task :: task where
  "range_task = zero_task\<lparr>tk_QueryFilter := \<lparr>qf_Partition = Some \<lparr>pt_SourceUUID = [], pt_Lower = int_id [7], pt_Ns = None,
       pt_Upper = oid_value [9], pt_IsCapped = False, pt_Natural = False, pt_HostnameAndPort = None\<rparr>,
     qf_ShardKeys = [], qf_Namespace = ''db.c'', qf_To = []\<rparr>\<rparr>"

definition old_server :: documents_env where
  "old_server = \<lparr>de_clusterInfo = \<lparr>ci_VersionArray = [4, 4], ci_Topology = TopologyReplset, ci_Flavor = FlavorMongoDB\<rparr>,
     de_globalFilter = None, de_method = Binary, de_readConcernTS = ts_zero,
     de_firstDoc = Inl (Err ''not used''), de_lastDoc = Inl (Err ''not used'')\<rparr>"

theorem documents_query_exact_witness:
  "\<exists>q. get_documents_command old_server range_task = Inr q
    \<and> command_selects rank_order (\<lambda>_. True) q (oid_value [3]) \<and> \<not> command_selects rank_order (\<lambda>_. True) q (oid_value [12])"
proof -
  let ?ids = "{oid_value [3], oid_value [12]}"
  have ids: "tk_Ids range_task = []" by (simp add: range_task_def zero_task_def)
  have p: "qf_Partition (tk_QueryFilter range_task) = Some \<lparr>pt_SourceUUID = [], pt_Lower = int_id [7], pt_Ns = None,
       pt_Upper = oid_value [9], pt_IsCapped = False, pt_Natural = False, pt_HostnameAndPort = None\<rparr>"
    by (simp add: range_task_def)
  have valid: "task_bounds_valid (qf_Partition (tk_QueryFilter range_task))" by (simp add: p task_bounds_valid_def sample_ids)
  have ext: "finds_extremes rank_order ?ids (de_firstDoc old_server) (de_lastDoc old_server)"
    by (simp add: finds_extremes_def old_server_def)
  have "\<not> type_rank (rv_type (oid_value [9])) < type_rank (rv_type (int_id [7]))"
    by (simp add: oid_value_def int_id_def type_ranks)
  then obtain ps where ps: "filter_id_bounds (Some (Some [4, 4])) (int_id [7]) (oid_value [9]) = Inr ps"
    using explicit_predicates [OF id_order_rank_order sample_ids(2) [of "[7]"] sample_ids(1) [of "[9]"] sample_ids(1) [of "[3]"],
        of "\<lambda>_. True"]
    by (cases "get_explicit_type_check_predicates (int_id [7]) (oid_value [9])") (auto simp: filter_id_bounds_def)
  then obtain q where q: "get_documents_command old_server range_task = Inr q"
    unfolding get_documents_command_def ids p
    by (simp add: partition_parameters_def old_server_def can_use_id_range_filter_def src_is_documentdb_def is_documentdb_def
        get_query_parameters_def get_query_parameters_with_def maybe_append_global_filter_to_predicates_def)
  have "command_selects rank_order (\<lambda>_. True) q x \<longleftrightarrow> task_has rank_order (\<lambda>_. True) (de_globalFilter old_server) range_task x"
    if "x \<in> ?ids" for x
    by (rule documents_query_exact [OF q id_order_rank_order valid _ ext that])
      (use that in \<open>auto simp: sample_ids\<close>, auto simp: oid_value_def)
  then show ?thesis
    using q by (auto simp: task_has_def ids p in_partition_def old_server_def oid_value_def int_id_def rank_order_def type_ranks)
qed

end
