(* ===== verification/Natural_Comparison.thy ===== *)
theory Natural_Comparison
  imports Document_Readers
begin

text \<open>
  A natural-order partition from its readers to the reports of the comparator: the source sends its
  documents in groups, the destination's reader fetches each group by its ids and ends it with a
  cursor-done message, at which the comparator may flush. The flushes fall between groups, so that no
  report takes a document of one group for missing because its peer is still to come.
\<close>

section \<open>Problems of separate parts\<close>

definition no_match :: "comparator_env \<Rightarrow> doc_with_ts list \<Rightarrow> doc_with_ts list \<Rightarrow> bool" where
  "no_match env S D \<longleftrightarrow> (\<forall>s \<in> set S. \<forall>d \<in> set D. key_of env s \<noteq> key_of env d)"

lemma no_match_simps [simp]:
  "no_match env [] D" "no_match env S []"
  "no_match env (S @ S2) D \<longleftrightarrow> no_match env S D \<and> no_match env S2 D"
  "no_match env S (D @ D2) \<longleftrightarrow> no_match env S D \<and> no_match env S D2"
  by (auto simp: no_match_def)

lemma all_pairs_no_match: "no_match env S D \<Longrightarrow> all_pairs env S D = {#}"
proof -
  assume n: "no_match env S D"
  have z: "(\<Sum>x \<leftarrow> xs. f x) = {#}" if "\<forall>x \<in> set xs. f x = {#}" for f :: "'b \<Rightarrow> result multiset" and xs
    using that by (induction xs) auto
  have "(\<Sum>d \<leftarrow> D. pair_results env s d) = {#}" if "s \<in> set S" for s
    using n that by (intro z) (auto simp: no_match_def pair_results_def)
  then show ?thesis unfolding all_pairs_def by (intro z) simp
qed

lemma all_pairs_append:
  "all_pairs env (S @ S2) D = all_pairs env S D + all_pairs env S2 D"
  "all_pairs env S (D @ D2) = all_pairs env S D + all_pairs env S D2"
  by (simp_all add: all_pairs_def sum_list_addf)

lemma unmatched_no_match:
  "no_match env S D2 \<Longrightarrow> unmatched env (D @ D2) S = unmatched env D S"
  "no_match env S2 D \<Longrightarrow> unmatched env (S @ S2) D = unmatched env S D"
  "no_match env S D2 \<Longrightarrow> unmatched env (D2 @ D) S = unmatched env D S"
  "no_match env S2 D \<Longrightarrow> unmatched env (S2 @ S) D = unmatched env S D"
  by (fastforce simp: unmatched_def no_match_def intro!: filter_cong)+

lemma expected_problems_append:
  assumes "no_match env S D2" "no_match env S2 D"
  shows "expected_problems env (S @ S2) (D @ D2) = expected_problems env S D + expected_problems env S2 D2"
proof -
  have u: "unmatched env E (A @ B) = unmatched env E A @ unmatched env E B" for A B E by (simp add: unmatched_def)
  show ?thesis using assms
    by (simp add: expected_problems_def all_pairs_append all_pairs_no_match u unmatched_no_match)
qed

lemma expected_problems_Nil [simp]: "expected_problems env [] [] = {#}"
  by (simp add: expected_problems_def all_pairs_def unmatched_def)

section \<open>Messages in step\<close>

text \<open>
  A source message, whether the cursor-done message of the group before comes first, and the
  destination's message that is read with it.
\<close>

type_synonym message_pair = "to_comparator_msg \<times> bool \<times> to_comparator_msg"

definition src_messages :: "message_pair list \<Rightarrow> to_comparator_msg list" where
  "src_messages ps = map fst ps"

definition dst_messages :: "message_pair list \<Rightarrow> to_comparator_msg list" where
  "dst_messages ps = concat (map (\<lambda>(_, afterDone, d). (if afterDone then [cursor_done_message] else []) @ [d]) ps)"

lemma messages_simps [simp]:
  "src_messages [] = []" "src_messages (p # ps) = fst p # src_messages ps"
  "dst_messages [] = []"
  "dst_messages ((s, b, d) # ps) = (if b then [cursor_done_message] else []) @ d # dst_messages ps"
  "src_messages (ps @ qs) = src_messages ps @ src_messages qs"
  "dst_messages (ps @ qs) = dst_messages ps @ dst_messages qs"
  by (simp_all add: src_messages_def dst_messages_def)

lemma docs_of_append [simp]: "docs_of (xs @ ys) = docs_of xs @ docs_of ys"
  by (simp add: docs_of_def)

lemma docs_of_done [simp]: "DocsWithTS cursor_done_message = []" "docs_of [cursor_done_message] = []"
  by (simp_all add: cursor_done_message_def docs_of_def)

definition pair_ok :: "message_pair \<Rightarrow> bool" where
  "pair_ok = (\<lambda>(s, _, d). src_msg_ok s \<and> dst_msg_ok d \<and> msg_type d \<noteq> MsgTypeCursorDone)"

text \<open>Where a cursor is done, the documents before and after have no keys in common.\<close>

fun separated :: "comparator_env \<Rightarrow> doc_with_ts list \<Rightarrow> doc_with_ts list \<Rightarrow> message_pair list \<Rightarrow> bool" where
  "separated env S D [] = True"
| "separated env S D ((s, afterDone, d) # ps) \<longleftrightarrow>
     (afterDone \<longrightarrow> no_match env S (docs_of (dst_messages ((s, afterDone, d) # ps)))
        \<and> no_match env (docs_of (src_messages ((s, afterDone, d) # ps))) D)
     \<and> separated env (S @ DocsWithTS s) (D @ DocsWithTS d) ps"

lemma separated_suffix: "separated env (A @ S) (B @ D) ps \<Longrightarrow> separated env S D ps"
  by (induction env S D ps arbitrary: A B rule: separated.induct) (auto simp del: docs_of_simps)

lemma read_src_message:
  assumes "src_msg_ok m" "\<forall>s \<in> set (DocsWithTS m). is_ok (doc_size (env_method env) (dwt_Doc s))"
    and "pairing_inv env S D c"
  shows "\<exists>c'. read_src env c (m # ms) = Inr (c', DocsWithTS m, ms) \<and> pairing_inv env S D c' \<and> reports c' = reports c
    \<and> srcClosed c' = srcClosed c \<and> dstClosed c' = dstClosed c"
proof -
  from record_src_docs [OF assms(2), of "c\<lparr>srcDocCount := srcDocCount c + word_of_nat (length (DocsWithTS m)),
          curHistoryDocCount := curHistoryDocCount c + word_of_nat (length (DocsWithTS m))\<rparr>"] assms(1,3)
  show ?thesis by (auto simp: src_msg_ok_def record_src_metrics_def pairing_inv_def)
qed

lemma read_dst_message:
  assumes "dst_msg_ok d" "msg_type d \<noteq> MsgTypeCursorDone"
  shows "read_dst c b0 ((if b then [cursor_done_message] else []) @ d # ms) = Inr (c, DocsWithTS d, b \<or> b0, ms)"
  using assms by (auto simp: dst_msg_ok_def cursor_done_message_def)

text \<open>The problems of all reports of a run.\<close>

definition reported :: "doc_compare_report list \<Rightarrow> result multiset" where
  "reported rs = (\<Sum>r \<leftarrow> rs. mset (rep_Problems r))"

definition reports_exactly :: "comparator_env \<Rightarrow> comparator \<Rightarrow> doc_with_ts list \<Rightarrow> doc_with_ts list \<Rightarrow> go_error + comparator \<Rightarrow> bool" where
  "reports_exactly env c S D res \<longleftrightarrow>
     (\<exists>c' rs. res = Inr c' \<and> reports c' = reports c @ rs \<and> reported rs = expected_problems env S D)"

lemma reported_simps [simp]: "reported [] = {#}" "reported (r # rs) = mset (rep_Problems r) + reported rs"
  "reported (rs @ rs') = reported rs + reported rs'"
  by (simp_all add: reported_def)

text \<open>A step of the loop: whether or not it flushes first, the rest of the run accounts for the problems.\<close>

lemma flush_then:
  assumes ord: "cache_order_ok env" and cmp: "comparable env (S @ S2) (D @ D2)" and inv: "pairing_inv env S D c"
    and sep: "b \<longrightarrow> no_match env S D2 \<and> no_match env S2 D"
    and closed: "P (srcClosed c) (dstClosed c)"
    and rest: "\<And>S' D' c'. pairing_inv env S' D' c' \<Longrightarrow> P (srcClosed c') (dstClosed c') \<Longrightarrow> comparable env (S' @ S2) (D' @ D2)
      \<Longrightarrow> (S', D') = (S, D) \<or> b \<and> (S', D') = ([], []) \<Longrightarrow> reports_exactly env c' (S' @ S2) (D' @ D2) (f c')"
  shows "reports_exactly env c (S @ S2) (D @ D2) (rbind (if b then flush_if_needed env c else Inr c) f)"
proof (cases "b \<and> flush_if_needed env c \<noteq> Inr c")
  case True
  have cmp0: "comparable env S D" by (rule comparable_prefix [OF cmp])
  from True flush_if_needed_inv [OF cmp0 inv ord] obtain c1 r where
    c1: "flush_if_needed env c = Inr c1" "reports c1 = reports c @ [r]" "pairing_inv env [] [] c1"
      "mset (rep_Problems r) = expected_problems env S D" "srcClosed c1 = srcClosed c" "dstClosed c1 = dstClosed c"
    by blast
  from rest [OF c1(3)] closed comparable_epoch [OF cmp] c1(5,6) True obtain c' rs where
    "f c1 = Inr c'" "reports c' = reports c1 @ rs" "reported rs = expected_problems env S2 D2"
    by (auto simp: reports_exactly_def)
  with c1 True sep show ?thesis
    by (auto simp: reports_exactly_def expected_problems_append)
next
  case False
  then have "(if b then flush_if_needed env c else Inr c) = Inr c" by simp
  with rest [OF inv closed cmp] show ?thesis by simp
qed

lemma run_loop_end:
  assumes "cache_order_ok env" "comparable env S D" "pairing_inv env S D c" "srcClosed c" "dstClosed c"
  shows "reports_exactly env c S D (run_loop env c [] [])"
proof -
  from flush_inv [OF assms(2,3,1)] obtain c' r where "flush env c = Inr c'" "reports c' = reports c @ [r]"
    "mset (rep_Problems r) = expected_problems env S D" by blast
  with assms(4,5) show ?thesis by (subst run_loop.simps) (auto simp: still_reading_def reports_exactly_def)
qed

lemma run_loop_paired:
  assumes ord: "cache_order_ok env"
    and "\<forall>p \<in> set ps. pair_ok p" "separated env S D ps"
    and "comparable env (S @ docs_of (src_messages ps)) (D @ docs_of (dst_messages ps))"
    and "pairing_inv env S D c" "\<not> srcClosed c" "\<not> dstClosed c"
    and last: "ends = [] \<or> ends = [cursor_done_message]"
  shows "reports_exactly env c (S @ docs_of (src_messages ps)) (D @ docs_of (dst_messages ps))
    (run_loop env c (src_messages ps) (dst_messages ps @ ends))"
  using assms(2-7)
proof (induction ps arbitrary: S D c)
  case Nil
  let ?c = "c\<lparr>srcClosed := True, dstClosed := True\<rparr>"
  have rb: "read_batches env c [] ends = Inr (?c, [], [], ends \<noteq> [], [], [])"
    using Nil last by (auto simp: read_batches_def cursor_done_message_def)
  have inv: "pairing_inv env S D ?c" using Nil by (simp add: pairing_inv_def)
  have "reports_exactly env ?c (S @ []) (D @ [])
      (rbind (if ends \<noteq> [] then flush_if_needed env ?c else Inr ?c) (\<lambda>c2. run_loop env c2 [] []))"
  proof (rule flush_then [OF ord _ inv, where P = "\<lambda>a b. a \<and> b"])
    show "reports_exactly env c' (S' @ []) (D' @ []) (run_loop env c' [] [])"
      if "pairing_inv env S' D' c'" "srcClosed c' \<and> dstClosed c'" "comparable env (S' @ []) (D' @ [])" for S' D' c'
      using run_loop_end [OF ord _ that(1)] that by simp
  qed (use Nil in simp_all)
  moreover have "run_loop env c [] ends = rbind (if ends \<noteq> [] then flush_if_needed env ?c else Inr ?c) (\<lambda>c2. run_loop env c2 [] [])"
    using Nil.prems(5) rb
    by (subst run_loop.simps) (auto simp: still_reading_def process_batches.simps rbind_def split: sum.splits)
  ultimately show ?case by (simp add: reports_exactly_def)
next
  case (Cons p ps)
  obtain s b d where p: "p = (s, b, d)" by (cases p) auto
  from Cons.prems(1) have ok: "src_msg_ok s" "dst_msg_ok d" "msg_type d \<noteq> MsgTypeCursorDone" "\<forall>p \<in> set ps. pair_ok p"
    by (auto simp: p pair_ok_def)
  let ?S2 = "docs_of (src_messages (p # ps))" and ?D2 = "docs_of (dst_messages (p # ps))"
  have docs: "?S2 = DocsWithTS s @ docs_of (src_messages ps)" "?D2 = DocsWithTS d @ docs_of (dst_messages ps)"
    by (simp_all add: p)
  have "\<forall>x \<in> set (DocsWithTS s). is_ok (doc_size (env_method env) (dwt_Doc x))"
    using Cons.prems(3) by (auto simp: comparable_def docs p)
  from read_src_message [OF ok(1) this Cons.prems(4), of "src_messages ps"] obtain c1 where
    c1: "read_src env c (s # src_messages ps) = Inr (c1, DocsWithTS s, src_messages ps)" "pairing_inv env S D c1"
      "reports c1 = reports c" "srcClosed c1 = srcClosed c" "dstClosed c1 = dstClosed c" by blast
  have rb: "read_batches env c (src_messages (p # ps)) (dst_messages (p # ps) @ ends)
      = Inr (c1, DocsWithTS s, DocsWithTS d, b, src_messages ps, dst_messages ps @ ends)"
    using Cons.prems(5,6) c1(1) read_dst_message [OF ok(2,3), of c1 False b "dst_messages ps @ ends"]
    by (simp add: read_batches_def p)
  let ?f = "\<lambda>c2. rbind (process_batches env c2 (DocsWithTS s) (DocsWithTS d))
      (\<lambda>c3. run_loop env c3 (src_messages ps) (dst_messages ps @ ends))"
  have run: "run_loop env c (src_messages (p # ps)) (dst_messages (p # ps) @ ends)
      = rbind (if b then flush_if_needed env c1 else Inr c1) ?f"
    using Cons.prems(5) rb
    by (subst run_loop.simps) (auto simp: still_reading_def rbind_def split: sum.splits)
  have "reports_exactly env c1 (S @ ?S2) (D @ ?D2) (rbind (if b then flush_if_needed env c1 else Inr c1) ?f)"
  proof (rule flush_then [OF ord Cons.prems(3) c1(2), where P = "\<lambda>x y. \<not> x \<and> \<not> y"])
    show "b \<longrightarrow> no_match env S ?D2 \<and> no_match env ?S2 D" using Cons.prems(2) by (simp add: p)
    show "\<not> srcClosed c1 \<and> \<not> dstClosed c1" using c1(4,5) Cons.prems(5,6) by simp
    fix S' D' c'
    assume c': "pairing_inv env S' D' c'" "\<not> srcClosed c' \<and> \<not> dstClosed c'" "comparable env (S' @ ?S2) (D' @ ?D2)"
      "(S', D') = (S, D) \<or> b \<and> (S', D') = ([], [])"
    have cmp: "comparable env ((S' @ DocsWithTS s) @ docs_of (src_messages ps)) ((D' @ DocsWithTS d) @ docs_of (dst_messages ps))"
      using c'(3) unfolding docs by simp
    from process_batches_inv [OF comparable_prefix [OF cmp] c'(1)] obtain c3 where
      c3: "process_batches env c' (DocsWithTS s) (DocsWithTS d) = Inr c3"
        "pairing_inv env (S' @ DocsWithTS s) (D' @ DocsWithTS d) c3" "frame c3 = frame c'" by blast
    have "separated env (S @ DocsWithTS s) (D @ DocsWithTS d) ps" using Cons.prems(2) by (simp add: p)
    with c'(4) have "separated env (S' @ DocsWithTS s) (D' @ DocsWithTS d) ps"
      by (auto dest: separated_suffix)
    from Cons.IH [OF ok(4) this cmp c3(2)] c3(3) c'(2)
    have "reports_exactly env c' ((S' @ DocsWithTS s) @ docs_of (src_messages ps)) ((D' @ DocsWithTS d) @ docs_of (dst_messages ps))
        (run_loop env c3 (src_messages ps) (dst_messages ps @ ends))"
      by (auto simp: frame_def reports_exactly_def)
    then show "reports_exactly env c' (S' @ ?S2) (D' @ ?D2) (?f c')" unfolding docs by (simp add: c3(1))
  qed
  then show ?case unfolding run by (simp add: reports_exactly_def c1(3))
qed

section \<open>The readers of a natural-order partition are in step\<close>

lemma length_chunks_of: "0 < n \<Longrightarrow> length (chunks_of n xs) = (length xs + (n - 1)) div n"
proof (induction n xs rule: chunks_of.induct)
  case (2 n x xs)
  show ?case
  proof (cases "length xs < n")
    case True
    then have "drop (n - 1) xs = []" by simp
    moreover have "(length (x # xs) + (n - 1)) div n = 1"
      using True "2.prems" by (intro div_nat_eqI) auto
    ultimately show ?thesis using "2.prems" by simp
  next
    case False
    have "(length (x # xs) + (n - 1)) = (length xs - (n - 1) + (n - 1)) + n" using False "2.prems" by simp
    then have "(length (x # xs) + (n - 1)) div n = Suc ((length xs - (n - 1) + (n - 1)) div n)"
      using "2.prems" by (simp only: div_add_self2)
    with 2 show ?thesis by simp
  qed
qed simp

definition dst_group :: "doc_with_ts list \<Rightarrow> doc_with_ts list \<Rightarrow> to_comparator_msg list" where
  "dst_group G F = map docs_message (chunks_of ToComparatorBatchSize F)
     @ replicate (to_comparator_batch_count (length G) - to_comparator_batch_count (length F)) padding_message"

definition src_group :: "doc_with_ts list \<Rightarrow> to_comparator_msg list" where
  "src_group G = map docs_message (chunks_of ToComparatorBatchSize G)"

definition pairs_of :: "bool \<Rightarrow> doc_with_ts list \<Rightarrow> doc_with_ts list \<Rightarrow> message_pair list" where
  "pairs_of afterDone G F = zip (src_group G) (zip (afterDone # replicate (length (src_group G) - 1) False) (dst_group G F))"

fun natural_pairs :: "bool \<Rightarrow> (doc_with_ts list \<times> doc_with_ts list) list \<Rightarrow> message_pair list" where
  "natural_pairs afterDone [] = []"
| "natural_pairs afterDone ((G, F) # gs) = pairs_of afterDone G F @ natural_pairs True gs"

lemma group_lengths:
  assumes "length F \<le> length G" "G \<noteq> []"
  shows "length (dst_group G F) = length (src_group G)" "0 < length (src_group G)"
proof -
  have "to_comparator_batch_count (length F) \<le> to_comparator_batch_count (length G)"
    using assms(1) by (simp add: to_comparator_batch_count_def div_le_mono)
  moreover have "0 < to_comparator_batch_count (length G)"
    using assms(2) by (simp add: to_comparator_batch_count_def ToComparatorBatchSize_def div_greater_zero_iff Suc_le_eq)
  ultimately show "length (dst_group G F) = length (src_group G)" "0 < length (src_group G)"
    by (simp_all add: dst_group_def src_group_def length_chunks_of batch_limits to_comparator_batch_count_def)
qed

lemma docs_of_groups [simp]: "docs_of (src_group G) = G" "docs_of (dst_group G F) = F"
proof -
  have "docs_of (map docs_message gs) = concat gs" for gs by (induction gs) (simp_all add: docs_message_def)
  moreover have "docs_of (replicate n padding_message) = []" for n
    by (induction n) (simp_all add: padding_message_def)
  ultimately show "docs_of (src_group G) = G" "docs_of (dst_group G F) = F"
    using concat_chunks_of [OF batch_limits(1)] by (simp_all add: src_group_def dst_group_def)
qed

lemma group_msgs_ok:
  "m \<in> set (src_group G) \<Longrightarrow> src_msg_ok m"
  "m \<in> set (dst_group G F) \<Longrightarrow> dst_msg_ok m \<and> msg_type m \<noteq> MsgTypeCursorDone"
  by (auto simp: src_group_def dst_group_def docs_message_def src_msg_ok_def dst_msg_ok_def padding_message_def
      dest: chunks_of_sizes [OF batch_limits(1), THEN conjunct2])

lemma src_messages_zip: "length ss = length bds \<Longrightarrow> src_messages (zip ss bds) = ss"
  by (simp add: src_messages_def)

lemma dst_messages_zip:
  "length ss = length ds \<Longrightarrow> dst_messages (zip ss (zip (replicate (length ds) False) ds)) = ds"
  by (induction ss ds rule: list_induct2) simp_all

lemma pairs_of_messages:
  assumes "length F \<le> length G" "G \<noteq> []"
  shows "src_messages (pairs_of b G F) = src_group G"
    "dst_messages (pairs_of b G F) = (if b then [cursor_done_message] else []) @ dst_group G F"
    "\<forall>p \<in> set (pairs_of b G F). pair_ok p"
    "\<exists>s d ps. pairs_of b G F = (s, b, d) # ps \<and> (\<forall>(_, b, _) \<in> set ps. \<not> b)"
proof -
  note l = group_lengths [OF assms]
  obtain s ss where s: "src_group G = s # ss" using l(2) by (cases "src_group G") auto
  obtain d ds where d: "dst_group G F = d # ds" using l by (cases "dst_group G F") auto
  have len: "length ss = length ds" using l(1) by (simp add: s d)
  have p: "pairs_of b G F = (s, b, d) # zip ss (zip (replicate (length ds) False) ds)"
    using len by (simp add: pairs_of_def s d)
  show "src_messages (pairs_of b G F) = src_group G" "dst_messages (pairs_of b G F) = (if b then [cursor_done_message] else []) @ dst_group G F"
    using len by (simp_all add: p s d src_messages_zip dst_messages_zip)
  show "\<forall>p \<in> set (pairs_of b G F). pair_ok p"
    unfolding pairs_of_def
  proof
    fix q assume q: "q \<in> set (zip (src_group G) (zip (b # replicate (length (src_group G) - 1) False) (dst_group G F)))"
    obtain x c y where xy: "q = (x, c, y)" by (cases q) auto
    with q have "x \<in> set (src_group G)" "y \<in> set (dst_group G F)"
      by (auto dest: set_zip_leftD set_zip_rightD)
    then show "pair_ok q" using group_msgs_ok xy by (auto simp: pair_ok_def)
  qed
  have "\<forall>(_, b, _) \<in> set (zip ss (zip (replicate (length ds) False) ds)). \<not> b"
    by (auto simp: in_set_zip)
  with p show "\<exists>s d ps. pairs_of b G F = (s, b, d) # ps \<and> (\<forall>(_, b, _) \<in> set ps. \<not> b)" by blast
qed

lemma separated_same_group:
  assumes "\<forall>(_, b, _) \<in> set ps. \<not> b" "separated env (S @ docs_of (src_messages ps)) (D @ docs_of (dst_messages ps)) qs"
  shows "separated env S D (ps @ qs)"
  using assms
proof (induction ps arbitrary: S D)
  case (Cons p ps)
  obtain s b d where p: "p = (s, b, d)" by (cases p) auto
  with Cons show ?case by auto
qed simp

text \<open>The documents of one group have no keys in common with those found for another.\<close>

fun apart :: "comparator_env \<Rightarrow> (doc_with_ts list \<times> doc_with_ts list) list \<Rightarrow> bool" where
  "apart env [] = True"
| "apart env ((G, F) # gs) \<longleftrightarrow> no_match env G (concat (map snd gs)) \<and> no_match env (concat (map fst gs)) F \<and> apart env gs"

definition groups_ok :: "(doc_with_ts list \<times> doc_with_ts list) list \<Rightarrow> bool" where
  "groups_ok gs \<longleftrightarrow> (\<forall>(G, F) \<in> set gs. G \<noteq> [] \<and> length F \<le> length G)"

lemma natural_pairs_messages:
  "groups_ok gs \<Longrightarrow> src_messages (natural_pairs b gs) = concat (map (src_group \<circ> fst) gs)
    \<and> docs_of (src_messages (natural_pairs b gs)) = concat (map fst gs)
    \<and> docs_of (dst_messages (natural_pairs b gs)) = concat (map snd gs)
    \<and> (\<forall>p \<in> set (natural_pairs b gs). pair_ok p)
    \<and> (if b then [cursor_done_message] else []) @ concat (map (\<lambda>(G, F). dst_group G F @ [cursor_done_message]) gs)
      = dst_messages (natural_pairs b gs) @ (if b \<or> gs \<noteq> [] then [cursor_done_message] else [])"
proof (induction gs arbitrary: b)
  case (Cons g gs)
  obtain G F where g: "g = (G, F)" by (cases g)
  from Cons.prems have ok: "groups_ok gs" "length F \<le> length G" "G \<noteq> []" by (auto simp: groups_ok_def g)
  note pm = pairs_of_messages [OF ok(2,3), of b] and IH = Cons.IH [OF ok(1), of True]
  from IH have "[cursor_done_message] @ concat (map (\<lambda>(G, F). dst_group G F @ [cursor_done_message]) gs)
      = dst_messages (natural_pairs True gs) @ [cursor_done_message]" by simp
  with IH pm(1-3) show ?case by (auto simp: g)
qed simp

lemma natural_pairs_separated:
  assumes "groups_ok gs" "apart env gs" "no_match env S (concat (map snd gs))" "no_match env (concat (map fst gs)) D"
  shows "separated env S D (natural_pairs b gs)"
  using assms
proof (induction gs arbitrary: S D b)
  case (Cons g gs)
  obtain G F where g: "g = (G, F)" by (cases g)
  from Cons.prems have ok: "groups_ok gs" "length F \<le> length G" "G \<noteq> []" by (auto simp: groups_ok_def g)
  note pm = pairs_of_messages [OF ok(2,3), of b] and docs = natural_pairs_messages [OF Cons.prems(1), of b]
  from pm(4) obtain s d ps where ps: "pairs_of b G F = (s, b, d) # ps" "\<forall>(_, b, _) \<in> set ps. \<not> b" by blast
  have "separated env (S @ G) (D @ F) (natural_pairs True gs)"
    using Cons.prems by (intro Cons.IH ok(1)) (simp_all add: g)
  moreover have "DocsWithTS s @ docs_of (src_messages ps) = G" "DocsWithTS d @ docs_of (dst_messages ps) = F"
    using arg_cong [OF pm(1), of docs_of] arg_cong [OF pm(2), of docs_of] by (auto simp: ps(1) split: if_splits)
  ultimately have "separated env (S @ DocsWithTS s) (D @ DocsWithTS d) (ps @ natural_pairs True gs)"
    by (intro separated_same_group ps(2)) (metis append.assoc)
  moreover have n: "natural_pairs b (g # gs) = (s, b, d) # ps @ natural_pairs True gs" by (simp add: g ps(1))
  have "no_match env S (docs_of (dst_messages (natural_pairs b (g # gs))))"
    "no_match env (docs_of (src_messages (natural_pairs b (g # gs)))) D"
    unfolding docs [THEN conjunct2, THEN conjunct1] docs [THEN conjunct2, THEN conjunct2, THEN conjunct1] by (rule Cons.prems)+
  ultimately show ?case unfolding n separated.simps by blast
qed simp

section \<open>From the readers to the reports\<close>

text \<open>The documents the destination has for a group of ids, and what the server's answer must be like.\<close>

definition found :: "(raw_value list \<Rightarrow> go_error + doc_cursor) \<Rightarrow> flavor \<Rightarrow> raw_value list \<Rightarrow> doc_with_ts list" where
  "found fetch flavor ids = map (doc_of_read flavor) (dc_docs (projr (fetch ids)))"

definition fetch_ok :: "(raw_value list \<Rightarrow> go_error + doc_cursor) \<Rightarrow> flavor \<Rightarrow> cmp_method \<Rightarrow> raw_value list \<Rightarrow> bool" where
  "fetch_ok fetch flavor m ids \<longleftrightarrow> (case fetch ids of
       Inl _ \<Rightarrow> False
     | Inr cursor \<Rightarrow> cursor_readable flavor cursor \<and> dc_err cursor = None \<and> length (dc_docs cursor) \<le> length ids
         \<and> doc_bytes (found fetch flavor ids) \<le> ToComparatorByteLimit
         \<and> (\<forall>d \<in> set (found fetch flavor ids). id_of m d \<in> set ids))"

definition keys_hold_ids :: "comparator_env \<Rightarrow> doc_with_ts list \<Rightarrow> doc_with_ts list \<Rightarrow> bool" where
  "keys_hold_ids env S D \<longleftrightarrow> (\<forall>s \<in> set S. \<forall>d \<in> set D. key_of env s = key_of env d
     \<longrightarrow> id_of (env_method env) s = id_of (env_method env) d)"

lemma read_dst_batch_ok:
  assumes "fetch_ok fetch flavor m (map (id_of m) G)"
  shows "read_dst_batch fetch flavor u (map (id_of m) G) msgs
    = (Inr (), msgs @ dst_group G (found fetch flavor (map (id_of m) G)) @ [cursor_done_message])"
proof -
  let ?ids = "map (id_of m) G"
  from assms obtain cursor where c: "fetch ?ids = Inr cursor" "cursor_readable flavor cursor" "dc_err cursor = None"
    "length (dc_docs cursor) \<le> length G" "doc_bytes (found fetch flavor ?ids) \<le> ToComparatorByteLimit"
    by (auto simp: fetch_ok_def split: sum.splits)
  have f: "found fetch flavor ?ids = map (doc_of_read flavor) (dc_docs cursor)" by (simp add: found_def c(1))
  from iterate_cursor_ok [OF c(2,3), of msgs] c(5) have
    "iterate_cursor_to_channel flavor cursor msgs
      = (Inr (length (dc_docs cursor)), msgs @ map docs_message (chunks_of ToComparatorBatchSize (found fetch flavor ?ids)))"
    by (auto simp: f)
  with c(1,4) show ?thesis by (simp add: read_dst_batch_def abind_def Let_def dst_group_def f)
qed

lemma read_natural_dst_ok:
  "\<forall>G \<in> set groups. fetch_ok fetch flavor m (map (id_of m) G) \<Longrightarrow>
     read_natural_dst fetch flavor (map (map (id_of m)) groups) msgs = (Inr (), msgs
       @ concat (map (\<lambda>(G, F). dst_group G F @ [cursor_done_message])
           (map (\<lambda>G. (G, found fetch flavor (map (id_of m) G))) groups)))"
proof (induction groups arbitrary: msgs)
  case (Cons G groups)
  from Cons.prems read_dst_batch_ok [of fetch flavor m G "()" msgs] Cons.IH show ?case
    by (simp add: read_natural_dst_def abind_def)
qed (simp add: read_natural_dst_def)

lemma fetched_apart:
  assumes "\<forall>G \<in> set groups. fetch_ok fetch flavor m (map (id_of m) G)" "distinct (map (id_of m) (concat groups))"
    and "keys_hold_ids env (concat groups) (concat (map (\<lambda>G. found fetch flavor (map (id_of m) G)) groups))" "env_method env = m"
  shows "apart env (map (\<lambda>G. (G, found fetch flavor (map (id_of m) G))) groups)"
  using assms
proof (induction groups)
  case (Cons G groups)
  let ?F = "\<lambda>H. found fetch flavor (map (id_of m) H)"
  have ids: "id_of m d \<in> id_of m ` set H" if "H \<in> set (G # groups)" "d \<in> set (?F H)" for H d
    using bspec [OF Cons.prems(1) that(1)] that(2) by (simp add: fetch_ok_def split: sum.splits)
  have same: "id_of m s = id_of m d" if "s \<in> set (concat (G # groups))" "H \<in> set (G # groups)" "d \<in> set (?F H)"
      "key_of env s = key_of env d" for s H d
  proof -
    have "d \<in> set (concat (map ?F (G # groups)))" using that(2,3) by auto
    with Cons.prems(3,4) that(1,4) show ?thesis unfolding keys_hold_ids_def by blast
  qed
  have apart: "id_of m s \<noteq> id_of m t" if "s \<in> set G" "H \<in> set groups" "t \<in> set H" for s t H
  proof -
    have "t \<in> set (concat groups)" using that(2,3) by auto
    moreover have "id_of m ` set G \<inter> id_of m ` set (concat groups) = {}" using Cons.prems(2) by (simp add: image_UN)
    ultimately show ?thesis using that(1) by blast
  qed
  have "key_of env s \<noteq> key_of env d" if s: "s \<in> set G" and H: "H \<in> set groups" and d: "d \<in> set (?F H)" for s H d
  proof
    assume k: "key_of env s = key_of env d"
    have "id_of m s = id_of m d" by (rule same [OF _ _ d k]) (use s H in auto)
    moreover obtain t where "t \<in> set H" "id_of m d = id_of m t" using ids [OF _ d] H by auto
    ultimately show False using apart [OF s H] by auto
  qed
  then have "no_match env G (concat (map ?F groups))" by (auto simp: no_match_def)
  moreover have "key_of env t \<noteq> key_of env d" if H: "H \<in> set groups" and t: "t \<in> set H" and d: "d \<in> set (?F G)" for t H d
  proof
    assume k: "key_of env t = key_of env d"
    have "id_of m t = id_of m d" by (rule same [OF _ _ d k]) (use t H in auto)
    moreover obtain s where "s \<in> set G" "id_of m d = id_of m s" using ids [OF _ d] by auto
    ultimately show False using apart [OF _ H t] by auto
  qed
  then have "no_match env (concat groups) (?F G)" by (auto simp: no_match_def)
  moreover have "keys_hold_ids env (concat groups) (concat (map (\<lambda>G. found fetch flavor (map (id_of m) G)) groups))"
    using Cons.prems(3) by (auto simp: keys_hold_ids_def)
  ultimately show ?case using Cons by (simp add: comp_def)
qed simp


section \<open>An example\<close>

text \<open>Two groups of one document, of which the destination has the second.\<close>

definition example_fetch :: "raw_value list \<Rightarrow> go_error + doc_cursor" where
  "example_fetch ids = Inr (timed_cursor (if int32_value 2 \<in> set ids then [doc_2] else []) None)"

definition example_groups :: "doc_with_ts list list" where
  "example_groups = [[pooled doc_ab], [pooled doc_2]]"

definition example_read :: natural_reader where
  "example_read = new_natural_reader\<lparr>rd_toCompare := group_messages example_groups,
     rd_toDst := map (map (id_of IgnoreOrder)) example_groups\<rparr>"

lemma example_ids: "id_of IgnoreOrder (pooled doc_2) = int32_value 2" "id_of IgnoreOrder (pooled doc_ab) = int32_value 1"
proof -
  have "wf_bval (BDoc doc_2)" "wf_bval (BDoc doc_ab)" using example_trees by (simp_all add: is_tree_doc_def)
  then show "id_of IgnoreOrder (pooled doc_2) = int32_value 2" "id_of IgnoreOrder (pooled doc_ab) = int32_value 1"
    by (simp_all only: id_of_def pooled_def doc_with_ts.simps raw_doc_id_for_comparison.simps lookup_tree)
      (simp_all add: doc_2_def doc_ab_def)
qed

lemma example_ids_differ: "int32_value 2 \<noteq> int32_value 1"
  using keys_differ by auto

lemma example_found:
  "found example_fetch FlavorDocumentDB [int32_value 1] = []" "found example_fetch FlavorDocumentDB [int32_value 2] = [pooled doc_2]"
  using example_ids_differ by (simp_all add: found_def example_fetch_def)

lemma example_fetch_ok: "\<forall>G \<in> set example_groups. fetch_ok example_fetch FlavorDocumentDB IgnoreOrder (map (id_of IgnoreOrder) G)"
proof -
  have "doc_bytes [pooled doc_2] \<le> ToComparatorByteLimit"
    by (simp add: pooled_def tree_bytes_eq doc_2_def length_enc_doc ToComparatorByteLimit_def int32_value_def)
  then show ?thesis
    using example_ids_differ
    by (simp add: example_groups_def fetch_ok_def example_fetch_def example_ids example_found)
      (simp add: timed_cursor_def)
qed


end
