(* ===== verification/Mismatch_Reports.thy ===== *)
theory Mismatch_Reports
  imports Metadata Oplog "HOL-Library.Multiset"
begin

text \<open>
  What the verifier says of the mismatches it recorded (\<open>internal/verifier/mismatches.go\<close>, the reports of
  \<open>summary.go\<close> and the tallies of \<open>summary_api.go\<close>). The collection of mismatches is the list of its
  documents, as they are read back; the server's filters and aggregations are written out. The order
  in which the server returns them, by duration and then by \<open>_id\<close>, is a parameter; errors of the server
  are passed on by the code and left out here.
\<close>

type_synonym mismatch_db = "mismatch_info list"

section \<open>Categories and counts\<close>

definition missing_filter :: "mismatch_info \<Rightarrow> bool" where
  "missing_filter mi \<longleftrightarrow> res_Details (mi_Detail mi) = Missing \<and> res_Field (mi_Detail mi) = []"

definition missing_on_dst_filter :: "mismatch_info \<Rightarrow> bool" where
  "missing_on_dst_filter mi \<longleftrightarrow> missing_filter mi \<and> res_Cluster (mi_Detail mi) = ClusterTarget"

definition extra_on_dst_filter :: "mismatch_info \<Rightarrow> bool" where
  "extra_on_dst_filter mi \<longleftrightarrow> missing_filter mi \<and> res_Cluster (mi_Detail mi) = ClusterSource"

definition content_differs_filter :: "mismatch_info \<Rightarrow> bool" where
  "content_differs_filter mi \<longleftrightarrow> \<not> missing_filter mi"

record mismatch_counts =
  mc_MissingOnDst :: nat
  mc_ExtraOnDst :: nat
  mc_ContentDiffers :: nat

definition total_count :: "mismatch_counts \<Rightarrow> nat" where
  "total_count mc = mc_MissingOnDst mc + mc_ExtraOnDst mc + mc_ContentDiffers mc"

definition count_mismatches_for_generation :: "mismatch_db \<Rightarrow> int \<Rightarrow> mismatch_counts" where
  "count_mismatches_for_generation db generation =
     (let ms = filter (\<lambda>mi. mi_Generation mi = generation) db
      in \<lparr>mc_MissingOnDst = length (filter missing_on_dst_filter ms),
          mc_ExtraOnDst = length (filter extra_on_dst_filter ms),
          mc_ContentDiffers = length (filter content_differs_filter ms)\<rparr>)"

text \<open>A limit of zero is none, and the sign of a limit does not matter for what is returned.\<close>

definition with_limit :: "int \<Rightarrow> 'a list \<Rightarrow> 'a list" where
  "with_limit limit xs = (if limit = 0 then xs else take (nat \<bar>limit\<bar>) xs)"

definition of_task_type :: "int \<Rightarrow> task_type \<Rightarrow> mismatch_info \<Rightarrow> bool" where
  "of_task_type generation ty mi \<longleftrightarrow> mi_Generation mi = generation \<and> mi_TaskType mi = ty"

record mismatch_report_data =
  rd_ContentDiffers :: "mismatch_info list"
  rd_MissingOnDst :: "mismatch_info list"
  rd_ExtraOnDst :: "mismatch_info list"
  rd_Counts :: mismatch_counts

definition get_document_mismatch_report_data :: "(mismatch_info list \<Rightarrow> mismatch_info list) \<Rightarrow> mismatch_db \<Rightarrow> int \<Rightarrow> int
     \<Rightarrow> mismatch_report_data" where
  "get_document_mismatch_report_data longestFirst db generation limit =
     (let find = (\<lambda>category. with_limit limit (longestFirst
            (filter (\<lambda>mi. of_task_type generation VerifyDocuments mi \<and> category mi) db)))
      in \<lparr>rd_ContentDiffers = find content_differs_filter, rd_MissingOnDst = find missing_on_dst_filter,
          rd_ExtraOnDst = find extra_on_dst_filter, rd_Counts = count_mismatches_for_generation db generation\<rparr>)"

definition get_namespace_mismatches_for_generation :: "mismatch_db \<Rightarrow> int \<Rightarrow> result list" where
  "get_namespace_mismatches_for_generation db generation =
     map mi_Detail (filter (of_task_type generation VerifyCollection) db)"

definition get_longest_lived_document_mismatch :: "(mismatch_info list \<Rightarrow> mismatch_info list) \<Rightarrow> mismatch_db \<Rightarrow> int
     \<Rightarrow> mismatch_info option" where
  "get_longest_lived_document_mismatch longestFirst db generation =
     (let queriedGenerations = (if generation = 0 then [generation] else [generation, generation - 1])
      in case longestFirst (filter (\<lambda>mi. mi_Generation mi \<in> set queriedGenerations \<and> mi_TaskType mi = VerifyDocuments) db) of
           [] \<Rightarrow> None | mi # _ \<Rightarrow> Some mi)"

section \<open>Recording and clearing\<close>

definition mismatch_of :: "task \<Rightarrow> result \<Rightarrow> mismatch_info" where
  "mismatch_of t r = \<lparr>mi_TaskID = tk_PrimaryKey t, mi_TaskType = tk_Type t,
     mi_Generation = (case tk_Generation t of None \<Rightarrow> 0 | Some g \<Rightarrow> g), mi_Detail = r\<rparr>"

definition insert_mismatches :: "task \<Rightarrow> result list \<Rightarrow> mismatch_db \<Rightarrow> mismatch_db" where
  "insert_mismatches t probs db = db @ map (mismatch_of t) probs"

definition is_mismatch_of_task :: "task \<Rightarrow> mismatch_info \<Rightarrow> bool" where
  "is_mismatch_of_task t mi \<longleftrightarrow> tk_Generation t = Some (mi_Generation mi) \<and> mi_TaskType mi = tk_Type t
     \<and> mi_TaskID mi = tk_PrimaryKey t"

definition clear_mismatches_for_task :: "task \<Rightarrow> mismatch_db \<Rightarrow> mismatch_db" where
  "clear_mismatches_for_task t db = filter (\<lambda>mi. \<not> is_mismatch_of_task t mi) db"

text \<open>A failure to clear is only a warning.\<close>

definition clear_mismatches_if_retrying_task :: "nat \<Rightarrow> bool \<Rightarrow> task \<Rightarrow> mismatch_db \<Rightarrow> mismatch_db" where
  "clear_mismatches_if_retrying_task attemptNumber clearFails t db =
     (if attemptNumber = 0 then db else if clearFails then db else clear_mismatches_for_task t db)"

text \<open>The attempts of one task: what each records before it fails or ends, and whether clearing before it fails.\<close>

fun task_attempts :: "task \<Rightarrow> nat \<Rightarrow> (bool \<times> result list) list \<Rightarrow> mismatch_db \<Rightarrow> mismatch_db" where
  "task_attempts t n [] db = db"
| "task_attempts t n ((clearFails, probs) # attempts) db =
     task_attempts t (n + 1) attempts (insert_mismatches t probs (clear_mismatches_if_retrying_task n clearFails t db))"

section \<open>Tolerated index mismatches\<close>

text \<open>\<open>parse\<close> reads the paths of the operations of a JSON diff, with encoding/json and jsondiff.\<close>

definition path_tolerated :: "string list \<Rightarrow> string \<Rightarrow> bool" where
  "path_tolerated tolerances path \<longleftrightarrow>
     list_ex (\<lambda>t. path = ''/'' @ t \<or> has_prefix path ((''/'' @ t) @ ''/'')) tolerances"

definition tolerances_obscure_mismatch :: "(string \<Rightarrow> go_error + string list) \<Rightarrow> string list \<Rightarrow> ns_mismatch_info \<Rightarrow> bool" where
  "tolerances_obscure_mismatch parse tolerances info =
     (case nsm_Detail info of
        None \<Rightarrow> False
      | Some detail \<Rightarrow> (case parse detail of
          Inl e \<Rightarrow> False
        | Inr patch \<Rightarrow> if length patch = 0 then False else list_all (path_tolerated tolerances) patch))"

definition IndexMismatchTolerances :: "string list" where
  "IndexMismatchTolerances = [''expireAfterSeconds'', ''unique'']"

section \<open>Sending mismatches\<close>

text \<open>What was sent before the end or a failed assertion of the conversion.\<close>

fun send_all :: "('a \<Rightarrow> go_error + 'b) \<Rightarrow> 'a list \<Rightarrow> 'b list \<Rightarrow> 'b list \<times> (go_error + unit)" where
  "send_all toAPI [] out = (out, Inr ())"
| "send_all toAPI (m # ms) out = (case toAPI m of Inl e \<Rightarrow> (out, Inl e) | Inr a \<Rightarrow> send_all toAPI ms (out @ [a]))"

definition query_generation :: "int \<Rightarrow> int" where
  "query_generation curGeneration = (if curGeneration > 0 then curGeneration - 1 else curGeneration)"

definition duration_ms :: "mismatch_info \<Rightarrow> int" where
  "duration_ms mi = sint (DurationMS (res_MismatchHistory (mi_Detail mi)))"

text \<open>The duration is multiplied as a 32-bit word.\<close>

definition mismatch_selected :: "int \<Rightarrow> task_type \<Rightarrow> u32 \<Rightarrow> mismatch_info \<Rightarrow> bool" where
  "mismatch_selected generation ty minDurationSecs mi \<longleftrightarrow> of_task_type generation ty mi
     \<and> (minDurationSecs > 0 \<longrightarrow> duration_ms mi \<ge> uint (1000 * minDurationSecs))"

definition find_and_send_mismatches :: "(mismatch_info list \<Rightarrow> mismatch_info list) \<Rightarrow> mismatch_db \<Rightarrow> int \<Rightarrow> task_type
     \<Rightarrow> u32 \<Rightarrow> (result \<Rightarrow> go_error + 'm) \<Rightarrow> 'm list \<times> (go_error + unit)" where
  "find_and_send_mismatches longestFirst db curGeneration ty minDurationSecs toAPI =
     send_all (\<lambda>mi. toAPI (mi_Detail mi))
       (longestFirst (filter (mismatch_selected (query_generation curGeneration) ty minDurationSecs) db)) []"

definition send_document_mismatches :: "(mismatch_info list \<Rightarrow> mismatch_info list) \<Rightarrow> mismatch_db \<Rightarrow> int \<Rightarrow> u32
     \<Rightarrow> doc_mismatch_info list \<times> (go_error + unit)" where
  "send_document_mismatches longestFirst db generation minDurationSecs =
     (if generation = 0 \<and> minDurationSecs > 0 then ([], Inr ())
      else find_and_send_mismatches longestFirst db generation VerifyDocuments minDurationSecs
             (\<lambda>r. Inr (APIDocMismatchInfo r)))"

definition send_namespace_mismatches :: "(mismatch_info list \<Rightarrow> mismatch_info list) \<Rightarrow> (string \<Rightarrow> go_error + string list)
     \<Rightarrow> string list \<Rightarrow> mismatch_db \<Rightarrow> int \<Rightarrow> ns_mismatch_info list \<times> (go_error + unit)" where
  "send_namespace_mismatches longestFirst parse tolerances db generation =
     (let (sent, res) = find_and_send_mismatches longestFirst db generation VerifyCollection 0 APINSMismatchInfo
      in (filter (\<lambda>info. nsm_Aspect info \<noteq> AspectIndex \<or> \<not> tolerances_obscure_mismatch parse tolerances info) sent, res))"

section \<open>The tallies of the summary\<close>

text \<open>A Go map with counts, in the order of its first keys.\<close>

fun bump_count :: "'k \<Rightarrow> ('k \<times> nat) list \<Rightarrow> ('k \<times> nat) list" where
  "bump_count k [] = [(k, 1)]"
| "bump_count k ((j, n) # m) = (if j = k then (j, n + 1) # m else (j, n) # bump_count k m)"

record doc_mismatch_summary =
  dms_Total :: nat
  dms_ByType :: "(mismatch_type \<times> nat) list"
  dms_ByNamespace :: "(string \<times> nat) list"

definition tally_mismatch :: "doc_mismatch_summary \<Rightarrow> doc_mismatch_info \<Rightarrow> doc_mismatch_summary" where
  "tally_mismatch s m = s\<lparr>dms_Total := dms_Total s + 1, dms_ByType := bump_count (dm_Type m) (dms_ByType s),
     dms_ByNamespace := bump_count (dm_Namespace m) (dms_ByNamespace s)\<rparr>"

definition collect_doc_mismatches :: "(mismatch_info list \<Rightarrow> mismatch_info list) \<Rightarrow> mismatch_db \<Rightarrow> int \<Rightarrow> u32
     \<Rightarrow> go_error + doc_mismatch_summary" where
  "collect_doc_mismatches longestFirst db generation minSecs =
     (let (sent, res) = send_document_mismatches longestFirst db generation minSecs;
          summary = foldl tally_mismatch \<lparr>dms_Total = 0, dms_ByType = [], dms_ByNamespace = []\<rparr> sent
      in rbind res (\<lambda>_. Inr summary))"

definition collect_ns_mismatches :: "(mismatch_info list \<Rightarrow> mismatch_info list) \<Rightarrow> (string \<Rightarrow> go_error + string list)
     \<Rightarrow> mismatch_db \<Rightarrow> int \<Rightarrow> go_error + ns_mismatch_info list" where
  "collect_ns_mismatches longestFirst parse db generation =
     (let (sent, res) = send_namespace_mismatches longestFirst parse [] db generation in rbind res (\<lambda>_. Inr sent))"

section \<open>The reports of a generation\<close>

definition failedStatuses :: "task_status list" where
  "failedStatuses = [Failed, MetadataMismatch]"

definition fetch_failed_and_incomplete_tasks :: "task_db \<Rightarrow> task_type \<Rightarrow> int \<Rightarrow> task list \<times> task list" where
  "fetch_failed_and_incomplete_tasks db ty generation =
     (let allTasks = filter (\<lambda>t. tk_Type t = ty \<and> tk_Generation t = Some generation) db;
          failed = (\<lambda>t. tk_Status t \<in> Some ` set failedStatuses)
      in (filter failed allTasks, filter (\<lambda>t. \<not> failed t \<and> tk_Status t \<noteq> Some Completed) allTasks))"

record metadata_report =
  mr_Rows :: "result list"
  mr_Tolerated :: nat
  mr_AnyMismatch :: bool
  mr_AnyIncomplete :: bool

definition is_tolerated :: "(string \<Rightarrow> go_error + string list) \<Rightarrow> string list \<Rightarrow> result \<Rightarrow> go_error + bool" where
  "is_tolerated parse tolerances f =
     (if length tolerances > 0
      then rbind (APINSMismatchInfo f) (\<lambda>apiMM.
             Inr (nsm_Aspect apiMM = AspectIndex \<and> tolerances_obscure_mismatch parse tolerances apiMM))
      else Inr False)"

definition add_metadata_row :: "(string \<Rightarrow> go_error + string list) \<Rightarrow> string list \<Rightarrow> result list \<times> nat \<Rightarrow> result
     \<Rightarrow> go_error + result list \<times> nat" where
  "add_metadata_row parse tolerances = (\<lambda>(rows, toleratedCount) f.
     rbind (is_tolerated parse tolerances f) (\<lambda>tolerated.
       Inr (if tolerated then (rows, toleratedCount + 1) else (rows @ [f], toleratedCount))))"

definition report_collection_metadata_mismatches :: "(string \<Rightarrow> go_error + string list) \<Rightarrow> string list \<Rightarrow> task_db \<Rightarrow> mismatch_db
     \<Rightarrow> int \<Rightarrow> go_error + metadata_report" where
  "report_collection_metadata_mismatches parse tolerances tasks db generation =
     (let (failedTasks, incompleteTasks) = fetch_failed_and_incomplete_tasks tasks VerifyCollection generation;
          anyAreIncomplete = length incompleteTasks > 0
      in if length failedTasks = 0
         then Inr \<lparr>mr_Rows = [], mr_Tolerated = 0, mr_AnyMismatch = False, mr_AnyIncomplete = anyAreIncomplete\<rparr>
         else let mismatches = get_namespace_mismatches_for_generation db generation
              in rbind (rfold (add_metadata_row parse tolerances) ([], 0) mismatches) (\<lambda>(rows, toleratedCount).
                   let shownCount = length mismatches - toleratedCount
                   in Inr \<lparr>mr_Rows = rows, mr_Tolerated = toleratedCount, mr_AnyMismatch = shownCount > 0,
                           mr_AnyIncomplete = anyAreIncomplete\<rparr>))"

text \<open>A table of the report; \<open>dt_Complete\<close> chooses between ``All n documents'' and ``First k of n documents''.\<close>

record doc_row =
  dr_NameSpace :: string
  dr_ID :: raw_value
  dr_Content :: "(string \<times> string) option"
  dr_DurationNS :: "u64 option"

record doc_table =
  dt_Kind :: mismatch_type
  dt_Complete :: bool
  dt_Count :: nat
  dt_Rows :: "doc_row list"

definition mismatch_duration :: "result \<Rightarrow> u64" where
  "mismatch_duration vr = DurationMS (res_MismatchHistory vr) * 1000000"

definition table_row :: "mismatch_type \<Rightarrow> bool \<Rightarrow> mismatch_info \<Rightarrow> go_error + doc_row" where
  "table_row kind showMismatchDuration m =
     (if DocumentIsMissing (mi_Detail m) = (kind = MismatchContent) then Inl (Panic ''found a mismatch of another type'')
      else Inr \<lparr>dr_NameSpace = res_NameSpace (mi_Detail m), dr_ID = res_ID (mi_Detail m),
        dr_Content = (if kind = MismatchContent then Some (res_Field (mi_Detail m), res_Details (mi_Detail m)) else None),
        dr_DurationNS = (if showMismatchDuration then Some (mismatch_duration (mi_Detail m)) else None)\<rparr>)"

definition doc_tables :: "mismatch_type \<Rightarrow> bool \<Rightarrow> mismatch_info list \<Rightarrow> nat \<Rightarrow> go_error + doc_table list" where
  "doc_tables kind showMismatchDuration infos n =
     (if length infos > 0
      then rbind (map_results (table_row kind showMismatchDuration) infos) (\<lambda>rows.
             Inr [\<lparr>dt_Kind = kind, dt_Complete = (n = length infos), dt_Count = n, dt_Rows = rows\<rparr>])
      else Inr [])"

definition lo_max :: "u64 list \<Rightarrow> u64" where
  "lo_max ds = (case ds of [] \<Rightarrow> 0 | d # ds \<Rightarrow> foldl (\<lambda>m x. if sint x > sint m then x else m) d ds)"

record doc_report =
  dcr_Tables :: "doc_table list"
  dcr_Longest :: "u64 option"
  dcr_AnyIncomplete :: bool

definition report_document_mismatches :: "(mismatch_info list \<Rightarrow> mismatch_info list) \<Rightarrow> int \<Rightarrow> task_db \<Rightarrow> mismatch_db \<Rightarrow> int
     \<Rightarrow> go_error + doc_report" where
  "report_document_mismatches longestFirst failureDisplaySize tasks db generation =
     (let (failedTasks, incompleteTasks) = fetch_failed_and_incomplete_tasks tasks VerifyDocuments generation;
          anyAreIncomplete = length incompleteTasks > 0
      in if length failedTasks = 0
         then Inr \<lparr>dcr_Tables = [], dcr_Longest = None, dcr_AnyIncomplete = anyAreIncomplete\<rparr>
         else let reportData = get_document_mismatch_report_data longestFirst db generation failureDisplaySize;
                  showMismatchDuration = generation > 0;
                  allShown = map (\<lambda>mi. mismatch_duration (mi_Detail mi))
                    (rd_ContentDiffers reportData @ rd_MissingOnDst reportData @ rd_ExtraOnDst reportData)
              in rbind (doc_tables MismatchContent showMismatchDuration (rd_ContentDiffers reportData)
                          (mc_ContentDiffers (rd_Counts reportData))) (\<lambda>differ.
                 rbind (doc_tables MismatchMissing showMismatchDuration (rd_MissingOnDst reportData)
                          (mc_MissingOnDst (rd_Counts reportData))) (\<lambda>missing.
                 rbind (doc_tables MismatchExtra showMismatchDuration (rd_ExtraOnDst reportData)
                          (mc_ExtraOnDst (rd_Counts reportData))) (\<lambda>extra.
                   Inr \<lparr>dcr_Tables = differ @ missing @ extra,
                        dcr_Longest = (if length allShown > 0 then Some (lo_max allShown) else None),
                        dcr_AnyIncomplete = anyAreIncomplete\<rparr>))))"

section \<open>Counts of the categories\<close>

text \<open>Where the cluster of each missing document is one of the two, the categories are a partition.\<close>

definition clusters_known :: "mismatch_db \<Rightarrow> bool" where
  "clusters_known db \<longleftrightarrow> (\<forall>mi \<in> set db. res_Cluster (mi_Detail mi) \<in> {ClusterTarget, ClusterSource})"

lemma cluster_names [simp]: "ClusterTarget \<noteq> ClusterSource" "ClusterSource \<noteq> ClusterTarget"
  by (simp_all add: ClusterTarget_def ClusterSource_def)

lemma categories_partition:
  assumes "clusters_known ms"
  shows "length ms = length (filter missing_on_dst_filter ms) + length (filter extra_on_dst_filter ms)
    + length (filter content_differs_filter ms)"
  using assms
  by (induction ms) (auto simp: clusters_known_def missing_on_dst_filter_def extra_on_dst_filter_def content_differs_filter_def)

definition category_of :: "mismatch_type \<Rightarrow> mismatch_info \<Rightarrow> bool" where
  "category_of kind = (case kind of MismatchContent \<Rightarrow> content_differs_filter | MismatchMissing \<Rightarrow> missing_on_dst_filter
     | MismatchExtra \<Rightarrow> extra_on_dst_filter)"

definition count_of :: "mismatch_type \<Rightarrow> mismatch_counts \<Rightarrow> nat" where
  "count_of kind = (case kind of MismatchContent \<Rightarrow> mc_ContentDiffers | MismatchMissing \<Rightarrow> mc_MissingOnDst
     | MismatchExtra \<Rightarrow> mc_ExtraOnDst)"

definition found_of :: "mismatch_type \<Rightarrow> mismatch_report_data \<Rightarrow> mismatch_info list" where
  "found_of kind = (case kind of MismatchContent \<Rightarrow> rd_ContentDiffers | MismatchMissing \<Rightarrow> rd_MissingOnDst
     | MismatchExtra \<Rightarrow> rd_ExtraOnDst)"

lemma count_of_generation:
  "count_of kind (count_mismatches_for_generation db g) = length (filter (\<lambda>mi. mi_Generation mi = g \<and> category_of kind mi) db)"
  by (cases kind) (simp_all add: count_of_def category_of_def count_mismatches_for_generation_def Let_def conj_commute)

lemma category_missing: "category_of kind mi \<Longrightarrow> DocumentIsMissing (mi_Detail mi) \<longleftrightarrow> kind \<noteq> MismatchContent"
  by (cases kind) (auto simp: category_of_def content_differs_filter_def missing_on_dst_filter_def extra_on_dst_filter_def
      missing_filter_def DocumentIsMissing_def)

section \<open>What the report shows\<close>

definition longest_first_ok :: "(mismatch_info list \<Rightarrow> mismatch_info list) \<Rightarrow> bool" where
  "longest_first_ok longestFirst \<longleftrightarrow> (\<forall>ms. mset (longestFirst ms) = mset ms
     \<and> sorted_wrt (\<lambda>a b. duration_ms b \<le> duration_ms a) (longestFirst ms))"

lemma longest_first:
  assumes "longest_first_ok longestFirst"
  shows "mset (longestFirst ms) = mset ms" "set (longestFirst ms) = set ms" "length (longestFirst ms) = length ms"
    "sorted_wrt (\<lambda>a b. duration_ms b \<le> duration_ms a) (longestFirst ms)"
proof -
  show m: "mset (longestFirst ms) = mset ms" "sorted_wrt (\<lambda>a b. duration_ms b \<le> duration_ms a) (longestFirst ms)"
    using assms by (auto simp: longest_first_ok_def)
  show "set (longestFirst ms) = set ms" using m(1) by (rule mset_eq_setD)
  show "length (longestFirst ms) = length ms" using m(1) by (rule mset_eq_length)
qed

definition documents_of :: "mismatch_db \<Rightarrow> int \<Rightarrow> mismatch_type \<Rightarrow> mismatch_db" where
  "documents_of db g kind = filter (\<lambda>mi. of_task_type g VerifyDocuments mi \<and> category_of kind mi) db"

lemma found_of_report:
  "found_of kind (get_document_mismatch_report_data longestFirst db g limit) = with_limit limit (longestFirst (documents_of db g kind))"
  "rd_Counts (get_document_mismatch_report_data longestFirst db g limit) = count_mismatches_for_generation db g"
  by (cases kind; simp add: found_of_def get_document_mismatch_report_data_def documents_of_def category_of_def Let_def)+

lemma with_limit_subset: "set (with_limit limit xs) \<subseteq> set xs"
  by (auto simp: with_limit_def dest: in_set_takeD)

lemma with_limit_Nil [simp]: "with_limit limit xs = [] \<longleftrightarrow> xs = []"
  by (auto simp: with_limit_def)

text \<open>Each kind of mismatch has its table, with the rows found.\<close>

definition row_of :: "mismatch_type \<Rightarrow> bool \<Rightarrow> mismatch_info \<Rightarrow> doc_row" where
  "row_of kind showDuration m = \<lparr>dr_NameSpace = res_NameSpace (mi_Detail m), dr_ID = res_ID (mi_Detail m),
     dr_Content = (if kind = MismatchContent then Some (res_Field (mi_Detail m), res_Details (mi_Detail m)) else None),
     dr_DurationNS = (if showDuration then Some (mismatch_duration (mi_Detail m)) else None)\<rparr>"

definition table_of :: "mismatch_type \<Rightarrow> bool \<Rightarrow> mismatch_info list \<Rightarrow> nat \<Rightarrow> doc_table list" where
  "table_of kind showDuration infos n = (if infos = [] then []
     else [\<lparr>dt_Kind = kind, dt_Complete = (n = length infos), dt_Count = n, dt_Rows = map (row_of kind showDuration) infos\<rparr>])"

lemma table_rows_ok:
  "\<forall>m \<in> set infos. category_of kind m \<Longrightarrow>
    map_results (table_row kind showDuration) infos = Inr (map (row_of kind showDuration) infos)"
  by (induction infos) (auto simp: table_row_def row_of_def category_missing)

lemma doc_tables_ok:
  "\<forall>m \<in> set infos. category_of kind m \<Longrightarrow> doc_tables kind showDuration infos n = Inr (table_of kind showDuration infos n)"
  by (simp add: doc_tables_def table_of_def table_rows_ok)

definition has_failed_task :: "task_db \<Rightarrow> task_type \<Rightarrow> int \<Rightarrow> bool" where
  "has_failed_task tasks ty g \<longleftrightarrow> (\<exists>t \<in> set tasks. tk_Type t = ty \<and> tk_Generation t = Some g
     \<and> tk_Status t \<in> {Some Failed, Some MetadataMismatch})"

definition has_incomplete_task :: "task_db \<Rightarrow> task_type \<Rightarrow> int \<Rightarrow> bool" where
  "has_incomplete_task tasks ty g \<longleftrightarrow> (\<exists>t \<in> set tasks. tk_Type t = ty \<and> tk_Generation t = Some g
     \<and> tk_Status t \<notin> {Some Failed, Some MetadataMismatch, Some Completed})"

lemma fetched_tasks:
  "fetch_failed_and_incomplete_tasks tasks ty g = (failed, incomplete) \<Longrightarrow>
    (length failed = 0 \<longleftrightarrow> \<not> has_failed_task tasks ty g) \<and> (length incomplete > 0 \<longleftrightarrow> has_incomplete_task tasks ty g)"
  by (auto simp: fetch_failed_and_incomplete_tasks_def has_failed_task_def has_incomplete_task_def failedStatuses_def Let_def
      filter_empty_conv)

definition shown :: "(mismatch_info list \<Rightarrow> mismatch_info list) \<Rightarrow> mismatch_db \<Rightarrow> int \<Rightarrow> int \<Rightarrow> mismatch_type \<Rightarrow> mismatch_info list" where
  "shown longestFirst db g limit kind = with_limit limit (longestFirst (documents_of db g kind))"

definition report_kinds :: "mismatch_type list" where
  "report_kinds = [MismatchContent, MismatchMissing, MismatchExtra]"

lemma report_document_mismatches_eq:
  assumes "longest_first_ok longestFirst" "has_failed_task tasks VerifyDocuments g"
  shows "report_document_mismatches longestFirst limit tasks db g = Inr \<lparr>
    dcr_Tables = concat (map (\<lambda>kind. table_of kind (g > 0) (shown longestFirst db g limit kind)
      (length (filter (\<lambda>mi. mi_Generation mi = g \<and> category_of kind mi) db))) report_kinds),
    dcr_Longest = (let ds = map (\<lambda>mi. mismatch_duration (mi_Detail mi)) (concat (map (shown longestFirst db g limit) report_kinds))
      in if ds \<noteq> [] then Some (lo_max ds) else None),
    dcr_AnyIncomplete = has_incomplete_task tasks VerifyDocuments g\<rparr>"
proof -
  obtain failed incomplete where f: "fetch_failed_and_incomplete_tasks tasks VerifyDocuments g = (failed, incomplete)"
    by (cases "fetch_failed_and_incomplete_tasks tasks VerifyDocuments g")
  let ?data = "get_document_mismatch_report_data longestFirst db g limit"
  have sel: "rd_ContentDiffers ?data = shown longestFirst db g limit MismatchContent"
    "rd_MissingOnDst ?data = shown longestFirst db g limit MismatchMissing"
    "rd_ExtraOnDst ?data = shown longestFirst db g limit MismatchExtra"
    using found_of_report(1) [of MismatchContent longestFirst db g limit] found_of_report(1) [of MismatchMissing longestFirst db g limit]
      found_of_report(1) [of MismatchExtra longestFirst db g limit]
    by (simp_all add: found_of_def shown_def)
  have cnt: "mc_ContentDiffers (rd_Counts ?data) = length (filter (\<lambda>mi. mi_Generation mi = g \<and> category_of MismatchContent mi) db)"
    "mc_MissingOnDst (rd_Counts ?data) = length (filter (\<lambda>mi. mi_Generation mi = g \<and> category_of MismatchMissing mi) db)"
    "mc_ExtraOnDst (rd_Counts ?data) = length (filter (\<lambda>mi. mi_Generation mi = g \<and> category_of MismatchExtra mi) db)"
    using count_of_generation [of MismatchContent db g] count_of_generation [of MismatchMissing db g]
      count_of_generation [of MismatchExtra db g]
    by (simp_all add: found_of_report(2) count_of_def)
  have "\<forall>m \<in> set (shown longestFirst db g limit kind). category_of kind m" for kind
    using with_limit_subset [of limit "longestFirst (documents_of db g kind)"] longest_first(2) [OF assms(1)]
    by (auto simp: shown_def documents_of_def)
  note tables = doc_tables_ok [OF this]
  from fetched_tasks [OF f] assms(2) have ff: "length failed \<noteq> 0" "(length incomplete > 0) = has_incomplete_task tasks VerifyDocuments g"
    by simp_all
  have app: "map h (a @ b @ c) \<noteq> [] \<longleftrightarrow> length (map h (a @ b @ c)) > 0" for h :: "mismatch_info \<Rightarrow> u64" and a b c by auto
  show ?thesis
    unfolding report_document_mismatches_def f prod.case Let_def sel cnt tables rbind_simps ff(2)
    using ff(1) by (simp add: report_kinds_def app)
qed

lemma lo_max_fold:
  "foldl (\<lambda>m x. if sint x > sint m then x else m) d ds \<in> insert d (set ds)
   \<and> (\<forall>x \<in> insert d (set ds). sint x \<le> sint (foldl (\<lambda>m x. if sint x > sint m then x else m) d (ds :: u64 list)))"
proof (induction ds arbitrary: d)
  case (Cons x ds)
  from Cons.IH [of x] Cons.IH [of d] show ?case by (fastforce split: if_splits)
qed simp

lemma lo_max:
  assumes "ds \<noteq> []"
  shows "lo_max ds \<in> set ds" "x \<in> set ds \<Longrightarrow> sint x \<le> sint (lo_max ds)"
proof -
  obtain d rest where d: "ds = d # rest" using assms by (cases ds) auto
  show "lo_max ds \<in> set ds" "x \<in> set ds \<Longrightarrow> sint x \<le> sint (lo_max ds)"
    using lo_max_fold [of d rest] by (auto simp: lo_max_def d)
qed

text \<open>Milliseconds that fit into a duration of 64 bits in nanoseconds.\<close>

definition durations_fit :: "mismatch_db \<Rightarrow> bool" where
  "durations_fit db \<longleftrightarrow> (\<forall>mi \<in> set db. 0 \<le> duration_ms mi \<and> duration_ms mi \<le> 9223372036854)"

lemma sint_duration:
  assumes "0 \<le> duration_ms mi" "duration_ms mi \<le> 9223372036854"
  shows "sint (mismatch_duration (mi_Detail mi)) = 1000000 * duration_ms mi"
proof -
  let ?d = "DurationMS (res_MismatchHistory (mi_Detail mi))"
  have "sint (?d * 1000000) = signed_take_bit 63 (sint ?d * sint (1000000 :: u64))"
    by (simp add: sint_word_ariths)
  also have "\<dots> = sint ?d * 1000000"
    using assms by (simp add: duration_ms_def signed_take_bit_int_eq_self)
  finally show ?thesis by (simp add: mismatch_duration_def duration_ms_def)
qed

lemma shown_longest:
  assumes "longest_first_ok longestFirst" "m \<in> set (documents_of db g kind)" "m \<notin> set (shown longestFirst db g limit kind)"
    and "s \<in> set (shown longestFirst db g limit kind)"
  shows "duration_ms m \<le> duration_ms s"
proof -
  let ?all = "longestFirst (documents_of db g kind)"
  from assms(3,4) have l: "limit \<noteq> 0"
    using assms(2) longest_first(2) [OF assms(1)] by (auto simp: shown_def with_limit_def)
  let ?n = "nat \<bar>limit\<bar>"
  have "sorted_wrt (\<lambda>a b. duration_ms b \<le> duration_ms a) (take ?n ?all @ drop ?n ?all)"
    unfolding append_take_drop_id by (rule longest_first(4) [OF assms(1)])
  then have "\<forall>a \<in> set (take ?n ?all). \<forall>b \<in> set (drop ?n ?all). duration_ms b \<le> duration_ms a"
    unfolding sorted_wrt_append by blast
  moreover have "set ?all = set (take ?n ?all) \<union> set (drop ?n ?all)" by (metis append_take_drop_id set_append)
  then have "m \<in> set (drop ?n ?all)" using assms(2,3) longest_first(2) [OF assms(1)] l by (auto simp: shown_def with_limit_def)
  ultimately show ?thesis using assms(4) l by (simp add: shown_def with_limit_def)
qed

lemma shown_subset: "longest_first_ok longestFirst \<Longrightarrow> set (shown longestFirst db g limit kind) \<subseteq> set (documents_of db g kind)"
  using with_limit_subset [of limit "longestFirst (documents_of db g kind)"] by (simp add: shown_def longest_first(2))

lemma shown_first:
  assumes "longest_first_ok longestFirst" "m \<in> set (documents_of db g kind)"
  shows "\<exists>s \<in> set (shown longestFirst db g limit kind). duration_ms m \<le> duration_ms s"
proof (cases "m \<in> set (shown longestFirst db g limit kind)")
  case False
  have "documents_of db g kind \<noteq> []" using assms(2) by auto
  then have "longestFirst (documents_of db g kind) \<noteq> []" using longest_first(3) [OF assms(1)] by (metis length_0_conv)
  then obtain s where "s \<in> set (shown longestFirst db g limit kind)" using with_limit_Nil by (fastforce simp: shown_def neq_Nil_conv)
  with shown_longest [OF assms False] show ?thesis by blast
qed auto

lemma kinds_cover:
  assumes "clusters_known db" "mi \<in> set db" "of_task_type g VerifyDocuments mi"
  shows "\<exists>kind. mi \<in> set (documents_of db g kind)"
proof -
  have "category_of MismatchContent mi \<or> category_of MismatchMissing mi \<or> category_of MismatchExtra mi"
    using assms by (auto simp: category_of_def content_differs_filter_def missing_on_dst_filter_def extra_on_dst_filter_def
        clusters_known_def)
  then show ?thesis using assms(2,3) by (auto simp: documents_of_def)
qed

lemma report_kinds_all: "kind \<in> set report_kinds"
  by (cases kind) (simp_all add: report_kinds_def)


lemma count_documents_and_others:
  "length (filter (\<lambda>mi. mi_Generation mi = g \<and> category_of kind mi) db) = length (documents_of db g kind)
     + length (filter (\<lambda>mi. mi_Generation mi = g \<and> category_of kind mi \<and> mi_TaskType mi \<noteq> VerifyDocuments) db)"
  by (induction db) (auto simp: documents_of_def of_task_type_def)

text \<open>The counts of the report are those of all mismatches of the generation, of collections as well as of
  documents, while its tables hold documents. A table that shows every document there is of its kind is
  still announced as the first few of more as soon as one collection mismatch is of the same kind.\<close>

theorem complete_table_called_incomplete:
  assumes "longest_first_ok longestFirst" "report_document_mismatches longestFirst limit tasks db g = Inr rep"
    and "t \<in> set (dcr_Tables rep)" "limit = 0 \<or> length (documents_of db g (dt_Kind t)) \<le> nat \<bar>limit\<bar>"
  shows "length (dt_Rows t) = length (documents_of db g (dt_Kind t))
    \<and> (dt_Complete t \<longleftrightarrow> (\<forall>mi \<in> set db. mi_Generation mi = g \<longrightarrow> category_of (dt_Kind t) mi \<longrightarrow> mi_TaskType mi = VerifyDocuments))"
proof -
  have "has_failed_task tasks VerifyDocuments g"
  proof (rule ccontr)
    obtain failed incomplete where f: "fetch_failed_and_incomplete_tasks tasks VerifyDocuments g = (failed, incomplete)"
      by (cases "fetch_failed_and_incomplete_tasks tasks VerifyDocuments g")
    assume "\<not> has_failed_task tasks VerifyDocuments g"
    with fetched_tasks [OF f] assms(2,3) show False by (auto simp: report_document_mismatches_def f)
  qed
  from report_document_mismatches_eq [OF assms(1) this, of limit db] assms(2,3) obtain kind where
    t: "t \<in> set (table_of kind (g > 0) (shown longestFirst db g limit kind)
      (length (filter (\<lambda>mi. mi_Generation mi = g \<and> category_of kind mi) db)))" by auto
  then have k: "dt_Kind t = kind" by (auto simp: table_of_def split: if_splits)
  have "length (shown longestFirst db g limit kind) = length (documents_of db g kind)"
    using assms(4) longest_first(3) [OF assms(1)] by (auto simp: shown_def with_limit_def k)
  with t k count_documents_and_others [of g kind db] show ?thesis
    by (auto simp: table_of_def filter_empty_conv split: if_splits)
qed

section \<open>Retries and restarts\<close>

lemma insert_mismatches_of_task:
  "tk_Generation t \<noteq> None \<Longrightarrow> filter (is_mismatch_of_task t) (insert_mismatches t probs db)
    = filter (is_mismatch_of_task t) db @ map (mismatch_of t) probs"
  "tk_Generation t \<noteq> None \<Longrightarrow> filter (\<lambda>mi. \<not> is_mismatch_of_task t mi) (insert_mismatches t probs db)
    = filter (\<lambda>mi. \<not> is_mismatch_of_task t mi) db"
  by (auto simp: insert_mismatches_def is_mismatch_of_task_def mismatch_of_def filter_empty_conv)

lemma clear_mismatches_of_task [simp]:
  "filter (is_mismatch_of_task t) (clear_mismatches_for_task t db) = []"
  "filter (\<lambda>mi. \<not> is_mismatch_of_task t mi) (clear_mismatches_for_task t db) = filter (\<lambda>mi. \<not> is_mismatch_of_task t mi) db"
  by (simp_all add: clear_mismatches_for_task_def filter_empty_conv)

lemma task_attempts_others:
  "tk_Generation t \<noteq> None \<Longrightarrow> filter (\<lambda>mi. \<not> is_mismatch_of_task t mi) (task_attempts t n attempts db)
    = filter (\<lambda>mi. \<not> is_mismatch_of_task t mi) db"
  by (induction t n attempts db rule: task_attempts.induct)
    (simp_all add: insert_mismatches_of_task clear_mismatches_if_retrying_task_def)

lemma task_attempts_retried:
  assumes "tk_Generation t \<noteq> None" "attempts \<noteq> []" "\<forall>(clearFails, probs) \<in> set attempts. \<not> clearFails" "n > 0"
  shows "filter (is_mismatch_of_task t) (task_attempts t n attempts db) = map (mismatch_of t) (snd (last attempts))"
  using assms(2-4)
proof (induction attempts arbitrary: n db)
  case (Cons a attempts)
  obtain probs where a: "a = (False, probs)" using Cons.prems(2) by (cases a) auto
  show ?case
  proof (cases "attempts = []")
    case True
    with Cons.prems(3) assms(1) show ?thesis
      by (simp add: a insert_mismatches_of_task clear_mismatches_if_retrying_task_def)
  next
    case False
    with Cons.prems Cons.IH [of "n + 1"] show ?thesis by (simp add: a)
  qed
qed simp

text \<open>C27: However often a task is attempted, as long as clearing succeeds, its mismatches in the end are those
  that its last attempt recorded, after those that were there before its first attempt if that was the
  only one; the mismatches of other tasks stay as they are.\<close>

theorem attempts_keep_last_mismatches:
  assumes "tk_Generation t \<noteq> None" "attempts \<noteq> []" "\<forall>(clearFails, probs) \<in> set attempts. \<not> clearFails"
  shows "filter (is_mismatch_of_task t) (task_attempts t 0 attempts db)
      = (if length attempts = 1 then filter (is_mismatch_of_task t) db else []) @ map (mismatch_of t) (snd (last attempts))
    \<and> filter (\<lambda>mi. \<not> is_mismatch_of_task t mi) (task_attempts t 0 attempts db) = filter (\<lambda>mi. \<not> is_mismatch_of_task t mi) db"
proof -
  obtain clearFails probs rest where a: "attempts = (clearFails, probs) # rest" using assms(2) by (cases attempts) auto
  show ?thesis
  proof (cases "rest = []")
    case True
    with assms(1) show ?thesis
      by (simp add: a insert_mismatches_of_task clear_mismatches_if_retrying_task_def)
  next
    case False
    with task_attempts_retried [OF assms(1) False, of 1 "insert_mismatches t probs db"] assms(1,3) task_attempts_others [OF assms(1)]
    show ?thesis by (simp add: a insert_mismatches_of_task clear_mismatches_if_retrying_task_def)
  qed
qed

text \<open>After a restart the reset starts an interrupted task over, but its mismatches stay, and the first attempt
  clears nothing: what the interrupted run had recorded is reported again beside what the new run finds,
  even where the documents are equal by now.\<close>

theorem restart_keeps_stale_mismatches:
  assumes "tk_Generation t \<noteq> None"
  shows "filter (is_mismatch_of_task t) (task_attempts (default_task_update t) 0 [(False, probs)]
      (task_attempts t 0 [(False, interrupted)] db))
    = filter (is_mismatch_of_task t) db @ map (mismatch_of t) interrupted @ map (mismatch_of t) probs"
proof -
  have same: "is_mismatch_of_task (default_task_update t) = is_mismatch_of_task t" "mismatch_of (default_task_update t) = mismatch_of t"
    by (auto simp: is_mismatch_of_task_def mismatch_of_def default_task_update_def)
  have "task_attempts (default_task_update t) 0 [(False, probs)] ms = insert_mismatches t probs ms" for ms
    by (simp add: clear_mismatches_if_retrying_task_def insert_mismatches_def same)
  with assms show ?thesis by (simp add: insert_mismatches_of_task clear_mismatches_if_retrying_task_def)
qed

section \<open>What the tallies hold\<close>

definition counted :: "('k \<times> nat) list \<Rightarrow> 'k \<Rightarrow> nat" where
  "counted m k = (case map_of m k of None \<Rightarrow> 0 | Some n \<Rightarrow> n)"

lemma counted_simps [simp]:
  "counted [] k = 0" "counted (bump_count j m) k = counted m k + (if j = k then 1 else 0)"
proof -
  show "counted [] k = 0" by (simp add: counted_def)
  show "counted (bump_count j m) k = counted m k + (if j = k then 1 else 0)"
    by (induction j m rule: bump_count.induct) (auto simp: counted_def)
qed

lemma tally_fold:
  "dms_Total (foldl tally_mismatch s ms) = dms_Total s + length ms
   \<and> counted (dms_ByType (foldl tally_mismatch s ms)) ty = counted (dms_ByType s) ty + length (filter (\<lambda>m. dm_Type m = ty) ms)
   \<and> counted (dms_ByNamespace (foldl tally_mismatch s ms)) ns
      = counted (dms_ByNamespace s) ns + length (filter (\<lambda>m. dm_Namespace m = ns) ms)"
  by (induction ms arbitrary: s) (auto simp: tally_mismatch_def)

lemma send_all_Inr: "\<forall>m \<in> set ms. toAPI m = Inr (f m) \<Longrightarrow> send_all toAPI ms out = (out @ map f ms, Inr ())"
  by (induction ms arbitrary: out) auto

lemma send_docs [simp]: "send_all (\<lambda>mi. Inr (f mi)) ms out = (out @ map f ms, Inr ())"
  by (simp add: send_all_Inr)

lemma length_filter_longest:
  "longest_first_ok longestFirst \<Longrightarrow> length (filter P (longestFirst ms)) = length (filter P ms)"
  by (metis longest_first(1) mset_filter size_mset)

text \<open>The mismatches a summary is asked for: of the generation before, or of the first, and lasting long enough.\<close>

definition asked_for :: "int \<Rightarrow> int \<Rightarrow> mismatch_info \<Rightarrow> bool" where
  "asked_for g minSecs mi \<longleftrightarrow> of_task_type (query_generation g) VerifyDocuments mi
     \<and> (minSecs > 0 \<longrightarrow> 1000 * minSecs \<le> duration_ms mi \<and> g \<noteq> 0)"

lemma threshold_exact: "uint minSecs * 1000 < 2 ^ 32 \<Longrightarrow> uint (1000 * minSecs :: u32) = 1000 * uint minSecs"
  by (simp add: uint_mult_lem [THEN iffD1] uint_word_ariths mult.commute)

lemma sent_documents:
  assumes "longest_first_ok longestFirst" "uint minSecs * 1000 < 2 ^ 32"
  shows "\<exists>ms. send_document_mismatches longestFirst db g minSecs = (map (\<lambda>mi. APIDocMismatchInfo (mi_Detail mi)) ms, Inr ())
    \<and> mset ms = mset (filter (asked_for g (uint minSecs)) db) \<and> sorted_wrt (\<lambda>a b. duration_ms b \<le> duration_ms a) ms"
proof (cases "g = 0 \<and> minSecs > 0")
  case True
  then have "0 < uint minSecs" by (simp add: word_less_def)
  with True have "filter (asked_for g (uint minSecs)) db = []" by (auto simp: asked_for_def filter_empty_conv)
  with True show ?thesis by (simp add: send_document_mismatches_def)
next
  case False
  have "filter (mismatch_selected (query_generation g) VerifyDocuments minSecs) db = filter (asked_for g (uint minSecs)) db"
    using False threshold_exact [OF assms(2)] by (intro filter_cong) (auto simp: mismatch_selected_def asked_for_def word_less_def)
  with False show ?thesis
    using longest_first(1,4) [OF assms(1), of "filter (asked_for g (uint minSecs)) db"]
    by (intro exI [of _ "longestFirst (filter (asked_for g (uint minSecs)) db)"])
      (auto simp: send_document_mismatches_def find_and_send_mismatches_def)
qed

text \<open>C39: The summary counts exactly the document mismatches asked for, in all, by type and by namespace, as long as
  the shortest duration asked for, in milliseconds, is below \<open>2 ^ 32\<close>.\<close>

theorem doc_mismatch_summary_exact:
  assumes "longest_first_ok longestFirst" "uint minSecs * 1000 < 2 ^ 32"
  shows "\<exists>s. collect_doc_mismatches longestFirst db g minSecs = Inr s
    \<and> dms_Total s = length (filter (asked_for g (uint minSecs)) db)
    \<and> (\<forall>ty. counted (dms_ByType s) ty = length (filter (\<lambda>mi. asked_for g (uint minSecs) mi
         \<and> dm_Type (APIDocMismatchInfo (mi_Detail mi)) = ty) db))
    \<and> (\<forall>ns. counted (dms_ByNamespace s) ns = length (filter (\<lambda>mi. asked_for g (uint minSecs) mi
         \<and> res_NameSpace (mi_Detail mi) = ns) db))"
proof -
  from sent_documents [OF assms, of db g] obtain ms where
    ms: "send_document_mismatches longestFirst db g minSecs = (map (\<lambda>mi. APIDocMismatchInfo (mi_Detail mi)) ms, Inr ())"
      "mset ms = mset (filter (asked_for g (uint minSecs)) db)" by blast
  have len: "length (filter P ms) = length (filter (\<lambda>mi. asked_for g (uint minSecs) mi \<and> P mi) db)" for P
  proof -
    have "length (filter P ms) = length (filter P (filter (asked_for g (uint minSecs)) db))"
      by (metis ms(2) mset_filter size_mset)
    then show ?thesis by (simp add: conj_commute)
  qed
  have "length ms = length (filter (asked_for g (uint minSecs)) db)" by (metis ms(2) size_mset)
  then show ?thesis
    using tally_fold [of "\<lparr>dms_Total = 0, dms_ByType = [], dms_ByNamespace = []\<rparr>"
        "map (\<lambda>mi. APIDocMismatchInfo (mi_Detail mi)) ms"]
    by (simp add: collect_doc_mismatches_def ms(1) len filter_map comp_def APIDocMismatchInfo_def [of "mi_Detail _"])
qed

text \<open>From 4294968 seconds on, about 50 days, the product of the duration asked for wraps around, so that
  mismatches that lasted much less are sent.\<close>

theorem duration_filter_wraps:
  assumes "4294968 \<le> uint minSecs" "g > 0" "mi \<in> set db" "of_task_type (query_generation g) VerifyDocuments mi"
    and "duration_ms mi = 1000 * uint minSecs mod 2 ^ 32" "longest_first_ok longestFirst"
  shows "duration_ms mi < 1000 * uint minSecs
    \<and> APIDocMismatchInfo (mi_Detail mi) \<in> set (fst (send_document_mismatches longestFirst db g minSecs))"
proof -
  have w: "uint (1000 * minSecs :: u32) = 1000 * uint minSecs mod 2 ^ 32"
    by (simp add: uint_word_ariths)
  have "1000 * uint minSecs mod 2 ^ 32 < 1000 * uint minSecs"
    using assms(1) pos_mod_bound [of "2 ^ 32" "1000 * uint minSecs"] by (simp del: pos_mod_bound)
  moreover have "mismatch_selected (query_generation g) VerifyDocuments minSecs mi"
    using assms(4,5) by (simp add: mismatch_selected_def w)
  then have "mi \<in> set (longestFirst (filter (mismatch_selected (query_generation g) VerifyDocuments minSecs) db))"
    using assms(3) longest_first(2) [OF assms(6)] by simp
  ultimately show ?thesis
    using assms(2,5) by (auto simp: send_document_mismatches_def find_and_send_mismatches_def)
qed

section \<open>Tolerances\<close>

definition tolerated :: "(string \<Rightarrow> go_error + string list) \<Rightarrow> string list \<Rightarrow> result \<Rightarrow> bool" where
  "tolerated parse tolerances r \<longleftrightarrow> (\<exists>info detail paths. APINSMismatchInfo r = Inr info \<and> nsm_Aspect info = AspectIndex
     \<and> nsm_Detail info = Some detail \<and> parse detail = Inr paths \<and> paths \<noteq> []
     \<and> (\<forall>path \<in> set paths. \<exists>t \<in> set tolerances. path = ''/'' @ t \<or> (\<exists>rest. path = ''/'' @ t @ ''/'' @ rest)))"

lemma has_prefix_iff: "has_prefix s p \<longleftrightarrow> (\<exists>rest. s = p @ rest)"
  by (auto simp: has_prefix_def) (metis append_take_drop_id)

lemma path_tolerated_iff:
  "path_tolerated tolerances path \<longleftrightarrow> (\<exists>t \<in> set tolerances. path = ''/'' @ t \<or> (\<exists>rest. path = ''/'' @ t @ ''/'' @ rest))"
  by (auto simp: path_tolerated_def list_ex_iff has_prefix_iff)

lemma obscured_iff:
  "APINSMismatchInfo r = Inr info \<Longrightarrow>
    nsm_Aspect info = AspectIndex \<and> tolerances_obscure_mismatch parse tolerances info \<longleftrightarrow> tolerated parse tolerances r"
  by (auto simp: tolerated_def tolerances_obscure_mismatch_def list_all_iff path_tolerated_iff split: option.splits sum.splits)

lemma is_tolerated_iff:
  assumes "is_ok (APINSMismatchInfo r)"
  shows "is_tolerated parse tolerances r = Inr (tolerated parse tolerances r)"
proof -
  from assms obtain info where i: "APINSMismatchInfo r = Inr info" by (cases "APINSMismatchInfo r") auto
  show ?thesis
  proof (cases "tolerances = []")
    case True
    then have "\<not> tolerated parse tolerances r" by (auto simp: tolerated_def neq_Nil_conv)
    with True show ?thesis by (simp add: is_tolerated_def)
  next
    case False
    with obscured_iff [OF i] show ?thesis by (simp add: is_tolerated_def i)
  qed
qed

lemma metadata_rows:
  "\<forall>r \<in> set rs. is_ok (APINSMismatchInfo r) \<Longrightarrow> rfold (add_metadata_row parse tolerances) (rows, n) rs
    = Inr (rows @ filter (\<lambda>r. \<not> tolerated parse tolerances r) rs, n + length (filter (tolerated parse tolerances) rs))"
  by (induction rs arbitrary: rows n) (simp_all add: add_metadata_row_def is_tolerated_iff)

definition metadata_presentable :: "mismatch_db \<Rightarrow> bool" where
  "metadata_presentable db \<longleftrightarrow> (\<forall>mi \<in> set db. mi_TaskType mi = VerifyCollection \<longrightarrow> is_ok (APINSMismatchInfo (mi_Detail mi)))"

text \<open>C26: The report and the web API leave out exactly the index mismatches all of whose differences lie in a tolerated
  option: the report of a generation shows its other mismatches and says that there are some exactly when
  there are, and the web API sends those of the generation before.\<close>

theorem tolerated_mismatches_left_out:
  assumes "longest_first_ok longestFirst" "metadata_presentable db" "has_failed_task tasks VerifyCollection g"
  shows "\<exists>rep. report_collection_metadata_mismatches parse tolerances tasks db g = Inr rep
    \<and> mr_Rows rep = filter (\<lambda>r. \<not> tolerated parse tolerances r) (get_namespace_mismatches_for_generation db g)
    \<and> (mr_AnyMismatch rep \<longleftrightarrow> mr_Rows rep \<noteq> [])
    \<and> (\<exists>infos. send_namespace_mismatches longestFirst parse tolerances db g = (infos, Inr ())
         \<and> mset (map Inr infos :: (go_error + ns_mismatch_info) list) = image_mset APINSMismatchInfo (mset (filter (\<lambda>r. \<not> tolerated parse tolerances r)
             (get_namespace_mismatches_for_generation db (query_generation g)))))"
proof -
  obtain failed incomplete where f: "fetch_failed_and_incomplete_tasks tasks VerifyCollection g = (failed, incomplete)"
    by (cases "fetch_failed_and_incomplete_tasks tasks VerifyCollection g")
  let ?rs = "get_namespace_mismatches_for_generation db g" and ?tol = "tolerated parse tolerances"
  have ok: "\<forall>r \<in> set (get_namespace_mismatches_for_generation db g'). is_ok (APINSMismatchInfo r)" for g'
    using assms(2) by (auto simp: get_namespace_mismatches_for_generation_def of_task_type_def metadata_presentable_def)
  have len: "length (filter ?tol ?rs) < length ?rs \<longleftrightarrow> filter (\<lambda>r. \<not> ?tol r) ?rs \<noteq> []"
    using sum_length_filter_compl [of ?tol ?rs] length_greater_0_conv [of "filter (\<lambda>r. \<not> ?tol r) ?rs"] by linarith
  have rep: "report_collection_metadata_mismatches parse tolerances tasks db g = Inr \<lparr>mr_Rows = filter (\<lambda>r. \<not> ?tol r) ?rs,
      mr_Tolerated = length (filter ?tol ?rs), mr_AnyMismatch = (filter (\<lambda>r. \<not> ?tol r) ?rs \<noteq> []),
      mr_AnyIncomplete = (length incomplete > 0)\<rparr>"
    using fetched_tasks [OF f] assms(3)
    by (simp add: report_collection_metadata_mismatches_def f metadata_rows [OF ok] len Let_def)
  let ?sel = "filter (mismatch_selected (query_generation g) VerifyCollection 0) db"
  let ?info = "\<lambda>mi. projr (APINSMismatchInfo (mi_Detail mi))"
  have sel: "map mi_Detail ?sel = get_namespace_mismatches_for_generation db (query_generation g)"
    by (simp add: get_namespace_mismatches_for_generation_def mismatch_selected_def [abs_def])
  have info: "APINSMismatchInfo (mi_Detail mi) = Inr (?info mi)" if "mi \<in> set (longestFirst ?sel)" for mi
  proof -
    have "is_ok (APINSMismatchInfo (mi_Detail mi))"
      using that assms(2) longest_first(2) [OF assms(1)]
      by (auto simp: mismatch_selected_def of_task_type_def metadata_presentable_def)
    then show ?thesis by (cases "APINSMismatchInfo (mi_Detail mi)") simp_all
  qed
  have kept: "filter (\<lambda>i. nsm_Aspect i \<noteq> AspectIndex \<or> \<not> tolerances_obscure_mismatch parse tolerances i)
      (map ?info (longestFirst ?sel)) = map ?info (filter (\<lambda>mi. \<not> ?tol (mi_Detail mi)) (longestFirst ?sel))"
    unfolding filter_map comp_def
    by (intro arg_cong [where f = "map ?info"] filter_cong refl) (use obscured_iff [OF info] in blast)
  have sent: "send_namespace_mismatches longestFirst parse tolerances db g
      = (map ?info (filter (\<lambda>mi. \<not> ?tol (mi_Detail mi)) (longestFirst ?sel)), Inr ())"
  proof -
    have "send_all (\<lambda>mi. APINSMismatchInfo (mi_Detail mi)) (longestFirst ?sel) [] = ([] @ map ?info (longestFirst ?sel), Inr ())"
      using info by (intro send_all_Inr) blast
    then show ?thesis
      by (simp only: send_namespace_mismatches_def find_and_send_mismatches_def Let_def prod.case kept append_Nil)
  qed
  let ?K = "filter (\<lambda>mi. \<not> ?tol (mi_Detail mi)) (longestFirst ?sel)"
  have K: "map Inr (map ?info ?K) = map (\<lambda>mi. APINSMismatchInfo (mi_Detail mi)) ?K" using info by simp
  have m: "mset ?K = mset (filter (\<lambda>mi. \<not> ?tol (mi_Detail mi)) ?sel)"
    by (simp only: mset_filter longest_first(1) [OF assms(1)])
  have f: "filter (\<lambda>r. \<not> ?tol r) (map mi_Detail ?sel) = map mi_Detail (filter (\<lambda>mi. \<not> ?tol (mi_Detail mi)) ?sel)"
    by (simp only: filter_map comp_def)
  have "mset (map Inr (map ?info ?K)) = image_mset APINSMismatchInfo (mset (filter (\<lambda>r. \<not> ?tol r) (map mi_Detail ?sel)))"
    unfolding f K by (simp only: mset_map m image_mset.compositionality comp_def)
  then have "mset (map Inr (map ?info ?K)) = image_mset APINSMismatchInfo (mset (filter (\<lambda>r. \<not> ?tol r)
      (get_namespace_mismatches_for_generation db (query_generation g))))" unfolding sel .
  with sent have "\<exists>infos. send_namespace_mismatches longestFirst parse tolerances db g = (infos, Inr ())
      \<and> mset (map Inr infos) = image_mset APINSMismatchInfo (mset (filter (\<lambda>r. \<not> ?tol r)
        (get_namespace_mismatches_for_generation db (query_generation g))))" by blast
  then show ?thesis unfolding rep by simp
qed

section \<open>Witnesses\<close>

definition by_duration :: "mismatch_info list \<Rightarrow> mismatch_info list" where
  "by_duration = sort_key (\<lambda>mi. - duration_ms mi)"

lemma by_duration_ok: "longest_first_ok by_duration"
proof -
  have "sorted (map (\<lambda>mi. - duration_ms mi) (by_duration ms))" for ms unfolding by_duration_def by (rule sorted_sort_key)
  then have "sorted_wrt (\<lambda>a b. duration_ms b \<le> duration_ms a) (by_duration ms)" for ms by (simp add: sorted_map)
  then show ?thesis by (simp add: longest_first_ok_def by_duration_def)
qed

text \<open>A document missing on the destination, and a collection that is missing there as well.\<close>

definition missing_mismatch :: "task_type \<Rightarrow> u64 \<Rightarrow> mismatch_info" where
  "missing_mismatch ty ms = \<lparr>mi_TaskID = [1], mi_TaskType = ty, mi_Generation = 1,
     mi_Detail = zero_result\<lparr>res_Details := Missing, res_Cluster := ClusterTarget, res_NameSpace := ''db.c'',
       res_MismatchHistory := \<lparr>First = 0, DurationMS = ms\<rparr>\<rparr>\<rparr>"

definition failed_task :: "task_type \<Rightarrow> task" where
  "failed_task ty = zero_task\<lparr>tk_PrimaryKey := [1], tk_Type := ty, tk_Generation := Some 1, tk_Status := Some Failed\<rparr>"

definition mixed_mismatches :: mismatch_db where
  "mixed_mismatches = [missing_mismatch VerifyDocuments 250, missing_mismatch VerifyCollection 0]"

lemma failed_task [simp]: "has_failed_task [failed_task ty] ty 1"
  by (simp add: has_failed_task_def failed_task_def)

lemma missing_mismatch_simps [simp]:
  "duration_ms (missing_mismatch ty ms) = sint ms" "mi_TaskType (missing_mismatch ty ms) = ty"
  "mi_Generation (missing_mismatch ty ms) = 1" "category_of MismatchMissing (missing_mismatch ty ms)"
  "\<not> category_of MismatchContent (missing_mismatch ty ms)" "\<not> category_of MismatchExtra (missing_mismatch ty ms)"
  "res_Cluster (mi_Detail (missing_mismatch ty ms)) = ClusterTarget"
  by (simp_all add: duration_ms_def missing_mismatch_def category_of_def content_differs_filter_def missing_on_dst_filter_def
      extra_on_dst_filter_def missing_filter_def zero_result_def)

lemma mixed_ok: "clusters_known mixed_mismatches" "durations_fit mixed_mismatches"
  by (simp_all add: clusters_known_def durations_fit_def mixed_mismatches_def)


theorem complete_table_called_incomplete_witness:
  "\<exists>rep t. report_document_mismatches by_duration 20 [failed_task VerifyDocuments] mixed_mismatches 1 = Inr rep
    \<and> dcr_Tables rep = [t] \<and> length (dt_Rows t) = 1 \<and> \<not> dt_Complete t"
proof -
  let ?rep = "report_document_mismatches by_duration 20 [failed_task VerifyDocuments] mixed_mismatches 1"
  have docs: "documents_of mixed_mismatches 1 MismatchMissing = [missing_mismatch VerifyDocuments 250]"
    "documents_of mixed_mismatches 1 MismatchContent = []" "documents_of mixed_mismatches 1 MismatchExtra = []"
    by (simp_all add: documents_of_def mixed_mismatches_def of_task_type_def)
  then have shown: "shown by_duration mixed_mismatches 1 20 MismatchMissing = [missing_mismatch VerifyDocuments 250]"
    "shown by_duration mixed_mismatches 1 20 MismatchContent = []" "shown by_duration mixed_mismatches 1 20 MismatchExtra = []"
    by (simp_all add: shown_def by_duration_def with_limit_def)
  obtain rep t where rep: "?rep = Inr rep" "dcr_Tables rep = [t]" "dt_Kind t = MismatchMissing"
    using report_document_mismatches_eq [OF by_duration_ok failed_task, of 20 mixed_mismatches]
    by (simp add: report_kinds_def shown table_of_def)
  then have t: "t \<in> set (dcr_Tables rep)" "20 = (0 :: int) \<or> length (documents_of mixed_mismatches 1 (dt_Kind t)) \<le> nat \<bar>20\<bar>"
    by (simp_all add: docs)
  from complete_table_called_incomplete [OF by_duration_ok rep(1) t] rep show ?thesis
    by (simp add: docs) (auto simp: mixed_mismatches_def)
qed

theorem attempts_keep_last_mismatches_witness:
  "filter (is_mismatch_of_task (failed_task VerifyDocuments))
      (task_attempts (failed_task VerifyDocuments) 0 [(False, [zero_result, zero_result]), (False, [zero_result])] [])
    = [mismatch_of (failed_task VerifyDocuments) zero_result]"
  using attempts_keep_last_mismatches [of "failed_task VerifyDocuments" "[(False, [zero_result, zero_result]), (False, [zero_result])]" "[]"]
  by (simp add: failed_task_def)

theorem restart_keeps_stale_mismatches_witness:
  "filter (is_mismatch_of_task (failed_task VerifyDocuments)) (task_attempts (default_task_update (failed_task VerifyDocuments)) 0 [(False, [])]
      (task_attempts (failed_task VerifyDocuments) 0 [(False, [zero_result])] []))
    = [mismatch_of (failed_task VerifyDocuments) zero_result]"
  using restart_keeps_stale_mismatches [of "failed_task VerifyDocuments" "[]" "[zero_result]" "[]"]
  by (simp add: failed_task_def)

definition later_mismatches :: mismatch_db where
  "later_mismatches = map (missing_mismatch VerifyDocuments) [500, 704, 90000]"

theorem doc_mismatch_summary_exact_witness:
  "\<exists>s. collect_doc_mismatches by_duration later_mismatches 2 60 = Inr s \<and> dms_Total s = 1"
  using doc_mismatch_summary_exact [OF by_duration_ok, of 60 later_mismatches 2]
  by (auto simp: later_mismatches_def asked_for_def of_task_type_def query_generation_def)

theorem duration_filter_wraps_witness:
  "APIDocMismatchInfo (mi_Detail (missing_mismatch VerifyDocuments 704))
    \<in> set (fst (send_document_mismatches by_duration later_mismatches 2 4294968))"
  using duration_filter_wraps [of 4294968 2 "missing_mismatch VerifyDocuments 704" later_mismatches by_duration] by_duration_ok
  by (simp add: later_mismatches_def of_task_type_def query_generation_def)

text \<open>Two indexes that differ, the one only in an option that is tolerated.\<close>

definition index_mismatch :: "string \<Rightarrow> mismatch_info" where
  "index_mismatch details = \<lparr>mi_TaskID = [1], mi_TaskType = VerifyCollection, mi_Generation = 1,
     mi_Detail = zero_result\<lparr>res_ID := string_value ''a_1'', res_Field := ''index'', res_Details := details,
       res_Cluster := ClusterTarget, res_NameSpace := ''db.c''\<rparr>\<rparr>"

definition example_parse :: "string \<Rightarrow> go_error + string list" where
  "example_parse s = (if s = ''ttl'' then Inr [''/expireAfterSeconds''] else Inr [''/expireAfterSeconds'', ''/key/a''])"

lemma index_info:
  assumes "d \<noteq> Missing" "d \<noteq> []"
  shows "APINSMismatchInfo (mi_Detail (index_mismatch d)) = Inr \<lparr>nsm_Type = MismatchContent,
    nsm_Namespace = ''db.c'', nsm_Aspect = AspectIndex, nsm_Component = Some ''a_1'', nsm_Detail = Some d\<rparr>"
proof -
  have "\<not> rv_equal (string_value ''a_1'') (string_value ''spec'')" by (simp add: rv_equal_def string_value_def append32_def)
  then show ?thesis
    using assms cast_string_value [of "''a_1''"]
    by (simp add: APINSMismatchInfo_def index_mismatch_def zero_result_def Let_def if_not_zero_def)
qed

theorem tolerated_mismatches_left_out_witness:
  "\<exists>rep. report_collection_metadata_mismatches example_parse IndexMismatchTolerances [failed_task VerifyCollection]
      [index_mismatch ''ttl'', index_mismatch ''key''] 1 = Inr rep
    \<and> mr_Rows rep = [mi_Detail (index_mismatch ''key'')] \<and> mr_AnyMismatch rep"
proof -
  have d: "''ttl'' \<noteq> Missing" "''key'' \<noteq> Missing" by (simp_all add: Missing_def)
  have tol: "tolerated example_parse IndexMismatchTolerances (mi_Detail (index_mismatch ''ttl''))"
    "\<not> tolerated example_parse IndexMismatchTolerances (mi_Detail (index_mismatch ''key''))"
    by (simp_all add: tolerated_def index_info [OF d(1)] index_info [OF d(2)] example_parse_def IndexMismatchTolerances_def)
  have p: "metadata_presentable [index_mismatch ''ttl'', index_mismatch ''key'']"
    by (simp add: metadata_presentable_def index_info [OF d(1)] index_info [OF d(2)])
  have rs: "get_namespace_mismatches_for_generation [index_mismatch ''ttl'', index_mismatch ''key''] 1
      = [mi_Detail (index_mismatch ''ttl''), mi_Detail (index_mismatch ''key'')]"
    by (simp add: get_namespace_mismatches_for_generation_def of_task_type_def) (simp add: index_mismatch_def)
  from tolerated_mismatches_left_out [OF by_duration_ok p failed_task, of example_parse IndexMismatchTolerances] tol show ?thesis
    by (auto simp: rs)
qed

end
