(* ===== verification/Progress_Reports.thy ===== *)
theory Progress_Reports
  imports Mismatch_Reports Events "HOL-Library.AList"
begin

text \<open>
  The numbers the verifier reports of its progress (\<open>statistics.go\<close>, \<open>summary.go\<close>, \<open>progress.go\<close>,
  \<open>summary_api.go\<close>, \<open>worker_tracker.go\<close> under \<open>internal/verifier\<close>). The aggregations over the collection of tasks
  are written out; the text of the reports is left out, and so are rates, which are floating point, but for
  the estimate of the remaining time, where rational numbers stand for them.
\<close>

section \<open>Statistics by namespace\<close>

record namespace_stats =
  nst_Namespace :: string
  nst_DocsCompared :: u64
  nst_TotalDocs :: u64
  nst_BytesCompared :: u64
  nst_TotalBytes :: u64
  nst_PartitionsAdded :: nat
  nst_PartitionsProcessing :: nat
  nst_PartitionsDone :: nat

definition is_done :: "task \<Rightarrow> bool" where
  "is_done t \<longleftrightarrow> tk_Type t = VerifyDocuments \<and> tk_Status t \<in> {Some Completed, Some Failed}"

definition docs_compared :: "task \<Rightarrow> u64" where
  "docs_compared t = (if is_done t then tk_FoundSourceDocumentsCount t else 0)"

definition bytes_compared :: "task \<Rightarrow> u64" where
  "bytes_compared t = (if is_done t then tk_SourceBytesCount t else 0)"

definition total_docs :: "task \<Rightarrow> u64" where
  "total_docs t = (if tk_Generation t = Some 0
     then (if tk_Type t = VerifyCollection then tk_DocumentsCount t else 0)
     else (if tk_Type t = VerifyDocuments then tk_DocumentsCount t else 0))"

definition total_bytes :: "task \<Rightarrow> u64" where
  "total_bytes t = (if tk_Type t = VerifyCollection then tk_SourceBytesCount t else 0)"

definition in_statistics :: "int \<Rightarrow> task \<Rightarrow> bool" where
  "in_statistics generation t \<longleftrightarrow> tk_Type t \<in> {VerifyDocuments, VerifyCollection} \<and> tk_Generation t = Some generation"

definition count_tasks :: "task_status \<Rightarrow> task list \<Rightarrow> nat" where
  "count_tasks s ts = length (filter (\<lambda>t. tk_Type t = VerifyDocuments \<and> tk_Status t = Some s) ts)"

definition namespace_of :: "task \<Rightarrow> string" where
  "namespace_of t = qf_Namespace (tk_QueryFilter t)"

definition group_namespace :: "task list \<Rightarrow> string \<Rightarrow> namespace_stats" where
  "group_namespace ts ns =
     (let g = filter (\<lambda>t. namespace_of t = ns) ts
      in \<lparr>nst_Namespace = ns, nst_DocsCompared = (\<Sum>t \<leftarrow> g. docs_compared t), nst_TotalDocs = (\<Sum>t \<leftarrow> g. total_docs t),
          nst_BytesCompared = (\<Sum>t \<leftarrow> g. bytes_compared t), nst_TotalBytes = (\<Sum>t \<leftarrow> g. total_bytes t),
          nst_PartitionsAdded = count_tasks Added g, nst_PartitionsProcessing = count_tasks Processing g,
          nst_PartitionsDone = length (filter is_done g)\<rparr>)"

definition get_persisted_namespace_statistics :: "task_db \<Rightarrow> int \<Rightarrow> namespace_stats list" where
  "get_persisted_namespace_statistics db generation =
     (let ts = filter (in_statistics generation) db in map (group_namespace ts) (sort (remdups (map namespace_of ts))))"

section \<open>Workers\<close>

record worker_status =
  ws_TaskID :: "bytes option"
  ws_StartTime :: int
  ws_TaskType :: "task_type option"
  ws_Namespace :: string
  ws_SrcDocCount :: u64
  ws_SrcByteCount :: u64

type_synonym worker_map = "(nat \<times> worker_status) list"

definition idle_worker :: worker_status where
  "idle_worker = \<lparr>ws_TaskID = None, ws_StartTime = 0, ws_TaskType = None, ws_Namespace = [], ws_SrcDocCount = 0, ws_SrcByteCount = 0\<rparr>"

definition new_worker_tracker :: "nat \<Rightarrow> worker_map" where
  "new_worker_tracker workersCount = map (\<lambda>i. (i, idle_worker)) [0..<workersCount]"

definition set_worker :: "int \<Rightarrow> nat \<Rightarrow> task \<Rightarrow> worker_map \<Rightarrow> worker_map" where
  "set_worker now workerNum t m = AList.update workerNum
     \<lparr>ws_TaskID = Some (tk_PrimaryKey t), ws_StartTime = now, ws_TaskType = Some (tk_Type t), ws_Namespace = namespace_of t,
      ws_SrcDocCount = 0, ws_SrcByteCount = 0\<rparr> m"

definition worker_at :: "worker_map \<Rightarrow> nat \<Rightarrow> worker_status" where
  "worker_at m w = (case map_of m w of None \<Rightarrow> idle_worker | Some s \<Rightarrow> s)"

definition set_src_counts :: "nat \<Rightarrow> u64 \<Rightarrow> u64 \<Rightarrow> worker_map \<Rightarrow> worker_map" where
  "set_src_counts workerNum docs bytes m = AList.update workerNum
     (worker_at m workerNum\<lparr>ws_SrcDocCount := docs, ws_SrcByteCount := bytes\<rparr>) m"

definition unset_worker :: "nat \<Rightarrow> worker_map \<Rightarrow> worker_map" where
  "unset_worker workerNum m = AList.update workerNum idle_worker m"

text \<open>The order of iterating over the map is a parameter.\<close>

definition add_namespace_worker :: "worker_status \<Rightarrow> (string \<times> worker_status list) list \<Rightarrow> (string \<times> worker_status list) list" where
  "add_namespace_worker s m = AList.update (ws_Namespace s)
     ((case map_of m (ws_Namespace s) of None \<Rightarrow> [] | Some ss \<Rightarrow> ss) @ [s]) m"

definition get_per_namespace_worker_stats :: "(worker_map \<Rightarrow> worker_map) \<Rightarrow> worker_map \<Rightarrow> (string \<times> worker_status list) list" where
  "get_per_namespace_worker_stats order wsmap =
     fold add_namespace_worker (filter (\<lambda>s. ws_TaskID s \<noteq> None) (map snd (order wsmap))) []"

text \<open>The rows of the report on workers.\<close>

record worker_row =
  wr_Thread :: nat
  wr_NS :: string
  wr_Task :: bytes
  wr_Elapsed :: int
  wr_Detail :: "(u64 \<times> u64) option"

definition worker_rows :: "nat \<Rightarrow> int \<Rightarrow> worker_map \<Rightarrow> worker_row list" where
  "worker_rows numWorkers now wsmap = concat (map (\<lambda>w.
     let s = worker_at wsmap w
     in case ws_TaskID s of
          None \<Rightarrow> []
        | Some taskID \<Rightarrow> [\<lparr>wr_Thread = w, wr_NS = ws_Namespace s, wr_Task = taskID, wr_Elapsed = now - ws_StartTime s,
            wr_Detail = (if ws_TaskType s = Some VerifyDocuments then Some (ws_SrcDocCount s, ws_SrcByteCount s) else None)\<rparr>])
     [0..<numWorkers])"

section \<open>The comparison in numbers\<close>

record comparison_statistics =
  cst_totalDocs :: u64
  cst_comparedDocs :: u64
  cst_totalBytes :: u64
  cst_comparedBytes :: u64
  cst_totalNss :: nat
  cst_completedNss :: nat
  cst_activeWorkers :: nat
  cst_nsStats :: "namespace_stats list"
  cst_nsWorkerStatus :: "(string \<times> worker_status list) list"

definition no_statistics :: comparison_statistics where
  "no_statistics = \<lparr>cst_totalDocs = 0, cst_comparedDocs = 0, cst_totalBytes = 0, cst_comparedBytes = 0, cst_totalNss = 0,
     cst_completedNss = 0, cst_activeWorkers = 0, cst_nsStats = [], cst_nsWorkerStatus = []\<rparr>"

definition partitions_pending :: "namespace_stats \<Rightarrow> nat" where
  "partitions_pending r = nst_PartitionsAdded r + nst_PartitionsProcessing r"

definition get_comparison_statistics :: "(worker_map \<Rightarrow> worker_map) \<Rightarrow> task_db \<Rightarrow> worker_map \<Rightarrow> int \<Rightarrow> bool
     \<Rightarrow> comparison_statistics" where
  "get_comparison_statistics order db wsmap generation includeWorkerDeltas =
     (let stats = get_persisted_namespace_statistics db generation
      in if length stats = 0 then no_statistics
         else let workers = (if includeWorkerDeltas then get_per_namespace_worker_stats order wsmap else []);
                  active = concat (map snd workers)
              in \<lparr>cst_totalDocs = (\<Sum>r \<leftarrow> stats. nst_TotalDocs r),
                  cst_comparedDocs = (\<Sum>r \<leftarrow> stats. nst_DocsCompared r) + (\<Sum>s \<leftarrow> active. ws_SrcDocCount s),
                  cst_totalBytes = (\<Sum>r \<leftarrow> stats. nst_TotalBytes r),
                  cst_comparedBytes = (\<Sum>r \<leftarrow> stats. nst_BytesCompared r) + (\<Sum>s \<leftarrow> active. ws_SrcByteCount s),
                  cst_totalNss = length stats,
                  cst_completedNss = length (filter (\<lambda>r. nst_PartitionsDone r > 0 \<and> partitions_pending r = 0) stats),
                  cst_activeWorkers = length active, cst_nsStats = stats, cst_nsWorkerStatus = workers\<rparr>)"

text \<open>A row for each namespace that is being processed: its threads, and its documents and bytes, of how many.\<close>

record namespace_row =
  nsr_NS :: string
  nsr_Threads :: nat
  nsr_Docs :: "u64 \<times> u64 option"
  nsr_Bytes :: "u64 \<times> u64 option"

definition of_total :: "u64 \<Rightarrow> u64 \<Rightarrow> u64 \<times> u64 option" where
  "of_total n whole = (n, if whole > 0 then Some whole else None)"

definition namespace_rows :: "comparison_statistics \<Rightarrow> namespace_row list" where
  "namespace_rows st = map (\<lambda>r.
     let workers = (case map_of (cst_nsWorkerStatus st) (nst_Namespace r) of None \<Rightarrow> [] | Some ws \<Rightarrow> ws)
     in \<lparr>nsr_NS = nst_Namespace r, nsr_Threads = length workers,
         nsr_Docs = of_total (nst_DocsCompared r + (\<Sum>s \<leftarrow> workers. ws_SrcDocCount s)) (nst_TotalDocs r),
         nsr_Bytes = of_total (nst_BytesCompared r + (\<Sum>s \<leftarrow> workers. ws_SrcByteCount s)) (nst_TotalBytes r)\<rparr>)
     (filter (\<lambda>r. nst_PartitionsProcessing r \<noteq> 0) (cst_nsStats st))"

record end_of_generation =
  eg_completedNss :: nat
  eg_comparedDocs :: u64
  eg_comparedBytes :: u64

definition end_of_generation_statistics :: "task_db \<Rightarrow> int \<Rightarrow> end_of_generation option" where
  "end_of_generation_statistics db generation =
     (let stats = get_persisted_namespace_statistics db generation
      in if length stats = 0 then None
         else Some \<lparr>eg_completedNss = length (filter (\<lambda>r. partitions_pending r = 0) stats),
                    eg_comparedDocs = (\<Sum>r \<leftarrow> stats. nst_DocsCompared r),
                    eg_comparedBytes = (\<Sum>r \<leftarrow> stats. nst_BytesCompared r)\<rparr>)"

section \<open>Status and progress\<close>

record verification_status =
  vst_TotalTasks :: nat
  vst_AddedTasks :: nat
  vst_ProcessingTasks :: nat
  vst_FailedTasks :: nat
  vst_CompletedTasks :: nat
  vst_MetadataMismatchTasks :: nat

definition zero_status :: verification_status where
  "zero_status = \<lparr>vst_TotalTasks = 0, vst_AddedTasks = 0, vst_ProcessingTasks = 0, vst_FailedTasks = 0,
     vst_CompletedTasks = 0, vst_MetadataMismatchTasks = 0\<rparr>"

text \<open>The server groups the tasks by status, in an order of its own; a group of tasks without one is not a string.\<close>

definition group_by_status :: "task list \<Rightarrow> (task_status option \<times> nat) list" where
  "group_by_status ts = map (\<lambda>s. (s, length (filter (\<lambda>t. tk_Status t = s) ts))) (remdups (map tk_Status ts))"

definition add_status_count :: "verification_status \<Rightarrow> task_status option \<times> nat \<Rightarrow> go_error + verification_status" where
  "add_status_count vs = (\<lambda>(s, n). case s of
       None \<Rightarrow> Inl (Panic ''status should be BSON string'')
     | Some st \<Rightarrow> let vs = vs\<lparr>vst_TotalTasks := vst_TotalTasks vs + n\<rparr> in Inr (case st of
           Added \<Rightarrow> vs\<lparr>vst_AddedTasks := n\<rparr>
         | Processing \<Rightarrow> vs\<lparr>vst_ProcessingTasks := n\<rparr>
         | Failed \<Rightarrow> vs\<lparr>vst_FailedTasks := n\<rparr>
         | MetadataMismatch \<Rightarrow> vs\<lparr>vst_MetadataMismatchTasks := n\<rparr>
         | Completed \<Rightarrow> vs\<lparr>vst_CompletedTasks := n\<rparr>))"

definition get_verification_status_for_generation :: "task_db \<Rightarrow> int \<Rightarrow> go_error + verification_status" where
  "get_verification_status_for_generation db generation =
     rfold add_status_count zero_status
       (group_by_status (filter (\<lambda>t. tk_Type t \<noteq> Primary \<and> tk_Generation t = Some generation) db))"

definition count_all_rechecks :: "task_db \<Rightarrow> u64" where
  "count_all_rechecks db = (\<Sum>t \<leftarrow> filter (\<lambda>t. is_done t \<and> (\<exists>g. tk_Generation t = Some g \<and> g > 0)) db. tk_DocumentsCount t)"

datatype phase = Idle | CheckPhase | Recheck

definition get_phase :: "bool \<Rightarrow> int \<Rightarrow> phase" where
  "get_phase running generation = (if \<not> running then Idle else if generation > 0 then Recheck else CheckPhase)"

record generation_stats =
  gs_DocsCompared :: u64
  gs_TotalDocs :: u64
  gs_SrcBytesCompared :: u64
  gs_TotalSrcBytes :: u64
  gs_TotalNamespaces :: nat

definition generation_stats_of :: "comparison_statistics \<Rightarrow> generation_stats" where
  "generation_stats_of s = \<lparr>gs_DocsCompared = cst_comparedDocs s, gs_TotalDocs = cst_totalDocs s,
     gs_SrcBytesCompared = cst_comparedBytes s, gs_TotalSrcBytes = cst_totalBytes s, gs_TotalNamespaces = cst_totalNss s\<rparr>"

record progress_env =
  pge_running :: bool
  pge_generation :: int
  pge_tasks :: task_db
  pge_mismatches :: mismatch_db
  pge_workers :: worker_map
  pge_bytesPerSecond :: rat
  pge_lastRecheckedTS :: "timestamp \<times> timestamp"

record progress =
  pr_Phase :: phase
  pr_Generation :: int
  pr_GenerationStats :: generation_stats
  pr_Gen0Stats :: "generation_stats option"
  pr_LastRecheckedTS :: "timestamp option \<times> timestamp option"
  pr_BytesPerSecond :: rat
  pr_TotalRechecksDone :: u64
  pr_Status :: verification_status
  pr_LongestDocMismatch :: "doc_mismatch_info option"

definition ts_if_not_zero :: "timestamp \<Rightarrow> timestamp option" where
  "ts_if_not_zero t = (if t = ts_zero then None else Some t)"

text \<open>The second result is the cache of the first generation's statistics, which is set at most once.\<close>

definition get_progress :: "(worker_map \<Rightarrow> worker_map) \<Rightarrow> (mismatch_info list \<Rightarrow> mismatch_info list) \<Rightarrow> progress_env
     \<Rightarrow> generation_stats option \<Rightarrow> (go_error + progress) \<times> generation_stats option" where
  "get_progress order longestFirst env cachedGen0 =
     (let generation = pge_generation env;
          gen0 = (if generation > 0 \<and> cachedGen0 = None
                  then Some (generation_stats_of (get_comparison_statistics order (pge_tasks env) (pge_workers env) 0 False))
                  else cachedGen0)
      in (rbind (get_verification_status_for_generation (pge_tasks env) generation) (\<lambda>status.
            Inr \<lparr>pr_Phase = get_phase (pge_running env) generation, pr_Generation = generation,
              pr_GenerationStats = generation_stats_of
                (get_comparison_statistics order (pge_tasks env) (pge_workers env) generation True),
              pr_Gen0Stats = gen0,
              pr_LastRecheckedTS = map_prod ts_if_not_zero ts_if_not_zero (pge_lastRecheckedTS env),
              pr_BytesPerSecond = pge_bytesPerSecond env,
              pr_TotalRechecksDone = (if generation > 0 then count_all_rechecks (pge_tasks env) else 0),
              pr_Status = status,
              pr_LongestDocMismatch = (if generation > 0
                then map_option (\<lambda>mm. APIDocMismatchInfo (mi_Detail mm))
                       (get_longest_lived_document_mismatch longestFirst (pge_mismatches env) generation)
                else None)\<rparr>), gen0))"

section \<open>The summary\<close>

definition compute_check_eta_seconds :: "progress \<Rightarrow> rat option" where
  "compute_check_eta_seconds p =
     (if pr_Phase p \<noteq> CheckPhase \<or> pr_BytesPerSecond p = 0 then None
      else let totalBytes = gs_TotalSrcBytes (pr_GenerationStats p);
               comparedBytes = gs_SrcBytesCompared (pr_GenerationStats p)
           in if comparedBytes \<ge> totalBytes then Some 0
              else Some (of_nat (unat (totalBytes - comparedBytes)) / pr_BytesPerSecond p))"

definition build_check_stats :: "progress \<Rightarrow> generation_stats option" where
  "build_check_stats p = (if pr_Generation p = 0 then Some (pr_GenerationStats p) else pr_Gen0Stats p)"

record summary_response =
  srp_EstCheckSecsRemaining :: "rat option"
  srp_CheckStats :: "generation_stats option"
  srp_NSMismatches :: "ns_mismatch_info list"
  srp_DocMismatches :: doc_mismatch_summary
  srp_TotalRechecks :: u64
  srp_FilteredBy :: "u32 option"

definition get_summary :: "(worker_map \<Rightarrow> worker_map) \<Rightarrow> (mismatch_info list \<Rightarrow> mismatch_info list) \<Rightarrow> (string \<Rightarrow> go_error + string list)
     \<Rightarrow> progress_env \<Rightarrow> generation_stats option \<Rightarrow> u32 \<Rightarrow> go_error + summary_response" where
  "get_summary order longestFirst parse env cachedGen0 minDurationSecs =
     rbind (fst (get_progress order longestFirst env cachedGen0)) (\<lambda>p.
     rbind (collect_ns_mismatches longestFirst parse (pge_mismatches env) (pge_generation env)) (\<lambda>nsMismatches.
     rbind (collect_doc_mismatches longestFirst (pge_mismatches env) (pge_generation env) minDurationSecs) (\<lambda>docMismatches.
     if sint (pr_TotalRechecksDone p) < 0 then Inl (Panic ''safecast.MustConvert'')
     else Inr \<lparr>srp_EstCheckSecsRemaining = compute_check_eta_seconds p, srp_CheckStats = build_check_stats p,
          srp_NSMismatches = nsMismatches, srp_DocMismatches = docMismatches, srp_TotalRechecks = pr_TotalRechecksDone p,
          srp_FilteredBy = (if minDurationSecs > 0 then Some minDurationSecs else None)\<rparr>)))"

section \<open>Change events\<close>

text \<open>A row for each cluster: inserts, updates, replacements, deletions and DDL.\<close>

definition cumulative_event_rows :: "event_counts \<Rightarrow> event_counts \<Rightarrow> (string \<times> u64 list) list" where
  "cumulative_event_rows srcCounts dstCounts =
     (let cells = (\<lambda>c. [Insert c, Update c, Replace c, Delete c, count_ddl c])
      in [(''Source'', cells srcCounts), (''Destination'', cells dstCounts)])"

definition changeEventsTableMaxSize :: nat where "changeEventsTableMaxSize = 10"
definition lagWarnThreshold :: int where "lagWarnThreshold = 120"
definition saturationWarnThreshold :: rat where "saturationWarnThreshold = 9 / 10"

text \<open>A reader's events in this generation, its lag in seconds if it is known, and how full its buffer is.\<close>

record reader_state =
  rds_events :: recorder
  rds_lagSecs :: "int option"
  rds_saturation :: rat

record reader_report =
  rdr_TotalEvents :: u64
  rdr_Namespaces :: nat
  rdr_LagIsHigh :: bool
  rdr_SaturationIsHigh :: bool

definition reader_report_of :: "reader_state \<Rightarrow> reader_report" where
  "reader_report_of r =
     \<lparr>rdr_TotalEvents = (\<Sum>(ns, c) \<leftarrow> rds_events r. total_events c), rdr_Namespaces = length (rds_events r),
      rdr_LagIsHigh = (case rds_lagSecs r of None \<Rightarrow> False | Some lag \<Rightarrow> lag > lagWarnThreshold),
      rdr_SaturationIsHigh = (rds_saturation r > saturationWarnThreshold)\<rparr>"

text \<open>\<open>busiest\<close> sorts namespaces by their events, the most first, as \<open>sort.Slice\<close> does for some order of the map.\<close>

definition change_event_statistics :: "(recorder \<Rightarrow> recorder) \<Rightarrow> reader_state \<Rightarrow> reader_state
     \<Rightarrow> reader_report \<times> reader_report \<times> recorder option \<times> u64" where
  "change_event_statistics busiest srcReader dstReader =
     (let src = reader_report_of srcReader; dst = reader_report_of dstReader
      in (src, dst,
          if sint (rdr_TotalEvents src) > 0 then Some (take changeEventsTableMaxSize (busiest (rds_events srcReader))) else None,
          rdr_TotalEvents src + rdr_TotalEvents dst))"

section \<open>The totals are those of the tasks\<close>

lemma sum_list_pick:
  "distinct ks \<Longrightarrow> (\<Sum>k \<leftarrow> ks. if a = k then v else 0) = (if a \<in> set ks then v else (0 :: 'b :: comm_monoid_add))"
  by (induction ks) auto

lemma sum_groups:
  fixes f :: "'a \<Rightarrow> 'b :: comm_monoid_add"
  assumes "distinct ks" "\<forall>x \<in> set xs. key x \<in> set ks"
  shows "(\<Sum>k \<leftarrow> ks. \<Sum>x \<leftarrow> filter (\<lambda>x. key x = k) xs. f x) = (\<Sum>x \<leftarrow> xs. f x)"
  using assms(2)
proof (induction xs)
  case (Cons x xs)
  have "(\<Sum>k \<leftarrow> ks. \<Sum>y \<leftarrow> filter (\<lambda>y. key y = k) (x # xs). f y)
      = (\<Sum>k \<leftarrow> ks. (if key x = k then f x else 0) + (\<Sum>y \<leftarrow> filter (\<lambda>y. key y = k) xs. f y))"
    by (intro arg_cong [where f = sum_list] map_cong) auto
  also have "\<dots> = f x + (\<Sum>y \<leftarrow> xs. f y)"
    using Cons sum_list_pick [OF assms(1), of "key x" "f x"] by (simp add: sum_list_addf)
  finally show ?case by simp
qed simp

definition statistics_namespaces :: "task_db \<Rightarrow> int \<Rightarrow> string set" where
  "statistics_namespaces db g = namespace_of ` {t \<in> set db. in_statistics g t}"

lemma statistics_eq:
  defines "ts \<equiv> \<lambda>db g. filter (in_statistics g) db"
  shows "map nst_Namespace (get_persisted_namespace_statistics db g) = sorted_list_of_set (statistics_namespaces db g)"
    "(\<Sum>r \<leftarrow> get_persisted_namespace_statistics db g. nst_DocsCompared r) = (\<Sum>t \<leftarrow> ts db g. docs_compared t)"
    "(\<Sum>r \<leftarrow> get_persisted_namespace_statistics db g. nst_TotalDocs r) = (\<Sum>t \<leftarrow> ts db g. total_docs t)"
    "(\<Sum>r \<leftarrow> get_persisted_namespace_statistics db g. nst_BytesCompared r) = (\<Sum>t \<leftarrow> ts db g. bytes_compared t)"
    "(\<Sum>r \<leftarrow> get_persisted_namespace_statistics db g. nst_TotalBytes r) = (\<Sum>t \<leftarrow> ts db g. total_bytes t)"
proof -
  let ?nss = "sort (remdups (map namespace_of (ts db g)))"
  have nss: "distinct ?nss" "\<forall>t \<in> set (ts db g). namespace_of t \<in> set ?nss" by simp_all
  have stats: "get_persisted_namespace_statistics db g = map (group_namespace (ts db g)) ?nss"
    by (simp add: get_persisted_namespace_statistics_def ts_def Let_def)
  have n: "nst_Namespace \<circ> group_namespace (ts db g) = id" by (simp add: fun_eq_iff group_namespace_def Let_def)
  have "statistics_namespaces db g = set (map namespace_of (ts db g))" by (auto simp: statistics_namespaces_def ts_def)
  then show "map nst_Namespace (get_persisted_namespace_statistics db g) = sorted_list_of_set (statistics_namespaces db g)"
    by (simp add: stats n sorted_list_of_set_sort_remdups del: set_map)
  show "(\<Sum>r \<leftarrow> get_persisted_namespace_statistics db g. nst_DocsCompared r) = (\<Sum>t \<leftarrow> ts db g. docs_compared t)"
    "(\<Sum>r \<leftarrow> get_persisted_namespace_statistics db g. nst_TotalDocs r) = (\<Sum>t \<leftarrow> ts db g. total_docs t)"
    "(\<Sum>r \<leftarrow> get_persisted_namespace_statistics db g. nst_BytesCompared r) = (\<Sum>t \<leftarrow> ts db g. bytes_compared t)"
    "(\<Sum>r \<leftarrow> get_persisted_namespace_statistics db g. nst_TotalBytes r) = (\<Sum>t \<leftarrow> ts db g. total_bytes t)"
    using sum_groups [OF nss] by (simp_all add: stats comp_def group_namespace_def Let_def)
qed

lemma no_statistics_iff: "get_persisted_namespace_statistics db g = [] \<longleftrightarrow> filter (in_statistics g) db = []"
proof -
  have "set (sort (remdups (map namespace_of (filter (in_statistics g) db)))) = namespace_of ` set (filter (in_statistics g) db)"
    by simp
  then have "sort (remdups (map namespace_of (filter (in_statistics g) db))) = [] \<longleftrightarrow> filter (in_statistics g) db = []"
    by (metis image_is_empty set_empty)
  then show ?thesis by (simp add: get_persisted_namespace_statistics_def Let_def)
qed

definition is_pending :: "task \<Rightarrow> bool" where
  "is_pending t \<longleftrightarrow> tk_Type t = VerifyDocuments \<and> tk_Status t \<in> {Some Added, Some Processing}"

lemma group_counts:
  "nst_PartitionsDone (group_namespace ts ns) > 0 \<longleftrightarrow> (\<exists>t \<in> set ts. namespace_of t = ns \<and> is_done t)"
  "partitions_pending (group_namespace ts ns) = 0 \<longleftrightarrow> (\<forall>t \<in> set ts. namespace_of t = ns \<longrightarrow> \<not> is_pending t)"
  by (auto simp: group_namespace_def partitions_pending_def count_tasks_def is_pending_def Let_def filter_empty_conv)

lemma length_filter_stats:
  "length (filter P (get_persisted_namespace_statistics db g))
    = card {ns \<in> statistics_namespaces db g. P (group_namespace (filter (in_statistics g) db) ns)}"
proof -
  let ?ts = "filter (in_statistics g) db" and ?nss = "sort (remdups (map namespace_of (filter (in_statistics g) db)))"
  have "length (filter P (get_persisted_namespace_statistics db g)) = length (filter (\<lambda>ns. P (group_namespace ?ts ns)) ?nss)"
    by (simp add: get_persisted_namespace_statistics_def Let_def filter_map comp_def)
  also have "\<dots> = card (set (filter (\<lambda>ns. P (group_namespace ?ts ns)) ?nss))" by (intro distinct_card [symmetric]) simp
  also have "set (filter (\<lambda>ns. P (group_namespace ?ts ns)) ?nss) = {ns \<in> statistics_namespaces db g. P (group_namespace ?ts ns)}"
    by (auto simp: statistics_namespaces_def)
  finally show ?thesis .
qed

text \<open>The tasks that have compared documents, and those whose counts say what there is to compare.\<close>

definition finished_in :: "int \<Rightarrow> task \<Rightarrow> bool" where
  "finished_in g t \<longleftrightarrow> tk_Generation t = Some g \<and> tk_Type t = VerifyDocuments
     \<and> (tk_Status t = Some Completed \<or> tk_Status t = Some Failed)"

definition counts_in_advance :: "int \<Rightarrow> task \<Rightarrow> bool" where
  "counts_in_advance g t \<longleftrightarrow> tk_Generation t = Some g \<and> tk_Type t = (if g = 0 then VerifyCollection else VerifyDocuments)"

lemma sum_list_if_filter:
  "(\<And>x. P x \<Longrightarrow> f x = (if Q x then h x else 0)) \<Longrightarrow> (\<And>x. R x \<longleftrightarrow> P x \<and> Q x)
    \<Longrightarrow> (\<Sum>x \<leftarrow> filter P xs. f x) = (\<Sum>x \<leftarrow> filter R xs. h x :: 'b :: monoid_add)"
  by (induction xs) auto

lemma task_sums:
  "(\<Sum>t \<leftarrow> filter (in_statistics g) db. docs_compared t) = (\<Sum>t \<leftarrow> filter (finished_in g) db. tk_FoundSourceDocumentsCount t)"
  "(\<Sum>t \<leftarrow> filter (in_statistics g) db. bytes_compared t) = (\<Sum>t \<leftarrow> filter (finished_in g) db. tk_SourceBytesCount t)"
  "(\<Sum>t \<leftarrow> filter (in_statistics g) db. total_docs t) = (\<Sum>t \<leftarrow> filter (counts_in_advance g) db. tk_DocumentsCount t)"
  "(\<Sum>t \<leftarrow> filter (in_statistics g) db. total_bytes t)
    = (\<Sum>t \<leftarrow> filter (\<lambda>t. tk_Generation t = Some g \<and> tk_Type t = VerifyCollection) db. tk_SourceBytesCount t)"
proof -
  show "(\<Sum>t \<leftarrow> filter (in_statistics g) db. docs_compared t) = (\<Sum>t \<leftarrow> filter (finished_in g) db. tk_FoundSourceDocumentsCount t)"
    "(\<Sum>t \<leftarrow> filter (in_statistics g) db. bytes_compared t) = (\<Sum>t \<leftarrow> filter (finished_in g) db. tk_SourceBytesCount t)"
    by (rule sum_list_if_filter [where Q = is_done];
      auto simp: in_statistics_def docs_compared_def bytes_compared_def is_done_def finished_in_def)+
  show "(\<Sum>t \<leftarrow> filter (in_statistics g) db. total_docs t) = (\<Sum>t \<leftarrow> filter (counts_in_advance g) db. tk_DocumentsCount t)"
    by (rule sum_list_if_filter [where Q = "counts_in_advance g"]) (auto simp: in_statistics_def total_docs_def counts_in_advance_def)
  show "(\<Sum>t \<leftarrow> filter (in_statistics g) db. total_bytes t)
    = (\<Sum>t \<leftarrow> filter (\<lambda>t. tk_Generation t = Some g \<and> tk_Type t = VerifyCollection) db. tk_SourceBytesCount t)"
    by (rule sum_list_if_filter [where Q = "\<lambda>t. tk_Type t = VerifyCollection"]) (auto simp: in_statistics_def total_bytes_def)
qed


definition status_count :: "verification_status \<Rightarrow> task_status \<Rightarrow> nat" where
  "status_count vs s = (case s of Added \<Rightarrow> vst_AddedTasks vs | Processing \<Rightarrow> vst_ProcessingTasks vs
     | Failed \<Rightarrow> vst_FailedTasks vs | Completed \<Rightarrow> vst_CompletedTasks vs | MetadataMismatch \<Rightarrow> vst_MetadataMismatchTasks vs)"

lemma add_status_count_simps:
  "\<exists>vs'. add_status_count vs (Some s, n) = Inr vs' \<and> vst_TotalTasks vs' = vst_TotalTasks vs + n
    \<and> (\<forall>s'. status_count vs' s' = (if s' = s then n else status_count vs s'))"
  by (cases s) (auto simp: add_status_count_def status_count_def Let_def split: task_status.splits)

lemma status_fold:
  "distinct (map fst gs) \<Longrightarrow> None \<notin> fst ` set gs \<Longrightarrow> \<exists>vs'. rfold add_status_count vs gs = Inr vs'
    \<and> vst_TotalTasks vs' = vst_TotalTasks vs + (\<Sum>(_, n) \<leftarrow> gs. n)
    \<and> (\<forall>s. status_count vs' s = (case map_of gs (Some s) of None \<Rightarrow> status_count vs s | Some n \<Rightarrow> n))"
proof (induction gs arbitrary: vs)
  case (Cons g gs)
  obtain s n where g: "g = (Some s, n)" using Cons.prems(2) by (cases g; cases "fst g") auto
  obtain vs1 where v: "add_status_count vs (Some s, n) = Inr vs1" "vst_TotalTasks vs1 = vst_TotalTasks vs + n"
    "\<forall>s'. status_count vs1 s' = (if s' = s then n else status_count vs s')"
    using add_status_count_simps [of vs s n] by blast
  have "map_of gs (Some s) = None" using Cons.prems(1) by (simp add: g map_of_eq_None_iff)
  moreover obtain vs' where "rfold add_status_count vs1 gs = Inr vs'" "vst_TotalTasks vs' = vst_TotalTasks vs1 + (\<Sum>(_, n) \<leftarrow> gs. n)"
    "\<forall>s. status_count vs' s = (case map_of gs (Some s) of None \<Rightarrow> status_count vs1 s | Some n \<Rightarrow> n)"
    using Cons.IH [of vs1] Cons.prems by auto
  ultimately show ?case using v by (auto simp: g split: option.splits)
qed simp

lemma length_groups:
  assumes "distinct ks" "\<forall>x \<in> set xs. key x \<in> set ks"
  shows "(\<Sum>k \<leftarrow> ks. length (filter (\<lambda>x. key x = k) xs)) = length xs"
  using sum_groups [OF assms, of "\<lambda>_. 1 :: nat"] by (simp add: sum_list_triv)

text \<open>The status of a generation counts each of its tasks once, under its own status, and the total is their number.\<close>

theorem verification_status_exact:
  assumes "\<forall>t \<in> set db. tk_Generation t = Some g \<longrightarrow> tk_Type t \<noteq> Primary \<longrightarrow> tk_Status t \<noteq> None"
  shows "\<exists>vs. get_verification_status_for_generation db g = Inr vs
    \<and> vst_TotalTasks vs = length (filter (\<lambda>t. tk_Type t \<noteq> Primary \<and> tk_Generation t = Some g) db)
    \<and> (\<forall>s. status_count vs s = length (filter (\<lambda>t. tk_Type t \<noteq> Primary \<and> tk_Generation t = Some g \<and> tk_Status t = Some s) db))"
proof -
  let ?ts = "filter (\<lambda>t. tk_Type t \<noteq> Primary \<and> tk_Generation t = Some g) db"
  let ?ks = "remdups (map tk_Status ?ts)"
  have keys: "map fst (group_by_status ?ts) = ?ks" by (simp add: group_by_status_def comp_def)
  have none: "None \<notin> fst ` set (group_by_status ?ts)"
    using assms by (auto simp: group_by_status_def)
  have total_: "(\<Sum>(_, n) \<leftarrow> group_by_status ?ts. n) = length ?ts"
    using length_groups [of ?ks ?ts tk_Status] by (simp add: group_by_status_def comp_def)
  have each: "(case map_of (group_by_status ?ts) (Some s) of None \<Rightarrow> 0 | Some n \<Rightarrow> n) = length (filter (\<lambda>t. tk_Status t = Some s) ?ts)" for s
  proof (cases "Some s \<in> set ?ks")
    case True
    then show ?thesis by (simp add: group_by_status_def map_of_map_restrict restrict_map_def)
  next
    case False
    then have "map_of (group_by_status ?ts) (Some s) = None" unfolding map_of_eq_None_iff using keys by (metis set_map)
    moreover have "tk_Status t \<noteq> Some s" if "t \<in> set ?ts" for t
      using False imageI [OF that, of tk_Status] by (metis list.set_map set_remdups)
    then have "filter (\<lambda>t. tk_Status t = Some s) ?ts = []" by (intro filter_False) blast
    ultimately show ?thesis by simp
  qed
  have zero: "status_count zero_status s = 0" "vst_TotalTasks zero_status = 0" for s
    by (cases s; simp add: status_count_def zero_status_def)+
  obtain vs where vs: "rfold add_status_count zero_status (group_by_status ?ts) = Inr vs"
    "vst_TotalTasks vs = vst_TotalTasks zero_status + (\<Sum>(_, n) \<leftarrow> group_by_status ?ts. n)"
    "\<forall>s. status_count vs s = (case map_of (group_by_status ?ts) (Some s) of None \<Rightarrow> status_count zero_status s | Some n \<Rightarrow> n)"
    using status_fold [of "group_by_status ?ts" zero_status] none unfolding keys by auto
  have "status_count vs s = length (filter (\<lambda>t. tk_Status t = Some s) ?ts)" for s
    using spec [OF vs(3), of s] each [of s] zero(1) [of s] by (cases "map_of (group_by_status ?ts) (Some s)") simp_all
  with vs(1,2) show ?thesis
    by (auto simp: get_verification_status_for_generation_def total_ zero(2) conj_assoc)
qed

section \<open>Workers are counted once\<close>

lemma concat_update_append:
  "distinct (map fst m) \<Longrightarrow> mset (concat (map snd (AList.update k ((case map_of m k of None \<Rightarrow> [] | Some ss \<Rightarrow> ss) @ [s]) m)))
    = mset (concat (map snd m)) + {#s#}"
  by (induction m) (auto split: option.splits)

lemma namespace_workers_fold:
  "distinct (map fst m) \<Longrightarrow> mset (concat (map snd (fold add_namespace_worker ss m))) = mset (concat (map snd m)) + mset ss"
proof (induction ss arbitrary: m)
  case (Cons s ss)
  have "distinct (map fst (add_namespace_worker s m))" using Cons.prems by (simp add: add_namespace_worker_def distinct_update)
  from Cons.IH [OF this] concat_update_append [OF Cons.prems, of "ws_Namespace s" s] show ?case
    by (simp add: add_namespace_worker_def)
qed simp

text \<open>The report on threads counts each worker with a task once, whatever the order of the map.\<close>

lemma active_workers_counted:
  assumes "mset (order ws) = mset ws"
  shows "mset (concat (map snd (get_per_namespace_worker_stats order ws))) = mset (filter (\<lambda>s. ws_TaskID s \<noteq> None) (map snd ws))"
  using namespace_workers_fold [of "[]" "filter (\<lambda>s. ws_TaskID s \<noteq> None) (map snd (order ws))"] assms
  by (simp add: get_per_namespace_worker_stats_def flip: mset_filter mset_map) (simp add: mset_map mset_filter)

text \<open>The cache of the first generation's statistics is set at most once, and then shown from any later generation.\<close>

lemma gen0_cache:
  "snd (get_progress order longestFirst env (Some s)) = Some s"
  "pge_generation env = 0 \<Longrightarrow> snd (get_progress order longestFirst env None) = None"
  "pge_generation env > 0 \<Longrightarrow> \<exists>s. snd (get_progress order longestFirst env None) = Some s"
  by (simp_all add: get_progress_def Let_def)

section \<open>Witnesses\<close>

definition progress_db :: task_db where
  "progress_db = [sample_task [1] VerifyCollection Completed, sample_task [2] VerifyDocuments Failed,
     sample_task [3] VerifyDocuments Added]"

theorem verification_status_exact_witness:
  "\<exists>vs. get_verification_status_for_generation progress_db 1 = Inr vs \<and> vst_TotalTasks vs = 3 \<and> vst_FailedTasks vs = 1"
proof -
  have "\<forall>t \<in> set progress_db. tk_Generation t = Some 1 \<longrightarrow> tk_Type t \<noteq> Primary \<longrightarrow> tk_Status t \<noteq> None"
    by (simp add: progress_db_def sample_task_def)
  from verification_status_exact [OF this] obtain vs where
    "get_verification_status_for_generation progress_db 1 = Inr vs"
    "vst_TotalTasks vs = length (filter (\<lambda>t. tk_Type t \<noteq> Primary \<and> tk_Generation t = Some 1) progress_db)"
    "\<forall>s. status_count vs s = length (filter (\<lambda>t. tk_Type t \<noteq> Primary \<and> tk_Generation t = Some 1 \<and> tk_Status t = Some s) progress_db)"
    by blast
  moreover from this(3) have "vst_FailedTasks vs
      = length (filter (\<lambda>t. tk_Type t \<noteq> Primary \<and> tk_Generation t = Some 1 \<and> tk_Status t = Some Failed) progress_db)"
    by (metis status_count_def task_status.simps(24))
  ultimately show ?thesis by (simp add: progress_db_def sample_task_def)
qed

end
