(* ===== verification/Oplog_Start.thy ===== *)
theory Oplog_Start
  imports Oplog Server_Features Effects
begin

text \<open>
  Where the oplog reader starts, and what it reads when it is opened again: \<open>GetTailingStartTimes\<close>
  and the optimes of \<open>internal/verifier/oplog/start_time.go\<close>, \<open>createCursor\<close> of
  \<open>internal/verifier/oplog_reader.go\<close>, and the resume token as \<open>change_reader.go\<close> saves and loads it
  for this reader. The server is a parameter: its oplog, its transactions, and the outcome of each
  command. The last part is the life of a reader across failures and restarts.
\<close>

section \<open>Optimes\<close>

record op_time =
  ot_TS :: timestamp
  ot_T :: u64
  ot_H :: "u64 option"

definition or_zero :: "u64 option \<Rightarrow> u64" where
  "or_zero h = (case h of None \<Rightarrow> 0 | Some n \<Rightarrow> n)"

definition op_time_equals :: "op_time \<Rightarrow> op_time \<Rightarrow> bool" where
  "op_time_equals ot ot2 =
     (if ot_TS ot \<noteq> ot_TS ot2 then False
      else if ot_T ot \<noteq> ot_T ot2 then False
      else or_zero (ot_H ot) = or_zero (ot_H ot2))"

text \<open>
  The server. \<open>ls_confirm\<close> is the first entry at or after an optime, if there is one;
  \<open>ls_transactions\<close> are the states and start optimes of the transactions table; the driver decodes
  resume tokens with \<open>ls_unmarshalToken\<close>. The other fields say whether a command succeeds.
\<close>

record log_server =
  ls_latest :: "go_error + op_time"
  ls_confirm :: "timestamp \<Rightarrow> go_error + op_time option"
  ls_transactions :: "go_error + (string \<times> op_time) list"
  ls_foundToken :: "go_error + unit"
  ls_unmarshalToken :: "bytes \<Rightarrow> go_error + timestamp"
  ls_foundAllowance :: "go_error + unit"
  ls_replacedAllowance :: "go_error + unit"
  ls_replacedToken :: "go_error + unit"
  ls_opened :: "go_error + unit"

definition get_latest_visible_oplog_op_time :: "log_server \<Rightarrow> go_error + op_time" where
  "get_latest_visible_oplog_op_time srv =
     rbind (ls_latest srv) (\<lambda>latestOpTime.
     rbind (ls_confirm srv (ot_TS latestOpTime)) (\<lambda>result. case result of
       None \<Rightarrow> Inl (Err ''last op was not confirmed: confirmation time was not found'')
     | Some optime \<Rightarrow>
         if \<not> op_time_equals optime latestOpTime then Inl (Err ''last op was not confirmed'')
         else Inr latestOpTime))"

text \<open>The order of the start optimes is that of their timestamps, then of their terms.\<close>

definition starts_before :: "op_time \<Rightarrow> op_time \<Rightarrow> bool" where
  "starts_before a b \<longleftrightarrow> ts_after (ot_TS b) (ot_TS a) \<or> (ot_TS a = ot_TS b \<and> ot_T a <s ot_T b)"

fun earliest_start :: "op_time list \<Rightarrow> op_time option" where
  "earliest_start [] = None"
| "earliest_start (t # ts) = (case earliest_start ts of
     None \<Rightarrow> Some t | Some u \<Rightarrow> Some (if starts_before u t then u else t))"

definition get_oldest_transaction_time :: "log_server \<Rightarrow> go_error + op_time option" where
  "get_oldest_transaction_time srv = rbind (ls_transactions srv) (\<lambda>txns.
     Inr (earliest_start (map snd (filter (\<lambda>(state, _). state \<in> {''prepared'', ''inProgress''}) txns))))"

definition get_tailing_start_times :: "log_server \<Rightarrow> go_error + op_time \<times> op_time" where
  "get_tailing_start_times srv =
     rbind (get_latest_visible_oplog_op_time srv) (\<lambda>latestTime.
     rbind (get_oldest_transaction_time srv) (\<lambda>oldestTxn. case oldestTxn of
       Some oldestTime \<Rightarrow> Inr (oldestTime, latestTime)
     | None \<Rightarrow> Inr (latestTime, latestTime)))"

section \<open>Opening the cursor\<close>

text \<open>What is saved of a reader in the metadata database, and the counts the reader itself holds.\<close>

record reader_meta =
  rm_persisted :: "(bytes \<times> event_counts) option"
  rm_allowance :: "bytes option"
  rm_eventCounts :: event_counts

type_synonym 'a mact = "(reader_meta, go_error, 'a) act"

definition load_reader_token :: "log_server \<Rightarrow> bytes option mact" where
  "load_reader_token srv = abind (alift (ls_foundToken srv)) (\<lambda>_. (\<lambda>m. (case rm_persisted m of
       None \<Rightarrow> (Inr None, m)
     | Some (token, counts) \<Rightarrow> (Inr (Some token), m\<lparr>rm_eventCounts := counts\<rparr>))))"

definition persist_reader_token :: "log_server \<Rightarrow> bytes \<Rightarrow> unit mact" where
  "persist_reader_token srv token =
     (if token = [] then afail (Panic ''resume token is empty but should never be'')
      else abind (alift (get_raw_resume_token_timestamp token)) (\<lambda>ts.
        if ts = ts_zero then afail (Panic ''empty ts in resume token is invalid!'')
        else abind (alift (ls_replacedToken srv)) (\<lambda>_. (\<lambda>m. (Inr (), m\<lparr>rm_persisted := Some (token, rm_eventCounts m)\<rparr>)))))"

definition fetch_ddl_allowance :: "log_server \<Rightarrow> timestamp mact" where
  "fetch_ddl_allowance srv = abind (alift (ls_foundAllowance srv)) (\<lambda>_. aread (\<lambda>m. case rm_allowance m of
       None \<Rightarrow> Inl (Err ''fetching DDL allowance timestamp: no documents'')
     | Some raw \<Rightarrow> lookup_cast cast_timestamp raw [''ts'']))"

definition replace_ddl_allowance :: "log_server \<Rightarrow> timestamp \<Rightarrow> unit mact" where
  "replace_ddl_allowance srv ts = abind (alift (ls_replacedAllowance srv)) (\<lambda>_.
     (\<lambda>m. (Inr (), m\<lparr>rm_allowance := Some (enc_doc [(''ts'', timestamp_value ts)])\<rparr>)))"

text \<open>The cursor that was opened: where it starts, the DDL allowance, and whether entries are projected.\<close>

record log_cursor =
  lc_startTS :: timestamp
  lc_allowDDLBeforeTS :: timestamp
  lc_projected :: bool

definition create_cursor :: "int list \<Rightarrow> log_server \<Rightarrow> log_cursor mact" where
  "create_cursor versionArray srv =
     abind (load_reader_token srv) (\<lambda>savedResumeToken.
     abind (case savedResumeToken of
         Some token \<Rightarrow>
           abind (alift (ls_unmarshalToken srv token)) (\<lambda>rt.
           abind (fetch_ddl_allowance srv) (\<lambda>allow. areturn (rt, allow)))
       | None \<Rightarrow>
           abind (alift (get_tailing_start_times srv)) (\<lambda>(_, latestOpTime).
           abind (replace_ddl_allowance srv (ot_TS latestOpTime)) (\<lambda>_.
           abind (alift (marshal_resume_token (ot_TS latestOpTime))) (\<lambda>token.
           abind (persist_reader_token srv token) (\<lambda>_. areturn (ot_TS latestOpTime, ot_TS latestOpTime)))))) (\<lambda>(startTS, allow).
     abind (alift (version_pair versionArray)) (\<lambda>va.
     abind (alift (ls_opened srv)) (\<lambda>_.
       areturn \<lparr>lc_startTS = startTS, lc_allowDDLBeforeTS = allow, lc_projected = cluster_has_bson_size va\<rparr>))))"

text \<open>The entries the cursor's query selects.\<close>

fun query_entry :: "oplog_env \<Rightarrow> oplog_entry \<Rightarrow> bool" where
  "query_entry env (WriteEntry w) \<longleftrightarrow> ns_watched env (wr_ns w)"
| "query_entry env NoopEntry \<longleftrightarrow> True"
| "query_entry env (CommandEntry ns cmd coll rest) \<longleftrightarrow> \<not> has_prefix ns ''config.''"
| "query_entry env (ApplyOpsEntry ns ws) \<longleftrightarrow> \<not> has_prefix ns ''config.''"

definition oplog_filter :: "oplog_env \<Rightarrow> timestamp \<Rightarrow> timestamp \<times> oplog_entry \<Rightarrow> bool" where
  "oplog_filter env startTS x \<longleftrightarrow> ts_after (fst x) startTS \<and> query_entry env (snd x)"

section \<open>What opening does\<close>

text \<open>The order is that of a number.\<close>

definition start_rank :: "op_time \<Rightarrow> int" where
  "start_rank t = (uint (ts_T (ot_TS t)) * 2 ^ 32 + uint (ts_I (ot_TS t))) * 2 ^ 64 + sint (ot_T t)"

lemma starts_before_rank: "starts_before a b \<longleftrightarrow> start_rank a < start_rank b"
proof -
  have w: "0 \<le> uint (x :: u32)" "uint x < 2 ^ 32" for x using uint_bounded [of x] by simp_all
  have t: "- (2 ^ 63) \<le> sint (x :: u64)" "sint x < 2 ^ 63" for x using sint_ge [of x] sint_lt [of x] by simp_all
  have lex: "x * n + y < x' * n + y' \<longleftrightarrow> x < x' \<or> (x = x' \<and> y < y')" if "\<bar>y - y'\<bar> < n" for x x' y y' n :: int
  proof (cases "x = x'")
    case False
    then consider "x + 1 \<le> x'" | "x' + 1 \<le> x" by linarith
    then show ?thesis
    proof cases
      case 1
      then have "(x + 1) * n \<le> x' * n" using that by (intro mult_right_mono) auto
      with 1 that show ?thesis by (auto simp: algebra_simps)
    next
      case 2
      then have "(x' + 1) * n \<le> x * n" using that by (intro mult_right_mono) auto
      with 2 that show ?thesis by (auto simp: algebra_simps)
    qed
  qed simp
  have "start_rank a < start_rank b \<longleftrightarrow> uint (ts_T (ot_TS a)) * 2 ^ 32 + uint (ts_I (ot_TS a)) < uint (ts_T (ot_TS b)) * 2 ^ 32 + uint (ts_I (ot_TS b))
      \<or> (uint (ts_T (ot_TS a)) * 2 ^ 32 + uint (ts_I (ot_TS a)) = uint (ts_T (ot_TS b)) * 2 ^ 32 + uint (ts_I (ot_TS b)) \<and> sint (ot_T a) < sint (ot_T b))"
    unfolding start_rank_def using t [of "ot_T a"] t [of "ot_T b"] by (intro lex) auto
  also have "\<dots> \<longleftrightarrow> starts_before a b"
  proof -
    have d: "\<bar>uint x - uint y\<bar> < 2 ^ 32" for x y :: u32 using w [of x] w [of y] by linarith
    have lt: "uint (ts_T t) * 2 ^ 32 + uint (ts_I t) < uint (ts_T u) * 2 ^ 32 + uint (ts_I u) \<longleftrightarrow> ts_after u t" for t u :: timestamp
      unfolding lex [OF d] ts_after_def by (auto simp: word_less_def word_uint_eq_iff)
    have eq: "uint (ts_T t) * 2 ^ 32 + uint (ts_I t) = uint (ts_T u) * 2 ^ 32 + uint (ts_I u) \<longleftrightarrow> t = u" for t u :: timestamp
      using lt [of t u] lt [of u t] ts_after_total [of t u] by (metis less_irrefl linorder_neqE)
    show ?thesis unfolding lt eq starts_before_def word_sless_alt by simp
  qed
  finally show ?thesis by simp
qed

lemma earliest_start_least:
  "earliest_start ts = (if ts = [] then None else Some t) \<Longrightarrow> ts \<noteq> [] \<Longrightarrow> t \<in> set ts \<and> (\<forall>u \<in> set ts. start_rank t \<le> start_rank u)"
proof (induction ts arbitrary: t)
  case (Cons x ts)
  show ?case
  proof (cases "earliest_start ts")
    case None
    with Cons.prems have "x = t" by simp
    moreover have "ts = []" using None by (cases ts) (auto split: option.splits)
    ultimately show ?thesis by simp
  next
    case (Some u)
    then have "ts \<noteq> []" by auto
    with Cons.IH [of u] Some have "u \<in> set ts \<and> (\<forall>v \<in> set ts. start_rank u \<le> start_rank v)" by simp
    with Cons.prems Some show ?thesis by (auto simp: starts_before_rank split: if_splits)
  qed
qed simp

lemma earliest_start_None: "earliest_start ts = None \<longleftrightarrow> ts = []"
  by (cases ts) (auto split: option.splits)

text \<open>The start times: the first is that of the oldest open transaction, if there is one; the second is the latest entry, confirmed.\<close>

lemma tailing_start_times:
  assumes "get_tailing_start_times srv = Inr (start, latest)"
  shows "ls_latest srv = Inr latest"
    and "\<exists>optime. ls_confirm srv (ot_TS latest) = Inr (Some optime) \<and> op_time_equals optime latest"
    and "\<exists>txns. ls_transactions srv = Inr txns \<and> (\<forall>(state, t) \<in> set txns. state \<in> {''prepared'', ''inProgress''} \<longrightarrow> \<not> starts_before t start)"
proof -
  from assms obtain oldest where o: "get_latest_visible_oplog_op_time srv = Inr latest" "get_oldest_transaction_time srv = Inr oldest"
    "start = (case oldest of None \<Rightarrow> latest | Some t \<Rightarrow> t)"
    by (auto simp: get_tailing_start_times_def rbind_eq_Inr split: option.splits)
  show "ls_latest srv = Inr latest" "\<exists>optime. ls_confirm srv (ot_TS latest) = Inr (Some optime) \<and> op_time_equals optime latest"
    using o(1) by (auto simp: get_latest_visible_oplog_op_time_def rbind_eq_Inr split: option.splits if_splits)
  from o(2) obtain txns where t: "ls_transactions srv = Inr txns"
    "oldest = earliest_start (map snd (filter (\<lambda>(state, _). state \<in> {''prepared'', ''inProgress''}) txns))"
    by (auto simp: get_oldest_transaction_time_def rbind_eq_Inr)
  let ?ts = "map snd (filter (\<lambda>(state, _). state \<in> {''prepared'', ''inProgress''}) txns)"
  have "\<not> starts_before u start" if "u \<in> set ?ts" for u
  proof -
    from that have "?ts \<noteq> []" by (metis empty_iff empty_set)
    with earliest_start_None [of ?ts] o(3) t(2) have "earliest_start ?ts = Some start" by (cases oldest) auto
    with earliest_start_least [of ?ts start] \<open>?ts \<noteq> []\<close> that show ?thesis by (fastforce simp: starts_before_rank)
  qed
  then show "\<exists>txns. ls_transactions srv = Inr txns \<and> (\<forall>(state, t) \<in> set txns. state \<in> {''prepared'', ''inProgress''} \<longrightarrow> \<not> starts_before t start)"
    using t(1) by (intro exI [of _ txns]) fastforce
qed

section \<open>The life of a reader\<close>

text \<open>
  The oplog as it was written is \<open>lf_gone @ lf_oplog\<close>; the server has dropped the first part. A batch
  that was read waits in the channel (\<open>lf_queue\<close>), then its rechecks are enqueued (\<open>lf_done\<close>), then its
  resume token may be saved.
\<close>

record life =
  lf_meta :: reader_meta
  lf_gone :: "(timestamp \<times> oplog_entry) list"
  lf_oplog :: "(timestamp \<times> oplog_entry) list"
  lf_cursor :: "timestamp option"
  lf_queue :: "(timestamp \<times> oplog_entry) list list"
  lf_handled :: "timestamp option"
  lf_done :: "(timestamp \<times> oplog_entry) list"

definition in_log_order :: "(timestamp \<times> oplog_entry) list \<Rightarrow> bool" where
  "in_log_order es \<longleftrightarrow> sorted_wrt (\<lambda>a b. ts_after (fst b) (fst a)) es"

definition token_decoder :: "log_server \<Rightarrow> bool" where
  "token_decoder srv \<longleftrightarrow> (\<forall>ts token. marshal_resume_token ts = Inr token \<longrightarrow> ls_unmarshalToken srv token = Inr ts)"

definition saved_position :: "reader_meta \<Rightarrow> timestamp option" where
  "saved_position m = (case rm_persisted m of None \<Rightarrow> None
     | Some (token, _) \<Rightarrow> (case get_raw_resume_token_timestamp token of Inl _ \<Rightarrow> None | Inr ts \<Rightarrow> Some ts))"

definition saved_allowance :: "reader_meta \<Rightarrow> timestamp option" where
  "saved_allowance m = (case rm_allowance m of None \<Rightarrow> None
     | Some raw \<Rightarrow> (case lookup_cast cast_timestamp raw [''ts''] of Inl _ \<Rightarrow> None | Inr ts \<Rightarrow> Some ts))"

text \<open>
  A server that drops entries after the position of an open cursor closes the cursor. With \<open>keeps\<close> it
  drops only entries up to the saved position.
\<close>

inductive reader_life :: "bool \<Rightarrow> oplog_env \<Rightarrow> int list \<Rightarrow> life \<Rightarrow> bool" for keeps env va where
  life_new: "reader_life keeps env va \<lparr>lf_meta = \<lparr>rm_persisted = None, rm_allowance = None, rm_eventCounts = zero_counts\<rparr>,
     lf_gone = [], lf_oplog = [], lf_cursor = None, lf_queue = [], lf_handled = None, lf_done = []\<rparr>"
| life_write: "reader_life keeps env va l \<Longrightarrow> in_log_order (lf_gone l @ lf_oplog l @ es)
     \<Longrightarrow> reader_life keeps env va (l\<lparr>lf_oplog := lf_oplog l @ es\<rparr>)"
| life_truncate: "reader_life keeps env va l \<Longrightarrow> lf_oplog l = lost @ kept
     \<Longrightarrow> keeps \<longrightarrow> (\<forall>x \<in> set lost. \<forall>ts. saved_position (lf_meta l) = Some ts \<longrightarrow> \<not> ts_after (fst x) ts)
     \<Longrightarrow> reader_life keeps env va (l\<lparr>lf_gone := lf_gone l @ lost, lf_oplog := kept, lf_cursor := (case lf_cursor l of
            None \<Rightarrow> None | Some ts \<Rightarrow> if \<exists>x \<in> set lost. ts_after (fst x) ts then None else Some ts)\<rparr>)"
| life_open: "reader_life keeps env va l \<Longrightarrow> token_decoder srv
     \<Longrightarrow> \<forall>t. ls_latest srv = Inr t \<longrightarrow> ot_TS t \<in> fst ` set (lf_oplog l)
     \<Longrightarrow> create_cursor va srv (lf_meta l) = (res, m')
     \<Longrightarrow> reader_life keeps env va (l\<lparr>lf_meta := m',
            lf_cursor := (case res of Inl _ \<Rightarrow> None | Inr c \<Rightarrow> Some (lc_startTS c))\<rparr>)"
| life_batch: "reader_life keeps env va l \<Longrightarrow> lf_cursor l = Some ts
     \<Longrightarrow> filter (oplog_filter env ts) (lf_oplog l) = b @ rest \<Longrightarrow> b \<noteq> []
     \<Longrightarrow> reader_life keeps env va (l\<lparr>lf_cursor := Some (fst (last b)), lf_queue := lf_queue l @ [b]\<rparr>)"
| life_enqueue: "reader_life keeps env va l \<Longrightarrow> lf_queue l = b # q
     \<Longrightarrow> reader_life keeps env va (l\<lparr>lf_queue := q, lf_done := lf_done l @ b, lf_handled := Some (fst (last b))\<rparr>)"
| life_save: "reader_life keeps env va l \<Longrightarrow> lf_handled l = Some ts \<Longrightarrow> marshal_resume_token ts = Inr token
     \<Longrightarrow> persist_reader_token srv token (lf_meta l) = (Inr (), m')
     \<Longrightarrow> reader_life keeps env va (l\<lparr>lf_meta := m', lf_handled := None\<rparr>)"
| life_crash: "reader_life keeps env va l \<Longrightarrow> reader_life keeps env va
     (l\<lparr>lf_meta := (lf_meta l)\<lparr>rm_eventCounts := zero_counts\<rparr>, lf_cursor := None, lf_queue := [], lf_handled := None\<rparr>)"

text \<open>
  What is covered up to a time: every entry written since the first start that the query selects. The
  first start is the DDL allowance, which stays once there is a token.
\<close>

definition covers_until :: "oplog_env \<Rightarrow> life \<Rightarrow> timestamp \<Rightarrow> (timestamp \<times> oplog_entry) set \<Rightarrow> bool" where
  "covers_until env l ts es \<longleftrightarrow> (\<forall>start. saved_allowance (lf_meta l) = Some start \<longrightarrow>
     (\<forall>x \<in> set (lf_gone l @ lf_oplog l). oplog_filter env start x \<longrightarrow> \<not> ts_after (fst x) ts \<longrightarrow> x \<in> es))"

definition position_covered :: "oplog_env \<Rightarrow> life \<Rightarrow> timestamp \<Rightarrow> (timestamp \<times> oplog_entry) set \<Rightarrow> bool" where
  "position_covered env l ts es \<longleftrightarrow> ts \<in> fst ` set (lf_gone l @ lf_oplog l) \<and> covers_until env l ts es"

definition life_ok :: "oplog_env \<Rightarrow> life \<Rightarrow> bool" where
  "life_ok env l \<longleftrightarrow> in_log_order (lf_gone l @ lf_oplog l)
     \<and> (case rm_persisted (lf_meta l) of
          None \<Rightarrow> lf_cursor l = None \<and> lf_queue l = [] \<and> lf_handled l = None
        | Some (token, _) \<Rightarrow> (\<exists>ts. marshal_resume_token ts = Inr token \<and> position_covered env l ts (set (lf_done l)))
            \<and> saved_allowance (lf_meta l) \<noteq> None
            \<and> (\<forall>start. saved_allowance (lf_meta l) = Some start \<longrightarrow> (\<forall>x \<in> set (lf_gone l). oplog_filter env start x \<longrightarrow> x \<in> set (lf_done l)))
            \<and> (\<forall>ts. lf_cursor l = Some ts \<longrightarrow> position_covered env l ts (set (lf_done l) \<union> set (concat (lf_queue l))))
            \<and> (\<forall>ts. lf_handled l = Some ts \<longrightarrow> position_covered env l ts (set (lf_done l)))
            \<and> (\<forall>pre b post. lf_queue l = pre @ b # post \<longrightarrow>
                 position_covered env l (fst (last b)) (set (lf_done l) \<union> set (concat (pre @ [b])))))"

section \<open>The life keeps its coverage\<close>

lemma marshalled_position: "marshal_resume_token ts = Inr token \<Longrightarrow> get_raw_resume_token_timestamp token = Inr ts"
  using resume_token_roundtrip [of ts] by auto

lemma saved_position_token:
  "rm_persisted m = Some (token, c) \<Longrightarrow> marshal_resume_token ts = Inr token \<Longrightarrow> saved_position m = Some ts"
  by (simp add: saved_position_def marshalled_position)

lemma allowance_saved: "saved_allowance (m\<lparr>rm_allowance := Some (enc_doc [(''ts'', timestamp_value ts)])\<rparr>) = Some ts"
proof -
  let ?kvs = "[(''ts'', timestamp_value ts)]"
  have w: "list_all wf_kv ?kvs" "small ?kvs" by (simp_all add: wf_kv_def valid_cstring_def small_def)
  then show ?thesis by (simp add: saved_allowance_def lookup_cast_def lookup_enc_doc)
qed

lemma saved_allowance_cong: "rm_allowance m' = rm_allowance m \<Longrightarrow> saved_allowance m' = saved_allowance m"
  by (simp add: saved_allowance_def)

lemma persist_token_result:
  "persist_reader_token srv token m = (Inr (), m') \<Longrightarrow> m' = m\<lparr>rm_persisted := Some (token, rm_eventCounts m)\<rparr>"
  "persist_reader_token srv token m = (Inl e, m') \<Longrightarrow> m' = m"
  by (auto simp: persist_reader_token_def abind_eq_Inr abind_eq_Inl split: if_splits)

lemma open_with_token:
  assumes "token_decoder srv" "rm_persisted m = Some (token, c)" "marshal_resume_token ts = Inr token"
    and "create_cursor va srv m = (res, m')"
  shows "rm_persisted m' = rm_persisted m \<and> rm_allowance m' = rm_allowance m \<and> (\<forall>cur. res = Inr cur \<longrightarrow> lc_startTS cur = ts)"
proof -
  have u: "ls_unmarshalToken srv token = Inr ts" using assms(1,3) by (simp add: token_decoder_def)
  show ?thesis using assms(4) assms(2)
    by (cases res) (auto simp: create_cursor_def load_reader_token_def fetch_ddl_allowance_def abind_eq_Inr abind_eq_Inl u split: option.splits)
qed

lemma open_without_token:
  assumes "rm_persisted m = None" "create_cursor va srv m = (res, m')"
  shows "(rm_persisted m' = None \<and> (\<exists>e. res = Inl e))
    \<or> (\<exists>t token c. ls_latest srv = Inr t \<and> rm_persisted m' = Some (token, c) \<and> marshal_resume_token (ot_TS t) = Inr token
        \<and> saved_allowance m' = Some (ot_TS t) \<and> (\<forall>cur. res = Inr cur \<longrightarrow> lc_startTS cur = ot_TS t))"
  using assms(2) assms(1)
  by (cases res) (auto simp: create_cursor_def load_reader_token_def replace_ddl_allowance_def abind_eq_Inr abind_eq_Inl
      saved_allowance_cong [where m = "m\<lparr>rm_allowance := Some (enc_doc [(''ts'', timestamp_value _)])\<rparr>"] allowance_saved
      dest!: persist_token_result tailing_start_times(1) split: prod.splits)

lemma in_log_orderD:
  "in_log_order (xs @ ys) \<Longrightarrow> x \<in> set xs \<Longrightarrow> y \<in> set ys \<Longrightarrow> ts_after (fst y) (fst x)"
  by (auto simp: in_log_order_def sorted_wrt_append)

lemma ts_after_antisym: "ts_after a b \<Longrightarrow> \<not> ts_after b a"
  using ts_after_trans ts_after_irrefl by blast

text \<open>Writing more entries covers no less: they come after every position.\<close>

lemma position_covered_write:
  assumes "in_log_order (lf_gone l @ lf_oplog l @ es)" "position_covered env l ts S"
  shows "position_covered env (l\<lparr>lf_oplog := lf_oplog l @ es\<rparr>) ts S"
proof -
  obtain p where p: "p \<in> set (lf_gone l @ lf_oplog l)" "fst p = ts" using assms(2) by (auto simp: position_covered_def)
  have new: "ts_after (fst x) ts" if "x \<in> set es" for x
    using in_log_orderD [of "lf_gone l @ lf_oplog l" es p x] assms(1) p that by simp
  show ?thesis
    unfolding position_covered_def covers_until_def
  proof (intro conjI allI impI ballI)
    show "ts \<in> fst ` set (lf_gone (l\<lparr>lf_oplog := lf_oplog l @ es\<rparr>) @ lf_oplog (l\<lparr>lf_oplog := lf_oplog l @ es\<rparr>))"
      using p by auto
  next
    fix start x
    assume a: "saved_allowance (lf_meta (l\<lparr>lf_oplog := lf_oplog l @ es\<rparr>)) = Some start"
      and x: "x \<in> set (lf_gone (l\<lparr>lf_oplog := lf_oplog l @ es\<rparr>) @ lf_oplog (l\<lparr>lf_oplog := lf_oplog l @ es\<rparr>))"
        "oplog_filter env start x" "\<not> ts_after (fst x) ts"
    from x(1,3) new [of x] have "x \<in> set (lf_gone l @ lf_oplog l)" by auto
    with assms(2) a x(2,3) show "x \<in> S" by (auto simp: position_covered_def covers_until_def)
  qed
qed

lemma position_covered_cong:
  assumes "position_covered env l ts S" "set (lf_gone l' @ lf_oplog l') = set (lf_gone l @ lf_oplog l)"
    and "saved_allowance (lf_meta l') = saved_allowance (lf_meta l)" "S \<subseteq> S'"
  shows "position_covered env l' ts S'"
  using assms unfolding position_covered_def covers_until_def by (metis subsetD)

text \<open>What \<open>life_ok\<close> says once a token is saved, and when it is enough to say it.\<close>

lemma life_okD:
  assumes "life_ok env l" "rm_persisted (lf_meta l) = Some (token, c)"
  shows "\<exists>ts. marshal_resume_token ts = Inr token \<and> position_covered env l ts (set (lf_done l))"
    and "saved_allowance (lf_meta l) \<noteq> None"
    and "saved_allowance (lf_meta l) = Some start \<Longrightarrow> x \<in> set (lf_gone l) \<Longrightarrow> oplog_filter env start x \<Longrightarrow> x \<in> set (lf_done l)"
    and "lf_cursor l = Some ts \<Longrightarrow> position_covered env l ts (set (lf_done l) \<union> set (concat (lf_queue l)))"
    and "lf_handled l = Some ts \<Longrightarrow> position_covered env l ts (set (lf_done l))"
    and "lf_queue l = pre @ b # post \<Longrightarrow> position_covered env l (fst (last b)) (set (lf_done l) \<union> set (concat (pre @ [b])))"
  using assms by (auto simp: life_ok_def)

lemma life_okI:
  assumes "in_log_order (lf_gone l @ lf_oplog l)" "rm_persisted (lf_meta l) = Some (token, c)" "marshal_resume_token ts = Inr token"
    and "position_covered env l ts (set (lf_done l))" "saved_allowance (lf_meta l) = Some start"
    and "\<And>x. x \<in> set (lf_gone l) \<Longrightarrow> oplog_filter env start x \<Longrightarrow> x \<in> set (lf_done l)"
    and "\<And>ts. lf_cursor l = Some ts \<Longrightarrow> position_covered env l ts (set (lf_done l) \<union> set (concat (lf_queue l)))"
    and "\<And>ts. lf_handled l = Some ts \<Longrightarrow> position_covered env l ts (set (lf_done l))"
    and "\<And>pre b post. lf_queue l = pre @ b # post \<Longrightarrow>
      position_covered env l (fst (last b)) (set (lf_done l) \<union> set (concat (pre @ [b])))"
  shows "life_ok env l"
  using assms unfolding life_ok_def by auto

lemma life_ok_no_token:
  "life_ok env l \<Longrightarrow> rm_persisted (lf_meta l) = None \<Longrightarrow> lf_cursor l = None \<and> lf_queue l = [] \<and> lf_handled l = None"
  by (simp add: life_ok_def)

lemma life_ok_token:
  assumes "life_ok env l" "rm_persisted (lf_meta l) = Some (token, c)"
  obtains ts start where "marshal_resume_token ts = Inr token" "position_covered env l ts (set (lf_done l))"
    "saved_allowance (lf_meta l) = Some start" "saved_position (lf_meta l) = Some ts" "in_log_order (lf_gone l @ lf_oplog l)"
    "\<And>x. x \<in> set (lf_gone l) \<Longrightarrow> oplog_filter env start x \<Longrightarrow> x \<in> set (lf_done l)"
  using life_okD(1,2,3) [OF assms] saved_position_token [OF assms(2)] assms(1) by (auto simp: life_ok_def)

lemma life_ok_write:
  assumes "life_ok env l" "in_log_order (lf_gone l @ lf_oplog l @ es)"
  shows "life_ok env (l\<lparr>lf_oplog := lf_oplog l @ es\<rparr>)"
proof (cases "rm_persisted (lf_meta l)")
  case None
  with life_ok_no_token [OF assms(1)] assms(2) show ?thesis by (simp add: life_ok_def)
next
  case (Some p)
  obtain token c where p: "rm_persisted (lf_meta l) = Some (token, c)" using Some by (cases p) auto
  note d = life_okD [OF assms(1) p] and w = position_covered_write [OF assms(2)]
  obtain ts start where t: "marshal_resume_token ts = Inr token" "position_covered env l ts (set (lf_done l))"
    "saved_allowance (lf_meta l) = Some start" by (rule life_ok_token [OF assms(1) p])
  let ?l' = "l\<lparr>lf_oplog := lf_oplog l @ es\<rparr>"
  show ?thesis
  proof (rule life_okI [of _ token c ts _ start])
    show "in_log_order (lf_gone ?l' @ lf_oplog ?l')" using assms(2) by simp
    show "position_covered env ?l' ts (set (lf_done ?l'))" using w [OF t(2)] by simp
    show "position_covered env ?l' ts' (set (lf_done ?l') \<union> set (concat (lf_queue ?l')))" if "lf_cursor ?l' = Some ts'" for ts'
      using w [OF d(4)] that by simp
    show "position_covered env ?l' ts' (set (lf_done ?l'))" if "lf_handled ?l' = Some ts'" for ts'
      using w [OF d(5)] that by simp
    show "position_covered env ?l' (fst (last b)) (set (lf_done ?l') \<union> set (concat (pre @ [b])))" if "lf_queue ?l' = pre @ b # post" for pre b post
      using w [OF d(6)] that by simp
    show "x \<in> set (lf_done ?l')" if "x \<in> set (lf_gone ?l')" "oplog_filter env start x" for x
      using d(3) [OF t(3)] that by simp
  qed (use p t(1,3) in simp_all)
qed

lemma life_ok_truncate:
  assumes "life_ok env l" "lf_oplog l = lost @ kept"
    and "\<forall>x \<in> set lost. \<forall>ts. saved_position (lf_meta l) = Some ts \<longrightarrow> \<not> ts_after (fst x) ts"
  shows "life_ok env (l\<lparr>lf_gone := lf_gone l @ lost, lf_oplog := kept, lf_cursor := (case lf_cursor l of
            None \<Rightarrow> None | Some ts \<Rightarrow> if \<exists>x \<in> set lost. ts_after (fst x) ts then None else Some ts)\<rparr>)"
    (is "life_ok env ?l'")
proof (cases "rm_persisted (lf_meta l)")
  case None
  with life_ok_no_token [OF assms(1) None] assms(1,2) show ?thesis by (simp add: life_ok_def)
next
  case (Some p)
  obtain token c where p: "rm_persisted (lf_meta l) = Some (token, c)" using Some by (cases p) auto
  note d = life_okD [OF assms(1) p]
  have k: "position_covered env ?l' ts S" if "position_covered env l ts S" for ts S
    by (rule position_covered_cong [OF that]) (simp_all add: assms(2) Un_assoc)
  obtain ts start where t: "marshal_resume_token ts = Inr token" "position_covered env l ts (set (lf_done l))"
    "saved_allowance (lf_meta l) = Some start" "saved_position (lf_meta l) = Some ts" "in_log_order (lf_gone l @ lf_oplog l)"
    by (rule life_ok_token [OF assms(1) p])
  have gone: "x \<in> set (lf_done l)" if x: "x \<in> set (lf_gone l @ lost)" "oplog_filter env start x" for x
  proof (cases "x \<in> set (lf_gone l)")
    case True
    with d(3) t(3) x(2) show ?thesis by blast
  next
    case False
    with assms(3) x(1) t(4) have "\<not> ts_after (fst x) ts" by auto
    with t(2,3) x False show ?thesis by (auto simp: position_covered_def covers_until_def assms(2))
  qed
  have cursor: "lf_cursor l = Some ts" if "lf_cursor ?l' = Some ts" for ts
    using that by (auto split: option.splits if_splits)
  show ?thesis
  proof (rule life_okI [of _ token c ts _ start])
    show "in_log_order (lf_gone ?l' @ lf_oplog ?l')" using t(5) by (simp add: assms(2))
    show "position_covered env ?l' ts (set (lf_done ?l'))" using k [OF t(2)] by simp
    show "position_covered env ?l' ts' (set (lf_done ?l') \<union> set (concat (lf_queue ?l')))" if "lf_cursor ?l' = Some ts'" for ts'
      using k [OF d(4) [OF cursor [OF that]]] by simp
    show "position_covered env ?l' ts' (set (lf_done ?l'))" if "lf_handled ?l' = Some ts'" for ts'
      using k [OF d(5)] that by simp
    show "position_covered env ?l' (fst (last b)) (set (lf_done ?l') \<union> set (concat (pre @ [b])))" if "lf_queue ?l' = pre @ b # post" for pre b post
      using k [OF d(6)] that by simp
  qed (use p t(1,3) gone in simp_all)
qed

lemma life_ok_crash:
  assumes "life_ok env l"
  shows "life_ok env (l\<lparr>lf_meta := (lf_meta l)\<lparr>rm_eventCounts := zero_counts\<rparr>, lf_cursor := None, lf_queue := [], lf_handled := None\<rparr>)"
    (is "life_ok env ?l'")
proof -
  have a: "saved_allowance (lf_meta ?l') = saved_allowance (lf_meta l)" by (simp add: saved_allowance_def)
  have k: "position_covered env ?l' ts S" if "position_covered env l ts S" for ts S
    by (rule position_covered_cong [OF that]) (simp_all add: saved_allowance_def)
  show ?thesis
  proof (cases "rm_persisted (lf_meta l)")
    case None
    with assms show ?thesis by (simp add: life_ok_def)
  next
    case (Some p)
    obtain token c where p: "rm_persisted (lf_meta l) = Some (token, c)" using Some by (cases p) auto
    obtain ts start where t: "marshal_resume_token ts = Inr token" "position_covered env l ts (set (lf_done l))"
      "saved_allowance (lf_meta l) = Some start" "saved_position (lf_meta l) = Some ts" "in_log_order (lf_gone l @ lf_oplog l)"
      by (rule life_ok_token [OF assms p])
    show ?thesis
      by (rule life_okI [of _ token c ts _ start]) (use p t(1,3,5) a k [OF t(2)] life_okD(3) [OF assms p t(3)] in simp_all)
  qed
qed

lemma life_ok_open:
  assumes "life_ok env l" "token_decoder srv" "create_cursor va srv (lf_meta l) = (res, m')"
    and "\<forall>t. ls_latest srv = Inr t \<longrightarrow> ot_TS t \<in> fst ` set (lf_oplog l)"
  shows "life_ok env (l\<lparr>lf_meta := m', lf_cursor := (case res of Inl _ \<Rightarrow> None | Inr c \<Rightarrow> Some (lc_startTS c))\<rparr>)" (is "life_ok env ?l'")
proof (cases "rm_persisted (lf_meta l)")
  case None
  note n = life_ok_no_token [OF assms(1) None]
  have order: "in_log_order (lf_gone l @ lf_oplog l)" using assms(1) by (simp add: life_ok_def)
  from open_without_token [OF None assms(3)] show ?thesis
  proof (elim disjE exE conjE)
    fix e
    assume "rm_persisted m' = None" "res = Inl e"
    with n order show ?thesis by (simp add: life_ok_def)
  next
    fix t token c
    assume t: "ls_latest srv = Inr t" "rm_persisted m' = Some (token, c)" "marshal_resume_token (ot_TS t) = Inr token"
      "saved_allowance m' = Some (ot_TS t)" "\<forall>cur. res = Inr cur \<longrightarrow> lc_startTS cur = ot_TS t"
    obtain y where y: "y \<in> set (lf_oplog l)" "fst y = ot_TS t" using assms(4) t(1) by auto
    have k: "position_covered env ?l' (ot_TS t) S" for S
      using imageI [OF y(1), of fst] y(2) t(4) by (auto simp: position_covered_def covers_until_def oplog_filter_def)
    show ?thesis
    proof (rule life_okI [of _ token c "ot_TS t" _ "ot_TS t"])
      show "x \<in> set (lf_done ?l')" if "x \<in> set (lf_gone ?l')" "oplog_filter env (ot_TS t) x" for x
      proof -
        have "ts_after (fst y) (fst x)" using in_log_orderD [OF order, of x y] that(1) y(1) by simp
        with that(2) y(2) show ?thesis by (auto simp: oplog_filter_def dest: ts_after_antisym)
      qed
      show "position_covered env ?l' ts (set (lf_done ?l') \<union> set (concat (lf_queue ?l')))" if "lf_cursor ?l' = Some ts" for ts
        using that t(5) k by (auto split: sum.splits)
    qed (use t order n k in simp_all)
  qed
next
  case (Some p)
  obtain token c where p: "rm_persisted (lf_meta l) = Some (token, c)" using Some by (cases p) auto
  obtain ts start where t: "marshal_resume_token ts = Inr token" "position_covered env l ts (set (lf_done l))"
    "saved_allowance (lf_meta l) = Some start" "saved_position (lf_meta l) = Some ts" "in_log_order (lf_gone l @ lf_oplog l)"
    by (rule life_ok_token [OF assms(1) p])
  from open_with_token [OF assms(2) p t(1) assms(3)]
  have m: "rm_persisted m' = Some (token, c)" "saved_allowance m' = Some start" "\<And>cur. res = Inr cur \<Longrightarrow> lc_startTS cur = ts"
    using p t(3) by (simp_all add: saved_allowance_def)
  note d = life_okD [OF assms(1) p]
  have k: "position_covered env ?l' ts' S'" if "position_covered env l ts' S" "S \<subseteq> S'" for ts' S S'
    by (rule position_covered_cong [OF that(1) _ _ that(2)]) (simp_all add: m(2) t(3))
  show ?thesis
  proof (rule life_okI [of _ token c ts _ start])
    show "position_covered env ?l' ts' (set (lf_done ?l') \<union> set (concat (lf_queue ?l')))" if "lf_cursor ?l' = Some ts'" for ts'
      using that m(3) k [OF t(2), of "set (lf_done l) \<union> set (concat (lf_queue l))"] by (auto split: sum.splits)
    show "position_covered env ?l' ts (set (lf_done ?l'))" using k [OF t(2)] by simp
    show "position_covered env ?l' ts' (set (lf_done ?l'))" if "lf_handled ?l' = Some ts'" for ts'
      using k [OF d(5)] that by simp
    show "position_covered env ?l' (fst (last b)) (set (lf_done ?l') \<union> set (concat (pre @ [b])))" if "lf_queue ?l' = pre @ b # post" for pre b post
      by (rule k [OF d(6) [of pre b post]]) (use that in simp_all)
  qed (use m(1,2) t(1,5) d(3) [OF t(3)] in simp_all)
qed

lemma life_ok_batch:
  assumes "life_ok env l" "lf_cursor l = Some p" "filter (oplog_filter env p) (lf_oplog l) = b @ rest" "b \<noteq> []"
  shows "life_ok env (l\<lparr>lf_cursor := Some (fst (last b)), lf_queue := lf_queue l @ [b]\<rparr>)" (is "life_ok env ?l'")
proof -
  obtain token c where q: "rm_persisted (lf_meta l) = Some (token, c)"
    using life_ok_no_token [OF assms(1)] assms(2) by (cases "rm_persisted (lf_meta l)") auto
  obtain ts start where t: "marshal_resume_token ts = Inr token" "position_covered env l ts (set (lf_done l))"
    "saved_allowance (lf_meta l) = Some start" "saved_position (lf_meta l) = Some ts" "in_log_order (lf_gone l @ lf_oplog l)"
    by (rule life_ok_token [OF assms(1) q])
  note d = life_okD [OF assms(1) q]
  have sorted: "in_log_order (b @ rest)"
    using t(5) assms(3) [symmetric] by (simp add: in_log_order_def sorted_wrt_append sorted_wrt_filter)
  have "last b \<in> set (b @ rest)" using assms(4) by simp
  then have last: "last b \<in> set (lf_oplog l)" unfolding assms(3) [symmetric] by simp
  have covered: "position_covered env l (fst (last b)) (set (lf_done l) \<union> set (concat (lf_queue l @ [b])))"
    unfolding position_covered_def covers_until_def
  proof (intro conjI allI impI ballI)
    show "fst (last b) \<in> fst ` set (lf_gone l @ lf_oplog l)" using last by simp
  next
    fix start' x
    assume s: "saved_allowance (lf_meta l) = Some start'" and x: "x \<in> set (lf_gone l @ lf_oplog l)" "oplog_filter env start' x"
      "\<not> ts_after (fst x) (fst (last b))"
    show "x \<in> set (lf_done l) \<union> set (concat (lf_queue l @ [b]))"
    proof (cases "x \<in> set (lf_gone l) \<or> \<not> ts_after (fst x) p")
      case True
      with d(3) [OF s _ x(2)] d(4) [OF assms(2)] s x(1,2) show ?thesis by (auto simp: position_covered_def covers_until_def)
    next
      case False
      with x(1,2) have "x \<in> set (filter (oplog_filter env p) (lf_oplog l))" by (auto simp: oplog_filter_def)
      then have "x \<in> set b \<or> x \<in> set rest" by (simp add: assms(3))
      with in_log_orderD [OF sorted last_in_set [OF assms(4)], of x] x(3) show ?thesis by auto
    qed
  qed
  have k: "position_covered env ?l' ts' S'" if "position_covered env l ts' S" "S \<subseteq> S'" for ts' S S'
    by (rule position_covered_cong [OF that(1) _ _ that(2)]) simp_all
  show ?thesis
  proof (rule life_okI [of _ token c ts _ start])
    show "position_covered env ?l' ts (set (lf_done ?l'))" using k [OF t(2)] by simp
    show "position_covered env ?l' ts' (set (lf_done ?l') \<union> set (concat (lf_queue ?l')))" if "lf_cursor ?l' = Some ts'" for ts'
      by (rule k) (use covered that in auto)
    show "position_covered env ?l' ts' (set (lf_done ?l'))" if "lf_handled ?l' = Some ts'" for ts'
      using k [OF d(5)] that by simp
    show "position_covered env ?l' (fst (last b')) (set (lf_done ?l') \<union> set (concat (pre @ [b'])))" if s: "lf_queue ?l' = pre @ b' # post" for pre b' post
    proof (cases post rule: rev_cases)
      case Nil
      with s have "lf_queue l = pre" "b = b'" by simp_all
      with covered show ?thesis by (intro k [of "fst (last b')" "set (lf_done l) \<union> set (concat (lf_queue l @ [b]))"]) auto
    next
      case (snoc post' y)
      with s have "lf_queue l = pre @ b' # post'" by simp
      from d(6) [OF this] show ?thesis by (rule k) simp
    qed
  qed (use q t(1,3,5) d(3) [OF t(3)] in simp_all)
qed

lemma life_ok_enqueue:
  assumes "life_ok env l" "lf_queue l = b # q"
  shows "life_ok env (l\<lparr>lf_queue := q, lf_done := lf_done l @ b, lf_handled := Some (fst (last b))\<rparr>)" (is "life_ok env ?l'")
proof -
  obtain token c where p: "rm_persisted (lf_meta l) = Some (token, c)"
    using life_ok_no_token [OF assms(1)] assms(2) by (cases "rm_persisted (lf_meta l)") auto
  obtain ts start where t: "marshal_resume_token ts = Inr token" "position_covered env l ts (set (lf_done l))"
    "saved_allowance (lf_meta l) = Some start" "saved_position (lf_meta l) = Some ts" "in_log_order (lf_gone l @ lf_oplog l)"
    by (rule life_ok_token [OF assms(1) p])
  note d = life_okD [OF assms(1) p]
  have k: "position_covered env ?l' ts' S'" if "position_covered env l ts' S" "S \<subseteq> S'" for ts' S S'
    by (rule position_covered_cong [OF that(1) _ _ that(2)]) simp_all
  show ?thesis
  proof (rule life_okI [of _ token c ts _ start])
    show "position_covered env ?l' ts (set (lf_done ?l'))" by (rule k [OF t(2)]) auto
    show "position_covered env ?l' ts' (set (lf_done ?l') \<union> set (concat (lf_queue ?l')))" if "lf_cursor ?l' = Some ts'" for ts'
      by (rule k [OF d(4)]) (use that assms(2) in auto)
    show "position_covered env ?l' ts' (set (lf_done ?l'))" if "lf_handled ?l' = Some ts'" for ts'
      using k [OF d(6) [of "[]" b q]] assms(2) that by simp
    show "position_covered env ?l' (fst (last b')) (set (lf_done ?l') \<union> set (concat (pre @ [b'])))" if "lf_queue ?l' = pre @ b' # post" for pre b' post
      by (rule k [OF d(6) [of "b # pre" b' post]]) (use that assms(2) in auto)
  qed (use p t(1,3,5) d(3) [OF t(3)] in simp_all)
qed

lemma life_ok_save:
  assumes "life_ok env l" "lf_handled l = Some ts" "marshal_resume_token ts = Inr token"
    and "persist_reader_token srv token (lf_meta l) = (Inr (), m')"
  shows "life_ok env (l\<lparr>lf_meta := m', lf_handled := None\<rparr>)" (is "life_ok env ?l'")
proof -
  obtain token0 c where p: "rm_persisted (lf_meta l) = Some (token0, c)"
    using life_ok_no_token [OF assms(1)] assms(2) by (cases "rm_persisted (lf_meta l)") auto
  obtain ts0 start where t: "marshal_resume_token ts0 = Inr token0" "position_covered env l ts0 (set (lf_done l))"
    "saved_allowance (lf_meta l) = Some start" "saved_position (lf_meta l) = Some ts0" "in_log_order (lf_gone l @ lf_oplog l)"
    by (rule life_ok_token [OF assms(1) p])
  note d = life_okD [OF assms(1) p]
  from persist_token_result(1) [OF assms(4)] have m: "m' = (lf_meta l)\<lparr>rm_persisted := Some (token, rm_eventCounts (lf_meta l))\<rparr>" .
  have a: "saved_allowance m' = saved_allowance (lf_meta l)" by (simp add: m saved_allowance_def)
  have k: "position_covered env ?l' ts' S" if "position_covered env l ts' S" for ts' S
    by (rule position_covered_cong [OF that]) (simp_all add: a)
  show ?thesis
  proof (rule life_okI [of _ token "rm_eventCounts (lf_meta l)" ts _ start])
    show "position_covered env ?l' ts (set (lf_done ?l'))" using k [OF d(5) [OF assms(2)]] by simp
    show "position_covered env ?l' ts' (set (lf_done ?l') \<union> set (concat (lf_queue ?l')))" if "lf_cursor ?l' = Some ts'" for ts'
      using k [OF d(4)] that by simp
    show "position_covered env ?l' (fst (last b)) (set (lf_done ?l') \<union> set (concat (pre @ [b])))" if "lf_queue ?l' = pre @ b # post" for pre b post
      using k [OF d(6)] that by simp
    show "saved_allowance (lf_meta ?l') = Some start" using a t(3) by simp
  qed (use assms(3) t(5) d(3) [OF t(3)] in \<open>simp_all add: m\<close>)
qed

lemma reader_life_ok: "reader_life True env va l \<Longrightarrow> life_ok env l"
proof (induction rule: reader_life.induct)
  case life_new
  show ?case by (simp add: life_ok_def in_log_order_def)
next
  case (life_truncate l lost kept)
  then show ?case by (intro life_ok_truncate) simp_all
qed (blast intro: life_ok_write life_ok_open life_ok_batch life_ok_enqueue life_ok_save life_ok_crash)+

text \<open>C16: However often the reader fails and is opened again, and whatever it had not handed on by then, every entry
  its query selects that was written between its first start and the resume token now saved has had its
  rechecks enqueued, as long as the server drops only entries up to the saved token. The first start is
  the DDL allowance, which no later opening changes.\<close>

theorem reopened_reader_loses_nothing:
  assumes "reader_life True env va l" "saved_position (lf_meta l) = Some ts" "saved_allowance (lf_meta l) = Some start"
    and "x \<in> set (lf_gone l @ lf_oplog l)" "oplog_filter env start x" "\<not> ts_after (fst x) ts"
  shows "x \<in> set (lf_done l)"
proof -
  obtain token c where p: "rm_persisted (lf_meta l) = Some (token, c)"
    using assms(2) by (auto simp: saved_position_def split: option.splits)
  obtain ts' start' where "position_covered env l ts' (set (lf_done l))" "saved_allowance (lf_meta l) = Some start'"
    "saved_position (lf_meta l) = Some ts'" by (rule life_ok_token [OF reader_life_ok [OF assms(1)] p])
  with assms(2-) show ?thesis unfolding position_covered_def covers_until_def by (metis option.inject)
qed

section \<open>An oplog that is cut short\<close>

definition at_second :: "u32 \<Rightarrow> timestamp" where
  "at_second n = \<lparr>ts_T = n, ts_I = 1\<rparr>"

definition position_token :: "timestamp \<Rightarrow> bytes" where
  "position_token ts = enc_doc [(''ts'', timestamp_value ts)]"

definition idle_server :: "timestamp \<Rightarrow> log_server" where
  "idle_server ts = \<lparr>ls_latest = Inr \<lparr>ot_TS = ts, ot_T = 1, ot_H = None\<rparr>,
     ls_confirm = (\<lambda>_. Inr (Some \<lparr>ot_TS = ts, ot_T = 1, ot_H = Some 0\<rparr>)), ls_transactions = Inr [(''committed'', \<lparr>ot_TS = ts_zero, ot_T = 1, ot_H = None\<rparr>)],
     ls_foundToken = Inr (), ls_unmarshalToken = get_raw_resume_token_timestamp, ls_foundAllowance = Inr (),
     ls_replacedAllowance = Inr (), ls_replacedToken = Inr (), ls_opened = Inr ()\<rparr>"

lemma position_token_simps [simp]:
  "marshal_resume_token ts = Inr (position_token ts)" "get_raw_resume_token_timestamp (position_token ts) = Inr ts"
  "position_token ts \<noteq> []" "lookup_cast cast_timestamp (position_token ts) [''ts''] = Inr ts"
proof -
  let ?kvs = "[(''ts'', timestamp_value ts)]"
  have w: "list_all wf_kv ?kvs" "small ?kvs" by (simp_all add: wf_kv_def valid_cstring_def small_def)
  show "marshal_resume_token ts = Inr (position_token ts)"
    by (simp add: marshal_resume_token_def rtBSONLength_def position_token_def enc_doc_def length_enc_elem Let_def)
  show "get_raw_resume_token_timestamp (position_token ts) = Inr ts" "lookup_cast cast_timestamp (position_token ts) [''ts''] = Inr ts"
    by (simp_all add: get_raw_resume_token_timestamp_def lookup_cast_def position_token_def lookup_enc_doc [OF w])
  then show "position_token ts \<noteq> []"
    by (auto simp: get_raw_resume_token_timestamp_def position_token_def enc_doc_def append32_def Let_def)
qed

definition opened_meta :: "timestamp \<Rightarrow> reader_meta" where
  "opened_meta ts = \<lparr>rm_persisted = Some (position_token ts, zero_counts), rm_allowance = Some (position_token ts), rm_eventCounts = zero_counts\<rparr>"

lemma open_idle_server:
  assumes "ts \<noteq> ts_zero" "version_pair va = Inr v"
  shows "create_cursor va (idle_server ts) \<lparr>rm_persisted = None, rm_allowance = None, rm_eventCounts = zero_counts\<rparr>
    = (Inr \<lparr>lc_startTS = ts, lc_allowDDLBeforeTS = ts, lc_projected = cluster_has_bson_size v\<rparr>, opened_meta ts)"
  using assms
  by (simp add: create_cursor_def load_reader_token_def idle_server_def get_tailing_start_times_def get_latest_visible_oplog_op_time_def
      op_time_equals_def or_zero_def get_oldest_transaction_time_def replace_ddl_allowance_def persist_reader_token_def
      opened_meta_def abind_def flip: position_token_def)

lemma reopen_idle_server:
  assumes "version_pair va = Inr v" "rm_persisted m = Some (position_token ts, c)" "rm_allowance m = Some (position_token start)"
  shows "create_cursor va (idle_server ts') m
    = (Inr \<lparr>lc_startTS = ts, lc_allowDDLBeforeTS = start, lc_projected = cluster_has_bson_size v\<rparr>, m\<lparr>rm_eventCounts := c\<rparr>)"
  using assms
  by (cases m) (simp add: create_cursor_def load_reader_token_def idle_server_def fetch_ddl_allowance_def abind_def)

lemma idle_server_decodes: "token_decoder (idle_server ts)"
  by (auto simp: token_decoder_def idle_server_def)

lemma at_second_simps [simp]:
  "ts_after (at_second m) (at_second n) \<longleftrightarrow> m > n" "at_second m = at_second n \<longleftrightarrow> m = n" "at_second n \<noteq> ts_zero"
  by (simp_all add: at_second_def ts_after_def ts_zero_def)

lemma opened_life:
  assumes "version_pair va = Inr v"
  shows "reader_life keeps env va \<lparr>lf_meta = opened_meta (at_second 1), lf_gone = [], lf_oplog = [(at_second 1, NoopEntry)],
    lf_cursor = Some (at_second 1), lf_queue = [], lf_handled = None, lf_done = []\<rparr>"
proof -
  let ?m = "\<lparr>rm_persisted = None, rm_allowance = None, rm_eventCounts = zero_counts\<rparr> :: reader_meta"
  have "reader_life keeps env va \<lparr>lf_meta = ?m, lf_gone = [], lf_oplog = [(at_second 1, NoopEntry)],
    lf_cursor = None, lf_queue = [], lf_handled = None, lf_done = []\<rparr>"
    using life_write [OF life_new, of "[(at_second 1, NoopEntry)]"] by (simp add: in_log_order_def)
  from life_open [OF this idle_server_decodes [of "at_second 1"] _ prod.collapse [symmetric]]
  show ?thesis by (simp add: open_idle_server [OF _ assms] idle_server_def [of "at_second 1", THEN arg_cong [where f = ls_latest]])
qed

text \<open>A batch of one entry that is read, handled and saved.\<close>

lemma saved_life:
  assumes "reader_life keeps env va l" "lf_cursor l = Some p" "filter (oplog_filter env p) (lf_oplog l) = [(ts, e)]"
    and "lf_queue l = []" "ts \<noteq> ts_zero"
  shows "reader_life keeps env va (l\<lparr>lf_cursor := Some ts, lf_done := lf_done l @ [(ts, e)], lf_handled := None,
    lf_meta := (lf_meta l)\<lparr>rm_persisted := Some (position_token ts, rm_eventCounts (lf_meta l))\<rparr>\<rparr>)"
proof -
  from life_batch [OF assms(1,2), of "[(ts, e)]" "[]"] assms(3,4)
  have "reader_life keeps env va (l\<lparr>lf_cursor := Some ts, lf_queue := [[(ts, e)]]\<rparr>)" by simp
  from life_enqueue [OF this, of "[(ts, e)]" "[]"]
  have "reader_life keeps env va (l\<lparr>lf_cursor := Some ts, lf_queue := [], lf_done := lf_done l @ [(ts, e)], lf_handled := Some ts\<rparr>)" by simp
  from life_save [OF this, of ts "position_token ts" "idle_server ts"] assms(5)
  have "reader_life keeps env va (l\<lparr>lf_cursor := Some ts, lf_queue := [], lf_done := lf_done l @ [(ts, e)], lf_handled := None,
    lf_meta := (lf_meta l)\<lparr>rm_persisted := Some (position_token ts, rm_eventCounts (lf_meta l))\<rparr>\<rparr>)"
    by (cases l) (simp add: persist_reader_token_def idle_server_def abind_def)
  moreover have "l\<lparr>lf_queue := []\<rparr> = l" using assms(4) by (cases l) simp
  ultimately show ?thesis by (cases l) (use assms(4) in simp)
qed

text \<open>C17: The reader's query asks only for entries after the saved token, not whether the server still has them. When it
  was down while the server dropped entries it had not read, and likewise when the server closed its
  cursor because it fell behind, it goes on with the oldest entry there is: any entry it should have read
  can be lost without an error, with a later token saved.\<close>

theorem truncated_oplog_skipped:
  assumes "query_entry env e" "version_pair va = Inr v"
  shows "\<exists>l x ts start. reader_life False env va l \<and> saved_position (lf_meta l) = Some ts \<and> saved_allowance (lf_meta l) = Some start
    \<and> x \<in> set (lf_gone l @ lf_oplog l) \<and> snd x = e \<and> oplog_filter env start x \<and> \<not> ts_after (fst x) ts
    \<and> x \<notin> set (lf_done l) \<union> set (concat (lf_queue l))"
proof -
  let ?e1 = "(at_second 1, NoopEntry)" and ?e2 = "(at_second 2, e)" and ?e3 = "(at_second 3, NoopEntry)"
  let ?l = "\<lparr>lf_meta = opened_meta (at_second 1), lf_gone = [], lf_oplog = [?e1, ?e2, ?e3],
      lf_cursor = None, lf_queue = [], lf_handled = None, lf_done = []\<rparr>"
  let ?open = "\<lparr>lf_meta = opened_meta (at_second 1), lf_gone = [?e1, ?e2], lf_oplog = [?e3],
      lf_cursor = Some (at_second 1), lf_queue = [], lf_handled = None, lf_done = []\<rparr>"
  have "reader_life False env va ?l"
    using life_write [OF life_crash [OF opened_life [OF assms(2), of False env]], of "[?e2, ?e3]"]
    by (simp add: in_log_order_def opened_meta_def)
  from life_truncate [OF this, of "[?e1, ?e2]" "[?e3]"]
  have "reader_life False env va (?open\<lparr>lf_cursor := None\<rparr>)" by simp
  from life_open [OF this idle_server_decodes [of "at_second 3"] _ prod.collapse [symmetric]]
  have "reader_life False env va ?open"
    by (simp add: reopen_idle_server [OF assms(2)] opened_meta_def idle_server_def [of "at_second 3", THEN arg_cong [where f = ls_latest]])
  from saved_life [OF this, of "at_second 1" "at_second 3" NoopEntry]
  have "reader_life False env va (?open\<lparr>lf_cursor := Some (at_second 3), lf_done := [?e3], lf_handled := None,
    lf_meta := (opened_meta (at_second 1))\<lparr>rm_persisted := Some (position_token (at_second 3), zero_counts)\<rparr>\<rparr>)" (is "reader_life _ _ _ ?last")
    by (simp add: oplog_filter_def opened_meta_def)
  moreover have "saved_position (lf_meta ?last) = Some (at_second 3)" "saved_allowance (lf_meta ?last) = Some (at_second 1)"
    by (simp_all add: saved_position_def saved_allowance_def opened_meta_def)
  ultimately show ?thesis using assms(1)
    by (intro exI [of _ ?last] exI [of _ ?e2] exI [of _ "at_second 3"] exI [of _ "at_second 1"]) (simp add: oplog_filter_def)
qed

section \<open>Witnesses\<close>

theorem reopened_reader_loses_nothing_witness:
  "\<exists>l. reader_life True sample_oplog_env [7, 0] l \<and> (at_second 2, NoopEntry) \<in> set (lf_done l)"
proof -
  have v: "version_pair [7, 0] = Inr (7, 0)" by (simp add: version_pair_def)
  let ?l = "\<lparr>lf_meta = opened_meta (at_second 1), lf_gone = [], lf_oplog = [(at_second 1, NoopEntry), (at_second 2, NoopEntry)],
    lf_cursor = Some (at_second 1), lf_queue = [], lf_handled = None, lf_done = []\<rparr>"
  have "reader_life True sample_oplog_env [7, 0] ?l"
    using life_write [OF opened_life [OF v, of True sample_oplog_env], of "[(at_second 2, NoopEntry)]"] by (simp add: in_log_order_def)
  from saved_life [OF this, of "at_second 1" "at_second 2" NoopEntry] obtain l where
    l: "reader_life True sample_oplog_env [7, 0] l" "saved_position (lf_meta l) = Some (at_second 2)"
      "saved_allowance (lf_meta l) = Some (at_second 1)" "(at_second 2, NoopEntry) \<in> set (lf_gone l @ lf_oplog l)"
    by (force simp: oplog_filter_def opened_meta_def saved_position_def saved_allowance_def)
  have "(at_second 2, NoopEntry) \<in> set (lf_done l)"
    by (rule reopened_reader_loses_nothing [OF l]) (simp_all add: oplog_filter_def)
  with l(1) show ?thesis by blast
qed

theorem truncated_oplog_skipped_witness:
  "\<exists>l x ts. reader_life False sample_oplog_env [7, 0] l \<and> saved_position (lf_meta l) = Some ts
    \<and> snd x = WriteEntry sample_write \<and> x \<notin> set (lf_done l) \<and> \<not> ts_after (fst x) ts"
proof -
  have "query_entry sample_oplog_env (WriteEntry sample_write)" "version_pair [7, 0] = Inr (7, 0)"
    by (simp_all add: version_pair_def ns_watched_def excluded_ns_prefixes_def has_prefix_def sample_oplog_env_def sample_write_def)
  from truncated_oplog_skipped [OF this] show ?thesis by blast
qed

end
