(* ===== verification/Fetch_Compare.thy ===== *)
theory Fetch_Compare
  imports Verify_Task Retry Go_Errors
begin

text \<open>
  The attempts to compare a task's documents: \<open>FetchAndCompareDocuments\<close> of
  \<open>internal/verifier/compare.go\<close> with the retryer, whose channel of results \<open>ProcessVerifyTask\<close> reads, and
  the watchdog on the readers, of \<open>read_progress.go\<close> and \<open>checkReaderStalled\<close> of \<open>comparator.go\<close>. What an
  attempt does is a parameter: what its readers had sent, the reports its comparator had sent, and the
  first of its three goroutines to fail. Times are nanoseconds.
\<close>

section \<open>The progress of the readers\<close>

record read_progress =
  rp_last :: int
  rp_waitingForInput :: bool

definition new_read_progress :: "int \<Rightarrow> read_progress" where
  "new_read_progress now = \<lparr>rp_last = now, rp_waitingForInput = False\<rparr>"

definition touch :: "int \<Rightarrow> read_progress \<Rightarrow> read_progress" where
  "touch now p = p\<lparr>rp_last := now\<rparr>"

text \<open>The progress of the input counts only while the reader waits for it.\<close>

definition last_progress :: "read_progress option \<Rightarrow> read_progress \<Rightarrow> int" where
  "last_progress inputProgress p = (case inputProgress of
     None \<Rightarrow> rp_last p
   | Some inp \<Rightarrow> if rp_waitingForInput p \<and> rp_last inp > rp_last p then rp_last inp else rp_last p)"

definition set_waiting_for_input :: "int \<Rightarrow> bool \<Rightarrow> read_progress \<Rightarrow> read_progress" where
  "set_waiting_for_input now waiting p = (touch now p)\<lparr>rp_waitingForInput := waiting\<rparr>"

text \<open>Every success is noted twice: as progress, and with the retryer's callback.\<close>

definition progress_note_success :: "string \<Rightarrow> int \<Rightarrow> read_progress \<times> func_info \<Rightarrow> read_progress \<times> func_info" where
  "progress_note_success d now = (\<lambda>(p, fi). (touch now p, note_success d now fi))"

definition errReaderStalled :: go_error where
  "errReaderStalled = Err ''document reader stalled''"

definition check_reader_stalled :: "int \<Rightarrow> int \<Rightarrow> read_progress option \<Rightarrow> read_progress \<Rightarrow> int \<Rightarrow> go_error option" where
  "check_reader_stalled readTimeout now inputProgress p waitStart =
     (let last = last_progress inputProgress p;
          since = (if last > waitStart then last else waitStart);
          idle = now - since
      in if idle < readTimeout then None else Some errReaderStalled)"

text \<open>
  The wait for a message: ticks of the clock, and what the readers do in between. It ends with a
  message, or with the error of a check.
\<close>

datatype wait_event = Tick int | SrcTouch int | DstTouch int | DstPhase int bool | Message

fun wait_for_message :: "int \<Rightarrow> int \<Rightarrow> read_progress \<Rightarrow> read_progress \<Rightarrow> wait_event list \<Rightarrow> go_error option" where
  "wait_for_message readTimeout waitStart srcP dstP [] = None"
| "wait_for_message readTimeout waitStart srcP dstP (Message # evs) = None"
| "wait_for_message readTimeout waitStart srcP dstP (Tick now # evs) =
     (case check_reader_stalled readTimeout now (Some srcP) dstP waitStart of
        Some e \<Rightarrow> Some e
      | None \<Rightarrow> wait_for_message readTimeout waitStart srcP dstP evs)"
| "wait_for_message readTimeout waitStart srcP dstP (SrcTouch now # evs) = wait_for_message readTimeout waitStart (touch now srcP) dstP evs"
| "wait_for_message readTimeout waitStart srcP dstP (DstTouch now # evs) = wait_for_message readTimeout waitStart srcP (touch now dstP) evs"
| "wait_for_message readTimeout waitStart srcP dstP (DstPhase now w # evs) =
     wait_for_message readTimeout waitStart srcP (set_waiting_for_input now w dstP) evs"

section \<open>The attempts\<close>

record fetch_attempt =
  fa_before :: "err option"
  fa_notes :: "(nat \<times> string \<times> int) list"
  fa_failure :: "(nat \<times> err) option"
  fa_now :: int
  fa_woken :: "int option"
  fa_reports :: "doc_compare_report list"

definition fetch_retryer :: retryer where
  "fetch_retryer =
     with_callback ''comparing documents'' (with_callback ''reading from destination'' (with_callback ''reading from source''
       (with_error_codes [CursorKilledErrCode] (with_description ''comparing documents of a task'' new_retryer))))"

text \<open>The channels are made before each attempt; the reports go to the one channel of results as they are sent.\<close>

definition attempt_reports :: "fetch_attempt \<Rightarrow> doc_compare_report list" where
  "attempt_reports a = (if fa_before a = None then fa_reports a else [])"

definition fetch_attempt_run :: "fetch_attempt \<Rightarrow> (go_error + doc_compare_report) list
     \<Rightarrow> err group_run \<times> (go_error + doc_compare_report) list" where
  "fetch_attempt_run a sent = (\<lparr>gr_before = fa_before a, gr_notes = fa_notes a, gr_failure = fa_failure a,
     gr_now = fa_now a, gr_woken = fa_woken a\<rparr>, sent @ map Inr (attempt_reports a))"

definition last_result :: "err loop_end \<Rightarrow> (go_error + doc_compare_report) list" where
  "last_result end = (case end of
     FailedWith e \<Rightarrow> [Inl (Err (message e))] | LoopCanceled \<Rightarrow> [Inl (Err ''context canceled'')]
   | LoopPanic m \<Rightarrow> [Inl (Panic m)] | _ \<Rightarrow> [])"

definition fetch_and_compare_documents :: "int \<Rightarrow> fetch_attempt list \<Rightarrow> (go_error + doc_compare_report) list" where
  "fetch_and_compare_documents start attempts =
     (let ((end, _), sent) = run_retryer go_error_ops fetch_retryer start (map fetch_attempt_run attempts) []
      in sent @ last_result end)"

section \<open>What reaches the channel\<close>

lemma retry_loop_sent:
  assumes "retry_loop ops r n fis sl (map fetch_attempt_run as) sent = ((end, sleeps), sent')"
  shows "\<exists>k \<le> length as. (as \<noteq> [] \<longrightarrow> k > 0) \<and> sent' = sent @ map Inr (concat (map attempt_reports (take k as)))
    \<and> (end = StillRunning \<longrightarrow> k = length as) \<and> (end = Succeeded \<longrightarrow> k > 0 \<and> length sleeps = k - 1 \<and> fa_failure (as ! (k - 1)) = None)"
  using assms
proof (induction as arbitrary: n fis sl sent sleeps)
  case (Cons a as)
  let ?g = "\<lparr>gr_before = fa_before a, gr_notes = fa_notes a, gr_failure = fa_failure a, gr_now = fa_now a, gr_woken = fa_woken a\<rparr>"
  let ?sent = "sent @ map Inr (attempt_reports a)"
  show ?case
  proof (cases "attempt_end ops r n fis sl ?g")
    case (Inl p)
    with Cons.prems have p: "p = (end, sleeps)" "sent' = ?sent" by (auto simp: fetch_attempt_run_def Let_def)
    have "end \<noteq> StillRunning" "end = Succeeded \<Longrightarrow> sleeps = [] \<and> fa_failure a = None"
      using Inl by (auto simp: p attempt_end_def after_failure_def Let_def split: option.splits if_splits)
    with p show ?thesis by (intro exI [of _ 1]) auto
  next
    case (Inr fis')
    then obtain sleeps' where s: "retry_loop ops r (Suc n) fis' (next_sleep_time sl) (map fetch_attempt_run as) ?sent = ((end, sleeps'), sent')"
      "sleeps = sl # sleeps'" using Cons.prems by (auto simp: fetch_attempt_run_def [of a] Let_def split: prod.splits)
    from Cons.IH [OF s(1)] obtain k where k: "k \<le> length as" "sent' = ?sent @ map Inr (concat (map attempt_reports (take k as)))"
      "end = StillRunning \<longrightarrow> k = length as" "end = Succeeded \<longrightarrow> k > 0 \<and> length sleeps' = k - 1 \<and> fa_failure (as ! (k - 1)) = None" by blast
    with s(2) show ?thesis by (intro exI [of _ "Suc k"]) (auto simp: nth_Cons')
  qed
qed simp

lemma fetch_results:
  assumes "as \<noteq> []"
  shows "\<exists>k rest. 0 < k \<and> k \<le> length as
    \<and> fetch_and_compare_documents start as = map Inr (concat (map attempt_reports (take k as))) @ rest"
proof -
  obtain end' sleeps sent where r: "run_retryer go_error_ops fetch_retryer start (map fetch_attempt_run as) [] = ((end', sleeps), sent)"
    by (cases "run_retryer go_error_ops fetch_retryer start (map fetch_attempt_run as) []") auto
  have "ry_callbacks fetch_retryer \<noteq> []" by (simp add: fetch_retryer_def with_callback_def)
  with r have "retry_loop go_error_ops fetch_retryer 0 (map (new_func_info fetch_retryer start) (ry_callbacks fetch_retryer)) minSleepTime
      (map fetch_attempt_run as) [] = ((end', sleeps), sent)" by (simp add: run_retryer_def)
  from retry_loop_sent [OF this] assms r show ?thesis by (auto simp: fetch_and_compare_documents_def)
qed

section \<open>What a retry leaves behind\<close>

lemma process_first_empty_report:
  assumes "db_ok (vs_tasks st)" "i < length (vs_tasks st)" "vs_tasks st ! i = t" "rep_Problems r = []"
  shows "\<exists>st' t'. process_verify_task env t (Inr r # results) st = (st', Inr t')
    \<and> tk_Status t' = Some Completed \<and> tk_FoundSourceDocumentsCount t' = rep_DocCount r
    \<and> vs_rechecks st' = vs_rechecks st \<and> vs_mismatches st' = vs_mismatches st"
  using update_verification_task_ok [OF assms(1,2)] assms(3,4)
  by (auto simp: process_verify_task_def Let_def split: option.splits)

text \<open>C18: A report counts as soon as it is sent, whether its attempt succeeds or not. When both readers of the first
  attempt fail after they have sent documents that agree, or none at all, the comparator may still send
  its report before it learns of it: the report has no problem, so it is taken for the last one, and the
  task ends as completed with the few documents that were compared, whatever the later attempts would
  have found.\<close>

theorem failed_attempt_completes_task:
  assumes "readers_ok cenv srcs dsts" "no_done dsts" "run cenv srcs dsts = Inr c"
    and "expected_problems cenv (docs_of srcs) (docs_of dsts) = {#}"
    and "fa_before a = None" "fa_reports a = reports c"
    and "stored_task t" "db_ok (vs_tasks st)" "i < length (vs_tasks st)" "vs_tasks st ! i = t"
  shows "\<exists>st' t'. process_verify_task env t (fetch_and_compare_documents start (a # later)) st = (st', Inr t')
    \<and> tk_Status t' = Some Completed \<and> tk_FoundSourceDocumentsCount t' = word_of_nat (length (docs_of srcs))
    \<and> vs_rechecks st' = vs_rechecks st \<and> vs_mismatches st' = vs_mismatches st"
proof -
  from run_epochs [OF assms(1)] obtain rs epochs where
    r: "reports c = rs" "length rs = 1" "concat (map fst epochs) = docs_of srcs" "concat (map snd epochs) = docs_of dsts"
      "epochs_reported cenv epochs rs" "(\<Sum>r \<leftarrow> rs. rep_DocCount r) = word_of_nat (length (docs_of srcs))"
    using assms(2,3) by (auto simp: run_result_def new_comparator_def)
  from r(2) obtain rep where rep: "rs = [rep]" by (auto simp: length_Suc_conv)
  with r(3-5) assms(4) have empty: "rep_Problems rep = []" by (auto simp: epochs_reported_def list_all2_Cons2)
  obtain k rest where k: "0 < k" "fetch_and_compare_documents start (a # later) = map Inr (concat (map attempt_reports (take k (a # later)))) @ rest"
    using fetch_results [of "a # later" start] by auto
  then obtain k' where "k = Suc k'" by (cases k) auto
  with k(2) assms(5,6) r(1) rep have "fetch_and_compare_documents start (a # later)
      = Inr rep # map Inr (concat (map attempt_reports (take k' later))) @ rest"
    by (simp add: attempt_reports_def)
  with process_first_empty_report [OF assms(8-10) empty, of env] r(6) rep show ?thesis by auto
qed

lemma reports_flat:
  "sum_list (map rep_DocCount (concat (map attempt_reports as))) = (\<Sum>a \<leftarrow> as. \<Sum>r \<leftarrow> attempt_reports a. rep_DocCount r)"
  "concat (map rep_Problems (concat (map attempt_reports as))) = concat (map (\<lambda>a. concat (map rep_Problems (attempt_reports a))) as)"
  by (induction as) auto

text \<open>C20: What a failed attempt had reported stays: when the last attempt succeeds, the task has recorded the problems of
  all attempts, one after the other, and its count of documents is the sum of theirs.\<close>

theorem retried_attempts_add_up:
  assumes "run_retryer go_error_ops fetch_retryer start (map fetch_attempt_run as) [] = ((Succeeded, sleeps), sent)"
    and "rs = concat (map attempt_reports (take (Suc (length sleeps)) as))" "rs \<noteq> []" "\<forall>r \<in> set (butlast rs). rep_Problems r \<noteq> []"
    and "stored_task t" "db_ok (vs_tasks st)" "i < length (vs_tasks st)" "vs_tasks st ! i = t"
  shows "\<exists>st' t'. process_verify_task env t (fetch_and_compare_documents start as) st = (st', Inr t')
    \<and> tk_Status t' = Some (if concat (map rep_Problems rs) = [] then Completed else Failed)
    \<and> tk_FoundSourceDocumentsCount t' = (\<Sum>a \<leftarrow> take (Suc (length sleeps)) as. \<Sum>r \<leftarrow> attempt_reports a. rep_DocCount r)
    \<and> vs_mismatches st' = vs_mismatches st @ concat (map (\<lambda>a. map (\<lambda>r. enc_doc (mismatch_fields t r))
        (concat (map rep_Problems (attempt_reports a)))) (take (Suc (length sleeps)) as))"
proof -
  have "ry_callbacks fetch_retryer \<noteq> []" by (simp add: fetch_retryer_def with_callback_def)
  with assms(1) have "retry_loop go_error_ops fetch_retryer 0 (map (new_func_info fetch_retryer start) (ry_callbacks fetch_retryer)) minSleepTime
      (map fetch_attempt_run as) [] = ((Succeeded, sleeps), sent)" by (simp add: run_retryer_def)
  from retry_loop_sent [OF this] assms(2) have "sent = map Inr rs" by (auto simp: Suc_diff_1)
  then have f: "fetch_and_compare_documents start as = map Inr rs"
    by (simp add: fetch_and_compare_documents_def assms(1) last_result_def)
  have "list_all (\<lambda>r. rep_Problems r \<noteq> []) (butlast rs)" using assms(4) by (simp add: list_all_iff)
  from process_verify_task_ok [OF assms(5-8,3) this, of env] obtain st1 st' t' where
    p: "process_verify_task env t (map Inr rs) st = (st', Inr t')"
      "t' = t\<lparr>tk_Status := Some (if concat (map rep_Problems rs) = [] then Completed else Failed),
            tk_FoundSourceDocumentsCount := sum_list (map rep_DocCount rs),
            tk_SourceBytesCount := sum_list (map rep_ByteCount rs)\<rparr>"
      "persisted env t (concat (map rep_Problems rs)) st st1" "vs_mismatches st' = vs_mismatches st1" by blast
  have "vs_mismatches st1 = vs_mismatches st @ map (\<lambda>r. enc_doc (mismatch_fields t r)) (concat (map rep_Problems rs))"
    using p(3) by (auto simp: persisted_def)
  moreover have "sum_list (map rep_DocCount rs) = (\<Sum>a \<leftarrow> take (Suc (length sleeps)) as. \<Sum>r \<leftarrow> attempt_reports a. rep_DocCount r)"
    unfolding assms(2) by (rule reports_flat)
  moreover have "concat (map rep_Problems rs) = concat (map (\<lambda>a. concat (map rep_Problems (attempt_reports a))) (take (Suc (length sleeps)) as))"
    unfolding assms(2) by (rule reports_flat)
  ultimately show ?thesis using p(1,2,4) f by (simp add: map_concat comp_def)
qed

section \<open>The watchdog\<close>

text \<open>Once the destination reader runs its own query, an active source does not hide that it is stalled.\<close>

lemma stalled_despite_source:
  assumes "\<forall>ev \<in> set evs. \<exists>n. ev = SrcTouch n \<or> ev = Tick n" "Tick now \<in> set evs" "\<not> rp_waitingForInput dstP"
    and "now - max (rp_last dstP) waitStart \<ge> readTimeout"
  shows "wait_for_message readTimeout waitStart srcP dstP evs = Some errReaderStalled"
  using assms(1,2)
proof (induction evs arbitrary: srcP)
  case (Cons ev evs)
  then obtain n where "ev = SrcTouch n \<or> ev = Tick n" by auto
  with Cons assms(3,4) show ?case
    by (auto simp: check_reader_stalled_def last_progress_def Let_def max_def split: option.splits if_splits)
qed simp

fun ticks_follow :: "int \<Rightarrow> int \<Rightarrow> wait_event list \<Rightarrow> bool" where
  "ticks_follow readTimeout since [] \<longleftrightarrow> True"
| "ticks_follow readTimeout since (SrcTouch n # evs) \<longleftrightarrow> ticks_follow readTimeout n evs"
| "ticks_follow readTimeout since (Tick n # evs) \<longleftrightarrow> n - since < readTimeout \<and> ticks_follow readTimeout since evs"
| "ticks_follow readTimeout since (_ # evs) \<longleftrightarrow> False"

text \<open>While it waits for the ids of the source, the source's progress is enough.\<close>

lemma waiting_follows_source:
  "rp_waitingForInput dstP \<Longrightarrow> ticks_follow readTimeout (rp_last srcP) evs \<Longrightarrow>
     wait_for_message readTimeout waitStart srcP dstP evs = None"
  by (induction readTimeout "rp_last srcP" evs arbitrary: srcP rule: ticks_follow.induct)
    (auto simp: check_reader_stalled_def last_progress_def touch_def Let_def split: option.splits if_splits)

section \<open>Witnesses\<close>

definition example_report :: doc_compare_report where
  "example_report = \<lparr>rep_Problems = [\<lparr>res_ID = int32_value 7, res_Field = [], res_Details = Missing, res_Cluster = ''dst'',
       res_NameSpace = ''db.c'', res_MismatchHistory = \<lparr>First = 1000, DurationMS = 0\<rparr>, res_DataSize = 40,
       res_SrcTimestamp = None, res_DstTimestamp = None\<rparr>], rep_DocCount = 3, rep_ByteCount = 120\<rparr>"

definition failing_attempt :: "doc_compare_report list \<Rightarrow> fetch_attempt" where
  "failing_attempt rs = \<lparr>fa_before = None, fa_notes = [], fa_failure = Some (0, Node NetError None ''connection reset'' []),
     fa_now = 5 * second, fa_woken = Some (6 * second), fa_reports = rs\<rparr>"

definition passing_attempt :: "doc_compare_report list \<Rightarrow> fetch_attempt" where
  "passing_attempt rs = (failing_attempt rs)\<lparr>fa_failure := None\<rparr>"

theorem failed_attempt_completes_task_witness:
  "\<exists>c st' t'. run example_env [] [] = Inr c
    \<and> process_verify_task example_verifier example_task
        (fetch_and_compare_documents 0 [failing_attempt (reports c), passing_attempt []]) example_state = (st', Inr t')
    \<and> tk_Status t' = Some Completed \<and> tk_FoundSourceDocumentsCount t' = 0"
proof -
  have ok: "readers_ok example_env [] []"
    using example_readers(1) by (simp add: readers_ok_def comparable_def)
  from run_epochs [OF ok] obtain c where c: "run example_env [] [] = Inr c" by (auto simp: run_result_def)
  have e: "expected_problems example_env (docs_of []) (docs_of []) = {#}" by (simp add: expected_problems_def all_pairs_def unmatched_def)
  from failed_attempt_completes_task [OF ok _ c e _ _ example_task_stored, of "failing_attempt (reports c)" example_verifier 0 "[passing_attempt []]"]
  show ?thesis using c by (auto simp: no_done_def failing_attempt_def)
qed

theorem retried_attempts_add_up_witness:
  "\<exists>st' t'. process_verify_task example_verifier example_task
      (fetch_and_compare_documents 0 [failing_attempt [example_report], passing_attempt [example_report]]) example_state = (st', Inr t')
    \<and> tk_Status t' = Some Failed \<and> tk_FoundSourceDocumentsCount t' = 6 \<and> length (vs_mismatches st') = 2"
proof -
  let ?as = "[failing_attempt [example_report], passing_attempt [example_report]]"
  have run: "run_retryer go_error_ops fetch_retryer 0 (map fetch_attempt_run ?as) []
      = ((Succeeded, [minSleepTime]), [Inr example_report, Inr example_report])"
  proof -
    have e: "is_transient_error (Some (Node NetError None ''connection reset'' []))"
      by (simp add: is_transient_error_def is_network_error_def is_kind_def as_kind_def)
    show ?thesis
      by (simp add: run_retryer_def fetch_retryer_def with_callback_def with_error_codes_def with_description_def new_retryer_def
          new_func_info_def fetch_attempt_run_def failing_attempt_def passing_attempt_def attempt_reports_def attempt_end_def
          after_failure_def should_retry_with_sleep_def go_error_ops_def e limit_exceeded_def get_duration_so_far_def durations)
  qed
  have "\<forall>r \<in> set (butlast [example_report, example_report]). rep_Problems r \<noteq> []" by (simp add: example_report_def)
  from retried_attempts_add_up [OF run _ _ this example_task_stored, of example_verifier] show ?thesis
    by (auto simp: attempt_reports_def failing_attempt_def passing_attempt_def example_state_def) (simp_all add: example_report_def)
qed

end
