(* ===== verification/Settings.thy ===== *)
theory Settings
  imports Containers DocumentDB Mismatch_Reports
begin

text \<open>
  From the command line to a verifier: \<open>handleArgs\<close> of \<open>main/migration_verifier.go\<close> in its order, the
  setters of \<open>internal/verifier/migration_verifier.go\<close> and \<open>uri.go\<close> it calls, and what the command line
  starts then. The clusters are a parameter: what connecting to them and asking them gives. Parsing
  of the flags themselves, the configuration file, and logging are outside.
\<close>

section \<open>The flags\<close>

record cli_args =
  ca_srcURI :: string
  ca_dstURI :: string
  ca_metaURI :: string
  ca_serverPort :: int
  ca_numWorkers :: int
  ca_generationPauseDelay :: u64
  ca_workerSleepDelay :: u64
  ca_verifyAll :: bool
  ca_srcNamespace :: "string list"
  ca_dstNamespace :: "string list"
  ca_srcChangeReader :: string
  ca_dstChangeReader :: string
  ca_metaDBName :: string
  ca_srcFlavor :: string
  ca_partitioningScheme :: string
  ca_docCompareMethod :: string
  ca_clean :: bool
  ca_start :: bool
  ca_readPreference :: string
  ca_partitionSizeMB :: u64
  ca_logLevel :: string
  ca_checkOnly :: bool
  ca_failureDisplaySize :: int
  ca_indexSpecIgnore :: "string list"
  ca_ignoreReadConcern :: bool
  ca_pprofInterval :: string
  ca_ddlHandling :: string

definition ChangeReaderOpts :: "string list" where
  "ChangeReaderOpts = [''changeStream'', ''tailOplog'']"

definition DDLHandlingOpts :: "string list" where
  "DDLHandlingOpts = [''failAll'', ''warnMost'']"

definition Schemes :: "string list" where
  "Schemes = [''_id'', ''natural'']"

definition compare_methods :: "string list" where
  "compare_methods = [''binary'', ''ignoreOrder'', ''toHashedIndexKey'']"

definition srcFlavorStrs :: "string list" where
  "srcFlavorStrs = [''auto'', ''mongodb'', ''documentdb'']"

definition logLevelStrs :: "string list" where
  "logLevelStrs = [''info'', ''debug'', ''trace'']"

definition DefaultPartitionMiB :: u64 where "DefaultPartitionMiB = 400"

definition default_args :: cli_args where
  "default_args = \<lparr>ca_srcURI = [], ca_dstURI = [], ca_metaURI = [], ca_serverPort = 27020, ca_numWorkers = 10,
     ca_generationPauseDelay = 1000, ca_workerSleepDelay = 1000, ca_verifyAll = False, ca_srcNamespace = [], ca_dstNamespace = [],
     ca_srcChangeReader = ''changeStream'', ca_dstChangeReader = ''changeStream'', ca_metaDBName = ''__mdb_internal_migration_verifier'',
     ca_srcFlavor = ''auto'', ca_partitioningScheme = hd Schemes, ca_docCompareMethod = hd compare_methods, ca_clean = False,
     ca_start = False, ca_readPreference = ''primary'', ca_partitionSizeMB = 0, ca_logLevel = ''info'', ca_checkOnly = False,
     ca_failureDisplaySize = 20, ca_indexSpecIgnore = [], ca_ignoreReadConcern = False, ca_pprofInterval = [],
     ca_ddlHandling = ''failAll''\<rparr>"

section \<open>The verifier's settings\<close>

record verifier_settings =
  vn_readConcern :: string
  vn_ddlHandling :: string
  vn_numWorkers :: int
  vn_readPreferenceMode :: string
  vn_partitionSizeInBytes :: u64
  vn_failureDisplaySize :: int
  vn_srcFlavor :: string
  vn_srcURI :: string
  vn_srcClusterInfo :: "cluster_info option"
  vn_dstClusterInfo :: "cluster_info option"
  vn_metaURI :: string
  vn_metaClusterInfo :: "cluster_info option"
  vn_port :: int
  vn_generationPauseDelay :: u64
  vn_workerSleepDelay :: u64
  vn_pprofInterval :: int
  vn_startClean :: bool
  vn_verifyAll :: bool
  vn_srcNamespaces :: "string list"
  vn_dstNamespaces :: "string list"
  vn_nsMap :: nsmap
  vn_metaDBName :: string
  vn_srcChangeReaderMethod :: string
  vn_dstChangeReaderMethod :: string
  vn_docCompareMethod :: string
  vn_partitioningScheme :: string
  vn_indexSpecTolerances :: "string list"

definition new_verifier :: "string \<Rightarrow> string \<Rightarrow> verifier_settings" where
  "new_verifier readConcernSetting ddlHandling =
     \<lparr>vn_readConcern = (if readConcernSetting = [] then ''forceMajority'' else readConcernSetting),
      vn_ddlHandling = (if ddlHandling = [] then ''failAll'' else ddlHandling),
      vn_numWorkers = 10, vn_readPreferenceMode = ''primary'', vn_partitionSizeInBytes = 400 * 1024 * 1024,
      vn_failureDisplaySize = 20, vn_srcFlavor = ''auto'', vn_srcURI = [], vn_srcClusterInfo = None, vn_dstClusterInfo = None,
      vn_metaURI = [], vn_metaClusterInfo = None, vn_port = 0, vn_generationPauseDelay = 0, vn_workerSleepDelay = 0,
      vn_pprofInterval = 0, vn_startClean = False, vn_verifyAll = False, vn_srcNamespaces = [], vn_dstNamespaces = [],
      vn_nsMap = new_nsmap, vn_metaDBName = [], vn_srcChangeReaderMethod = [], vn_dstChangeReaderMethod = [],
      vn_docCompareMethod = [], vn_partitioningScheme = [], vn_indexSpecTolerances = []\<rparr>"

text \<open>
  The outside: whether a cluster can be connected to and answers a ping with a read preference, what
  it is (under a flavor or by detection), refreshing its mongos instances, whether a connection string
  is an SRV one, adding a direct connection to it, and parsing a read preference or a duration.
\<close>

record outside =
  ou_connect :: "string \<Rightarrow> string \<Rightarrow> go_error + unit"
  ou_info :: "string \<Rightarrow> flavor option \<Rightarrow> go_error + cluster_info"
  ou_refresh :: "string \<Rightarrow> go_error + unit"
  ou_isSRV :: "string \<Rightarrow> go_error + bool"
  ou_addDirect :: "string \<Rightarrow> go_error + string"
  ou_readPreference :: "string \<Rightarrow> go_error + unit"
  ou_parseDuration :: "string \<Rightarrow> go_error + int"

definition version_at :: "int list \<Rightarrow> nat \<Rightarrow> go_error + int" where
  "version_at va i = (if i < length va then Inr (va ! i) else Inl (Panic ''index out of range''))"

definition is_version_supported :: "int list \<Rightarrow> go_error + bool" where
  "is_version_supported version = rbind (version_at version 0) (\<lambda>major. Inr (major \<ge> 4))"

definition check_uri_against_server_version :: "outside \<Rightarrow> string \<Rightarrow> cluster_info \<Rightarrow> go_error + unit" where
  "check_uri_against_server_version ou uri ci =
     rbind (version_at (ci_VersionArray ci) 0) (\<lambda>major.
       if major \<ge> 5 then Inr ()
       else rbind (ou_isSRV ou uri) (\<lambda>srv.
         if srv then Inl (Err ''SRV connection string is forbidden for pre-v5 clusters'') else Inr ()))"

definition maybe_refresh_mongoses :: "outside \<Rightarrow> string \<Rightarrow> cluster_info \<Rightarrow> go_error + unit" where
  "maybe_refresh_mongoses ou uri ci = rbind (version_at (ci_VersionArray ci) 0) (\<lambda>major.
     if major < 5 \<and> ci_Topology ci = TopologySharded then ou_refresh ou uri else Inr ())"

definition flavor_override :: "string \<Rightarrow> flavor option" where
  "flavor_override f = (if f = ''mongodb'' then Some FlavorMongoDB else if f = ''documentdb'' then Some FlavorDocumentDB else None)"

definition set_src_uri :: "outside \<Rightarrow> string \<Rightarrow> verifier_settings \<Rightarrow> go_error + verifier_settings" where
  "set_src_uri ou uri v =
     rbind (ou_connect ou uri (vn_readPreferenceMode v)) (\<lambda>_.
     rbind (ou_info ou uri (flavor_override (vn_srcFlavor v))) (\<lambda>ci.
     rbind (if is_documentdb (ci_Flavor ci) then check_documentdb_read_preference (vn_readPreferenceMode v) else Inr ()) (\<lambda>_.
     rbind (maybe_refresh_mongoses ou uri ci) (\<lambda>_.
     rbind (is_version_supported (ci_VersionArray ci)) (\<lambda>supported.
       if \<not> supported then Inl (Err ''unsupported source version'')
       else rbind (check_uri_against_server_version ou uri ci) (\<lambda>_.
         Inr (v\<lparr>vn_srcURI := uri, vn_srcClusterInfo := Some ci\<rparr>)))))))"

definition set_dst_uri :: "outside \<Rightarrow> string \<Rightarrow> verifier_settings \<Rightarrow> go_error + verifier_settings" where
  "set_dst_uri ou uri v =
     rbind (ou_connect ou uri (vn_readPreferenceMode v)) (\<lambda>_.
     rbind (ou_info ou uri None) (\<lambda>ci.
     rbind (is_version_supported (ci_VersionArray ci)) (\<lambda>supported.
       if \<not> supported then Inl (Err ''unsupported destination version'')
       else rbind (maybe_refresh_mongoses ou uri ci) (\<lambda>_.
            rbind (check_uri_against_server_version ou uri ci) (\<lambda>_.
              Inr (v\<lparr>vn_dstClusterInfo := Some ci\<rparr>))))))"

definition set_meta_uri :: "outside \<Rightarrow> string \<Rightarrow> verifier_settings \<Rightarrow> go_error + verifier_settings" where
  "set_meta_uri ou uri v =
     rbind (ou_connect ou uri ''primary'') (\<lambda>_.
     rbind (ou_info ou uri None) (\<lambda>ci.
       if is_documentdb (ci_Flavor ci) then Inl (Err ''the metadata cluster may not be DocumentDB'')
       else Inr (v\<lparr>vn_metaURI := uri, vn_metaClusterInfo := Some ci\<rparr>)))"

definition set_num_workers :: "int \<Rightarrow> verifier_settings \<Rightarrow> go_error + verifier_settings" where
  "set_num_workers arg v = (if arg < 1 then Inl (Err ''need >=1 worker'') else Inr (v\<lparr>vn_numWorkers := arg\<rparr>))"

text \<open>The size is cut to 32 bits before it is multiplied as a 64-bit number.\<close>

definition set_partition_size_mb :: "u32 \<Rightarrow> verifier_settings \<Rightarrow> verifier_settings" where
  "set_partition_size_mb partitionSizeMB v = v\<lparr>vn_partitionSizeInBytes := ucast partitionSizeMB * 1024 * 1024\<rparr>"

definition set_read_preference :: "outside \<Rightarrow> string \<Rightarrow> verifier_settings \<Rightarrow> go_error + verifier_settings" where
  "set_read_preference ou arg v = rbind (ou_readPreference ou arg) (\<lambda>_. Inr (v\<lparr>vn_readPreferenceMode := arg\<rparr>))"

definition set_src_flavor :: "string \<Rightarrow> verifier_settings \<Rightarrow> go_error + verifier_settings" where
  "set_src_flavor f v = (if f \<noteq> ''auto'' \<and> f \<notin> {''mongodb'', ''documentdb''} then Inl (Err ''invalid source flavor'')
     else Inr (v\<lparr>vn_srcFlavor := f\<rparr>))"

definition set_pprof_interval :: "outside \<Rightarrow> string \<Rightarrow> verifier_settings \<Rightarrow> go_error + verifier_settings" where
  "set_pprof_interval ou arg v = (if arg = [] then Inr v
     else rbind (ou_parseDuration ou arg) (\<lambda>interval. Inr (v\<lparr>vn_pprofInterval := interval\<rparr>)))"

definition validate_change_reader_opt :: "string \<Rightarrow> cluster_info \<Rightarrow> go_error + unit" where
  "validate_change_reader_opt method ci =
     (if method = ''tailOplog''
      then if ci_Topology ci = TopologySharded then Inl (Err ''cannot read oplog from sharded cluster'')
           else if is_documentdb (ci_Flavor ci) then Inl (Err ''change reader tailOplog is not supported when the source is DocumentDB'')
           else Inr ()
      else Inr ())"

definition known_info :: "cluster_info option \<Rightarrow> go_error + cluster_info" where
  "known_info ci = (case ci of None \<Rightarrow> Inl (Panic ''nil pointer dereference'') | Some c \<Rightarrow> Inr c)"

definition set_src_change_reader_method :: "string \<Rightarrow> verifier_settings \<Rightarrow> go_error + verifier_settings" where
  "set_src_change_reader_method method v = rbind (known_info (vn_srcClusterInfo v)) (\<lambda>ci.
     rbind (validate_change_reader_opt method ci) (\<lambda>_. Inr (v\<lparr>vn_srcChangeReaderMethod := method\<rparr>)))"

definition set_dst_change_reader_method :: "string \<Rightarrow> verifier_settings \<Rightarrow> go_error + verifier_settings" where
  "set_dst_change_reader_method method v = rbind (known_info (vn_dstClusterInfo v)) (\<lambda>ci.
     rbind (validate_change_reader_opt method ci) (\<lambda>_. Inr (v\<lparr>vn_dstChangeReaderMethod := method\<rparr>)))"

text \<open>The next version that supports comparison by hashed keys, unless this one does.\<close>

definition min_next_version :: "int list \<Rightarrow> go_error + int list option" where
  "min_next_version version =
     rbind (version_at version 0) (\<lambda>major.
       if major \<ge> 8 then Inr None
       else if major = 7 then rbind (version_at version 2) (\<lambda>p. Inr (if p \<ge> 6 then None else Some [7, 0, 6]))
       else if major = 6 then rbind (version_at version 2) (\<lambda>p. Inr (if p \<ge> 14 then None else Some [6, 0, 14]))
       else if major = 5 then rbind (version_at version 2) (\<lambda>p. Inr (if p \<ge> 25 then None else Some [5, 0, 25]))
       else if major = 4 then rbind (version_at version 1) (\<lambda>minor.
         if minor = 4 then rbind (version_at version 2) (\<lambda>p. Inr (if p \<ge> 29 then None else Some [4, 4, 29]))
         else Inr (Some [4, 4, 29]))
       else Inr (Some [4, 4, 29]))"

definition set_doc_compare_method :: "string \<Rightarrow> verifier_settings \<Rightarrow> go_error + verifier_settings" where
  "set_doc_compare_method method v =
     rbind (known_info (vn_srcClusterInfo v)) (\<lambda>srcInfo.
     rbind (known_info (vn_dstClusterInfo v)) (\<lambda>dstInfo.
       if method \<notin> set compare_methods then Inl (Err ''invalid doc compare method'')
       else rbind (if method \<noteq> ''toHashedIndexKey'' then Inr ()
                   else if is_documentdb (ci_Flavor srcInfo)
                   then Inl (Err ''document comparison mode toHashedIndexKey is not supported when the source is DocumentDB'')
                   else rbind (min_next_version (ci_VersionArray srcInfo)) (\<lambda>srcMin.
                        if srcMin \<noteq> None then Inl (Err ''source version is too old'')
                        else rbind (min_next_version (ci_VersionArray dstInfo)) (\<lambda>dstMin.
                             if dstMin \<noteq> None then Inl (Err ''destination version is too old'') else Inr ()))) (\<lambda>_.
              Inr (v\<lparr>vn_docCompareMethod := method\<rparr>))))"

section \<open>The command line\<close>

fun split_commas :: "string \<Rightarrow> string list" where
  "split_commas [] = [[]]"
| "split_commas (c # cs) = (if c = CHR '','' then [] # split_commas cs
     else case split_commas cs of [] \<Rightarrow> [[c]] | w # ws \<Rightarrow> (c # w) # ws)"

definition trim_blanks :: "string \<Rightarrow> string" where
  "trim_blanks s = (let blank = (\<lambda>c. c = CHR '' '' \<or> c = CHR 0x09) in rev (dropWhile blank (rev (dropWhile blank s))))"

definition expand_comma_separators :: "string list \<Rightarrow> string list" where
  "expand_comma_separators xs = concat (map (\<lambda>ns. map trim_blanks (split_commas ns)) xs)"

definition handle_log_level_arg :: "cli_args \<Rightarrow> go_error + string" where
  "handle_log_level_arg a = (if ca_logLevel a \<notin> set logLevelStrs then Inl (Err ''invalid logLevel'') else Inr (ca_logLevel a))"

definition set_partition_arg :: "cli_args \<Rightarrow> verifier_settings \<Rightarrow> go_error + verifier_settings" where
  "set_partition_arg a v =
     (if ca_partitionSizeMB a \<noteq> 0 \<and> ca_partitionSizeMB a > 2 ^ 63 - 1 then Inl (Err ''partitionSizeMB may not exceed 9223372036854775807'')
      else Inr (set_partition_size_mb (ucast (if ca_partitionSizeMB a \<noteq> 0 then ca_partitionSizeMB a else DefaultPartitionMiB)) v))"

definition set_namespace_args :: "cli_args \<Rightarrow> verifier_settings \<Rightarrow> go_error + verifier_settings" where
  "set_namespace_args a v =
     (if ca_verifyAll a
      then if ca_srcNamespace a \<noteq> [] \<or> ca_dstNamespace a \<noteq> []
           then Inl (Err ''Setting both verifyAll and explicit namespaces is not supported'')
           else Inr (v\<lparr>vn_verifyAll := True\<rparr>)
      else let srcs = expand_comma_separators (ca_srcNamespace a); dsts = expand_comma_separators (ca_dstNamespace a)
           in rbind (populate_with_namespaces (vn_nsMap v) srcs dsts) (\<lambda>m.
                Inr (v\<lparr>vn_srcNamespaces := srcs, vn_dstNamespaces := dsts, vn_nsMap := m\<rparr>)))"

definition set_tolerance_args :: "cli_args \<Rightarrow> verifier_settings \<Rightarrow> go_error + verifier_settings" where
  "set_tolerance_args a v =
     (if ca_indexSpecIgnore a = [] then Inr v
      else let tolerances = expand_comma_separators (ca_indexSpecIgnore a)
           in if filter (\<lambda>t. t \<notin> set IndexMismatchTolerances) tolerances \<noteq> [] then Inl (Err ''invalid indexSpecIgnore value(s)'')
              else Inr (v\<lparr>vn_indexSpecTolerances := tolerances\<rparr>))"

definition one_of :: "string list \<Rightarrow> string \<Rightarrow> string \<Rightarrow> go_error + unit" where
  "one_of opts what x = (if x \<in> set opts then Inr () else Inl (Err (''invalid '' @ what)))"

definition set_clusters :: "outside \<Rightarrow> cli_args \<Rightarrow> verifier_settings \<Rightarrow> go_error + verifier_settings" where
  "set_clusters ou a v =
     rbind (set_read_preference ou (ca_readPreference a) v) (\<lambda>v.
     rbind (one_of srcFlavorStrs ''srcFlavor'' (ca_srcFlavor a)) (\<lambda>_.
     rbind (set_src_flavor (ca_srcFlavor a) v) (\<lambda>v.
     rbind (ou_addDirect ou (ca_srcURI a)) (\<lambda>srcConnStr.
     rbind (set_src_uri ou srcConnStr v) (\<lambda>v.
     rbind (ou_addDirect ou (ca_dstURI a)) (\<lambda>dstConnStr.
     rbind (set_dst_uri ou dstConnStr v) (\<lambda>v.
     rbind (if ca_metaURI a = [] then Inr dstConnStr else ou_addDirect ou (ca_metaURI a)) (\<lambda>metaConnStr.
       set_meta_uri ou metaConnStr v))))))))"

definition set_methods :: "cli_args \<Rightarrow> verifier_settings \<Rightarrow> go_error + verifier_settings" where
  "set_methods a v =
     rbind (one_of ChangeReaderOpts ''srcChangeReader'' (ca_srcChangeReader a)) (\<lambda>_.
     rbind (set_src_change_reader_method (ca_srcChangeReader a) v) (\<lambda>v.
     rbind (one_of ChangeReaderOpts ''dstChangeReader'' (ca_dstChangeReader a)) (\<lambda>_.
     rbind (set_dst_change_reader_method (ca_dstChangeReader a) v) (\<lambda>v.
     rbind (one_of DDLHandlingOpts ''ddlHandling'' (ca_ddlHandling a)) (\<lambda>_.
     rbind (set_doc_compare_method (ca_docCompareMethod a) (v\<lparr>vn_ddlHandling := ca_ddlHandling a\<rparr>)) (\<lambda>v.
     rbind (one_of Schemes ''partitioning scheme'' (ca_partitioningScheme a)) (\<lambda>_.
       Inr (v\<lparr>vn_partitioningScheme := ca_partitioningScheme a\<rparr>))))))))"

definition handle_args :: "outside \<Rightarrow> cli_args \<Rightarrow> go_error + verifier_settings" where
  "handle_args ou a =
     (if filter (\<lambda>s. s = []) [ca_srcURI a, ca_dstURI a] \<noteq> [] then Inl (Err ''missing required parameters'')
      else rbind (set_clusters ou a (new_verifier (if ca_ignoreReadConcern a then ''ignore'' else []) [])) (\<lambda>v.
           rbind (set_num_workers (ca_numWorkers a) (v\<lparr>vn_port := ca_serverPort a\<rparr>)) (\<lambda>v.
           rbind (set_pprof_interval ou (ca_pprofInterval a)
             (v\<lparr>vn_generationPauseDelay := 1000000 * ca_generationPauseDelay a, vn_workerSleepDelay := 1000000 * ca_workerSleepDelay a\<rparr>)) (\<lambda>v.
           rbind (set_partition_arg a v) (\<lambda>v.
           rbind (set_namespace_args a (v\<lparr>vn_startClean := ca_clean a\<rparr>)) (\<lambda>v.
           rbind (set_methods a (v\<lparr>vn_metaDBName := ca_metaDBName a\<rparr>)) (\<lambda>v.
             set_tolerance_args a (v\<lparr>vn_failureDisplaySize := ca_failureDisplaySize a\<rparr>))))))))"

text \<open>
  What is started then. \<open>WritesOff\<close> hands its times to the change readers, which only \<open>CheckDriver\<close>
  makes: before, they are nil. The times are those of the clusters, and may not be had.
\<close>

datatype started = RunWebServer | CheckThenWebServer | CheckToTheEnd

definition signal_readers :: "'r option \<Rightarrow> 'r option \<Rightarrow> go_error + unit" where
  "signal_readers srcReader dstReader =
     (if srcReader = None \<or> dstReader = None then Inl (Panic ''nil pointer dereference'') else Inr ())"

definition writes_off_call :: "go_error + timestamp \<Rightarrow> go_error + timestamp \<Rightarrow> 'r option \<times> 'r option \<Rightarrow> bool
     \<Rightarrow> (go_error + unit) \<times> bool" where
  "writes_off_call srcTime dstTime readers writesOff =
     (if writesOff then (Inl (Err ''writesOff already set''), True)
      else (rbind srcTime (\<lambda>_. rbind dstTime (\<lambda>_. signal_readers (fst readers) (snd readers))), True))"

definition main_action :: "outside \<Rightarrow> go_error + timestamp \<Rightarrow> go_error + timestamp \<Rightarrow> cli_args \<Rightarrow> go_error + started" where
  "main_action ou srcTime dstTime a =
     rbind (handle_args ou a) (\<lambda>v.
     rbind (handle_log_level_arg a) (\<lambda>_.
       if ca_checkOnly a
       then rbind (fst (writes_off_call srcTime dstTime (None :: unit option, None) False)) (\<lambda>_. Inr CheckToTheEnd)
       else Inr (if ca_start a then CheckThenWebServer else RunWebServer)))"

section \<open>What the settings can be\<close>

definition major_version :: "cluster_info \<Rightarrow> int" where
  "major_version ci = hd (ci_VersionArray ci)"

lemma version_at_0: "version_at va 0 = Inr m \<longleftrightarrow> va \<noteq> [] \<and> m = hd va"
  by (cases va) (auto simp: version_at_def)

lemma one_of_Inr [simp]: "one_of opts what x = Inr u \<longleftrightarrow> x \<in> set opts"
  by (simp add: one_of_def)

lemma version_supported: "is_version_supported (ci_VersionArray ci) = Inr True \<Longrightarrow> major_version ci \<ge> 4"
  by (simp add: is_version_supported_def rbind_eq_Inr version_at_0 major_version_def)

lemma uri_checked:
  "check_uri_against_server_version ou uri ci = Inr u \<Longrightarrow> major_version ci < 5 \<Longrightarrow> ou_isSRV ou uri = Inr False"
  by (auto simp: check_uri_against_server_version_def rbind_eq_Inr version_at_0 major_version_def split: if_splits)

lemma mongoses_refreshed:
  "maybe_refresh_mongoses ou uri ci = Inr u \<Longrightarrow> major_version ci < 5 \<Longrightarrow> ci_Topology ci = TopologySharded \<Longrightarrow> is_ok (ou_refresh ou uri)"
  by (auto simp: maybe_refresh_mongoses_def rbind_eq_Inr version_at_0 major_version_def split: if_splits)

lemma read_preference_checked: "check_documentdb_read_preference m = Inr u \<Longrightarrow> m = ''primary'' \<or> m = ''primaryPreferred''"
  by (simp add: check_documentdb_read_preference_def split: if_splits)

lemma set_src_uri_ok:
  assumes "set_src_uri ou uri v = Inr v'"
  shows "\<exists>ci. v' = v\<lparr>vn_srcURI := uri, vn_srcClusterInfo := Some ci\<rparr> \<and> major_version ci \<ge> 4
    \<and> (is_documentdb (ci_Flavor ci) \<longrightarrow> vn_readPreferenceMode v = ''primary'' \<or> vn_readPreferenceMode v = ''primaryPreferred'')
    \<and> (major_version ci < 5 \<longrightarrow> ou_isSRV ou uri = Inr False \<and> (ci_Topology ci = TopologySharded \<longrightarrow> is_ok (ou_refresh ou uri)))"
proof -
  from assms obtain ci supported u1 u2 where
    c: "(if is_documentdb (ci_Flavor ci) then check_documentdb_read_preference (vn_readPreferenceMode v) else Inr ()) = Inr u1"
      "maybe_refresh_mongoses ou uri ci = Inr u2" "is_version_supported (ci_VersionArray ci) = Inr supported"
      "(if \<not> supported then Inl (Err ''unsupported source version'')
        else rbind (check_uri_against_server_version ou uri ci) (\<lambda>_. Inr (v\<lparr>vn_srcURI := uri, vn_srcClusterInfo := Some ci\<rparr>))) = Inr v'"
    unfolding set_src_uri_def rbind_eq_Inr by blast
  from c(4) have s: "supported" "check_uri_against_server_version ou uri ci = Inr ()" "v' = v\<lparr>vn_srcURI := uri, vn_srcClusterInfo := Some ci\<rparr>"
    by (simp_all add: rbind_eq_Inr split: if_splits)
  have p: "vn_readPreferenceMode v = ''primary'' \<or> vn_readPreferenceMode v = ''primaryPreferred''" if "is_documentdb (ci_Flavor ci)"
    using c(1) that by (intro read_preference_checked [of _ u1]) simp
  from c(3) s(1) have "is_version_supported (ci_VersionArray ci) = Inr True" by simp
  from version_supported [OF this] uri_checked [OF s(2)] mongoses_refreshed [OF c(2)] p s(3) show ?thesis by blast
qed

lemma set_dst_uri_ok:
  assumes "set_dst_uri ou uri v = Inr v'"
  shows "\<exists>ci. v' = v\<lparr>vn_dstClusterInfo := Some ci\<rparr> \<and> major_version ci \<ge> 4
    \<and> (major_version ci < 5 \<longrightarrow> ou_isSRV ou uri = Inr False \<and> (ci_Topology ci = TopologySharded \<longrightarrow> is_ok (ou_refresh ou uri)))"
proof -
  from assms obtain ci supported where
    c: "is_version_supported (ci_VersionArray ci) = Inr supported"
      "(if \<not> supported then Inl (Err ''unsupported destination version'')
        else rbind (maybe_refresh_mongoses ou uri ci) (\<lambda>_. rbind (check_uri_against_server_version ou uri ci) (\<lambda>_.
          Inr (v\<lparr>vn_dstClusterInfo := Some ci\<rparr>)))) = Inr v'"
    unfolding set_dst_uri_def rbind_eq_Inr by blast
  from c(2) have s: "supported" "maybe_refresh_mongoses ou uri ci = Inr ()" "check_uri_against_server_version ou uri ci = Inr ()"
    "v' = v\<lparr>vn_dstClusterInfo := Some ci\<rparr>"
    by (simp_all add: rbind_eq_Inr split: if_splits)
  from c(1) s(1) have "is_version_supported (ci_VersionArray ci) = Inr True" by simp
  from version_supported [OF this] uri_checked [OF s(3)] mongoses_refreshed [OF s(2)] s(4) show ?thesis by blast
qed

text \<open>What has been learnt of the clusters.\<close>

definition clusters_ok :: "outside \<Rightarrow> verifier_settings \<Rightarrow> cluster_info \<Rightarrow> cluster_info \<Rightarrow> bool" where
  "clusters_ok ou v s d \<longleftrightarrow> vn_srcClusterInfo v = Some s \<and> vn_dstClusterInfo v = Some d
     \<and> major_version s \<ge> 4 \<and> major_version d \<ge> 4
     \<and> (major_version s < 5 \<longrightarrow> ou_isSRV ou (vn_srcURI v) = Inr False)
     \<and> (is_documentdb (ci_Flavor s) \<longrightarrow> vn_readPreferenceMode v = ''primary'' \<or> vn_readPreferenceMode v = ''primaryPreferred'')
     \<and> (\<exists>m. vn_metaClusterInfo v = Some m \<and> \<not> is_documentdb (ci_Flavor m))"

lemma set_clusters_ok:
  assumes "set_clusters ou a v = Inr v'"
  shows "\<exists>s d. clusters_ok ou v' s d" and "vn_nsMap v' = vn_nsMap v" "vn_verifyAll v' = vn_verifyAll v"
    "vn_indexSpecTolerances v' = vn_indexSpecTolerances v"
proof -
  from assms obtain v0 v1 v2 v3 srcU dstU metaU where
    r: "set_read_preference ou (ca_readPreference a) v = Inr v0" "set_src_flavor (ca_srcFlavor a) v0 = Inr v1"
    and u: "set_src_uri ou srcU v1 = Inr v2" "set_dst_uri ou dstU v2 = Inr v3" "set_meta_uri ou metaU v3 = Inr v'"
    unfolding set_clusters_def rbind_eq_Inr by blast
  from set_src_uri_ok [OF u(1)] obtain s where s: "v2 = v1\<lparr>vn_srcURI := srcU, vn_srcClusterInfo := Some s\<rparr>" "major_version s \<ge> 4"
    "is_documentdb (ci_Flavor s) \<longrightarrow> vn_readPreferenceMode v1 = ''primary'' \<or> vn_readPreferenceMode v1 = ''primaryPreferred''"
    "major_version s < 5 \<longrightarrow> ou_isSRV ou srcU = Inr False" by blast
  from set_dst_uri_ok [OF u(2)] obtain d where d: "v3 = v2\<lparr>vn_dstClusterInfo := Some d\<rparr>" "major_version d \<ge> 4" by blast
  from u(3) obtain m where m: "v' = v3\<lparr>vn_metaURI := metaU, vn_metaClusterInfo := Some m\<rparr>" "\<not> is_documentdb (ci_Flavor m)"
    by (auto simp: set_meta_uri_def rbind_eq_Inr split: if_splits)
  have "clusters_ok ou v' s d" using s d m by (simp add: clusters_ok_def)
  then show "\<exists>s d. clusters_ok ou v' s d" by blast
  have "vn_nsMap v1 = vn_nsMap v" "vn_verifyAll v1 = vn_verifyAll v" "vn_indexSpecTolerances v1 = vn_indexSpecTolerances v"
    using r by (auto simp: set_read_preference_def set_src_flavor_def rbind_eq_Inr split: if_splits)
  then show "vn_nsMap v' = vn_nsMap v" "vn_verifyAll v' = vn_verifyAll v" "vn_indexSpecTolerances v' = vn_indexSpecTolerances v" by (simp_all add: m(1) d(1) s(1))
qed

lemma set_src_change_reader_ok:
  assumes "set_src_change_reader_method method v = Inr v'"
  shows "\<exists>s. vn_srcClusterInfo v = Some s \<and> v' = v\<lparr>vn_srcChangeReaderMethod := method\<rparr>
    \<and> (method = ''tailOplog'' \<longrightarrow> ci_Topology s \<noteq> TopologySharded \<and> \<not> is_documentdb (ci_Flavor s))"
  using assms by (auto simp: set_src_change_reader_method_def known_info_def rbind_eq_Inr validate_change_reader_opt_def
    split: option.splits if_splits)

lemma set_dst_change_reader_ok:
  assumes "set_dst_change_reader_method method v = Inr v'"
  shows "\<exists>d. vn_dstClusterInfo v = Some d \<and> v' = v\<lparr>vn_dstChangeReaderMethod := method\<rparr>
    \<and> (method = ''tailOplog'' \<longrightarrow> ci_Topology d \<noteq> TopologySharded \<and> \<not> is_documentdb (ci_Flavor d))"
  using assms by (auto simp: set_dst_change_reader_method_def known_info_def rbind_eq_Inr validate_change_reader_opt_def
    split: option.splits if_splits)

lemma set_doc_compare_ok:
  assumes "set_doc_compare_method method v = Inr v'"
  shows "\<exists>s d. vn_srcClusterInfo v = Some s \<and> vn_dstClusterInfo v = Some d \<and> v' = v\<lparr>vn_docCompareMethod := method\<rparr>
    \<and> method \<in> set compare_methods
    \<and> (method = ''toHashedIndexKey'' \<longrightarrow> \<not> is_documentdb (ci_Flavor s)
         \<and> min_next_version (ci_VersionArray s) = Inr None \<and> min_next_version (ci_VersionArray d) = Inr None)"
  using assms by (auto simp: set_doc_compare_method_def known_info_def rbind_eq_Inr split: option.splits if_splits)

text \<open>What the choice of methods promises of the clusters.\<close>

definition methods_ok :: "verifier_settings \<Rightarrow> cluster_info \<Rightarrow> cluster_info \<Rightarrow> bool" where
  "methods_ok v s d \<longleftrightarrow> vn_srcChangeReaderMethod v \<in> set ChangeReaderOpts \<and> vn_dstChangeReaderMethod v \<in> set ChangeReaderOpts
     \<and> vn_ddlHandling v \<in> set DDLHandlingOpts \<and> vn_docCompareMethod v \<in> set compare_methods \<and> vn_partitioningScheme v \<in> set Schemes
     \<and> (vn_srcChangeReaderMethod v = ''tailOplog'' \<longrightarrow> ci_Topology s \<noteq> TopologySharded \<and> \<not> is_documentdb (ci_Flavor s))
     \<and> (vn_dstChangeReaderMethod v = ''tailOplog'' \<longrightarrow> ci_Topology d \<noteq> TopologySharded \<and> \<not> is_documentdb (ci_Flavor d))
     \<and> (vn_docCompareMethod v = ''toHashedIndexKey'' \<longrightarrow> \<not> is_documentdb (ci_Flavor s)
          \<and> min_next_version (ci_VersionArray s) = Inr None \<and> min_next_version (ci_VersionArray d) = Inr None)"

lemma set_methods_ok:
  assumes "set_methods a v = Inr v'" "clusters_ok ou v s d"
  shows "methods_ok v' s d \<and> v' = v\<lparr>vn_srcChangeReaderMethod := ca_srcChangeReader a, vn_dstChangeReaderMethod := ca_dstChangeReader a,
      vn_ddlHandling := ca_ddlHandling a, vn_docCompareMethod := ca_docCompareMethod a, vn_partitioningScheme := ca_partitioningScheme a\<rparr>"
proof -
  from assms(1) obtain v1 v2 v3 where v: "ca_srcChangeReader a \<in> set ChangeReaderOpts" "ca_dstChangeReader a \<in> set ChangeReaderOpts"
    "ca_ddlHandling a \<in> set DDLHandlingOpts" "ca_partitioningScheme a \<in> set Schemes"
    "set_src_change_reader_method (ca_srcChangeReader a) v = Inr v1" "set_dst_change_reader_method (ca_dstChangeReader a) v1 = Inr v2"
    "set_doc_compare_method (ca_docCompareMethod a) (v2\<lparr>vn_ddlHandling := ca_ddlHandling a\<rparr>) = Inr v3"
    "v' = v3\<lparr>vn_partitioningScheme := ca_partitioningScheme a\<rparr>"
    unfolding set_methods_def rbind_eq_Inr one_of_Inr by blast
  have c: "vn_srcClusterInfo v = Some s" "vn_dstClusterInfo v = Some d" using assms(2) by (simp_all add: clusters_ok_def)
  from set_src_change_reader_ok [OF v(5)] c have r1: "v1 = v\<lparr>vn_srcChangeReaderMethod := ca_srcChangeReader a\<rparr>"
    "ca_srcChangeReader a = ''tailOplog'' \<longrightarrow> ci_Topology s \<noteq> TopologySharded \<and> \<not> is_documentdb (ci_Flavor s)" by auto
  from set_dst_change_reader_ok [OF v(6)] c r1(1) have r2: "v2 = v1\<lparr>vn_dstChangeReaderMethod := ca_dstChangeReader a\<rparr>"
    "ca_dstChangeReader a = ''tailOplog'' \<longrightarrow> ci_Topology d \<noteq> TopologySharded \<and> \<not> is_documentdb (ci_Flavor d)" by auto
  from set_doc_compare_ok [OF v(7)] c r1(1) r2(1) have r3: "v3 = v2\<lparr>vn_ddlHandling := ca_ddlHandling a, vn_docCompareMethod := ca_docCompareMethod a\<rparr>"
    "ca_docCompareMethod a \<in> set compare_methods"
    "ca_docCompareMethod a = ''toHashedIndexKey'' \<longrightarrow> \<not> is_documentdb (ci_Flavor s)
      \<and> min_next_version (ci_VersionArray s) = Inr None \<and> min_next_version (ci_VersionArray d) = Inr None" by auto
  have "v' = v\<lparr>vn_srcChangeReaderMethod := ca_srcChangeReader a, vn_dstChangeReaderMethod := ca_dstChangeReader a,
      vn_ddlHandling := ca_ddlHandling a, vn_docCompareMethod := ca_docCompareMethod a, vn_partitioningScheme := ca_partitioningScheme a\<rparr>"
    unfolding v(8) r3(1) r2(1) r1(1) by simp
  with v(1-4) r1(2) r2(2) r3(2,3) show ?thesis by (simp add: methods_ok_def)
qed

text \<open>The other steps change only what they set.\<close>

lemma set_partition_ok:
  assumes "set_partition_arg a v = Inr v'"
  shows "v' = v\<lparr>vn_partitionSizeInBytes := ucast (ucast (if ca_partitionSizeMB a \<noteq> 0 then ca_partitionSizeMB a else 400) :: u32) * 1024 * 1024\<rparr>"
  using assms by (simp add: set_partition_arg_def set_partition_size_mb_def DefaultPartitionMiB_def split: if_splits)

definition namespaces_ok :: "cli_args \<Rightarrow> verifier_settings \<Rightarrow> bool" where
  "namespaces_ok a v \<longleftrightarrow> (if vn_verifyAll v then ca_srcNamespace a = [] \<and> ca_dstNamespace a = []
     else vn_srcNamespaces v = expand_comma_separators (ca_srcNamespace a)
       \<and> vn_dstNamespaces v = expand_comma_separators (ca_dstNamespace a)
       \<and> length (vn_srcNamespaces v) = length (vn_dstNamespaces v)
       \<and> distinct (vn_srcNamespaces v) \<and> distinct (vn_dstNamespaces v)
       \<and> (\<forall>i < length (vn_srcNamespaces v). get_dst_namespace (vn_nsMap v) (vn_srcNamespaces v ! i) = Some (vn_dstNamespaces v ! i)))"

lemma populated_map:
  assumes "populate_with_namespaces new_nsmap srcs dsts = Inr m"
  shows "length srcs = length dsts \<and> distinct srcs \<and> distinct dsts
    \<and> (\<forall>i < length srcs. get_dst_namespace m (srcs ! i) = Some (dsts ! i))"
proof -
  from assms have l: "length srcs = length dsts" and r: "rfold populate_step new_nsmap (zip srcs dsts) = Inr m"
    by (auto simp: populate_with_namespaces_def split: if_splits)
  have "nsmap_inv new_nsmap" by (simp add: nsmap_inv_def new_nsmap_def)
  from rfold_populate_ok_iff [OF this, of "zip srcs dsts"] r l have d: "distinct srcs" "distinct dsts"
    by (simp_all add: map_fst_zip map_snd_zip)
  have "src_dst m = rev (zip srcs dsts)" using rfold_populate_keys [OF r] by (simp add: new_nsmap_def)
  moreover have "map_of (rev (zip srcs dsts)) (srcs ! i) = Some (dsts ! i)" if "i < length srcs" for i
    using that l d(1) by (intro map_of_is_SomeI) (auto simp: map_fst_zip rev_map [symmetric] set_zip intro!: exI [of _ i])
  ultimately show ?thesis using l d by (simp add: get_dst_namespace_def)
qed

definition kept_settings :: "verifier_settings \<Rightarrow> string \<times> cluster_info option \<times> cluster_info option \<times> cluster_info option \<times> string" where
  "kept_settings v = (vn_srcURI v, vn_srcClusterInfo v, vn_dstClusterInfo v, vn_metaClusterInfo v, vn_readPreferenceMode v)"

lemma clusters_ok_kept: "kept_settings v' = kept_settings v \<Longrightarrow> clusters_ok ou v s d \<Longrightarrow> clusters_ok ou v' s d"
  by (simp add: kept_settings_def clusters_ok_def)

lemma set_namespace_ok:
  assumes "set_namespace_args a v = Inr v'" "vn_nsMap v = new_nsmap" "\<not> vn_verifyAll v"
  shows "namespaces_ok a v'" "kept_settings v' = kept_settings v" "vn_numWorkers v' = vn_numWorkers v"
    "vn_indexSpecTolerances v' = vn_indexSpecTolerances v" "vn_partitionSizeInBytes v' = vn_partitionSizeInBytes v"
proof -
  have "namespaces_ok a v' \<and> kept_settings v' = kept_settings v \<and> vn_numWorkers v' = vn_numWorkers v
    \<and> vn_indexSpecTolerances v' = vn_indexSpecTolerances v \<and> vn_partitionSizeInBytes v' = vn_partitionSizeInBytes v"
  proof (cases "ca_verifyAll a")
    case True
    with assms(1) have "ca_srcNamespace a = []" "ca_dstNamespace a = []" "v' = v\<lparr>vn_verifyAll := True\<rparr>"
      by (auto simp: set_namespace_args_def split: if_splits)
    then show ?thesis by (simp add: namespaces_ok_def kept_settings_def)
  next
    case False
    let ?srcs = "expand_comma_separators (ca_srcNamespace a)" and ?dsts = "expand_comma_separators (ca_dstNamespace a)"
    from False assms(1,2) obtain m where m: "populate_with_namespaces new_nsmap ?srcs ?dsts = Inr m"
      "v' = v\<lparr>vn_srcNamespaces := ?srcs, vn_dstNamespaces := ?dsts, vn_nsMap := m\<rparr>"
      by (auto simp: set_namespace_args_def rbind_eq_Inr Let_def)
    from populated_map [OF m(1)] assms(3) show ?thesis by (simp add: m(2) namespaces_ok_def kept_settings_def)
  qed
  then show "namespaces_ok a v'" "kept_settings v' = kept_settings v" "vn_numWorkers v' = vn_numWorkers v"
    "vn_indexSpecTolerances v' = vn_indexSpecTolerances v" "vn_partitionSizeInBytes v' = vn_partitionSizeInBytes v" by simp_all
qed

lemma set_pprof_ok:
  assumes "set_pprof_interval ou arg v = Inr v'"
  shows "kept_settings v' = kept_settings v" "vn_numWorkers v' = vn_numWorkers v" "vn_nsMap v' = vn_nsMap v"
    "vn_verifyAll v' = vn_verifyAll v" "vn_indexSpecTolerances v' = vn_indexSpecTolerances v"
  using assms by (auto simp: set_pprof_interval_def rbind_eq_Inr kept_settings_def split: if_splits)

lemma set_workers_ok:
  assumes "set_num_workers n v = Inr v'"
  shows "v' = v\<lparr>vn_numWorkers := n\<rparr>" "n \<ge> 1"
  using assms by (auto simp: set_num_workers_def split: if_splits)

lemma set_tolerance_ok:
  assumes "set_tolerance_args a v = Inr v'" "vn_indexSpecTolerances v = []"
  shows "\<exists>ts. v' = v\<lparr>vn_indexSpecTolerances := ts\<rparr> \<and> set ts \<subseteq> set IndexMismatchTolerances \<or> v' = v"
  using assms by (auto simp: set_tolerance_args_def Let_def filter_empty_conv split: if_splits)

lemma handle_args_ok:
  assumes "handle_args ou a = Inr v"
  shows "\<exists>s d. clusters_ok ou v s d \<and> methods_ok v s d \<and> namespaces_ok a v \<and> vn_numWorkers v \<ge> 1
    \<and> set (vn_indexSpecTolerances v) \<subseteq> set IndexMismatchTolerances
    \<and> vn_partitionSizeInBytes v = ucast (ucast (if ca_partitionSizeMB a \<noteq> 0 then ca_partitionSizeMB a else 400) :: u32) * 1024 * 1024"
proof -
  let ?v = "new_verifier (if ca_ignoreReadConcern a then ''ignore'' else []) []"
  from assms obtain v0 v1 v2 v3 v4 v5 where
    c: "set_clusters ou a ?v = Inr v0"
    and w: "set_num_workers (ca_numWorkers a) (v0\<lparr>vn_port := ca_serverPort a\<rparr>) = Inr v1"
    and p: "set_pprof_interval ou (ca_pprofInterval a)
        (v1\<lparr>vn_generationPauseDelay := 1000000 * ca_generationPauseDelay a, vn_workerSleepDelay := 1000000 * ca_workerSleepDelay a\<rparr>) = Inr v2"
    and z: "set_partition_arg a v2 = Inr v3"
    and n: "set_namespace_args a (v3\<lparr>vn_startClean := ca_clean a\<rparr>) = Inr v4"
    and m: "set_methods a (v4\<lparr>vn_metaDBName := ca_metaDBName a\<rparr>) = Inr v5"
    and t: "set_tolerance_args a (v5\<lparr>vn_failureDisplaySize := ca_failureDisplaySize a\<rparr>) = Inr v"
    unfolding handle_args_def by (auto simp: rbind_eq_Inr split: if_splits)
  obtain s d where cl: "clusters_ok ou v0 s d" using set_clusters_ok(1) [OF c] by blast
  note n0 = set_clusters_ok(2-4) [OF c]
  note w1 = set_workers_ok [OF w] and p1 = set_pprof_ok [OF p] and z1 = set_partition_ok [OF z]
  have v3: "vn_nsMap v3 = new_nsmap" "\<not> vn_verifyAll v3" "vn_indexSpecTolerances v3 = []" "vn_numWorkers v3 \<ge> 1"
      "kept_settings v3 = kept_settings v0"
    using n0 w1 p1 by (simp_all add: z1 kept_settings_def new_verifier_def)
  have "vn_nsMap (v3\<lparr>vn_startClean := ca_clean a\<rparr>) = new_nsmap" "\<not> vn_verifyAll (v3\<lparr>vn_startClean := ca_clean a\<rparr>)"
    using v3 by simp_all
  note n1 = set_namespace_ok [OF n this]
  have "kept_settings (v4\<lparr>vn_metaDBName := ca_metaDBName a\<rparr>) = kept_settings v0" using n1(2) v3(5) by (simp add: kept_settings_def)
  from clusters_ok_kept [OF this cl] have c4: "clusters_ok ou (v4\<lparr>vn_metaDBName := ca_metaDBName a\<rparr>) s d" .
  from set_methods_ok [OF m c4] have m1: "methods_ok v5 s d" and
    v5: "v5 = v4\<lparr>vn_metaDBName := ca_metaDBName a, vn_srcChangeReaderMethod := ca_srcChangeReader a, vn_dstChangeReaderMethod := ca_dstChangeReader a,
      vn_ddlHandling := ca_ddlHandling a, vn_docCompareMethod := ca_docCompareMethod a, vn_partitioningScheme := ca_partitioningScheme a\<rparr>" by blast+
  let ?v5 = "v5\<lparr>vn_failureDisplaySize := ca_failureDisplaySize a\<rparr>"
  have t5: "vn_indexSpecTolerances ?v5 = []" using n1(4) v3(3) by (simp add: v5)
  have k5: "kept_settings ?v5 = kept_settings v0" using n1(2) v3(5) by (simp add: v5 kept_settings_def)
  from set_tolerance_ok [OF t t5] have v: "kept_settings v = kept_settings ?v5" "methods_ok v s d = methods_ok ?v5 s d"
    "namespaces_ok a v = namespaces_ok a ?v5" "vn_numWorkers v = vn_numWorkers ?v5" "set (vn_indexSpecTolerances v) \<subseteq> set IndexMismatchTolerances"
      "vn_partitionSizeInBytes v = vn_partitionSizeInBytes ?v5"
    using t5 by (auto simp: kept_settings_def methods_ok_def namespaces_ok_def)
  have "clusters_ok ou v s d" using clusters_ok_kept [OF _ cl] v(1) k5 by simp
  moreover have "methods_ok ?v5 s d" using m1 by (simp add: methods_ok_def)
  then have "methods_ok v s d" unfolding v(2) .
  moreover have "vn_verifyAll ?v5 = vn_verifyAll v4" "vn_srcNamespaces ?v5 = vn_srcNamespaces v4"
    "vn_dstNamespaces ?v5 = vn_dstNamespaces v4" "vn_nsMap ?v5 = vn_nsMap v4" by (simp_all add: v5)
  then have "namespaces_ok a ?v5" using n1(1) unfolding namespaces_ok_def by (simp only:)
  then have "namespaces_ok a v" unfolding v(3) .
  moreover have "vn_numWorkers v \<ge> 1" using v3(4) n1(3) by (simp add: v(4) v5)
  moreover have "vn_partitionSizeInBytes ?v5 = vn_partitionSizeInBytes v3" using n1(5) by (simp add: v5)
  then have "vn_partitionSizeInBytes v = ucast (ucast (if ca_partitionSizeMB a \<noteq> 0 then ca_partitionSizeMB a else 400) :: u32) * 1024 * 1024"
    using v(6) z1 by simp
  ultimately show ?thesis using v(5) by blast
qed

text \<open>C19: A verifier that the command line configures can verify: both clusters have a supported version, an SRV
  connection string is not used for an old source, metadata is never stored on DocumentDB, a DocumentDB
  source is read from the primary and by change streams, the oplog is tailed on replica sets only, the
  comparison by hashed keys is supported by both clusters, namespaces are given for all or are two lists
  of the same length without repetition, which are mapped position by position, and only the index options
  known to be tolerable are tolerated.\<close>

theorem configured_verifier_ok:
  assumes "handle_args ou a = Inr v"
  shows "\<exists>s d. clusters_ok ou v s d \<and> methods_ok v s d \<and> namespaces_ok a v \<and> vn_numWorkers v \<ge> 1
    \<and> set (vn_indexSpecTolerances v) \<subseteq> set IndexMismatchTolerances"
  using handle_args_ok [OF assms] by blast

definition sample_info :: "int list \<Rightarrow> cluster_info" where
  "sample_info version = \<lparr>ci_VersionArray = version, ci_Topology = TopologyReplset, ci_Flavor = FlavorMongoDB\<rparr>"

definition sample_outside :: outside where
  "sample_outside = \<lparr>ou_connect = (\<lambda>_ _. Inr ()), ou_info = (\<lambda>uri _. Inr (sample_info (if uri = ''mongodb://src'' then [7, 0, 9] else [8, 0, 0]))),
     ou_refresh = (\<lambda>_. Inr ()), ou_isSRV = (\<lambda>_. Inr False), ou_addDirect = Inr, ou_readPreference = (\<lambda>_. Inr ()),
     ou_parseDuration = (\<lambda>_. Inl (Err ''invalid duration''))\<rparr>"

definition sample_args :: cli_args where
  "sample_args = default_args\<lparr>ca_srcURI := ''mongodb://src'', ca_dstURI := ''mongodb://dst'',
     ca_srcNamespace := [''a.b, a.c'', ''d.e''], ca_dstNamespace := [''x.b'', ''x.c,x.e''], ca_docCompareMethod := ''toHashedIndexKey'',
     ca_srcChangeReader := ''tailOplog'', ca_indexSpecIgnore := [hd IndexMismatchTolerances]\<rparr>"

lemma sample_accepted: "is_ok (handle_args sample_outside sample_args)"
  by code_simp

lemma sample_settings: "\<exists>v. handle_args sample_outside sample_args = Inr v"
  using sample_accepted by (auto simp: is_ok_def split: sum.splits)

theorem configured_verifier_ok_witness: "\<exists>v s d. handle_args sample_outside sample_args = Inr v
    \<and> clusters_ok sample_outside v s d \<and> methods_ok v s d \<and> namespaces_ok sample_args v"
  using sample_settings configured_verifier_ok [of sample_outside sample_args] by metis

text \<open>The size of a partition is what the command line asks for modulo 2^32 MiB, 400 MiB when it asks for
  none: the flag is checked as a 64-bit number and then cut to 32 bits. The bytes never overflow, and are
  none at all when a positive multiple of 2^32 MiB is asked for, which the flag's check lets through.\<close>

theorem partition_size_truncated:
  assumes "handle_args ou a = Inr v"
  shows "unat (vn_partitionSizeInBytes v) =
      (if ca_partitionSizeMB a = 0 then 400 else unat (ca_partitionSizeMB a) mod 2 ^ 32) * 2 ^ 20
    \<and> (vn_partitionSizeInBytes v = 0 \<longleftrightarrow> ca_partitionSizeMB a \<noteq> 0 \<and> 2 ^ 32 dvd unat (ca_partitionSizeMB a))"
proof -
  let ?m = "if ca_partitionSizeMB a \<noteq> 0 then ca_partitionSizeMB a else (400 :: u64)"
  obtain w where w: "vn_partitionSizeInBytes v = ucast (ucast ?m :: u32) * 1024 * 1024" using handle_args_ok [OF assms] by blast
  have "unat (ucast ?m :: u32) < 2 ^ 32" using unsigned_less [of "ucast ?m :: u32"] by simp
  then have "unat (vn_partitionSizeInBytes v) = unat (ucast ?m :: u32) * 2 ^ 20"
    by (simp add: w unat_word_ariths unsigned_ucast_eq take_bit_eq_mod mod_mult_left_eq)
  also have "unat (ucast ?m :: u32) = (if ca_partitionSizeMB a = 0 then 400 else unat (ca_partitionSizeMB a) mod 2 ^ 32)"
    by (simp add: unsigned_ucast_eq take_bit_eq_mod)
  finally have r: "unat (vn_partitionSizeInBytes v) =
      (if ca_partitionSizeMB a = 0 then 400 else unat (ca_partitionSizeMB a) mod 2 ^ 32) * 2 ^ 20" .
  have "vn_partitionSizeInBytes v = 0 \<longleftrightarrow> unat (vn_partitionSizeInBytes v) = 0" by (simp add: unat_eq_0)
  then have "vn_partitionSizeInBytes v = 0 \<longleftrightarrow> ca_partitionSizeMB a \<noteq> 0 \<and> 2 ^ 32 dvd unat (ca_partitionSizeMB a)"
    unfolding r by (auto simp: dvd_eq_mod_eq_0)
  with r show ?thesis by blast
qed

lemma large_partitions_accepted: "is_ok (handle_args sample_outside (sample_args\<lparr>ca_partitionSizeMB := 4294967296\<rparr>))"
  by code_simp

theorem partition_size_truncated_witness:
  "\<exists>v. handle_args sample_outside (sample_args\<lparr>ca_partitionSizeMB := 4294967296\<rparr>) = Inr v \<and> vn_partitionSizeInBytes v = 0"
proof -
  obtain v where v: "handle_args sample_outside (sample_args\<lparr>ca_partitionSizeMB := 4294967296\<rparr>) = Inr v"
    using large_partitions_accepted by (auto simp: is_ok_def split: sum.splits)
  from partition_size_truncated [OF v] have "vn_partitionSizeInBytes v = 0" by simp
  with v show ?thesis by blast
qed

text \<open>Nothing is ever checked with \<open>--checkOnly\<close>: whatever the settings and the clusters' times, the run ends
  with an error or by dereferencing a change reader that only \<open>CheckDriver\<close> would have made. Without the
  flag, settings that are accepted start the web server, after a check in the background if it is asked for.\<close>

theorem check_only_never_checks:
  "(ca_checkOnly a \<longrightarrow> \<not> is_ok (main_action ou srcTime dstTime a))
   \<and> (is_ok (handle_args ou a) \<and> ca_logLevel a \<in> set logLevelStrs \<and> \<not> ca_checkOnly a \<longrightarrow>
      main_action ou srcTime dstTime a = Inr (if ca_start a then CheckThenWebServer else RunWebServer))"
  by (auto simp: main_action_def handle_log_level_arg_def writes_off_call_def signal_readers_def rbind_def is_ok_def split: sum.splits)

theorem check_only_never_checks_witness:
  "\<not> is_ok (main_action sample_outside (Inr \<lparr>ts_T = 1, ts_I = 1\<rparr>) (Inr \<lparr>ts_T = 1, ts_I = 1\<rparr>) (sample_args\<lparr>ca_checkOnly := True\<rparr>))"
  using check_only_never_checks [of "sample_args\<lparr>ca_checkOnly := True\<rparr>"] by simp

end
