(* ===== verification/Spec2Isabelle.thy ===== *)
theory Spec2Isabelle
  imports Prelude Containers Bson_Core Mbson Doc_Key Bson_Compare Recheck_Doc Compare_Result Comparator
    Events Recheck_Queue Recheck_Tasks Oplog Id_Bounds Tasks Verify_Task Generations
    Keystring Effects Retry Go_Errors Server_Features Partitioning Index_Walk Partition_Schemes DocumentDB Metadata
    Change_Stream Natural_Reading Document_Readers Natural_Comparison
    Mismatch_Reports Progress_Reports
    Oplog_Start Fetch_Compare Settings
begin

text \<open>
  A verification development for migration-verifier, a Go program that checks that a migration from
  one MongoDB-like cluster (the source) to another (the destination) has copied every document.

  The program. A verification runs in generations. Generation 0 creates a task for each namespace
  (\<open>internal/verifier/check.go\<close>, \<open>verification_task.go\<close>); it compares the collections' metadata and
  splits the documents into partitions (\<open>internal/partitions\<close>), each a task of its own. Workers take
  tasks from the metadata database and compare the documents of a task: two readers deliver the
  documents of both clusters to a comparator (\<open>comparator.go\<close>, \<open>compare.go\<close>), which pairs them by key,
  compares each pair (\<open>bson_compare.go\<close>) and reports mismatches. Meanwhile a change reader per cluster
  (\<open>oplog_reader.go\<close>, \<open>change_stream.go\<close>) turns writes into events, and the events, like the mismatches,
  become rechecks of their documents in the next generation's queue (\<open>recheck.go\<close>,
  \<open>recheck_persist.go\<close>). Each later generation turns its queue into recheck tasks. When the user has
  turned writes off and all changes are handled, one last generation is run; its mismatches are the
  result.

  The theories, each of which opens with the files it models.
  \<^item> \<open>Prelude\<close>: bytes, Go strings, errors and panics as the left summand of a sum, loops with errors.
  \<^item> \<open>Containers\<close>: slices, history, ring buffer, write-once value, namespace map. \<open>Bson_Core\<close> and \<open>Mbson\<close>:
    raw BSON with its bounds checks, casts, array sizes; the encoder \<open>enc_doc\<close> that most statements use.
  \<^item> \<open>Doc_Key\<close>, \<open>Bson_Compare\<close>, \<open>Compare_Result\<close>, \<open>Comparator\<close>: keys of documents, the comparison of two
    documents and its details, results and their encoding, the comparator's loop with its caches.
  \<^item> \<open>Recheck_Doc\<close>, \<open>Recheck_Queue\<close>, \<open>Recheck_Tasks\<close>: recheck documents, their insertion in batches, and
    the tasks made from a queue.
  \<^item> \<open>Events\<close>, \<open>Oplog\<close>: change events and their counts; the oplog reader in both of its modes.
  \<^item> \<open>Id_Bounds\<close>: partitions and the predicates on their bounds, over the server's order of \<open>_id\<close> values.
  \<^item> \<open>Tasks\<close>: the collection of tasks, every operation on it, and the reset after an interruption.
  \<^item> \<open>Verify_Task\<close>: checking the documents of a task, from the comparator's reports to the outcome.
  \<^item> \<open>Generations\<close>: driver, workers, change readers and clusters as one transition system.
  \<^item> \<open>Effects\<close>: actions that change a state and may fail, with Hoare rules. \<open>Retry\<close>, \<open>Go_Errors\<close>: the
    retryer, and which errors it retries. \<open>Server_Features\<close>: versions, flavours, topologies.
  \<^item> \<open>Partitioning\<close>, \<open>Index_Walk\<close>, \<open>Partition_Schemes\<close>: the four ways to split a collection into
    partitions, and the choice between them.
  \<^item> \<open>Keystring\<close>: the decoder of the server's key format, which change stream resume tokens are in.
  \<^item> \<open>DocumentDB\<close>: what differs when the source is a DocumentDB cluster. \<open>Metadata\<close>: the task of a collection,
    from the comparison of specifications, indexes and shard keys to its partitions and its status.
  \<^item> \<open>Change_Stream\<close>: the change stream reader, from its pipeline and the opening of the stream to the loops that
    end it on MongoDB and on DocumentDB.
  \<^item> \<open>Natural_Reading\<close>: the source's reader of a natural-order partition, with record ids and resume tokens.
    \<open>Document_Readers\<close>: the query of a task's documents, and the readers that send them to the comparator.
    \<open>Natural_Comparison\<close>: both readers of a natural-order partition and the comparator together.
  \<^item> \<open>Mismatch_Reports\<close>: the recorded mismatches, from the attempts of a task to the reports and the web API.
    \<open>Progress_Reports\<close>: the numbers of progress reports, from the statistics of the tasks by namespace.
  \<^item> \<open>Oplog_Start\<close>: where the oplog reader starts, and its life across failures, restarts and truncations of the
    oplog. \<open>Fetch_Compare\<close>: the attempts of a task's comparison and the watchdog on its readers. \<open>Settings\<close>:
    from the command line to a verifier.
  \<^item> This theory: the path of a write from the oplog to the next generation's tasks.

  How the model corresponds to the code. A Go struct is a record with the code's field names (with a
  prefix where names clash), an enumeration a datatype, a fixed-width integer a word, a Go string a list of characters (one for each byte), a map an
  association list where its order or its size matters. A function that may return an error or panic
  returns a sum; a panic is the constructor \<open>Panic\<close>, so nothing the code refuses is hidden by a total
  HOL function. Definitions carry the names of the Go functions in lower case with underscores.
  Channels are lists of what is sent before they are closed; the order of map iteration, random
  numbers, clocks, and the choices of the server are parameters, and the laws assumed of them are
  named (\<open>cache_order_ok\<close>, \<open>id_order\<close>, \<open>task_picker\<close>, \<open>queue_returns\<close>, and for change streams \<open>tokens_cover\<close>, that events
  before a resume token have been delivered, and \<open>in_order\<close>; for the readers \<open>natural_server\<close>, where a resume
  token resumes, \<open>cursor_ok\<close>, \<open>fetch_ok\<close>, that a query for ids returns documents with these ids, and
  \<open>keys_hold_ids\<close>, that the keys of documents determine their ids; \<open>longest_first_ok\<close>, a stable sort by duration;
  \<open>token_decoder\<close>, that the driver decodes the resume tokens the program encodes).

  What the lemmas show. The comparison of raw documents decides equality of the documents' value
  trees up to the order of fields (\<open>Bson_Compare\<close>); the comparator reports every differing pair and
  every unpaired document once (\<open>Comparator\<close>); a task's outcome, its counts, its mismatches and the
  rechecks it enqueues are exactly those (\<open>Verify_Task\<close>); parsing raw and projected oplog entries gives
  the same events (\<open>Oplog\<close>); every write read from the oplog is enqueued and covered by a task of the
  next generation (this theory); a resume token is stored only after its rechecks (\<open>Recheck_Queue\<close>);
  recheck tasks hold every enqueued document once, within their limits (\<open>Recheck_Tasks\<close>); the filters
  of a partition select exactly its range (\<open>Id_Bounds\<close>), and the ranges of the partitions that sampling or
  the index walk make cover every \<open>_id\<close>, across retries (\<open>Partitioning\<close>, \<open>Index_Walk\<close>); the query of a task selects
  exactly its documents (\<open>Document_Readers\<close>); the source's reader of a natural-order partition sends exactly its
  range, whichever resume token is still known (\<open>Natural_Reading\<close>), and the reports that follow hold exactly the
  differences, wherever the comparator flushes (\<open>Natural_Comparison\<close>); a reset after an interruption is exact and can
  itself be interrupted (\<open>Tasks\<close>); and, over all interleavings of writes, change handling, workers and
  restarts, the mismatches of the last generation are exactly the documents in which the clusters
  differ (\<open>Generations\<close>). The reports show the longest lasting mismatches of the last attempts and count what they
  name, tolerated index options left out (\<open>Mismatch_Reports\<close>), and the progress reports add up the generation's
  tasks (\<open>Progress_Reports\<close>). An oplog reader that is opened again goes on where its saved token says, and loses
  nothing as long as the server keeps it (\<open>Oplog_Start\<close>); the attempts of a task share one channel of reports, and
  what a failed one reported counts (\<open>Fetch_Compare\<close>); a verifier that the command line configures has clusters that
  support its methods (\<open>Settings\<close>). Round trips (recheck documents, events, resume tokens), lengths computed in
  advance, and error behaviour are stated beside the operations. Theorems that show a behaviour the
  code does not mean to have say so in the text before them.

  Bounds and fuel. No definition has fuel: every loop is structural or has a termination proof by a
  measure on its input; the walk over the boundaries of a partition, which depends on the server, is a
  partial function with a theorem that it returns. Documents are assumed to be shorter than \<open>2 ^ 31\<close>
  bytes where their length prefix is read back (\<open>small\<close>); arrays have below a million elements where
  their size is computed in advance.

  Not modelled. The driver and the server (opening cursors, sessions, contexts), goroutine
  scheduling inside a component, logging, metrics, the text of reports, the web server, the parsing of flags. These parts do no computation on documents beyond calls of the modelled ones, or
  depend on replies of a server that is not part of the repository.
\<close>

section \<open>From the oplog to the next generation's tasks\<close>

definition entry_writes :: "oplog_env \<Rightarrow> oplog_entry \<Rightarrow> write_op list" where
  "entry_writes env e = (case e of
       WriteEntry w \<Rightarrow> if ns_watched env (wr_ns w) then [w] else []
     | ApplyOpsEntry ns ws \<Rightarrow> filter (\<lambda>w. ns_watched env (wr_ns w)) ws
     | _ \<Rightarrow> [])"

definition doc_without_rand :: "recheck_doc \<Rightarrow> recheck_doc" where
  "doc_without_rand d = d\<lparr>PrimaryKey := (PrimaryKey d)\<lparr>Rand := 0\<rparr>\<rparr>"

definition reads_as :: "bytes list \<Rightarrow> recheck_doc list \<Rightarrow> bool" where
  "reads_as raws docs \<longleftrightarrow> list_all2 (\<lambda>raw d. unmarshal_doc zero_doc raw = Inr d) raws docs"

text \<open>The query of the queue returns the inserted documents in some order, without the random part of the key.\<close>

definition queue_returns :: "bytes list list \<Rightarrow> bytes list \<Rightarrow> bool" where
  "queue_returns batches cursor \<longleftrightarrow> (\<exists>inserted docs. reads_as (concat batches) inserted \<and> reads_as cursor docs
     \<and> mset docs = image_mset doc_without_rand (mset inserted))"

lemma entry_events_writes:
  assumes "entry_events env noLen allow ts e = Inr evs"
  shows "map (write_event noLen ts) (entry_writes env e) = filter (\<lambda>ev. pe_DocID ev \<noteq> None) evs
    \<and> (\<forall>ev \<in> set evs. pe_DocID ev = None \<longrightarrow> pe_OpType ev \<in> set allowedSrcDDLOpTypes)"
proof (cases e)
  case (CommandEntry ns cmd coll rest)
  with assms show ?thesis
    by (auto simp: command_events_def entry_writes_def zero_event_def allowedSrcDDLOpTypes_def ddl_cmd_name_to_op_type_def
        rbind_eq_Inr split: if_splits option.splits)
qed (use assms in \<open>auto simp: entry_writes_def write_event_def make_event_def filter_empty_conv intro!: filter_True [symmetric]\<close>)

definition batch_writes :: "oplog_env \<Rightarrow> (timestamp \<times> oplog_entry) list \<Rightarrow> (timestamp \<times> write_op) list" where
  "batch_writes env es = concat (map (\<lambda>(ts, e). map (Pair ts) (entry_writes env e)) es)"

lemma oplog_fold_writes:
  "rfold (oplog_step env noLen allow) (events, t) es = Inr (events', t') \<Longrightarrow>
     filter (\<lambda>ev. pe_DocID ev \<noteq> None) events' = filter (\<lambda>ev. pe_DocID ev \<noteq> None) events
       @ map (\<lambda>(ts, w). write_event noLen ts w) (batch_writes env es)
     \<and> (\<forall>ev \<in> set events'. ev \<in> set events \<or> pe_DocID ev \<noteq> None \<or> pe_OpType ev \<in> set allowedSrcDDLOpTypes)"
proof (induction es arbitrary: events t)
  case Nil
  then show ?case by (auto simp: batch_writes_def)
next
  case (Cons x es)
  obtain ts e where x: "x = (ts, e)" by (cases x)
  from Cons.prems x obtain new where n: "entry_events env noLen allow ts e = Inr new"
    "rfold (oplog_step env noLen allow) (events @ new, ts) es = Inr (events', t')"
    by (auto simp: oplog_step_def rbind_eq_Inr)
  have "batch_writes env (x # es) = map (Pair ts) (entry_writes env e) @ batch_writes env es"
    by (simp add: batch_writes_def x)
  with Cons.IH [OF n(2)] entry_events_writes [OF n(1)] show ?case by (auto simp: comp_def)
qed

definition write_recheck :: "timestamp \<Rightarrow> write_op \<Rightarrow> u32 \<Rightarrow> recheck_doc" where
  "write_recheck ts w rand = \<lparr>PrimaryKey = \<lparr>SrcDatabaseName = fst (split_namespace (wr_ns w)),
       SrcCollectionName = snd (split_namespace (wr_ns w)), DocumentID = wr_id w, Rand = rand\<rparr>,
     DataSize = event_data_size (write_event (Some 0) ts w), ChangeOpTime = Some ts, FromDst = False,
     FirstMismatchTime = None\<rparr>"

definition write_input :: "timestamp \<Rightarrow> write_op \<Rightarrow> recheck_input" where
  "write_input ts w = \<lparr>ri_db = fst (split_namespace (wr_ns w)), ri_coll = snd (split_namespace (wr_ns w)),
     ri_docID = wr_id w, ri_dataSize = event_data_size (write_event (Some 0) ts w),
     ri_firstMismatch = None, ri_opTime = Some ts\<rparr>"

lemma event_recheck_write: "event_recheck Src m metaDB (write_event (Some 0) ts w) = [write_input ts w]"
  by (cases "split_namespace (wr_ns w)")
    (simp add: event_recheck_def write_event_def make_event_def source_namespace_def deref_def write_input_def)

lemma event_ok_write: "event_ok Src m metaDB (write_event (Some 0) ts w)"
  by (cases "wr_kind w") (auto simp: event_ok_def write_event_def make_event_def source_namespace_def deref_def
      projected_op_def oplog_op_to_operation_type_def bump_def split: option.splits)

lemma event_recheck_no_doc: "pe_DocID ev = None \<Longrightarrow> event_recheck origin m metaDB ev = []"
  by (simp add: event_recheck_def)

lemma concat_event_rechecks:
  "concat (map (event_recheck Src m metaDB) events)
     = concat (map (event_recheck Src m metaDB) (filter (\<lambda>ev. pe_DocID ev \<noteq> None) events))"
  by (induction events) (auto simp: event_recheck_no_doc)

lemma recheck_of_write: "recheck_of (Some Src) rand (write_input ts w) = write_recheck ts w rand"
  by (simp add: recheck_of_def write_input_def write_recheck_def)

lemma length_split_namespace:
  "length (fst (split_namespace ns)) + length (snd (split_namespace ns)) \<le> length ns"
  by (induction ns) (auto split: prod.split)

lemma join_split_namespace:
  "CHR ''.'' \<in> set ns \<Longrightarrow> fst (split_namespace ns) @ ''.'' @ snd (split_namespace ns) = ns"
  by (induction ns) (auto split: prod.split)

lemma write_recheck_roundtrip:
  assumes "wf_write w"
  shows "\<exists>d. marshal_doc (write_recheck ts w rand) = Inr d \<and> unmarshal_doc zero_doc d = Inr (write_recheck ts w rand)"
  by (rule marshal_unmarshal_doc)
    (use assms length_split_namespace [of "wr_ns w"] in \<open>auto simp: write_recheck_def wf_key_def wf_write_def\<close>)

fun write_rechecks :: "(nat \<Rightarrow> u32) \<Rightarrow> nat \<Rightarrow> (timestamp \<times> write_op) list \<Rightarrow> recheck_doc list" where
  "write_rechecks rnd i [] = []"
| "write_rechecks rnd i ((ts, w) # ws) = write_recheck ts w (rnd i) # write_rechecks rnd (Suc i) ws"

lemma marshalled_writes_read_back:
  "list_all (wf_write \<circ> snd) ws \<Longrightarrow> marshal_rechecks (Some Src) rnd i (map (\<lambda>(ts, w). write_input ts w) ws) = Inr raws \<Longrightarrow>
     reads_as raws (write_rechecks rnd i ws)"
proof (induction ws arbitrary: i raws)
  case (Cons x ws)
  obtain ts w where x: "x = (ts, w)" by (cases x)
  from Cons.prems x obtain d ds where d: "marshal_doc (write_recheck ts w (rnd i)) = Inr d" "raws = d # ds"
    "marshal_rechecks (Some Src) rnd (Suc i) (map (\<lambda>(ts, w). write_input ts w) ws) = Inr ds"
    by (auto simp: rbind_eq_Inr recheck_of_write)
  from write_recheck_roundtrip [of w ts "rnd i"] d(1) Cons.prems(1) x
  have "unmarshal_doc zero_doc d = Inr (write_recheck ts w (rnd i))" by auto
  with Cons.IH [OF _ d(3)] Cons.prems(1) show ?case by (simp add: reads_as_def x d(2))
qed (simp add: reads_as_def)

lemma reads_as_unique:
  assumes "reads_as raws docs" "reads_as raws docs'"
  shows "docs = docs'"
proof (rule nth_equalityI)
  show l: "length docs = length docs'"
    using assms by (metis reads_as_def list_all2_lengthD)
  fix i assume "i < length docs"
  with assms l have "unmarshal_doc zero_doc (raws ! i) = Inr (docs ! i)" "unmarshal_doc zero_doc (raws ! i) = Inr (docs' ! i)"
    by (simp_all add: reads_as_def list_all2_conv_all_nth)
  then show "docs ! i = docs' ! i" by simp
qed

lemma set_write_rechecks:
  "doc_without_rand ` set (write_rechecks rnd i ws) = (\<lambda>(ts, w). write_recheck ts w 0) ` set ws"
  by (induction rnd i ws rule: write_rechecks.induct) (auto simp: doc_without_rand_def write_recheck_def)

lemma newest_fold_mono: "\<not> ts_after a t \<Longrightarrow> \<not> ts_after a (foldl (\<lambda>t d. case ChangeOpTime d of
       Some ot \<Rightarrow> if FromDst d = f then newer_timestamp t ot else t | None \<Rightarrow> t) t ds)"
proof (induction ds arbitrary: t)
  case (Cons d ds)
  have "\<not> ts_after a (newer_timestamp t ot)" for ot
    using Cons.prems newer_timestamp_ge(1) [of t ot] ts_after_trans ts_after_total
    by (metis newer_timestamp_def)
  with Cons show ?case by (auto split: option.split)
qed simp

lemma newest_ge:
  assumes "d \<in> set ds" "ChangeOpTime d = Some ot" "FromDst d = f"
  shows "\<not> ts_after ot (newest f ds)"
proof -
  obtain xs ys where ds: "ds = xs @ d # ys" using assms(1) by (meson split_list)
  have "\<not> ts_after ot (newer_timestamp t ot)" for t by (rule newer_timestamp_ge)
  then show ?thesis
    unfolding newest_def ds foldl_append foldl.simps
    using assms(2,3) by (intro newest_fold_mono) simp
qed

lemma task_of_block:
  assumes "list_all2 task_describes bss ts" "list_all (\<lambda>bs. bs \<noteq> [] \<and> list_all block_ok bs) bss"
    and "d \<in> set (concat (concat bss))"
  shows "\<exists>t \<in> set ts. \<exists>bs. task_describes bs t \<and> d \<in> set (concat bs)
    \<and> doc_id d \<in> set (rt_Ids t) \<and> rt_Namespace t = fst (doc_ns d) @ ''.'' @ snd (doc_ns d)"
proof -
  obtain bs b where b: "bs \<in> set bss" "b \<in> set bs" "d \<in> set b" using assms(3) by auto
  obtain t where t: "t \<in> set ts" "task_describes bs t"
    using assms(1) b(1) unfolding list_all2_conv_all_nth in_set_conv_nth by fastforce
  have "block_ok b" using assms(2) b(1,2) by (simp add: list_all_iff)
  with b(3) have d: "doc_id d = doc_id (hd b)" "doc_ns d = doc_ns (hd b)" unfolding block_ok_def by blast+
  have ns: "doc_ns (hd b) = doc_ns (hd (hd bs))" using t(2) b(2) unfolding task_describes_def by blast
  have "doc_id d \<in> set (rt_Ids t)" using t(2) b(2) d(1) by (auto simp: task_describes_def)
  moreover have "rt_Namespace t = fst (doc_ns d) @ ''.'' @ snd (doc_ns d)"
    using t(2) d(2) ns by (simp add: task_describes_def)
  moreover have "d \<in> set (concat bs)" using b by auto
  ultimately show ?thesis using t by blast
qed

lemma wf_entry_writes: "wf_entry env e \<Longrightarrow> w \<in> set (entry_writes env e) \<Longrightarrow> wf_write w"
  by (cases e) (auto simp: entry_writes_def list_all_iff split: if_splits)

lemma wf_batch_writes:
  assumes "list_all (\<lambda>(ts, e). wf_entry env e \<and> query_selects env e \<and> ts \<noteq> ts_zero) es"
    and "(ts, w) \<in> set (batch_writes env es)"
  shows "wf_write w \<and> ts \<noteq> ts_zero"
proof -
  obtain e where e: "(ts, e) \<in> set es" "w \<in> set (entry_writes env e)"
    using assms(2) by (auto simp: batch_writes_def)
  with assms(1) have "wf_entry env e" "ts \<noteq> ts_zero" by (auto simp: list_all_iff)
  with wf_entry_writes e(2) show ?thesis by blast
qed

lemma event_rechecks_writes:
  "concat (map (event_recheck Src m metaDB) (map (\<lambda>(ts, w). write_event (Some 0) ts w) ws))
     = map (\<lambda>(ts, w). write_input ts w) ws"
  by (induction ws) (auto simp: event_recheck_write)

lemma write_events_persist:
  assumes "list_all (\<lambda>(ts, e). wf_entry oenv e \<and> query_selects oenv e \<and> ts \<noteq> ts_zero) es"
    and "rfold (oplog_step oenv (Some 0) allow) ([], t0) es = Inr (events, latest)"
  shows "\<exists>counts' rec' batches. persist_change_events Src m metaDB rnd counts rec events = Inr (counts', rec', batches)
    \<and> reads_as (concat batches) (write_rechecks rnd 0 (batch_writes oenv es))"
proof -
  let ?ws = "batch_writes oenv es"
  from oplog_fold_writes [OF assms(2)]
  have ev: "filter (\<lambda>ev. pe_DocID ev \<noteq> None) events = map (\<lambda>(ts, w). write_event (Some 0) ts w) ?ws"
    and ddl: "\<forall>ev \<in> set events. pe_DocID ev \<noteq> None \<or> pe_OpType ev \<in> set allowedSrcDDLOpTypes" by auto
  have "event_ok Src m metaDB e" if e: "e \<in> set events" for e
  proof (cases "pe_DocID e")
    case None
    with ddl e show ?thesis by (auto simp: event_ok_def)
  next
    case (Some x)
    with e have "e \<in> set (filter (\<lambda>ev. pe_DocID ev \<noteq> None) events)" by simp
    then obtain ts w where "e = write_event (Some 0) ts w" unfolding ev by auto
    then show ?thesis by (simp only: event_ok_write)
  qed
  then have "is_ok (persist_change_events Src m metaDB rnd counts rec events)"
    by (simp add: persist_change_events_ok_iff list_all_iff)
  then obtain counts' rec' batches where
    p: "persist_change_events Src m metaDB rnd counts rec events = Inr (counts', rec', batches)"
    by (metis is_ok_simps(2) prod_cases3 sumE)
  have "concat (map (event_recheck Src m metaDB) events) = map (\<lambda>(ts, w). write_input ts w) ?ws"
    unfolding concat_event_rechecks [of m metaDB events] ev by (rule event_rechecks_writes)
  with persist_change_events_raws [OF p]
  have "marshal_rechecks (Some Src) rnd 0 (map (\<lambda>(ts, w). write_input ts w) ?ws) = Inr (concat batches)" by simp
  moreover have "list_all (wf_write \<circ> snd) ?ws"
    using wf_batch_writes [OF assms(1)] by (auto simp: list_all_iff)
  ultimately have "reads_as (concat batches) (write_rechecks rnd 0 ?ws)"
    by (intro marshalled_writes_read_back)
  with p show ?thesis by blast
qed

lemma queue_gives_writes:
  assumes "reads_as (concat batches) (write_rechecks rnd 0 ws)" "queue_returns batches cursor"
  shows "\<exists>docs. reads_as cursor docs \<and> set docs = (\<lambda>(ts, w). write_recheck ts w 0) ` set ws"
proof -
  from assms(2) obtain inserted docs where q: "reads_as (concat batches) inserted" "reads_as cursor docs"
    "mset docs = image_mset doc_without_rand (mset inserted)" by (auto simp: queue_returns_def)
  have "inserted = write_rechecks rnd 0 ws" by (rule reads_as_unique [OF q(1) assms(1)])
  moreover have "set docs = doc_without_rand ` set inserted" by (metis q(3) set_image_mset set_mset_mset)
  ultimately show ?thesis using q(2) set_write_rechecks [of rnd 0 ws] by auto
qed

lemma task_for_write:
  assumes "list_all2 task_describes bss ts" "list_all (\<lambda>bs. bs \<noteq> [] \<and> list_all block_ok bs) bss"
    and "write_recheck t w 0 \<in> set (concat (concat bss))" "t \<noteq> ts_zero" "CHR ''.'' \<in> set (wr_ns w)"
  shows "\<exists>task \<in> set ts. rt_Namespace task = wr_ns w \<and> wr_id w \<in> set (rt_Ids task)
    \<and> (\<exists>srcTS. rt_SrcTimestamp task = Some srcTS \<and> \<not> ts_after t srcTS)"
proof -
  let ?d = "write_recheck t w 0"
  from task_of_block [OF assms(1-3)] obtain task bs where task: "task \<in> set ts" "task_describes bs task"
    "?d \<in> set (concat bs)" "doc_id ?d \<in> set (rt_Ids task)"
    "rt_Namespace task = fst (doc_ns ?d) @ ''.'' @ snd (doc_ns ?d)" by blast
  have n: "\<not> ts_after t (newest False (concat bs))"
    by (rule newest_ge [OF task(3)]) (simp_all add: write_recheck_def)
  then have "newest False (concat bs) \<noteq> ts_zero"
    using assms(4) ts_after_total [of t ts_zero] by auto
  with task(2) have "rt_SrcTimestamp task = Some (newest False (concat bs))"
    by (simp add: task_describes_def if_ts_not_zero_def)
  moreover have "rt_Namespace task = wr_ns w"
    using task(5) join_split_namespace [OF assms(5)] by (simp add: doc_ns_def write_recheck_def)
  moreover have "wr_id w \<in> set (rt_Ids task)" using task(4) by (simp add: doc_id_def write_recheck_def)
  ultimately show ?thesis using task(1) n by blast
qed



end
